(* ===== verification/Positional.thy ===== *)
theory Positional
  imports MC_Prelude
begin

text \<open>
  Positional numerals, most significant digit first. The loops that encode integers
  (base 58 in the identity layer, base 256 for \<open>int.to_bytes\<close>, base 10 for \<open>str\<close>)
  all produce such numerals; this theory has the two facts their round trips rest on.
\<close>

fun digits :: "nat \<Rightarrow> nat \<Rightarrow> nat list" where
  "digits b n = (if n = 0 \<or> b < 2 then [] else digits b (n div b) @ [n mod b])"

declare digits.simps [simp del]

definition numeral_value :: "nat \<Rightarrow> nat list \<Rightarrow> nat" where
  "numeral_value b ds = foldl (\<lambda>a d. a * b + d) 0 ds"

lemma digits_0 [simp]: "digits b 0 = []"
  by (simp add: digits.simps)

lemma digits_pos: "0 < n \<Longrightarrow> 2 \<le> b \<Longrightarrow> digits b n = digits b (n div b) @ [n mod b]"
  by (subst digits.simps) simp

lemma numeral_value_Nil [simp]: "numeral_value b [] = 0"
  by (simp add: numeral_value_def)

lemma numeral_value_snoc [simp]:
  "numeral_value b (ds @ [d]) = numeral_value b ds * b + d"
  by (simp add: numeral_value_def)

lemma numeral_value_zeros [simp]: "numeral_value b (replicate z 0 @ ds) = numeral_value b ds"
proof -
  have "foldl (\<lambda>a d. a * b + d) 0 (replicate z 0) = 0" by (induction z) auto
  then show ?thesis by (simp add: numeral_value_def)
qed

lemma numeral_value_digits: "2 \<le> b \<Longrightarrow> numeral_value b (digits b n) = n"
proof (induction b n rule: digits.induct)
  case (1 b n)
  then show ?case by (cases "n = 0") (simp_all add: digits_pos)
qed

lemma digits_lt: "d \<in> set (digits b n) \<Longrightarrow> d < b"
proof (induction b n rule: digits.induct)
  case (1 b n)
  show ?case
  proof (cases "n = 0 \<or> b < 2")
    case True
    with 1 show ?thesis by (simp add: digits.simps)
  next
    case False
    with 1 show ?thesis by (auto simp: digits_pos)
  qed
qed

lemma digits_eq_Nil_iff: "2 \<le> b \<Longrightarrow> digits b n = [] \<longleftrightarrow> n = 0"
  by (metis digits_0 digits_pos gr0I snoc_eq_iff_butlast)

lemma digits_hd_nonzero: "2 \<le> b \<Longrightarrow> digits b n \<noteq> [] \<Longrightarrow> hd (digits b n) \<noteq> 0"
proof (induction b n rule: digits.induct)
  case (1 b n)
  then have n: "0 < n" by (auto simp: digits_eq_Nil_iff)
  show ?case
  proof (cases "n < b")
    case True
    with n 1 show ?thesis by (simp add: digits_pos)
  next
    case False
    then have "digits b (n div b) \<noteq> []" using 1 by (auto simp: digits_eq_Nil_iff div_eq_0_iff)
    with n 1 show ?thesis by (simp add: digits_pos)
  qed
qed

lemma digits_lead: "2 \<le> b \<Longrightarrow> digits b n = [] \<or> hd (digits b n) \<noteq> 0"
  using digits_hd_nonzero by blast

lemma digits_numeral_value:
  "2 \<le> b \<Longrightarrow> \<forall>d \<in> set ds. d < b \<Longrightarrow> digits b (numeral_value b ds) = dropWhile (\<lambda>d. d = 0) ds"
proof (induction ds rule: rev_induct)
  case Nil
  then show ?case by simp
next
  case (snoc d ds)
  let ?v = "numeral_value b ds"
  have d: "d < b" and b: "0 < b" using snoc.prems by auto
  have IH: "digits b ?v = dropWhile (\<lambda>d. d = 0) ds" using snoc by simp
  show ?case
  proof (cases "?v * b + d = 0")
    case True
    then have "?v = 0" and "d = 0" using b by auto
    then have "dropWhile (\<lambda>d. d = 0) ds = []" using IH by simp
    with \<open>d = 0\<close> \<open>?v = 0\<close> show ?thesis by (simp add: dropWhile_append)
  next
    case False
    then have step: "digits b (?v * b + d) = digits b ?v @ [d]"
      using snoc.prems d b by (simp add: digits_pos)
    show ?thesis
    proof (cases "?v = 0")
      case True
      then have "dropWhile (\<lambda>d. d = 0) ds = []" using IH by simp
      with True False step show ?thesis by (simp add: dropWhile_append)
    next
      case False
      then have "dropWhile (\<lambda>d. d = 0) ds \<noteq> []"
        using IH snoc.prems by (metis digits_eq_Nil_iff)
      with IH step show ?thesis by (auto simp: dropWhile_append)
    qed
  qed
qed

text \<open>A list is its run of leading zeros followed by the rest.\<close>

lemma replicate_takeWhile_dropWhile:
  "replicate (length (takeWhile (\<lambda>d. d = x) xs)) x @ dropWhile (\<lambda>d. d = x) xs = xs"
  by (induction xs) auto

lemma takeWhile_replicate_append:
  "ys = [] \<or> hd ys \<noteq> x \<Longrightarrow> takeWhile (\<lambda>d. d = x) (replicate n x @ ys) = replicate n x"
  by (induction n) (cases ys; auto)+

lemma digits_inj: "2 \<le> b \<Longrightarrow> digits b m = digits b n \<Longrightarrow> m = n"
  by (metis numeral_value_digits)

end
