(* ===== verification/Base58.thy ===== *)
theory Base58
  imports Positional
begin

text \<open>
  Models \<^verbatim>\<open>backend/app/identity/_base58.py\<close>: the Bitcoin-alphabet base-58 encoder and
  decoder every key, DID, signature and content hash of the system passes through. The two
  are inverse to each other on bytes and on well-formed strings, so the encoding is a
  bijection between byte strings and strings over the alphabet.
\<close>

section \<open>The alphabet\<close>

definition b58_alphabet :: string where
  "b58_alphabet = ''123456789ABCDEFGHJKLMNPQRSTUVWXYZabcdefghijkmnopqrstuvwxyz''"

text \<open>\<open>_ALPHABET_MAP\<close>: the position of a character, if it is in the alphabet.\<close>

fun index_of :: "'a \<Rightarrow> 'a list \<Rightarrow> nat option" where
  "index_of c [] = None"
| "index_of c (x # xs) = (if x = c then Some 0 else map_option Suc (index_of c xs))"

definition b58_index :: "char \<Rightarrow> nat option" where
  "b58_index c = index_of c b58_alphabet"

section \<open>Integers and bytes\<close>

text \<open>\<open>int.from_bytes(data, "big")\<close>.\<close>

definition int_from_bytes :: "bytes \<Rightarrow> nat" where
  "int_from_bytes bs = foldl (\<lambda>a b. a * 256 + unat b) 0 bs"

text \<open>\<open>n.bit_length()\<close> and \<open>n.to_bytes(len, "big")\<close> (the length is always sufficient here).\<close>

fun bit_len :: "nat \<Rightarrow> nat" where
  "bit_len n = (if n = 0 then 0 else Suc (bit_len (n div 2)))"

declare bit_len.simps [simp del]

fun to_bytes :: "nat \<Rightarrow> nat \<Rightarrow> bytes" where
  "to_bytes 0 n = []"
| "to_bytes (Suc len) n = to_bytes len (n div 256) @ [of_nat (n mod 256)]"

section \<open>Encoding\<close>

text \<open>The \<open>while num > 0\<close> loop, prepending one character per step.\<close>

fun b58_loop :: "nat \<Rightarrow> string \<Rightarrow> string" where
  "b58_loop num out =
     (if num > 0 then b58_loop (num div 58) (b58_alphabet ! (num mod 58) # out) else out)"

declare b58_loop.simps [simp del]

definition b58encode :: "bytes \<Rightarrow> string" where
  "b58encode data =
     (if data = [] then []
      else let leading_zeros = length (takeWhile (\<lambda>d. d = 0) data);
               num = int_from_bytes data
           in replicate leading_zeros (b58_alphabet ! 0) @ b58_loop num [])"

section \<open>Decoding\<close>

datatype b58_error = InvalidBase58Character char

fun b58_accumulate :: "nat \<Rightarrow> string \<Rightarrow> b58_error + nat" where
  "b58_accumulate num [] = Inr num"
| "b58_accumulate num (ch # cs) =
     (case b58_index ch of
        None \<Rightarrow> Inl (InvalidBase58Character ch)
      | Some i \<Rightarrow> b58_accumulate (num * 58 + i) cs)"

definition b58decode :: "string \<Rightarrow> b58_error + bytes" where
  "b58decode encoded =
     (if encoded = [] then Inr []
      else let leading_ones = length (takeWhile (\<lambda>c. c = b58_alphabet ! 0) encoded)
           in bindE (b58_accumulate 0 encoded) (\<lambda>num.
                let body = (if num = 0 then [] else to_bytes ((bit_len num + 7) div 8) num)
                in Inr (replicate leading_ones 0 @ body)))"

section \<open>The alphabet is a numeral system\<close>

lemma length_b58_alphabet [simp]: "length b58_alphabet = 58"
  by (simp add: b58_alphabet_def)

lemma distinct_b58_alphabet: "distinct b58_alphabet"
  by (simp add: b58_alphabet_def)

lemma index_of_Some: "index_of c xs = Some i \<Longrightarrow> i < length xs \<and> xs ! i = c"
  by (induction xs arbitrary: i) (auto split: if_splits)

lemma index_of_nth: "distinct xs \<Longrightarrow> i < length xs \<Longrightarrow> index_of (xs ! i) xs = Some i"
proof (induction xs arbitrary: i)
  case Nil
  then show ?case by simp
next
  case (Cons x xs)
  then show ?case by (cases i) auto
qed

lemma b58_index_nth [simp]: "i < 58 \<Longrightarrow> b58_index (b58_alphabet ! i) = Some i"
  by (simp add: b58_index_def index_of_nth distinct_b58_alphabet)

lemma b58_index_Some: "b58_index c = Some i \<Longrightarrow> i < 58 \<and> b58_alphabet ! i = c"
  by (auto simp: b58_index_def dest: index_of_Some)

lemma b58_nth_eq_iff: "i < 58 \<Longrightarrow> j < 58 \<Longrightarrow> b58_alphabet ! i = b58_alphabet ! j \<longleftrightarrow> i = j"
  by (simp add: nth_eq_iff_index_eq distinct_b58_alphabet)

section \<open>The loops compute numerals\<close>

lemma int_from_bytes_value: "int_from_bytes bs = numeral_value 256 (map unat bs)"
  by (simp add: int_from_bytes_def numeral_value_def foldl_map)

lemma b58_loop_digits: "b58_loop n out = map ((!) b58_alphabet) (digits 58 n) @ out"
proof (induction n out rule: b58_loop.induct)
  case (1 num out)
  then show ?case by (subst b58_loop.simps) (auto simp: digits_pos)
qed

lemma b58_accumulate_value:
  "b58_accumulate n cs =
     (case map_option (foldl (\<lambda>a d. a * 58 + d) n) (those (map b58_index cs)) of
        Some v \<Rightarrow> Inr v
      | None \<Rightarrow> Inl (InvalidBase58Character (hd (dropWhile (\<lambda>c. b58_index c \<noteq> None) cs))))"
  by (induction cs arbitrary: n) (auto split: option.splits)

lemma to_bytes_digits:
  "length (digits 256 n) \<le> len \<Longrightarrow>
   to_bytes len n = replicate (len - length (digits 256 n)) 0 @ map of_nat (digits 256 n)"
proof (induction len arbitrary: n)
  case 0
  then show ?case by simp
next
  case (Suc len)
  show ?case
  proof (cases "n = 0")
    case True
    have "to_bytes len 0 = replicate len 0" using Suc.IH[of 0] by simp
    with True show ?thesis by (simp add: replicate_append_same)
  next
    case False
    then have d: "digits 256 n = digits 256 (n div 256) @ [n mod 256]"
      by (simp add: digits_pos)
    with Suc show ?thesis by simp
  qed
qed

lemma bit_len_bounds: "0 < n \<Longrightarrow> 2 ^ (bit_len n - 1) \<le> n \<and> n < 2 ^ bit_len n"
proof (induction n rule: bit_len.induct)
  case (1 n)
  show ?case
  proof (cases "n div 2 = 0")
    case True
    with 1 have "n = 1" by auto
    then show ?thesis by (simp add: bit_len.simps)
  next
    case False
    then have IH: "2 ^ (bit_len (n div 2) - 1) \<le> n div 2" "n div 2 < 2 ^ bit_len (n div 2)"
      using 1 by auto
    have b: "bit_len n = Suc (bit_len (n div 2))" using 1 by (simp add: bit_len.simps)
    have "bit_len (n div 2) = Suc (bit_len (n div 2) - 1)"
      using False by (simp add: bit_len.simps [of "n div 2"])
    then have "(2::nat) ^ bit_len (n div 2) = 2 * 2 ^ (bit_len (n div 2) - 1)"
      by (metis power_Suc)
    then have "2 ^ bit_len (n div 2) \<le> 2 * (n div 2)" using IH(1) by simp
    moreover have "n < 2 * 2 ^ bit_len (n div 2)" using IH(2) by auto
    ultimately show ?thesis using b by auto
  qed
qed

lemma length_digits: "2 \<le> b \<Longrightarrow> length (digits b n) \<le> k \<longleftrightarrow> n < b ^ k"
proof (induction k arbitrary: n)
  case 0
  then show ?case by (simp add: digits_eq_Nil_iff)
next
  case (Suc k)
  show ?case
  proof (cases "n = 0")
    case True
    with Suc.prems show ?thesis by simp
  next
    case False
    then have "length (digits b n) \<le> Suc k \<longleftrightarrow> n div b < b ^ k"
      using Suc by (simp add: digits_pos)
    also have "\<dots> \<longleftrightarrow> n < b ^ Suc k"
      using Suc.prems by (simp add: div_less_iff_less_mult mult.commute)
    finally show ?thesis .
  qed
qed

lemma to_bytes_minimal:
  assumes "0 < n"
  shows "to_bytes ((bit_len n + 7) div 8) n = map of_nat (digits 256 n)"
proof -
  let ?l = "(bit_len n + 7) div 8" and ?m = "length (digits 256 n)"
  have pow: "(256::nat) ^ k = 2 ^ (8 * k)" for k
    by (simp add: power_mult)
  have bl: "2 ^ (bit_len n - 1) \<le> n" "n < 2 ^ bit_len n"
    using bit_len_bounds[OF assms] by auto
  have "(2::nat) ^ bit_len n \<le> 2 ^ (8 * ?l)" by (rule power_increasing) auto
  then have "n < 256 ^ ?l" unfolding pow using bl(2) by (rule less_le_trans[rotated])
  then have le: "?m \<le> ?l" by (simp add: length_digits)
  have "n < 256 ^ ?m" using length_digits[of 256 n ?m] by simp
  then have "(2::nat) ^ (bit_len n - 1) < 2 ^ (8 * ?m)" unfolding pow using bl(1) by (rule le_less_trans[rotated])
  then have "bit_len n - 1 < 8 * ?m" by (rule power_less_imp_less_exp[rotated]) simp
  then have "?l \<le> ?m" by auto
  with le have "?l = ?m" by simp
  then show ?thesis using to_bytes_digits[of n ?l] by simp
qed

section \<open>Round trips\<close>

lemma map_of_nat_unat [simp]: "map of_nat (map unat (bs :: bytes)) = bs"
  by (induction bs) auto

lemma dropWhile_map_unat:
  "dropWhile (\<lambda>d. d = 0) (map unat (bs :: bytes)) = map unat (dropWhile (\<lambda>d. d = 0) bs)"
  by (induction bs) (auto simp: unat_eq_0)

lemma digits_from_bytes:
  "digits 256 (int_from_bytes bs) = map unat (dropWhile (\<lambda>d. d = 0) bs)"
proof -
  have "unat b < 256" for b :: byte using unsigned_less[of b] by simp
  then show ?thesis
    by (simp add: int_from_bytes_value digits_numeral_value dropWhile_map_unat)
qed

text \<open>Both directions in closed form, over the numerals.\<close>

lemma b58encode_alt:
  "b58encode bs =
     replicate (length (takeWhile (\<lambda>d. d = 0) bs)) (b58_alphabet ! 0)
       @ map ((!) b58_alphabet) (digits 58 (int_from_bytes bs))"
  by (simp add: b58encode_def b58_loop_digits int_from_bytes_def Let_def)

lemma b58decode_alt:
  assumes "those (map b58_index s) = Some ds"
  shows "b58decode s =
     Inr (replicate (length (takeWhile (\<lambda>c. c = b58_alphabet ! 0) s)) 0
            @ map of_nat (digits 256 (numeral_value 58 ds)))"
proof (cases "s = []")
  case True
  with assms show ?thesis by (simp add: b58decode_def)
next
  case False
  then have "b58_accumulate 0 s = Inr (numeral_value 58 ds)"
    using assms by (simp add: b58_accumulate_value numeral_value_def)
  with False show ?thesis
    by (simp add: b58decode_def Let_def to_bytes_minimal)
qed

lemma those_map_Some: "those (map Some xs) = Some xs"
  by (induction xs) auto

lemma those_b58_index_encode:
  assumes "\<forall>d \<in> set ds. d < 58"
  shows "those (map b58_index (map ((!) b58_alphabet) ds)) = Some ds"
proof -
  have "map b58_index (map ((!) b58_alphabet) ds) = map Some ds" using assms by simp
  then show ?thesis by (simp only: those_map_Some)
qed

lemma those_b58_index_decode:
  "those (map b58_index s) = Some ds \<Longrightarrow>
     s = map ((!) b58_alphabet) ds \<and> (\<forall>d \<in> set ds. d < 58)"
  by (induction s arbitrary: ds) (auto dest: b58_index_Some split: option.splits)

lemma takeWhile_alphabet:
  "\<forall>d \<in> set ds. d < 58 \<Longrightarrow>
   length (takeWhile (\<lambda>c. c = b58_alphabet ! 0) (map ((!) b58_alphabet) ds))
     = length (takeWhile (\<lambda>d. d = 0) ds)"
  by (induction ds) (auto simp: b58_nth_eq_iff)

lemma b58decode_b58encode [simp]: "b58decode (b58encode bs) = Inr bs"
proof -
  let ?z = "length (takeWhile (\<lambda>d. d = 0) bs)" and ?ds = "digits 58 (int_from_bytes bs)"
  let ?all = "replicate ?z 0 @ ?ds"
  have lt: "\<forall>d \<in> set ?all. d < 58" by (auto dest: digits_lt)
  have enc: "b58encode bs = map ((!) b58_alphabet) ?all" by (simp add: b58encode_alt)
  have dec: "those (map b58_index (b58encode bs)) = Some ?all"
    unfolding enc by (rule those_b58_index_encode[OF lt])
  have "?ds = [] \<or> hd ?ds \<noteq> 0" by (rule digits_lead) simp
  then have ones: "length (takeWhile (\<lambda>d. d = 0) ?all) = ?z"
    by (simp add: takeWhile_replicate_append)
  have val: "numeral_value 58 ?all = int_from_bytes bs" by (simp add: numeral_value_digits)
  have "b58decode (b58encode bs) = Inr (replicate ?z 0 @ dropWhile (\<lambda>d. d = 0) bs)"
    using b58decode_alt[OF dec] takeWhile_alphabet[OF lt] ones val
    by (simp only: enc digits_from_bytes map_of_nat_unat)
  then show ?thesis by (simp only: replicate_takeWhile_dropWhile)
qed

lemma b58encode_b58decode: "b58decode s = Inr bs \<Longrightarrow> b58encode bs = s"
proof -
  assume dec: "b58decode s = Inr bs"
  obtain ds where ds: "those (map b58_index s) = Some ds"
  proof (cases "those (map b58_index s)")
    case None
    then have "s \<noteq> []" by auto
    with None dec have False by (simp add: b58decode_def Let_def b58_accumulate_value)
    then show ?thesis ..
  qed
  then have s: "s = map ((!) b58_alphabet) ds" and lt: "\<forall>d \<in> set ds. d < 58"
    by (auto dest: those_b58_index_decode)
  let ?z = "length (takeWhile (\<lambda>d. d = 0) ds)" and ?body = "digits 256 (numeral_value 58 ds)"
  have z: "length (takeWhile (\<lambda>c. c = b58_alphabet ! 0) s) = ?z"
    unfolding s by (rule takeWhile_alphabet[OF lt])
  have bs: "bs = replicate ?z 0 @ map of_nat ?body"
    using dec b58decode_alt[OF ds] by (simp only: z sum.inject)
  have unat_body: "map unat (map of_nat ?body :: bytes) = ?body"
    by (auto intro!: map_idI simp: unat_of_nat dest: digits_lt)
  have "int_from_bytes bs = numeral_value 256 (replicate ?z 0 @ ?body)"
    unfolding bs int_from_bytes_value map_append unat_body by simp
  then have val: "int_from_bytes bs = numeral_value 58 ds" by (simp add: numeral_value_digits)
  have "?body = [] \<or> hd ?body \<noteq> 0" by (rule digits_lead) simp
  then have "map of_nat ?body = ([] :: bytes) \<or> hd (map of_nat ?body :: bytes) \<noteq> 0"
    using unat_body by (metis hd_map list.map_disc_iff unat_0)
  then have lead: "length (takeWhile (\<lambda>d. d = 0) bs) = ?z"
    unfolding bs by (simp add: takeWhile_replicate_append)
  have "b58encode bs = map ((!) b58_alphabet) (replicate ?z 0 @ dropWhile (\<lambda>d. d = 0) ds)"
    using lt by (simp add: b58encode_alt lead val digits_numeral_value)
  then show ?thesis by (simp only: replicate_takeWhile_dropWhile s)
qed

text \<open>The encoding is a bijection between byte strings and the strings the decoder
  accepts: a string decodes to given bytes exactly when it is their encoding. So no byte
  string has two spellings, and every byte string survives the round trip.\<close>

theorem b58_bijective: "b58decode s = Inr bs \<longleftrightarrow> s = b58encode bs"
  using b58encode_b58decode by auto

end
