(* ===== verification/Py_Strings.thy ===== *)
theory Py_Strings
  imports Positional
begin

text \<open>
  The Python string operations the modelled code calls: \<open>startswith\<close>, \<open>split\<close>,
  \<open>join\<close>, \<open>strip\<close>, \<open>lower\<close>/\<open>upper\<close>, \<open>str(int)\<close>, \<open>int(str)\<close> and
  \<open>encode("utf-8")\<close>. Strings are UTF-8 bytes; case mapping and white space are those of
  the ASCII range, which is all the modelled callers depend on.
\<close>

section \<open>Searching and splitting\<close>

definition starts_with :: "string \<Rightarrow> string \<Rightarrow> bool" where
  "starts_with p s \<longleftrightarrow> take (length p) s = p"

lemma starts_with_append [simp]: "starts_with p (p @ s)"
  by (simp add: starts_with_def)

lemma starts_with_iff: "starts_with p s \<longleftrightarrow> (\<exists>t. s = p @ t)"
  unfolding starts_with_def
  by (metis append_eq_conv_conj append_take_drop_id)

text \<open>\<open>s.split(c)\<close> for a one-character separator.\<close>

fun split_on :: "char \<Rightarrow> string \<Rightarrow> string list" where
  "split_on c [] = [[]]"
| "split_on c (x # xs) =
     (if x = c then [] # split_on c xs
      else (case split_on c xs of [] \<Rightarrow> [[x]] | y # ys \<Rightarrow> (x # y) # ys))"

text \<open>\<open>s.split(c, n)\<close>: at most \<open>n\<close> splits.\<close>

fun split_max :: "nat \<Rightarrow> char \<Rightarrow> string \<Rightarrow> string list" where
  "split_max 0 c s = [s]"
| "split_max (Suc n) c s =
     (if c \<in> set s
      then takeWhile (\<lambda>x. x \<noteq> c) s # split_max n c (tl (dropWhile (\<lambda>x. x \<noteq> c) s))
      else [s])"

text \<open>\<open>sep.join(xs)\<close>.\<close>

fun join :: "string \<Rightarrow> string list \<Rightarrow> string" where
  "join sep [] = []"
| "join sep [x] = x"
| "join sep (x # y # ys) = x @ sep @ join sep (y # ys)"

lemma split_on_not_Nil [simp]: "split_on c s \<noteq> []"
  by (cases s) (auto split: list.splits)

lemma split_on_Cons_hd:
  "x \<noteq> c \<Longrightarrow> split_on c (x # xs) = (x # hd (split_on c xs)) # tl (split_on c xs)"
  by (cases "split_on c xs") auto

lemma join_split_on: "join [c] (split_on c s) = s"
proof (induction s)
  case Nil
  then show ?case by simp
next
  case (Cons x xs)
  obtain y ys where yy: "split_on c xs = y # ys" by (cases "split_on c xs") auto
  with Cons show ?case by (cases ys) auto
qed

lemma split_on_no_sep: "c \<notin> set s \<Longrightarrow> split_on c s = [s]"
  by (induction s) auto

lemma split_on_append:
  "c \<notin> set s \<Longrightarrow> split_on c (s @ c # t) = s # split_on c t"
  by (induction s) auto

lemma split_on_parts: "p \<in> set (split_on c s) \<Longrightarrow> c \<notin> set p"
proof (induction s arbitrary: p)
  case Nil
  then show ?case by simp
next
  case (Cons x xs)
  then show ?case by (cases "split_on c xs") (auto split: if_splits)
qed

lemma takeWhile_sep: "c \<notin> set p \<Longrightarrow> takeWhile (\<lambda>x. x \<noteq> c) (p @ c # t) = p"
  by (induction p) auto

lemma dropWhile_sep: "c \<notin> set p \<Longrightarrow> dropWhile (\<lambda>x. x \<noteq> c) (p @ c # t) = c # t"
  by (induction p) auto

lemma split_max_sep [simp]:
  "c \<notin> set p \<Longrightarrow> split_max (Suc n) c (p @ c # t) = p # split_max n c t"
  by (simp add: takeWhile_sep dropWhile_sep)

lemma takeWhile_dropWhile_sep:
  "c \<in> set s \<Longrightarrow> s = takeWhile (\<lambda>x. x \<noteq> c) s @ c # tl (dropWhile (\<lambda>x. x \<noteq> c) s)"
proof (induction s)
  case Nil
  then show ?case by simp
next
  case (Cons x xs)
  then show ?case by (cases "x = c") auto
qed

lemma takeWhile_no_sep: "c \<notin> set (takeWhile (\<lambda>x. x \<noteq> c) s)"
  by (auto dest: set_takeWhileD)

section \<open>Case and white space\<close>

definition lower_char :: "char \<Rightarrow> char" where
  "lower_char c = (let n = of_char c :: nat in if 65 \<le> n \<and> n \<le> 90 then char_of (n + 32) else c)"

definition upper_char :: "char \<Rightarrow> char" where
  "upper_char c = (let n = of_char c :: nat in if 97 \<le> n \<and> n \<le> 122 then char_of (n - 32) else c)"

definition str_lower :: "string \<Rightarrow> string" where
  "str_lower = map lower_char"

definition str_upper :: "string \<Rightarrow> string" where
  "str_upper = map upper_char"

definition is_space :: "char \<Rightarrow> bool" where
  "is_space c = (let n = of_char c :: nat in (9 \<le> n \<and> n \<le> 13) \<or> (28 \<le> n \<and> n \<le> 32))"

definition strip_by :: "(char \<Rightarrow> bool) \<Rightarrow> string \<Rightarrow> string" where
  "strip_by p s = rev (dropWhile p (rev (dropWhile p s)))"

definition str_strip :: "string \<Rightarrow> string" where
  "str_strip s = strip_by is_space s"

definition replace_char :: "char \<Rightarrow> char \<Rightarrow> string \<Rightarrow> string" where
  "replace_char a b = map (\<lambda>c. if c = a then b else c)"

lemma dropWhile_id: "s = [] \<or> \<not> p (hd s) \<Longrightarrow> dropWhile p s = s"
  by (cases s) auto

lemma strip_by_id:
  assumes "s = [] \<or> (\<not> p (hd s) \<and> \<not> p (last s))"
  shows "strip_by p s = s"
proof -
  have "dropWhile p s = s" using assms by (auto intro: dropWhile_id)
  moreover have "dropWhile p (rev s) = rev s" using assms by (auto intro!: dropWhile_id simp: hd_rev)
  ultimately show ?thesis by (simp add: strip_by_def)
qed

lemma upper_char_not_lower: "\<not> (97 \<le> (of_char (upper_char c) :: nat) \<and> (of_char (upper_char c) :: nat) \<le> 122)"
  by (auto simp: upper_char_def Let_def)

lemma str_upper_idem [simp]: "str_upper (str_upper s) = str_upper s"
proof -
  have "upper_char (upper_char c) = upper_char c" for c
    using upper_char_not_lower[of c] by (subst upper_char_def) (auto simp: Let_def)
  then show ?thesis by (simp add: str_upper_def)
qed

section \<open>Decimal integers\<close>

definition digit_char :: "nat \<Rightarrow> char" where
  "digit_char d = char_of (48 + d)"

definition digit_value :: "char \<Rightarrow> nat option" where
  "digit_value c = (let n = of_char c :: nat in if 48 \<le> n \<and> n \<le> 57 then Some (n - 48) else None)"

definition str_nat :: "nat \<Rightarrow> string" where
  "str_nat n = (if n = 0 then ''0'' else map digit_char (digits 10 n))"

definition str_int :: "int \<Rightarrow> string" where
  "str_int i = (if i < 0 then CHR ''-'' # str_nat (nat (- i)) else str_nat (nat i))"

text \<open>
  \<open>int(s)\<close>: surrounding white space, an optional sign, then decimal digits with single
  underscores between them; \<open>None\<close> is the \<open>ValueError\<close>.
\<close>

fun int_body :: "nat \<Rightarrow> bool \<Rightarrow> string \<Rightarrow> nat option" where
  "int_body acc seen [] = (if seen then Some acc else None)"
| "int_body acc seen (c # cs) =
     (case digit_value c of
        Some d \<Rightarrow> int_body (acc * 10 + d) True cs
      | None \<Rightarrow> if c = CHR ''_'' \<and> seen then int_body acc False cs else None)"

definition py_int :: "string \<Rightarrow> int option" where
  "py_int s =
     (case str_strip s of
        [] \<Rightarrow> None
      | c # cs \<Rightarrow>
          if c = CHR ''-'' then map_option (\<lambda>n. - int n) (int_body 0 False cs)
          else if c = CHR ''+'' then map_option int (int_body 0 False cs)
          else map_option int (int_body 0 False (c # cs)))"

lemma of_char_digit_char [simp]: "d < 10 \<Longrightarrow> of_char (digit_char d) = (48 + d :: nat)"
  by (simp add: digit_char_def)

lemma digit_value_digit_char [simp]: "d < 10 \<Longrightarrow> digit_value (digit_char d) = Some d"
  by (simp add: digit_value_def)

lemma int_body_digits:
  "\<forall>d \<in> set ds. d < 10 \<Longrightarrow> ds \<noteq> [] \<or> seen \<Longrightarrow>
   int_body acc seen (map digit_char ds) = Some (foldl (\<lambda>a d. a * 10 + d) acc ds)"
  by (induction ds arbitrary: acc seen) auto

lemma str_nat_digits: "\<exists>ds. str_nat n = map digit_char ds \<and> ds \<noteq> [] \<and> (\<forall>d \<in> set ds. d < 10)
    \<and> numeral_value 10 ds = n"
proof (cases "n = 0")
  case True
  then have "str_nat n = map digit_char [0]" by (simp add: str_nat_def) code_simp
  with True show ?thesis by (intro exI[of _ "[0]"]) (simp add: numeral_value_def)
next
  case False
  then show ?thesis
    by (intro exI[of _ "digits 10 n"])
      (auto simp: str_nat_def digits_eq_Nil_iff numeral_value_digits dest: digits_lt)
qed

lemma int_body_str_nat: "int_body 0 False (str_nat n) = Some n"
  using str_nat_digits[of n] by (auto simp: int_body_digits numeral_value_def)

definition is_digit :: "char \<Rightarrow> bool" where
  "is_digit c \<longleftrightarrow> digit_value c \<noteq> None"

lemma is_digit_facts:
  "is_digit c \<Longrightarrow> \<not> is_space c" "is_digit c \<Longrightarrow> c \<noteq> CHR ''-''" "is_digit c \<Longrightarrow> c \<noteq> CHR ''+''"
  by (auto simp: is_digit_def digit_value_def is_space_def Let_def split: if_splits)

lemma str_nat_is_digit: "c \<in> set (str_nat n) \<Longrightarrow> is_digit c"
  using str_nat_digits[of n] by (auto simp: is_digit_def)

lemma str_nat_not_Nil [simp]: "str_nat n \<noteq> []"
  using str_nat_digits[of n] by auto

lemma str_nat_inj [simp]: "str_nat m = str_nat n \<longleftrightarrow> m = n"
  by (metis int_body_str_nat option.inject)

lemma str_strip_id: "s \<noteq> [] \<Longrightarrow> \<forall>c \<in> set s. \<not> is_space c \<Longrightarrow> str_strip s = s"
  by (simp add: str_strip_def strip_by_id)

lemma str_int_chars: "c \<in> set (str_int i) \<Longrightarrow> is_digit c \<or> c = CHR ''-''"
  by (auto simp: str_int_def dest: str_nat_is_digit split: if_splits)

lemma str_int_not_Nil [simp]: "str_int i \<noteq> []"
  by (simp add: str_int_def)

lemma str_int_no_space: "\<forall>c \<in> set (str_int i). \<not> is_space c"
  by (auto dest!: str_int_chars is_digit_facts(1) simp: is_space_def)

text \<open>Printing an integer and reading it back.\<close>

lemma py_int_str_int [simp]: "py_int (str_int i) = Some i"
proof -
  have strip: "str_strip (str_int i) = str_int i"
    by (rule str_strip_id) (simp_all add: str_int_no_space)
  show ?thesis
  proof (cases "i < 0")
    case True
    then show ?thesis using strip by (simp add: py_int_def str_int_def int_body_str_nat)
  next
    case False
    then obtain c cs where c: "str_int i = c # cs" "str_nat (nat i) = c # cs" "is_digit c"
      using str_nat_is_digit[of _ "nat i"] str_nat_not_Nil[of "nat i"]
      by (cases "str_nat (nat i)") (auto simp: str_int_def)
    with strip have "py_int (str_int i) = map_option int (int_body 0 False (c # cs))"
      using is_digit_facts(2,3)[of c] by (simp add: py_int_def)
    also have "\<dots> = Some i" using c(2) False by (metis int_body_str_nat nat_0_le not_less option.map(2))
    finally show ?thesis .
  qed
qed

lemma str_int_inj [simp]: "str_int i = str_int j \<longleftrightarrow> i = j"
  by (metis py_int_str_int option.inject)

section \<open>UTF-8 bytes\<close>

definition encode_utf8 :: "string \<Rightarrow> bytes" where
  "encode_utf8 s = map of_char s"

lemma unat_of_char: "unat (of_char c :: byte) = of_char c"
proof -
  have lt: "(of_char c :: nat) < 256" using range_nat_of_char by auto
  have "(of_char c :: byte) = of_nat (of_char c)" by (simp only: of_nat_of_char)
  then have "unat (of_char c :: byte) = (of_char c :: nat) mod 256"
    by (simp only: unat_of_nat) simp
  with lt show ?thesis by simp
qed

lemma encode_utf8_inj [simp]: "encode_utf8 s = encode_utf8 t \<longleftrightarrow> s = t"
proof -
  have "inj (of_char :: char \<Rightarrow> byte)"
    by (rule injI) (metis unat_of_char of_char_eq_iff)
  then show ?thesis by (simp add: encode_utf8_def inj_map_eq_map)
qed

lemma encode_utf8_append: "encode_utf8 (s @ t) = encode_utf8 s @ encode_utf8 t"
  by (simp add: encode_utf8_def)

text \<open>\<open>s in t\<close>.\<close>

fun substring :: "string \<Rightarrow> string \<Rightarrow> bool" where
  "substring s [] \<longleftrightarrow> s = []"
| "substring s (c # cs) \<longleftrightarrow> take (length s) (c # cs) = s \<or> substring s cs"

text \<open>\<open>s[:n]\<close>: the first \<open>n\<close> code points, that is bytes that do not continue another one.\<close>

fun utf8_take :: "nat \<Rightarrow> string \<Rightarrow> string" where
  "utf8_take n [] = []"
| "utf8_take n (c # cs) =
     (if 128 \<le> (of_char c :: nat) \<and> (of_char c :: nat) < 192 then c # utf8_take n cs
      else case n of 0 \<Rightarrow> [] | Suc m \<Rightarrow> c # utf8_take m cs)"

end
