(* ===== verification/Did.thy ===== *)
theory Did
  imports Base58 Py_Strings
begin

text \<open>
  Models \<^verbatim>\<open>backend/app/identity/signer.py\<close> and \<^verbatim>\<open>backend/app/identity/did.py\<close>: keys and
  signatures in multibase form, and the three DID methods. The Ed25519 primitives come from
  the \<^verbatim>\<open>cryptography\<close> package; they are the parameter \<open>ed\<close>, and \<open>ed25519_ok\<close> states what is
  documented of them.
\<close>

section \<open>Signatures\<close>

record ed25519 =
  ed_public :: "bytes \<Rightarrow> bytes"                     \<comment> \<open>public key of a private seed\<close>
  ed_sign :: "bytes \<Rightarrow> bytes \<Rightarrow> bytes"              \<comment> \<open>seed, message\<close>
  ed_verify :: "bytes \<Rightarrow> bytes \<Rightarrow> bytes \<Rightarrow> bool"     \<comment> \<open>public key, signature, message\<close>
  ed_point :: "bytes \<Rightarrow> bool"                        \<comment> \<open>\<open>from_public_bytes\<close> accepts the 32 bytes\<close>

text \<open>A signature made with a seed verifies under the seed's public key.\<close>

definition ed25519_ok :: "ed25519 \<Rightarrow> bool" where
  "ed25519_ok ed \<longleftrightarrow>
     (\<forall>seed. length seed = 32 \<longrightarrow>
        length (ed_public ed seed) = 32 \<and> ed_point ed (ed_public ed seed) \<and>
        (\<forall>msg. ed_verify ed (ed_public ed seed) (ed_sign ed seed msg) msg))"

datatype signature_error =
    BadSeedLength nat | BadPublicLength nat | InvalidPublicKey | UnsupportedMultibase
  | MultibaseBody b58_error  \<comment> \<open>the \<open>ValueError\<close> of \<open>b58decode\<close>\<close>

record keypair =
  private_seed :: bytes
  public_bytes :: bytes

text \<open>\<open>KeyPair.__post_init__\<close>.\<close>

definition KeyPair :: "bytes \<Rightarrow> bytes \<Rightarrow> signature_error + keypair" where
  "KeyPair seed pub =
     (if length seed \<noteq> 32 then Inl (BadSeedLength (length seed))
      else if length pub \<noteq> 32 then Inl (BadPublicLength (length pub))
      else Inr \<lparr>private_seed = seed, public_bytes = pub\<rparr>)"

definition load_private_key :: "bytes \<Rightarrow> signature_error + bytes" where
  "load_private_key seed =
     (if length seed \<noteq> 32 then Inl (BadSeedLength (length seed)) else Inr seed)"

definition load_public_key :: "ed25519 \<Rightarrow> bytes \<Rightarrow> signature_error + bytes" where
  "load_public_key ed pub =
     (if length pub \<noteq> 32 then Inl (BadPublicLength (length pub))
      else if \<not> ed_point ed pub then Inl InvalidPublicKey
      else Inr pub)"

definition sign_bytes :: "ed25519 \<Rightarrow> bytes \<Rightarrow> bytes \<Rightarrow> signature_error + bytes" where
  "sign_bytes ed message seed = bindE (load_private_key seed) (\<lambda>sk. Inr (ed_sign ed sk message))"

definition verify_bytes :: "ed25519 \<Rightarrow> bytes \<Rightarrow> bytes \<Rightarrow> bytes \<Rightarrow> signature_error + bool" where
  "verify_bytes ed message signature pub =
     bindE (load_public_key ed pub) (\<lambda>pk. Inr (ed_verify ed pk signature message))"

definition encode_multibase :: "bytes \<Rightarrow> string" where
  "encode_multibase raw = CHR ''z'' # b58encode raw"

definition decode_multibase :: "string \<Rightarrow> signature_error + bytes" where
  "decode_multibase encoded =
     (case encoded of
        [] \<Rightarrow> Inl UnsupportedMultibase
      | c # body \<Rightarrow> if c \<noteq> CHR ''z'' then Inl UnsupportedMultibase
                    else mapErr MultibaseBody (b58decode body))"

definition public_key_multibase :: "bytes \<Rightarrow> signature_error + string" where
  "public_key_multibase pub =
     (if length pub \<noteq> 32 then Inl (BadPublicLength (length pub)) else Inr (encode_multibase pub))"

section \<open>DIDs\<close>

text \<open>The raise sites of \<open>MalformedDIDError\<close>.\<close>

datatype did_error =
    NotADid | BadDidForm | WrongMethod string | UndecodableIdentifier signature_error
  | NotEd25519Multicodec | BadBodyLength nat | BadKeyLength nat | BadHost | MissingHost
  | NeedsResolver string

record parsed_did =
  did_method :: string
  did_identifier :: string

definition did_as_str :: "parsed_did \<Rightarrow> string" where
  "did_as_str p = ''did:'' @ did_method p @ '':'' @ did_identifier p"

definition parse_did :: "string \<Rightarrow> did_error + parsed_did" where
  "parse_did did =
     (if \<not> starts_with ''did:'' did then Inl NotADid
      else case split_max 2 (CHR '':'') did of
             [p0, p1, p2] \<Rightarrow>
               if p1 = [] \<or> p2 = [] then Inl BadDidForm
               else Inr \<lparr>did_method = str_lower p1, did_identifier = p2\<rparr>
           | _ \<Rightarrow> Inl BadDidForm)"

definition ed25519_multicodec_prefix :: bytes where
  "ed25519_multicodec_prefix = [237, 1]"

definition build_did_key :: "bytes \<Rightarrow> did_error + string" where
  "build_did_key pub =
     (if length pub \<noteq> 32 then Inl (BadKeyLength (length pub))
      else Inr (''did:key:'' @ encode_multibase (ed25519_multicodec_prefix @ pub)))"

definition decode_did_key :: "string \<Rightarrow> did_error + bytes" where
  "decode_did_key did =
     bindE (parse_did did) (\<lambda>parsed.
       if did_method parsed \<noteq> ''key'' then Inl (WrongMethod (did_method parsed))
       else bindE (mapErr UndecodableIdentifier (decode_multibase (did_identifier parsed))) (\<lambda>raw.
         if take (length ed25519_multicodec_prefix) raw \<noteq> ed25519_multicodec_prefix
         then Inl NotEd25519Multicodec
         else let body = drop (length ed25519_multicodec_prefix) raw in
           if length body \<noteq> 32 then Inl (BadBodyLength (length body)) else Inr body))"

definition build_did_web :: "string \<Rightarrow> string option \<Rightarrow> did_error + string" where
  "build_did_web host path =
     (if host = [] \<or> CHR ''/'' \<in> set host \<or> CHR '':'' \<in> set host then Inl BadHost
      else let identifier =
             (case path of
                None \<Rightarrow> host
              | Some p \<Rightarrow>
                  if p = [] then host
                  else let cleaned = replace_char (CHR ''/'') (CHR '':'') (strip_by (\<lambda>c. c = CHR ''/'') p)
                       in if cleaned = [] then host else host @ '':'' @ cleaned)
           in Inr (''did:web:'' @ identifier))"

definition did_web_to_url :: "string \<Rightarrow> did_error + string" where
  "did_web_to_url did =
     bindE (parse_did did) (\<lambda>parsed.
       if did_method parsed \<noteq> ''web'' then Inl (WrongMethod (did_method parsed))
       else let parts = split_on (CHR '':'') (did_identifier parsed); host = hd parts in
         if host = [] then Inl MissingHost
         else if length parts = 1 then Inr (''https://'' @ host @ ''/.well-known/did.json'')
         else Inr (''https://'' @ host @ ''/'' @ join ''/'' (tl parts) @ ''/did.json''))"

definition build_did_nanda :: "bytes \<Rightarrow> did_error + string" where
  "build_did_nanda pub =
     (if length pub \<noteq> 32 then Inl (BadKeyLength (length pub))
      else Inr (''did:nanda:'' @ encode_multibase pub))"

definition decode_did_nanda :: "string \<Rightarrow> did_error + bytes" where
  "decode_did_nanda did =
     bindE (parse_did did) (\<lambda>parsed.
       if did_method parsed \<noteq> ''nanda'' then Inl (WrongMethod (did_method parsed))
       else bindE (mapErr UndecodableIdentifier (decode_multibase (did_identifier parsed))) (\<lambda>body.
         if length body \<noteq> 32 then Inl (BadBodyLength (length body)) else Inr body))"

definition build_did_from_public_key :: "bytes \<Rightarrow> did_error + string" where
  "build_did_from_public_key pub = build_did_key pub"

definition public_key_from_did :: "string \<Rightarrow> did_error + bytes" where
  "public_key_from_did did =
     bindE (parse_did did) (\<lambda>parsed.
       if did_method parsed = ''key'' then decode_did_key did
       else if did_method parsed = ''nanda'' then decode_did_nanda did
       else Inl (NeedsResolver (did_method parsed)))"

section \<open>Multibase\<close>

lemma decode_encode_multibase [simp]: "decode_multibase (encode_multibase raw) = Inr raw"
  by (simp add: decode_multibase_def encode_multibase_def b58decode_b58encode)

lemma decode_multibase_conv: "decode_multibase s = Inr raw \<longleftrightarrow> s = encode_multibase raw"
  by (cases s) (auto simp: decode_multibase_def encode_multibase_def mapErr_Inr_conv
      dest: b58encode_b58decode)

lemma sign_verify:
  assumes "ed25519_ok ed" "length seed = 32"
  shows "sign_bytes ed msg seed = Inr (ed_sign ed seed msg)"
    "verify_bytes ed msg (ed_sign ed seed msg) (ed_public ed seed) = Inr True"
  using assms by (simp_all add: ed25519_ok_def sign_bytes_def load_private_key_def verify_bytes_def
      load_public_key_def)

section \<open>Parsing\<close>

text \<open>The shapes \<open>parse_did\<close> accepts.\<close>

lemma parse_did_conv:
  "parse_did did = Inr p \<longleftrightarrow>
     (\<exists>m. did = ''did:'' @ m @ '':'' @ did_identifier p \<and> CHR '':'' \<notin> set m \<and> m \<noteq> []
        \<and> did_identifier p \<noteq> [] \<and> did_method p = str_lower m)"
proof -
  have sm: "split_max 2 (CHR '':'') (''did:'' @ t) = ''did'' # split_max 1 (CHR '':'') t" for t
    using split_max_sep[of "CHR '':''" "''did''" 1 t] by (simp add: numeral_2_eq_2)
  show ?thesis
  proof
    assume l: "parse_did did = Inr p"
    then obtain t where t: "did = ''did:'' @ t"
      by (auto simp: parse_did_def starts_with_iff split: if_splits)
    show "\<exists>m. did = ''did:'' @ m @ '':'' @ did_identifier p \<and> CHR '':'' \<notin> set m \<and> m \<noteq> []
        \<and> did_identifier p \<noteq> [] \<and> did_method p = str_lower m"
    proof (cases "CHR '':'' \<in> set t")
      case True
      let ?m = "takeWhile (\<lambda>x. x \<noteq> CHR '':'') t" and ?i = "tl (dropWhile (\<lambda>x. x \<noteq> CHR '':'') t)"
      from True have "split_max 2 (CHR '':'') did = [''did'', ?m, ?i]"
        using sm[of t] t by (simp add: numeral_eq_Suc)
      with l t have "?m \<noteq> []" "?i \<noteq> []" "p = \<lparr>did_method = str_lower ?m, did_identifier = ?i\<rparr>"
        by (auto simp: parse_did_def simp del: split_max.simps split: if_splits)
      with takeWhile_dropWhile_sep[OF True] takeWhile_no_sep[of "CHR '':''" t] t show ?thesis
        by (intro exI[of _ ?m]) auto
    next
      case False
      then have "split_max 2 (CHR '':'') did = [''did'', t]" using sm[of t] t by (simp add: numeral_eq_Suc)
      with l t have False by (auto simp: parse_did_def simp del: split_max.simps split: if_splits)
      then show ?thesis ..
    qed
  next
    assume "\<exists>m. did = ''did:'' @ m @ '':'' @ did_identifier p \<and> CHR '':'' \<notin> set m \<and> m \<noteq> []
        \<and> did_identifier p \<noteq> [] \<and> did_method p = str_lower m"
    then obtain m where m: "did = ''did:'' @ m @ '':'' @ did_identifier p" "CHR '':'' \<notin> set m" "m \<noteq> []"
        "did_identifier p \<noteq> []" "did_method p = str_lower m" by auto
    have "split_max 2 (CHR '':'') did = [''did'', m, did_identifier p]"
      using sm[of "m @ '':'' @ did_identifier p"] m by (simp add: takeWhile_sep dropWhile_sep)
    with m show "parse_did did = Inr p" by (simp add: parse_did_def starts_with_def del: split_max.simps)
  qed
qed

lemma str_lower_consts [simp]:
  "str_lower ''key'' = ''key''" "str_lower ''nanda'' = ''nanda''" "str_lower ''web'' = ''web''"
  by (simp_all add: str_lower_def lower_char_def)

lemma parse_did_literal:
  "CHR '':'' \<notin> set m \<Longrightarrow> m \<noteq> [] \<Longrightarrow> i \<noteq> [] \<Longrightarrow>
     parse_did (''did:'' @ m @ '':'' @ i) = Inr \<lparr>did_method = str_lower m, did_identifier = i\<rparr>"
  by (subst parse_did_conv) auto

lemma encode_multibase_not_Nil [simp]: "encode_multibase raw \<noteq> []"
  by (simp add: encode_multibase_def)

lemma encode_multibase_inj [simp]: "encode_multibase a = encode_multibase b \<longleftrightarrow> a = b"
  by (metis decode_multibase_conv sum.inject(2))

section \<open>Keys embedded in DIDs\<close>

text \<open>
  A DID carries the key it decodes to, and nothing else: up to the letter case of the method
  name there is one \<open>did:key\<close> and one \<open>did:nanda\<close> per key.
\<close>

lemma decode_did_key_conv:
  "decode_did_key did = Inr pub \<longleftrightarrow>
     (\<exists>m. did = ''did:'' @ m @ '':'' @ encode_multibase (ed25519_multicodec_prefix @ pub)
        \<and> CHR '':'' \<notin> set m \<and> str_lower m = ''key'' \<and> length pub = 32)"
    (is "?l \<longleftrightarrow> ?r")
proof
  assume ?l
  then obtain p raw where p: "parse_did did = Inr p" "did_method p = ''key''"
      and raw: "decode_multibase (did_identifier p) = Inr raw"
        "take 2 raw = ed25519_multicodec_prefix" "pub = drop 2 raw" "length pub = 32"
    by (auto simp: decode_did_key_def bindE_Inr_conv mapErr_Inr_conv Let_def
        ed25519_multicodec_prefix_def numeral_2_eq_2 split: if_splits)
  then have "did_identifier p = encode_multibase (ed25519_multicodec_prefix @ pub)"
    by (metis append_take_drop_id decode_multibase_conv)
  with p raw show ?r by (auto simp: parse_did_conv)
next
  assume ?r
  then obtain m where m: "did = ''did:'' @ m @ '':'' @ encode_multibase (ed25519_multicodec_prefix @ pub)"
      "CHR '':'' \<notin> set m" "str_lower m = ''key''" "length pub = 32" by auto
  then have "m \<noteq> []" by (auto simp: str_lower_def)
  with m show ?l
    by (simp add: decode_did_key_def parse_did_literal ed25519_multicodec_prefix_def
        del: append.simps)
qed

lemma decode_did_nanda_conv:
  "decode_did_nanda did = Inr pub \<longleftrightarrow>
     (\<exists>m. did = ''did:'' @ m @ '':'' @ encode_multibase pub
        \<and> CHR '':'' \<notin> set m \<and> str_lower m = ''nanda'' \<and> length pub = 32)"
    (is "?l \<longleftrightarrow> ?r")
proof
  assume ?l
  then show ?r
    by (auto simp: decode_did_nanda_def bindE_Inr_conv mapErr_Inr_conv parse_did_conv
        decode_multibase_conv split: if_splits)
next
  assume ?r
  then obtain m where m: "did = ''did:'' @ m @ '':'' @ encode_multibase pub"
      "CHR '':'' \<notin> set m" "str_lower m = ''nanda''" "length pub = 32" by auto
  then have "m \<noteq> []" by (auto simp: str_lower_def)
  with m show ?l by (simp add: decode_did_nanda_def parse_did_literal del: append.simps)
qed

lemma build_did_key_shape:
  "length pub = 32 \<Longrightarrow>
     build_did_key pub = Inr (''did:'' @ ''key'' @ '':'' @ encode_multibase (ed25519_multicodec_prefix @ pub))"
  by (simp add: build_did_key_def)

lemma build_did_nanda_shape:
  "length pub = 32 \<Longrightarrow> build_did_nanda pub = Inr (''did:'' @ ''nanda'' @ '':'' @ encode_multibase pub)"
  by (simp add: build_did_nanda_def)

lemma public_key_from_did_key: "decode_did_key did = Inr pub \<Longrightarrow> public_key_from_did did = Inr pub"
  by (auto simp: public_key_from_did_def decode_did_key_def bindE_Inr_conv split: if_splits)

lemma public_key_from_did_nanda:
  "decode_did_nanda did = Inr pub \<Longrightarrow> public_key_from_did did = Inr pub"
  by (auto simp: public_key_from_did_def decode_did_nanda_def bindE_Inr_conv split: if_splits)

lemma public_key_from_didD:
  "public_key_from_did did = Inr pub \<Longrightarrow>
     decode_did_key did = Inr pub \<and> map_sum id did_method (parse_did did) = Inr ''key''
     \<or> decode_did_nanda did = Inr pub \<and> map_sum id did_method (parse_did did) = Inr ''nanda''"
  by (auto simp: public_key_from_did_def bindE_Inr_conv split: if_splits)

lemma public_key_from_did_length: "public_key_from_did did = Inr pub \<Longrightarrow> length pub = 32"
  by (auto dest!: public_key_from_didD simp: decode_did_key_conv decode_did_nanda_conv)

lemma public_key_build_did_key:
  assumes "length pub = 32"
  obtains did where "build_did_key pub = Inr did" "decode_did_key did = Inr pub"
    "public_key_from_did did = Inr pub"
proof -
  let ?did = "''did:'' @ ''key'' @ '':'' @ encode_multibase (ed25519_multicodec_prefix @ pub)"
  have "decode_did_key ?did = Inr pub"
    unfolding decode_did_key_conv using assms by (intro exI[of _ "''key''"]) simp
  with that build_did_key_shape[OF assms] public_key_from_did_key show thesis by blast
qed

lemma public_key_build_did_nanda:
  assumes "length pub = 32"
  obtains did where "build_did_nanda pub = Inr did" "decode_did_nanda did = Inr pub"
    "public_key_from_did did = Inr pub"
proof -
  let ?did = "''did:'' @ ''nanda'' @ '':'' @ encode_multibase pub"
  have "decode_did_nanda ?did = Inr pub"
    unfolding decode_did_nanda_conv using assms by (intro exI[of _ "''nanda''"]) simp
  with that build_did_nanda_shape[OF assms] public_key_from_did_nanda show thesis by blast
qed

text \<open>Both key-bearing DID methods round-trip: the DID built from a 32-byte key gives the
  key back, directly and through the method dispatch of \<open>public_key_from_did\<close>.\<close>

theorem did_key_roundtrip:
  assumes "length pub = 32"
  shows "bindE (build_did_key pub) decode_did_key = Inr pub
    \<and> bindE (build_did_nanda pub) decode_did_nanda = Inr pub
    \<and> bindE (build_did_from_public_key pub) public_key_from_did = Inr pub
    \<and> bindE (build_did_nanda pub) public_key_from_did = Inr pub"
proof -
  obtain d e where "build_did_key pub = Inr d" "decode_did_key d = Inr pub"
      "public_key_from_did d = Inr pub" "build_did_nanda pub = Inr e"
      "decode_did_nanda e = Inr pub" "public_key_from_did e = Inr pub"
    using public_key_build_did_key[OF assms] public_key_build_did_nanda[OF assms] by metis
  then show ?thesis by (simp add: build_did_from_public_key_def)
qed

theorem did_key_roundtrip_witness:
  "bindE (build_did_key (replicate 32 7)) decode_did_key = Inr (replicate 32 7)"
  using did_key_roundtrip[of "replicate 32 7"] by simp

text \<open>Two DIDs that resolve to the same key by the same method differ at most in the
  letter case of the method name: the key material determines the DID.\<close>

theorem did_determined_by_key:
  assumes "public_key_from_did did1 = Inr pub" and "public_key_from_did did2 = Inr pub"
    and "map_sum id did_method (parse_did did1) = map_sum id did_method (parse_did did2)"
  shows "\<exists>m1 m2 i. did1 = ''did:'' @ m1 @ '':'' @ i \<and> did2 = ''did:'' @ m2 @ '':'' @ i
            \<and> str_lower m1 = str_lower m2"
proof -
  have "decode_did_key did1 = Inr pub \<and> decode_did_key did2 = Inr pub
      \<or> decode_did_nanda did1 = Inr pub \<and> decode_did_nanda did2 = Inr pub"
    using assms(1,2)[THEN public_key_from_didD] assms(3) by fastforce
  then show ?thesis unfolding decode_did_key_conv decode_did_nanda_conv by metis
qed

text \<open>Letter case of the method aside, this is the \<open>did:key\<close> of the all-zero key.\<close>

definition zero_key_did :: "string \<Rightarrow> string" where
  "zero_key_did m = ''did:'' @ m @ '':'' @ encode_multibase (ed25519_multicodec_prefix @ replicate 32 0)"

lemma public_key_zero_key_did:
  assumes "CHR '':'' \<notin> set m" "str_lower m = ''key''"
  shows "public_key_from_did (zero_key_did m) = Inr (replicate 32 0)
    \<and> map_sum id did_method (parse_did (zero_key_did m)) = Inr ''key''"
proof
  have "m \<noteq> []" using assms by (auto simp: str_lower_def)
  then show "map_sum id did_method (parse_did (zero_key_did m)) = Inr ''key''"
    unfolding zero_key_did_def using assms by (subst parse_did_literal) simp_all
  show "public_key_from_did (zero_key_did m) = Inr (replicate 32 0)"
    by (rule public_key_from_did_key)
      (use assms in \<open>auto simp: decode_did_key_conv zero_key_did_def intro!: exI[of _ m]\<close>)
qed

theorem did_determined_by_key_witness:
  "\<exists>m1 m2 i. zero_key_did ''key'' = ''did:'' @ m1 @ '':'' @ i
     \<and> zero_key_did ''KEY'' = ''did:'' @ m2 @ '':'' @ i \<and> str_lower m1 = str_lower m2"
proof -
  have "str_lower ''KEY'' = ''key''" by code_simp
  then show ?thesis
    using public_key_zero_key_did[of "''key''"] public_key_zero_key_did[of "''KEY''"]
    by (intro did_determined_by_key[of _ "replicate 32 0"]) auto
qed

section \<open>did:web\<close>

lemma join_split_on_replace: "join [d] (split_on c s) = replace_char c d s"
proof (induction s)
  case Nil
  then show ?case by (simp add: replace_char_def)
next
  case (Cons x xs)
  obtain y ys where yy: "split_on c xs = y # ys" by (cases "split_on c xs") auto
  with Cons show ?case by (cases ys) (auto simp: replace_char_def)
qed

lemma replace_char_back: "b \<notin> set s \<Longrightarrow> replace_char b a (replace_char a b s) = s"
  by (induction s) (auto simp: replace_char_def)

lemma replace_char_Nil_iff [simp]: "replace_char a b s = [] \<longleftrightarrow> s = []"
  by (simp add: replace_char_def)

lemma strip_by_Nil [simp]: "strip_by p [] = []"
  by (simp add: strip_by_def)

lemma set_strip_by: "set (strip_by p s) \<subseteq> set s"
  by (auto simp: strip_by_def dest!: set_dropWhileD)

lemma did_web_to_url_literal:
  assumes "i \<noteq> []" "hd (split_on (CHR '':'') i) \<noteq> []"
  shows "did_web_to_url (''did:'' @ ''web'' @ '':'' @ i) =
    (let parts = split_on (CHR '':'') i in
     if length parts = 1 then Inr (''https://'' @ hd parts @ ''/.well-known/did.json'')
     else Inr (''https://'' @ hd parts @ ''/'' @ join ''/'' (tl parts) @ ''/did.json''))"
proof -
  have "parse_did (''did:'' @ ''web'' @ '':'' @ i) = Inr \<lparr>did_method = ''web'', did_identifier = i\<rparr>"
    using assms by (subst parse_did_literal) simp_all
  with assms show ?thesis by (simp add: did_web_to_url_def Let_def del: append.simps)
qed

text \<open>A \<open>did:web\<close> built from a host and a path is served at the URL the DID method
  prescribes: the host's well-known document without a path, and \<open>/path/did.json\<close> with one,
  outer slashes removed.\<close>

theorem did_web_roundtrip:
  assumes "build_did_web host path = Inr did"
    and "\<forall>p. path = Some p \<longrightarrow> CHR '':'' \<notin> set p"
  shows "did_web_to_url did =
    (case path of
       None \<Rightarrow> Inr (''https://'' @ host @ ''/.well-known/did.json'')
     | Some p \<Rightarrow>
         let clean = strip_by (\<lambda>c. c = CHR ''/'') p in
         if clean = [] then Inr (''https://'' @ host @ ''/.well-known/did.json'')
         else Inr (''https://'' @ host @ ''/'' @ clean @ ''/did.json''))"
proof -
  have host: "host \<noteq> []" "CHR '':'' \<notin> set host"
    using assms(1) by (auto simp: build_did_web_def split: if_splits)
  have plain: "did_web_to_url (''did:'' @ ''web'' @ '':'' @ host)
      = Inr (''https://'' @ host @ ''/.well-known/did.json'')"
    using host by (subst did_web_to_url_literal) (simp_all add: split_on_no_sep)
  have pathy: "did_web_to_url (''did:'' @ ''web'' @ '':'' @ host @ '':'' @ c)
      = Inr (''https://'' @ host @ ''/'' @ replace_char (CHR '':'') (CHR ''/'') c @ ''/did.json'')" for c
    using host by (subst did_web_to_url_literal)
      (simp_all add: split_on_append join_split_on_replace)
  show ?thesis
  proof (cases path)
    case None
    with assms(1) host plain show ?thesis by (simp add: build_did_web_def split: if_splits)
  next
    case (Some p)
    let ?clean = "strip_by (\<lambda>c. c = CHR ''/'') p"
    have "CHR '':'' \<notin> set ?clean" using assms(2) Some set_strip_by by blast
    then have undo: "replace_char (CHR '':'') (CHR ''/'') (replace_char (CHR ''/'') (CHR '':'') ?clean) = ?clean"
      by (rule replace_char_back)
    have "did = ''did:'' @ ''web'' @ '':'' @
        (if ?clean = [] then host else host @ '':'' @ replace_char (CHR ''/'') (CHR '':'') ?clean)"
      using assms(1) Some
      by (cases "p = []"; cases "?clean = []") (simp_all add: build_did_web_def Let_def split: if_splits)
    with Some plain pathy undo show ?thesis by (simp add: Let_def del: append.simps)
  qed
qed

theorem did_web_roundtrip_witness:
  "did_web_to_url ''did:web:massclaw.example:agents:scheduler''
     = Inr ''https://massclaw.example/agents/scheduler/did.json''"
proof -
  have "build_did_web ''massclaw.example'' (Some ''/agents/scheduler/'')
      = Inr ''did:web:massclaw.example:agents:scheduler''" by code_simp
  moreover have "strip_by (\<lambda>c. c = CHR ''/'') ''/agents/scheduler/'' = ''agents/scheduler''" by code_simp
  ultimately show ?thesis
    using did_web_roundtrip[of "''massclaw.example''" "Some ''/agents/scheduler/''"] by (simp add: Let_def)
qed

text \<open>A signature scheme for concrete instances: the signature is the key followed by the message.\<close>

definition demo_ed :: ed25519 where
  "demo_ed = \<lparr>ed_public = (\<lambda>seed. seed), ed_sign = (\<lambda>seed msg. seed @ msg),
     ed_verify = (\<lambda>pub sig msg. sig = pub @ msg), ed_point = (\<lambda>_. True)\<rparr>"

lemma demo_ed_ok: "ed25519_ok demo_ed"
  by (simp add: ed25519_ok_def demo_ed_def)

end
