(* ===== verification/Json_Canon.thy ===== *)
theory Json_Canon
  imports Complex_Main Py_Strings
begin

text \<open>
  Models \<^verbatim>\<open>backend/app/identity/canonicalize.py\<close>: the deterministic JSON serialisation
  that is hashed and signed everywhere in the system. The main result is that the emitted
  bytes determine the value: two values with the same bytes have the same normal form
  (keys sorted, integral floats read as integers).

  A finite float is its exact rational value. \<open>repr\<close> of a non-integral float is the
  parameter \<open>fr\<close>; what the proofs need of it is \<open>float_repr_ok\<close>. Dictionary keys are
  strings, as every caller's are.
\<close>

section \<open>Values\<close>

datatype pyfloat = FFin rat | FInf bool | FNaN

datatype json =
    JNull
  | JBool bool
  | JInt int
  | JFloat pyfloat
  | JStr string
  | JArr "json list"
  | JObj "(string \<times> json) list"
  | JOpaque string string  \<comment> \<open>a Python object of another type: its type name and \<open>str\<close>\<close>

text \<open>\<open>bool(v)\<close>.\<close>

definition py_truth :: "json \<Rightarrow> bool" where
  "py_truth v = (case v of JNull \<Rightarrow> False | JBool b \<Rightarrow> b | JInt i \<Rightarrow> i \<noteq> 0 | JFloat f \<Rightarrow> f \<noteq> FFin 0
     | JStr s \<Rightarrow> s \<noteq> [] | JArr xs \<Rightarrow> xs \<noteq> [] | JObj kvs \<Rightarrow> kvs \<noteq> [] | JOpaque _ _ \<Rightarrow> True)"

datatype canon_error = NotFinite | UnsupportedType string

section \<open>The serialiser\<close>

definition hex_digit :: "nat \<Rightarrow> char" where
  "hex_digit d = (if d < 10 then char_of (48 + d) else char_of (87 + d))"

text \<open>One step of the loop in \<open>_escape_string\<close>.\<close>

definition escape_char :: "char \<Rightarrow> string" where
  "escape_char ch =
     (let code = of_char ch :: nat in
      if code = 34 then [CHR 0x5C, CHR 0x22]
      else if code = 92 then [CHR 0x5C, CHR 0x5C]
      else if code = 8 then [CHR 0x5C, CHR ''b'']
      else if code = 12 then [CHR 0x5C, CHR ''f'']
      else if code = 10 then [CHR 0x5C, CHR ''n'']
      else if code = 13 then [CHR 0x5C, CHR ''r'']
      else if code = 9 then [CHR 0x5C, CHR ''t'']
      else if code < 32 then [CHR 0x5C, CHR ''u'', CHR ''0'', CHR ''0'',
                              hex_digit (code div 16), hex_digit (code mod 16)]
      else [ch])"

definition escape_string :: "string \<Rightarrow> string" where
  "escape_string s = [CHR 0x22] @ concat (map escape_char s) @ [CHR 0x22]"

definition rat_is_integer :: "rat \<Rightarrow> bool" where
  "rat_is_integer q \<longleftrightarrow> of_int \<lfloor>q\<rfloor> = q"

fun seqE :: "('e + 'a) list \<Rightarrow> 'e + 'a list" where
  "seqE [] = Inr []"
| "seqE (r # rs) = bindE r (\<lambda>x. bindE (seqE rs) (\<lambda>xs. Inr (x # xs)))"

lemma size_item_lt:
  "(k, v) \<in> set (sort_key fst (kvs :: (string \<times> json) list)) \<Longrightarrow>
     size v < Suc (size_list (size_prod (\<lambda>_. 0) size) kvs)"
proof -
  assume "(k, v) \<in> set (sort_key fst kvs)"
  then have "(k, v) \<in> set kvs" by simp
  then show ?thesis by (induction kvs) auto
qed

function emit :: "(rat \<Rightarrow> string) \<Rightarrow> json \<Rightarrow> canon_error + string" where
  "emit fr JNull = Inr ''null''"
| "emit fr (JBool b) = Inr (if b then ''true'' else ''false'')"
| "emit fr (JStr s) = Inr (escape_string s)"
| "emit fr (JInt i) = Inr (str_int i)"
| "emit fr (JFloat f) =
     (case f of
        FNaN \<Rightarrow> Inl NotFinite
      | FInf _ \<Rightarrow> Inl NotFinite
      | FFin q \<Rightarrow> Inr (if rat_is_integer q then str_int \<lfloor>q\<rfloor> else fr q))"
| "emit fr (JArr vs) =
     bindE (seqE (map (emit fr) vs)) (\<lambda>ss. Inr (''['' @ join '','' ss @ '']''))"
| "emit fr (JObj kvs) =
     bindE (seqE (map (\<lambda>(k, v). bindE (emit fr v) (\<lambda>s. Inr (escape_string k @ '':'' @ s)))
                      (sort_key fst kvs)))
       (\<lambda>ss. Inr (''{'' @ join '','' ss @ ''}''))"
| "emit fr (JOpaque t u) = Inl (UnsupportedType t)"
  by pat_completeness auto
termination
  by (relation "measure (\<lambda>(fr, v). size v)")
    (auto dest: size_item_lt simp: less_Suc_eq_le intro: size_list_estimation')

definition canonicalize :: "(rat \<Rightarrow> string) \<Rightarrow> json \<Rightarrow> canon_error + bytes" where
  "canonicalize fr v = bindE (emit fr v) (\<lambda>s. Inr (encode_utf8 s))"

section \<open>Normal forms\<close>

text \<open>
  What serialisation forgets: the order in which a dictionary was built, and whether an
  integral number was a float.
\<close>

function norm_json :: "json \<Rightarrow> json" where
  "norm_json JNull = JNull"
| "norm_json (JBool b) = JBool b"
| "norm_json (JStr s) = JStr s"
| "norm_json (JInt i) = JInt i"
| "norm_json (JFloat f) =
     (case f of FFin q \<Rightarrow> if rat_is_integer q then JInt \<lfloor>q\<rfloor> else JFloat f | _ \<Rightarrow> JFloat f)"
| "norm_json (JArr vs) = JArr (map norm_json vs)"
| "norm_json (JObj kvs) = JObj (map (\<lambda>(k, v). (k, norm_json v)) (sort_key fst kvs))"
| "norm_json (JOpaque t u) = JOpaque t u"
  by pat_completeness auto
termination
  by (relation "measure size")
    (auto dest: size_item_lt simp: less_Suc_eq_le intro: size_list_estimation')

text \<open>The characters of a number, and what is documented of \<open>repr(float)\<close>.\<close>

definition number_char :: "char \<Rightarrow> bool" where
  "number_char c \<longleftrightarrow> is_digit c \<or> c \<in> set ''-+.e''"

text \<open>
  \<open>repr\<close> of a non-integral finite float is made of digits, sign, point and exponent, has
  a point or an exponent, and reads back to the same float.
\<close>

definition float_repr_ok :: "(rat \<Rightarrow> string) \<Rightarrow> bool" where
  "float_repr_ok fr \<longleftrightarrow>
     (\<forall>q. \<not> rat_is_integer q \<longrightarrow>
        (\<forall>c \<in> set (fr q). number_char c) \<and> (\<exists>c \<in> set (fr q). c \<in> set ''.e''))
     \<and> inj_on fr {q. \<not> rat_is_integer q}"

section \<open>Strings are self-delimiting\<close>

lemma hex_digit_inj:
  assumes ab: "a < 16" "b < 16" and eq: "hex_digit a = hex_digit b"
  shows "a = b"
proof -
  have v: "of_char (hex_digit n) = (if n < 10 then 48 + n else 87 + n)" if "n < 16" for n
    using that by (simp add: hex_digit_def)
  have "(if a < 10 then 48 + a else 87 + a) = (if b < 10 then 48 + b else (87 + b :: nat))"
    using v[OF ab(1)] v[OF ab(2)] eq by simp
  with ab show ?thesis by (auto split: if_splits)
qed

lemma escape_hex_inj:
  fixes c d :: char
  assumes "(of_char c :: nat) < 32" "(of_char d :: nat) < 32"
    and "hex_digit (of_char c div 16) = hex_digit (of_char d div 16)"
    and "hex_digit (of_char c mod 16) = hex_digit (of_char d mod 16)"
  shows "c = d"
proof -
  have "of_char c div 16 = (of_char d div 16 :: nat)" "of_char c mod 16 = (of_char d mod 16 :: nat)"
    using assms by (auto intro!: hex_digit_inj)
  then have "of_char c = (of_char d :: nat)" by (metis div_mult_mod_eq)
  then show ?thesis by simp
qed

definition escape_table :: "(nat \<times> char) list" where
  "escape_table =
     [(34, CHR 0x22), (92, CHR 0x5C), (8, CHR ''b''), (12, CHR ''f''), (10, CHR ''n''),
      (13, CHR ''r''), (9, CHR ''t'')]"

lemma escape_char_cases:
  obtains (short) e where "(of_char c, e) \<in> set escape_table" "escape_char c = [CHR 0x5C, e]"
  | (hex) "(of_char c :: nat) < 32"
      "escape_char c = [CHR 0x5C, CHR ''u'', CHR ''0'', CHR ''0'',
         hex_digit (of_char c div 16), hex_digit (of_char c mod 16)]"
  | (raw) "escape_char c = [c]" "c \<noteq> CHR 0x5C" "c \<noteq> CHR 0x22"
proof -
  let ?t = "\<exists>e. (of_char c, e) \<in> set escape_table \<and> escape_char c = [CHR 0x5C, e]"
  have "?t \<or> (of_char c :: nat) < 32 \<and> escape_char c = [CHR 0x5C, CHR ''u'', CHR ''0'', CHR ''0'',
         hex_digit (of_char c div 16), hex_digit (of_char c mod 16)]
       \<or> escape_char c = [c] \<and> c \<noteq> CHR 0x5C \<and> c \<noteq> CHR 0x22"
    by (auto simp: escape_char_def escape_table_def Let_def)
  then show thesis using short hex raw by blast
qed

lemma escape_table_inj: "(m, e) \<in> set escape_table \<Longrightarrow> (n, e) \<in> set escape_table \<Longrightarrow> m = n"
  by (auto simp: escape_table_def)

lemma escape_table_u: "(m, CHR ''u'') \<notin> set escape_table"
  by (simp add: escape_table_def)

lemma escape_char_cancel: "escape_char c @ x = escape_char d @ y \<Longrightarrow> c = d \<and> x = y"
  by (cases rule: escape_char_cases[of c]; cases rule: escape_char_cases[of d])
    (auto dest: escape_table_inj escape_hex_inj simp: escape_table_u)

lemma escape_char_no_quote: "escape_char c @ x \<noteq> CHR 0x22 # y"
  by (cases rule: escape_char_cases[of c]) auto

lemma escape_body_cancel:
  "concat (map escape_char k) @ CHR 0x22 # r = concat (map escape_char l) @ CHR 0x22 # r'
     \<Longrightarrow> k = l \<and> r = r'"
proof (induction k arbitrary: l)
  case Nil
  then show ?case using escape_char_no_quote by (cases l) (auto dest: sym)
next
  case (Cons c k)
  show ?case
  proof (cases l)
    case Nil
    with Cons.prems show ?thesis using escape_char_no_quote by auto
  next
    case (Cons d l')
    note l = this
    with Cons.prems have "escape_char c @ concat (map escape_char k) @ CHR 0x22 # r
        = escape_char d @ concat (map escape_char l') @ CHR 0x22 # r'" by simp
    from escape_char_cancel[OF this] Cons.IH[of l'] l show ?thesis by simp
  qed
qed

lemma escape_string_cancel: "escape_string k @ r = escape_string l @ r' \<Longrightarrow> k = l \<and> r = r'"
  using escape_body_cancel[of k r l r'] by (simp add: escape_string_def)

section \<open>Numbers are self-delimiting before a delimiter\<close>

definition delim :: "string \<Rightarrow> bool" where
  "delim r \<longleftrightarrow> r = [] \<or> hd r \<in> set '',]}''"

lemma delim_not_number: "delim r \<Longrightarrow> r = [] \<or> \<not> number_char (hd r)"
  by (auto simp: delim_def number_char_def is_digit_def digit_value_def Let_def)

lemma number_cancel:
  assumes "\<forall>c \<in> set s. number_char c" "\<forall>c \<in> set t. number_char c"
    and "delim r" "delim r'" and eq: "s @ r = t @ r'"
  shows "s = t \<and> r = r'"
proof -
  have *: "takeWhile number_char (u @ v) = u" if "\<forall>c \<in> set u. number_char c" "delim v" for u v
    using that delim_not_number[of v] by (cases v) (auto simp: takeWhile_append2)
  have "s = t" using *[of s r] *[of t r'] assms by metis
  with eq show ?thesis by simp
qed

lemma str_int_number: "\<forall>c \<in> set (str_int i). number_char c"
  by (auto dest!: str_int_chars simp: number_char_def)

section \<open>Joined lists\<close>

lemma seqE_Inr_conv: "seqE rs = Inr xs \<longleftrightarrow> list_all2 (\<lambda>r x. r = Inr x) rs xs"
  by (induction rs arbitrary: xs) (auto simp: bindE_Inr_conv list_all2_Cons1)

lemma seqE_map_conv: "seqE (map f ys) = Inr xs \<longleftrightarrow> list_all2 (\<lambda>y x. f y = Inr x) ys xs"
  by (simp add: seqE_Inr_conv list.rel_map)

lemma join_Cons: "join sep (x # xs) = x @ (if xs = [] then [] else sep @ join sep xs)"
  by (cases xs) auto

text \<open>
  A comma-separated list before its closing bracket can be read in one way only, if its
  elements can.
\<close>

lemma join_cancel:
  assumes "c \<in> set '']}''"
    and "\<forall>s \<in> set ss. \<forall>t \<in> set ts. \<forall>r r'. delim r \<longrightarrow> delim r' \<longrightarrow> s @ r = t @ r' \<longrightarrow> s = t"
    and "\<forall>s \<in> set ss \<union> set ts. s \<noteq> [] \<and> hd s \<noteq> c"
    and "join '','' ss @ c # r = join '','' ts @ c # r'"
  shows "ss = ts \<and> r = r'"
  using assms(2-4)
proof (induction ss arbitrary: ts)
  case Nil
  then show ?case by (cases ts) (auto simp: join_Cons neq_Nil_conv hd_append split: if_splits)
next
  case (Cons s ss)
  show ?case
  proof (cases ts)
    case Nil
    with Cons.prems show ?thesis by (auto simp: join_Cons neq_Nil_conv split: if_splits)
  next
    case (Cons t ts')
    note ts = this
    let ?r = "(if ss = [] then c # r else '','' @ join '','' ss @ c # r)"
    let ?r' = "(if ts' = [] then c # r' else '','' @ join '','' ts' @ c # r')"
    have eq: "s @ ?r = t @ ?r'"
      using Cons.prems(3) ts by (simp add: join_Cons split: if_splits)
    have "delim ?r" "delim ?r'" using assms(1) by (auto simp: delim_def)
    with Cons.prems(1) ts eq have st: "s = t" by auto
    with eq have rr: "?r = ?r'" by simp
    have c: "c \<noteq> CHR '',''" using assms(1) by auto
    show ?thesis
    proof (cases "ss = []")
      case True
      with rr c have "ts' = []" by (auto split: if_splits)
      with True rr st ts show ?thesis by simp
    next
      case False
      with rr c have "ts' \<noteq> []" by (auto split: if_splits)
      with False rr have "join '','' ss @ c # r = join '','' ts' @ c # r'" by simp
      then have "ss = ts' \<and> r = r'"
        using Cons.prems(1,2) ts by (intro Cons.IH) (simp_all del: split_paired_All)
      with ts st show ?thesis by simp
    qed
  qed
qed
section \<open>The bytes determine the value\<close>

text \<open>How the first character of the output tells the kind of value.\<close>

lemma float_repr_number:
  "float_repr_ok fr \<Longrightarrow> \<not> rat_is_integer q \<Longrightarrow> fr q \<noteq> [] \<and> (\<forall>c \<in> set (fr q). number_char c)"
  by (auto simp: float_repr_ok_def)

lemma float_repr_not_int:
  assumes "float_repr_ok fr" "\<not> rat_is_integer q" shows "fr q \<noteq> str_int i"
proof
  assume "fr q = str_int i"
  moreover obtain c where "c \<in> set (fr q)" "c \<in> set ''.e''"
    using assms by (auto simp: float_repr_ok_def)
  ultimately have "is_digit c \<or> c = CHR ''-''" "c \<in> set ''.e''" by (auto dest: str_int_chars)
  then show False by (auto simp: is_digit_def digit_value_def)
qed

definition number_json :: "json \<Rightarrow> bool" where
  "number_json v \<longleftrightarrow> (case v of JInt _ \<Rightarrow> True | JFloat _ \<Rightarrow> True | _ \<Rightarrow> False)"

lemma emit_number:
  assumes "float_repr_ok fr" "number_json v" "emit fr v = Inr s"
  shows "s \<noteq> [] \<and> (\<forall>c \<in> set s. number_char c)"
  using assms float_repr_number[OF assms(1)] str_int_number
  by (cases v) (auto simp: number_json_def split: pyfloat.splits if_splits)

lemma emit_head:
  assumes "float_repr_ok fr" "emit fr v = Inr s"
  shows "s \<noteq> [] \<and> (case v of
      JNull \<Rightarrow> s = ''null'' | JBool b \<Rightarrow> s = (if b then ''true'' else ''false'')
    | JStr t \<Rightarrow> hd s = CHR 0x22 | JArr vs \<Rightarrow> hd s = CHR ''['' | JObj kvs \<Rightarrow> hd s = CHR ''{''
    | JInt i \<Rightarrow> number_char (hd s) | JFloat f \<Rightarrow> number_char (hd s) | JOpaque t u \<Rightarrow> False)"
proof (cases "number_json v")
  case True
  with emit_number[OF assms(1) True assms(2)] show ?thesis
    by (cases v) (auto simp: number_json_def)
next
  case False
  with assms show ?thesis
    by (cases v) (auto simp: number_json_def escape_string_def bindE_Inr_conv split: if_splits)
qed

lemma number_char_heads:
  "\<not> number_char (CHR ''n'')" "\<not> number_char (CHR ''t'')" "\<not> number_char (CHR ''f'')"
  "\<not> number_char (CHR 0x22)" "\<not> number_char (CHR ''['')" "\<not> number_char (CHR ''{'')"
  by (simp_all add: number_char_def is_digit_def digit_value_def)

lemma emit_not_closer:
  assumes "float_repr_ok fr" "emit fr v = Inr s" shows "s \<noteq> [] \<and> hd s \<noteq> CHR '']''"
  using emit_head[OF assms]
  by (cases v) (auto simp: number_char_def is_digit_def digit_value_def split: if_splits)

lemma emit_number_cancel:
  assumes fr: "float_repr_ok fr" and "number_json v" "number_json w"
    and "emit fr v = Inr s" "emit fr w = Inr t" "delim r" "delim r'" "s @ r = t @ r'"
  shows "norm_json v = norm_json w \<and> r = r'"
proof -
  have st: "s = t" "r = r'"
    using number_cancel[of s t r r'] assms emit_number[OF fr] by blast+
  have inj: "fr p = fr q \<Longrightarrow> \<not> rat_is_integer p \<Longrightarrow> \<not> rat_is_integer q \<Longrightarrow> p = q" for p q
    using fr by (auto simp: float_repr_ok_def dest: inj_onD)
  have ne: "\<not> rat_is_integer q \<Longrightarrow> fr q \<noteq> str_int i \<and> str_int i \<noteq> fr q" for q i
    using float_repr_not_int[OF fr, of q i] by auto
  show ?thesis using assms(2-5) st
    by (cases v; cases w)
      (auto simp: number_json_def ne split: pyfloat.splits if_splits dest: inj)
qed

lemma list_all2_map_eq:
  "list_all2 P xs zs \<Longrightarrow> list_all2 Q ys zs \<Longrightarrow>
   (\<And>x y z. x \<in> set xs \<Longrightarrow> P x z \<Longrightarrow> Q y z \<Longrightarrow> f x = f y) \<Longrightarrow> map f xs = map f ys"
proof (induction xs zs arbitrary: ys rule: list_all2_induct)
  case Nil
  then show ?case by simp
next
  case (Cons x xs z zs)
  then obtain y ys' where "ys = y # ys'" "Q y z" "list_all2 Q ys' zs"
    by (auto simp: list_all2_Cons2)
  with Cons show ?case by simp
qed

lemma list_all2_set2: "list_all2 P xs ys \<Longrightarrow> y \<in> set ys \<Longrightarrow> \<exists>x \<in> set xs. P x y"
  by (induction rule: list_all2_induct) auto

definition item_emits :: "(rat \<Rightarrow> string) \<Rightarrow> string \<times> json \<Rightarrow> string \<Rightarrow> bool" where
  "item_emits fr kv s \<longleftrightarrow> (\<exists>x. emit fr (snd kv) = Inr x \<and> s = escape_string (fst kv) @ '':'' @ x)"

lemma emit_arr_conv:
  "emit fr (JArr vs) = Inr s \<longleftrightarrow>
     (\<exists>ss. list_all2 (\<lambda>v x. emit fr v = Inr x) vs ss \<and> s = ''['' @ join '','' ss @ '']'')"
  by (auto simp: bindE_Inr_conv seqE_map_conv)

lemma emit_obj_conv:
  "emit fr (JObj kvs) = Inr s \<longleftrightarrow>
     (\<exists>ss. list_all2 (item_emits fr) (sort_key fst kvs) ss \<and> s = ''{'' @ join '','' ss @ ''}'')"
proof -
  have "(\<lambda>y x. (case y of (k, v) \<Rightarrow> bindE (emit fr v) (\<lambda>s. Inr (escape_string k @ '':'' @ s))) = Inr x)
      = item_emits fr"
    by (auto simp: fun_eq_iff bindE_Inr_conv item_emits_def)
  then show ?thesis by (auto simp: bindE_Inr_conv seqE_map_conv)
qed

text \<open>Values the serialiser accepts.\<close>

fun plain_json :: "json \<Rightarrow> bool" where
  "plain_json (JFloat f) \<longleftrightarrow> (case f of FFin _ \<Rightarrow> True | _ \<Rightarrow> False)"
| "plain_json (JArr vs) \<longleftrightarrow> (\<forall>v \<in> set vs. plain_json v)"
| "plain_json (JObj kvs) \<longleftrightarrow> (\<forall>(k, v) \<in> set kvs. plain_json v)"
| "plain_json (JOpaque _ _) \<longleftrightarrow> False"
| "plain_json _ \<longleftrightarrow> True"

lemma list_all2_choice: "(\<And>x. x \<in> set xs \<Longrightarrow> \<exists>y. P x y) \<Longrightarrow> \<exists>ys. list_all2 P xs ys"
  by (induction xs) (auto simp: list_all2_Cons1)

lemma emit_plain: "plain_json v \<Longrightarrow> \<exists>s. emit fr v = Inr s"
proof (induction v rule: plain_json.induct)
  case (2 vs)
  have "\<exists>ss. list_all2 (\<lambda>v x. emit fr v = Inr x) vs ss" by (rule list_all2_choice) (use 2 in auto)
  then show ?case by (simp only: emit_arr_conv) blast
next
  case (3 kvs)
  have "\<exists>ss. list_all2 (item_emits fr) (sort_key fst kvs) ss"
    by (rule list_all2_choice) (use 3 in \<open>fastforce simp: item_emits_def\<close>)
  then show ?case by (simp only: emit_obj_conv) blast
qed (auto split: pyfloat.splits)

text \<open>The property proved by induction: what follows \<open>v\<close> in the output is determined.\<close>

definition cancels :: "(rat \<Rightarrow> string) \<Rightarrow> json \<Rightarrow> bool" where
  "cancels fr v \<longleftrightarrow>
     (\<forall>w s t r r'. emit fr v = Inr s \<longrightarrow> emit fr w = Inr t \<longrightarrow> delim r \<longrightarrow> delim r' \<longrightarrow>
        s @ r = t @ r' \<longrightarrow> norm_json v = norm_json w \<and> r = r')"

lemma cancelsD:
  "cancels fr v \<Longrightarrow> emit fr v = Inr s \<Longrightarrow> emit fr w = Inr t \<Longrightarrow> delim r \<Longrightarrow> delim r' \<Longrightarrow>
     s @ r = t @ r' \<Longrightarrow> norm_json v = norm_json w \<and> r = r'"
  unfolding cancels_def by blast

lemma cancels_scalar:
  assumes fr: "float_repr_ok fr"
  shows "cancels fr JNull" "cancels fr (JBool b)" "cancels fr (JStr k)"
proof -
  show "cancels fr JNull"
    unfolding cancels_def
  proof (intro allI impI)
    fix w s t r r' assume "emit fr JNull = Inr s" "emit fr w = Inr t" "s @ r = t @ r'"
    then show "norm_json JNull = norm_json w \<and> r = r'"
      using emit_head[OF fr, of w t] number_char_heads
      by (cases w) (auto simp: neq_Nil_conv split: if_splits)
  qed
  show "cancels fr (JBool b)"
    unfolding cancels_def
  proof (intro allI impI)
    fix w s t r r' assume "emit fr (JBool b) = Inr s" "emit fr w = Inr t" "s @ r = t @ r'"
    then show "norm_json (JBool b) = norm_json w \<and> r = r'"
      using emit_head[OF fr, of w t] number_char_heads
      by (cases w) (auto simp: neq_Nil_conv split: if_splits)
  qed
  show "cancels fr (JStr k)"
    unfolding cancels_def
  proof (intro allI impI)
    fix w s t r r' assume "emit fr (JStr k) = Inr s" "emit fr w = Inr t" "s @ r = t @ r'"
    then show "norm_json (JStr k) = norm_json w \<and> r = r'"
      using emit_head[OF fr, of w t] number_char_heads
      by (cases w) (auto simp: neq_Nil_conv escape_string_def split: if_splits
          dest: escape_body_cancel)
  qed
qed

lemma cancels_opaque: "cancels fr (JOpaque t u)"
  by (simp add: cancels_def)

lemma cancels_number:
  assumes fr: "float_repr_ok fr" and v: "number_json v"
  shows "cancels fr v"
  unfolding cancels_def
proof (intro allI impI)
  fix w s t r r'
  assume a: "emit fr v = Inr s" "emit fr w = Inr t" "delim r" "delim r'" "s @ r = t @ r'"
  show "norm_json v = norm_json w \<and> r = r'"
  proof (cases "number_json w")
    case True
    with a v show ?thesis by (intro emit_number_cancel[OF fr])
  next
    case False
    with a v emit_number[OF fr v a(1)] emit_head[OF fr, of w t] number_char_heads show ?thesis
      by (cases w) (auto simp: neq_Nil_conv number_json_def split: if_splits)
  qed
qed

lemma cancels_arr:
  assumes fr: "float_repr_ok fr" and IH: "\<And>v. v \<in> set vs \<Longrightarrow> cancels fr v"
  shows "cancels fr (JArr vs)"
  unfolding cancels_def
proof (intro allI impI)
  fix w s t r r'
  assume a: "emit fr (JArr vs) = Inr s" "emit fr w = Inr t" "s @ r = t @ r'"
  then obtain ss where ss: "list_all2 (\<lambda>v s. emit fr v = Inr s) vs ss"
      and s: "s = ''['' @ join '','' ss @ '']''"
    unfolding emit_arr_conv by blast
  with a obtain ws ts where w: "w = JArr ws"
      and ts: "list_all2 (\<lambda>v s. emit fr v = Inr s) ws ts" and t: "t = ''['' @ join '','' ts @ '']''"
    using emit_head[OF fr, of w t] number_char_heads
    by (cases w) (auto simp: neq_Nil_conv emit_arr_conv simp del: emit.simps(6) split: if_splits)
  have "ss = ts \<and> r = r'"
  proof (rule join_cancel[of "CHR '']''"])
    show "\<forall>s\<in>set ss. \<forall>t\<in>set ts. \<forall>r r'. delim r \<longrightarrow> delim r' \<longrightarrow> s @ r = t @ r' \<longrightarrow> s = t"
      using cancelsD[OF IH] list_all2_set2[OF ss] list_all2_set2[OF ts] by (metis append_same_eq)
    show "\<forall>s\<in>set ss \<union> set ts. s \<noteq> [] \<and> hd s \<noteq> CHR '']''"
      using list_all2_set2[OF ss] list_all2_set2[OF ts] emit_not_closer[OF fr] by blast
  qed (use a s t in auto)
  moreover from this have "map norm_json vs = map norm_json ws"
  proof (intro list_all2_map_eq[OF ss])
    fix x y z assume "x \<in> set vs" "emit fr x = Inr z" "emit fr y = Inr z"
    then show "norm_json x = norm_json y"
      using cancelsD[OF IH, of x z y z "[]" "[]"] by (simp add: delim_def)
  qed (use ts in simp)
  ultimately show "norm_json (JArr vs) = norm_json w \<and> r = r'" using w by simp
qed

lemma item_cancel:
  assumes "cancels fr (snd p)" "item_emits fr p s" "item_emits fr q t" "delim r" "delim r'"
    and eq: "s @ r = t @ r'"
  shows "fst p = fst q \<and> norm_json (snd p) = norm_json (snd q) \<and> r = r'"
proof -
  obtain x y where x: "emit fr (snd p) = Inr x" "s = escape_string (fst p) @ '':'' @ x"
      and y: "emit fr (snd q) = Inr y" "t = escape_string (fst q) @ '':'' @ y"
    using assms by (auto simp: item_emits_def)
  have "fst p = fst q \<and> '':'' @ x @ r = '':'' @ y @ r'"
    using eq x y by (intro escape_string_cancel) simp
  with cancelsD[OF assms(1) x(1) y(1) assms(4,5)] show ?thesis by simp
qed

lemma cancels_obj:
  assumes fr: "float_repr_ok fr" and IH: "\<And>k v. (k, v) \<in> set kvs \<Longrightarrow> cancels fr v"
  shows "cancels fr (JObj kvs)"
  unfolding cancels_def
proof (intro allI impI)
  fix w s t r r'
  assume a: "emit fr (JObj kvs) = Inr s" "emit fr w = Inr t" "s @ r = t @ r'"
  then obtain ss where ss: "list_all2 (item_emits fr) (sort_key fst kvs) ss"
      and s: "s = ''{'' @ join '','' ss @ ''}''"
    unfolding emit_obj_conv by blast
  with a obtain lws ts where w: "w = JObj lws"
      and ts: "list_all2 (item_emits fr) (sort_key fst lws) ts" and t: "t = ''{'' @ join '','' ts @ ''}''"
    using emit_head[OF fr, of w t] number_char_heads
    by (cases w) (auto simp: neq_Nil_conv emit_obj_conv simp del: emit.simps(7) split: if_splits)
  have canc: "cancels fr (snd p)" if "p \<in> set (sort_key fst kvs)" for p
    using IH that by (cases p) auto
  have "ss = ts \<and> r = r'"
  proof (rule join_cancel[of "CHR ''}''"])
    show "\<forall>s\<in>set ss. \<forall>t\<in>set ts. \<forall>r r'. delim r \<longrightarrow> delim r' \<longrightarrow> s @ r = t @ r' \<longrightarrow> s = t"
      using item_cancel[OF canc] list_all2_set2[OF ss] list_all2_set2[OF ts] by (metis append_same_eq)
    show "\<forall>s\<in>set ss \<union> set ts. s \<noteq> [] \<and> hd s \<noteq> CHR ''}''"
      using list_all2_set2[OF ss] list_all2_set2[OF ts]
      by (fastforce simp: item_emits_def escape_string_def)
  qed (use a s t in auto)
  moreover from this have "map (\<lambda>(k, v). (k, norm_json v)) (sort_key fst kvs)
      = map (\<lambda>(k, v). (k, norm_json v)) (sort_key fst lws)"
  proof (intro list_all2_map_eq[OF ss])
    fix p q z assume "p \<in> set (sort_key fst kvs)" "item_emits fr p z" "item_emits fr q z"
    then show "(case p of (k, v) \<Rightarrow> (k, norm_json v)) = (case q of (k, v) \<Rightarrow> (k, norm_json v))"
      using item_cancel[OF canc, of p z q z "[]" "[]"] by (simp add: delim_def split_beta)
  qed (use ts in simp)
  ultimately show "norm_json (JObj kvs) = norm_json w \<and> r = r'" using w by simp
qed

lemma emit_cancels: "float_repr_ok fr \<Longrightarrow> cancels fr v"
proof (induction v rule: norm_json.induct)
  case (7 kvs)
  then show ?case by (intro cancels_obj) auto
qed (auto intro: cancels_scalar cancels_number cancels_arr cancels_opaque simp: number_json_def)

text \<open>Serialisation forgets exactly the normal form.\<close>

lemma map_fst_snd_sort: "sort_key fst (map (\<lambda>(k, v). (k, f v)) kvs) = map (\<lambda>(k, v). (k, f v)) (sort_key fst kvs)"
proof -
  have "insort_key fst (k, f v) (map (\<lambda>(k, v). (k, f v)) xs)
      = map (\<lambda>(k, v). (k, f v)) (insort_key fst (k, v) xs)" for k v xs
    by (induction xs) auto
  note ins = this
  show ?thesis by (induction kvs) (auto simp: ins)
qed

lemma emit_norm: "emit fr (norm_json v) = emit fr v"
proof (induction v rule: norm_json.induct)
  case (5 f)
  then show ?case by (cases f) (auto simp: rat_is_integer_def)
next
  case (6 vs)
  then have "map (emit fr) (map norm_json vs) = map (emit fr) vs" by simp
  then show ?case by (simp only: norm_json.simps emit.simps)
next
  case (7 kvs)
  let ?n = "\<lambda>(k, v). (k, norm_json v)"
  let ?e = "\<lambda>(k, v). bindE (emit fr v) (\<lambda>s. Inr (escape_string k @ '':'' @ s))"
  have "map ?e (map ?n (sort_key fst kvs)) = map ?e (sort_key fst kvs)"
    using 7 by (auto intro!: map_cong)
  moreover have "sort_key fst (map ?n (sort_key fst kvs)) = map ?n (sort_key fst kvs)"
    by (simp add: map_fst_snd_sort sort_key_id_if_sorted)
  ultimately show ?case by (simp only: norm_json.simps emit.simps)
qed simp_all

lemma canonicalize_norm_eq:
  assumes "float_repr_ok fr"
    and "canonicalize fr v = Inr bs" and "canonicalize fr w = Inr bs"
  shows "norm_json v = norm_json w"
proof -
  obtain s where "emit fr v = Inr s" "emit fr w = Inr s"
    using assms(2,3) by (auto simp: canonicalize_def bindE_Inr_conv)
  then show ?thesis using cancelsD[OF emit_cancels[OF assms(1)], of v s w s "[]" "[]"] by (simp add: delim_def)
qed

text \<open>A concrete spelling of non-integral numbers that meets \<open>float_repr_ok\<close>.\<close>

definition ratio_repr :: "rat \<Rightarrow> string" where
  "ratio_repr q = (case quotient_of q of (n, d) \<Rightarrow> str_int n @ ''.'' @ str_int d)"

lemma float_repr_ok_ratio: "float_repr_ok ratio_repr"
proof -
  have "number_char c" if "c \<in> set (ratio_repr q)" for c q
    using that str_int_number by (cases "quotient_of q") (auto simp: ratio_repr_def number_char_def)
  moreover have "CHR ''.'' \<in> set (ratio_repr q)" for q
    by (cases "quotient_of q") (auto simp: ratio_repr_def)
  moreover have "p = q" if "ratio_repr p = ratio_repr q" for p q
  proof -
    obtain n d where p: "quotient_of p = (n, d)" by (cases "quotient_of p")
    obtain m e where q: "quotient_of q = (m, e)" by (cases "quotient_of q")
    have no_dot: "CHR ''.'' \<notin> set (str_int i)" for i
      by (auto dest!: str_int_chars simp: is_digit_def digit_value_def)
    have "str_int n @ CHR ''.'' # str_int d = str_int m @ CHR ''.'' # str_int e"
      using that p q by (simp add: ratio_repr_def)
    then have "n = m \<and> d = e"
      by (metis no_dot takeWhile_sep dropWhile_sep list.inject str_int_inj)
    with p q show ?thesis by (metis quotient_of_inject)
  qed
  ultimately show ?thesis by (fastforce simp: float_repr_ok_def inj_on_def)
qed

lemma canonicalize_norm: "canonicalize fr (norm_json v) = canonicalize fr v"
  by (simp add: canonicalize_def emit_norm)

text \<open>C20. Two serialisable values have the same canonical bytes exactly when they are equal
  up to the order of dictionary keys and the spelling of integral numbers.\<close>

theorem canonicalize_injective:
  assumes "float_repr_ok fr"
    and "canonicalize fr v = Inr bs" and "canonicalize fr w = Inr bs'"
  shows "bs = bs' \<longleftrightarrow> norm_json v = norm_json w"
  using canonicalize_norm_eq[OF assms(1)] assms(2,3) canonicalize_norm
  by (metis sum.inject(2))

theorem canonicalize_injective_witness:
  "norm_json (JObj [(''b'', JFloat (FFin 2)), (''a'', JStr [CHR 0x0A])])
     = norm_json (JObj [(''a'', JStr [CHR 0x0A]), (''b'', JInt 2)])"
proof -
  let ?s = "[CHR ''{'', CHR 0x22, CHR ''a'', CHR 0x22, CHR '':'', CHR 0x22, CHR 0x5C, CHR ''n'', CHR 0x22,
    CHR '','', CHR 0x22, CHR ''b'', CHR 0x22, CHR '':'', CHR ''2'', CHR ''}'']"
  have "canonicalize ratio_repr (JObj [(''b'', JFloat (FFin 2)), (''a'', JStr [CHR 0x0A])])
     = Inr (encode_utf8 ?s)" by code_simp
  moreover have "canonicalize ratio_repr (JObj [(''a'', JStr [CHR 0x0A]), (''b'', JInt 2)])
     = Inr (encode_utf8 ?s)" by code_simp
  ultimately show ?thesis using canonicalize_injective[OF float_repr_ok_ratio] by blast
qed

end
