(* ===== verification/Uuid.thy ===== *)
theory Uuid
  imports Py_Strings
begin

text \<open>
  \<open>uuid.UUID\<close> of the standard library, as the system uses it: a 128-bit value with its
  canonical text form \<open>str(u)\<close> and the lenient reader \<open>UUID(s)\<close>.
\<close>

type_synonym uuid = "128 word"

definition hex_char :: "nat \<Rightarrow> char" where
  "hex_char d = (if d < 10 then char_of (48 + d) else char_of (87 + d))"

definition hex_value :: "char \<Rightarrow> nat option" where
  "hex_value c =
     (let n = of_char c :: nat in
      if 48 \<le> n \<and> n \<le> 57 then Some (n - 48)
      else if 97 \<le> n \<and> n \<le> 102 then Some (n - 87)
      else if 65 \<le> n \<and> n \<le> 70 then Some (n - 55)
      else None)"

text \<open>\<open>"%032x" % n\<close>.\<close>

fun hex_width :: "nat \<Rightarrow> nat \<Rightarrow> string" where
  "hex_width 0 n = []"
| "hex_width (Suc w) n = hex_width w (n div 16) @ [hex_char (n mod 16)]"

definition str_uuid :: "uuid \<Rightarrow> string" where
  "str_uuid u =
     (let h = hex_width 32 (unat u) in
      take 8 h @ ''-'' @ take 4 (drop 8 h) @ ''-'' @ take 4 (drop 12 h) @ ''-''
        @ take 4 (drop 16 h) @ ''-'' @ drop 20 h)"

text \<open>\<open>s.replace(p, "")\<close> for a non-empty \<open>p\<close>.\<close>

function remove_all :: "string \<Rightarrow> string \<Rightarrow> string" where
  "remove_all p [] = []"
| "remove_all p (c # cs) =
     (if p \<noteq> [] \<and> starts_with p (c # cs) then remove_all p (drop (length p) (c # cs))
      else c # remove_all p cs)"
  by pat_completeness auto
termination
  by (relation "measure (\<lambda>(p, s). length s)") auto

text \<open>\<open>int(s, 16)\<close>: white space, sign, an optional \<open>0x\<close>, digits with single underscores.\<close>

fun hex_body :: "nat \<Rightarrow> bool \<Rightarrow> string \<Rightarrow> nat option" where
  "hex_body acc seen [] = (if seen then Some acc else None)"
| "hex_body acc seen (c # cs) =
     (case hex_value c of
        Some d \<Rightarrow> hex_body (acc * 16 + d) True cs
      | None \<Rightarrow> if c = CHR ''_'' \<and> seen then hex_body acc False cs else None)"

definition hex_prefixed :: "string \<Rightarrow> nat option" where
  "hex_prefixed s =
     (if take 2 s \<in> {''0x'', ''0X''} then hex_body 0 (take 1 (drop 2 s) = ''_'') (drop 2 s)
      else hex_body 0 False s)"

definition py_int16 :: "string \<Rightarrow> int option" where
  "py_int16 s =
     (case str_strip s of
        [] \<Rightarrow> None
      | c # cs \<Rightarrow>
          if c = CHR ''-'' then map_option (\<lambda>n. - int n) (hex_prefixed cs)
          else if c = CHR ''+'' then map_option int (hex_prefixed cs)
          else map_option int (hex_prefixed (c # cs)))"

text \<open>\<open>UUID(s)\<close>; \<open>None\<close> is the \<open>ValueError\<close>.\<close>

definition parse_uuid :: "string \<Rightarrow> uuid option" where
  "parse_uuid s =
     (let hex = remove_all ''-'' (strip_by (\<lambda>c. c \<in> {CHR ''{'', CHR ''}''})
                  (remove_all ''uuid:'' (remove_all ''urn:'' s)))
      in if length hex \<noteq> 32 then None
         else case py_int16 hex of
                None \<Rightarrow> None
              | Some i \<Rightarrow> if 0 \<le> i \<and> i < 2 ^ 128 then Some (of_int i) else None)"

section \<open>Reading back the canonical form\<close>

lemma hex_value_hex_char [simp]: "d < 16 \<Longrightarrow> hex_value (hex_char d) = Some d"
  by (auto simp: hex_value_def hex_char_def Let_def)

lemma length_hex_width [simp]: "length (hex_width w n) = w"
  by (induction w arbitrary: n) auto

lemma hex_width_chars: "c \<in> set (hex_width w n) \<Longrightarrow> \<exists>d < 16. c = hex_char d"
  by (induction w arbitrary: n) (auto intro: exI[of _ "_ mod 16"])

lemma hex_body_append:
  "hex_body acc seen (xs @ [hex_char d]) =
     (if d < 16 \<and> (\<forall>c \<in> set xs. hex_value c \<noteq> None)
      then map_option (\<lambda>v. v * 16 + d) (hex_body acc True xs)
      else hex_body acc seen (xs @ [hex_char d]))"
  by (induction xs arbitrary: acc seen) (auto split: option.splits)

lemma hex_width_values: "\<forall>c \<in> set (hex_width w n). hex_value c \<noteq> None"
  by (auto dest!: hex_width_chars)

lemma hex_body_True: "hex_body 0 True (hex_width w n) = Some (n mod 16 ^ w)"
proof (induction w arbitrary: n)
  case 0
  then show ?case by simp
next
  case (Suc w)
  have "hex_body 0 True (hex_width (Suc w) n) = Some (n div 16 mod 16 ^ w * 16 + n mod 16)"
    using Suc hex_width_values by (simp add: hex_body_append[of 0 True])
  also have "n div 16 mod 16 ^ w * 16 + n mod 16 = n mod 16 ^ Suc w"
    using mod_mult2_eq[of n 16 "16 ^ w"] by simp
  finally show ?case .
qed

lemma hex_body_hex_width: "0 < w \<Longrightarrow> hex_body 0 False (hex_width w n) = Some (n mod 16 ^ w)"
proof -
  assume w: "0 < w"
  have "hex_body 0 False xs = hex_body 0 True xs" if "xs \<noteq> []" "hex_value (hd xs) \<noteq> None" for xs
    using that by (cases xs) auto
  moreover have "hex_width w n \<noteq> []" using w by (metis length_hex_width list.size(3) less_irrefl)
  ultimately show ?thesis using hex_width_values[of w n] hex_body_True[of w n]
    by (metis list.set_sel(1))
qed

lemma hex_char_facts:
  assumes "d < 16"
  shows "hex_char d \<notin> {CHR ''-'', CHR ''+'', CHR ''u'', CHR ''x'', CHR ''X'', CHR ''{'', CHR ''}''}"
    and "\<not> is_space (hex_char d)"
  using assms hex_value_hex_char[OF assms]
  by (auto simp: hex_value_def is_space_def Let_def split: if_splits)

lemma remove_all_absent: "p = x # xs \<Longrightarrow> x \<notin> set s \<Longrightarrow> remove_all p s = s"
  by (induction s) (auto simp: starts_with_def)

lemma remove_all_char: "remove_all [c] s = filter (\<lambda>x. x \<noteq> c) s"
  by (induction s) (auto simp: starts_with_def)

definition hex_string :: "string \<Rightarrow> bool" where
  "hex_string h \<longleftrightarrow> (\<forall>c \<in> set h. \<exists>d < 16. c = hex_char d)"

lemma hex_string_width [simp]: "hex_string (hex_width w n)"
  by (auto simp: hex_string_def dest: hex_width_chars)

lemma hex_stringD:
  assumes "hex_string h" "c \<in> set h"
  shows "c \<noteq> CHR ''-''" "c \<noteq> CHR ''+''" "c \<noteq> CHR ''u''" "c \<noteq> CHR ''x''" "c \<noteq> CHR ''X''"
    "c \<noteq> CHR ''{''" "c \<noteq> CHR ''}''" "\<not> is_space c"
proof -
  obtain d where "d < 16" "c = hex_char d" using assms by (auto simp: hex_string_def)
  with hex_char_facts[of d] show "c \<noteq> CHR ''-''" "c \<noteq> CHR ''+''" "c \<noteq> CHR ''u''" "c \<noteq> CHR ''x''"
    "c \<noteq> CHR ''X''" "c \<noteq> CHR ''{''" "c \<noteq> CHR ''}''" "\<not> is_space c" by auto
qed

lemma py_int16_hex:
  assumes h: "hex_string h" "h \<noteq> []"
  shows "py_int16 h = map_option int (hex_body 0 False h)"
proof -
  obtain c cs where c: "h = c # cs" using h by (cases h) auto
  have strip: "str_strip h = h" using h hex_stringD(8) by (intro str_strip_id) auto
  have "take 2 h \<notin> {''0x'', ''0X''}"
  proof
    assume "take 2 h \<in> {''0x'', ''0X''}"
    then have "CHR ''x'' \<in> set (take 2 h) \<or> CHR ''X'' \<in> set (take 2 h)" by auto
    then show False using hex_stringD(4,5)[OF h(1)] by (blast dest: in_set_takeD)
  qed
  then have "hex_prefixed h = hex_body 0 False h" by (simp add: hex_prefixed_def)
  with strip c hex_stringD(1,2)[OF h(1), of c] show ?thesis by (simp add: py_int16_def)
qed

text \<open>Cutting a string at the four hyphen positions.\<close>

definition hyphenate :: "string \<Rightarrow> string" where
  "hyphenate h = take 8 h @ ''-'' @ take 4 (drop 8 h) @ ''-'' @ take 4 (drop 12 h) @ ''-''
        @ take 4 (drop 16 h) @ ''-'' @ drop 20 h"

lemma set_hyphenate: "set (hyphenate h) \<subseteq> insert (CHR ''-'') (set h)"
  by (auto simp: hyphenate_def dest!: in_set_takeD in_set_dropD)

lemma take_drop_chain: "take a (drop b h) @ drop (a + b) h = drop b h"
  by (metis append_take_drop_id drop_drop)

lemma unhyphenate:
  assumes "CHR ''-'' \<notin> set h"
  shows "filter (\<lambda>x. x \<noteq> CHR ''-'') (hyphenate h) = h"
proof -
  have sub: "filter (\<lambda>x. x \<noteq> CHR ''-'') (take a (drop b h)) = take a (drop b h)"
    "filter (\<lambda>x. x \<noteq> CHR ''-'') (drop b h) = drop b h"
    "filter (\<lambda>x. x \<noteq> CHR ''-'') (take a h) = take a h" for a b
    using assms by (auto simp: filter_id_conv dest!: in_set_takeD in_set_dropD)
  have "filter (\<lambda>x. x \<noteq> CHR ''-'') (hyphenate h)
      = take 8 h @ take 4 (drop 8 h) @ take 4 (drop 12 h) @ take 4 (drop 16 h) @ drop 20 h"
    by (simp add: hyphenate_def sub)
  also have "take 4 (drop 16 h) @ drop 20 h = drop 16 h" using take_drop_chain[of 4 16 h] by simp
  also have "take 4 (drop 12 h) @ drop 16 h = drop 12 h" using take_drop_chain[of 4 12 h] by simp
  also have "take 4 (drop 8 h) @ drop 12 h = drop 8 h" using take_drop_chain[of 4 8 h] by simp
  finally show ?thesis by simp
qed

lemma parse_uuid_hyphenate:
  assumes h: "hex_string h" "length h = 32"
  shows "parse_uuid (hyphenate h) =
    (case py_int16 h of
       None \<Rightarrow> None | Some i \<Rightarrow> if 0 \<le> i \<and> i < 2 ^ 128 then Some (of_int i) else None)"
proof -
  have no: "CHR ''u'' \<notin> set (hyphenate h)" "CHR ''{'' \<notin> set (hyphenate h)"
    "CHR ''}'' \<notin> set (hyphenate h)"
    using set_hyphenate[of h] hex_stringD(3,6,7)[OF h(1)] by auto
  have ne: "hyphenate h \<noteq> []" by (simp add: hyphenate_def)
  have "strip_by (\<lambda>c. c \<in> {CHR ''{'', CHR ''}''}) (hyphenate h) = hyphenate h"
    using no hd_in_set[OF ne] last_in_set[OF ne] by (intro strip_by_id) auto
  moreover have "filter (\<lambda>x. x \<noteq> CHR ''-'') (hyphenate h) = h"
    using hex_stringD(1)[OF h(1)] by (intro unhyphenate) auto
  ultimately show ?thesis
    using no h by (simp add: parse_uuid_def remove_all_absent remove_all_char)
qed

text \<open>The canonical text form reads back to the same UUID.\<close>

lemma parse_str_uuid [simp]: "parse_uuid (str_uuid u) = Some u"
proof -
  define h where "h = hex_width 32 (unat u)"
  have lt: "unat u < 2 ^ 128" using unsigned_less[of u] by simp
  have pow: "(16::nat) ^ 32 = 2 ^ 128" by simp
  have h: "hex_string h" "length h = 32" by (simp_all add: h_def)
  then have ne: "h \<noteq> []" by auto
  have "hex_body 0 False h = Some (unat u)"
    unfolding h_def using lt by (subst hex_body_hex_width) (simp_all only: pow mod_less zero_less_numeral)
  then have "py_int16 h = Some (int (unat u))" by (simp add: py_int16_hex[OF h(1) ne])
  moreover have "int (unat u) < 2 ^ 128" using lt by (metis of_nat_less_numeral_power_cancel_iff)
  moreover have "str_uuid u = hyphenate h" by (simp add: str_uuid_def hyphenate_def h_def Let_def)
  ultimately show ?thesis using parse_uuid_hyphenate[OF h(1,2)] by simp
qed

lemma str_uuid_inj [simp]: "str_uuid u = str_uuid v \<longleftrightarrow> u = v"
  by (metis option.inject parse_str_uuid)

lemma str_uuid_not_Nil [simp]: "str_uuid u \<noteq> []"
  by (simp add: str_uuid_def Let_def)

end
