(* ===== verification/Crdt_Hashing.thy ===== *)
theory Crdt_Hashing
  imports Did Json_Canon Uuid
begin

text \<open>
  Models \<^verbatim>\<open>backend/app/crdt/hashing.py\<close> and the memory enums of
  \<^verbatim>\<open>backend/app/models/base.py\<close>: the signable body of a memory record and its content hash.
  SHA-256, \<open>repr(float)\<close> and Ed25519 are fields of the parameter \<open>P :: platform\<close>; the
  theorems hold for every such platform.
\<close>

record platform =
  sha256 :: "bytes \<Rightarrow> bytes"
  float_repr :: "rat \<Rightarrow> string"
  ed_lib :: ed25519

section \<open>Enumerations\<close>

datatype memory_type = FACT | CONTEXT | RESULT | REASONING | META | CACHE

datatype record_state = ACTIVE | SUPERSEDED | HISTORICAL | TOMBSTONED

fun memory_type_value :: "memory_type \<Rightarrow> string" where
  "memory_type_value FACT = ''fact''"
| "memory_type_value CONTEXT = ''context''"
| "memory_type_value RESULT = ''result''"
| "memory_type_value REASONING = ''reasoning''"
| "memory_type_value META = ''meta''"
| "memory_type_value CACHE = ''cache''"

text \<open>\<open>str()\<close> of a member of a \<open>(str, Enum)\<close> class is \<open>Class.MEMBER\<close>.\<close>

fun str_memory_type :: "memory_type \<Rightarrow> string" where
  "str_memory_type FACT = ''MemoryType.FACT''"
| "str_memory_type CONTEXT = ''MemoryType.CONTEXT''"
| "str_memory_type RESULT = ''MemoryType.RESULT''"
| "str_memory_type REASONING = ''MemoryType.REASONING''"
| "str_memory_type META = ''MemoryType.META''"
| "str_memory_type CACHE = ''MemoryType.CACHE''"

text \<open>\<open>MemoryType(s)\<close> and \<open>RecordState(s)\<close>: lookup by value; \<open>None\<close> is the \<open>ValueError\<close>.\<close>

definition parse_memory_type :: "string \<Rightarrow> memory_type option" where
  "parse_memory_type s =
     List.find (\<lambda>m. memory_type_value m = s) [FACT, CONTEXT, RESULT, REASONING, META, CACHE]"

fun record_state_value :: "record_state \<Rightarrow> string" where
  "record_state_value ACTIVE = ''active''"
| "record_state_value SUPERSEDED = ''superseded''"
| "record_state_value HISTORICAL = ''historical''"
| "record_state_value TOMBSTONED = ''tombstoned''"

definition parse_record_state :: "string \<Rightarrow> record_state option" where
  "parse_record_state s =
     List.find (\<lambda>m. record_state_value m = s) [ACTIVE, SUPERSEDED, HISTORICAL, TOMBSTONED]"

lemma parse_memory_type_value [simp]: "parse_memory_type (memory_type_value m) = Some m"
  by (cases m) (simp_all add: parse_memory_type_def)

lemma parse_record_state_value [simp]: "parse_record_state (record_state_value st) = Some st"
  by (cases st) (simp_all add: parse_record_state_def)

lemma str_memory_type_inj [simp]: "str_memory_type a = str_memory_type b \<longleftrightarrow> a = b"
  by (cases a; cases b) simp_all

section \<open>The signable body\<close>

record canonical_body =
  cb_workflow_id :: string
  cb_memory_type :: string
  cb_content :: string
  cb_confidence :: pyfloat
  cb_metadata :: "(string \<times> json) list"
  cb_parent_hashes :: "string list"
  cb_author_did :: "string option"
  cb_source_agent_id :: "string option"

fun clone_jsonable :: "json \<Rightarrow> json" where
  "clone_jsonable (JObj kvs) = JObj (map (\<lambda>(k, v). (k, clone_jsonable v)) kvs)"
| "clone_jsonable (JArr vs) = JArr (map clone_jsonable vs)"
| "clone_jsonable (JOpaque t u) = JStr u"
| "clone_jsonable v = v"

definition json_opt_str :: "string option \<Rightarrow> json" where
  "json_opt_str s = (case s of None \<Rightarrow> JNull | Some t \<Rightarrow> JStr t)"

definition as_jsonable :: "canonical_body \<Rightarrow> json" where
  "as_jsonable b = JObj
     [(''author_did'', json_opt_str (cb_author_did b)),
      (''confidence'', JFloat (cb_confidence b)),
      (''content'', JStr (cb_content b)),
      (''memory_type'', JStr (cb_memory_type b)),
      (''metadata'', clone_jsonable (JObj (cb_metadata b))),
      (''parent_hashes'', JArr (map JStr (sort (cb_parent_hashes b)))),
      (''source_agent_id'', json_opt_str (cb_source_agent_id b)),
      (''workflow_id'', JStr (cb_workflow_id b))]"

definition to_signable_bytes :: "platform \<Rightarrow> canonical_body \<Rightarrow> canon_error + bytes" where
  "to_signable_bytes P b = canonicalize (float_repr P) (as_jsonable b)"

definition build_canonical_body ::
  "uuid option \<Rightarrow> memory_type \<Rightarrow> string \<Rightarrow> pyfloat \<Rightarrow> (string \<times> json) list option
     \<Rightarrow> string list option \<Rightarrow> string option \<Rightarrow> uuid option \<Rightarrow> canonical_body" where
  "build_canonical_body workflow mt content conf md parents author agent =
     \<lparr>cb_workflow_id = (case workflow of None \<Rightarrow> ''None'' | Some u \<Rightarrow> str_uuid u),
      cb_memory_type = str_memory_type mt,
      cb_content = content,
      cb_confidence = conf,
      cb_metadata = (case md of None \<Rightarrow> [] | Some m \<Rightarrow> m),
      cb_parent_hashes = (case parents of None \<Rightarrow> [] | Some hs \<Rightarrow> hs),
      cb_author_did = author,
      cb_source_agent_id = map_option str_uuid agent\<rparr>"

section \<open>The content hash\<close>

definition compute_content_hash :: "platform \<Rightarrow> canonical_body \<Rightarrow> canon_error + string" where
  "compute_content_hash P b =
     bindE (to_signable_bytes P b) (\<lambda>bs. Inr (''z'' @ b58encode (sha256 P bs)))"

section \<open>What the hash commits to\<close>

text \<open>
  Two bodies are the same content when they agree in every field, parents and metadata keys
  taken without their order.
\<close>

definition same_content :: "canonical_body \<Rightarrow> canonical_body \<Rightarrow> bool" where
  "same_content a b \<longleftrightarrow>
     cb_workflow_id a = cb_workflow_id b \<and> cb_memory_type a = cb_memory_type b
     \<and> cb_content a = cb_content b \<and> norm_json (JFloat (cb_confidence a)) = norm_json (JFloat (cb_confidence b))
     \<and> norm_json (clone_jsonable (JObj (cb_metadata a))) = norm_json (clone_jsonable (JObj (cb_metadata b)))
     \<and> sort (cb_parent_hashes a) = sort (cb_parent_hashes b)
     \<and> cb_author_did a = cb_author_did b \<and> cb_source_agent_id a = cb_source_agent_id b"

lemma char_less_iff: "(c::char) < d \<longleftrightarrow> (of_char c :: nat) < of_char d"
  by (simp add: less_char_def)

lemma sorted_body_keys:
  "sort_key fst [(''author_did'', a), (''confidence'', b), (''content'', c), (''memory_type'', d),
      (''metadata'', e), (''parent_hashes'', f), (''source_agent_id'', g), (''workflow_id'', (h :: json))]
    = [(''author_did'', a), (''confidence'', b), (''content'', c), (''memory_type'', d),
      (''metadata'', e), (''parent_hashes'', f), (''source_agent_id'', g), (''workflow_id'', h)]"
  by (rule sort_key_id_if_sorted) (simp add: less_eq_char_def less_char_def)

lemma norm_json_opt_str [simp]: "norm_json (json_opt_str s) = json_opt_str s"
  by (cases s) (simp_all add: json_opt_str_def)

lemma json_opt_str_inj [simp]: "json_opt_str s = json_opt_str t \<longleftrightarrow> s = t"
  by (cases s; cases t) (simp_all add: json_opt_str_def)

lemma norm_as_jsonable: "norm_json (as_jsonable b) = JObj
     [(''author_did'', json_opt_str (cb_author_did b)),
      (''confidence'', norm_json (JFloat (cb_confidence b))),
      (''content'', JStr (cb_content b)),
      (''memory_type'', JStr (cb_memory_type b)),
      (''metadata'', norm_json (clone_jsonable (JObj (cb_metadata b)))),
      (''parent_hashes'', JArr (map JStr (sort (cb_parent_hashes b)))),
      (''source_agent_id'', json_opt_str (cb_source_agent_id b)),
      (''workflow_id'', JStr (cb_workflow_id b))]"
  unfolding as_jsonable_def norm_json.simps(7) sorted_body_keys
  by (simp del: norm_json.simps(5,7) clone_jsonable.simps)

lemma map_JStr_inj: "map JStr xs = map JStr ys \<longleftrightarrow> xs = ys"
  by (simp add: inj_map_eq_map inj_def)

lemma norm_as_jsonable_eq_iff:
  "norm_json (as_jsonable a) = norm_json (as_jsonable b) \<longleftrightarrow> same_content a b"
  unfolding norm_as_jsonable same_content_def
  by (auto simp: map_JStr_inj simp del: norm_json.simps(5,7) clone_jsonable.simps)

lemma signable_bytes_eq_iff:
  assumes "float_repr_ok (float_repr P)"
    and "to_signable_bytes P a = Inr x" "to_signable_bytes P b = Inr y"
  shows "x = y \<longleftrightarrow> same_content a b"
proof -
  have "x = y \<longleftrightarrow> norm_json (as_jsonable a) = norm_json (as_jsonable b)"
    using assms canonicalize_norm_eq canonicalize_norm
    unfolding to_signable_bytes_def by (metis sum.inject(2))
  then show ?thesis by (simp only: norm_as_jsonable_eq_iff)
qed

lemma same_content_bytes:
  assumes "same_content a b"
  shows "to_signable_bytes P a = to_signable_bytes P b"
proof -
  have "norm_json (as_jsonable a) = norm_json (as_jsonable b)"
    using assms by (simp only: norm_as_jsonable_eq_iff)
  then show ?thesis
    using canonicalize_norm[of "float_repr P" "as_jsonable a"] canonicalize_norm[of "float_repr P" "as_jsonable b"]
    by (simp only: to_signable_bytes_def)
qed

lemma same_content_hash:
  "same_content a b \<Longrightarrow> compute_content_hash P a = compute_content_hash P b"
  by (simp only: compute_content_hash_def same_content_bytes[of a b P])

lemma same_content_refl [simp]: "same_content a a"
  by (simp add: same_content_def)

lemma content_hash_z: "compute_content_hash P b = Inr h \<Longrightarrow> starts_with ''z'' h"
  by (auto simp: compute_content_hash_def bindE_Inr_conv starts_with_def)

text \<open>C22. The content hash identifies the content: two records have the same hash exactly
  when they have the same content, unless their two serialisations are a SHA-256 collision.\<close>

theorem content_hash_identifies:
  assumes "float_repr_ok (float_repr P)"
    and "to_signable_bytes P a = Inr x" and "to_signable_bytes P b = Inr y"
    and "inj_on (sha256 P) {x, y}"
  shows "compute_content_hash P a = compute_content_hash P b \<longleftrightarrow> same_content a b"
proof -
  have "compute_content_hash P a = compute_content_hash P b
      \<longleftrightarrow> b58encode (sha256 P x) = b58encode (sha256 P y)"
    using assms(2,3) by (simp add: compute_content_hash_def)
  also have "\<dots> \<longleftrightarrow> sha256 P x = sha256 P y" by (metis b58decode_b58encode sum.inject(2))
  also have "\<dots> \<longleftrightarrow> x = y" using assms(4) by (auto simp: inj_on_def)
  also have "\<dots> \<longleftrightarrow> same_content a b" by (rule signable_bytes_eq_iff[OF assms(1-3)])
  finally show ?thesis .
qed

text \<open>A small platform, for evaluating concrete instances: an injective digest, an exact
  spelling of ratios, and the signature scheme of the concrete instances.\<close>

definition demo_platform :: platform where
  "demo_platform = \<lparr>sha256 = (\<lambda>bs. bs), float_repr = ratio_repr, ed_lib = demo_ed\<rparr>"

lemma demo_platform_ok:
  "float_repr_ok (float_repr demo_platform)" "inj_on (sha256 demo_platform) A"
  "ed25519_ok (ed_lib demo_platform)"
  by (simp_all add: demo_platform_def float_repr_ok_ratio demo_ed_ok)

definition demo_body :: "string \<Rightarrow> string list \<Rightarrow> canonical_body" where
  "demo_body content parents =
     build_canonical_body (Some 1) FACT content (FFin (1 / 2)) None (Some parents) None None"

lemma demo_body_bytes: "\<exists>x. to_signable_bytes demo_platform (demo_body ''c'' [''zb'', ''za'']) = Inr x"
  "\<exists>x. to_signable_bytes demo_platform (demo_body ''c'' [''za'', ''zb'']) = Inr x"
  by (auto simp: demo_body_def build_canonical_body_def to_signable_bytes_def as_jsonable_def
      canonicalize_def bindE_Inr_conv seqE_map_conv json_opt_str_def list_all2_Cons1)

theorem content_hash_identifies_witness:
  "compute_content_hash demo_platform (demo_body ''c'' [''zb'', ''za''])
     = compute_content_hash demo_platform (demo_body ''c'' [''za'', ''zb''])"
proof -
  obtain x y where xy:
    "to_signable_bytes demo_platform (demo_body ''c'' [''zb'', ''za'']) = Inr x"
    "to_signable_bytes demo_platform (demo_body ''c'' [''za'', ''zb'']) = Inr y"
    using demo_body_bytes by auto
  have "same_content (demo_body ''c'' [''zb'', ''za'']) (demo_body ''c'' [''za'', ''zb''])"
    by (simp add: same_content_def demo_body_def build_canonical_body_def less_eq_char_def less_char_def)
  then show ?thesis
    using content_hash_identifies[OF demo_platform_ok(1) xy demo_platform_ok(2)] by simp
qed

end
