(* ===== verification/Crdt_Store.thy ===== *)
theory Crdt_Store
  imports Crdt_Hashing
begin

text \<open>
  Models \<^verbatim>\<open>backend/app/crdt/store.py\<close> over the columns and constraints of
  \<^verbatim>\<open>backend/app/models/memory.py\<close>: \<open>CRDTStore.put\<close>, the hash and signature resolution, and the
  lookup by hash.

  The database is a node's tables together with the SQLAlchemy session that reads and writes
  them. A session remembers the state a rollback returns to. What the code gets from the
  database and from other writers is the parameter \<open>E :: db_env\<close>: which rows the column types
  accept, the fresh primary keys, the rows (also workflow rows) that other sessions commit between
  the lookup and the insert, and whether the SAVEPOINT of \<open>begin_nested\<close> is issued before the pending row is
  flushed (then a failed insert only undoes itself) or after it (then it deactivates the
  session and undoes its transaction).
\<close>

section \<open>Tables\<close>

record memory_record =
  mr_memory_id :: uuid
  mr_workflow_id :: "uuid option"
  mr_source_agent_id :: "uuid option"
  mr_memory_type :: memory_type
  mr_content :: string
  mr_embedding :: "rat list option"
  mr_metadata :: "(string \<times> json) list"
  mr_confidence :: pyfloat
  mr_freshness :: rat
  mr_version :: int
  mr_parent_version_id :: "uuid option"
  mr_author_did :: "string option"
  mr_parent_hashes :: "string list"
  mr_signature :: "string option"
  mr_content_hash :: "string option"
  mr_record_state :: record_state
  mr_expires_at :: "int option"

datatype workflow_status =
    WfPending | WfDecomposing | WfRunning | WfPaused | WfCompleted | WfFailed | WfCancelled
  | WfAwaitingApproval

record workflow_row =
  wr_workflow_id :: uuid
  wr_user_id :: string
  wr_prompt :: string
  wr_status :: workflow_status
  wr_budget_limit :: rat

record node_db =
  db_memory :: "memory_record list"
  db_workflows :: "workflow_row list"
  db_agents :: "uuid list"

record db_session =
  sess_start :: node_db
  sess_db :: node_db
  sess_active :: bool

record db_env =
  env_row_ok :: "memory_record \<Rightarrow> bool"
  env_new_id :: "node_db \<Rightarrow> uuid"
  env_savepoint_first :: bool
  env_race :: "memory_record \<Rightarrow> memory_record list"
  env_shadow_race :: "uuid \<Rightarrow> workflow_row option"

section \<open>Arguments and errors\<close>

record put_args =
  pa_workflow_id :: "uuid option"
  pa_memory_type :: memory_type
  pa_content :: string
  pa_confidence :: pyfloat
  pa_metadata :: "(string \<times> json) list option"
  pa_parent_hashes :: "string list option"
  pa_author_did :: "string option"
  pa_source_agent_id :: "uuid option"
  pa_keypair :: "keypair option"
  pa_precomputed_hash :: "string option"
  pa_precomputed_signature :: "string option"
  pa_embedding :: "rat list option"
  pa_version :: int
  pa_parent_version_id :: "uuid option"
  pa_expires_at :: "int option"
  pa_record_state :: record_state

text \<open>
  The first three are the subclasses and raise sites of \<open>CRDTStoreError\<close>; the others are
  exceptions of the layers below that \<open>put\<close> does not catch.
\<close>

datatype store_error =
    SignatureMismatch | UnknownAuthor | StoreWriteFailed
  | StoreDid did_error | StoreSig signature_error | StoreCanon canon_error
  | StoreData | StoreSessionInactive

fun is_crdt_store_error :: "store_error \<Rightarrow> bool" where
  "is_crdt_store_error SignatureMismatch = True"
| "is_crdt_store_error UnknownAuthor = True"
| "is_crdt_store_error StoreWriteFailed = True"
| "is_crdt_store_error _ = False"

section \<open>Hash and signature\<close>

definition public_key_for_did :: "string \<Rightarrow> store_error + bytes" where
  "public_key_for_did did =
     bindE (mapErr StoreDid (parse_did did)) (\<lambda>parsed.
       if did_method parsed = ''key'' then mapErr StoreDid (decode_did_key did)
       else if did_method parsed = ''nanda'' then mapErr StoreDid (decode_did_nanda did)
       else Inl UnknownAuthor)"

definition resolve_unsigned :: "platform \<Rightarrow> canonical_body \<Rightarrow> string option
    \<Rightarrow> store_error + (string option \<times> string option)" where
  "resolve_unsigned P body precomputed_hash =
     (case precomputed_hash of
        None \<Rightarrow>
          if cb_author_did body = None then Inr (None, None)
          else bindE (mapErr StoreCanon (compute_content_hash P body)) (\<lambda>h. Inr (Some h, None))
      | Some ph \<Rightarrow>
          bindE (mapErr StoreCanon (compute_content_hash P body)) (\<lambda>expected.
            if ph \<noteq> expected then Inl SignatureMismatch else Inr (Some ph, None)))"

definition sign_local :: "platform \<Rightarrow> canonical_body \<Rightarrow> keypair \<Rightarrow> string option \<Rightarrow> store_error + string" where
  "sign_local P body kp precomputed_signature =
     bindE (mapErr StoreCanon (to_signable_bytes P body)) (\<lambda>msg.
     bindE (mapErr StoreSig (sign_bytes (ed_lib P) msg (private_seed kp))) (\<lambda>raw.
       let signature = encode_multibase raw in
       case precomputed_signature of
         None \<Rightarrow> Inr signature
       | Some ps \<Rightarrow> if ps \<noteq> signature then Inl SignatureMismatch else Inr signature))"

definition verify_supplied :: "platform \<Rightarrow> canonical_body \<Rightarrow> string \<Rightarrow> store_error + string" where
  "verify_supplied P body precomputed_signature =
     (case cb_author_did body of
        None \<Rightarrow> Inl UnknownAuthor
      | Some did \<Rightarrow>
          bindE (public_key_for_did did) (\<lambda>public.
          bindE (catchE (decode_multibase precomputed_signature) (\<lambda>_. Inl SignatureMismatch)) (\<lambda>raw.
          bindE (mapErr StoreCanon (to_signable_bytes P body)) (\<lambda>msg.
          bindE (mapErr StoreSig (verify_bytes (ed_lib P) msg raw public)) (\<lambda>ok.
            if \<not> ok then Inl SignatureMismatch else Inr precomputed_signature)))))"

definition resolve_hash_and_signature ::
  "platform \<Rightarrow> canonical_body \<Rightarrow> keypair option \<Rightarrow> string option \<Rightarrow> string option
     \<Rightarrow> store_error + (string option \<times> string option)" where
  "resolve_hash_and_signature P body keypair precomputed_hash precomputed_signature =
     (if keypair = None \<and> precomputed_signature = None
      then resolve_unsigned P body precomputed_hash
      else
        bindE (mapErr StoreCanon (compute_content_hash P body)) (\<lambda>computed_hash.
          if precomputed_hash \<noteq> None \<and> precomputed_hash \<noteq> Some computed_hash
          then Inl SignatureMismatch
          else
            bindE (case keypair of
                     Some kp \<Rightarrow> sign_local P body kp precomputed_signature
                   | None \<Rightarrow> verify_supplied P body (the precomputed_signature))
              (\<lambda>signature. Inr (Some computed_hash, Some signature))))"

section \<open>The write\<close>

definition put_body :: "put_args \<Rightarrow> canonical_body" where
  "put_body a = build_canonical_body (pa_workflow_id a) (pa_memory_type a) (pa_content a)
     (pa_confidence a) (pa_metadata a) (pa_parent_hashes a) (pa_author_did a) (pa_source_agent_id a)"

definition put_row :: "put_args \<Rightarrow> uuid \<Rightarrow> string option \<Rightarrow> string option \<Rightarrow> memory_record" where
  "put_row a new_id content_hash signature =
     \<lparr>mr_memory_id = new_id,
      mr_workflow_id = pa_workflow_id a,
      mr_source_agent_id = pa_source_agent_id a,
      mr_memory_type = pa_memory_type a,
      mr_content = pa_content a,
      mr_embedding = pa_embedding a,
      mr_metadata = (case pa_metadata a of None \<Rightarrow> [] | Some m \<Rightarrow> m),
      mr_confidence = pa_confidence a,
      mr_freshness = 1,
      mr_version = pa_version a,
      mr_parent_version_id = pa_parent_version_id a,
      mr_author_did = pa_author_did a,
      mr_parent_hashes = cb_parent_hashes (put_body a),
      mr_signature = signature,
      mr_content_hash = content_hash,
      mr_record_state = pa_record_state a,
      mr_expires_at = pa_expires_at a\<rparr>"

text \<open>The unique index on the hash and the foreign keys of the table; \<open>gen_random_uuid()\<close> is
  taken not to repeat a primary key.\<close>

definition fk_ok :: "'k option \<Rightarrow> 'k list \<Rightarrow> bool" where
  "fk_ok k ids = (case k of None \<Rightarrow> True | Some i \<Rightarrow> i \<in> set ids)"

definition row_conflict :: "node_db \<Rightarrow> memory_record \<Rightarrow> bool" where
  "row_conflict db r \<longleftrightarrow>
     (mr_content_hash r \<noteq> None \<and> mr_content_hash r \<in> set (map mr_content_hash (db_memory db)))
     \<or> \<not> fk_ok (mr_workflow_id r) (map wr_workflow_id (db_workflows db))
     \<or> \<not> fk_ok (mr_source_agent_id r) (db_agents db)
     \<or> \<not> fk_ok (mr_parent_version_id r) (map mr_memory_id (db_memory db))"

datatype flush_outcome = Flushed | FlushIntegrityError | FlushDataError

definition add_rows :: "memory_record list \<Rightarrow> node_db \<Rightarrow> node_db" where
  "add_rows rows db = db\<lparr>db_memory := db_memory db @ rows\<rparr>"

definition failed_flush :: "db_env \<Rightarrow> db_session \<Rightarrow> db_session" where
  "failed_flush E s =
     (if env_savepoint_first E then s else s\<lparr>sess_db := sess_start s, sess_active := False\<rparr>)"

text \<open>\<open>async with session.begin_nested(): await session.flush()\<close> with the pending row \<open>r\<close>.\<close>

definition flush_nested :: "db_env \<Rightarrow> db_session \<Rightarrow> memory_record \<Rightarrow> flush_outcome \<times> db_session" where
  "flush_nested E s r =
     (if \<not> env_row_ok E r then (FlushDataError, failed_flush E s)
      else if row_conflict (sess_db s) r then (FlushIntegrityError, failed_flush E s)
      else (Flushed, s\<lparr>sess_db := add_rows [r] (sess_db s)\<rparr>))"

text \<open>What other sessions commit between the lookup and the insert.\<close>

definition interleave :: "db_env \<Rightarrow> db_session \<Rightarrow> memory_record \<Rightarrow> db_session" where
  "interleave E s r =
     s\<lparr>sess_start := add_rows (env_race E r) (sess_start s), sess_db := add_rows (env_race E r) (sess_db s)\<rparr>"

definition fetch_by_hash :: "db_session \<Rightarrow> string \<Rightarrow> store_error + memory_record option" where
  "fetch_by_hash s h =
     (if \<not> sess_active s then Inl StoreSessionInactive
      else Inr (lookup_by mr_content_hash (Some h) (db_memory (sess_db s))))"

definition fetch_existing :: "db_session \<Rightarrow> string option \<Rightarrow> store_error + memory_record option" where
  "fetch_existing s content_hash =
     (case content_hash of None \<Rightarrow> Inr None | Some h \<Rightarrow> fetch_by_hash s h)"

definition insert_row ::
  "db_env \<Rightarrow> db_session \<Rightarrow> memory_record \<Rightarrow> (store_error + memory_record) \<times> db_session" where
  "insert_row E s r =
     (if \<not> sess_active s then (Inl StoreSessionInactive, s)
      else case flush_nested E s r of
        (Flushed, s') \<Rightarrow> (Inr r, s')
      | (FlushDataError, s') \<Rightarrow> (Inl StoreData, s')
      | (FlushIntegrityError, s') \<Rightarrow>
          ((case fetch_existing s' (mr_content_hash r) of
              Inl e \<Rightarrow> Inl e
            | Inr None \<Rightarrow> Inl StoreWriteFailed
            | Inr (Some existing) \<Rightarrow> Inr existing), s'))"

definition put ::
  "platform \<Rightarrow> db_env \<Rightarrow> put_args \<Rightarrow> db_session \<Rightarrow> (store_error + memory_record) \<times> db_session" where
  "put P E a s =
     (case resolve_hash_and_signature P (put_body a) (pa_keypair a) (pa_precomputed_hash a)
             (pa_precomputed_signature a) of
        Inl e \<Rightarrow> (Inl e, s)
      | Inr (content_hash, signature) \<Rightarrow>
          (case fetch_existing s content_hash of
             Inl e \<Rightarrow> (Inl e, s)
           | Inr (Some existing) \<Rightarrow> (Inr existing, s)
           | Inr None \<Rightarrow>
               let record = put_row a (env_new_id E (sess_db s)) content_hash signature
               in insert_row E (interleave E s record) record))"

section \<open>Resolution\<close>

text \<open>The body a stored row stands for, and what it means that a signature is the author's.\<close>

definition row_body :: "memory_record \<Rightarrow> canonical_body" where
  "row_body r = build_canonical_body (mr_workflow_id r) (mr_memory_type r) (mr_content r)
     (mr_confidence r) (Some (mr_metadata r)) (Some (mr_parent_hashes r)) (mr_author_did r) (mr_source_agent_id r)"

definition author_signed :: "platform \<Rightarrow> canonical_body \<Rightarrow> string \<Rightarrow> bool" where
  "author_signed P body sg \<longleftrightarrow>
     (\<exists>did pub raw msg. cb_author_did body = Some did \<and> public_key_from_did did = Inr pub
        \<and> sg = encode_multibase raw \<and> to_signable_bytes P body = Inr msg
        \<and> ed_verify (ed_lib P) pub raw msg)"

lemma row_body_put_row [simp]: "row_body (put_row a i h sg) = put_body a"
  by (simp add: row_body_def put_row_def put_body_def build_canonical_body_def split: option.splits)

lemma put_row_fields [simp]:
  "mr_content_hash (put_row a i h sg) = h" "mr_signature (put_row a i h sg) = sg"
  "mr_record_state (put_row a i h sg) = pa_record_state a" "mr_memory_id (put_row a i h sg) = i"
  "mr_workflow_id (put_row a i h sg) = pa_workflow_id a"
  "mr_source_agent_id (put_row a i h sg) = pa_source_agent_id a"
  "mr_parent_version_id (put_row a i h sg) = pa_parent_version_id a"
  by (simp_all add: put_row_def)

lemma public_key_for_did_conv:
  "public_key_for_did did = Inr pub \<longleftrightarrow> public_key_from_did did = Inr pub"
  by (cases "parse_did did")
    (auto simp: public_key_for_did_def public_key_from_did_def mapErr_Inr_conv)

lemma verify_supplied_conv:
  "verify_supplied P body sg = Inr out \<longleftrightarrow>
     out = sg \<and> author_signed P body sg
       \<and> (\<forall>did pub. cb_author_did body = Some did \<longrightarrow> public_key_from_did did = Inr pub \<longrightarrow> ed_point (ed_lib P) pub)"
    (is "?l \<longleftrightarrow> ?r")
proof
  assume ?l
  then show ?r
    by (auto simp: verify_supplied_def author_signed_def bindE_Inr_conv mapErr_Inr_conv catchE_def
        public_key_for_did_conv decode_multibase_conv verify_bytes_def load_public_key_def
        split: option.splits if_splits sum.splits)
next
  assume r: ?r
  then obtain did pub raw msg where d: "cb_author_did body = Some did" "public_key_from_did did = Inr pub"
    "sg = encode_multibase raw" "to_signable_bytes P body = Inr msg" "ed_verify (ed_lib P) pub raw msg"
    by (auto simp: author_signed_def)
  moreover have "public_key_for_did did = Inr pub" using d(2) by (simp add: public_key_for_did_conv)
  moreover have "ed_point (ed_lib P) pub" using r d by blast
  moreover have "length pub = 32" using d(2) by (rule public_key_from_did_length)
  ultimately show ?l using r by (simp add: verify_supplied_def verify_bytes_def load_public_key_def)
qed

lemma resolve_hash:
  assumes "resolve_hash_and_signature P body kp ph ps = Inr (Some h, sg)"
  shows "compute_content_hash P body = Inr h" "ph = None \<or> ph = Some h"
  using assms
  by (auto simp: resolve_hash_and_signature_def resolve_unsigned_def bindE_Inr_conv mapErr_Inr_conv
      split: if_splits option.splits)

lemma resolve_none:
  "resolve_hash_and_signature P body kp ph ps = Inr (None, sg) \<Longrightarrow>
     kp = None \<and> ps = None \<and> ph = None \<and> sg = None \<and> cb_author_did body = None"
  by (auto simp: resolve_hash_and_signature_def resolve_unsigned_def bindE_Inr_conv
      split: if_splits option.splits)

lemma resolve_supplied:
  assumes "resolve_hash_and_signature P body None ph (Some ps) = Inr (h, sg)"
  shows "sg = Some ps" "author_signed P body ps" "h \<noteq> None"
    "\<forall>h0. ph = Some h0 \<longrightarrow> compute_content_hash P body = Inr h0"
  using assms
  by (auto simp: resolve_hash_and_signature_def bindE_Inr_conv mapErr_Inr_conv verify_supplied_conv
      split: if_splits)

section \<open>Invariant\<close>

definition hashes_of :: "node_db \<Rightarrow> string list" where
  "hashes_of db = List.map_filter mr_content_hash (db_memory db)"

text \<open>Hashes are unique and every hash is that of its row's body.\<close>

definition db_inv :: "platform \<Rightarrow> node_db \<Rightarrow> bool" where
  "db_inv P db \<longleftrightarrow> distinct (hashes_of db)
     \<and> (\<forall>r \<in> set (db_memory db). \<forall>h. mr_content_hash r = Some h \<longrightarrow> compute_content_hash P (row_body r) = Inr h)"

definition sess_inv :: "platform \<Rightarrow> db_session \<Rightarrow> bool" where
  "sess_inv P s \<longleftrightarrow> db_inv P (sess_start s) \<and> db_inv P (sess_db s)"

definition races_ok :: "platform \<Rightarrow> db_env \<Rightarrow> bool" where
  "races_ok P E \<longleftrightarrow> (\<forall>s r. sess_inv P s \<longrightarrow> sess_inv P (interleave E s r))"

lemma map_filter_append: "List.map_filter f (xs @ ys) = List.map_filter f xs @ List.map_filter f ys"
  by (simp add: List.map_filter_def)

lemma set_hashes_of: "h \<in> set (hashes_of db) \<longleftrightarrow> (\<exists>r \<in> set (db_memory db). mr_content_hash r = Some h)"
  by (force simp: hashes_of_def List.map_filter_def)

lemma set_hashes_of_iff: "h \<in> set (hashes_of db) \<longleftrightarrow> Some h \<in> set (map mr_content_hash (db_memory db))"
  unfolding set_hashes_of set_map image_iff by metis

lemma hashes_of_add_row [simp]:
  "hashes_of (add_rows [r] db) = hashes_of db @ (case mr_content_hash r of None \<Rightarrow> [] | Some h \<Rightarrow> [h])"
  by (simp add: hashes_of_def add_rows_def map_filter_append List.map_filter_def split: option.splits)

lemma db_memory_add_rows [simp]: "db_memory (add_rows rs db) = db_memory db @ rs"
  "db_workflows (add_rows rs db) = db_workflows db" "db_agents (add_rows rs db) = db_agents db"
  by (simp_all add: add_rows_def)

lemma db_inv_add_row:
  assumes "db_inv P db" "\<not> row_conflict db r"
    and "\<And>h. mr_content_hash r = Some h \<Longrightarrow> compute_content_hash P (row_body r) = Inr h"
  shows "db_inv P (add_rows [r] db)"
  using assms by (auto simp: db_inv_def row_conflict_def set_hashes_of_iff split: option.splits)

lemma sess_inv_failed_flush [inv_rules]: "sess_inv P s \<Longrightarrow> sess_inv P (failed_flush E s)"
  by (simp add: failed_flush_def sess_inv_def)

lemma sess_inv_flush:
  assumes "sess_inv P s" "flush_nested E s r = (out, s')"
    and "\<And>h. mr_content_hash r = Some h \<Longrightarrow> compute_content_hash P (row_body r) = Inr h"
  shows "sess_inv P s'"
proof (cases "env_row_ok E r \<and> \<not> row_conflict (sess_db s) r")
  case True
  then have "s' = s\<lparr>sess_db := add_rows [r] (sess_db s)\<rparr>" using assms(2) by (simp add: flush_nested_def)
  with True assms(1) show ?thesis by (simp add: sess_inv_def db_inv_add_row[OF _ _ assms(3)])
next
  case False
  then have "s' = failed_flush E s" using assms(2) by (auto simp: flush_nested_def split: if_splits)
  with assms(1) show ?thesis by (simp add: sess_inv_failed_flush)
qed

lemma sess_inv_insert:
  assumes "sess_inv P s" "insert_row E s r = (res, s')"
    and "\<And>h. mr_content_hash r = Some h \<Longrightarrow> compute_content_hash P (row_body r) = Inr h"
  shows "sess_inv P s'"
  using assms sess_inv_flush[OF assms(1) _ assms(3)]
  by (auto simp: insert_row_def split: if_splits prod.splits flush_outcome.splits)

lemma put_cases:
  assumes "put P E a s = (res, s')"
  obtains (resolve) e where "resolve_hash_and_signature P (put_body a) (pa_keypair a)
        (pa_precomputed_hash a) (pa_precomputed_signature a) = Inl e" "res = Inl e" "s' = s"
  | (inactive) h sg e where "resolve_hash_and_signature P (put_body a) (pa_keypair a)
        (pa_precomputed_hash a) (pa_precomputed_signature a) = Inr (h, sg)"
      "fetch_existing s h = Inl e" "res = Inl e" "s' = s"
  | (existing) h sg r where "resolve_hash_and_signature P (put_body a) (pa_keypair a)
        (pa_precomputed_hash a) (pa_precomputed_signature a) = Inr (h, sg)"
      "fetch_existing s h = Inr (Some r)" "res = Inr r" "s' = s"
  | (insert) h sg r where "resolve_hash_and_signature P (put_body a) (pa_keypair a)
        (pa_precomputed_hash a) (pa_precomputed_signature a) = Inr (h, sg)"
      "fetch_existing s h = Inr None" "r = put_row a (env_new_id E (sess_db s)) h sg"
      "insert_row E (interleave E s r) r = (res, s')"
proof (cases "resolve_hash_and_signature P (put_body a) (pa_keypair a)
        (pa_precomputed_hash a) (pa_precomputed_signature a)")
  case (Inl e)
  have "res = Inl e" "s' = s" using assms Inl by (simp_all add: put_def)
  with resolve[OF Inl] show thesis .
next
  case (Inr hs)
  obtain h sg where hs: "hs = (h, sg)" by (cases hs)
  show thesis
  proof (cases "fetch_existing s h")
    case (Inl e)
    have "res = Inl e" "s' = s" using assms Inr hs Inl by (simp_all add: put_def)
    with inactive[OF Inr[unfolded hs] Inl] show thesis .
  next
    case f: (Inr ex)
    show thesis
    proof (cases ex)
      case None
      have "insert_row E (interleave E s (put_row a (env_new_id E (sess_db s)) h sg))
          (put_row a (env_new_id E (sess_db s)) h sg) = (res, s')"
        using assms Inr hs f None by (simp add: put_def Let_def)
      with insert[OF Inr[unfolded hs] f[unfolded None] refl] show thesis .
    next
      case (Some r)
      have "res = Inr r" "s' = s" using assms Inr hs f Some by (simp_all add: put_def)
      with existing[OF Inr[unfolded hs] f[unfolded Some]] show thesis .
    qed
  qed
qed

lemma put_keeps_inv:
  assumes "races_ok P E" "sess_inv P s"
  shows "sess_inv P (snd (put P E a s))"
proof -
  obtain res s' where p: "put P E a s = (res, s')" by fastforce
  from p have "sess_inv P s'"
  proof (cases rule: put_cases)
    case (insert h sg r)
    have "sess_inv P (interleave E s r)" using assms by (simp add: races_ok_def)
    then show ?thesis using insert(4) by (rule sess_inv_insert) (use insert resolve_hash in auto)
  qed (use assms in auto)
  with p show ?thesis by simp
qed

section \<open>Append-only and idempotent\<close>

text \<open>What one \<open>put\<close> does to the rows of an active session.\<close>

lemma insert_row_rows:
  assumes "insert_row E s r = (res, s')" "sess_active s"
  shows "sess_db s' = sess_db s \<and> sess_active s' \<and> sess_start s' = sess_start s
      \<or> s' = s\<lparr>sess_db := add_rows [r] (sess_db s)\<rparr> \<and> res = Inr r \<and> \<not> row_conflict (sess_db s) r
      \<or> \<not> env_savepoint_first E \<and> s' = s\<lparr>sess_db := sess_start s, sess_active := False\<rparr> \<and> \<not> is_ok res"
  using assms
  by (auto simp: insert_row_def flush_nested_def failed_flush_def fetch_existing_def fetch_by_hash_def
      split: if_splits option.splits)

lemma insert_row_result:
  assumes "insert_row E s r = (Inr r', s')" "sess_active s" "mr_content_hash r = Some h"
  shows "fetch_by_hash s' h = Inr (Some r')" "sess_active s'"
proof -
  have "lookup_by mr_content_hash (Some h) (db_memory (sess_db s)) = None" if "\<not> row_conflict (sess_db s) r"
    using that assms(3) by (simp add: row_conflict_def lookup_by_None)
  then show "fetch_by_hash s' h = Inr (Some r')" "sess_active s'"
    using assms
    by (auto simp: insert_row_def flush_nested_def failed_flush_def fetch_existing_def fetch_by_hash_def
        lookup_by_append split: if_splits option.splits)
qed

lemma interleave_simps [simp]:
  "sess_active (interleave E s r) = sess_active s"
  "sess_db (interleave E s r) = add_rows (env_race E r) (sess_db s)"
  "sess_start (interleave E s r) = add_rows (env_race E r) (sess_start s)"
  by (simp_all add: interleave_def)

lemma fetch_existing_active: "fetch_existing s (Some h) = Inr x \<Longrightarrow> sess_active s"
  by (auto simp: fetch_existing_def fetch_by_hash_def split: if_splits)

text \<open>A successful hashed write can be fetched back by its hash.\<close>

lemma put_fetch:
  assumes p: "put P E a s = (Inr r, s')"
    and h: "resolve_hash_and_signature P (put_body a) (pa_keypair a) (pa_precomputed_hash a)
      (pa_precomputed_signature a) = Inr (Some h, sg)"
  shows "fetch_by_hash s' h = Inr (Some r) \<and> sess_active s'"
  using p
proof (cases rule: put_cases)
  case (existing h' sg' r')
  then show ?thesis using h fetch_existing_active[of s h] by (auto simp: fetch_existing_def)
next
  case (insert h' sg' r')
  then have [simp]: "h' = Some h" "sg' = sg" using h by auto
  have "sess_active s" using insert(2) by (auto dest: fetch_existing_active)
  then show ?thesis using insert_row_result[OF insert(4)] insert(3) by simp
qed (use h in auto)

text \<open>The rows of the table only grow, unless a failed flush deactivates the session.\<close>

lemma put_appends:
  assumes "put P E a s = (res, s')" "sess_active s'"
  obtains rows where "db_memory (sess_db s') = db_memory (sess_db s) @ rows"
    "db_workflows (sess_db s') = db_workflows (sess_db s)" "db_agents (sess_db s') = db_agents (sess_db s)"
  using assms(1)
proof (cases rule: put_cases)
  case (insert h sg r)
  show thesis
  proof (cases "sess_active s")
    case True
    then show thesis using insert_row_rows[OF insert(4)] assms(2) that by auto
  next
    case False
    then show thesis using insert(4) assms(2) by (auto simp: insert_row_def)
  qed
qed (use that in auto)

section \<open>Delivery in any order\<close>

text \<open>
  A store to which items with an address are delivered. The laws: an acceptable item ends up
  at its address and nothing else changes, and delivering one acceptable item leaves the
  others acceptable.
\<close>

locale delivery_store =
  fixes deliver :: "'a \<Rightarrow> 's \<Rightarrow> 's"
    and addrs :: "'s \<Rightarrow> 'h set"
    and addr :: "'a \<Rightarrow> 'h"
    and acceptable :: "'s \<Rightarrow> 'a \<Rightarrow> bool"
    and inv :: "'s \<Rightarrow> bool"
  assumes deliver_inv: "inv s \<Longrightarrow> acceptable s a \<Longrightarrow> inv (deliver a s)"
    and deliver_addrs: "inv s \<Longrightarrow> acceptable s a \<Longrightarrow> addrs (deliver a s) = insert (addr a) (addrs s)"
    and acceptable_stable: "inv s \<Longrightarrow> acceptable s a \<Longrightarrow> acceptable s b \<Longrightarrow> acceptable (deliver a s) b"
begin

lemma deliver_all:
  "inv s \<Longrightarrow> \<forall>a \<in> set items. acceptable s a \<Longrightarrow>
     inv (fold deliver items s) \<and> addrs (fold deliver items s) = addrs s \<union> addr ` set items"
proof (induction items arbitrary: s)
  case (Cons a items)
  then have "inv (deliver a s)" "\<forall>b \<in> set items. acceptable (deliver a s) b"
    using deliver_inv acceptable_stable by auto
  with Cons show ?case using deliver_addrs[of s a] by auto
qed simp

text \<open>Order and repetition of the deliveries do not matter.\<close>

lemma delivery_converges:
  assumes "inv s" "inv t" "addrs s = addrs t" "set xs = set ys"
    and "\<forall>a \<in> set xs. acceptable s a \<and> acceptable t a"
  shows "addrs (fold deliver xs s) = addrs (fold deliver ys t)"
  using deliver_all[of s xs] deliver_all[of t ys] assms by auto

end

definition put_address :: "platform \<Rightarrow> put_args \<Rightarrow> string" where
  "put_address P a = (case compute_content_hash P (put_body a) of Inr h \<Rightarrow> h | Inl _ \<Rightarrow> [])"

text \<open>Nothing else writes.\<close>

definition quiet_env :: "db_env \<Rightarrow> bool" where
  "quiet_env E \<longleftrightarrow> (\<forall>r. env_race E r = []) \<and> (\<forall>w. env_shadow_race E w = None)"

definition all_active :: "node_db \<Rightarrow> bool" where
  "all_active db \<longleftrightarrow> (\<forall>r \<in> set (db_memory db). mr_content_hash r \<noteq> None \<longrightarrow> mr_record_state r = ACTIVE)"

text \<open>The write passes the store's own checks and the table's constraints.\<close>

definition storable :: "platform \<Rightarrow> db_env \<Rightarrow> db_session \<Rightarrow> put_args \<Rightarrow> bool" where
  "storable P E s a \<longleftrightarrow>
     (\<exists>h sg. resolve_hash_and_signature P (put_body a) (pa_keypair a) (pa_precomputed_hash a)
               (pa_precomputed_signature a) = Inr (Some h, sg)
        \<and> (\<forall>i. env_row_ok E (put_row a i (Some h) sg)))
     \<and> pa_record_state a = ACTIVE
     \<and> fk_ok (pa_workflow_id a) (map wr_workflow_id (db_workflows (sess_db s)))
     \<and> fk_ok (pa_source_agent_id a) (db_agents (sess_db s))
     \<and> fk_ok (pa_parent_version_id a) (map mr_memory_id (db_memory (sess_db s)))"

definition delivery_inv :: "db_env \<Rightarrow> db_session \<Rightarrow> bool" where
  "delivery_inv E s \<longleftrightarrow> quiet_env E \<and> sess_active s \<and> all_active (sess_db s)"

lemma add_rows_Nil [simp]: "add_rows [] db = db"
  by (simp add: add_rows_def)

lemma put_storable:
  assumes "delivery_inv E s" "storable P E s a"
  shows "\<exists>r s'. put P E a s = (Inr r, s') \<and> mr_content_hash r = Some (put_address P a)
     \<and> (s' = s \<and> r \<in> set (db_memory (sess_db s)) \<and> put_address P a \<in> set (hashes_of (sess_db s))
        \<or> s' = s\<lparr>sess_db := add_rows [r] (sess_db s)\<rparr> \<and> mr_record_state r = ACTIVE)"
proof -
  obtain h sg where res: "resolve_hash_and_signature P (put_body a) (pa_keypair a) (pa_precomputed_hash a)
      (pa_precomputed_signature a) = Inr (Some h, sg)" and ok: "\<forall>i. env_row_ok E (put_row a i (Some h) sg)"
    using assms(2) by (auto simp: storable_def)
  have h: "put_address P a = h" using resolve_hash(1)[OF res] by (simp add: put_address_def)
  let ?r = "put_row a (env_new_id E (sess_db s)) (Some h) sg"
  have s: "sess_active s" "interleave E s ?r = s"
    using assms(1) by (simp_all add: delivery_inv_def quiet_env_def interleave_def)
  show ?thesis
  proof (cases "lookup_by mr_content_hash (Some h) (db_memory (sess_db s))")
    case None
    then have "\<not> row_conflict (sess_db s) ?r"
      using assms by (auto simp: row_conflict_def lookup_by_None storable_def delivery_inv_def quiet_env_def)
    then have "put P E a s = (Inr ?r, s\<lparr>sess_db := add_rows [?r] (sess_db s)\<rparr>)"
      using res ok s None
      by (simp add: put_def fetch_existing_def fetch_by_hash_def Let_def insert_row_def flush_nested_def)
    with h assms(2) show ?thesis by (simp add: storable_def)
  next
    case (Some r)
    then have "put P E a s = (Inr r, s)"
      using res s by (simp add: put_def fetch_existing_def fetch_by_hash_def)
    with h lookup_by_Some[OF Some] show ?thesis by (auto simp: set_hashes_of)
  qed
qed

lemma fk_ok_append: "fk_ok k xs \<Longrightarrow> fk_ok k (xs @ ys)"
  by (auto simp: fk_ok_def split: option.splits)

interpretation crdt: delivery_store
  "\<lambda>a s. snd (put P E a s)" "\<lambda>s. set (hashes_of (sess_db s))" "put_address P" "storable P E" "delivery_inv E"
  for P E
proof
  fix s a assume a: "delivery_inv E s" "storable P E s a"
  obtain r s' where p: "put P E a s = (Inr r, s')" "mr_content_hash r = Some (put_address P a)"
    and c: "s' = s \<and> r \<in> set (db_memory (sess_db s)) \<and> put_address P a \<in> set (hashes_of (sess_db s))
        \<or> s' = s\<lparr>sess_db := add_rows [r] (sess_db s)\<rparr> \<and> mr_record_state r = ACTIVE"
    using put_storable[OF a] by blast
  show "delivery_inv E (snd (put P E a s))"
    using a(1) p c by (auto simp: delivery_inv_def all_active_def)
  show "set (hashes_of (sess_db (snd (put P E a s)))) = insert (put_address P a) (set (hashes_of (sess_db s)))"
    using p c by auto
  fix b assume "storable P E s b"
  then show "storable P E (snd (put P E a s)) b"
    using p c by (auto simp: storable_def intro: fk_ok_append)
qed

section \<open>Properties\<close>

text \<open>Whatever the arguments, and whatever other writers commit meanwhile, \<open>put\<close> keeps the
  content-addressing invariant: hashes are unique and each is the hash of its row's body.\<close>

theorem put_preserves_invariant:
  assumes "races_ok P E" and "sess_inv P s"
  shows "sess_inv P (snd (put P E a s))"
  using assms by (rule put_keeps_inv)


text \<open>Writing the same record again returns the same row and changes nothing.\<close>

theorem put_idempotent:
  assumes "put P E a s = (Inr r, s')" and "mr_content_hash r = Some h"
  shows "put P E a s' = (Inr r, s')"
proof -
  obtain h' sg where res: "resolve_hash_and_signature P (put_body a) (pa_keypair a) (pa_precomputed_hash a)
      (pa_precomputed_signature a) = Inr (h', sg)"
    using assms(1) by (cases rule: put_cases) auto
  have "h' \<noteq> None"
  proof
    assume "h' = None"
    with res assms(1) have "insert_row E (interleave E s (put_row a (env_new_id E (sess_db s)) None sg))
        (put_row a (env_new_id E (sess_db s)) None sg) = (Inr r, s')"
      by (simp add: put_def fetch_existing_def Let_def)
    then have "mr_content_hash r = None"
      by (auto simp: insert_row_def flush_nested_def fetch_existing_def split: if_splits)
    with assms(2) show False by simp
  qed
  then obtain h'' where "h' = Some h''" by auto
  with put_fetch[OF assms(1)] res show ?thesis by (simp add: put_def fetch_existing_def)
qed

text \<open>Without a signature nothing ties a record to its declared author: any author and any
  content is stored as soon as the row meets the table's constraints.\<close>

theorem put_unsigned_any_author:
  assumes "quiet_env E" and "sess_active s"
    and "pa_keypair a = None" and "pa_precomputed_signature a = None" and "pa_author_did a = Some did"
    and "compute_content_hash P (put_body a) = Inr h" and "h \<notin> set (hashes_of (sess_db s))"
    and "fk_ok (pa_workflow_id a) (map wr_workflow_id (db_workflows (sess_db s)))"
    and "fk_ok (pa_source_agent_id a) (db_agents (sess_db s))"
    and "fk_ok (pa_parent_version_id a) (map mr_memory_id (db_memory (sess_db s)))"
    and "pa_precomputed_hash a = Some h"
    and "env_row_ok E (put_row a (env_new_id E (sess_db s)) (Some h) None)"
  shows "\<exists>r. put P E a s = (Inr r, s\<lparr>sess_db := add_rows [r] (sess_db s)\<rparr>)
           \<and> mr_author_did r = Some did \<and> mr_signature r = None \<and> mr_content_hash r = Some h"
proof -
  let ?r = "put_row a (env_new_id E (sess_db s)) (Some h) None"
  have res: "resolve_hash_and_signature P (put_body a) (pa_keypair a) (pa_precomputed_hash a)
      (pa_precomputed_signature a) = Inr (Some h, None)"
    using assms by (simp add: resolve_hash_and_signature_def resolve_unsigned_def)
  have "interleave E s ?r = s" using assms(1) by (simp add: quiet_env_def interleave_def)
  moreover have "\<not> row_conflict (sess_db s) ?r"
    using assms by (auto simp: row_conflict_def set_hashes_of_iff)
  moreover have "lookup_by mr_content_hash (Some h) (db_memory (sess_db s)) = None"
    using assms(7) by (simp add: lookup_by_None set_hashes_of_iff)
  ultimately have "put P E a s = (Inr ?r, s\<lparr>sess_db := add_rows [?r] (sess_db s)\<rparr>)"
    using res assms(2,12)
    by (simp add: put_def fetch_existing_def fetch_by_hash_def Let_def insert_row_def flush_nested_def)
  then show ?thesis using assms(5) by (auto simp: put_row_def)
qed

text \<open>C4. A node that gets the same set of acceptable records in another order or several times
  ends with the same set of hashes: delivery commutes and is insensitive to repetition.\<close>

theorem put_delivery_converges:
  assumes "quiet_env E" and "sess_active s" and "sess_active t"
    and "all_active (sess_db s)" and "all_active (sess_db t)"
    and "set (hashes_of (sess_db s)) = set (hashes_of (sess_db t))" and "set xs = set ys"
    and "\<forall>a \<in> set xs. storable P E s a \<and> storable P E t a"
  shows "set (hashes_of (sess_db (fold (\<lambda>a s. snd (put P E a s)) xs s)))
       = set (hashes_of (sess_db (fold (\<lambda>a s. snd (put P E a s)) ys t)))"
  using assms by (intro crdt.delivery_converges) (auto simp: delivery_inv_def)

section \<open>A concrete node\<close>

definition demo_env :: db_env where
  "demo_env = \<lparr>env_row_ok = (\<lambda>_. True), env_new_id = (\<lambda>db. of_nat (length (db_memory db))),
     env_savepoint_first = False, env_race = (\<lambda>_. []), env_shadow_race = (\<lambda>_. None)\<rparr>"

definition demo_workflow :: workflow_row where
  "demo_workflow = \<lparr>wr_workflow_id = 1, wr_user_id = ''u'', wr_prompt = ''p'', wr_status = WfRunning,
     wr_budget_limit = 1\<rparr>"

definition demo_session :: db_session where
  "demo_session = (let db = \<lparr>db_memory = [], db_workflows = [demo_workflow], db_agents = []\<rparr>
     in \<lparr>sess_start = db, sess_db = db, sess_active = True\<rparr>)"

text \<open>A fact by the author of the all-zero key, and the same with its signature.\<close>

definition demo_args :: "string \<Rightarrow> put_args" where
  "demo_args content =
     \<lparr>pa_workflow_id = Some 1, pa_memory_type = FACT, pa_content = content, pa_confidence = FFin (1 / 2),
      pa_metadata = None, pa_parent_hashes = Some [], pa_author_did = Some (zero_key_did ''key''),
      pa_source_agent_id = None, pa_keypair = None, pa_precomputed_hash = None,
      pa_precomputed_signature = None, pa_embedding = None, pa_version = 1, pa_parent_version_id = None,
      pa_expires_at = None, pa_record_state = ACTIVE\<rparr>"

definition demo_signature :: "string \<Rightarrow> string" where
  "demo_signature content =
     (case to_signable_bytes demo_platform (put_body (demo_args content)) of
        Inr msg \<Rightarrow> encode_multibase (replicate 32 0 @ msg) | Inl _ \<Rightarrow> [])"

definition demo_signed_args :: "string \<Rightarrow> put_args" where
  "demo_signed_args content = (demo_args content)\<lparr>pa_precomputed_signature := Some (demo_signature content)\<rparr>"

lemma demo_args_bytes: "\<exists>x. to_signable_bytes demo_platform (put_body (demo_args c)) = Inr x"
  by (auto simp: demo_args_def put_body_def build_canonical_body_def to_signable_bytes_def as_jsonable_def
      canonicalize_def bindE_Inr_conv seqE_map_conv json_opt_str_def list_all2_Cons1 zero_key_did_def)

lemma demo_args_hash: "\<exists>h. compute_content_hash demo_platform (put_body (demo_args c)) = Inr h"
  using demo_args_bytes[of c] by (auto simp: compute_content_hash_def)

lemma put_body_signed [simp]: "put_body (demo_signed_args c) = put_body (demo_args c)"
  by (simp add: demo_signed_args_def put_body_def)

lemma demo_args_author: "cb_author_did (put_body (demo_args c)) = Some (zero_key_did ''key'')"
  by (simp add: put_body_def demo_args_def build_canonical_body_def)

lemma demo_signed: "author_signed demo_platform (put_body (demo_args c)) (demo_signature c)"
proof -
  obtain msg where "to_signable_bytes demo_platform (put_body (demo_args c)) = Inr msg"
    using demo_args_bytes by blast
  moreover have "public_key_from_did (zero_key_did ''key'') = Inr (replicate 32 0)"
    using public_key_zero_key_did[of "''key''"] by simp
  ultimately show ?thesis
    by (simp add: author_signed_def demo_args_author demo_signature_def demo_platform_def demo_ed_def)
qed

lemma demo_quiet: "quiet_env demo_env" "races_ok P demo_env" "sess_active demo_session"
  "sess_inv P demo_session" "all_active (sess_db demo_session)" "hashes_of (sess_db demo_session) = []"
  by (simp_all add: quiet_env_def races_ok_def demo_env_def demo_session_def sess_inv_def db_inv_def
      hashes_of_def interleave_def all_active_def List.map_filter_def Let_def)

lemma demo_storable:
  "storable demo_platform demo_env demo_session (demo_args c)"
  "storable demo_platform demo_env demo_session (demo_signed_args c)"
proof -
  obtain h where h: "compute_content_hash demo_platform (put_body (demo_args c)) = Inr h"
    using demo_args_hash by blast
  then show "storable demo_platform demo_env demo_session (demo_args c)"
    by (simp add: storable_def resolve_hash_and_signature_def resolve_unsigned_def demo_args_author)
      (simp add: demo_args_def demo_env_def demo_session_def fk_ok_def demo_workflow_def Let_def)
  have "verify_supplied demo_platform (put_body (demo_args c)) (demo_signature c) = Inr (demo_signature c)"
    by (simp add: verify_supplied_conv demo_signed) (simp add: demo_platform_def demo_ed_def)
  with h show "storable demo_platform demo_env demo_session (demo_signed_args c)"
    by (simp add: storable_def resolve_hash_and_signature_def)
      (simp add: demo_signed_args_def demo_args_def demo_env_def demo_session_def fk_ok_def
        demo_workflow_def Let_def)
qed

lemma demo_put:
  "storable demo_platform demo_env demo_session a \<Longrightarrow>
     \<exists>r s'. put demo_platform demo_env a demo_session = (Inr r, s') \<and> mr_content_hash r \<noteq> None"
  using put_storable[of demo_env demo_session demo_platform a] demo_quiet
  by (auto simp: delivery_inv_def)

theorem put_preserves_invariant_witness:
  "sess_inv demo_platform (snd (put demo_platform demo_env (demo_args ''a'') demo_session))"
  by (rule put_preserves_invariant) (rule demo_quiet)+


theorem put_idempotent_witness:
  "\<exists>r s'. put demo_platform demo_env (demo_signed_args ''a'') demo_session = (Inr r, s')
     \<and> put demo_platform demo_env (demo_signed_args ''a'') s' = (Inr r, s')"
proof -
  obtain r s' where "put demo_platform demo_env (demo_signed_args ''a'') demo_session = (Inr r, s')"
    "mr_content_hash r \<noteq> None"
    using demo_put demo_storable by blast
  with put_idempotent[of demo_platform demo_env "demo_signed_args ''a''" demo_session r s'] show ?thesis
    by blast
qed

definition demo_forged :: "string \<Rightarrow> put_args" where
  "demo_forged c = (demo_args c)\<lparr>pa_precomputed_hash := Some (put_address demo_platform (demo_args c))\<rparr>"

theorem put_unsigned_any_author_witness:
  "\<exists>r s'. put demo_platform demo_env (demo_forged ''a'') demo_session = (Inr r, s')
     \<and> mr_author_did r = Some (zero_key_did ''key'') \<and> mr_signature r = None"
proof -
  obtain h where h: "compute_content_hash demo_platform (put_body (demo_args ''a'')) = Inr h"
    using demo_args_hash by blast
  have b: "compute_content_hash demo_platform (put_body (demo_forged ''a'')) = Inr h"
    using h by (simp add: demo_forged_def put_body_def)
  have f: "pa_precomputed_hash (demo_forged ''a'') = Some h"
    using h by (simp add: demo_forged_def put_address_def)
  have "\<exists>r. put demo_platform demo_env (demo_forged ''a'') demo_session
      = (Inr r, demo_session\<lparr>sess_db := add_rows [r] (sess_db demo_session)\<rparr>)
      \<and> mr_author_did r = Some (zero_key_did ''key'') \<and> mr_signature r = None \<and> mr_content_hash r = Some h"
    by (rule put_unsigned_any_author)
      (simp_all only: b f, simp_all add: demo_quiet demo_forged_def demo_args_def,
       simp_all add: demo_env_def demo_session_def fk_ok_def demo_workflow_def Let_def)
  then show ?thesis by blast
qed

theorem put_delivery_converges_witness:
  "set (hashes_of (sess_db (fold (\<lambda>a s. snd (put demo_platform demo_env a s))
       [demo_signed_args ''a'', demo_args ''b''] demo_session)))
     = set (hashes_of (sess_db (fold (\<lambda>a s. snd (put demo_platform demo_env a s))
       [demo_args ''b'', demo_signed_args ''a'', demo_args ''b''] demo_session)))"
  by (rule put_delivery_converges) (auto simp: demo_quiet demo_storable)

end
