(* ===== verification/Merkle.thy ===== *)
theory Merkle
  imports Crdt_Hashing
begin

text \<open>
  Models \<^verbatim>\<open>backend/app/crdt/merkle.py\<close>: the 256-bucket fingerprint two nodes exchange to find
  out which records differ. The lemmas reduce the loop of \<open>summarise_hashes\<close> to a description
  by sets; the theorems say that the fingerprint is a function of the set of hashes, that
  \<open>diverges_from\<close> lists the buckets whose contents differ, and that equal roots mean equal
  sets although the root does not record which buckets are empty.
\<close>

section \<open>Buckets\<close>

definition bucket_count :: nat where
  "bucket_count = 256"

text \<open>The raise sites of \<open>bucket_for_hash\<close> (all \<open>ValueError\<close>) and of \<open>bucket\<close>.\<close>

datatype merkle_error = NotMultibaseHash | HashBody b58_error | EmptyHashBody | BucketIndex int

definition bucket_for_hash :: "string \<Rightarrow> merkle_error + nat" where
  "bucket_for_hash content_hash =
     (if content_hash = [] \<or> \<not> starts_with ''z'' content_hash then Inl NotMultibaseHash
      else bindE (mapErr HashBody (b58decode (drop (length ''z'') content_hash))) (\<lambda>decoded.
        case decoded of [] \<Rightarrow> Inl EmptyHashBody | b # _ \<Rightarrow> Inr (unat b)))"

record merkle_summary =
  ms_root :: string
  ms_buckets :: "string option list"
  ms_record_count :: nat

definition summary_bucket :: "merkle_summary \<Rightarrow> int \<Rightarrow> merkle_error + string option" where
  "summary_bucket s index =
     (if \<not> (0 \<le> index \<and> index < int bucket_count) then Inl (BucketIndex index)
      else Inr (ms_buckets s ! nat index))"

definition diverges_from :: "merkle_summary \<Rightarrow> merkle_summary \<Rightarrow> nat list" where
  "diverges_from s other = filter (\<lambda>i. ms_buckets s ! i \<noteq> ms_buckets other ! i) [0..<bucket_count]"

section \<open>Building the summary\<close>

definition hexdigest :: "platform \<Rightarrow> bytes \<Rightarrow> string" where
  "hexdigest P bs = concat (map (\<lambda>b. hex_width 2 (unat b)) (sha256 P bs))"

text \<open>One iteration of the loop; a Python set is a list without repetitions.\<close>

fun summary_step :: "string list list \<times> nat \<Rightarrow> string \<Rightarrow> string list list \<times> nat" where
  "summary_step (buckets, count) h =
     (case bucket_for_hash h of
        Inl _ \<Rightarrow> (buckets, count)
      | Inr idx \<Rightarrow>
          if h \<in> set (buckets ! idx) then (buckets, count)
          else (buckets[idx := h # buckets ! idx], count + 1))"

definition bucket_body :: "string list \<Rightarrow> bytes" where
  "bucket_body hs = encode_utf8 (join [char_of (10::nat)] hs)"

definition root_body :: "string option list \<Rightarrow> bytes" where
  "root_body ds = concat (map (\<lambda>d. encode_utf8 (case d of None \<Rightarrow> [] | Some s \<Rightarrow> s)) ds)"

definition summarise_hashes :: "platform \<Rightarrow> string list \<Rightarrow> merkle_summary" where
  "summarise_hashes P hashes =
     (let (buckets, count) = foldl summary_step (replicate bucket_count [], 0) hashes;
          bucket_digests = map (\<lambda>b. if b = [] then None
                                     else Some (hexdigest P (bucket_body (sort b)))) buckets
      in \<lparr>ms_root = hexdigest P (root_body bucket_digests),
          ms_buckets = bucket_digests,
          ms_record_count = count\<rparr>)"

section \<open>Description by sets\<close>

text \<open>The hashes that take part, and those of one bucket in order.\<close>

definition well_formed_hash :: "string \<Rightarrow> bool" where
  "well_formed_hash h = is_ok (bucket_for_hash h)"

definition bucket_members :: "string list \<Rightarrow> nat \<Rightarrow> string list" where
  "bucket_members hs i = sorted_set (filter (\<lambda>h. bucket_for_hash h = Inr i) hs)"

definition bucket_digest :: "platform \<Rightarrow> string list \<Rightarrow> string option" where
  "bucket_digest P ms = (if ms = [] then None else Some (hexdigest P (bucket_body ms)))"

lemma unat_byte_lt: "unat (b :: byte) < 256"
  using unsigned_less[of b] by simp

lemma b58decode_conv: "b58decode s = Inr bs \<longleftrightarrow> s = b58encode bs"
  using b58encode_b58decode b58decode_b58encode by metis

text \<open>The hashes that have a bucket: \<open>z\<close> followed by the encoding of some non-empty bytes.\<close>

lemma bucket_for_hash_conv:
  "bucket_for_hash h = Inr i \<longleftrightarrow> (\<exists>b bs. h = CHR ''z'' # b58encode (b # bs) \<and> unat b = i)"
proof (cases h)
  case Nil
  then show ?thesis by (simp add: bucket_for_hash_def)
next
  case (Cons c t)
  then show ?thesis
    by (cases "c = CHR ''z''")
      (auto simp: bucket_for_hash_def starts_with_def bindE_Inr_conv mapErr_Inr_conv b58decode_conv
        split: list.splits, metis list.exhaust)
qed

lemma bucket_for_hash_lt: "bucket_for_hash h = Inr i \<Longrightarrow> i < bucket_count"
  using unat_byte_lt by (auto simp: bucket_for_hash_conv bucket_count_def)

lemma length_summary_step [simp]: "length (fst (summary_step bt h)) = length (fst bt)"
  by (cases bt) (auto split: sum.splits)

definition summary_inv :: "string list \<Rightarrow> string list list \<times> nat \<Rightarrow> bool" where
  "summary_inv hs bt \<longleftrightarrow>
     length (fst bt) = bucket_count
     \<and> (\<forall>i < bucket_count. distinct (fst bt ! i) \<and> set (fst bt ! i) = {h \<in> set hs. bucket_for_hash h = Inr i})
     \<and> snd bt = card {h \<in> set hs. well_formed_hash h}"

lemma summary_inv_step:
  assumes "summary_inv hs bt"
  shows "summary_inv (hs @ [h]) (summary_step bt h)"
proof (cases "bucket_for_hash h")
  case (Inl e)
  then have "{x \<in> set (hs @ [h]). well_formed_hash x} = {x \<in> set hs. well_formed_hash x}"
    by (auto simp: well_formed_hash_def)
  moreover have "{x \<in> set (hs @ [h]). bucket_for_hash x = Inr i} = {x \<in> set hs. bucket_for_hash x = Inr i}" for i
    using Inl by auto
  ultimately show ?thesis using assms Inl by (cases bt) (simp add: summary_inv_def)
next
  case (Inr idx)
  obtain b t where bt: "bt = (b, t)" by (cases bt)
  have lt: "idx < bucket_count" using Inr by (rule bucket_for_hash_lt)
  have mem: "h \<in> set (b ! idx) \<longleftrightarrow> h \<in> set hs"
    using assms lt Inr by (auto simp: summary_inv_def bt)
  have card_eq: "card {x \<in> set (hs @ [h]). well_formed_hash x}
      = (if h \<in> set hs then t else t + 1)"
  proof -
    have "{x \<in> set (hs @ [h]). well_formed_hash x} = insert h {x \<in> set hs. well_formed_hash x}"
      using Inr by (auto simp: well_formed_hash_def)
    then show ?thesis
      using assms Inr by (auto simp: summary_inv_def bt card_insert_if insert_absorb well_formed_hash_def)
  qed
  show ?thesis
    using assms Inr lt mem card_eq unfolding summary_inv_def bt
    by (auto simp: nth_list_update)
qed

lemma summary_inv_foldl:
  "summary_inv hs bt \<Longrightarrow> summary_inv (hs @ xs) (foldl summary_step bt xs)"
proof (induction xs arbitrary: hs bt)
  case Nil
  then show ?case by simp
next
  case (Cons x xs)
  then show ?case using summary_inv_step[of hs bt x] by fastforce
qed

lemma summary_inv_init: "summary_inv [] (replicate bucket_count [], 0)"
  by (simp add: summary_inv_def)

text \<open>The summary described by the set of hashes.\<close>

lemma summarise_hashes_spec:
  "ms_buckets (summarise_hashes P hs) = map (\<lambda>i. bucket_digest P (bucket_members hs i)) [0..<bucket_count]"
  "ms_record_count (summarise_hashes P hs) = card {h \<in> set hs. well_formed_hash h}"
  "ms_root (summarise_hashes P hs) = hexdigest P (root_body (ms_buckets (summarise_hashes P hs)))"
proof -
  obtain b t where f: "foldl summary_step (replicate bucket_count [], 0) hs = (b, t)"
    by (cases "foldl summary_step (replicate bucket_count [], 0) hs")
  have inv: "summary_inv hs (b, t)"
    using summary_inv_foldl[OF summary_inv_init, of hs] f by simp
  have sorted: "sort (b ! i) = bucket_members hs i" if "i < bucket_count" for i
    using inv that unfolding bucket_members_def summary_inv_def
    by (intro sorted_distinct_set_unique) auto
  then have nil: "b ! i = [] \<longleftrightarrow> bucket_members hs i = []" if "i < bucket_count" for i
    using that by (metis set_empty set_sort)
  have "map (\<lambda>b. if b = [] then None else Some (hexdigest P (bucket_body (sort b)))) b
      = map (\<lambda>i. bucket_digest P (bucket_members hs i)) [0..<bucket_count]"
    using inv sorted nil by (intro nth_equalityI) (auto simp: summary_inv_def bucket_digest_def)
  then show "ms_buckets (summarise_hashes P hs) = map (\<lambda>i. bucket_digest P (bucket_members hs i)) [0..<bucket_count]"
    by (simp add: summarise_hashes_def f Let_def)
  show "ms_record_count (summarise_hashes P hs) = card {h \<in> set hs. well_formed_hash h}"
    using inv by (simp add: summarise_hashes_def f summary_inv_def Let_def)
  show "ms_root (summarise_hashes P hs) = hexdigest P (root_body (ms_buckets (summarise_hashes P hs)))"
    by (simp add: summarise_hashes_def f Let_def)
qed

section \<open>Digests determine contents\<close>

text \<open>SHA-256 digests have 32 bytes.\<close>

definition sha256_ok :: "platform \<Rightarrow> bool" where
  "sha256_ok P \<longleftrightarrow> (\<forall>bs. length (sha256 P bs) = 32)"

text \<open>The byte strings that a call of \<open>summarise_hashes\<close> hashes.\<close>

definition digest_inputs :: "platform \<Rightarrow> string list \<Rightarrow> bytes set" where
  "digest_inputs P hs =
     insert (root_body (ms_buckets (summarise_hashes P hs)))
       (bucket_body ` {bucket_members hs i | i. i < bucket_count \<and> bucket_members hs i \<noteq> []})"

lemma length_concat_fixed: "\<forall>x \<in> set xs. length x = k \<Longrightarrow> length (concat xs) = k * length xs"
  by (induction xs) auto

lemma concat_eq_fixed_length:
  assumes "\<forall>x \<in> set xs \<union> set ys. length x = k" "0 < k" "concat xs = concat ys"
  shows "xs = ys"
proof -
  have "k * length xs = k * length ys"
    using length_concat_fixed[of xs k] length_concat_fixed[of ys k] assms by simp
  then have "length xs = length ys" using assms(2) by simp
  moreover have "\<forall>(x, y) \<in> set (zip xs ys). length x = length y"
  proof clarify
    fix x y assume "(x, y) \<in> set (zip xs ys)"
    then have "x \<in> set xs" "y \<in> set ys" by (blast dest: set_zip_leftD set_zip_rightD)+
    with assms(1) show "length x = length y" by simp
  qed
  ultimately show ?thesis using assms(3) concat_eq_concat_iff by blast
qed

lemma hex_width_2_inj:
  assumes "hex_width 2 (unat a) = hex_width 2 (unat (b :: byte))"
  shows "a = b"
proof -
  have "hex_body 0 False (hex_width 2 (unat a)) = hex_body 0 False (hex_width 2 (unat b))"
    using assms by simp
  then have "unat a mod 256 = unat b mod 256" by (simp add: hex_body_hex_width)
  then show ?thesis using unat_byte_lt[of a] unat_byte_lt[of b] by (simp add: word_unat_eq_iff)
qed

lemma hexdigest_eq_iff: "hexdigest P x = hexdigest P y \<longleftrightarrow> sha256 P x = sha256 P y"
proof
  assume "hexdigest P x = hexdigest P y"
  then have "map (\<lambda>b. hex_width 2 (unat b)) (sha256 P x) = map (\<lambda>b. hex_width 2 (unat b)) (sha256 P y)"
    unfolding hexdigest_def by (intro concat_eq_fixed_length[where k = 2]) auto
  then show "sha256 P x = sha256 P y"
    by (rule map_injective) (auto intro!: injI dest: hex_width_2_inj)
qed (simp add: hexdigest_def)

lemma length_hexdigest: "sha256_ok P \<Longrightarrow> length (hexdigest P x) = 64"
  by (simp add: hexdigest_def length_concat comp_def sum_list_triv sha256_ok_def)

lemma b58_chars: "set (b58encode bs) \<subseteq> set b58_alphabet"
  by (auto simp: b58encode_alt dest!: digits_lt[rotated])

lemma well_formed_no_newline:
  assumes "bucket_for_hash h = Inr i"
  shows "char_of (10::nat) \<notin> set h"
proof -
  have "set h \<subseteq> insert (CHR ''z'') (set b58_alphabet)"
    using assms b58_chars by (force simp: bucket_for_hash_conv)
  moreover have "char_of (10::nat) \<notin> insert (CHR ''z'') (set b58_alphabet)"
    by (simp add: b58_alphabet_def char_of_eq_iff)
  ultimately show ?thesis by auto
qed

lemma split_on_join: "xs \<noteq> [] \<Longrightarrow> \<forall>x \<in> set xs. c \<notin> set x \<Longrightarrow> split_on c (join [c] xs) = xs"
  by (induction "[c]" xs rule: join.induct) (simp_all add: split_on_no_sep split_on_append)

lemma set_bucket_members [simp]: "set (bucket_members hs i) = {h \<in> set hs. bucket_for_hash h = Inr i}"
  by (auto simp: bucket_members_def)

lemma bucket_members_eq_iff:
  "bucket_members a i = bucket_members b i
     \<longleftrightarrow> {h \<in> set a. bucket_for_hash h = Inr i} = {h \<in> set b. bucket_for_hash h = Inr i}"
  unfolding bucket_members_def sorted_set_eq_iff by auto

lemma bucket_body_eq_iff:
  assumes "bucket_members a i \<noteq> []" "bucket_members b j \<noteq> []"
  shows "bucket_body (bucket_members a i) = bucket_body (bucket_members b j)
    \<longleftrightarrow> bucket_members a i = bucket_members b j"
proof -
  have "split_on (char_of (10::nat)) (join [char_of (10::nat)] (bucket_members a i)) = bucket_members a i"
    "split_on (char_of (10::nat)) (join [char_of (10::nat)] (bucket_members b j)) = bucket_members b j"
    using assms well_formed_no_newline by (intro split_on_join; auto)+
  then show ?thesis unfolding bucket_body_def encode_utf8_inj by metis
qed

lemma bucket_digest_eq_iff:
  assumes "inj_on (sha256 P) (digest_inputs P a \<union> digest_inputs P b)" "i < bucket_count" "j < bucket_count"
  shows "bucket_digest P (bucket_members a i) = bucket_digest P (bucket_members b j)
    \<longleftrightarrow> bucket_members a i = bucket_members b j"
proof (cases "bucket_members a i = [] \<or> bucket_members b j = []")
  case True
  then show ?thesis by (auto simp: bucket_digest_def)
next
  case False
  then have "bucket_body (bucket_members a i) \<in> digest_inputs P a"
    "bucket_body (bucket_members b j) \<in> digest_inputs P b"
    using assms(2,3) by (auto simp: digest_inputs_def)
  then have "sha256 P (bucket_body (bucket_members a i)) = sha256 P (bucket_body (bucket_members b j))
      \<longleftrightarrow> bucket_body (bucket_members a i) = bucket_body (bucket_members b j)"
    using assms(1) by (auto simp: inj_on_def)
  with False show ?thesis by (simp add: bucket_digest_def hexdigest_eq_iff bucket_body_eq_iff)
qed

section \<open>The root\<close>

definition present :: "'a option list \<Rightarrow> 'a list" where
  "present ds = map the (filter (\<lambda>d. d \<noteq> None) ds)"

lemma present_simps [simp]:
  "present [] = []" "present (None # ds) = present ds" "present (Some d # ds) = d # present ds"
  by (simp_all add: present_def)

lemma root_body_present: "root_body ds = concat (map encode_utf8 (present ds))"
proof (induction ds)
  case (Cons d ds)
  then show ?case by (cases d) (simp_all add: root_body_def encode_utf8_def)
qed (simp add: root_body_def)

definition nonempty_buckets :: "string list \<Rightarrow> string list list" where
  "nonempty_buckets hs = filter (\<lambda>ms. ms \<noteq> []) (map (bucket_members hs) [0..<bucket_count])"

lemma present_digests:
  "present (ms_buckets (summarise_hashes P hs)) = map (\<lambda>ms. hexdigest P (bucket_body ms)) (nonempty_buckets hs)"
proof -
  have "present (map (\<lambda>i. bucket_digest P (bucket_members hs i)) is)
      = map (\<lambda>ms. hexdigest P (bucket_body ms)) (filter (\<lambda>ms. ms \<noteq> []) (map (bucket_members hs) is))" for "is"
    by (induction "is") (auto simp: bucket_digest_def)
  then show ?thesis by (simp add: summarise_hashes_spec(1) nonempty_buckets_def)
qed

lemma nonempty_bucketsE:
  assumes "ms \<in> set (nonempty_buckets hs)"
  obtains i where "i < bucket_count" "ms = bucket_members hs i" "ms \<noteq> []"
  using assms by (auto simp: nonempty_buckets_def)

lemma union_nonempty_buckets: "\<Union> (set ` set (nonempty_buckets hs)) = {h \<in> set hs. well_formed_hash h}"
  (is "?l = ?r")
proof
  show "?l \<subseteq> ?r" by (auto simp: well_formed_hash_def elim!: nonempty_bucketsE)
  show "?r \<subseteq> ?l"
  proof
    fix h assume "h \<in> ?r"
    then obtain i where i: "h \<in> set hs" "bucket_for_hash h = Inr i"
      by (auto simp: well_formed_hash_def is_ok_conv)
    then have "h \<in> set (bucket_members hs i)" by simp
    moreover from this have "bucket_members hs i \<noteq> []" by (auto simp del: set_bucket_members)
    ultimately show "h \<in> ?l"
      using bucket_for_hash_lt[OF i(2)] by (force simp: nonempty_buckets_def simp del: set_bucket_members)
  qed
qed

lemma same_well_formed_members:
  assumes "{h \<in> set a. well_formed_hash h} = {h \<in> set b. well_formed_hash h}"
  shows "bucket_members a i = bucket_members b i"
proof -
  have "{h \<in> set a. bucket_for_hash h = Inr i} = {h \<in> {h \<in> set a. well_formed_hash h}. bucket_for_hash h = Inr i}" for a
    by (auto simp: well_formed_hash_def)
  with assms show ?thesis by (simp only: bucket_members_eq_iff)
qed

lemma same_well_formed_summary:
  assumes "{h \<in> set a. well_formed_hash h} = {h \<in> set b. well_formed_hash h}"
  shows "summarise_hashes P a = summarise_hashes P b"
proof -
  have b: "ms_buckets (summarise_hashes P a) = ms_buckets (summarise_hashes P b)"
    by (simp add: summarise_hashes_spec(1) same_well_formed_members[OF assms])
  moreover have "ms_root (summarise_hashes P a) = ms_root (summarise_hashes P b)"
    by (simp only: summarise_hashes_spec(3) b)
  moreover have "ms_record_count (summarise_hashes P a) = ms_record_count (summarise_hashes P b)"
    using assms by (simp only: summarise_hashes_spec(2))
  ultimately show ?thesis by simp
qed

lemma equal_roots_same_buckets:
  assumes "sha256_ok P" "inj_on (sha256 P) (digest_inputs P a \<union> digest_inputs P b)"
    and "ms_root (summarise_hashes P a) = ms_root (summarise_hashes P b)"
  shows "nonempty_buckets a = nonempty_buckets b"
proof -
  let ?h = "\<lambda>ms. hexdigest P (bucket_body ms)"
  have "sha256 P (root_body (ms_buckets (summarise_hashes P a)))
      = sha256 P (root_body (ms_buckets (summarise_hashes P b)))"
    using assms(3) by (simp only: summarise_hashes_spec(3) hexdigest_eq_iff)
  then have "root_body (ms_buckets (summarise_hashes P a)) = root_body (ms_buckets (summarise_hashes P b))"
    by (rule inj_onD[OF assms(2)]) (simp_all add: digest_inputs_def)
  then have "concat (map encode_utf8 (map ?h (nonempty_buckets a)))
      = concat (map encode_utf8 (map ?h (nonempty_buckets b)))"
    by (simp only: root_body_present present_digests)
  then have "map encode_utf8 (map ?h (nonempty_buckets a)) = map encode_utf8 (map ?h (nonempty_buckets b))"
    using length_hexdigest[OF assms(1)]
    by (intro concat_eq_fixed_length[where k = 64]) (auto simp: encode_utf8_def)
  then have "map ?h (nonempty_buckets a) = map ?h (nonempty_buckets b)"
    by (rule map_injective) (auto intro: injI)
  moreover have "x = y" if xy: "x \<in> set (nonempty_buckets a)" "y \<in> set (nonempty_buckets b)" "?h x = ?h y" for x y
  proof -
    obtain i j where ij: "i < bucket_count" "x = bucket_members a i" "x \<noteq> []"
        "j < bucket_count" "y = bucket_members b j" "y \<noteq> []"
      using xy(1,2) by (metis nonempty_bucketsE)
    then show ?thesis
      using bucket_digest_eq_iff[OF assms(2) ij(1,4)] xy(3) by (simp add: bucket_digest_def)
  qed
  ultimately show ?thesis
    by (rule list.inj_map_strong[rotated])
qed

text \<open>The root is a faithful fingerprint: unless SHA-256 collides on the byte strings that
  the two summaries hash, two nodes have the same root exactly when they hold the same
  well-formed hashes, and then the whole summaries, record counts included, agree.\<close>

theorem merkle_root_faithful:
  assumes "sha256_ok P" and "inj_on (sha256 P) (digest_inputs P a \<union> digest_inputs P b)"
  shows "(ms_root (summarise_hashes P a) = ms_root (summarise_hashes P b)
      \<longleftrightarrow> {h \<in> set a. well_formed_hash h} = {h \<in> set b. well_formed_hash h})
    \<and> (ms_root (summarise_hashes P a) = ms_root (summarise_hashes P b)
      \<longleftrightarrow> summarise_hashes P a = summarise_hashes P b)"
proof -
  have "{h \<in> set a. well_formed_hash h} = {h \<in> set b. well_formed_hash h}"
    if "ms_root (summarise_hashes P a) = ms_root (summarise_hashes P b)"
    using equal_roots_same_buckets[OF assms that]
    by (simp flip: union_nonempty_buckets)
  then show ?thesis using same_well_formed_summary[of a b P] by auto
qed

text \<open>C21. \<open>diverges_from\<close> returns, in increasing order and without repetition, exactly the
  buckets in which the two nodes hold different hashes, again up to a collision.\<close>

theorem merkle_diverges_exact:
  assumes "inj_on (sha256 P) (digest_inputs P a \<union> digest_inputs P b)"
  shows "set (diverges_from (summarise_hashes P a) (summarise_hashes P b))
      = {i. i < bucket_count \<and> {h \<in> set a. bucket_for_hash h = Inr i} \<noteq> {h \<in> set b. bucket_for_hash h = Inr i}}
    \<and> sorted (diverges_from (summarise_hashes P a) (summarise_hashes P b))
    \<and> distinct (diverges_from (summarise_hashes P a) (summarise_hashes P b))"
proof -
  have "ms_buckets (summarise_hashes P hs) ! i = bucket_digest P (bucket_members hs i)" if "i < bucket_count" for hs i
    using that by (simp add: summarise_hashes_spec(1))
  then have "set (diverges_from (summarise_hashes P a) (summarise_hashes P b))
      = {i. i < bucket_count \<and> bucket_members a i \<noteq> bucket_members b i}"
    using bucket_digest_eq_iff[OF assms] by (auto simp: diverges_from_def)
  then show ?thesis by (simp add: bucket_members_eq_iff diverges_from_def sorted_wrt_filter)
qed

section \<open>A concrete pair of states\<close>

text \<open>A digest of the right length that separates the inputs of the example.\<close>

definition length_platform :: platform where
  "length_platform = demo_platform\<lparr>sha256 := (\<lambda>bs. of_nat (length bs) # replicate 31 0)\<rparr>"

lemma length_platform_ok: "sha256_ok length_platform"
  by (simp add: sha256_ok_def length_platform_def)

lemma length_root_body:
  "sha256_ok P \<Longrightarrow> length (root_body (ms_buckets (summarise_hashes P hs))) = 64 * length (nonempty_buckets hs)"
  unfolding root_body_present present_digests
  by (subst length_concat_fixed[where k = 64]) (auto simp: encode_utf8_def length_hexdigest)

lemma z2_bucket: "bucket_for_hash ''z2'' = Inr 1"
  by code_simp

lemma filter_upt_single: "i < n \<Longrightarrow> filter (\<lambda>ms. ms \<noteq> []) (map (\<lambda>j. if j = i then [h] else []) [0..<n]) = [[h]]"
proof (induction n)
  case (Suc n)
  then show ?case by (cases "i = n") (auto simp: filter_empty_conv)
qed simp

lemma bucket_members_singleton:
  "bucket_for_hash h = Inr i \<Longrightarrow> bucket_members [h] j = (if j = i then [h] else [])"
  by (auto simp: bucket_members_def sorted_set_def)

lemma nonempty_buckets_singleton:
  assumes "bucket_for_hash h = Inr i"
  shows "nonempty_buckets [h] = [[h]]"
proof -
  have "nonempty_buckets [h] = filter (\<lambda>ms. ms \<noteq> []) (map (\<lambda>j. if j = i then [h] else []) [0..<bucket_count])"
    unfolding nonempty_buckets_def
    by (intro arg_cong[where f = "filter _"] map_cong) (simp_all add: bucket_members_singleton[OF assms])
  then show ?thesis by (simp only: filter_upt_single[OF bucket_for_hash_lt[OF assms]])
qed

lemma digest_inputs_example:
  "inj_on (sha256 length_platform) (digest_inputs length_platform [''z2''] \<union> digest_inputs length_platform [])"
proof -
  let ?P = length_platform
  have none: "bucket_members [] i = []" for i by (simp add: bucket_members_def)
  have in0: "digest_inputs ?P [] = {root_body (ms_buckets (summarise_hashes ?P []))}"
    by (auto simp: digest_inputs_def none)
  have in1: "digest_inputs ?P [''z2''] \<subseteq> {root_body (ms_buckets (summarise_hashes ?P [''z2''])), bucket_body [''z2'']}"
    by (auto simp: digest_inputs_def bucket_members_singleton[OF z2_bucket])
  have "nonempty_buckets [] = []" by (simp add: nonempty_buckets_def none)
  then have "length (root_body (ms_buckets (summarise_hashes ?P []))) = 0"
    "length (root_body (ms_buckets (summarise_hashes ?P [''z2'']))) = 64"
    "length (bucket_body [''z2'']) = 2"
    using length_root_body[OF length_platform_ok] nonempty_buckets_singleton[OF z2_bucket]
    by (simp_all add: bucket_body_def encode_utf8_def)
  then have "inj_on (sha256 ?P) {root_body (ms_buckets (summarise_hashes ?P [''z2''])), bucket_body [''z2''],
      root_body (ms_buckets (summarise_hashes ?P []))}"
    by (auto simp: inj_on_def length_platform_def)
  then show ?thesis by (rule inj_on_subset) (use in0 in1 in blast)
qed

theorem merkle_root_faithful_witness:
  "ms_root (summarise_hashes length_platform [''z2'']) \<noteq> ms_root (summarise_hashes length_platform [])"
  using merkle_root_faithful[OF length_platform_ok digest_inputs_example]
  by (simp add: well_formed_hash_def z2_bucket)

theorem merkle_diverges_exact_witness:
  "set (diverges_from (summarise_hashes length_platform [''z2'']) (summarise_hashes length_platform [])) = {1}"
proof -
  have "{h \<in> set [''z2'']. bucket_for_hash h = Inr i} \<noteq> {h \<in> set []. bucket_for_hash h = Inr i} \<longleftrightarrow> i = 1" for i
    by (auto simp: z2_bucket)
  then have "{i. i < bucket_count \<and> {h \<in> set [''z2'']. bucket_for_hash h = Inr i}
      \<noteq> {h \<in> set []. bucket_for_hash h = Inr i}} = {i. i < bucket_count \<and> i = 1}"
    by (simp only:)
  also have "\<dots> = {1}" by (auto simp: bucket_count_def)
  finally have "{i. i < bucket_count \<and> {h \<in> set [''z2'']. bucket_for_hash h = Inr i}
      \<noteq> {h \<in> set []. bucket_for_hash h = Inr i}} = {1}" .
  from merkle_diverges_exact[OF digest_inputs_example, THEN conjunct1] this show ?thesis by (rule trans)
qed

end
