(* ===== verification/Crdt_Sync.thy ===== *)
theory Crdt_Sync
  imports Crdt_Store Merkle
begin

text \<open>
  Models \<^verbatim>\<open>backend/app/crdt/sync.py\<close>: the summary with its Redis cache, the hashes of one bucket,
  and the batch fetch. The cache is a list of entries with their expiry second; a payload that
  does not decode is \<open>Garbage\<close> (JSON of strings, nulls and integers reads back as written).
  Redis being unreachable is the parameter \<open>up\<close>.
\<close>

section \<open>Operations\<close>

datatype cached_payload = Payload merkle_summary | Garbage

record cache_entry =
  ce_key :: string
  ce_payload :: cached_payload
  ce_expires :: int

type_synonym summary_cache = "cache_entry list"

definition summary_cache_ttl :: int where
  "summary_cache_ttl = 30"

definition max_fetch_hashes :: nat where
  "max_fetch_hashes = 100"

definition summary_cache_key :: "uuid option \<Rightarrow> string" where
  "summary_cache_key workflow_id =
     ''crdt:summary:'' @ (case workflow_id of None \<Rightarrow> ''all'' | Some w \<Rightarrow> ''wf-'' @ str_uuid w)"

definition read_summary_cache :: "bool \<Rightarrow> int \<Rightarrow> summary_cache \<Rightarrow> string \<Rightarrow> merkle_summary option" where
  "read_summary_cache up now cache key =
     (if \<not> up then None
      else case List.find (\<lambda>e. ce_key e = key \<and> now < ce_expires e) cache of
             None \<Rightarrow> None
           | Some e \<Rightarrow> (case ce_payload e of Payload s \<Rightarrow> Some s | Garbage \<Rightarrow> None))"

definition cache_delete :: "string list \<Rightarrow> summary_cache \<Rightarrow> summary_cache" where
  "cache_delete keys cache = filter (\<lambda>e. ce_key e \<notin> set keys) cache"

definition write_summary_cache ::
  "bool \<Rightarrow> int \<Rightarrow> summary_cache \<Rightarrow> string \<Rightarrow> merkle_summary \<Rightarrow> summary_cache" where
  "write_summary_cache up now cache key summary =
     (if \<not> up then cache
      else \<lparr>ce_key = key, ce_payload = Payload summary, ce_expires = now + summary_cache_ttl\<rparr>
             # cache_delete [key] cache)"

text \<open>\<open>_iter_hashes\<close>: the non-empty hashes of active records, of one workflow if given.\<close>

definition iter_hashes :: "node_db \<Rightarrow> uuid option \<Rightarrow> string list" where
  "iter_hashes db workflow_id =
     filter (\<lambda>h. h \<noteq> [])
       (List.map_filter mr_content_hash
          (filter (\<lambda>r. mr_record_state r = ACTIVE \<and> (workflow_id = None \<or> mr_workflow_id r = workflow_id))
             (db_memory db)))"

definition summarise ::
  "platform \<Rightarrow> bool \<Rightarrow> int \<Rightarrow> node_db \<Rightarrow> summary_cache \<Rightarrow> uuid option \<Rightarrow> merkle_summary \<times> summary_cache" where
  "summarise P up now db cache workflow_id =
     (let cache_key = summary_cache_key workflow_id in
      case read_summary_cache up now cache cache_key of
        Some cached \<Rightarrow> (cached, cache)
      | None \<Rightarrow>
          let summary = summarise_hashes P (iter_hashes db workflow_id)
          in (summary, write_summary_cache up now cache cache_key summary))"

definition invalidate_summary_cache :: "summary_cache \<Rightarrow> uuid option \<Rightarrow> summary_cache" where
  "invalidate_summary_cache cache workflow_id =
     cache_delete (summary_cache_key None
       # (case workflow_id of None \<Rightarrow> [] | Some w \<Rightarrow> [summary_cache_key (Some w)])) cache"

datatype sync_error = BucketOutOfRange int | TooManyHashesRequested nat

definition bucket_for_hash_safe :: "string \<Rightarrow> int" where
  "bucket_for_hash_safe h = (case bucket_for_hash h of Inl _ \<Rightarrow> -1 | Inr i \<Rightarrow> int i)"

definition bucket_hashes :: "node_db \<Rightarrow> uuid option \<Rightarrow> int \<Rightarrow> sync_error + string list" where
  "bucket_hashes db workflow_id bucket_index =
     (if \<not> (0 \<le> bucket_index \<and> bucket_index < int bucket_count) then Inl (BucketOutOfRange bucket_index)
      else Inr (sorted_set (filter (\<lambda>h. bucket_for_hash_safe h = bucket_index) (iter_hashes db workflow_id))))"

definition fetch_records :: "node_db \<Rightarrow> string list \<Rightarrow> sync_error + memory_record list" where
  "fetch_records db hashes =
     (if hashes = [] then Inr []
      else if length hashes > max_fetch_hashes then Inl (TooManyHashesRequested (length hashes))
      else Inr (filter (\<lambda>r. mr_content_hash r \<in> Some ` set hashes \<and> mr_record_state r \<noteq> TOMBSTONED)
                  (db_memory db)))"

section \<open>Buckets and summary agree\<close>

lemma bucket_for_hash_safe_conv: "i < bucket_count \<Longrightarrow> bucket_for_hash_safe h = int i \<longleftrightarrow> bucket_for_hash h = Inr i"
  by (simp add: bucket_for_hash_safe_def split: sum.splits)

lemma bucket_hashes_members:
  assumes "i < bucket_count"
  shows "bucket_hashes db w (int i) = Inr (bucket_members (iter_hashes db w) i)"
  using assms by (simp add: bucket_hashes_def bucket_members_def bucket_for_hash_safe_conv)

lemma set_iter_hashes:
  "h \<in> set (iter_hashes db w) \<longleftrightarrow> h \<noteq> [] \<and> (\<exists>r \<in> set (db_memory db). mr_content_hash r = Some h
     \<and> mr_record_state r = ACTIVE \<and> (w = None \<or> mr_workflow_id r = w))"
  by (auto simp: iter_hashes_def List.map_filter_def image_iff)

text \<open>The bucket list a node serves is what its summary's digest was computed from: the digest
  of bucket \<open>i\<close> is absent exactly when the list is empty, and is the digest of the list otherwise;
  the listed hashes are exactly the active well-formed ones of that bucket, in order.\<close>

theorem bucket_list_matches_digest:
  assumes "i < bucket_count"
  shows "\<exists>hs. bucket_hashes db w (int i) = Inr hs \<and> sorted hs \<and> distinct hs
    \<and> set hs = {h \<in> set (iter_hashes db w). bucket_for_hash h = Inr i}
    \<and> ms_buckets (summarise_hashes P (iter_hashes db w)) ! i
        = (if hs = [] then None else Some (hexdigest P (bucket_body hs)))"
  using assms
  by (simp add: bucket_hashes_members summarise_hashes_spec(1) bucket_digest_def)
    (simp add: bucket_members_def)

section \<open>How old a served summary can be\<close>

text \<open>
  The node as its sync service sees it: time passes, the tables change, summaries are served.
  The history is the list of all states with the second from which they held.
\<close>

record sync_node =
  sn_now :: int
  sn_db :: node_db
  sn_cache :: summary_cache
  sn_history :: "(int \<times> node_db) list"

definition record_moment :: "sync_node \<Rightarrow> sync_node" where
  "record_moment n = n\<lparr>sn_history := (sn_now n, sn_db n) # sn_history n\<rparr>"

inductive sync_step :: "platform \<Rightarrow> sync_node \<Rightarrow> sync_node \<Rightarrow> bool" for P where
  tick: "0 \<le> d \<Longrightarrow> sync_step P n (record_moment (n\<lparr>sn_now := sn_now n + d\<rparr>))"
| table_write: "sync_step P n (record_moment (n\<lparr>sn_db := db\<rparr>))"
| serve: "summarise P up (sn_now n) (sn_db n) (sn_cache n) w = (summary, cache) \<Longrightarrow>
    sync_step P n (n\<lparr>sn_cache := cache\<rparr>)"
| invalidate: "sync_step P n (n\<lparr>sn_cache := invalidate_summary_cache (sn_cache n) w\<rparr>)"

inductive_cases sync_stepE: "sync_step P n n'"

inductive sync_reachable :: "platform \<Rightarrow> node_db \<Rightarrow> sync_node \<Rightarrow> bool" for P db where
  start: "sync_reachable P db (record_moment \<lparr>sn_now = 0, sn_db = db, sn_cache = [], sn_history = []\<rparr>)"
| step: "sync_reachable P db n \<Longrightarrow> sync_step P n n' \<Longrightarrow> sync_reachable P db n'"

definition entry_ok :: "platform \<Rightarrow> sync_node \<Rightarrow> cache_entry \<Rightarrow> bool" where
  "entry_ok P n e \<longleftrightarrow>
     (\<exists>w t d. ce_key e = summary_cache_key w \<and> (t, d) \<in> set (sn_history n) \<and> t \<le> sn_now n
        \<and> ce_expires e = t + summary_cache_ttl \<and> ce_payload e = Payload (summarise_hashes P (iter_hashes d w)))"

definition cache_inv :: "platform \<Rightarrow> sync_node \<Rightarrow> bool" where
  "cache_inv P n \<longleftrightarrow> (\<forall>e \<in> set (sn_cache n). entry_ok P n e) \<and> (sn_now n, sn_db n) \<in> set (sn_history n)"

lemma summary_cache_key_inj [simp]: "summary_cache_key v = summary_cache_key w \<longleftrightarrow> v = w"
  by (auto simp: summary_cache_key_def split: option.splits)

lemma entry_ok_mono:
  "entry_ok P n e \<Longrightarrow> set (sn_history n) \<subseteq> set (sn_history n') \<Longrightarrow> sn_now n \<le> sn_now n' \<Longrightarrow> entry_ok P n' e"
  unfolding entry_ok_def by (meson order_trans subsetD)

lemma entry_ok_cache [simp]: "entry_ok P (n\<lparr>sn_cache := c\<rparr>) e = entry_ok P n e"
  by (simp add: entry_ok_def)

lemma record_moment_simps [simp]:
  "sn_now (record_moment n) = sn_now n" "sn_db (record_moment n) = sn_db n"
  "sn_cache (record_moment n) = sn_cache n" "sn_history (record_moment n) = (sn_now n, sn_db n) # sn_history n"
  by (simp_all add: record_moment_def)

lemma summarise_cases:
  assumes "summarise P up now db cache w = (summary, cache')"
  obtains (hit) e where "up" "e \<in> set cache" "ce_key e = summary_cache_key w" "now < ce_expires e"
      "ce_payload e = Payload summary" "cache' = cache"
  | (miss) "summary = summarise_hashes P (iter_hashes db w)"
      "cache' = write_summary_cache up now cache (summary_cache_key w) summary"
proof (cases "read_summary_cache up now cache (summary_cache_key w)")
  case None
  with assms miss show thesis by (auto simp: summarise_def Let_def)
next
  case (Some s)
  then obtain e where "List.find (\<lambda>e. ce_key e = summary_cache_key w \<and> now < ce_expires e) cache = Some e"
    "ce_payload e = Payload s" "up"
    by (auto simp: read_summary_cache_def split: if_splits option.splits cached_payload.splits)
  moreover have "summary = s" "cache' = cache" using assms Some by (simp_all add: summarise_def Let_def)
  moreover have "e \<in> set cache" "ce_key e = summary_cache_key w" "now < ce_expires e"
    using calculation(1) by (auto simp: find_Some_iff)
  ultimately show thesis using hit[of e] by simp
qed

lemma cache_inv_step: "cache_inv P n \<Longrightarrow> sync_step P n n' \<Longrightarrow> cache_inv P n'"
proof (erule sync_stepE)
  fix d assume inv: "cache_inv P n" and d: "0 \<le> d" "n' = record_moment (n\<lparr>sn_now := sn_now n + d\<rparr>)"
  then show "cache_inv P n'" by (auto simp: cache_inv_def elim!: entry_ok_mono)
next
  fix db assume "cache_inv P n" "n' = record_moment (n\<lparr>sn_db := db\<rparr>)"
  then show "cache_inv P n'" by (auto simp: cache_inv_def elim!: entry_ok_mono)
next
  fix up w summary cache
  assume inv: "cache_inv P n" and n': "n' = n\<lparr>sn_cache := cache\<rparr>"
    and s: "summarise P up (sn_now n) (sn_db n) (sn_cache n) w = (summary, cache)"
  from s show "cache_inv P n'"
  proof (cases rule: summarise_cases)
    case miss
    have "entry_ok P n \<lparr>ce_key = summary_cache_key w, ce_payload = Payload summary,
        ce_expires = sn_now n + summary_cache_ttl\<rparr>"
      unfolding entry_ok_def using inv miss
      by (intro exI[of _ w] exI[of _ "sn_now n"] exI[of _ "sn_db n"]) (simp add: cache_inv_def)
    then show ?thesis
      using inv miss n' by (auto simp: cache_inv_def write_summary_cache_def cache_delete_def)
  qed (use inv n' in \<open>simp add: cache_inv_def\<close>)
next
  fix w assume "cache_inv P n" "n' = n\<lparr>sn_cache := invalidate_summary_cache (sn_cache n) w\<rparr>"
  then show "cache_inv P n'" by (auto simp: cache_inv_def invalidate_summary_cache_def cache_delete_def)
qed

lemma cache_inv_reachable: "sync_reachable P db n \<Longrightarrow> cache_inv P n"
proof (induction rule: sync_reachable.induct)
  case start
  then show ?case by (simp add: cache_inv_def)
next
  case (step n n')
  then show ?case by (blast intro: cache_inv_step)
qed

text \<open>A served summary is never older than the cache's 30 seconds: it is the fingerprint of the
  tables as they were at some moment less than 30 seconds ago, whatever was written since.\<close>

theorem summary_bounded_staleness:
  assumes "sync_reachable P db n"
    and "summarise P up (sn_now n) (sn_db n) (sn_cache n) w = (summary, cache)"
  shows "\<exists>t d. (t, d) \<in> set (sn_history n) \<and> sn_now n - summary_cache_ttl < t \<and> t \<le> sn_now n
    \<and> summary = summarise_hashes P (iter_hashes d w)"
  using assms(2)
proof (cases rule: summarise_cases)
  case (hit e)
  then have "entry_ok P n e" using cache_inv_reachable[OF assms(1)] by (auto simp: cache_inv_def)
  then obtain t d where "(t, d) \<in> set (sn_history n)" "t \<le> sn_now n" "ce_expires e = t + summary_cache_ttl"
    "ce_payload e = Payload (summarise_hashes P (iter_hashes d w))"
    using hit(3) by (auto simp: entry_ok_def)
  with hit show ?thesis by (intro exI[of _ t] exI[of _ d]) simp
next
  case miss
  then show ?thesis
    using cache_inv_reachable[OF assms(1)]
    by (intro exI[of _ "sn_now n"] exI[of _ "sn_db n"]) (auto simp: cache_inv_def summary_cache_ttl_def)
qed

lemma read_after_invalidate:
  assumes "w = None \<or> w = v"
  shows "read_summary_cache up now (invalidate_summary_cache cache v) (summary_cache_key w) = None"
proof -
  have "List.find (\<lambda>e. ce_key e = summary_cache_key w \<and> now < ce_expires e) (invalidate_summary_cache cache v) = None"
    using assms by (auto simp: find_None_iff invalidate_summary_cache_def cache_delete_def split: option.splits)
  then show ?thesis by (simp add: read_summary_cache_def)
qed

text \<open>Invalidating after a write in workflow \<open>v\<close> makes the next summary, of that workflow or of
  the whole node, current; without it a summary served within the next 30 seconds is the one
  computed before the write.\<close>

theorem summary_fresh_iff_invalidated:
  assumes "w = None \<or> w = v"
    and "summarise P True now old [] w = (before, cache)" and "now \<le> now'" and "now' < now + summary_cache_ttl"
  shows "fst (summarise P True now' db (invalidate_summary_cache cache v) w) = summarise_hashes P (iter_hashes db w)
    \<and> fst (summarise P True now' db cache w) = summarise_hashes P (iter_hashes old w)"
proof
  show "fst (summarise P True now' db (invalidate_summary_cache cache v) w) = summarise_hashes P (iter_hashes db w)"
    using read_after_invalidate[OF assms(1)] by (simp add: summarise_def Let_def)
  have "cache = [\<lparr>ce_key = summary_cache_key w, ce_payload = Payload (summarise_hashes P (iter_hashes old w)),
      ce_expires = now + summary_cache_ttl\<rparr>]"
    using assms(2) by (auto simp: summarise_def Let_def read_summary_cache_def write_summary_cache_def cache_delete_def)
  then show "fst (summarise P True now' db cache w) = summarise_hashes P (iter_hashes old w)"
    using assms(4) by (simp add: summarise_def Let_def read_summary_cache_def)
qed

section \<open>Serving records\<close>

lemma fetch_records_ok:
  assumes "length hashes \<le> max_fetch_hashes"
  obtains rs where "fetch_records db hashes = Inr rs"
    "set rs = {r \<in> set (db_memory db). mr_content_hash r \<in> Some ` set hashes \<and> mr_record_state r \<noteq> TOMBSTONED}"
  using assms that by (cases "hashes = []") (auto simp: fetch_records_def)

section \<open>Witnesses\<close>

theorem bucket_list_matches_digest_witness:
  "\<exists>hs. bucket_hashes (sess_db demo_session) None (int 7) = Inr hs \<and> sorted hs"
  using bucket_list_matches_digest[of 7 "sess_db demo_session" None demo_platform] by (auto simp: bucket_count_def)

definition demo_node :: sync_node where
  "demo_node = record_moment \<lparr>sn_now = 0, sn_db = sess_db demo_session, sn_cache = [], sn_history = []\<rparr>"

theorem summary_bounded_staleness_witness:
  "\<exists>t d. (t, d) \<in> set (sn_history demo_node) \<and> sn_now demo_node - summary_cache_ttl < t \<and> t \<le> sn_now demo_node
     \<and> fst (summarise demo_platform True (sn_now demo_node) (sn_db demo_node) (sn_cache demo_node) None)
         = summarise_hashes demo_platform (iter_hashes d None)"
proof -
  have "sync_reachable demo_platform (sess_db demo_session) demo_node"
    unfolding demo_node_def by (rule sync_reachable.start)
  from summary_bounded_staleness[OF this prod.collapse[symmetric]] show ?thesis .
qed

theorem summary_fresh_iff_invalidated_witness:
  "fst (summarise demo_platform True 5 (add_rows [] (sess_db demo_session))
      (invalidate_summary_cache (snd (summarise demo_platform True 0 (sess_db demo_session) [] None)) None) None)
     = summarise_hashes demo_platform (iter_hashes (add_rows [] (sess_db demo_session)) None)"
  using summary_fresh_iff_invalidated[of None None demo_platform 0 "sess_db demo_session"
      _ _ 5 "add_rows [] (sess_db demo_session)", OF _ prod.collapse[symmetric]]
  by (simp add: summary_cache_ttl_def)

end
