(* ===== verification/Peer_Auth.thy ===== *)
theory Peer_Auth
  imports Did
begin

text \<open>
  Models \<^verbatim>\<open>backend/app/crdt/peer_auth.py\<close> and the header signing of
  \<^verbatim>\<open>backend/app/crdt/peer_client.py\<close>: how one node proves its identity to another. The server's
  settings are the arguments \<open>allowlist\<close> (the raw configuration string) and \<open>demo_mode\<close>.
\<close>

section \<open>Operations\<close>

definition peer_auth_window :: int where
  "peer_auth_window = 60"

record verified_peer =
  vp_did :: string
  vp_timestamp :: int

text \<open>
  Each constructor but the last is a raise site of the 401 error; \<open>AuthKeyRejected\<close> is the
  \<open>SignatureError\<close> of \<open>verify_bytes\<close>, which the code does not turn into a 401.
\<close>

datatype peer_auth_error =
    MissingPeerHeaders | TimestampNotInteger | TimestampOutsideWindow | PeerNotAllowlisted
  | PeerDidUnusable did_error | SignatureNotMultibase | SignatureNotVerified
  | AuthKeyRejected signature_error

definition canonical_bytes :: "string \<Rightarrow> string \<Rightarrow> int \<Rightarrow> bytes" where
  "canonical_bytes method path timestamp =
     encode_utf8 (str_int timestamp @ ''|'' @ str_upper method @ ''|'' @ path)"

definition allowed_peer_dids :: "string \<Rightarrow> string set" where
  "allowed_peer_dids raw = set (filter (\<lambda>e. e \<noteq> []) (map str_strip (split_on (CHR '','') raw)))"

definition header_missing :: "string option \<Rightarrow> bool" where
  "header_missing h = (case h of None \<Rightarrow> True | Some s \<Rightarrow> s = [])"

definition verify_peer_request ::
  "ed25519 \<Rightarrow> string \<Rightarrow> int \<Rightarrow> string \<Rightarrow> string \<Rightarrow> string option \<Rightarrow> string option \<Rightarrow> string option
     \<Rightarrow> peer_auth_error + verified_peer" where
  "verify_peer_request ed allowlist now method path did timestamp signature =
     (if header_missing did \<or> header_missing timestamp \<or> header_missing signature
      then Inl MissingPeerHeaders
      else case py_int (the timestamp) of
        None \<Rightarrow> Inl TimestampNotInteger
      | Some ts \<Rightarrow>
          if abs (now - ts) > peer_auth_window then Inl TimestampOutsideWindow
          else if allowed_peer_dids allowlist \<noteq> {} \<and> the did \<notin> allowed_peer_dids allowlist
          then Inl PeerNotAllowlisted
          else
            bindE (mapErr PeerDidUnusable (public_key_from_did (the did))) (\<lambda>public.
            bindE (catchE (decode_multibase (the signature)) (\<lambda>_. Inl SignatureNotMultibase)) (\<lambda>sig.
            bindE (mapErr AuthKeyRejected (verify_bytes ed (canonical_bytes method path ts) sig public)) (\<lambda>ok.
              if \<not> ok then Inl SignatureNotVerified
              else bindE (mapErr PeerDidUnusable (parse_did (the did))) (\<lambda>_.
                Inr \<lparr>vp_did = the did, vp_timestamp = ts\<rparr>)))))"

definition anonymous_demo_did :: string where
  "anonymous_demo_did = ''did:demo:anonymous-read''"

definition require_verified_peer_or_demo ::
  "ed25519 \<Rightarrow> string \<Rightarrow> bool \<Rightarrow> int \<Rightarrow> string \<Rightarrow> string \<Rightarrow> string option \<Rightarrow> string option \<Rightarrow> string option
     \<Rightarrow> peer_auth_error + verified_peer" where
  "require_verified_peer_or_demo ed allowlist demo_mode now method path did timestamp signature =
     (if demo_mode \<and> header_missing did \<and> header_missing timestamp \<and> header_missing signature
      then Inr \<lparr>vp_did = anonymous_demo_did, vp_timestamp = now\<rparr>
      else verify_peer_request ed allowlist now method path did timestamp signature)"

record peer_headers =
  ph_did :: string
  ph_timestamp :: string
  ph_signature :: string

definition sign_headers ::
  "ed25519 \<Rightarrow> keypair \<Rightarrow> string \<Rightarrow> int \<Rightarrow> string \<Rightarrow> string \<Rightarrow> signature_error + peer_headers" where
  "sign_headers ed kp did now method path =
     bindE (sign_bytes ed (canonical_bytes method path now) (private_seed kp)) (\<lambda>raw.
       Inr \<lparr>ph_did = did, ph_timestamp = str_int now, ph_signature = encode_multibase raw\<rparr>)"

section \<open>The signed text is unambiguous\<close>

lemma bar_notin_str_int: "CHR ''|'' \<notin> set (str_int i)"
  by (auto dest!: str_int_chars simp: is_digit_def digit_value_def)

lemma bar_notin_str_upper: "CHR ''|'' \<notin> set m \<Longrightarrow> CHR ''|'' \<notin> set (str_upper m)"
proof -
  have "upper_char c = CHR ''|'' \<Longrightarrow> c = CHR ''|''" for c
  proof (rule ccontr)
    assume u: "upper_char c = CHR ''|''" "c \<noteq> CHR ''|''"
    then have n: "97 \<le> (of_char c :: nat)" "(of_char c :: nat) \<le> 122" "char_of ((of_char c :: nat) - 32) = CHR ''|''"
      by (auto simp: upper_char_def Let_def split: if_splits)
    then have "(of_char (char_of ((of_char c :: nat) - 32)) :: nat) = 124" by simp
    with n(1,2) show False by simp
  qed
  then show "CHR ''|'' \<notin> set m \<Longrightarrow> CHR ''|'' \<notin> set (str_upper m)"
    by (auto simp: str_upper_def image_iff dest!: sym[of "CHR ''|''"])
qed

lemma append_sep_eq_iff:
  assumes "c \<notin> set a" "c \<notin> set b"
  shows "a @ c # s = b @ c # t \<longleftrightarrow> a = b \<and> s = t"
  using assms by (metis takeWhile_sep dropWhile_sep list.inject)

lemma canonical_bytes_inj:
  assumes "CHR ''|'' \<notin> set m1" "CHR ''|'' \<notin> set m2"
  shows "canonical_bytes m1 p1 t1 = canonical_bytes m2 p2 t2
    \<longleftrightarrow> t1 = t2 \<and> str_upper m1 = str_upper m2 \<and> p1 = p2"
  using assms[THEN bar_notin_str_upper] bar_notin_str_int
  by (simp add: canonical_bytes_def append_sep_eq_iff)

section \<open>Properties\<close>

text \<open>C19. A request is accepted only if its DID is allowed, its time is within 60 seconds of the
  server's, and the key in the DID signed this very time, method and path.\<close>

theorem peer_auth_sound:
  assumes "verify_peer_request ed allowlist now method path did timestamp signature = Inr peer"
  shows "\<exists>pub sig. did = Some (vp_did peer) \<and> timestamp \<noteq> None \<and> py_int (the timestamp) = Some (vp_timestamp peer)
    \<and> (allowed_peer_dids allowlist = {} \<or> vp_did peer \<in> allowed_peer_dids allowlist)
    \<and> now - 60 \<le> vp_timestamp peer \<and> vp_timestamp peer \<le> now + 60
    \<and> public_key_from_did (vp_did peer) = Inr pub \<and> signature = Some (encode_multibase sig)
    \<and> ed_verify ed pub sig (canonical_bytes method path (vp_timestamp peer))"
  using assms
  by (auto simp: verify_peer_request_def header_missing_def peer_auth_window_def bindE_Inr_conv mapErr_Inr_conv
      catchE_def decode_multibase_conv verify_bytes_def load_public_key_def
      split: if_splits option.splits sum.splits)

text \<open>The headers the client signs are accepted by a server whose clock differs by at most 60
  seconds and whose allowlist is empty or names the client, for the same method and path.\<close>

theorem peer_headers_accepted:
  assumes "ed25519_ok ed" and "length seed = 32" and "build_did_key (ed_public ed seed) = Inr did"
    and "sign_headers ed \<lparr>private_seed = seed, public_bytes = ed_public ed seed\<rparr> did t method path = Inr h"
    and "\<bar>now - t\<bar> \<le> 60"
    and "allowed_peer_dids allowlist = {} \<or> did \<in> allowed_peer_dids allowlist"
  shows "verify_peer_request ed allowlist now method path (Some (ph_did h)) (Some (ph_timestamp h)) (Some (ph_signature h))
    = Inr \<lparr>vp_did = did, vp_timestamp = t\<rparr>"
proof -
  have pub: "length (ed_public ed seed) = 32" "ed_point ed (ed_public ed seed)"
    using assms(1,2) by (simp_all add: ed25519_ok_def)
  have key: "public_key_from_did did = Inr (ed_public ed seed)"
    using public_key_build_did_key[OF pub(1)] assms(3) by (metis sum.inject(2))
  obtain p where p: "parse_did did = Inr p"
    using key by (auto simp: public_key_from_did_def bindE_Inr_conv)
  then have ne: "did \<noteq> []" by (auto simp: parse_did_def starts_with_def)
  have h: "h = \<lparr>ph_did = did, ph_timestamp = str_int t,
      ph_signature = encode_multibase (ed_sign ed seed (canonical_bytes method path t))\<rparr>"
    using assms(4) sign_verify(1)[OF assms(1,2)] by (simp add: sign_headers_def)
  show ?thesis
    using h ne key p assms(5,6) sign_verify(2)[OF assms(1,2)]
    by (auto simp: verify_peer_request_def header_missing_def peer_auth_window_def encode_multibase_def
        decode_encode_multibase[unfolded encode_multibase_def])
qed

section \<open>Witnesses\<close>

lemma zero_did: "build_did_key (replicate 32 0) = Inr (zero_key_did ''key'')"
  by (simp add: build_did_key_def zero_key_did_def)

theorem peer_headers_accepted_witness:
  "\<exists>h. sign_headers demo_ed \<lparr>private_seed = replicate 32 0, public_bytes = replicate 32 0\<rparr>
         (zero_key_did ''key'') 1000 ''get'' ''/api/v1/memory/sync/summary'' = Inr h
     \<and> verify_peer_request demo_ed [] 1060 ''get'' ''/api/v1/memory/sync/summary''
         (Some (ph_did h)) (Some (ph_timestamp h)) (Some (ph_signature h))
       = Inr \<lparr>vp_did = zero_key_did ''key'', vp_timestamp = 1000\<rparr>"
proof -
  let ?kp = "\<lparr>private_seed = replicate 32 0, public_bytes = ed_public demo_ed (replicate 32 0)\<rparr>"
  have kp: "?kp = \<lparr>private_seed = replicate 32 0, public_bytes = replicate 32 0\<rparr>" by (simp add: demo_ed_def)
  obtain h where h: "sign_headers demo_ed ?kp (zero_key_did ''key'') 1000 ''get'' ''/api/v1/memory/sync/summary'' = Inr h"
    by (simp add: sign_headers_def sign_bytes_def load_private_key_def)
  have "build_did_key (ed_public demo_ed (replicate 32 0)) = Inr (zero_key_did ''key'')"
    using zero_did by (simp add: demo_ed_def)
  from peer_headers_accepted[OF demo_ed_ok _ this h, of 1060 "[]"] h kp show ?thesis
    by (simp add: allowed_peer_dids_def str_strip_def strip_by_def)
qed

theorem peer_auth_sound_witness:
  "\<exists>pub sig. public_key_from_did (zero_key_did ''key'') = Inr pub
     \<and> ed_verify demo_ed pub sig (canonical_bytes ''get'' ''/p'' 1000)"
proof -
  let ?sig = "encode_multibase (replicate 32 0 @ canonical_bytes ''get'' ''/p'' 1000)"
  have "public_key_from_did (zero_key_did ''key'') = Inr (replicate 32 0)"
    using public_key_zero_key_did[of "''key''"] by simp
  moreover obtain p where "parse_did (zero_key_did ''key'') = Inr p"
    using calculation by (auto simp: public_key_from_did_def bindE_Inr_conv)
  moreover have "zero_key_did ''key'' \<noteq> []" "?sig \<noteq> []" by (simp_all add: zero_key_did_def encode_multibase_def)
  ultimately have ok: "verify_peer_request demo_ed [] 1060 ''get'' ''/p'' (Some (zero_key_did ''key'')) (Some (str_int 1000)) (Some ?sig)
      = Inr \<lparr>vp_did = zero_key_did ''key'', vp_timestamp = 1000\<rparr>"
    by (simp add: verify_peer_request_def header_missing_def peer_auth_window_def allowed_peer_dids_def
        str_strip_def strip_by_def verify_bytes_def load_public_key_def demo_ed_def)
  from peer_auth_sound[OF ok] show ?thesis by (elim exE conjE) auto
qed

end
