(* ===== verification/Peer_Client.thy ===== *)
theory Peer_Client
  imports Crdt_Sync Peer_Auth
begin

text \<open>
  Models \<^verbatim>\<open>backend/app/crdt/peer_client.py\<close> (replies, status codes, record coercion) and the three
  handlers of \<^verbatim>\<open>backend/app/api/memory_sync.py\<close> that produce the replies. JSON objects on the wire
  are records whose fields may be absent, null or present with the annotated type; a list
  element of another type is \<open>None\<close>.
\<close>

section \<open>Wire values\<close>

datatype 'a wire = Absent | Null | Val 'a

text \<open>\<open>raw.get(k)\<close>, \<open>raw.get(k) or None\<close> for strings, and \<open>str(raw.get(k, default))\<close>.\<close>

fun wire_get :: "'a wire \<Rightarrow> 'a option" where
  "wire_get (Val x) = Some x"
| "wire_get _ = None"

definition nonempty_str :: "string option \<Rightarrow> string option" where
  "nonempty_str s = (case s of None \<Rightarrow> None | Some t \<Rightarrow> if t = [] then None else Some t)"

fun wire_str :: "string \<Rightarrow> string wire \<Rightarrow> string" where
  "wire_str d Absent = d"
| "wire_str d Null = ''None''"
| "wire_str d (Val s) = s"

record wire_record =
  w_hash :: "string wire"
  w_content_hash :: "string wire"
  w_workflow_id :: "string wire"
  w_source_agent_id :: "string wire"
  w_memory_type :: "string wire"
  w_content :: "string wire"
  w_confidence :: "pyfloat wire"
  w_metadata :: "(string \<times> json) list wire"
  w_metadata_alias :: "(string \<times> json) list wire"   \<comment> \<open>the key \<open>metadata_\<close>\<close>
  w_author_did :: "string wire"
  w_parent_hashes :: "string list wire"
  w_signature :: "string wire"
  w_record_state :: "string wire"

record wire_summary =
  ws_root :: "string wire"
  ws_buckets :: "string option list wire"
  ws_record_count :: "int wire"

datatype 'b http_body = NonJson | NonObject | Object 'b

datatype 'b http_reply = Unreachable | Reply nat "'b http_body"

section \<open>The client\<close>

text \<open>The first three are \<open>PeerClientError\<close>s; the last two are built-in exceptions.\<close>

datatype client_error =
    PeerUnavailable | PeerUnauthorized | PeerInvalidResponse | ClientValueError | ClientTypeError

fun is_peer_client_error :: "client_error \<Rightarrow> bool" where
  "is_peer_client_error ClientValueError = False"
| "is_peer_client_error ClientTypeError = False"
| "is_peer_client_error _ = True"

definition client_request :: "'b http_reply \<Rightarrow> client_error + 'b http_body" where
  "client_request reply =
     (case reply of
        Unreachable \<Rightarrow> Inl PeerUnavailable
      | Reply status body \<Rightarrow>
          if status = 401 \<or> status = 403 then Inl PeerUnauthorized
          else if 500 \<le> status \<and> status < 600 then Inl PeerUnavailable
          else if 400 \<le> status then Inl PeerInvalidResponse
          else Inr body)"

definition safe_json_object :: "'b http_body \<Rightarrow> client_error + 'b" where
  "safe_json_object body = (case body of Object b \<Rightarrow> Inr b | _ \<Rightarrow> Inl PeerInvalidResponse)"

definition client_object :: "'b http_reply \<Rightarrow> client_error + 'b" where
  "client_object reply = bindE (client_request reply) safe_json_object"

definition fetch_summary :: "wire_summary http_reply \<Rightarrow> client_error + merkle_summary" where
  "fetch_summary reply =
     bindE (client_object reply) (\<lambda>body.
       case (ws_buckets body, ws_root body, ws_record_count body) of
         (Val buckets, rt, n) \<Rightarrow>
           if length buckets \<noteq> bucket_count \<or> rt = Absent \<or> n = Null then Inl PeerInvalidResponse
           else Inr \<lparr>ms_root = wire_str [] rt, ms_buckets = buckets,
                     ms_record_count = (case wire_get n of None \<Rightarrow> 0 | Some i \<Rightarrow> nat i)\<rparr>
       | _ \<Rightarrow> Inl PeerInvalidResponse)"

definition fetch_bucket_hashes :: "nat \<Rightarrow> string option list wire http_reply \<Rightarrow> client_error + string list" where
  "fetch_bucket_hashes index reply =
     (if \<not> index < bucket_count then Inl ClientValueError
      else bindE (client_object reply) (\<lambda>hashes.
        case hashes of
          Val hs \<Rightarrow> Inr (filter (\<lambda>h. starts_with ''z'' h) (List.map_filter id hs))
        | _ \<Rightarrow> Inl PeerInvalidResponse))"

record peer_record =
  pr_content_hash :: string
  pr_workflow_id :: string
  pr_source_agent_id :: "string option"
  pr_memory_type :: string
  pr_content :: string
  pr_confidence :: pyfloat
  pr_metadata :: "(string \<times> json) list"
  pr_author_did :: "string option"
  pr_parent_hashes :: "string list"
  pr_signature :: "string option"
  pr_record_state :: string

definition coerce_record :: "wire_record \<Rightarrow> client_error + peer_record" where
  "coerce_record raw =
     (let content_hash = (case nonempty_str (wire_get (w_hash raw)) of
                            Some h \<Rightarrow> Some h
                          | None \<Rightarrow> nonempty_str (wire_get (w_content_hash raw)));
          metadata = (case wire_get (w_metadata raw) of
                        Some m \<Rightarrow> Some m
                      | None \<Rightarrow> wire_get (w_metadata_alias raw))
      in case content_hash of
           None \<Rightarrow> Inl PeerInvalidResponse
         | Some h \<Rightarrow>
             if w_confidence raw = Null then Inl ClientTypeError
             else Inr
               \<lparr>pr_content_hash = h,
                pr_workflow_id = wire_str [] (w_workflow_id raw),
                pr_source_agent_id = nonempty_str (wire_get (w_source_agent_id raw)),
                pr_memory_type = wire_str ''result'' (w_memory_type raw),
                pr_content = wire_str [] (w_content raw),
                pr_confidence = (case wire_get (w_confidence raw) of None \<Rightarrow> FFin 0 | Some f \<Rightarrow> f),
                pr_metadata = (case metadata of None \<Rightarrow> [] | Some m \<Rightarrow> m),
                pr_author_did = nonempty_str (wire_get (w_author_did raw)),
                pr_parent_hashes = (case wire_get (w_parent_hashes raw) of None \<Rightarrow> [] | Some ps \<Rightarrow> ps),
                pr_signature = nonempty_str (wire_get (w_signature raw)),
                pr_record_state = wire_str ''active'' (w_record_state raw)\<rparr>)"

fun coerce_all :: "wire_record list \<Rightarrow> client_error + peer_record list" where
  "coerce_all [] = Inr []"
| "coerce_all (w # ws) = bindE (coerce_record w) (\<lambda>r. bindE (coerce_all ws) (\<lambda>rs. Inr (r # rs)))"

definition client_fetch_records ::
  "string list \<Rightarrow> (string list \<Rightarrow> wire_record option list wire http_reply) \<Rightarrow> client_error + peer_record list" where
  "client_fetch_records hashes send =
     (if hashes = [] then Inr []
      else if length hashes > 100 then Inl ClientValueError
      else bindE (client_object (send hashes)) (\<lambda>records.
        case records of
          Val rs \<Rightarrow> coerce_all (List.map_filter id rs)
        | _ \<Rightarrow> Inl PeerInvalidResponse))"

section \<open>The handlers\<close>

text \<open>Status of a request that peer authentication refuses; a rejected key is an unhandled error.\<close>

definition auth_status :: "peer_auth_error \<Rightarrow> nat" where
  "auth_status e = (case e of AuthKeyRejected _ \<Rightarrow> 500 | _ \<Rightarrow> 401)"

definition with_peer :: "peer_auth_error + verified_peer \<Rightarrow> 'b http_reply \<Rightarrow> 'b http_reply" where
  "with_peer auth reply = (case auth of Inl e \<Rightarrow> Reply (auth_status e) NonObject | Inr _ \<Rightarrow> reply)"

definition get_sync_summary ::
  "platform \<Rightarrow> bool \<Rightarrow> int \<Rightarrow> node_db \<Rightarrow> summary_cache \<Rightarrow> uuid option \<Rightarrow> wire_summary http_reply \<times> summary_cache" where
  "get_sync_summary P up now db cache workflow_id =
     (let (summary, cache') = summarise P up now db cache workflow_id
      in (Reply 200 (Object \<lparr>ws_root = Val (ms_root summary), ws_buckets = Val (ms_buckets summary),
            ws_record_count = Val (int (ms_record_count summary))\<rparr>), cache'))"

definition get_sync_bucket :: "node_db \<Rightarrow> uuid option \<Rightarrow> int \<Rightarrow> string option list wire http_reply" where
  "get_sync_bucket db workflow_id bucket_index =
     (case bucket_hashes db workflow_id bucket_index of
        Inl _ \<Rightarrow> Reply 400 NonObject
      | Inr hs \<Rightarrow> Reply 200 (Object (Val (map Some hs))))"

definition wire_opt :: "'a option \<Rightarrow> 'a wire" where
  "wire_opt x = (case x of None \<Rightarrow> Null | Some y \<Rightarrow> Val y)"

text \<open>
  \<open>MemoryResponse.model_validate(r).model_dump(by_alias=True)\<close>: the response schema requires a
  workflow, and a float that is not finite has no JSON; both end the request with an error.
\<close>

definition memory_response :: "memory_record \<Rightarrow> wire_record option" where
  "memory_response r =
     (case (mr_workflow_id r, mr_confidence r) of
        (Some w, FFin q) \<Rightarrow> Some
          \<lparr>w_hash = wire_opt (mr_content_hash r), w_content_hash = Absent,
           w_workflow_id = Val (str_uuid w),
           w_source_agent_id = wire_opt (map_option str_uuid (mr_source_agent_id r)),
           w_memory_type = Val (memory_type_value (mr_memory_type r)),
           w_content = Val (mr_content r), w_confidence = Val (FFin q),
           w_metadata = Absent, w_metadata_alias = Val (mr_metadata r),
           w_author_did = wire_opt (mr_author_did r),
           w_parent_hashes = Val (mr_parent_hashes r),
           w_signature = wire_opt (mr_signature r),
           w_record_state = Val (record_state_value (mr_record_state r))\<rparr>
      | _ \<Rightarrow> None)"

definition fetch_records_by_hash :: "node_db \<Rightarrow> string list \<Rightarrow> wire_record option list wire http_reply" where
  "fetch_records_by_hash db hashes =
     (case fetch_records db hashes of
        Inl _ \<Rightarrow> Reply 413 NonObject
      | Inr records \<Rightarrow>
          (case those (map memory_response records) of
             None \<Rightarrow> Reply 500 NonObject
           | Some ws \<Rightarrow> Reply 200 (Object (Val (map Some ws)))))"

section \<open>What arrives is what was stored\<close>

text \<open>A stored record as the client sees it.\<close>

definition as_peer_record :: "memory_record \<Rightarrow> peer_record" where
  "as_peer_record r =
     \<lparr>pr_content_hash = the (mr_content_hash r),
      pr_workflow_id = str_uuid (the (mr_workflow_id r)),
      pr_source_agent_id = map_option str_uuid (mr_source_agent_id r),
      pr_memory_type = memory_type_value (mr_memory_type r),
      pr_content = mr_content r, pr_confidence = mr_confidence r, pr_metadata = mr_metadata r,
      pr_author_did = nonempty_str (mr_author_did r), pr_parent_hashes = mr_parent_hashes r,
      pr_signature = nonempty_str (mr_signature r),
      pr_record_state = record_state_value (mr_record_state r)\<rparr>"

definition servable :: "memory_record \<Rightarrow> bool" where
  "servable r \<longleftrightarrow> mr_workflow_id r \<noteq> None \<and> (\<exists>q. mr_confidence r = FFin q)
     \<and> (\<exists>h. mr_content_hash r = Some h \<and> h \<noteq> [])"

lemma wire_get_opt [simp]: "wire_get (wire_opt x) = x"
  by (cases x) (simp_all add: wire_opt_def)

lemma nonempty_str_Some: "s \<noteq> [] \<Longrightarrow> nonempty_str (Some s) = Some s"
  by (simp add: nonempty_str_def)

lemma nonempty_str_uuid [simp]: "nonempty_str (map_option str_uuid u) = map_option str_uuid u"
  by (cases u) (simp_all add: nonempty_str_def)

lemma coerce_memory_response:
  assumes "servable r"
  shows "\<exists>w. memory_response r = Some w \<and> coerce_record w = Inr (as_peer_record r)"
proof -
  obtain wf q h where r: "mr_workflow_id r = Some wf" "mr_confidence r = FFin q" "mr_content_hash r = Some h" "h \<noteq> []"
    using assms by (auto simp: servable_def)
  then show ?thesis
    by (simp add: memory_response_def coerce_record_def as_peer_record_def nonempty_str_Some)
qed

lemma coerce_responses:
  "\<forall>r \<in> set rs. servable r \<Longrightarrow>
     \<exists>ws. those (map memory_response rs) = Some ws \<and> coerce_all ws = Inr (map as_peer_record rs)"
proof (induction rs)
  case (Cons r rs)
  then obtain w ws where "memory_response r = Some w" "coerce_record w = Inr (as_peer_record r)"
    "those (map memory_response rs) = Some ws" "coerce_all ws = Inr (map as_peer_record rs)"
    using coerce_memory_response by fastforce
  then show ?case by auto
qed simp

lemma map_filter_Some [simp]: "List.map_filter id (map Some xs) = xs"
  by (induction xs) (simp_all add: List.map_filter_def)

lemma fetch_over_wire:
  assumes "hashes \<noteq> []" "length hashes \<le> 100" "fetch_records db hashes = Inr rs" "\<forall>r \<in> set rs. servable r"
  shows "client_fetch_records hashes (fetch_records_by_hash db) = Inr (map as_peer_record rs)"
proof -
  obtain ws where "those (map memory_response rs) = Some ws" "coerce_all ws = Inr (map as_peer_record rs)"
    using coerce_responses[OF assms(4)] by blast
  with assms show ?thesis
    by (simp add: client_fetch_records_def fetch_records_by_hash_def client_object_def client_request_def
        safe_json_object_def)
qed

lemma summary_over_wire:
  assumes "length (ms_buckets s) = bucket_count"
  shows "fetch_summary (Reply 200 (Object \<lparr>ws_root = Val (ms_root s), ws_buckets = Val (ms_buckets s),
      ws_record_count = Val (int (ms_record_count s))\<rparr>)) = Inr s"
  using assms by (simp add: fetch_summary_def client_object_def client_request_def safe_json_object_def)

lemma bucket_over_wire:
  assumes "i < bucket_count"
  shows "fetch_bucket_hashes i (get_sync_bucket db w (int i)) = Inr (bucket_members (iter_hashes db w) i)"
proof -
  have "\<forall>h \<in> set (bucket_members (iter_hashes db w) i). starts_with ''z'' h"
    by (auto simp: bucket_for_hash_conv starts_with_def)
  then show ?thesis
    using assms by (simp add: fetch_bucket_hashes_def get_sync_bucket_def bucket_hashes_members client_object_def
        client_request_def safe_json_object_def filter_id_conv)
qed

end
