(* ===== verification/Gossip.thy ===== *)
theory Gossip
  imports Peer_Client
begin

text \<open>
  Models \<^verbatim>\<open>backend/app/crdt/gossip.py\<close> and the round loop of \<^verbatim>\<open>backend/app/workers/crdt_gossip.py\<close>:
  one pull-only reconciliation with a peer, record by record, with its report. The peer is any
  triple of reply functions. Times and log lines are not modelled. Theorems about what a round
  may do hold for every peer, honest or not; the convergence theorem is about a peer that
  answers with the handlers of \<^verbatim>\<open>memory_sync.py\<close>.
\<close>

section \<open>State of a round\<close>

datatype gossip_error =
    GossipClient client_error | GossipStore store_error | GossipSession | GossipSync sync_error

record gossip_report =
  gr_buckets_compared :: nat
  gr_buckets_divergent :: nat
  gr_hashes_missing_locally :: nat
  gr_records_fetched :: nat
  gr_records_persisted :: nat
  gr_skipped_unknown_workflow :: nat
  gr_skipped_invalid :: nat
  gr_skipped_duplicate :: nat
  gr_error :: "gossip_error option"
  gr_in_sync_before :: bool

definition new_report :: gossip_report where
  "new_report = \<lparr>gr_buckets_compared = 0, gr_buckets_divergent = 0, gr_hashes_missing_locally = 0,
     gr_records_fetched = 0, gr_records_persisted = 0, gr_skipped_unknown_workflow = 0,
     gr_skipped_invalid = 0, gr_skipped_duplicate = 0, gr_error = None, gr_in_sync_before = False\<rparr>"

record known_state =
  kn_workflow_ids :: "uuid set"
  kn_content_hashes :: "string set"

record gossip_state =
  gs_session :: db_session
  gs_known :: known_state
  gs_report :: gossip_report

record peer =
  peer_summary :: "uuid option \<Rightarrow> wire_summary http_reply"
  peer_bucket :: "nat \<Rightarrow> uuid option \<Rightarrow> string option list wire http_reply"
  peer_fetch :: "string list \<Rightarrow> wire_record option list wire http_reply"

definition workflow_ids :: "node_db \<Rightarrow> uuid set" where
  "workflow_ids db = set (map wr_workflow_id (db_workflows db))"

section \<open>Helpers\<close>

function chunks :: "'a list \<Rightarrow> nat \<Rightarrow> 'a list list" where
  "chunks items n = (if items = [] \<or> n = 0 then [] else take n items # chunks (drop n items) n)"
  by pat_completeness auto
termination
  by (relation "measure (\<lambda>(items, n). length items)") auto

declare chunks.simps [simp del]

fun collect_missing_hashes :: "peer \<Rightarrow> db_session \<Rightarrow> uuid option \<Rightarrow> nat list \<Rightarrow> gossip_error + string list" where
  "collect_missing_hashes p s w [] = Inr []"
| "collect_missing_hashes p s w (idx # rest) =
     bindE (mapErr GossipClient (fetch_bucket_hashes idx (peer_bucket p idx w))) (\<lambda>peer_hashes.
       if peer_hashes = [] then collect_missing_hashes p s w rest
       else if \<not> sess_active s then Inl GossipSession
       else bindE (mapErr GossipSync (bucket_hashes (sess_db s) w (int idx))) (\<lambda>local_hashes.
         bindE (collect_missing_hashes p s w rest) (\<lambda>missing.
           Inr (filter (\<lambda>h. h \<notin> set local_hashes) peer_hashes @ missing))))"

definition named_workflows :: "peer_record list \<Rightarrow> uuid set" where
  "named_workflows records = set (List.map_filter (\<lambda>r. parse_uuid (pr_workflow_id r))
     (filter (\<lambda>r. pr_workflow_id r \<noteq> []) records))"

definition extend_known :: "db_session \<Rightarrow> peer_record list \<Rightarrow> known_state \<Rightarrow> gossip_error + known_state" where
  "extend_known s records known =
     (let unseen_hashes = (set (map pr_content_hash records) - {[]}) - kn_content_hashes known;
          unseen_workflows = named_workflows records - kn_workflow_ids known
      in if \<not> sess_active s \<and> (unseen_hashes \<noteq> {} \<or> unseen_workflows \<noteq> {}) then Inl GossipSession
         else Inr
           \<lparr>kn_workflow_ids = kn_workflow_ids known \<union> (unseen_workflows \<inter> workflow_ids (sess_db s)),
            kn_content_hashes = kn_content_hashes known \<union> (unseen_hashes \<inter> set (hashes_of (sess_db s)))\<rparr>)"

definition shadow_workflow :: "uuid \<Rightarrow> peer_record \<Rightarrow> workflow_row" where
  "shadow_workflow w record =
     \<lparr>wr_workflow_id = w, wr_user_id = ''federation-gossip'',
      wr_prompt = ''shadow workflow for federated record '' @ utf8_take 12 (pr_content_hash record),
      wr_status = WfPaused, wr_budget_limit = 0\<rparr>"

definition add_workflow :: "workflow_row \<Rightarrow> node_db \<Rightarrow> node_db" where
  "add_workflow row db = db\<lparr>db_workflows := db_workflows db @ [row]\<rparr>"

text \<open>
  A concurrent insert of the same workflow makes the flush fail; the code then rolls the whole
  session back, so that it sees the state at the start of its transaction and the new row.
\<close>

definition auto_shadow_workflow :: "db_env \<Rightarrow> db_session \<Rightarrow> uuid \<Rightarrow> peer_record \<Rightarrow> gossip_error + db_session" where
  "auto_shadow_workflow E s w record =
     (if \<not> sess_active s then Inl GossipSession
      else if w \<in> workflow_ids (sess_db s) then Inr s
      else case env_shadow_race E w of
        Some row \<Rightarrow>
          let db = add_workflow row (sess_start s) in Inr (s\<lparr>sess_start := db, sess_db := db\<rparr>)
      | None \<Rightarrow> Inr (s\<lparr>sess_db := add_workflow (shadow_workflow w record) (sess_db s)\<rparr>))"

section \<open>One record\<close>

definition skip_invalid :: "gossip_state \<Rightarrow> gossip_state" where
  "skip_invalid g = g\<lparr>gs_report := (gs_report g)\<lparr>gr_skipped_invalid := gr_skipped_invalid (gs_report g) + 1\<rparr>\<rparr>"

definition skip_unknown_workflow :: "gossip_state \<Rightarrow> gossip_state" where
  "skip_unknown_workflow g = g\<lparr>gs_report :=
     (gs_report g)\<lparr>gr_skipped_unknown_workflow := gr_skipped_unknown_workflow (gs_report g) + 1\<rparr>\<rparr>"

definition skip_duplicate :: "gossip_state \<Rightarrow> gossip_state" where
  "skip_duplicate g = g\<lparr>gs_report :=
     (gs_report g)\<lparr>gr_skipped_duplicate := gr_skipped_duplicate (gs_report g) + 1\<rparr>\<rparr>"

definition gossip_args :: "peer_record \<Rightarrow> uuid \<Rightarrow> uuid option \<Rightarrow> memory_type \<Rightarrow> put_args" where
  "gossip_args record w agent mt =
     \<lparr>pa_workflow_id = Some w, pa_memory_type = mt, pa_content = pr_content record,
      pa_confidence = pr_confidence record, pa_metadata = Some (pr_metadata record),
      pa_parent_hashes = Some (pr_parent_hashes record), pa_author_did = pr_author_did record,
      pa_source_agent_id = agent, pa_keypair = None,
      pa_precomputed_hash = Some (pr_content_hash record),
      pa_precomputed_signature = pr_signature record, pa_embedding = None, pa_version = 1,
      pa_parent_version_id = None, pa_expires_at = None,
      pa_record_state = (case parse_record_state (pr_record_state record) of None \<Rightarrow> ACTIVE | Some st \<Rightarrow> st)\<rparr>"

text \<open>The agent id of a record: \<open>Inl\<close> when it is there but is not a UUID.\<close>

definition parse_agent :: "peer_record \<Rightarrow> unit + uuid option" where
  "parse_agent record =
     (case nonempty_str (pr_source_agent_id record) of
        None \<Rightarrow> Inr None
      | Some a \<Rightarrow> (case parse_uuid a of None \<Rightarrow> Inl () | Some u \<Rightarrow> Inr (Some u)))"

definition store_peer_record ::
  "platform \<Rightarrow> db_env \<Rightarrow> peer_record \<Rightarrow> uuid \<Rightarrow> gossip_state \<Rightarrow> (gossip_error + bool) \<times> gossip_state" where
  "store_peer_record P E record w g =
     (if pr_content_hash record \<in> kn_content_hashes (gs_known g) then (Inr False, skip_duplicate g)
      else case parse_agent record of
        Inl _ \<Rightarrow> (Inr False, skip_invalid g)
      | Inr agent \<Rightarrow>
        (case parse_memory_type (pr_memory_type record) of
           None \<Rightarrow> (Inr False, skip_invalid g)
         | Some mt \<Rightarrow>
           (case put P E (gossip_args record w agent mt) (gs_session g) of
              (Inl e, s') \<Rightarrow>
                if is_crdt_store_error e then (Inr False, skip_invalid (g\<lparr>gs_session := s'\<rparr>))
                else (Inl (GossipStore e), g\<lparr>gs_session := s'\<rparr>)
            | (Inr _, s') \<Rightarrow>
                (Inr True, g\<lparr>gs_session := s', gs_known := (gs_known g)
                   \<lparr>kn_content_hashes := insert (pr_content_hash record) (kn_content_hashes (gs_known g))\<rparr>\<rparr>))))"

definition persist_peer_record ::
  "platform \<Rightarrow> db_env \<Rightarrow> peer_record \<Rightarrow> gossip_state \<Rightarrow> (gossip_error + bool) \<times> gossip_state" where
  "persist_peer_record P E record g =
     (if pr_workflow_id record = [] then (Inr False, skip_unknown_workflow g)
      else case parse_uuid (pr_workflow_id record) of
        None \<Rightarrow> (Inr False, skip_invalid g)
      | Some w \<Rightarrow>
          if w \<in> kn_workflow_ids (gs_known g) then store_peer_record P E record w g
          else (case auto_shadow_workflow E (gs_session g) w record of
             Inl e \<Rightarrow> (Inl e, g)
           | Inr s' \<Rightarrow>
               store_peer_record P E record w
                 (g\<lparr>gs_session := s', gs_known := (gs_known g)
                    \<lparr>kn_workflow_ids := insert w (kn_workflow_ids (gs_known g))\<rparr>\<rparr>)))"

section \<open>The round\<close>

definition count_persisted :: "gossip_state \<Rightarrow> gossip_state" where
  "count_persisted g = g\<lparr>gs_report := (gs_report g)\<lparr>gr_records_persisted := gr_records_persisted (gs_report g) + 1\<rparr>\<rparr>"

fun persist_records ::
  "platform \<Rightarrow> db_env \<Rightarrow> peer_record list \<Rightarrow> gossip_state \<Rightarrow> (gossip_error + unit) \<times> gossip_state" where
  "persist_records P E [] g = (Inr (), g)"
| "persist_records P E (r # rs) g =
     (case persist_peer_record P E r g of
        (Inl e, g') \<Rightarrow> (Inl e, g')
      | (Inr persisted, g') \<Rightarrow> persist_records P E rs (if persisted then count_persisted g' else g'))"

definition count_fetched :: "nat \<Rightarrow> gossip_state \<Rightarrow> gossip_state" where
  "count_fetched n g = g\<lparr>gs_report := (gs_report g)\<lparr>gr_records_fetched := gr_records_fetched (gs_report g) + n\<rparr>\<rparr>"

definition process_batch ::
  "platform \<Rightarrow> db_env \<Rightarrow> peer \<Rightarrow> string list \<Rightarrow> gossip_state \<Rightarrow> (gossip_error + unit) \<times> gossip_state" where
  "process_batch P E p batch g =
     (case client_fetch_records batch (peer_fetch p) of
        Inl e \<Rightarrow> (Inl (GossipClient e), g)
      | Inr records \<Rightarrow>
          let g1 = count_fetched (length records) g in
          case extend_known (gs_session g1) records (gs_known g1) of
            Inl e \<Rightarrow> (Inl e, g1)
          | Inr known \<Rightarrow> persist_records P E records (g1\<lparr>gs_known := known\<rparr>))"

fun process_batches ::
  "platform \<Rightarrow> db_env \<Rightarrow> peer \<Rightarrow> string list list \<Rightarrow> gossip_state \<Rightarrow> (gossip_error + unit) \<times> gossip_state" where
  "process_batches P E p [] g = (Inr (), g)"
| "process_batches P E p (b # bs) g =
     (case process_batch P E p b g of
        (Inl e, g') \<Rightarrow> (Inl e, g')
      | (Inr _, g') \<Rightarrow> process_batches P E p bs g')"

text \<open>The local summary: a cache miss needs a usable session.\<close>

definition local_summary ::
  "platform \<Rightarrow> bool \<Rightarrow> int \<Rightarrow> db_session \<Rightarrow> summary_cache \<Rightarrow> uuid option
     \<Rightarrow> gossip_error + (merkle_summary \<times> summary_cache)" where
  "local_summary P up now s cache w =
     (if \<not> sess_active s \<and> read_summary_cache up now cache (summary_cache_key w) = None then Inl GossipSession
      else Inr (summarise P up now (sess_db s) cache w))"

definition fail_report :: "gossip_error \<Rightarrow> gossip_state \<Rightarrow> gossip_state" where
  "fail_report e g = g\<lparr>gs_report := (gs_report g)\<lparr>gr_error := Some e\<rparr>\<rparr>"

definition reconcile_diverged ::
  "platform \<Rightarrow> db_env \<Rightarrow> peer \<Rightarrow> uuid option \<Rightarrow> nat list \<Rightarrow> gossip_state \<Rightarrow> gossip_state" where
  "reconcile_diverged P E p w divergent g =
     (case collect_missing_hashes p (gs_session g) w divergent of
        Inl e \<Rightarrow> fail_report e g
      | Inr missing \<Rightarrow>
          let g1 = g\<lparr>gs_report := (gs_report g)\<lparr>gr_hashes_missing_locally := length missing\<rparr>\<rparr> in
          if missing = [] then g1
          else case process_batches P E p (chunks missing 100) g1 of
                 (Inl e, g2) \<Rightarrow> fail_report e g2
               | (Inr _, g2) \<Rightarrow> g2)"

definition start_state :: "db_session \<Rightarrow> gossip_state" where
  "start_state s = \<lparr>gs_session = s, gs_known = \<lparr>kn_workflow_ids = {}, kn_content_hashes = {}\<rparr>, gs_report = new_report\<rparr>"

definition reconcile_with ::
  "platform \<Rightarrow> db_env \<Rightarrow> bool \<Rightarrow> int \<Rightarrow> peer \<Rightarrow> uuid option \<Rightarrow> db_session \<Rightarrow> summary_cache
     \<Rightarrow> gossip_report \<times> db_session \<times> summary_cache" where
  "reconcile_with P E up now p w s cache =
     (let g = start_state s in
      case local_summary P up now s cache w of
        Inl e \<Rightarrow> (gs_report (fail_report e g), s, cache)
      | Inr (ours, cache') \<Rightarrow>
          (case fetch_summary (peer_summary p w) of
             Inl e \<Rightarrow> (gs_report (fail_report (GossipClient e) g), s, cache')
           | Inr theirs \<Rightarrow>
               let g1 = g\<lparr>gs_report := (gs_report g)\<lparr>gr_buckets_compared := length (ms_buckets ours)\<rparr>\<rparr> in
               if ms_root ours = ms_root theirs
               then ((gs_report g1)\<lparr>gr_in_sync_before := True\<rparr>, s, cache')
               else
                 let divergent = diverges_from ours theirs;
                     g2 = g1\<lparr>gs_report := (gs_report g1)\<lparr>gr_buckets_divergent := length divergent\<rparr>\<rparr> in
                 if divergent = [] then ((gs_report g2)\<lparr>gr_in_sync_before := True\<rparr>, s, cache')
                 else let g3 = reconcile_diverged P E p w divergent g2
                      in (gs_report g3, gs_session g3, cache')))"

text \<open>
  The worker: a round per target, each followed by a commit. Committing a session that a failed
  flush has deactivated raises, and the task ends there with a rollback (\<open>None\<close> in front).
\<close>

fun run_crdt_gossip ::
  "platform \<Rightarrow> db_env \<Rightarrow> bool \<Rightarrow> int \<Rightarrow> peer list \<Rightarrow> db_session \<Rightarrow> summary_cache
     \<Rightarrow> gossip_report list option \<times> db_session \<times> summary_cache" where
  "run_crdt_gossip P E up now [] s cache = (Some [], s, cache)"
| "run_crdt_gossip P E up now (p # ps) s cache =
     (let (report, s', cache') = reconcile_with P E up now p None s cache in
      if \<not> sess_active s'
      then (None, s'\<lparr>sess_db := sess_start s', sess_active := True\<rparr>, cache')
      else let (reports, s'', cache'') =
             run_crdt_gossip P E up now ps (s'\<lparr>sess_start := sess_db s'\<rparr>) cache'
           in (map_option (\<lambda>rs. report # rs) reports, s'', cache''))"

section \<open>What any peer can do to the session\<close>

text \<open>
  A round touches the session only through \<open>put\<close> and the shadow workflows; a property of the
  session that both keep is kept by the round, whatever the peer answers.
\<close>

locale session_property =
  fixes P :: platform and E :: db_env and Q :: "db_session \<Rightarrow> bool"
  assumes put_keeps: "Q s \<Longrightarrow> Q (snd (put P E (gossip_args r w agent mt) s))"
    and shadow_keeps: "Q s \<Longrightarrow> auto_shadow_workflow E s w r = Inr s' \<Longrightarrow> Q s'"
begin

lemma skips_session [simp]:
  "gs_session (skip_invalid g) = gs_session g" "gs_session (skip_duplicate g) = gs_session g"
  "gs_session (skip_unknown_workflow g) = gs_session g" "gs_session (count_persisted g) = gs_session g"
  "gs_session (count_fetched n g) = gs_session g" "gs_session (fail_report e g) = gs_session g"
  by (simp_all add: skip_invalid_def skip_duplicate_def skip_unknown_workflow_def count_persisted_def
      count_fetched_def fail_report_def)

lemma store_keeps:
  assumes "Q (gs_session g)"
  shows "Q (gs_session (snd (store_peer_record P E r w g)))"
proof -
  have "Q s'" if "put P E (gossip_args r w agent mt) (gs_session g) = (res, s')" for agent mt res s'
    using put_keeps[OF assms, of r w agent mt] that by simp
  with assms show ?thesis by (auto simp: store_peer_record_def split: sum.splits option.splits prod.splits)
qed

lemma persist_keeps: "Q (gs_session g) \<Longrightarrow> Q (gs_session (snd (persist_peer_record P E r g)))"
  using shadow_keeps
  by (auto simp: persist_peer_record_def split: option.splits sum.splits intro!: store_keeps)

lemma records_keep: "Q (gs_session g) \<Longrightarrow> Q (gs_session (snd (persist_records P E rs g)))"
proof (induction rs arbitrary: g)
  case (Cons r rs)
  obtain res g' where p: "persist_peer_record P E r g = (res, g')" by fastforce
  have "Q (gs_session g')" using persist_keeps[OF Cons.prems, of r] p by simp
  with Cons.IH p show ?case by (cases res) auto
qed simp

lemma batch_keeps: "Q (gs_session g) \<Longrightarrow> Q (gs_session (snd (process_batch P E p b g)))"
  by (auto simp: process_batch_def Let_def split: sum.splits intro!: records_keep)

lemma batches_keep: "Q (gs_session g) \<Longrightarrow> Q (gs_session (snd (process_batches P E p bs g)))"
proof (induction bs arbitrary: g)
  case (Cons b bs)
  obtain res g' where r: "process_batch P E p b g = (res, g')" by fastforce
  have "Q (gs_session g')" using batch_keeps[OF Cons.prems, of p b] r by simp
  with Cons.IH r show ?case by (cases res) auto
qed simp

lemma diverged_keeps: "Q (gs_session g) \<Longrightarrow> Q (gs_session (reconcile_diverged P E p w dv g))"
proof -
  assume q: "Q (gs_session g)"
  have "Q (gs_session g2)"
    if "process_batches P E p (chunks missing 100) (g\<lparr>gs_report := rep\<rparr>) = (res, g2)" for missing rep res g2
    using batches_keep[of "g\<lparr>gs_report := rep\<rparr>" p "chunks missing 100"] q that by simp
  with q show ?thesis
    by (auto simp: reconcile_diverged_def Let_def split: sum.splits prod.splits)
qed

lemma reconcile_keeps:
  assumes "Q s"
  shows "Q (fst (snd (reconcile_with P E up now p w s cache)))"
proof -
  have "Q (gs_session (reconcile_diverged P E p w dv (start_state s\<lparr>gs_report := rep\<rparr>)))" for dv rep
    by (rule diverged_keeps) (use assms in \<open>simp add: start_state_def\<close>)
  with assms show ?thesis
    by (auto simp: reconcile_with_def Let_def split: sum.splits prod.splits)
qed

end

text \<open>A row that a round may add: addressed by its content, and signed by its author if signed.\<close>

definition peer_row_ok :: "platform \<Rightarrow> memory_record \<Rightarrow> bool" where
  "peer_row_ok P r \<longleftrightarrow> (\<exists>h. mr_content_hash r = Some h \<and> compute_content_hash P (row_body r) = Inr h)
     \<and> (\<forall>sg. mr_signature r = Some sg \<longrightarrow> author_signed P (row_body r) sg)"

definition rows_from :: "platform \<Rightarrow> db_env \<Rightarrow> memory_record set \<Rightarrow> db_session \<Rightarrow> bool" where
  "rows_from P E base s \<longleftrightarrow>
     (\<forall>r \<in> set (db_memory (sess_db s)) \<union> set (db_memory (sess_start s)).
        r \<in> base \<or> (\<exists>x. r \<in> set (env_race E x)) \<or> peer_row_ok P r)"

lemma resolve_gossip_row:
  assumes "resolve_hash_and_signature P (put_body (gossip_args r w agent mt)) None (Some (pr_content_hash r))
      (pr_signature r) = Inr (h, sg)"
  shows "peer_row_ok P (put_row (gossip_args r w agent mt) i h sg)"
proof -
  have "h \<noteq> None" using assms resolve_none by (cases h) fastforce+
  then obtain h' where h: "h = Some h'" by auto
  have "author_signed P (put_body (gossip_args r w agent mt)) x" if "sg = Some x" for x
  proof (cases "pr_signature r")
    case None
    then show ?thesis using assms that
      by (auto simp: resolve_hash_and_signature_def resolve_unsigned_def bindE_Inr_conv split: if_splits option.splits)
  next
    case (Some ps)
    then show ?thesis using resolve_supplied(1,2) assms that by fastforce
  qed
  then show ?thesis using assms h resolve_hash(1) by (auto simp: peer_row_ok_def)
qed

lemma db_memory_add_workflow [simp]: "db_memory (add_workflow row db) = db_memory db"
  by (simp add: add_workflow_def)

lemma hashes_of_add_workflow [simp]: "hashes_of (add_workflow row db) = hashes_of db"
  by (simp add: hashes_of_def)

lemma auto_shadow_memory:
  assumes "auto_shadow_workflow E s w r = Inr s'"
  shows "set (db_memory (sess_db s')) \<union> set (db_memory (sess_start s'))
      \<subseteq> set (db_memory (sess_db s)) \<union> set (db_memory (sess_start s))"
    "sess_inv P s \<Longrightarrow> sess_inv P s'"
  using assms
  by (auto simp: auto_shadow_workflow_def sess_inv_def db_inv_def Let_def split: if_splits option.splits)

lemma insert_row_all_rows:
  assumes "insert_row E s r = (res, s')"
  shows "set (db_memory (sess_db s')) \<union> set (db_memory (sess_start s'))
      \<subseteq> set (db_memory (sess_db s)) \<union> set (db_memory (sess_start s)) \<union> {r}"
proof (cases "sess_active s")
  case True
  with insert_row_rows[OF assms] show ?thesis by auto
next
  case False
  with assms show ?thesis by (auto simp: insert_row_def)
qed

lemma rows_from_put:
  assumes "rows_from P E base s"
  shows "rows_from P E base (snd (put P E (gossip_args r w agent mt) s))"
proof -
  obtain res s' where p: "put P E (gossip_args r w agent mt) s = (res, s')" by fastforce
  from p have "rows_from P E base s'"
  proof (cases rule: put_cases)
    case (insert h sg q)
    have "peer_row_ok P q" using insert(1,3) resolve_gossip_row by (simp add: gossip_args_def)
    moreover have "set (db_memory (sess_db s')) \<union> set (db_memory (sess_start s'))
        \<subseteq> set (db_memory (sess_db s)) \<union> set (db_memory (sess_start s)) \<union> set (env_race E q) \<union> {q}"
      using insert_row_all_rows[OF insert(4)] by auto
    ultimately show ?thesis using assms unfolding rows_from_def by blast
  qed (use assms in auto)
  with p show ?thesis by simp
qed

interpretation gossip_rows: session_property P E "rows_from P E base" for P E base
proof
  fix s r w agent mt assume "rows_from P E base s"
  then show "rows_from P E base (snd (put P E (gossip_args r w agent mt) s))" by (rule rows_from_put)
next
  fix s w r s' assume "rows_from P E base s" "auto_shadow_workflow E s w r = Inr s'"
  then show "rows_from P E base s'" using auto_shadow_memory(1) unfolding rows_from_def by blast
qed

interpretation gossip_inv: session_property P E "\<lambda>s. races_ok P E \<and> sess_inv P s" for P E
  by unfold_locales (auto intro: put_keeps_inv auto_shadow_memory(2))


section \<open>The report adds up\<close>

definition accounted :: "gossip_report \<Rightarrow> nat" where
  "accounted rep = gr_records_persisted rep + gr_skipped_unknown_workflow rep + gr_skipped_invalid rep
     + gr_skipped_duplicate rep"

lemmas report_simps = skip_invalid_def skip_duplicate_def skip_unknown_workflow_def count_persisted_def
  count_fetched_def fail_report_def accounted_def

definition accounts :: "gossip_state \<Rightarrow> gossip_error + bool \<Rightarrow> gossip_state \<Rightarrow> bool" where
  "accounts g res g' \<longleftrightarrow> gr_records_fetched (gs_report g') = gr_records_fetched (gs_report g)
     \<and> (case res of
          Inl _ \<Rightarrow> accounted (gs_report g') = accounted (gs_report g)
        | Inr b \<Rightarrow> accounted (gs_report g') + (if b then 1 else 0) = accounted (gs_report g) + 1)"

lemma accounts_cong: "gs_report g = gs_report h \<Longrightarrow> accounts g res g' = accounts h res g'"
  by (cases res) (simp_all add: accounts_def)

lemma accounts_skips [simp]:
  "accounts g (Inr False) (skip_invalid g)" "accounts g (Inr False) (skip_duplicate g)"
  "accounts g (Inr False) (skip_unknown_workflow g)"
  "accounts g (Inr False) (skip_invalid (g\<lparr>gs_session := s\<rparr>))" "accounts g (Inl e) (g\<lparr>gs_session := s\<rparr>)"
  "accounts g (Inr True) (g\<lparr>gs_session := s, gs_known := k\<rparr>)" "accounts g (Inl e) g"
  by (simp_all add: accounts_def report_simps)

lemma store_accounts: "store_peer_record P E r w g = (res, g') \<Longrightarrow> accounts g res g'"
  unfolding store_peer_record_def
  by (simp split: if_splits sum.splits option.splits prod.splits) (auto simp: accounts_skips)

lemma persist_accounts:
  assumes "persist_peer_record P E r g = (res, g')"
  shows "accounts g res g'"
proof (cases "parse_uuid (pr_workflow_id r)")
  case None
  with assms show ?thesis by (auto simp: persist_peer_record_def split: if_splits)
next
  case (Some w)
  show ?thesis
  proof (cases "pr_workflow_id r = [] \<or> w \<in> kn_workflow_ids (gs_known g)")
    case True
    with Some assms store_accounts[of P E r w g res g'] show ?thesis
      by (auto simp: persist_peer_record_def split: if_splits)
  next
    case False
    then show ?thesis
    proof (cases "auto_shadow_workflow E (gs_session g) w r")
      case (Inr s')
      let ?g = "g\<lparr>gs_session := s', gs_known := (gs_known g)\<lparr>kn_workflow_ids := insert w (kn_workflow_ids (gs_known g))\<rparr>\<rparr>"
      have "store_peer_record P E r w ?g = (res, g')" using assms Some False Inr by (simp add: persist_peer_record_def)
      then have "accounts ?g res g'" by (rule store_accounts)
      then show ?thesis by (subst accounts_cong[of g ?g]) simp_all
    qed (use assms Some False in \<open>auto simp: persist_peer_record_def\<close>)
  qed
qed

lemma records_account:
  "persist_records P E rs g = (res, g') \<Longrightarrow>
     gr_records_fetched (gs_report g') = gr_records_fetched (gs_report g)
     \<and> accounted (gs_report g') \<le> accounted (gs_report g) + length rs
     \<and> (is_ok res \<longrightarrow> accounted (gs_report g') = accounted (gs_report g) + length rs)"
proof (induction rs arbitrary: g)
  case (Cons r rs)
  obtain res1 g1 where p: "persist_peer_record P E r g = (res1, g1)" by fastforce
  show ?case
  proof (cases res1)
    case (Inl e)
    with Cons.prems p persist_accounts[OF p] show ?thesis by (auto simp: accounts_def)
  next
    case (Inr b)
    let ?g = "if b then count_persisted g1 else g1"
    have "persist_records P E rs ?g = (res, g')" using Cons.prems p Inr by simp
    moreover have "accounted (gs_report ?g) = accounted (gs_report g) + 1"
      "gr_records_fetched (gs_report ?g) = gr_records_fetched (gs_report g)"
      using persist_accounts[OF p] Inr by (auto simp: accounts_def count_persisted_def accounted_def)
    ultimately show ?thesis using Cons.IH[of ?g] by auto
  qed
qed auto

definition balanced :: "gossip_error + unit \<Rightarrow> gossip_state \<Rightarrow> bool" where
  "balanced res g \<longleftrightarrow> accounted (gs_report g) \<le> gr_records_fetched (gs_report g)
     \<and> (is_ok res \<longrightarrow> accounted (gs_report g) = gr_records_fetched (gs_report g))"

lemma batch_balanced:
  assumes "process_batch P E p b g = (res, g')" "balanced (Inr ()) g"
  shows "balanced res g'"
proof (cases "client_fetch_records b (peer_fetch p)")
  case (Inl e)
  with assms show ?thesis by (auto simp: process_batch_def balanced_def)
next
  case (Inr records)
  let ?g1 = "count_fetched (length records) g"
  have c: "accounted (gs_report ?g1) = accounted (gs_report g)"
    "gr_records_fetched (gs_report ?g1) = gr_records_fetched (gs_report g) + length records"
    by (simp_all add: count_fetched_def accounted_def)
  show ?thesis
  proof (cases "extend_known (gs_session ?g1) records (gs_known ?g1)")
    case Inl
    with assms Inr c show ?thesis by (auto simp: process_batch_def balanced_def)
  next
    case (Inr known)
    then have "persist_records P E records (?g1\<lparr>gs_known := known\<rparr>) = (res, g')"
      using assms(1) \<open>client_fetch_records b (peer_fetch p) = Inr records\<close> by (simp add: process_batch_def Let_def)
    with assms(2) c show ?thesis by (auto simp: balanced_def dest!: records_account)
  qed
qed

lemma batches_balanced:
  "process_batches P E p bs g = (res, g') \<Longrightarrow> balanced (Inr ()) g \<Longrightarrow> balanced res g'"
proof (induction bs arbitrary: g)
  case (Cons b bs)
  obtain res1 g1 where p: "process_batch P E p b g = (res1, g1)" by fastforce
  have bal: "balanced res1 g1" using batch_balanced[OF p Cons.prems(2)] .
  show ?case
  proof (cases res1)
    case Inl
    with Cons.prems(1) p bal show ?thesis by auto
  next
    case (Inr u)
    with bal have "balanced (Inr ()) g1" by (simp add: balanced_def)
    with Cons.IH Cons.prems(1) p Inr show ?thesis by simp
  qed
qed simp

lemma diverged_balanced:
  assumes "balanced (Inr ()) g"
  shows "balanced (case gr_error (gs_report (reconcile_diverged P E p w dv g)) of None \<Rightarrow> Inr () | Some e \<Rightarrow> Inl e)
           (reconcile_diverged P E p w dv g)"
proof (cases "collect_missing_hashes p (gs_session g) w dv")
  case (Inl e)
  with assms show ?thesis by (simp add: reconcile_diverged_def balanced_def fail_report_def accounted_def)
next
  case (Inr missing)
  let ?g1 = "g\<lparr>gs_report := (gs_report g)\<lparr>gr_hashes_missing_locally := length missing\<rparr>\<rparr>"
  have b1: "balanced (Inr ()) ?g1" using assms by (simp add: balanced_def accounted_def)
  obtain res g2 where b: "process_batches P E p (chunks missing 100) ?g1 = (res, g2)" by fastforce
  have b2: "balanced res g2" using batches_balanced[OF b b1] .
  have r: "reconcile_diverged P E p w dv g =
      (if missing = [] then ?g1 else case res of Inl e \<Rightarrow> fail_report e g2 | Inr _ \<Rightarrow> g2)"
    using Inr b by (auto simp: reconcile_diverged_def Let_def split: sum.splits)
  show ?thesis
    unfolding r using b1 b2
    by (cases res) (auto simp: balanced_def fail_report_def accounted_def split: option.splits)
qed

text \<open>The counters of a report add up: in a round without error every fetched record is
  counted exactly once, as persisted or as skipped for one reason, and never more records
  are counted than were fetched.\<close>

theorem gossip_report_adds_up:
  assumes "reconcile_with P E up now p w s cache = (report, s', cache')"
  shows "accounted report \<le> gr_records_fetched report
    \<and> (gr_error report = None \<longrightarrow> accounted report = gr_records_fetched report)"
proof -
  have start: "balanced (Inr ()) (start_state s\<lparr>gs_report := new_report\<lparr>gr_buckets_compared := n, gr_buckets_divergent := m\<rparr>\<rparr>)" for n m
    by (simp add: balanced_def start_state_def new_report_def accounted_def)
  show ?thesis
    using assms diverged_balanced[OF start]
    by (auto simp: reconcile_with_def Let_def start_state_def new_report_def fail_report_def accounted_def
        balanced_def split: sum.splits prod.splits if_splits option.splits)
qed

section \<open>A malformed author ends the round\<close>

text \<open>A record whose declared author is not a DID at all is not skipped as invalid: the
  exception is not one of the store's, so the round stops there and the records after it are
  not processed.\<close>

theorem malformed_author_aborts:
  assumes "parse_did did = Inl e" and "pr_author_did r = Some did" and "pr_signature r = Some sg"
    and "parse_uuid (pr_workflow_id r) = Some w" and "pr_workflow_id r \<noteq> []" and "w \<in> kn_workflow_ids (gs_known g)"
    and "pr_content_hash r \<notin> kn_content_hashes (gs_known g)" and "parse_agent r = Inr agent"
    and "parse_memory_type (pr_memory_type r) = Some mt"
    and "compute_content_hash P (put_body (gossip_args r w agent mt)) = Inr (pr_content_hash r)"
  shows "persist_records P E (r # rs) g = (Inl (GossipStore (StoreDid e)), g)"
proof -
  let ?a = "gossip_args r w agent mt"
  have "cb_author_did (put_body ?a) = Some did"
    using assms(2) by (simp add: put_body_def build_canonical_body_def gossip_args_def)
  then have "verify_supplied P (put_body ?a) sg = Inl (StoreDid e)"
    using assms(1) by (simp add: verify_supplied_def public_key_for_did_def)
  then have "put P E ?a (gs_session g) = (Inl (StoreDid e), gs_session g)"
    using assms(3,10) by (simp add: put_def resolve_hash_and_signature_def) (simp add: gossip_args_def)
  with assms show ?thesis by (simp add: persist_peer_record_def store_peer_record_def)
qed

section \<open>Convergence with an honest peer\<close>

text \<open>A peer that answers with the handlers of \<^verbatim>\<open>memory_sync.py\<close> over the tables \<open>d\<close>.\<close>

definition honest_peer :: "platform \<Rightarrow> int \<Rightarrow> node_db \<Rightarrow> peer" where
  "honest_peer P now d =
     \<lparr>peer_summary = (\<lambda>w. fst (get_sync_summary P True now d [] w)),
      peer_bucket = (\<lambda>i w. get_sync_bucket d w (int i)),
      peer_fetch = fetch_records_by_hash d\<rparr>"

text \<open>
  A record the local node can take over: it can be served, its optional texts are not empty
  strings, its signature (if any) is its author's, its agent is known here and its row is
  within the column limits.
\<close>

definition federable :: "platform \<Rightarrow> db_env \<Rightarrow> uuid list \<Rightarrow> memory_record \<Rightarrow> bool" where
  "federable P E agents r \<longleftrightarrow>
     servable r \<and> mr_author_did r \<noteq> Some [] \<and> mr_signature r \<noteq> Some []
     \<and> (\<forall>sg. mr_signature r = Some sg \<longrightarrow> verify_supplied P (row_body r) sg = Inr sg)
     \<and> fk_ok (mr_source_agent_id r) agents
     \<and> (\<forall>a i h sg. put_body a = row_body r \<longrightarrow> env_row_ok E (put_row a i h sg))"

definition gossip_ready :: "db_env \<Rightarrow> uuid list \<Rightarrow> gossip_state \<Rightarrow> bool" where
  "gossip_ready E agents g \<longleftrightarrow> delivery_inv E (gs_session g)
     \<and> kn_workflow_ids (gs_known g) \<subseteq> workflow_ids (sess_db (gs_session g))
     \<and> kn_content_hashes (gs_known g) \<subseteq> set (hashes_of (sess_db (gs_session g)))
     \<and> db_agents (sess_db (gs_session g)) = agents
     \<and> gr_error (gs_report g) = None"

definition local_hashes :: "gossip_state \<Rightarrow> string set" where
  "local_hashes g = set (hashes_of (sess_db (gs_session g)))"

lemma parse_agent_as_peer [simp]: "parse_agent (as_peer_record r) = Inr (mr_source_agent_id r)"
  by (cases "mr_source_agent_id r") (simp_all add: parse_agent_def as_peer_record_def nonempty_str_def)

lemma nonempty_str_id: "x \<noteq> Some [] \<Longrightarrow> nonempty_str x = x"
  by (cases x) (simp_all add: nonempty_str_def)

lemma gossip_args_body:
  assumes "federable P E agents r" "mr_workflow_id r = Some w"
  shows "put_body (gossip_args (as_peer_record r) w (mr_source_agent_id r) (mr_memory_type r)) = row_body r"
  using assms
  by (simp add: put_body_def row_body_def gossip_args_def as_peer_record_def nonempty_str_id federable_def)

lemma federable_storable:
  assumes fed: "federable P E agents r" and r: "mr_record_state r = ACTIVE" "mr_workflow_id r = Some w"
      "mr_content_hash r = Some h" "compute_content_hash P (row_body r) = Inr h"
    and s: "db_agents (sess_db s) = agents" "w \<in> workflow_ids (sess_db s)"
  shows "storable P E s (gossip_args (as_peer_record r) w (mr_source_agent_id r) (mr_memory_type r))"
    "put_address P (gossip_args (as_peer_record r) w (mr_source_agent_id r) (mr_memory_type r)) = h"
proof -
  let ?a = "gossip_args (as_peer_record r) w (mr_source_agent_id r) (mr_memory_type r)"
  have body: "put_body ?a = row_body r" by (rule gossip_args_body[OF fed r(2)])
  have fields: "pa_keypair ?a = None" "pa_precomputed_hash ?a = Some h" "pa_precomputed_signature ?a = mr_signature r"
    "pa_record_state ?a = ACTIVE" "pa_workflow_id ?a = Some w" "pa_source_agent_id ?a = mr_source_agent_id r"
    "pa_parent_version_id ?a = None"
    using fed r parse_record_state_value[of ACTIVE]
    by (simp_all add: gossip_args_def as_peer_record_def nonempty_str_id federable_def)
  have "\<exists>sg. resolve_hash_and_signature P (put_body ?a) None (Some h) (mr_signature r) = Inr (Some h, sg)"
    using fed r(4) unfolding body
    by (cases "mr_signature r") (auto simp: resolve_hash_and_signature_def resolve_unsigned_def federable_def)
  moreover have "env_row_ok E (put_row ?a i (Some h) sg)" for i sg
    using fed body by (simp add: federable_def)
  ultimately show "storable P E s ?a"
    using fed s by (auto simp: storable_def fields fk_ok_def federable_def workflow_ids_def)
  show "put_address P ?a = h" using r(4) by (simp add: put_address_def body)
qed

lemma store_federable:
  assumes g: "gossip_ready E agents g" and fed: "federable P E agents r"
    and r: "mr_record_state r = ACTIVE" "mr_workflow_id r = Some w" "mr_content_hash r = Some h"
      "compute_content_hash P (row_body r) = Inr h"
    and w: "w \<in> workflow_ids (sess_db (gs_session g))"
  shows "\<exists>b g'. store_peer_record P E (as_peer_record r) w g = (Inr b, g') \<and> gossip_ready E agents g'
     \<and> local_hashes g' = insert h (local_hashes g)"
proof (cases "h \<in> kn_content_hashes (gs_known g)")
  case True
  then have "store_peer_record P E (as_peer_record r) w g = (Inr False, skip_duplicate g)"
    using r(3) by (simp add: store_peer_record_def) (simp add: as_peer_record_def)
  then show ?thesis
    using g True by (auto simp: gossip_ready_def local_hashes_def skip_duplicate_def)
next
  case False
  let ?a = "gossip_args (as_peer_record r) w (mr_source_agent_id r) (mr_memory_type r)"
  have agents: "db_agents (sess_db (gs_session g)) = agents" using g by (simp add: gossip_ready_def)
  have inv: "delivery_inv E (gs_session g)" using g by (simp add: gossip_ready_def)
  note st = federable_storable[OF fed r agents w]
  obtain q s' where put: "put P E ?a (gs_session g) = (Inr q, s')" "mr_content_hash q = Some h"
    and s': "s' = gs_session g \<and> h \<in> local_hashes g
       \<or> s' = (gs_session g)\<lparr>sess_db := add_rows [q] (sess_db (gs_session g))\<rparr>"
    using put_storable[OF inv st(1)] by (auto simp: st(2) local_hashes_def)
  let ?g' = "g\<lparr>gs_session := s', gs_known := (gs_known g)\<lparr>kn_content_hashes := insert h (kn_content_hashes (gs_known g))\<rparr>\<rparr>"
  have "store_peer_record P E (as_peer_record r) w g = (Inr True, ?g')"
    using False put(1) r(3)
    by (simp add: store_peer_record_def) (simp add: as_peer_record_def)
  moreover have "delivery_inv E s'" using crdt.deliver_inv[OF inv st(1)] put(1) by simp
  ultimately show ?thesis
    using g s' put(2) by (auto simp: gossip_ready_def local_hashes_def workflow_ids_def)
qed

lemma persist_federable:
  assumes g: "gossip_ready E agents g" and fed: "federable P E agents r"
    and r: "mr_record_state r = ACTIVE" "mr_content_hash r = Some h" "compute_content_hash P (row_body r) = Inr h"
  shows "\<exists>b g'. persist_peer_record P E (as_peer_record r) g = (Inr b, g') \<and> gossip_ready E agents g'
     \<and> local_hashes g' = insert h (local_hashes g)"
proof -
  obtain w where w: "mr_workflow_id r = Some w" using fed by (auto simp: federable_def servable_def)
  have wid: "pr_workflow_id (as_peer_record r) = str_uuid w" using w by (simp add: as_peer_record_def)
  show ?thesis
  proof (cases "w \<in> kn_workflow_ids (gs_known g)")
    case True
    then have "w \<in> workflow_ids (sess_db (gs_session g))" using g by (auto simp: gossip_ready_def)
    from store_federable[OF g fed r(1) w r(2,3) this] True wid show ?thesis
      by (simp add: persist_peer_record_def)
  next
    case False
    let ?s = "gs_session g"
    let ?s' = "if w \<in> workflow_ids (sess_db ?s) then ?s
      else ?s\<lparr>sess_db := add_workflow (shadow_workflow w (as_peer_record r)) (sess_db ?s)\<rparr>"
    let ?g' = "g\<lparr>gs_session := ?s', gs_known := (gs_known g)\<lparr>kn_workflow_ids := insert w (kn_workflow_ids (gs_known g))\<rparr>\<rparr>"
    have sh: "auto_shadow_workflow E ?s w (as_peer_record r) = Inr ?s'"
      using g by (simp add: auto_shadow_workflow_def gossip_ready_def delivery_inv_def quiet_env_def)
    have g': "gossip_ready E agents ?g'" "local_hashes ?g' = local_hashes g"
        "w \<in> workflow_ids (sess_db (gs_session ?g'))"
      using g by (auto simp: gossip_ready_def delivery_inv_def all_active_def local_hashes_def workflow_ids_def
          add_workflow_def shadow_workflow_def hashes_of_def)
    show ?thesis
      using store_federable[OF g'(1) fed r(1) w r(2,3) g'(3)] g'(2) False wid sh
      by (simp add: persist_peer_record_def)
  qed
qed

definition takes_over :: "platform \<Rightarrow> db_env \<Rightarrow> uuid list \<Rightarrow> memory_record \<Rightarrow> bool" where
  "takes_over P E agents r \<longleftrightarrow> federable P E agents r \<and> mr_record_state r = ACTIVE
     \<and> (\<exists>h. mr_content_hash r = Some h \<and> compute_content_hash P (row_body r) = Inr h)"

lemma persist_records_federable:
  assumes "gossip_ready E agents g" "\<forall>r \<in> set rs. takes_over P E agents r"
  shows "\<exists>g'. persist_records P E (map as_peer_record rs) g = (Inr (), g') \<and> gossip_ready E agents g'
     \<and> local_hashes g' = local_hashes g \<union> (the \<circ> mr_content_hash) ` set rs"
  using assms
proof (induction rs arbitrary: g)
  case (Cons r rs)
  obtain h where h: "mr_content_hash r = Some h" "compute_content_hash P (row_body r) = Inr h"
      "federable P E agents r" "mr_record_state r = ACTIVE"
    using Cons.prems(2) by (auto simp: takes_over_def)
  obtain b g1 where g1: "persist_peer_record P E (as_peer_record r) g = (Inr b, g1)" "gossip_ready E agents g1"
      "local_hashes g1 = insert h (local_hashes g)"
    using persist_federable[OF Cons.prems(1) h(3,4,1,2)] by blast
  let ?g = "if b then count_persisted g1 else g1"
  have "gossip_ready E agents ?g" "local_hashes ?g = local_hashes g1"
    using g1(2) by (auto simp: gossip_ready_def local_hashes_def count_persisted_def)
  moreover have "\<forall>r \<in> set rs. takes_over P E agents r" using Cons.prems(2) by simp
  ultimately obtain g' where "persist_records P E (map as_peer_record rs) ?g = (Inr (), g')" "gossip_ready E agents g'"
      "local_hashes g' = local_hashes g1 \<union> (the \<circ> mr_content_hash) ` set rs"
    using Cons.IH[of ?g] by auto
  with g1 h(1) show ?case by (intro exI[of _ g']) simp
qed simp

lemma concat_chunks: "0 < n \<Longrightarrow> concat (chunks xs n) = xs"
proof (induction xs n rule: chunks.induct)
  case (1 xs n)
  then show ?case by (subst chunks.simps) auto
qed

lemma chunks_bounds: "c \<in> set (chunks xs n) \<Longrightarrow> c \<noteq> [] \<and> length c \<le> n"
proof (induction xs n rule: chunks.induct)
  case (1 xs n)
  then show ?case by (subst (asm) chunks.simps) (auto split: if_splits)
qed

lemma extend_known_ready:
  assumes "gossip_ready E agents g" "extend_known (gs_session g) records (gs_known g) = Inr k"
  shows "gossip_ready E agents (g\<lparr>gs_known := k\<rparr>)"
  using assms by (auto simp: gossip_ready_def extend_known_def Let_def split: if_splits)

lemma extend_known_ok: "gossip_ready E agents g \<Longrightarrow> \<exists>k. extend_known (gs_session g) records (gs_known g) = Inr k"
  by (simp add: gossip_ready_def extend_known_def delivery_inv_def Let_def)

lemma db_inv_unique:
  assumes "db_inv P d" "r \<in> set (db_memory d)" "q \<in> set (db_memory d)"
    and "mr_content_hash r = Some h" "mr_content_hash q = Some h"
  shows "r = q"
proof -
  have "inj_on (the \<circ> mr_content_hash) (set (filter (\<lambda>x. mr_content_hash x \<noteq> None) (db_memory d)))"
    using assms(1) by (simp add: db_inv_def hashes_of_def List.map_filter_def distinct_map)
  then show ?thesis by (rule inj_onD) (use assms in auto)
qed

text \<open>The active records of a node all hashed correctly: what a request for some of them returns.\<close>

lemma fetch_active:
  assumes d: "db_inv P d" "\<forall>r \<in> set (db_memory d). mr_record_state r = ACTIVE \<and> mr_content_hash r \<noteq> None \<longrightarrow> federable P E agents r"
    and b: "set batch \<subseteq> set (iter_hashes d None)" "length batch \<le> 100"
  shows "\<exists>rs. fetch_records d batch = Inr rs \<and> (\<forall>r \<in> set rs. takes_over P E agents r)
     \<and> (the \<circ> mr_content_hash) ` set rs = set batch"
proof -
  obtain rs where rs: "fetch_records d batch = Inr rs"
    "set rs = {r \<in> set (db_memory d). mr_content_hash r \<in> Some ` set batch \<and> mr_record_state r \<noteq> TOMBSTONED}"
    using fetch_records_ok[of batch d] b(2) by (auto simp: max_fetch_hashes_def)
  note uniq = db_inv_unique[OF d(1)]
  have act: "takes_over P E agents r" if mem: "r \<in> set rs" for r
  proof -
    obtain h where h: "mr_content_hash r = Some h" "r \<in> set (db_memory d)" "h \<in> set batch"
      using mem rs(2) by auto
    then have "h \<in> set (iter_hashes d None)" using b(1) by blast
    then obtain q where q: "q \<in> set (db_memory d)" "mr_content_hash q = Some h" "mr_record_state q = ACTIVE"
      by (auto simp: set_iter_hashes)
    have "r = q" using uniq[OF h(2) q(1) h(1) q(2)] .
    with h q d show ?thesis by (simp add: takes_over_def db_inv_def)
  qed
  have hit: "h \<in> (the \<circ> mr_content_hash) ` set rs" if mem: "h \<in> set batch" for h
  proof -
    obtain q where "q \<in> set (db_memory d)" "mr_content_hash q = Some h" "mr_record_state q = ACTIVE"
      using mem b(1) set_iter_hashes[of h d None] by auto
    with mem rs(2) have "q \<in> set rs" by auto
    with \<open>mr_content_hash q = Some h\<close> show ?thesis by force
  qed
  have sub: "(the \<circ> mr_content_hash) ` set rs \<subseteq> set batch" using rs(2) by auto
  from hit sub have "(the \<circ> mr_content_hash) ` set rs = set batch" by blast
  with rs(1) act show ?thesis by blast
qed

lemma batches_honest:
  assumes d: "db_inv P d" "\<forall>r \<in> set (db_memory d). mr_record_state r = ACTIVE \<and> mr_content_hash r \<noteq> None \<longrightarrow> federable P E agents r"
    and "gossip_ready E agents g" "\<forall>b \<in> set bs. b \<noteq> [] \<and> length b \<le> 100 \<and> set b \<subseteq> set (iter_hashes d None)"
  shows "\<exists>g'. process_batches P E (honest_peer P now d) bs g = (Inr (), g') \<and> gossip_ready E agents g'
     \<and> local_hashes g' = local_hashes g \<union> set (concat bs)"
  using assms(3,4)
proof (induction bs arbitrary: g)
  case (Cons b bs)
  obtain rs where rs: "fetch_records d b = Inr rs" "\<forall>r \<in> set rs. takes_over P E agents r"
      "(the \<circ> mr_content_hash) ` set rs = set b"
    using fetch_active[OF d, of b] Cons.prems(2) by auto
  have "client_fetch_records b (fetch_records_by_hash d) = Inr (map as_peer_record rs)"
    using rs Cons.prems(2) by (intro fetch_over_wire) (auto simp: takes_over_def federable_def)
  moreover define g1 where "g1 = count_fetched (length (map as_peer_record rs)) g"
  moreover have g1: "gossip_ready E agents g1" "local_hashes g1 = local_hashes g"
    using Cons.prems(1) by (simp_all add: g1_def gossip_ready_def local_hashes_def count_fetched_def)
  moreover obtain k where k: "extend_known (gs_session g1) (map as_peer_record rs) (gs_known g1) = Inr k"
    using extend_known_ok[OF g1(1)] by blast
  moreover obtain g2 where g2: "persist_records P E (map as_peer_record rs) (g1\<lparr>gs_known := k\<rparr>) = (Inr (), g2)"
      "gossip_ready E agents g2" "local_hashes g2 = local_hashes g1 \<union> set b"
    using persist_records_federable[OF extend_known_ready[OF g1(1) k] rs(2)] rs(3) by (auto simp: local_hashes_def)
  ultimately have "process_batch P E (honest_peer P now d) b g = (Inr (), g2)"
    by (simp add: process_batch_def honest_peer_def Let_def)
  moreover obtain g3 where "process_batches P E (honest_peer P now d) bs g2 = (Inr (), g3)"
      "gossip_ready E agents g3" "local_hashes g3 = local_hashes g2 \<union> set (concat bs)"
    using Cons.IH[OF g2(2)] Cons.prems(2) by auto
  ultimately show ?case using g1(2) g2(3) by auto
qed simp

lemma collect_honest:
  assumes "sess_active s" "\<forall>i \<in> set is. i < bucket_count"
  shows "\<exists>missing. collect_missing_hashes (honest_peer P now d) s None is = Inr missing
    \<and> set missing = {h \<in> set (iter_hashes d None). h \<notin> set (iter_hashes (sess_db s) None)
         \<and> (\<exists>i \<in> set is. bucket_for_hash h = Inr i)}"
  using assms(2)
proof (induction "is")
  case (Cons i js)
  let ?theirs = "bucket_members (iter_hashes d None) i" and ?ours = "bucket_members (iter_hashes (sess_db s) None) i"
  have fetch: "fetch_bucket_hashes i (peer_bucket (honest_peer P now d) i None) = Inr ?theirs"
    using Cons.prems by (simp add: honest_peer_def bucket_over_wire)
  obtain rest where rest: "collect_missing_hashes (honest_peer P now d) s None js = Inr rest"
      "set rest = {h \<in> set (iter_hashes d None). h \<notin> set (iter_hashes (sess_db s) None)
         \<and> (\<exists>i \<in> set js. bucket_for_hash h = Inr i)}"
    using Cons by auto
  have "collect_missing_hashes (honest_peer P now d) s None (i # js)
      = Inr (filter (\<lambda>h. h \<notin> set ?ours) ?theirs @ rest)"
    using fetch rest(1) assms(1) Cons.prems by (simp add: bucket_hashes_members)
  then show ?case by (intro exI[of _ "filter (\<lambda>h. h \<notin> set ?ours) ?theirs @ rest"]) (auto simp: rest(2))
qed simp

lemma hash_well_formed:
  assumes "sha256_ok P" "compute_content_hash P b = Inr h"
  shows "well_formed_hash h"
proof -
  obtain bs where h: "h = CHR ''z'' # b58encode (sha256 P bs)"
    using assms(2) by (auto simp: compute_content_hash_def bindE_Inr_conv)
  obtain x xs where "sha256 P bs = x # xs"
    using assms(1) by (cases "sha256 P bs") (auto simp: sha256_ok_def dest!: spec[of _ bs])
  with h have "bucket_for_hash h = Inr (unat x)" by (auto simp: bucket_for_hash_conv)
  then show ?thesis by (simp add: well_formed_hash_def)
qed

lemma iter_hashes_well_formed:
  assumes "sha256_ok P" "db_inv P d" "h \<in> set (iter_hashes d None)"
  shows "well_formed_hash h"
  using assms(3) hash_well_formed[OF assms(1)] assms(2) by (auto simp: set_iter_hashes db_inv_def)

text \<open>Only hashes of diverging buckets can be missing.\<close>

lemma missing_in_divergent:
  assumes "inj_on (sha256 P) (digest_inputs P (iter_hashes a None) \<union> digest_inputs P (iter_hashes d None))"
    and "h \<in> set (iter_hashes d None)" "h \<notin> set (iter_hashes a None)" "well_formed_hash h"
  shows "\<exists>i \<in> set (diverges_from (summarise_hashes P (iter_hashes a None)) (summarise_hashes P (iter_hashes d None))).
    bucket_for_hash h = Inr i"
proof -
  obtain i where i: "bucket_for_hash h = Inr i" using assms(4) by (auto simp: well_formed_hash_def is_ok_conv)
  have lt: "i < bucket_count" using i by (rule bucket_for_hash_lt)
  have "bucket_members (iter_hashes a None) i \<noteq> bucket_members (iter_hashes d None) i"
    unfolding bucket_members_eq_iff using assms(2,3) i by blast
  then have "ms_buckets (summarise_hashes P (iter_hashes a None)) ! i \<noteq> ms_buckets (summarise_hashes P (iter_hashes d None)) ! i"
    using bucket_digest_eq_iff[OF assms(1) lt lt] lt by (simp add: summarise_hashes_spec(1))
  with i lt show ?thesis by (auto simp: diverges_from_def)
qed

lemma iter_hashes_all_active:
  "all_active db \<Longrightarrow> [] \<notin> set (hashes_of db) \<Longrightarrow> set (iter_hashes db None) = set (hashes_of db)"
  by (auto simp: set_iter_hashes set_hashes_of all_active_def) blast

text \<open>The state a round with an honest peer ends in.\<close>

lemma reconcile_honest:
  assumes E: "quiet_env E" and s: "sess_active s" "all_active (sess_db s)" and d: "db_inv P d"
    and sha: "sha256_ok P"
      "inj_on (sha256 P) (digest_inputs P (iter_hashes (sess_db s) None) \<union> digest_inputs P (iter_hashes d None))"
    and fed: "\<forall>r \<in> set (db_memory d). mr_record_state r = ACTIVE \<and> mr_content_hash r \<noteq> None
        \<longrightarrow> federable P E (db_agents (sess_db s)) r"
    and dv: "dv = diverges_from (summarise_hashes P (iter_hashes (sess_db s) None)) (summarise_hashes P (iter_hashes d None))"
    and g: "gs_session g = s" "gs_known g = \<lparr>kn_workflow_ids = {}, kn_content_hashes = {}\<rparr>" "gr_error (gs_report g) = None"
  shows "\<exists>g'. reconcile_diverged P E (honest_peer P now d) None dv g = g' \<and> gossip_ready E (db_agents (sess_db s)) g'
    \<and> local_hashes g' = set (hashes_of (sess_db s)) \<union> set (iter_hashes d None)"
proof -
  have "\<forall>i \<in> set dv. i < bucket_count" by (auto simp: dv diverges_from_def)
  from collect_honest[OF s(1) this, of P now d]
  obtain missing where m: "collect_missing_hashes (honest_peer P now d) s None dv = Inr missing"
    "set missing = {h \<in> set (iter_hashes d None). h \<notin> set (iter_hashes (sess_db s) None)
       \<and> (\<exists>i \<in> set dv. bucket_for_hash h = Inr i)}" by blast
  then have m_set: "set missing = {h \<in> set (iter_hashes d None). h \<notin> set (iter_hashes (sess_db s) None)}"
    using missing_in_divergent[OF sha(2)] iter_hashes_well_formed[OF sha(1) d] by (auto simp: dv)
  have sub: "set (iter_hashes (sess_db s) None) \<subseteq> set (hashes_of (sess_db s))"
    by (auto simp: set_iter_hashes set_hashes_of)
  let ?g1 = "g\<lparr>gs_report := (gs_report g)\<lparr>gr_hashes_missing_locally := length missing\<rparr>\<rparr>"
  have g1: "gossip_ready E (db_agents (sess_db s)) ?g1" "local_hashes ?g1 = set (hashes_of (sess_db s))"
    using g E s by (simp_all add: gossip_ready_def delivery_inv_def local_hashes_def)
  show ?thesis
  proof (cases "missing = []")
    case True
    then have "set (iter_hashes d None) \<subseteq> set (hashes_of (sess_db s))" using m_set sub by auto
    with True m(1) g(1) g1 show ?thesis by (auto simp: reconcile_diverged_def Let_def)
  next
    case False
    have "\<forall>b \<in> set (chunks missing 100). b \<noteq> [] \<and> length b \<le> 100 \<and> set b \<subseteq> set (iter_hashes d None)"
    proof
      fix b assume b: "b \<in> set (chunks missing 100)"
      then have "set b \<subseteq> set (concat (chunks missing 100))" by auto
      then have "set b \<subseteq> set missing" using concat_chunks[of 100 missing] by simp
      with chunks_bounds[OF b] m_set show "b \<noteq> [] \<and> length b \<le> 100 \<and> set b \<subseteq> set (iter_hashes d None)" by auto
    qed
    from batches_honest[OF d fed g1(1) this, of now]
    obtain g2 where "process_batches P E (honest_peer P now d) (chunks missing 100) ?g1 = (Inr (), g2)"
      "gossip_ready E (db_agents (sess_db s)) g2" "local_hashes g2 = local_hashes ?g1 \<union> set missing"
      using concat_chunks[of 100 missing] by auto
    with m(1) m_set sub g(1) g1(2) False show ?thesis by (auto simp: reconcile_diverged_def Let_def)
  qed
qed

lemma empty_not_well_formed: "\<not> well_formed_hash []"
  by (simp add: well_formed_hash_def bucket_for_hash_def)

lemma summarise_uncached: "summarise P True now db [] w =
  (summarise_hashes P (iter_hashes db w), write_summary_cache True now [] (summary_cache_key w) (summarise_hashes P (iter_hashes db w)))"
  by (simp add: summarise_def read_summary_cache_def Let_def)

lemma no_divergence_same_hashes:
  assumes "sha256_ok P" "db_inv P d"
    and "inj_on (sha256 P) (digest_inputs P (iter_hashes a None) \<union> digest_inputs P (iter_hashes d None))"
    and "ms_root (summarise_hashes P (iter_hashes a None)) = ms_root (summarise_hashes P (iter_hashes d None))
      \<or> diverges_from (summarise_hashes P (iter_hashes a None)) (summarise_hashes P (iter_hashes d None)) = []"
  shows "set (iter_hashes d None) \<subseteq> set (iter_hashes a None)"
proof
  fix h assume h: "h \<in> set (iter_hashes d None)"
  have wf: "well_formed_hash h" by (rule iter_hashes_well_formed[OF assms(1,2) h])
  show "h \<in> set (iter_hashes a None)"
  proof (cases "ms_root (summarise_hashes P (iter_hashes a None)) = ms_root (summarise_hashes P (iter_hashes d None))")
    case True
    then have "{h \<in> set (iter_hashes a None). well_formed_hash h} = {h \<in> set (iter_hashes d None). well_formed_hash h}"
      using equal_roots_same_buckets[OF assms(1,3)] by (simp flip: union_nonempty_buckets)
    with h wf show ?thesis by blast
  next
    case False
    with assms(4) missing_in_divergent[OF assms(3) h _ wf] show ?thesis by auto
  qed
qed


section \<open>A concrete pair of nodes\<close>

text \<open>A digest that separates the empty input and JSON texts, hash lists, and digest lists.\<close>

definition class_platform :: platform where
  "class_platform = demo_platform\<lparr>sha256 := (\<lambda>bs. replicate 32
     (if bs = [] \<or> hd bs = 123 then 0 else if hd bs = 122 then 1 else 2))\<rparr>"

lemma class_platform_ok: "sha256_ok class_platform"
  by (simp add: sha256_ok_def class_platform_def)

lemma class_platform_fields [simp]: "float_repr class_platform = float_repr demo_platform" "ed_lib class_platform = ed_lib demo_platform"
  by (simp_all add: class_platform_def)

lemma signable_brace: "to_signable_bytes P b = Inr x \<Longrightarrow> x \<noteq> [] \<and> hd x = 123"
  by (auto simp: to_signable_bytes_def canonicalize_def as_jsonable_def bindE_Inr_conv encode_utf8_def)

definition class_hash :: string where
  "class_hash = CHR ''z'' # b58encode (replicate 32 0)"

lemma class_hash_of: "to_signable_bytes class_platform b = Inr x \<Longrightarrow> compute_content_hash class_platform b = Inr class_hash"
  using signable_brace[of class_platform b x]
  by (simp add: compute_content_hash_def class_hash_def) (simp add: class_platform_def)

lemma class_args_hash: "compute_content_hash class_platform (put_body (demo_args c)) = Inr class_hash"
proof -
  obtain x where "to_signable_bytes demo_platform (put_body (demo_args c)) = Inr x" using demo_args_bytes by blast
  then have "to_signable_bytes class_platform (put_body (demo_args c)) = Inr x"
    by (simp add: to_signable_bytes_def)
  then show ?thesis by (rule class_hash_of)
qed

definition demo_peer_db :: node_db where
  "demo_peer_db = add_rows [put_row (demo_args ''a'') 0 (Some class_hash) None] (sess_db demo_session)"

lemma demo_peer_row: "db_memory demo_peer_db = [put_row (demo_args ''a'') 0 (Some class_hash) None]"
  by (simp add: demo_peer_db_def demo_session_def Let_def)

lemma class_hash_bucket: "bucket_for_hash class_hash = Inr 0"
  unfolding bucket_for_hash_conv class_hash_def
  by (intro exI[of _ 0] exI[of _ "replicate 31 0"]) (simp add: numeral_eq_Suc)

lemma demo_iter: "iter_hashes demo_peer_db None = [class_hash]" "iter_hashes (sess_db demo_session) None = []"
proof -
  have "pa_record_state (demo_args ''a'') = ACTIVE" by (simp add: demo_args_def)
  then show "iter_hashes demo_peer_db None = [class_hash]"
    by (simp add: iter_hashes_def demo_peer_row List.map_filter_def class_hash_def)
  show "iter_hashes (sess_db demo_session) None = []"
    by (simp add: iter_hashes_def demo_session_def Let_def List.map_filter_def)
qed

lemma demo_digests:
  "inj_on (sha256 class_platform) (digest_inputs class_platform [] \<union> digest_inputs class_platform [class_hash])"
proof -
  let ?P = class_platform and ?h = class_hash
  let ?R = "root_body (ms_buckets (summarise_hashes ?P [?h]))"
  have none: "bucket_members [] i = []" for i by (simp add: bucket_members_def)
  have nb: "nonempty_buckets [] = []" by (simp add: nonempty_buckets_def none)
  then have r0: "root_body (ms_buckets (summarise_hashes ?P [])) = []"
    by (simp add: root_body_present present_digests)
  have in0: "digest_inputs ?P [] = {[]}" by (auto simp: digest_inputs_def none r0)
  have in1: "digest_inputs ?P [?h] \<subseteq> {?R, bucket_body [?h]}"
    by (auto simp: digest_inputs_def bucket_members_singleton[OF class_hash_bucket])
  have bb: "bucket_body [?h] \<noteq> []" "hd (bucket_body [?h]) = 122"
    by (simp_all add: bucket_body_def encode_utf8_def class_hash_def)
  have sb: "sha256 ?P (bucket_body [?h]) = 1 # replicate 31 1"
    using bb by (simp add: class_platform_def flip: replicate_Suc)
  have "hex_width 2 1 = ''01''" by code_simp
  then have "\<exists>t. hexdigest ?P (bucket_body [?h]) = CHR ''0'' # t" by (simp add: hexdigest_def sb)
  moreover have "?R = encode_utf8 (hexdigest ?P (bucket_body [?h]))"
    by (simp add: root_body_present present_digests nonempty_buckets_singleton[OF class_hash_bucket])
  ultimately have "?R \<noteq> []" "hd ?R = 48" by (auto simp: encode_utf8_def)
  with bb have "sha256 ?P [] = replicate 32 0" "sha256 ?P (bucket_body [?h]) = replicate 32 1" "sha256 ?P ?R = replicate 32 2"
    by (simp_all add: class_platform_def)
  then have "inj_on (sha256 ?P) {[], ?R, bucket_body [?h]}" by (auto simp: inj_on_def)
  then show ?thesis by (rule inj_on_subset) (use in0 in1 in blast)
qed

lemma demo_peer_ok:
  "db_inv class_platform demo_peer_db"
  "\<forall>r \<in> set (db_memory demo_peer_db). federable class_platform demo_env [] r"
proof -
  let ?r = "put_row (demo_args ''a'') 0 (Some class_hash) None"
  show "db_inv class_platform demo_peer_db"
    by (simp add: db_inv_def hashes_of_def demo_peer_row List.map_filter_def class_args_hash)
  have "mr_confidence ?r = FFin (1 / 2)" "mr_workflow_id ?r = Some 1" "class_hash \<noteq> []"
    by (simp_all add: put_row_def demo_args_def class_hash_def)
  then have "servable ?r" unfolding servable_def put_row_fields(1) by blast
  moreover have "mr_author_did ?r \<noteq> Some []" "mr_source_agent_id ?r = None"
    by (simp_all add: put_row_def demo_args_def zero_key_did_def)
  ultimately show "\<forall>r \<in> set (db_memory demo_peer_db). federable class_platform demo_env [] r"
    by (simp add: demo_peer_row federable_def fk_ok_def) (simp add: demo_env_def)
qed

definition demo_round :: "gossip_report \<times> db_session \<times> summary_cache" where
  "demo_round = reconcile_with class_platform demo_env True 0 (honest_peer class_platform 0 demo_peer_db) None demo_session []"

lemma demo_round_parts:
  "reconcile_with class_platform demo_env True 0 (honest_peer class_platform 0 demo_peer_db) None demo_session []
     = (fst demo_round, fst (snd demo_round), snd (snd demo_round))"
  by (simp add: demo_round_def)



theorem gossip_report_adds_up_witness: "accounted (fst demo_round) \<le> gr_records_fetched (fst demo_round)"
  using gossip_report_adds_up[OF demo_round_parts] by simp

definition demo_bad_record :: peer_record where
  "demo_bad_record = (as_peer_record (put_row (demo_args ''a'') 0 (Some class_hash) (Some ''zz'')))
     \<lparr>pr_author_did := Some ''bogus''\<rparr>"

definition demo_bad_state :: gossip_state where
  "demo_bad_state = (start_state demo_session)\<lparr>gs_known := \<lparr>kn_workflow_ids = {1}, kn_content_hashes = {}\<rparr>\<rparr>"

theorem malformed_author_aborts_witness:
  "persist_records class_platform demo_env [demo_bad_record, as_peer_record (hd (db_memory demo_peer_db))] demo_bad_state
     = (Inl (GossipStore (StoreDid NotADid)), demo_bad_state)"
proof -
  have r: "pr_workflow_id demo_bad_record = str_uuid 1" "pr_author_did demo_bad_record = Some ''bogus''"
    "pr_signature demo_bad_record = Some ''zz''" "pr_content_hash demo_bad_record = class_hash"
    "parse_agent demo_bad_record = Inr None" "pr_memory_type demo_bad_record = memory_type_value FACT"
    by (simp_all add: demo_bad_record_def as_peer_record_def nonempty_str_def parse_agent_def)
      (simp_all add: put_row_def demo_args_def)
  let ?b = "put_body (gossip_args demo_bad_record 1 None FACT)"
  have "\<exists>x. to_signable_bytes class_platform ?b = Inr x"
    by (auto simp: demo_bad_record_def as_peer_record_def gossip_args_def put_row_def demo_args_def put_body_def
        build_canonical_body_def to_signable_bytes_def as_jsonable_def canonicalize_def bindE_Inr_conv
        seqE_map_conv json_opt_str_def list_all2_Cons1)
  then have h: "compute_content_hash class_platform ?b = Inr class_hash" using class_hash_of by blast
  have d: "parse_did ''bogus'' = Inl NotADid" by (simp add: parse_did_def starts_with_def)
  show ?thesis
    by (rule malformed_author_aborts[where did = "''bogus''" and sg = "''zz''" and w = 1 and agent = None and mt = FACT])
      (simp_all only: d r h parse_str_uuid parse_memory_type_value str_uuid_not_Nil,
       simp_all add: demo_bad_state_def)
qed

end
