(* ===== verification/Py_Float.thy ===== *)
theory Py_Float
  imports Complex_Main MC_Prelude
begin

text \<open>
  Python's \<open>float\<close> and the \<open>NUMERIC(p, 4)\<close> columns. A finite double is the rational number it
  denotes and an operation on doubles is the exact operation followed by \<open>py_double\<close>, rounding to
  53 significant bits, ties to even (exponents are unbounded: the amounts, scores and times of the
  program are far from overflow and from the subnormal range). \<open>Decimal(str(x))\<close> is the shortest
  decimal that reads back as \<open>x\<close>; a numeric column rounds it half away from zero.
\<close>

section \<open>Rounding\<close>

definition half_even :: "rat \<Rightarrow> int" where
  "half_even x =
     (let f = \<lfloor>x\<rfloor>; r = x - of_int f in
      if r < 1 / 2 then f else if r > 1 / 2 then f + 1 else if even f then f else f + 1)"

definition half_away :: "rat \<Rightarrow> int" where
  "half_away x = (if x < 0 then - \<lfloor>- x + 1 / 2\<rfloor> else \<lfloor>x + 1 / 2\<rfloor>)"

lemma half_even_error: "\<bar>of_int (half_even x) - x\<bar> \<le> 1 / 2"
proof -
  define f where "f = \<lfloor>x\<rfloor>"
  have "of_int f \<le> x" "x < of_int f + 1" using floor_correct[of x] by (simp_all add: f_def)
  then show ?thesis by (auto simp: half_even_def Let_def abs_if simp flip: f_def)
qed

lemma half_away_error: "\<bar>of_int (half_away x) - x\<bar> \<le> 1 / 2"
proof -
  define f g where "f = \<lfloor>x + 1 / 2\<rfloor>" "g = \<lfloor>- x + 1 / 2\<rfloor>"
  have "of_int f \<le> x + 1 / 2" "x + 1 / 2 < of_int f + 1" "of_int g \<le> - x + 1 / 2" "- x + 1 / 2 < of_int g + 1"
    using floor_correct[of "x + 1 / 2"] floor_correct[of "- x + 1 / 2"] by (simp_all add: f_g_def)
  then show ?thesis unfolding half_away_def f_g_def[symmetric] by (auto simp: abs_if)
qed

lemma half_even_of_int [simp]: "half_even (of_int n) = n"
  by (simp add: half_even_def)

lemma half_away_of_int [simp]: "half_away (of_int n) = n"
proof -
  have "\<lfloor>of_int n + 1 / 2 :: rat\<rfloor> = n" "\<lfloor>- of_int n + 1 / 2 :: rat\<rfloor> = - n" by (simp_all add: floor_unique)
  then show ?thesis by (simp add: half_away_def)
qed

lemma half_away_less: "x < of_int n + 1 / 2 \<Longrightarrow> half_away x \<le> n"
proof -
  assume "x < of_int n + 1 / 2"
  then have "\<lfloor>x + 1 / 2\<rfloor> \<le> n" "n \<ge> - \<lfloor>- x + 1 / 2\<rfloor>" by (simp_all add: floor_le_iff, linarith)
  then show ?thesis by (simp add: half_away_def)
qed

lemma half_away_minus: "half_away (- x) = - half_away x"
  by (auto simp: half_away_def intro: floor_unique)

lemma half_away_nonneg: "0 \<le> x \<Longrightarrow> 0 \<le> half_away x"
  by (simp add: half_away_def)

text \<open>Rounding a positive number to \<open>Suc p\<close> significant digits in base \<open>b\<close>.\<close>

function round_sig :: "nat \<Rightarrow> nat \<Rightarrow> rat \<Rightarrow> rat" where
  "round_sig b p x =
     (if b < 2 \<or> x \<le> 0 then 0
      else if x < of_nat b ^ p then round_sig b p (of_nat b * x) / of_nat b
      else if of_nat b ^ Suc p \<le> x then of_nat b * round_sig b p (x / of_nat b)
      else of_int (half_even x))"
  by pat_completeness auto

definition sig_measure :: "nat \<Rightarrow> nat \<Rightarrow> rat \<Rightarrow> nat" where
  "sig_measure b p x =
     (if x < of_nat b ^ p then nat \<lfloor>of_nat b ^ p / x\<rfloor> else if of_nat b ^ Suc p \<le> x then nat \<lfloor>x\<rfloor> else 0)"

lemma floor_div_less:
  fixes y :: rat
  assumes "2 \<le> b" "1 \<le> y"
  shows "nat \<lfloor>y / of_nat b\<rfloor> < nat \<lfloor>y\<rfloor>"
proof -
  have b: "(2::rat) \<le> of_nat b" using assms(1) by (metis of_nat_le_iff of_nat_numeral)
  have f: "1 \<le> \<lfloor>y\<rfloor>" using assms(2) by simp
  have "y / of_nat b \<le> y / 2" using assms(2) b by (intro divide_left_mono) auto
  also have "y / 2 < of_int \<lfloor>y\<rfloor>"
    using f floor_correct[of y] by (cases "\<lfloor>y\<rfloor> = 1") (use of_int_le_iff[of 2 "\<lfloor>y\<rfloor>", where ?'a = rat] in auto)
  finally have "\<lfloor>y / of_nat b\<rfloor> < \<lfloor>y\<rfloor>" by (simp add: floor_less_iff)
  with f show ?thesis by simp
qed

termination round_sig
proof (relation "measure (\<lambda>(b, p, x). sig_measure b p x)")
  fix b p and x :: rat assume a: "\<not> (b < 2 \<or> x \<le> 0)" and lt: "x < of_nat b ^ p"
  have b: "2 \<le> b" "(0::rat) < of_nat b" using a by auto
  have "sig_measure b p (of_nat b * x) \<le> nat \<lfloor>(of_nat b ^ p / x) / of_nat b\<rfloor>"
    using lt b a by (auto simp: sig_measure_def mult.commute not_le)
  moreover have "nat \<lfloor>(of_nat b ^ p / x) / of_nat b\<rfloor> < nat \<lfloor>of_nat b ^ p / x\<rfloor>"
    using lt a b(1) by (intro floor_div_less) auto
  moreover have "sig_measure b p x = nat \<lfloor>of_nat b ^ p / x\<rfloor>" using lt by (simp add: sig_measure_def)
  ultimately have "sig_measure b p (of_nat b * x) < sig_measure b p x" by linarith
  then show "((b, p, of_nat b * x), b, p, x) \<in> measure (\<lambda>(b, p, x). sig_measure b p x)" by simp
next
  fix b p and x :: rat assume a: "\<not> (b < 2 \<or> x \<le> 0)" and ge: "\<not> x < of_nat b ^ p" "of_nat b ^ Suc p \<le> x"
  have b: "2 \<le> b" "(0::rat) < of_nat b" "(1::rat) \<le> of_nat b ^ Suc p" using a by (simp_all add: one_le_power del: power_Suc)
  have "\<not> x / of_nat b < of_nat b ^ p" using ge(2) b(2) by (simp add: field_simps)
  then have "sig_measure b p (x / of_nat b) \<le> nat \<lfloor>x / of_nat b\<rfloor>" by (simp add: sig_measure_def)
  moreover have "nat \<lfloor>x / of_nat b\<rfloor> < nat \<lfloor>x\<rfloor>" using b ge(2) by (intro floor_div_less) linarith+
  moreover have "sig_measure b p x = nat \<lfloor>x\<rfloor>" using ge by (simp add: sig_measure_def)
  ultimately have "sig_measure b p (x / of_nat b) < sig_measure b p x" by linarith
  then show "((b, p, x / of_nat b), b, p, x) \<in> measure (\<lambda>(b, p, x). sig_measure b p x)" by simp
qed simp

declare round_sig.simps [simp del]

lemma round_sig_0 [simp]: "round_sig b p 0 = 0"
  by (subst round_sig.simps) simp

lemma round_sig_error:
  "2 \<le> b \<Longrightarrow> 0 < x \<Longrightarrow> \<bar>round_sig b p x - x\<bar> \<le> x / (2 * of_nat b ^ p)"
proof (induction b p x rule: round_sig.induct)
  case (1 b p x)
  have b: "(0::rat) < of_nat b" "(0::rat) < 2 * of_nat b ^ p" using 1(3) by auto
  show ?case
  proof (cases "x < of_nat b ^ p")
    case True
    have "\<bar>round_sig b p (of_nat b * x) - of_nat b * x\<bar> \<le> of_nat b * x / (2 * of_nat b ^ p)"
      using 1 True b by simp
    then have "\<bar>(round_sig b p (of_nat b * x) / of_nat b - x) * of_nat b\<bar> \<le> x / (2 * of_nat b ^ p) * of_nat b"
      using b by (simp add: algebra_simps)
    then have "\<bar>round_sig b p (of_nat b * x) / of_nat b - x\<bar> * of_nat b \<le> x / (2 * of_nat b ^ p) * of_nat b"
      by (simp only: abs_mult abs_of_nat)
    then have "\<bar>round_sig b p (of_nat b * x) / of_nat b - x\<bar> \<le> x / (2 * of_nat b ^ p)"
      using b(1) by (rule mult_right_le_imp_le)
    with True 1(3,4) show ?thesis by (simp add: round_sig.simps[of b p x])
  next
    case ge: False
    show ?thesis
    proof (cases "of_nat b ^ Suc p \<le> x")
      case True
      have "\<bar>round_sig b p (x / of_nat b) - x / of_nat b\<bar> \<le> x / of_nat b / (2 * of_nat b ^ p)"
        using 1 ge True b by simp
      then have "\<bar>round_sig b p (x / of_nat b) - x / of_nat b\<bar> * of_nat b \<le> x / of_nat b / (2 * of_nat b ^ p) * of_nat b"
        using b by (simp only: mult_le_cancel_right) auto
      moreover have "\<bar>round_sig b p (x / of_nat b) - x / of_nat b\<bar> * of_nat b = \<bar>of_nat b * round_sig b p (x / of_nat b) - x\<bar>"
        using abs_mult[of "round_sig b p (x / of_nat b) - x / of_nat b" "of_nat b"] b(1) by (simp add: algebra_simps)
      ultimately have "\<bar>of_nat b * round_sig b p (x / of_nat b) - x\<bar> \<le> x / (2 * of_nat b ^ p)" using b by simp
      with ge True 1(3,4) show ?thesis by (simp add: round_sig.simps[of b p x])
    next
      case False
      have "1 / 2 \<le> x / (2 * of_nat b ^ p)" using ge b by (simp add: field_simps)
      with half_even_error[of x] have "\<bar>of_int (half_even x) - x\<bar> \<le> x / (2 * of_nat b ^ p)" by (rule order_trans)
      with ge False 1(3,4) show ?thesis by (simp add: round_sig.simps[of b p x])
    qed
  qed
qed

lemma round_sig_nonneg: "0 \<le> round_sig b p x"
proof (induction b p x rule: round_sig.induct)
  case (1 b p x)
  have "0 \<le> half_even x" if "0 < x"
    using that by (auto simp: half_even_def Let_def)
  with 1 show ?case by (subst round_sig.simps) (auto intro!: mult_nonneg_nonneg)
qed

text \<open>What has at least as many digits as are kept rounds to an integer; an integer that fits is exact.\<close>

lemma round_sig_Ints: "of_nat b ^ p \<le> x \<Longrightarrow> round_sig b p x \<in> \<int>"
proof (induction b p x rule: round_sig.induct)
  case (1 b p x)
  show ?case
  proof (cases "2 \<le> b \<and> of_nat b ^ Suc p \<le> x")
    case True
    then have "of_nat b ^ p \<le> x / of_nat b" by (simp add: field_simps)
    then have "x \<le> 0 \<or> round_sig b p (x / of_nat b) \<in> \<int>" using 1 True by auto
    with 1(3) True show ?thesis by (subst round_sig.simps) auto
  next
    case False
    with 1(3) show ?thesis by (subst round_sig.simps) auto
  qed
qed

lemma round_sig_exact:
  "2 \<le> b \<Longrightarrow> 0 < x \<Longrightarrow> x \<in> \<int> \<Longrightarrow> x < of_nat b ^ Suc p \<Longrightarrow> round_sig b p x = x"
proof (induction b p x rule: round_sig.induct)
  case (1 b p x)
  have b: "(0::rat) < of_nat b" using 1(3) by simp
  show ?case
  proof (cases "x < of_nat b ^ p")
    case True
    have "round_sig b p (of_nat b * x) = of_nat b * x" using 1(1) 1(3-5) True b by simp
    with True 1(3-5) b show ?thesis by (simp add: round_sig.simps[of b p x])
  next
    case False
    with 1(3-6) show ?thesis by (auto simp: round_sig.simps[of b p x] elim!: Ints_cases)
  qed
qed

section \<open>Doubles\<close>

definition py_double :: "rat \<Rightarrow> rat" where
  "py_double x = (if x < 0 then - round_sig 2 52 (- x) else round_sig 2 52 x)"

text \<open>\<open>round(x, n)\<close>: correctly rounded in decimal, ties to even, then the nearest double.\<close>

definition py_round :: "rat \<Rightarrow> nat \<Rightarrow> rat" where
  "py_round x n = py_double (of_int (half_even (x * 10 ^ n)) / 10 ^ n)"

text \<open>\<open>Decimal(str(x))\<close>: the first of 1 to 17 digits that reads back as the same double.\<close>

definition sig_decimal :: "nat \<Rightarrow> rat \<Rightarrow> rat" where
  "sig_decimal k x = (if x < 0 then - round_sig 10 k (- x) else round_sig 10 k x)"

definition decimal_str :: "rat \<Rightarrow> rat" where
  "decimal_str x =
     (case List.find (\<lambda>k. py_double (sig_decimal k x) = x) [0..<17] of
        Some k \<Rightarrow> sig_decimal k x
      | None \<Rightarrow> sig_decimal 16 x)"

text \<open>Storing in a \<open>NUMERIC(12, 4)\<close> column; eight digits before the point, else the database raises.\<close>

definition numeric4 :: "rat \<Rightarrow> rat" where
  "numeric4 x = of_int (half_away (x * 10 ^ 4)) / 10 ^ 4"

definition numeric_12_4 :: "rat \<Rightarrow> rat option" where
  "numeric_12_4 x = (if \<bar>numeric4 x\<bar> < 10 ^ 8 then Some (numeric4 x) else None)"

lemma py_double_error: "\<bar>py_double x - x\<bar> \<le> \<bar>x\<bar> / 2 ^ 53"
proof -
  have "\<bar>round_sig 2 52 y - y\<bar> \<le> y / 2 ^ 53" if "0 \<le> y" for y
    using round_sig_error[of 2 y 52] that by (cases "y = 0") simp_all
  from this[of x] this[of "- x"] show ?thesis
    using abs_minus_cancel[of "round_sig 2 52 (- x) + x"] by (cases "x < 0") (simp_all add: py_double_def)
qed

lemma py_double_0 [simp]: "py_double 0 = 0"
  by (simp add: py_double_def)

lemma py_double_int: "x \<in> \<int> \<Longrightarrow> \<bar>x\<bar> < 2 ^ 53 \<Longrightarrow> py_double x = x"
  using round_sig_exact[of 2 x 52] round_sig_exact[of 2 "- x" 52]
  by (cases "x = 0") (auto simp: py_double_def abs_if split: if_splits)

lemma py_double_nonneg [simp]: "0 \<le> x \<Longrightarrow> 0 \<le> py_double x"
  by (simp add: py_double_def round_sig_nonneg)

lemma py_double_pos: "0 < x \<Longrightarrow> 0 < py_double x"
proof -
  assume x: "0 < x"
  have "\<bar>py_double x - x\<bar> \<le> x / 2 ^ 53" using py_double_error[of x] x by simp
  moreover have "x / 2 ^ 53 < x" using x by (simp add: field_simps)
  ultimately show ?thesis by linarith
qed

lemma py_double_minus: "py_double (- x) = - py_double x"
  by (cases "x = 0") (auto simp: py_double_def)

lemma sig_decimal_error: "\<bar>sig_decimal k x - x\<bar> \<le> \<bar>x\<bar> / (2 * 10 ^ k)"
proof -
  have "\<bar>round_sig 10 k y - y\<bar> \<le> y / (2 * 10 ^ k)" if "0 \<le> y" for y
    using round_sig_error[of 10 y k] that by (cases "y = 0") simp_all
  from this[of x] this[of "- x"] show ?thesis
    using abs_minus_cancel[of "round_sig 10 k (- x) + x"] by (cases "x < 0") (simp_all add: sig_decimal_def)
qed

lemma decimal_str_error: "\<bar>decimal_str x - x\<bar> \<le> \<bar>x\<bar> / 10 ^ 15"
proof (cases "List.find (\<lambda>k. py_double (sig_decimal k x) = x) [0..<17]")
  case None
  then have "decimal_str x = sig_decimal 16 x" by (simp add: decimal_str_def)
  with sig_decimal_error[of 16 x] show ?thesis by simp
next
  case (Some k)
  have d: "decimal_str x = sig_decimal k x" "py_double (sig_decimal k x) = x"
    using Some find_SomeD[OF Some] by (simp_all add: decimal_str_def)
  have "py_double (decimal_str x) = x" using d by simp
  with py_double_error[of "decimal_str x"] have "\<bar>decimal_str x - x\<bar> \<le> \<bar>decimal_str x\<bar> / 2 ^ 53"
    by (simp add: abs_minus_commute)
  then show ?thesis by (simp add: abs_if split: if_splits)
qed

lemma sig_decimal_int:
  assumes "x \<in> \<int>"
  shows "sig_decimal k x \<in> \<int>"
proof -
  have "round_sig 10 k y \<in> \<int>" if "0 \<le> y" "y \<in> \<int>" for y
  proof (cases "y < 10 ^ k")
    case True
    then show ?thesis using round_sig_exact[of 10 y k] that by (cases "y = 0") auto
  next
    case False
    then show ?thesis using round_sig_Ints[of 10 k y] by simp
  qed
  from this[of x] this[of "- x"] assms show ?thesis by (auto simp: sig_decimal_def)
qed

lemma decimal_str_int:
  assumes "x \<in> \<int>" "\<bar>x\<bar> < 10 ^ 15"
  shows "decimal_str x = x"
proof (cases "List.find (\<lambda>k. py_double (sig_decimal k x) = x) [0..<17]")
  case None
  have "sig_decimal 16 x = x"
    using round_sig_exact[of 10 x 16] round_sig_exact[of 10 "- x" 16] assms
    by (cases "x = 0") (auto simp: sig_decimal_def abs_if split: if_splits)
  with None show ?thesis by (simp add: decimal_str_def)
next
  case (Some k)
  have d: "decimal_str x = sig_decimal k x" "py_double (sig_decimal k x) = x"
    using Some find_SomeD[OF Some] by (simp_all add: decimal_str_def)
  have "\<bar>sig_decimal k x\<bar> < 2 ^ 53" using decimal_str_error[of x] d(1) assms(2) by (simp add: abs_if split: if_splits)
  then show ?thesis using py_double_int[OF sig_decimal_int[OF assms(1), of k]] d by simp
qed

section \<open>Amounts with four decimals\<close>

definition on_grid :: "rat \<Rightarrow> bool" where
  "on_grid x \<longleftrightarrow> x * 10 ^ 4 \<in> \<int>"

lemma on_grid_intros [intro]:
  "on_grid 0"
  "on_grid x \<Longrightarrow> on_grid y \<Longrightarrow> on_grid (x + y)"
  "on_grid x \<Longrightarrow> on_grid y \<Longrightarrow> on_grid (x - y)"
  "on_grid x \<Longrightarrow> on_grid (- x)"
  "on_grid x \<Longrightarrow> on_grid \<bar>x\<bar>"
  "on_grid x \<Longrightarrow> on_grid y \<Longrightarrow> on_grid (max x y)"
  by (auto simp: on_grid_def ring_distribs abs_mult abs_if max_def)

lemma on_grid_numeric4 [simp]: "on_grid (numeric4 x)"
  by (simp add: on_grid_def numeric4_def)

lemma numeric4_grid: "on_grid x \<Longrightarrow> numeric4 x = x"
proof -
  assume "on_grid x"
  then obtain k where k: "x * 10 ^ 4 = of_int k" unfolding on_grid_def by (rule Ints_cases)
  then have "x = of_int k / 10 ^ 4" by simp
  with k show ?thesis by (simp only: numeric4_def half_away_of_int)
qed

lemma on_grid_sum_list: "\<forall>x \<in> set xs. on_grid x \<Longrightarrow> on_grid (sum_list xs)"
  by (induction xs) auto

lemma numeric4_le_grid:
  assumes "on_grid a" "x < a + 1 / 20000"
  shows "numeric4 x \<le> a"
proof -
  obtain k where k: "a * 10 ^ 4 = of_int k" using assms(1) unfolding on_grid_def by (rule Ints_cases)
  then have "x * 10 ^ 4 < of_int k + 1 / 2" using assms(2) by simp
  then have "(of_int (half_away (x * 10 ^ 4)) :: rat) \<le> of_int k" by (simp add: half_away_less)
  with k have "(of_int (half_away (x * 10 ^ 4)) :: rat) \<le> a * 10 ^ 4" by simp
  then show ?thesis by (simp add: numeric4_def)
qed

lemma numeric4_error: "\<bar>numeric4 x - x\<bar> \<le> 1 / 20000"
  using half_away_error[of "x * 10 ^ 4"] by (simp add: numeric4_def abs_if split: if_splits)

lemma numeric4_minus: "numeric4 (- x) = - numeric4 x"
  by (simp add: numeric4_def half_away_minus)

lemma numeric4_nonneg: "0 \<le> x \<Longrightarrow> 0 \<le> numeric4 x"
  by (simp add: numeric4_def half_away_nonneg)

lemma numeric4_int: "x \<in> \<int> \<Longrightarrow> numeric4 x = x"
  by (rule numeric4_grid) (simp add: on_grid_def)

lemma numeric_12_4_Some: "numeric_12_4 x = Some y \<longleftrightarrow> y = numeric4 x \<and> \<bar>y\<bar> < 10 ^ 8"
  by (auto simp: numeric_12_4_def)

end
