(* ===== verification/Wallet.thy ===== *)
theory Wallet
  imports Py_Float Uuid
begin

text \<open>
  Models \<^verbatim>\<open>backend/app/services/wallet_service.py\<close> over the columns of
  \<^verbatim>\<open>backend/app/models/wallet.py\<close> and the budget columns of \<^verbatim>\<open>backend/app/models/workflow.py\<close>: the
  event ledger, reservations, charges, releases, credits and the cached balance.

  The state is the tables as the session sees them, the tables a rollback returns to, and the
  Redis cache. The parameter \<open>E :: wallet_env\<close> stands for what the database adds: fresh primary
  keys, the transaction time, the remaining column constraints (text lengths), and the events that
  other sessions commit between the reads of an operation and its first insert. Amounts are finite
  doubles; sums over the ledger are exact, as the database computes them.
\<close>

section \<open>State\<close>

datatype wallet_action = CREDIT | DEBIT | RESERVE | RELEASE

datatype wallet_meta =
    MetaNone
  | MetaEstimate rat
  | MetaReservation uuid
  | MetaCharge uuid rat rat rat

record wallet_event =
  we_id :: uuid
  we_workflow :: uuid
  we_agent :: "uuid option"
  we_action :: wallet_action
  we_delta :: rat
  we_balance :: rat
  we_reason :: string
  we_meta :: wallet_meta
  we_key :: "string option"
  we_created :: int

record budget_row =
  br_id :: uuid
  br_limit :: rat
  br_used :: rat

record wallet_db =
  wd_events :: "wallet_event list"
  wd_flows :: "budget_row list"
  wd_agents :: "uuid list"

record balance_entry =
  be_workflow :: uuid
  be_used :: rat
  be_expires :: int

record wallet_state =
  ws_start :: wallet_db
  ws_db :: wallet_db
  ws_cache :: "balance_entry list"

record wallet_env =
  wn_new_id :: "wallet_db \<Rightarrow> uuid"
  wn_now :: int
  wn_row_ok :: "wallet_event \<Rightarrow> bool"
  wn_race :: "wallet_db \<Rightarrow> wallet_event list"

datatype wallet_error =
    CostNotPositive | WorkflowNotFound uuid | ReservationNotFound uuid | BudgetExhausted
  | WalletIntegrity | WalletData

definition balance_cache_ttl :: int where
  "balance_cache_ttl = 30"

section \<open>Reading the ledger\<close>

definition total :: "wallet_action \<Rightarrow> uuid \<Rightarrow> wallet_event list \<Rightarrow> rat" where
  "total a w es = sum_list (map we_delta (filter (\<lambda>e. we_workflow e = w \<and> we_action e = a) es))"

definition total_abs :: "wallet_action \<Rightarrow> uuid \<Rightarrow> wallet_event list \<Rightarrow> rat" where
  "total_abs a w es = sum_list (map (\<lambda>e. \<bar>we_delta e\<bar>) (filter (\<lambda>e. we_workflow e = w \<and> we_action e = a) es))"

definition compute_balance :: "wallet_db \<Rightarrow> uuid \<Rightarrow> rat" where
  "compute_balance db w =
     max 0 (py_double (\<bar>py_double (total DEBIT w (wd_events db))\<bar> - py_double (total CREDIT w (wd_events db))))"

definition compute_reserved :: "wallet_db \<Rightarrow> uuid \<Rightarrow> rat" where
  "compute_reserved db w =
     max 0 (py_double (py_double (total_abs RESERVE w (wd_events db)) - py_double (total RELEASE w (wd_events db))))"

definition get_workflow :: "wallet_db \<Rightarrow> uuid \<Rightarrow> wallet_error + budget_row" where
  "get_workflow db w =
     (case lookup_by br_id w (wd_flows db) of None \<Rightarrow> Inl (WorkflowNotFound w) | Some r \<Rightarrow> Inr r)"

definition find_by_key :: "wallet_db \<Rightarrow> string \<Rightarrow> wallet_event option" where
  "find_by_key db key = List.find (\<lambda>e. we_key e = Some key) (wd_events db)"

text \<open>\<open>if idempotency_key:\<close> treats the empty string like \<open>None\<close>.\<close>

definition replay :: "wallet_db \<Rightarrow> string option \<Rightarrow> wallet_event option" where
  "replay db key = (case key of None \<Rightarrow> None | Some k \<Rightarrow> if k = [] then None else find_by_key db k)"

definition find_reservation :: "wallet_db \<Rightarrow> uuid \<Rightarrow> wallet_error + wallet_event" where
  "find_reservation db i =
     (case List.find (\<lambda>e. we_id e = i \<and> we_action e = RESERVE) (wd_events db) of
        None \<Rightarrow> Inl (ReservationNotFound i) | Some e \<Rightarrow> Inr e)"

definition invalidate_cache :: "uuid \<Rightarrow> wallet_state \<Rightarrow> wallet_state" where
  "invalidate_cache w st = st\<lparr>ws_cache := filter (\<lambda>c. be_workflow c \<noteq> w) (ws_cache st)\<rparr>"

section \<open>Writing\<close>

text \<open>Events committed by other sessions become visible, also after a rollback.\<close>

definition absorb :: "wallet_env \<Rightarrow> wallet_state \<Rightarrow> wallet_state" where
  "absorb E st =
     (let race = wn_race E (ws_db st) in
      st\<lparr>ws_start := (ws_start st)\<lparr>wd_events := wd_events (ws_start st) @ race\<rparr>,
         ws_db := (ws_db st)\<lparr>wd_events := wd_events (ws_db st) @ race\<rparr>\<rparr>)"

definition rollback :: "wallet_state \<Rightarrow> wallet_state" where
  "rollback st = st\<lparr>ws_db := ws_start st\<rparr>"

text \<open>Flushing one new event: column types first, then the unique and foreign keys.\<close>

definition insert_event :: "wallet_env \<Rightarrow> wallet_event \<Rightarrow> wallet_state \<Rightarrow> wallet_error + (wallet_event \<times> wallet_state)" where
  "insert_event E ev st =
     (case (numeric_12_4 (we_delta ev), numeric_12_4 (we_balance ev)) of
        (Some delta, Some balance) \<Rightarrow>
          let db = ws_db st;
              row = ev\<lparr>we_id := wn_new_id E db, we_delta := delta, we_balance := balance, we_created := wn_now E\<rparr>
          in if \<not> wn_row_ok E row then Inl WalletData
             else if we_id row \<in> we_id ` set (wd_events db)
               \<or> we_key row \<noteq> None \<and> we_key row \<in> we_key ` set (wd_events db)
               \<or> we_workflow row \<notin> br_id ` set (wd_flows db)
               \<or> we_agent row \<noteq> None \<and> the (we_agent row) \<notin> set (wd_agents db)
             then Inl WalletIntegrity
             else Inr (row, st\<lparr>ws_db := db\<lparr>wd_events := wd_events db @ [row]\<rparr>\<rparr>)
      | _ \<Rightarrow> Inl WalletData)"

text \<open>\<open>except IntegrityError\<close>: roll back and look for the event a concurrent call has written.\<close>

definition insert_or_replay ::
  "wallet_env \<Rightarrow> wallet_event \<Rightarrow> wallet_state \<Rightarrow> wallet_error + (wallet_event \<times> wallet_state \<times> bool)" where
  "insert_or_replay E ev st =
     (case insert_event E ev st of
        Inr (row, st') \<Rightarrow> Inr (row, st', True)
      | Inl WalletIntegrity \<Rightarrow>
          (case replay (ws_db (rollback st)) (we_key ev) of
             Some existing \<Rightarrow> Inr (existing, rollback st, False)
           | None \<Rightarrow> Inl WalletIntegrity)
      | Inl err \<Rightarrow> Inl err)"

definition draft_event :: "uuid \<Rightarrow> uuid option \<Rightarrow> wallet_action \<Rightarrow> rat \<Rightarrow> rat \<Rightarrow> string \<Rightarrow> wallet_meta \<Rightarrow> string option \<Rightarrow> wallet_event" where
  "draft_event w a act delta balance reason meta key =
     \<lparr>we_id = (0 :: uuid), we_workflow = w, we_agent = a, we_action = act, we_delta = delta, we_balance = balance,
      we_reason = reason, we_meta = meta, we_key = key, we_created = 0\<rparr>"

definition set_used :: "uuid \<Rightarrow> rat \<Rightarrow> wallet_state \<Rightarrow> wallet_error + wallet_state" where
  "set_used w v st =
     (case numeric_12_4 v of
        None \<Rightarrow> Inl WalletData
      | Some used \<Rightarrow> Inr (st\<lparr>ws_db := (ws_db st)\<lparr>wd_flows :=
          map (\<lambda>r. if br_id r = w then r\<lparr>br_used := used\<rparr> else r) (wd_flows (ws_db st))\<rparr>\<rparr>))"

section \<open>Operations\<close>

definition reserve_budget ::
  "wallet_env \<Rightarrow> uuid \<Rightarrow> uuid \<Rightarrow> rat \<Rightarrow> string \<Rightarrow> string option \<Rightarrow> wallet_state
     \<Rightarrow> wallet_error + (wallet_event \<times> wallet_state)" where
  "reserve_budget E w agent cost reason key st =
     (if cost \<le> 0 then Inl CostNotPositive
      else case replay (ws_db st) key of
        Some existing \<Rightarrow> Inr (existing, st)
      | None \<Rightarrow>
          bindE (get_workflow (ws_db st) w) (\<lambda>flow.
            let used = compute_balance (ws_db st) w;
                reserved = compute_reserved (ws_db st) w;
                available = py_double (py_double (py_double (br_limit flow) - used) - reserved)
            in if available < cost then Inl BudgetExhausted
               else bindE (insert_or_replay E
                      (draft_event w (Some agent) RESERVE (decimal_str (- cost)) (decimal_str (py_double (used + cost)))
                         reason (MetaEstimate cost) key)
                      (absorb E st))
                    (\<lambda>(event, st', fresh). Inr (event, if fresh then invalidate_cache w st' else st'))))"

definition charge ::
  "wallet_env \<Rightarrow> uuid \<Rightarrow> uuid \<Rightarrow> rat \<Rightarrow> uuid \<Rightarrow> string \<Rightarrow> string option \<Rightarrow> wallet_state
     \<Rightarrow> wallet_error + (wallet_event \<times> wallet_state)" where
  "charge E w agent cost reservation_id reason key st =
     (case replay (ws_db st) key of
        Some existing \<Rightarrow> Inr (existing, st)
      | None \<Rightarrow>
          bindE (find_reservation (ws_db st) reservation_id) (\<lambda>reservation.
            let amount = \<bar>py_double (we_delta reservation)\<bar> in
            bindE (insert_event E
                     (draft_event w (Some agent) RELEASE (decimal_str amount) 0
                        (''Release reservation '' @ str_uuid reservation_id) (MetaReservation reservation_id) None)
                     (absorb E st)) (\<lambda>(release, st1).
            let new_balance = py_double (compute_balance (ws_db st1) w + cost) in
            bindE (insert_event E
                     (draft_event w (Some agent) DEBIT (decimal_str (- cost)) (decimal_str new_balance) reason
                        (MetaCharge reservation_id amount cost (py_round (py_double (amount - cost)) 4)) key)
                     st1) (\<lambda>(event, st2).
            bindE (set_used w (decimal_str new_balance) st2) (\<lambda>st3.
              Inr (event, invalidate_cache w st3))))))"

definition release_reservation ::
  "wallet_env \<Rightarrow> uuid \<Rightarrow> uuid \<Rightarrow> string \<Rightarrow> string option \<Rightarrow> wallet_state
     \<Rightarrow> wallet_error + (wallet_event \<times> wallet_state)" where
  "release_reservation E w reservation_id reason key st =
     (case replay (ws_db st) key of
        Some existing \<Rightarrow> Inr (existing, st)
      | None \<Rightarrow>
          bindE (find_reservation (ws_db st) reservation_id) (\<lambda>reservation.
            let amount = \<bar>py_double (we_delta reservation)\<bar> in
            bindE (insert_or_replay E
                     (draft_event w (we_agent reservation) RELEASE (decimal_str amount) 0 reason
                        (MetaReservation reservation_id) key)
                     (absorb E st))
              (\<lambda>(event, st', fresh). Inr (event, if fresh then invalidate_cache w st' else st'))))"

definition noop_event :: "uuid \<Rightarrow> wallet_event" where
  "noop_event w = draft_event w None DEBIT 0 0 ''noop'' MetaNone None"

definition record_internal_cost ::
  "wallet_env \<Rightarrow> uuid \<Rightarrow> rat \<Rightarrow> string \<Rightarrow> uuid option \<Rightarrow> wallet_state
     \<Rightarrow> wallet_error + (wallet_event \<times> wallet_state)" where
  "record_internal_cost E w amount reason agent st =
     (if amount \<le> 0 then Inr (noop_event w, st)
      else bindE (get_workflow (ws_db st) w) (\<lambda>flow.
        let new_balance = py_double (compute_balance (ws_db st) w + amount) in
        if py_double (br_limit flow) < new_balance then Inl BudgetExhausted
        else bindE (insert_event E
                 (draft_event w agent DEBIT (decimal_str (- amount)) (decimal_str new_balance) reason MetaNone None)
                 (absorb E st)) (\<lambda>(event, st1).
             bindE (set_used w (decimal_str new_balance) st1) (\<lambda>st2.
               Inr (event, invalidate_cache w st2)))))"

definition credit ::
  "wallet_env \<Rightarrow> uuid \<Rightarrow> rat \<Rightarrow> string \<Rightarrow> wallet_state \<Rightarrow> wallet_error + (wallet_event \<times> wallet_state)" where
  "credit E w amount reason st =
     bindE (get_workflow (ws_db st) w) (\<lambda>flow.
       let new_balance = max 0 (py_double (compute_balance (ws_db st) w - amount)) in
       bindE (insert_event E
                (draft_event w None CREDIT (decimal_str amount) (decimal_str new_balance) reason MetaNone None)
                (absorb E st)) (\<lambda>(event, st1).
         Inr (event, invalidate_cache w st1)))"

record balance_response =
  bl_workflow :: uuid
  bl_limit :: rat
  bl_used :: rat
  bl_remaining :: rat
  bl_reserved :: rat
  bl_available :: rat

definition get_balance :: "int \<Rightarrow> uuid \<Rightarrow> wallet_state \<Rightarrow> wallet_error + (balance_response \<times> wallet_state)" where
  "get_balance now w st =
     bindE (get_workflow (ws_db st) w) (\<lambda>flow.
       let (ledger_used, st') =
             (case List.find (\<lambda>c. be_workflow c = w \<and> now < be_expires c) (ws_cache st) of
                Some c \<Rightarrow> (be_used c, st)
              | None \<Rightarrow>
                  let used = compute_balance (ws_db st) w
                  in (used, st\<lparr>ws_cache := \<lparr>be_workflow = w, be_used = used, be_expires = now + balance_cache_ttl\<rparr>
                        # filter (\<lambda>c. be_workflow c \<noteq> w) (ws_cache st)\<rparr>));
           used = max ledger_used (py_double (br_used flow));
           reserved = compute_reserved (ws_db st) w;
           limit = py_double (br_limit flow);
           remaining = py_double (limit - used);
           available = py_double (remaining - reserved)
       in Inr (\<lparr>bl_workflow = w, bl_limit = limit, bl_used = py_round used 4,
                bl_remaining = py_round (max 0 remaining) 4, bl_reserved = py_round reserved 4,
                bl_available = py_round (max 0 available) 4\<rparr>, st'))"

text \<open>Newest first; events of the same transaction time come in an order of the database's choice,
  here the later row first.\<close>

definition get_events :: "uuid \<Rightarrow> wallet_action option \<Rightarrow> nat \<Rightarrow> nat \<Rightarrow> wallet_db \<Rightarrow> wallet_event list \<times> nat" where
  "get_events w action page page_size db =
     (let rows = filter (\<lambda>e. we_workflow e = w \<and> (action = None \<or> action = Some (we_action e))) (wd_events db)
      in (take page_size (drop ((page - 1) * page_size) (rev (sort_key we_created rows))), length rows))"

end
