(* ===== verification/Wallet_Laws.thy ===== *)
theory Wallet_Laws
  imports Wallet
begin

text \<open>
  What the ledger guarantees: the table invariant, the abstract account it refines, the budget bound
  of reservations in spite of float rounding, replay of keyed calls, and what releasing the same
  reservation twice does.
\<close>

section \<open>Numeric facts\<close>

lemma decimal_str_minus: "decimal_str (- x) = - decimal_str x"
proof -
  have s: "sig_decimal k (- x) = - sig_decimal k x" for k by (cases "x = 0") (auto simp: sig_decimal_def)
  then show ?thesis by (auto simp: decimal_str_def py_double_minus split: option.splits)
qed

lemma decimal_str_nonneg: "0 \<le> x \<Longrightarrow> 0 \<le> decimal_str x"
  by (auto simp: decimal_str_def sig_decimal_def round_sig_nonneg split: option.splits)

lemma numeric4_near: "on_grid a \<Longrightarrow> \<bar>x - a\<bar> < 1 / 20000 \<Longrightarrow> numeric4 x = a"
proof -
  assume a: "on_grid a" and x: "\<bar>x - a\<bar> < 1 / 20000"
  have "numeric4 x \<le> a" by (rule numeric4_le_grid[OF a]) (use x in linarith)
  moreover have "numeric4 (- x) \<le> - a" by (rule numeric4_le_grid[OF on_grid_intros(4)[OF a]]) (use x in linarith)
  ultimately show ?thesis by (simp add: numeric4_minus)
qed

lemma double_near:
  assumes "\<bar>x - y\<bar> \<le> e" "\<bar>y\<bar> \<le> 10 ^ 10" "e \<le> 1"
  shows "\<bar>py_double x - y\<bar> \<le> e + 1 / 500000"
proof -
  have x: "\<bar>x\<bar> \<le> 10 ^ 10 + 1" using assms by linarith
  have "\<bar>py_double x - x\<bar> \<le> \<bar>x\<bar> / 2 ^ 53" by (rule py_double_error)
  also have "\<dots> \<le> (10 ^ 10 + 1) / 2 ^ 53" using x by (intro divide_right_mono) auto
  also have "\<dots> \<le> 1 / 500000" by simp
  finally show ?thesis using assms(1) by linarith
qed

text \<open>A stored amount survives the trip through a double and back.\<close>

lemma stored_amount:
  assumes "on_grid a" "\<bar>a\<bar> < 10 ^ 8"
  shows "numeric4 (decimal_str (py_double a)) = a"
proof (rule numeric4_near[OF assms(1)])
  have d: "\<bar>py_double a - a\<bar> \<le> 1 / 500000" using double_near[of a a 0] assms(2) by simp
  moreover have "\<bar>a\<bar> < 100000000" using assms(2) by simp
  ultimately have "\<bar>py_double a\<bar> \<le> 1000000000" by linarith
  then have "\<bar>py_double a\<bar> / 10 ^ 15 \<le> 1000000000 / 10 ^ 15" by (rule divide_right_mono) simp
  with decimal_str_error[of "py_double a"] have "\<bar>decimal_str (py_double a) - py_double a\<bar> \<le> 1 / 1000000" by simp
  with d show "\<bar>decimal_str (py_double a) - a\<bar> < 1 / 20000" by linarith
qed

section \<open>Inserting\<close>

lemma insert_event_Inr:
  assumes "insert_event E ev st = Inr (row, st')"
  shows "row = ev\<lparr>we_id := wn_new_id E (ws_db st), we_delta := numeric4 (we_delta ev),
           we_balance := numeric4 (we_balance ev), we_created := wn_now E\<rparr>"
    and "st' = st\<lparr>ws_db := (ws_db st)\<lparr>wd_events := wd_events (ws_db st) @ [row]\<rparr>\<rparr>"
    and "\<bar>we_delta row\<bar> < 10 ^ 8"
    and "we_id row \<notin> we_id ` set (wd_events (ws_db st))"
    and "we_key ev = None \<or> we_key ev \<notin> we_key ` set (wd_events (ws_db st))"
    and "we_workflow ev \<in> br_id ` set (wd_flows (ws_db st))"
    and "we_agent ev = None \<or> the (we_agent ev) \<in> set (wd_agents (ws_db st))"
  using assms
  by (auto simp: insert_event_def Let_def numeric_12_4_Some split: option.splits if_splits)

lemma insert_or_replay_Inr:
  assumes "insert_or_replay E ev st = Inr (row, st', fresh)"
  shows "fresh \<and> insert_event E ev st = Inr (row, st')
    \<or> \<not> fresh \<and> st' = rollback st \<and> replay (ws_db st') (we_key ev) = Some row"
  using assms by (auto simp: insert_or_replay_def split: sum.splits wallet_error.splits option.splits prod.splits)

lemma replay_Some: "replay db key = Some e \<Longrightarrow> we_key e = key \<and> e \<in> set (wd_events db)"
  using find_SomeD[of "\<lambda>e. we_key e = key" "wd_events db" e]
  by (auto simp: replay_def find_by_key_def split: option.splits if_splits)

lemma replay_append_new:
  assumes "we_key row = Some k" "k \<noteq> []" "Some k \<notin> we_key ` set es"
  shows "replay (db\<lparr>wd_events := es @ [row]\<rparr>) (Some k) = Some row"
proof -
  have "List.find (\<lambda>e. we_key e = Some k) (es @ [row]) = Some row"
    using assms by (induction es) auto
  with assms(2) show ?thesis by (simp add: replay_def find_by_key_def)
qed

lemma set_used_Inr:
  "set_used w v st = Inr st' \<Longrightarrow>
     st' = st\<lparr>ws_db := (ws_db st)\<lparr>wd_flows :=
        map (\<lambda>r. if br_id r = w then r\<lparr>br_used := numeric4 v\<rparr> else r) (wd_flows (ws_db st))\<rparr>\<rparr>"
  by (auto simp: set_used_def numeric_12_4_Some split: option.splits)

lemma wallet_views [simp]:
  "ws_db (invalidate_cache w st) = ws_db st"
  "ws_start (invalidate_cache w st) = ws_start st"
  "wd_events (ws_db (absorb E st)) = wd_events (ws_db st) @ wn_race E (ws_db st)"
  "wd_flows (ws_db (absorb E st)) = wd_flows (ws_db st)"
  "wd_agents (ws_db (absorb E st)) = wd_agents (ws_db st)"
  "ws_db (rollback st) = ws_start st"
  by (simp_all add: invalidate_cache_def absorb_def rollback_def Let_def)

section \<open>The calls, seen from outside\<close>

text \<open>One lemma per operation: a successful call replays a stored event, or appends the rows of the
  operation to the tables as they are at the first insert.\<close>

definition reservation_amount :: "wallet_event \<Rightarrow> rat" where
  "reservation_amount e = \<bar>py_double (we_delta e)\<bar>"

lemma reserve_cases:
  assumes "reserve_budget E w agent cost reason key st = Inr (ev, st')"
  obtains (replayed) "0 < cost" "replay (ws_db st) key = Some ev" "st' = st"
  | (conflict) "0 < cost" "st' = rollback (absorb E st)" "replay (ws_db st') key = Some ev"
  | (fresh) flow row where "0 < cost" "replay (ws_db st) key = None" "get_workflow (ws_db st) w = Inr flow"
      "cost \<le> py_double (py_double (py_double (br_limit flow) - compute_balance (ws_db st) w) - compute_reserved (ws_db st) w)"
      "insert_event E (draft_event w (Some agent) RESERVE (decimal_str (- cost))
         (decimal_str (py_double (compute_balance (ws_db st) w + cost))) reason (MetaEstimate cost) key) (absorb E st) = Inr (ev, row)"
      "st' = invalidate_cache w row"
proof -
  let ?ev = "\<lambda>flow. draft_event w (Some agent) RESERVE (decimal_str (- cost))
         (decimal_str (py_double (compute_balance (ws_db st) w + cost))) reason (MetaEstimate cost) key"
  have pos: "0 < cost" using assms by (simp add: reserve_budget_def split: if_splits)
  consider (hit) "replay (ws_db st) key = Some ev" "st' = st"
    | (miss) flow row b where "replay (ws_db st) key = None" "get_workflow (ws_db st) w = Inr flow"
      "cost \<le> py_double (py_double (py_double (br_limit flow) - compute_balance (ws_db st) w) - compute_reserved (ws_db st) w)"
      "insert_or_replay E (?ev flow) (absorb E st) = Inr (ev, row, b)" "st' = (if b then invalidate_cache w row else row)"
  proof (cases "replay (ws_db st) key")
    case (Some e)
    then have "Inr (e, st) = (Inr (ev, st') :: wallet_error + wallet_event \<times> wallet_state)"
      using assms pos by (simp only: reserve_budget_def option.case not_le[symmetric] if_False)
    then have "e = ev" "st' = st" by simp_all
    with Some show thesis by (intro that(1)) simp_all
  next
    case None
    then obtain flow where g: "get_workflow (ws_db st) w = Inr flow"
      using assms pos by (cases "get_workflow (ws_db st) w")
        (simp_all only: reserve_budget_def option.case not_le[symmetric] if_False bindE_simps sum.distinct)
    let ?avail = "py_double (py_double (py_double (br_limit flow) - compute_balance (ws_db st) w) - compute_reserved (ws_db st) w)"
    have le: "cost \<le> ?avail"
      using assms pos None g
      by (simp only: reserve_budget_def Let_def option.case not_le[symmetric] if_False bindE_simps sum.distinct
          not_less split: if_splits)
    then have r: "bindE (insert_or_replay E (?ev flow) (absorb E st))
        (\<lambda>(event, st', fresh). Inr (event, if fresh then invalidate_cache w st' else st')) = Inr (ev, st')"
      using assms pos None g by (simp only: reserve_budget_def Let_def bindE_simps option.case if_False not_le[symmetric] not_less not_True_eq_False)
    then obtain x where x: "insert_or_replay E (?ev flow) (absorb E st) = Inr x"
      by (cases "insert_or_replay E (?ev flow) (absorb E st)") simp_all
    obtain e row b where "x = (e, row, b)" by (cases x)
    with r x have "insert_or_replay E (?ev flow) (absorb E st) = Inr (ev, row, b)"
      "st' = (if b then invalidate_cache w row else row)" by simp_all
    then show thesis by (rule that(2)[OF None g le])
  qed
  then show ?thesis
  proof cases
    case hit
    with pos show ?thesis by (rule replayed)
  next
    case miss
    have "we_key (?ev flow) = key" by (simp add: draft_event_def)
    with insert_or_replay_Inr[OF miss(4)] consider "b" "insert_event E (?ev flow) (absorb E st) = Inr (ev, row)"
      | "\<not> b" "row = rollback (absorb E st)" "replay (ws_db row) key = Some ev" by auto
    then show ?thesis
    proof cases
      case 1
      with miss(5) have "st' = invalidate_cache w row" by simp
      then show ?thesis by (rule fresh[OF pos miss(1-3) 1(2)])
    next
      case 2
      with miss(5) have "st' = row" by simp
      with 2 show ?thesis by (intro conflict[OF pos]) simp_all
    qed
  qed
qed

lemma bindE_InrE:
  assumes "bindE r f = Inr y" obtains x where "r = Inr x" "f x = Inr y"
  using assms by (auto simp: bindE_Inr_conv)

lemma release_cases:
  assumes "release_reservation E w rid reason key st = Inr (ev, st')"
  obtains (replayed) "replay (ws_db st) key = Some ev" "st' = st"
  | (conflict) "st' = rollback (absorb E st)" "replay (ws_db st') key = Some ev"
  | (fresh) r row where "replay (ws_db st) key = None" "find_reservation (ws_db st) rid = Inr r"
      "insert_event E (draft_event w (we_agent r) RELEASE (decimal_str (reservation_amount r)) 0 reason
         (MetaReservation rid) key) (absorb E st) = Inr (ev, row)"
      "st' = invalidate_cache w row"
proof (cases "replay (ws_db st) key")
  case (Some e)
  then have "e = ev" "st' = st" using assms by (simp_all add: release_reservation_def)
  with Some show thesis by (intro replayed) simp_all
next
  case None
  let ?ev = "\<lambda>r. draft_event w (we_agent r) RELEASE (decimal_str (reservation_amount r)) 0 reason (MetaReservation rid) key"
  from assms None have "bindE (find_reservation (ws_db st) rid) (\<lambda>r. bindE (insert_or_replay E (?ev r) (absorb E st))
      (\<lambda>(event, st', fresh). Inr (event, if fresh then invalidate_cache w st' else st'))) = Inr (ev, st')"
    by (simp add: release_reservation_def Let_def reservation_amount_def)
  then obtain r where r: "find_reservation (ws_db st) rid = Inr r" "bindE (insert_or_replay E (?ev r) (absorb E st))
      (\<lambda>(event, st', fresh). Inr (event, if fresh then invalidate_cache w st' else st')) = Inr (ev, st')"
    by (rule bindE_InrE)
  from r(2) obtain x where x: "insert_or_replay E (?ev r) (absorb E st) = Inr x"
    "(case x of (event, st', fresh) \<Rightarrow> Inr (event, if fresh then invalidate_cache w st' else st')) = (Inr (ev, st') :: wallet_error + wallet_event \<times> wallet_state)"
    by (rule bindE_InrE)
  obtain e row b where "x = (e, row, b)" by (cases x)
  with x have i: "insert_or_replay E (?ev r) (absorb E st) = Inr (ev, row, b)"
    "st' = (if b then invalidate_cache w row else row)" by simp_all
  have "we_key (?ev r) = key" by (simp add: draft_event_def)
  with insert_or_replay_Inr[OF i(1)] consider "b" "insert_event E (?ev r) (absorb E st) = Inr (ev, row)"
    | "\<not> b" "row = rollback (absorb E st)" "replay (ws_db row) key = Some ev" by auto
  then show thesis
  proof cases
    case 1
    with i(2) have "st' = invalidate_cache w row" by simp
    then show thesis by (rule fresh[OF None r(1) 1(2)])
  next
    case 2
    with i(2) have "st' = row" by simp
    with 2 show thesis by (intro conflict) simp_all
  qed
qed

lemma charge_cases:
  assumes "charge E w agent cost rid reason key st = Inr (ev, st')"
  obtains (replayed) "replay (ws_db st) key = Some ev" "st' = st"
  | (fresh) r rel st1 st2 st3 where "replay (ws_db st) key = None" "find_reservation (ws_db st) rid = Inr r"
      "insert_event E (draft_event w (Some agent) RELEASE (decimal_str (reservation_amount r)) 0
         (''Release reservation '' @ str_uuid rid) (MetaReservation rid) None) (absorb E st) = Inr (rel, st1)"
      "insert_event E (draft_event w (Some agent) DEBIT (decimal_str (- cost))
         (decimal_str (py_double (compute_balance (ws_db st1) w + cost))) reason
         (MetaCharge rid (reservation_amount r) cost (py_round (py_double (reservation_amount r - cost)) 4)) key) st1 = Inr (ev, st2)"
      "set_used w (decimal_str (py_double (compute_balance (ws_db st1) w + cost))) st2 = Inr st3"
      "st' = invalidate_cache w st3"
proof (cases "replay (ws_db st) key")
  case (Some e)
  then have "e = ev" "st' = st" using assms by (simp_all add: charge_def)
  with Some show thesis by (intro replayed) simp_all
next
  case None
  from assms None show thesis
    unfolding charge_def Let_def reservation_amount_def[symmetric]
    apply (simp only: option.case)
    apply (elim bindE_InrE)
    apply (simp only: split_paired_all prod.case sum.inject prod.inject)
    apply (elim bindE_InrE)
    apply (simp only: split_paired_all prod.case sum.inject prod.inject)
    apply (elim bindE_InrE)
    apply (rule fresh; assumption?)
    apply simp_all
    done
qed

lemma record_cases:
  assumes "record_internal_cost E w amount reason agent st = Inr (ev, st')"
  obtains (noop) "amount \<le> 0" "ev = noop_event w" "st' = st"
  | (fresh) flow st1 st2 where "0 < amount" "get_workflow (ws_db st) w = Inr flow"
      "py_double (compute_balance (ws_db st) w + amount) \<le> py_double (br_limit flow)"
      "insert_event E (draft_event w agent DEBIT (decimal_str (- amount))
         (decimal_str (py_double (compute_balance (ws_db st) w + amount))) reason MetaNone None) (absorb E st) = Inr (ev, st1)"
      "set_used w (decimal_str (py_double (compute_balance (ws_db st) w + amount))) st1 = Inr st2"
      "st' = invalidate_cache w st2"
proof (cases "amount \<le> 0")
  case True
  then have "ev = noop_event w" "st' = st" using assms by (simp_all add: record_internal_cost_def)
  with True show thesis by (rule noop)
next
  case False
  from assms show thesis
    unfolding record_internal_cost_def Let_def if_not_P[OF False]
    apply (elim bindE_InrE)
    apply (simp only: split_paired_all prod.case sum.inject prod.inject split: if_splits)
    apply (simp_all only: sum.distinct)
    apply (elim bindE_InrE)
    apply (simp only: split_paired_all prod.case sum.inject prod.inject)
    apply (elim bindE_InrE)
    apply (rule fresh; assumption?)
    using False apply (simp_all only: not_le not_less sum.inject prod.inject)
    done
qed

lemma credit_cases:
  assumes "credit E w amount reason st = Inr (ev, st')"
  obtains flow st1 where "get_workflow (ws_db st) w = Inr flow"
      "insert_event E (draft_event w None CREDIT (decimal_str amount)
         (decimal_str (max 0 (py_double (compute_balance (ws_db st) w - amount)))) reason MetaNone None) (absorb E st) = Inr (ev, st1)"
      "st' = invalidate_cache w st1"
  using assms unfolding credit_def Let_def
  apply (elim bindE_InrE)
  apply (simp only: split_paired_all prod.case sum.inject prod.inject)
  done

section \<open>The table invariant\<close>

definition event_ok :: "wallet_db \<Rightarrow> wallet_event \<Rightarrow> bool" where
  "event_ok db e \<longleftrightarrow> on_grid (we_delta e) \<and> \<bar>we_delta e\<bar> < 10 ^ 8
     \<and> we_workflow e \<in> br_id ` set (wd_flows db)
     \<and> (we_agent e \<noteq> None \<longrightarrow> the (we_agent e) \<in> set (wd_agents db))
     \<and> (we_action e = RELEASE \<longrightarrow> 0 \<le> we_delta e) \<and> (we_action e = RESERVE \<longrightarrow> we_delta e \<le> 0)"

definition keys_unique :: "wallet_event list \<Rightarrow> bool" where
  "keys_unique es \<longleftrightarrow> distinct (filter (\<lambda>k. k \<noteq> None) (map we_key es))"

definition wallet_ok :: "wallet_db \<Rightarrow> bool" where
  "wallet_ok db \<longleftrightarrow> distinct (map we_id (wd_events db)) \<and> keys_unique (wd_events db)
     \<and> (\<forall>e \<in> set (wd_events db). event_ok db e)
     \<and> distinct (map br_id (wd_flows db)) \<and> (\<forall>r \<in> set (wd_flows db). on_grid (br_limit r) \<and> \<bar>br_limit r\<bar> < 10 ^ 8)"

lemma insert_event_ok:
  assumes "insert_event E ev st = Inr (row, st')" "wallet_ok (ws_db st)"
    and "we_action ev = RELEASE \<Longrightarrow> 0 \<le> we_delta ev" "we_action ev = RESERVE \<Longrightarrow> we_delta ev \<le> 0"
  shows "wallet_ok (ws_db st')"
proof -
  note i = insert_event_Inr[OF assms(1)]
  have sign: "numeric4 d \<le> 0" if "d \<le> 0" for d using numeric4_nonneg[of "- d"] that by (simp add: numeric4_minus)
  have "event_ok (ws_db st') row"
    using i(3,6,7) assms(3,4) numeric4_nonneg sign by (auto simp: event_ok_def i(1,2))
  moreover have "keys_unique (wd_events (ws_db st'))"
    using assms(2) i(5) by (auto simp: wallet_ok_def keys_unique_def i(1,2))
  moreover have "distinct (map we_id (wd_events (ws_db st')))"
    using assms(2) i(4) by (auto simp: wallet_ok_def i(2))
  moreover have "\<forall>e \<in> set (wd_events (ws_db st)). event_ok (ws_db st') e"
    using assms(2) by (auto simp: wallet_ok_def event_ok_def i(2))
  ultimately show ?thesis using assms(2) by (simp add: wallet_ok_def i(2))
qed

lemma set_used_ok:
  assumes "set_used w v st = Inr st'" "wallet_ok (ws_db st)"
  shows "wallet_ok (ws_db st')"
proof -
  let ?fs = "wd_flows (ws_db st)" and ?fs' = "wd_flows (ws_db st')"
  have fs: "?fs' = map (\<lambda>r. if br_id r = w then r\<lparr>br_used := numeric4 v\<rparr> else r) ?fs"
    and rest: "wd_events (ws_db st') = wd_events (ws_db st)" "wd_agents (ws_db st') = wd_agents (ws_db st)"
    using set_used_Inr[OF assms(1)] by simp_all
  have ids: "map br_id ?fs' = map br_id ?fs" by (simp add: fs comp_def if_distrib cong: if_cong)
  then have "set (map br_id ?fs') = set (map br_id ?fs)" by (simp only:)
  then have flows: "br_id ` set ?fs' = br_id ` set ?fs" by simp
  have "\<forall>r \<in> set ?fs'. on_grid (br_limit r) \<and> \<bar>br_limit r\<bar> < 10 ^ 8" using assms(2) by (auto simp: fs wallet_ok_def)
  with assms(2) ids flows show ?thesis unfolding wallet_ok_def event_ok_def by (simp only: rest) blast
qed

datatype wallet_call =
    CallReserve uuid uuid rat string "string option"
  | CallCharge uuid uuid rat uuid string "string option"
  | CallRelease uuid uuid string "string option"
  | CallRecord uuid rat string "uuid option"
  | CallCredit uuid rat string

fun wallet_do :: "wallet_env \<Rightarrow> wallet_call \<Rightarrow> wallet_state \<Rightarrow> wallet_error + (wallet_event \<times> wallet_state)" where
  "wallet_do E (CallReserve w a c reason key) st = reserve_budget E w a c reason key st"
| "wallet_do E (CallCharge w a c rid reason key) st = charge E w a c rid reason key st"
| "wallet_do E (CallRelease w rid reason key) st = release_reservation E w rid reason key st"
| "wallet_do E (CallRecord w c reason a) st = record_internal_cost E w c reason a st"
| "wallet_do E (CallCredit w c reason) st = credit E w c reason st"

definition state_ok :: "wallet_state \<Rightarrow> bool" where
  "state_ok st \<longleftrightarrow> wallet_ok (ws_db st) \<and> wallet_ok (ws_start st)"

text \<open>Rows are only ever added, after what was there; a conflict drops the transaction instead.\<close>

definition grows :: "wallet_db \<Rightarrow> wallet_db \<Rightarrow> bool" where
  "grows db db' \<longleftrightarrow> (\<exists>new. wd_events db' = wd_events db @ new) \<and> map br_limit (wd_flows db') = map br_limit (wd_flows db)
     \<and> map br_id (wd_flows db') = map br_id (wd_flows db) \<and> wd_agents db' = wd_agents db"

lemma grows_refl [simp]: "grows db db"
  by (simp add: grows_def)

lemma grows_trans: "grows a b \<Longrightarrow> grows b c \<Longrightarrow> grows a c"
  by (auto simp: grows_def)

lemma grows_absorb: "grows (ws_db st) (ws_db (absorb E st))"
  by (simp add: grows_def)

lemma grows_insert: "insert_event E ev st = Inr (row, st') \<Longrightarrow> grows (ws_db st) (ws_db st') \<and> ws_start st' = ws_start st"
  using insert_event_Inr(2)[of E ev st row st'] by (auto simp: grows_def)

lemma grows_set_used: "set_used w v st = Inr st' \<Longrightarrow> grows (ws_db st) (ws_db st') \<and> ws_start st' = ws_start st"
  by (drule set_used_Inr) (simp add: grows_def comp_def if_distrib cong: if_cong)

lemma draft_event_fields [simp]:
  "we_action (draft_event w a act d b r m k) = act" "we_delta (draft_event w a act d b r m k) = d"
  "we_key (draft_event w a act d b r m k) = k" "we_workflow (draft_event w a act d b r m k) = w"
  "we_agent (draft_event w a act d b r m k) = a"
  by (simp_all add: draft_event_def)

lemma reservation_amount_nonneg: "0 \<le> decimal_str (reservation_amount r)"
  by (simp add: decimal_str_nonneg reservation_amount_def)

lemma wallet_do_ok:
  assumes run: "wallet_do E c st = Inr (ev, st')" and ok: "state_ok st" "state_ok (absorb E st)"
  shows "state_ok st' \<and> (grows (ws_db st) (ws_db st') \<or> st' = rollback (absorb E st))"
proof -
  have inserted: "state_ok st2 \<and> grows (ws_db st1) (ws_db st2)"
    if "insert_event E e st1 = Inr (row, st2)" "state_ok st1"
      "we_action e = RELEASE \<Longrightarrow> 0 \<le> we_delta e" "we_action e = RESERVE \<Longrightarrow> we_delta e \<le> 0" for e st1 row st2
    using insert_event_ok[OF that(1) _ that(3,4)] grows_insert[OF that(1)] that(2) by (auto simp: state_ok_def)
  have updated: "state_ok st2 \<and> grows (ws_db st1) (ws_db st2)" if "set_used w v st1 = Inr st2" "state_ok st1" for w v st1 st2
    using set_used_ok[OF that(1)] grows_set_used[OF that(1)] that(2) by (auto simp: state_ok_def)
  have inval: "state_ok (invalidate_cache w s) = state_ok s" for w s by (simp add: state_ok_def)
  have undone: "state_ok (rollback (absorb E st))" using ok(2) by (simp add: state_ok_def rollback_def)
  note g = grows_trans[OF grows_absorb]
  show ?thesis
  proof (cases c)
    case (CallReserve w a cost reason key)
    have neg: "decimal_str (- cost) \<le> 0" if "0 < cost" using that by (simp add: decimal_str_minus decimal_str_nonneg)
    from run[unfolded CallReserve wallet_do.simps] show ?thesis
    proof (cases rule: reserve_cases)
      case (fresh flow row)
      have "state_ok row" "grows (ws_db (absorb E st)) (ws_db row)" using inserted[OF fresh(5) ok(2)] neg[OF fresh(1)] by simp_all
      then show ?thesis using g by (simp add: fresh(6) inval)
    qed (use ok undone in simp_all)
  next
    case (CallCharge w a cost rid reason key)
    from run[unfolded CallCharge wallet_do.simps] show ?thesis
    proof (cases rule: charge_cases)
      case (fresh r rel st1 st2 st3)
      have 1: "state_ok st1" "grows (ws_db (absorb E st)) (ws_db st1)"
        using inserted[OF fresh(3) ok(2)] reservation_amount_nonneg by simp_all
      have 2: "state_ok st2" "grows (ws_db st1) (ws_db st2)" using inserted[OF fresh(4) 1(1)] by simp_all
      have 3: "state_ok st3" "grows (ws_db st2) (ws_db st3)" using updated[OF fresh(5) 2(1)] by simp_all
      from g[OF grows_trans[OF 1(2) grows_trans[OF 2(2) 3(2)]]] 3(1) show ?thesis by (simp add: fresh(6) inval)
    qed (use ok in simp_all)
  next
    case (CallRelease w rid reason key)
    from run[unfolded CallRelease wallet_do.simps] show ?thesis
    proof (cases rule: release_cases)
      case (fresh r row)
      have "state_ok row" "grows (ws_db (absorb E st)) (ws_db row)"
        using inserted[OF fresh(3) ok(2)] reservation_amount_nonneg by simp_all
      then show ?thesis using g by (simp add: fresh(4) inval)
    qed (use ok undone in simp_all)
  next
    case (CallRecord w amount reason a)
    from run[unfolded CallRecord wallet_do.simps] show ?thesis
    proof (cases rule: record_cases)
      case (fresh flow st1 st2)
      have 1: "state_ok st1" "grows (ws_db (absorb E st)) (ws_db st1)" using inserted[OF fresh(4) ok(2)] by simp_all
      have 2: "state_ok st2" "grows (ws_db st1) (ws_db st2)" using updated[OF fresh(5) 1(1)] by simp_all
      from g[OF grows_trans[OF 1(2) 2(2)]] 2(1) show ?thesis by (simp add: fresh(6) inval)
    qed (use ok in simp_all)
  next
    case (CallCredit w amount reason)
    from run[unfolded CallCredit wallet_do.simps] show ?thesis
    proof (cases rule: credit_cases)
      case (1 flow st1)
      have "state_ok st1" "grows (ws_db (absorb E st)) (ws_db st1)" using inserted[OF 1(2) ok(2)] by simp_all
      then show ?thesis using g by (simp add: 1(3) inval)
    qed
  qed
qed

text \<open>Every successful wallet call keeps the tables well formed (unique ids and idempotency keys,
  amounts of four decimals within the column, referenced workflows and agents present, holds not
  positive and releases not negative) and either only appends events, leaving every earlier event
  and every limit as it was, or drops the transaction after a conflict.\<close>

theorem wallet_append_only:
  assumes "wallet_do E c st = Inr (ev, st')" and "state_ok st" and "state_ok (absorb E st)"
  shows "state_ok st' \<and> (grows (ws_db st) (ws_db st') \<or> st' = rollback (absorb E st))"
  using assms by (rule wallet_do_ok)

section \<open>The abstract account\<close>

text \<open>What a workflow's ledger stands for: the amount spent, topped up, and held.\<close>

record account =
  ac_spent :: rat
  ac_topped :: rat
  ac_held :: rat

definition account_of :: "wallet_db \<Rightarrow> uuid \<Rightarrow> account" where
  "account_of db w = \<lparr>ac_spent = - total DEBIT w (wd_events db), ac_topped = total CREDIT w (wd_events db),
     ac_held = total_abs RESERVE w (wd_events db) - total RELEASE w (wd_events db)\<rparr>"

datatype account_op = Hold rat | Free rat | Spend rat | TopUp rat | Settle rat rat

fun account_apply :: "account_op \<Rightarrow> account \<Rightarrow> account" where
  "account_apply (Hold a) ac = ac\<lparr>ac_held := ac_held ac + a\<rparr>"
| "account_apply (Free a) ac = ac\<lparr>ac_held := ac_held ac - a\<rparr>"
| "account_apply (Spend a) ac = ac\<lparr>ac_spent := ac_spent ac + a\<rparr>"
| "account_apply (TopUp a) ac = ac\<lparr>ac_topped := ac_topped ac + a\<rparr>"
| "account_apply (Settle h a) ac = ac\<lparr>ac_held := ac_held ac - h, ac_spent := ac_spent ac + a\<rparr>"

definition update_account :: "uuid \<Rightarrow> account_op \<Rightarrow> (uuid \<Rightarrow> account) \<Rightarrow> uuid \<Rightarrow> account" where
  "update_account w aop accs = accs(w := account_apply aop (accs w))"

text \<open>The amount a double becomes when it is stored.\<close>

definition stored :: "rat \<Rightarrow> rat" where
  "stored x = numeric4 (decimal_str x)"

fun event_op :: "wallet_action \<Rightarrow> rat \<Rightarrow> account_op" where
  "event_op RESERVE d = Hold \<bar>d\<bar>"
| "event_op RELEASE d = Free d"
| "event_op DEBIT d = Spend (- d)"
| "event_op CREDIT d = TopUp d"

lemma account_insert:
  assumes "insert_event E ev st = Inr (row, st')"
  shows "account_of (ws_db st') = update_account (we_workflow ev) (event_op (we_action ev) (numeric4 (we_delta ev))) (account_of (ws_db st))"
proof
  fix v
  have row: "we_workflow row = we_workflow ev" "we_action row = we_action ev" "we_delta row = numeric4 (we_delta ev)"
    "wd_events (ws_db st') = wd_events (ws_db st) @ [row]"
    using insert_event_Inr(1,2)[OF assms] by simp_all
  show "account_of (ws_db st') v = update_account (we_workflow ev) (event_op (we_action ev) (numeric4 (we_delta ev))) (account_of (ws_db st)) v"
    by (cases "we_action ev") (auto simp: account_of_def total_def total_abs_def update_account_def row)
qed

lemma account_views [simp]:
  "account_of (db\<lparr>wd_flows := fs\<rparr>) = account_of db"
  by (simp add: account_of_def fun_eq_iff)

lemma account_set_used: "set_used w v st = Inr st' \<Longrightarrow> account_of (ws_db st') = account_of (ws_db st)"
  by (drule set_used_Inr) simp

lemma find_reservation_ok:
  assumes "find_reservation db rid = Inr r" "wallet_ok db"
  shows "r \<in> set (wd_events db) \<and> we_id r = rid \<and> we_action r = RESERVE \<and> stored (reservation_amount r) = - we_delta r"
proof -
  have r: "r \<in> set (wd_events db)" "we_id r = rid" "we_action r = RESERVE"
    using assms(1) find_SomeD[of "\<lambda>e. we_id e = rid \<and> we_action e = RESERVE" "wd_events db" r]
    by (auto simp: find_reservation_def split: option.splits)
  with assms(2) have ok: "on_grid (we_delta r)" "\<bar>we_delta r\<bar> < 10 ^ 8" "we_delta r \<le> 0" by (auto simp: wallet_ok_def event_ok_def)
  have "py_double (we_delta r) = - py_double (- we_delta r)" by (simp add: py_double_minus)
  then have "reservation_amount r = py_double (- we_delta r)" using ok(3) by (simp add: reservation_amount_def)
  with stored_amount[of "- we_delta r"] ok(1,2) r show ?thesis by (auto simp: stored_def)
qed

lemma stored_minus: "stored (- x) = - stored x"
  by (simp add: stored_def decimal_str_minus numeric4_minus)

lemma stored_nonneg: "0 \<le> x \<Longrightarrow> 0 \<le> stored x"
  by (simp add: stored_def decimal_str_nonneg numeric4_nonneg)

text \<open>The account operation a call stands for, on the tables it runs on.\<close>

fun call_op :: "wallet_db \<Rightarrow> wallet_call \<Rightarrow> account_op" where
  "call_op db (CallReserve w a c reason key) = Hold (stored c)"
| "call_op db (CallCharge w a c rid reason key) =
     (case find_reservation db rid of Inr r \<Rightarrow> Settle (- we_delta r) (stored c) | Inl _ \<Rightarrow> Spend (stored c))"
| "call_op db (CallRelease w rid reason key) =
     (case find_reservation db rid of Inr r \<Rightarrow> Free (- we_delta r) | Inl _ \<Rightarrow> Free 0)"
| "call_op db (CallRecord w c reason a) = (if c \<le> 0 then Spend 0 else Spend (stored c))"
| "call_op db (CallCredit w c reason) = TopUp (stored c)"

fun call_workflow :: "wallet_call \<Rightarrow> uuid" where
  "call_workflow (CallReserve w a c reason key) = w"
| "call_workflow (CallCharge w a c rid reason key) = w"
| "call_workflow (CallRelease w rid reason key) = w"
| "call_workflow (CallRecord w c reason a) = w"
| "call_workflow (CallCredit w c reason) = w"

fun call_key :: "wallet_call \<Rightarrow> string option" where
  "call_key (CallReserve w a c reason key) = key"
| "call_key (CallCharge w a c rid reason key) = key"
| "call_key (CallRelease w rid reason key) = key"
| "call_key _ = None"

definition no_race :: "wallet_env \<Rightarrow> wallet_state \<Rightarrow> bool" where
  "no_race E st \<longleftrightarrow> wn_race E (ws_db st) = []"

lemma absorb_no_race: "no_race E st \<Longrightarrow> absorb E st = st"
  by (simp add: no_race_def absorb_def)

lemma account_refined:
  assumes run: "wallet_do E c st = Inr (ev, st')" and ok: "wallet_ok (ws_db st)" and race: "no_race E st"
    and key: "replay (ws_db st) (call_key c) = None" "replay (ws_start st) (call_key c) = None"
  shows "account_of (ws_db st') = update_account (call_workflow c) (call_op (ws_db st) c) (account_of (ws_db st))"
proof (cases c)
  case (CallReserve w a cost reason k)
  from run[unfolded CallReserve wallet_do.simps] show ?thesis
  proof (cases rule: reserve_cases)
    case conflict
    then show ?thesis using key CallReserve race by (simp add: absorb_no_race)
  next
    case (fresh flow row)
    have "\<bar>stored (- cost)\<bar> = stored cost" using fresh(1) by (simp add: stored_minus stored_nonneg)
    with account_insert[OF fresh(5)] show ?thesis
      using fresh(6) CallReserve race by (simp add: absorb_no_race stored_def)
  qed (use key CallReserve in simp)
next
  case (CallCharge w a cost rid reason k)
  from run[unfolded CallCharge wallet_do.simps] show ?thesis
  proof (cases rule: charge_cases)
    case (fresh r rel st1 st2 st3)
    have r: "stored (reservation_amount r) = - we_delta r" using find_reservation_ok[OF fresh(2) ok] by simp
    have m: "numeric4 (decimal_str (- cost)) = - stored cost" using stored_minus[of cost] by (simp add: stored_def)
    have "account_of (ws_db st') = account_of (ws_db st2)" using account_set_used[OF fresh(5)] fresh(6) by simp
    also have "\<dots> = update_account w (Spend (stored cost)) (account_of (ws_db st1))"
      using account_insert[OF fresh(4)] by (simp add: m)
    also have "account_of (ws_db st1) = update_account w (Free (- we_delta r)) (account_of (ws_db st))"
      using account_insert[OF fresh(3)] r race by (simp add: absorb_no_race stored_def)
    finally show ?thesis using CallCharge fresh(2) by (auto simp: update_account_def)
  qed (use key CallCharge in simp)
next
  case (CallRelease w rid reason k)
  from run[unfolded CallRelease wallet_do.simps] show ?thesis
  proof (cases rule: release_cases)
    case conflict
    then show ?thesis using key CallRelease race by (simp add: absorb_no_race)
  next
    case (fresh r row)
    have r: "stored (reservation_amount r) = - we_delta r" using find_reservation_ok[OF fresh(2) ok] by simp
    with account_insert[OF fresh(3)] show ?thesis
      using fresh(2,4) CallRelease race by (simp add: absorb_no_race stored_def)
  qed (use key CallRelease in simp)
next
  case (CallRecord w amount reason a)
  from run[unfolded CallRecord wallet_do.simps] show ?thesis
  proof (cases rule: record_cases)
    case noop
    then show ?thesis using CallRecord by (simp add: update_account_def)
  next
    case (fresh flow st1 st2)
    have m: "numeric4 (decimal_str (- amount)) = - stored amount" using stored_minus[of amount] by (simp add: stored_def)
    have "account_of (ws_db st') = account_of (ws_db st1)" using account_set_used[OF fresh(5)] fresh(6) by simp
    with account_insert[OF fresh(4)] show ?thesis
      using fresh(1) CallRecord race by (simp add: absorb_no_race m)
  qed
next
  case (CallCredit w amount reason)
  from run[unfolded CallCredit wallet_do.simps] show ?thesis
  proof (cases rule: credit_cases)
    case (1 flow st1)
    with account_insert[OF 1(2)] show ?thesis using CallCredit race by (simp add: absorb_no_race stored_def)
  qed
qed

text \<open>C9. The ledger refines the account: a successful fresh call, with no other session committing in
  between, changes the account of its workflow by the call's account operation, in amounts as they
  are stored, and leaves every other account alone.\<close>

theorem wallet_refines_account:
  assumes "wallet_do E c st = Inr (ev, st')" and "wallet_ok (ws_db st)" and "no_race E st"
    and "replay (ws_db st) (call_key c) = None" and "replay (ws_start st) (call_key c) = None"
  shows "account_of (ws_db st') = update_account (call_workflow c) (call_op (ws_db st) c) (account_of (ws_db st))"
  using assms by (rule account_refined)

section \<open>The budget bound\<close>

text \<open>What a workflow has committed itself to: what is spent beyond the credits, and what is held.\<close>

definition exposure :: "wallet_db \<Rightarrow> uuid \<Rightarrow> rat" where
  "exposure db w = max 0 (\<bar>total DEBIT w (wd_events db)\<bar> - total CREDIT w (wd_events db))
     + max 0 (total_abs RESERVE w (wd_events db) - total RELEASE w (wd_events db))"

text \<open>Ledger sums that a double represents well within a ten-thousandth.\<close>

definition moderate :: "wallet_db \<Rightarrow> uuid \<Rightarrow> bool" where
  "moderate db w \<longleftrightarrow> \<bar>total DEBIT w (wd_events db)\<bar> \<le> 10 ^ 9 \<and> \<bar>total CREDIT w (wd_events db)\<bar> \<le> 10 ^ 9
     \<and> \<bar>total_abs RESERVE w (wd_events db)\<bar> \<le> 10 ^ 9 \<and> \<bar>total RELEASE w (wd_events db)\<bar> \<le> 10 ^ 9"

lemma total_grid: "wallet_ok db \<Longrightarrow> on_grid (total a w (wd_events db)) \<and> on_grid (total_abs a w (wd_events db))"
  by (auto simp: wallet_ok_def event_ok_def total_def total_abs_def intro!: on_grid_sum_list on_grid_intros(5))

lemma exposure_grid: "wallet_ok db \<Longrightarrow> on_grid (exposure db w)"
  unfolding exposure_def using total_grid[of db] by (intro on_grid_intros) auto

lemma double_diff:
  assumes "\<bar>x\<bar> \<le> 10 ^ 9" "\<bar>y\<bar> \<le> 10 ^ 9" "\<bar>x' - x\<bar> \<le> 1 / 500000" "\<bar>y' - y\<bar> \<le> 1 / 500000"
  shows "\<bar>max 0 (py_double (x' - y')) - max 0 (x - y)\<bar> \<le> 3 / 500000"
proof -
  have "\<bar>(x' - y') - (x - y)\<bar> \<le> 2 / 500000" using assms(3,4) by linarith
  moreover have "\<bar>x - y\<bar> \<le> 10 ^ 10" using assms(1,2) by (simp add: abs_le_iff)
  ultimately have "\<bar>py_double (x' - y') - (x - y)\<bar> \<le> 2 / 500000 + 1 / 500000" by (rule double_near) simp
  then show ?thesis by (auto simp: max_def abs_if split: if_splits)
qed

lemma available_near:
  assumes "moderate db w" "\<bar>limit\<bar> < 10 ^ 8"
  shows "\<bar>py_double (py_double (py_double limit - compute_balance db w) - compute_reserved db w)
           - (limit - exposure db w)\<bar> \<le> 1 / 50000"
proof -
  define D C R L where "D = \<bar>total DEBIT w (wd_events db)\<bar>" and "C = total CREDIT w (wd_events db)"
    and "R = total_abs RESERVE w (wd_events db)" and "L = total RELEASE w (wd_events db)"
  have small: "\<bar>D\<bar> \<le> 10 ^ 9" "\<bar>C\<bar> \<le> 10 ^ 9" "\<bar>R\<bar> \<le> 10 ^ 9" "\<bar>L\<bar> \<le> 10 ^ 9"
    using assms(1) by (simp_all add: moderate_def D_def C_def R_def L_def)
  have near: "\<bar>py_double x - x\<bar> \<le> 1 / 500000" if "\<bar>x\<bar> \<le> 10 ^ 9" for x
    using double_near[of x x 0] that by simp
  define u r where "u = max 0 (D - C)" and "r = max 0 (R - L)"
  have "\<bar>\<bar>py_double (total DEBIT w (wd_events db))\<bar> - D\<bar> \<le> \<bar>py_double (total DEBIT w (wd_events db)) - total DEBIT w (wd_events db)\<bar>"
    unfolding D_def by (rule abs_triangle_ineq3)
  also have "\<dots> \<le> 1 / 500000" using small(1) by (intro near) (simp add: D_def)
  finally have u: "\<bar>compute_balance db w - u\<bar> \<le> 3 / 500000"
    unfolding compute_balance_def u_def using small near[OF small(2)] by (intro double_diff) (simp_all add: C_def)
  have r: "\<bar>compute_reserved db w - r\<bar> \<le> 3 / 500000"
    unfolding compute_reserved_def r_def using small near[OF small(3)] near[OF small(4)]
    by (intro double_diff) (simp_all add: R_def L_def)
  have bu: "0 \<le> u" "u \<le> 2000000000" "0 \<le> r" "r \<le> 2000000000"
    using small by (auto simp: u_def r_def max_def abs_le_iff)
  have bl: "\<bar>limit\<bar> \<le> 1000000000" using assms(2) by simp
  then have l: "\<bar>py_double limit - limit\<bar> \<le> 1 / 500000" by (intro near) simp
  have "\<bar>(py_double limit - compute_balance db w) - (limit - u)\<bar> \<le> 4 / 500000" using l u by linarith
  moreover have "\<bar>limit - u\<bar> \<le> 3000000000" using bl bu by linarith
  ultimately have 1: "\<bar>py_double (py_double limit - compute_balance db w) - (limit - u)\<bar> \<le> 5 / 500000"
    using double_near[of "py_double limit - compute_balance db w" "limit - u" "4 / 500000"] by simp
  then have "\<bar>(py_double (py_double limit - compute_balance db w) - compute_reserved db w) - (limit - u - r)\<bar> \<le> 8 / 500000"
    using r by linarith
  moreover have "\<bar>limit - u - r\<bar> \<le> 5000000000" using bl bu by linarith
  ultimately have "\<bar>py_double (py_double (py_double limit - compute_balance db w) - compute_reserved db w) - (limit - u - r)\<bar> \<le> 9 / 500000"
    using double_near[of "py_double (py_double limit - compute_balance db w) - compute_reserved db w" "limit - u - r" "8 / 500000"] by simp
  moreover have "limit - u - r = limit - exposure db w" by (simp add: exposure_def u_def r_def D_def C_def R_def L_def)
  ultimately show ?thesis by linarith
qed

lemma reserve_bounded:
  assumes run: "reserve_budget E w agent cost reason key st = Inr (ev, st')"
    and fresh: "replay (ws_db st) key = None" "replay (ws_start (absorb E st)) key = None"
    and ok: "wallet_ok (ws_db st)" "moderate (ws_db st) w"
    and lock: "exposure (ws_db (absorb E st)) w \<le> exposure (ws_db st) w"
    and flow: "get_workflow (ws_db st) w = Inr flow"
  shows "exposure (ws_db st') w \<le> br_limit flow"
  using run
proof (cases rule: reserve_cases)
  case (fresh flow' row)
  have fl: "flow' = flow" using fresh(3) flow by simp
  have "flow \<in> set (wd_flows (ws_db st))"
    using flow lookup_by_Some[of br_id w "wd_flows (ws_db st)" flow] by (auto simp: get_workflow_def split: option.splits)
  with ok(1) have lim: "on_grid (br_limit flow)" "\<bar>br_limit flow\<bar> < 10 ^ 8" by (auto simp: wallet_ok_def)
  let ?A = "br_limit flow - exposure (ws_db st) w"
  have near: "cost \<le> ?A + 1 / 50000" 
    using available_near[OF ok(2) lim(2)] fresh(4) unfolding fl by linarith
  have e0: "0 \<le> exposure (ws_db st) w" by (simp add: exposure_def)
  have "\<bar>br_limit flow\<bar> < 100000000" using lim(2) by simp
  then have "cost \<le> 200000000" using near e0 by linarith
  moreover have "\<bar>decimal_str cost - cost\<bar> \<le> cost / 1000000000000000" using decimal_str_error[of cost] fresh(1) by simp
  ultimately have "decimal_str cost < ?A + 1 / 20000" using near by linarith
  then have le: "stored cost \<le> ?A" unfolding stored_def
    using lim(1) exposure_grid[OF ok(1)] by (intro numeric4_le_grid) auto
  have d: "\<bar>numeric4 (decimal_str (- cost))\<bar> = stored cost"
    using stored_minus[of cost] stored_nonneg[of cost] fresh(1) by (simp add: stored_def)
  have acc: "account_of (ws_db st') w = account_apply (Hold (stored cost)) (account_of (ws_db (absorb E st)) w)"
    using account_insert[OF fresh(5)] fresh(6) d by (simp add: update_account_def)
  have ex: "exposure db w = max 0 (\<bar>ac_spent (account_of db w)\<bar> - ac_topped (account_of db w)) + max 0 (ac_held (account_of db w))" for db
    by (simp add: exposure_def account_of_def)
  have "exposure (ws_db st') w \<le> exposure (ws_db (absorb E st)) w + stored cost"
    using stored_nonneg[of cost] fresh(1) by (simp add: ex acc max_def)
  with lock le show ?thesis by linarith
qed (use fresh in simp_all)

text \<open>C8. Reservations never overcommit a budget: after a fresh reservation succeeds, what the workflow
  has spent and holds is within its limit, exactly and in stored amounts, although the check runs
  in floating point. Other sessions may have committed in between, as long as they did not
  commit this workflow to more, which the row lock ensures among reservations.\<close>

theorem reserve_within_budget:
  assumes "reserve_budget E w agent cost reason key st = Inr (ev, st')"
    and "replay (ws_db st) key = None" and "replay (ws_start (absorb E st)) key = None"
    and "wallet_ok (ws_db st)" and "moderate (ws_db st) w"
    and "exposure (ws_db (absorb E st)) w \<le> exposure (ws_db st) w"
    and "get_workflow (ws_db st) w = Inr flow"
  shows "exposure (ws_db st') w \<le> br_limit flow"
  using assms by (rule reserve_bounded)

section \<open>Idempotency keys\<close>

text \<open>The contract of a call with an idempotency key: a stored event is returned as it is, and what a
  call returns is stored under its key.\<close>

locale idempotent_op =
  fixes lookup :: "'s \<Rightarrow> 'k \<Rightarrow> 'e option"
    and call :: "'a \<Rightarrow> 'k \<Rightarrow> 's \<Rightarrow> 'x + ('e \<times> 's)"
    and valid :: "'a \<Rightarrow> 'k \<Rightarrow> bool"
  assumes hit: "valid a k \<Longrightarrow> lookup s k = Some e \<Longrightarrow> call a k s = Inr (e, s)"
    and stored_under: "valid a k \<Longrightarrow> call a k s = Inr (e, s') \<Longrightarrow> lookup s' k = Some e"
begin

lemma retry:
  assumes "valid a k" "valid b k" "call a k s = Inr (e, s')"
  shows "call b k s' = Inr (e, s')"
  using hit[OF assms(2) stored_under[OF assms(1,3)]] .

lemma retries:
  assumes "valid a k" "call a k s = Inr (e, s')" "\<forall>b \<in> set bs. valid b k"
  shows "foldl (\<lambda>r b. bindE r (\<lambda>(_, t). call b k t)) (Inr (e, s')) bs = Inr (e, s')"
  using assms(3) by (induction bs) (simp_all add: retry[OF assms(1) _ assms(2)])

end

fun keyed_call :: "wallet_env \<times> wallet_call \<Rightarrow> string \<Rightarrow> bool" where
  "keyed_call (E, CallReserve w a cost reason key) k \<longleftrightarrow> 0 < cost \<and> key = Some k \<and> k \<noteq> []"
| "keyed_call (E, CallCharge w a cost rid reason key) k \<longleftrightarrow> key = Some k \<and> k \<noteq> []"
| "keyed_call (E, CallRelease w rid reason key) k \<longleftrightarrow> key = Some k \<and> k \<noteq> []"
| "keyed_call _ k \<longleftrightarrow> False"

lemma replay_inserted:
  assumes "insert_event E ev st = Inr (row, st')" "we_key ev = Some k" "k \<noteq> []"
  shows "replay (ws_db st') (Some k) = Some row"
  using insert_event_Inr(1,2,5)[OF assms(1)] assms(2,3) replay_append_new[of row k "wd_events (ws_db st)" "ws_db st"]
  by auto

lemma replay_set_used: "set_used w v st = Inr st' \<Longrightarrow> replay (ws_db st') key = replay (ws_db st) key"
  by (drule set_used_Inr) (simp add: replay_def find_by_key_def split: option.split)

interpretation keyed: idempotent_op "\<lambda>st k. replay (ws_db st) (Some k)" "\<lambda>(E, c) k. wallet_do E c" keyed_call
proof
  fix a k and s :: wallet_state and e
  assume "keyed_call a k" "replay (ws_db s) (Some k) = Some e"
  then show "(case a of (E, c) \<Rightarrow> \<lambda>k. wallet_do E c) k s = Inr (e, s)"
    by (cases "(a, k)" rule: keyed_call.cases)
      (simp_all add: reserve_budget_def charge_def release_reservation_def)
next
  fix a k s and e :: wallet_event and s'
  assume valid: "keyed_call a k" and run: "(case a of (E, c) \<Rightarrow> \<lambda>k. wallet_do E c) k s = Inr (e, s')"
  obtain E c where a: "a = (E, c)" by (cases a)
  have run: "wallet_do E c s = Inr (e, s')" using run a by simp
  show "replay (ws_db s') (Some k) = Some e"
  proof (cases c)
    case (CallReserve w ag cost reason key)
    have key: "key = Some k" "k \<noteq> []" using valid a CallReserve by simp_all
    from run[unfolded CallReserve wallet_do.simps] show ?thesis
      by (cases rule: reserve_cases) (use key in \<open>simp_all add: replay_inserted\<close>)
  next
    case (CallCharge w ag cost rid reason key)
    have key: "key = Some k" "k \<noteq> []" using valid a CallCharge by simp_all
    from run[unfolded CallCharge wallet_do.simps] show ?thesis
    proof (cases rule: charge_cases)
      case (fresh r rel st1 st2 st3)
      then show ?thesis using key replay_inserted[OF fresh(4), of k] replay_set_used[OF fresh(5), of "Some k"] by simp
    qed (use key in simp)
  next
    case (CallRelease w rid reason key)
    have key: "key = Some k" "k \<noteq> []" using valid a CallRelease by simp_all
    from run[unfolded CallRelease wallet_do.simps] show ?thesis
      by (cases rule: release_cases) (use key in \<open>simp_all add: replay_inserted\<close>)
  qed (use valid a in simp_all)
qed

text \<open>A keyed call is executed at most once: after a call with an idempotency key succeeds, any
  number of further calls with that key, of the same or another operation and with whatever
  arguments, return the same event and change nothing.\<close>

theorem wallet_retry_safe:
  assumes "keyed_call (E, c) k" and "wallet_do E c st = Inr (ev, st')" and "\<forall>b \<in> set retries. keyed_call b k"
  shows "foldl (\<lambda>r (F, b). bindE r (\<lambda>(_, t). wallet_do F b t)) (Inr (ev, st')) retries = Inr (ev, st')"
  using keyed.retries[OF assms(1) _ assms(3), of st ev st'] assms(2) by (simp add: case_prod_unfold)

section \<open>Releasing a reservation twice\<close>

lemma find_reservation_insert:
  assumes "insert_event E ev st = Inr (row, st')" "find_reservation (ws_db st) rid = Inr r"
  shows "find_reservation (ws_db st') rid = Inr r"
proof -
  have app: "List.find P xs = Some y \<Longrightarrow> List.find P (xs @ zs) = Some y" for P xs y and zs :: "wallet_event list"
    by (induction xs) auto
  show ?thesis
    using insert_event_Inr(2)[OF assms(1)] assms(2) app by (auto simp: find_reservation_def split: option.splits)
qed

text \<open>Nothing ties a release to an open reservation: a second release of the same reservation (what the
  scheduler issues when a task whose keyed reservation was replayed fails again) is booked like the
  first, so the hold of its workflow drops by twice the reserved amount, at the expense of the other
  reservations of the workflow.\<close>

theorem release_twice_frees_twice:
  assumes "release_reservation E w rid reason None st = Inr (e1, st1)"
    and "release_reservation E w rid reason None st1 = Inr (e2, st2)"
    and "wallet_ok (ws_db st)" and "no_race E st" and "no_race E st1"
  shows "\<exists>r \<in> set (wd_events (ws_db st)). we_id r = rid \<and> we_action r = RESERVE
    \<and> ac_held (account_of (ws_db st2) w) = ac_held (account_of (ws_db st) w) - 2 * \<bar>we_delta r\<bar>"
proof -
  have key: "replay db None = None" for db by (simp add: replay_def)
  from assms(1) show ?thesis
  proof (cases rule: release_cases)
    case (fresh r row)
    note r = find_reservation_ok[OF fresh(2) assms(3)]
    have neg: "\<bar>we_delta r\<bar> = - we_delta r" using r assms(3) by (auto simp: wallet_ok_def event_ok_def)
    have "find_reservation (ws_db st1) rid = Inr r"
      using find_reservation_insert[OF fresh(3)] fresh(2,4) absorb_no_race[OF assms(4)] by simp
    moreover have "wallet_ok (ws_db st1)"
      using insert_event_ok[OF fresh(3)] assms(3) fresh(4) reservation_amount_nonneg absorb_no_race[OF assms(4)] by simp
    ultimately show ?thesis
      using account_refined[of E "CallRelease w rid reason None" st1 e2 st2] account_refined[of E "CallRelease w rid reason None" st e1 st1]
        assms fresh(2) r neg key by (intro bexI[of _ r]) (simp_all add: update_account_def)
  qed (simp_all add: key)
qed

section \<open>A concrete wallet\<close>

definition demo_wallet_env :: wallet_env where
  "demo_wallet_env = \<lparr>wn_new_id = (\<lambda>db. of_nat (length (wd_events db))), wn_now = 0, wn_row_ok = (\<lambda>_. True), wn_race = (\<lambda>_. [])\<rparr>"

definition demo_wallet_db :: "wallet_event list \<Rightarrow> wallet_db" where
  "demo_wallet_db es = \<lparr>wd_events = es, wd_flows = [\<lparr>br_id = 1, br_limit = 10, br_used = 0\<rparr>], wd_agents = [7]\<rparr>"

definition demo_wallet :: "wallet_event list \<Rightarrow> wallet_state" where
  "demo_wallet es = \<lparr>ws_start = demo_wallet_db [], ws_db = demo_wallet_db es, ws_cache = []\<rparr>"

definition demo_reserve :: wallet_event where
  "demo_reserve = \<lparr>we_id = 0, we_workflow = 1, we_agent = Some 7, we_action = RESERVE, we_delta = - 5, we_balance = 5,
     we_reason = ''task'', we_meta = MetaEstimate 5, we_key = Some ''k'', we_created = 0\<rparr>"

definition demo_release :: "uuid \<Rightarrow> wallet_event" where
  "demo_release i = \<lparr>we_id = i, we_workflow = 1, we_agent = Some 7, we_action = RELEASE, we_delta = 5, we_balance = 0,
     we_reason = ''failed'', we_meta = MetaReservation 0, we_key = None, we_created = 0\<rparr>"

lemma numeral_amounts [simp]:
  "py_double 10 = 10" "py_double 5 = 5" "py_double (- 5) = - 5"
  "decimal_str 5 = 5" "decimal_str (- 5) = - 5" "decimal_str 0 = 0"
  "numeric_12_4 5 = Some 5" "numeric_12_4 (- 5) = Some (- 5)" "numeric_12_4 0 = Some 0"
  by (simp_all add: py_double_int decimal_str_int numeric_12_4_def numeric4_int)

lemmas demo_wallet_defs = demo_wallet_env_def demo_wallet_db_def demo_wallet_def demo_reserve_def demo_release_def

lemma demo_wallet_ok:
  "state_ok (demo_wallet [])" "state_ok (demo_wallet [demo_reserve])" "no_race demo_wallet_env (demo_wallet es)"
  "absorb demo_wallet_env (demo_wallet es) = demo_wallet es"
  by (simp_all add: state_ok_def wallet_ok_def event_ok_def keys_unique_def on_grid_def no_race_def absorb_def demo_wallet_defs)

lemma demo_inserts:
  "insert_event demo_wallet_env (draft_event 1 (Some 7) RESERVE (- 5) 5 ''task'' (MetaEstimate 5) (Some ''k'')) (demo_wallet [])
     = Inr (demo_reserve, demo_wallet [demo_reserve])"
  "insert_event demo_wallet_env (draft_event 1 (Some 7) RELEASE 5 0 ''failed'' (MetaReservation 0) None) (demo_wallet [demo_reserve])
     = Inr (demo_release 1, demo_wallet [demo_reserve, demo_release 1])"
  "insert_event demo_wallet_env (draft_event 1 (Some 7) RELEASE 5 0 ''failed'' (MetaReservation 0) None)
       (demo_wallet [demo_reserve, demo_release 1])
     = Inr (demo_release 2, demo_wallet [demo_reserve, demo_release 1, demo_release 2])"
  by (simp_all add: insert_event_def Let_def draft_event_def demo_wallet_defs)

lemma demo_reads:
  "replay (ws_db (demo_wallet [])) (Some ''k'') = None" "replay db None = None"
  "get_workflow (ws_db (demo_wallet es)) 1 = Inr \<lparr>br_id = 1, br_limit = 10, br_used = 0\<rparr>"
  "compute_balance (ws_db (demo_wallet [])) 1 = 0" "compute_reserved (ws_db (demo_wallet [])) 1 = 0"
  "find_reservation (ws_db (demo_wallet (demo_reserve # es))) 0 = Inr demo_reserve"
  "invalidate_cache w (demo_wallet es) = demo_wallet es"
  by (simp_all add: replay_def find_by_key_def get_workflow_def compute_balance_def compute_reserved_def
      total_def total_abs_def find_reservation_def invalidate_cache_def demo_wallet_defs)

lemma demo_reserved:
  "wallet_do demo_wallet_env (CallReserve 1 7 5 ''task'' (Some ''k'')) (demo_wallet []) = Inr (demo_reserve, demo_wallet [demo_reserve])"
  by (simp add: reserve_budget_def Let_def insert_or_replay_def demo_inserts demo_reads demo_wallet_ok(4))

lemma demo_released:
  "release_reservation demo_wallet_env 1 0 ''failed'' None (demo_wallet [demo_reserve])
     = Inr (demo_release 1, demo_wallet [demo_reserve, demo_release 1])"
  "release_reservation demo_wallet_env 1 0 ''failed'' None (demo_wallet [demo_reserve, demo_release 1])
     = Inr (demo_release 2, demo_wallet [demo_reserve, demo_release 1, demo_release 2])"
proof -
  have "\<bar>py_double (we_delta demo_reserve)\<bar> = 5" "we_agent demo_reserve = Some 7" by (simp_all add: demo_reserve_def)
  then show
    "release_reservation demo_wallet_env 1 0 ''failed'' None (demo_wallet [demo_reserve])
       = Inr (demo_release 1, demo_wallet [demo_reserve, demo_release 1])"
    "release_reservation demo_wallet_env 1 0 ''failed'' None (demo_wallet [demo_reserve, demo_release 1])
       = Inr (demo_release 2, demo_wallet [demo_reserve, demo_release 1, demo_release 2])"
    by (simp_all add: release_reservation_def Let_def insert_or_replay_def demo_inserts demo_reads demo_wallet_ok(4))
qed

theorem wallet_append_only_witness:
  "state_ok (demo_wallet []) \<and> state_ok (demo_wallet [demo_reserve])"
  using wallet_append_only[OF demo_reserved demo_wallet_ok(1)] demo_wallet_ok by simp

theorem wallet_refines_account_witness:
  "account_of (demo_wallet_db [demo_reserve])
     = update_account 1 (Hold (stored 5)) (account_of (demo_wallet_db [])) \<and> stored 5 = 5"
proof -
  have "wallet_ok (ws_db (demo_wallet []))" using demo_wallet_ok(1) by (simp add: state_ok_def)
  from wallet_refines_account[OF demo_reserved this demo_wallet_ok(3)] show ?thesis
    by (simp add: stored_def numeric4_int demo_wallet_def demo_wallet_db_def replay_def find_by_key_def)
qed

theorem reserve_within_budget_witness:
  "exposure (demo_wallet_db [demo_reserve]) 1 \<le> 10"
proof -
  have "wallet_ok (ws_db (demo_wallet []))" using demo_wallet_ok(1) by (simp add: state_ok_def)
  from reserve_within_budget[OF demo_reserved[unfolded wallet_do.simps] _ _ this, of "\<lparr>br_id = 1, br_limit = 10, br_used = 0\<rparr>"]
  show ?thesis
    by (simp add: demo_wallet_ok(4))
      (simp add: demo_wallet_def demo_wallet_db_def replay_def find_by_key_def moderate_def total_def total_abs_def get_workflow_def)
qed

theorem wallet_retry_safe_witness:
  "reserve_budget demo_wallet_env 1 7 9 ''again'' (Some ''k'') (demo_wallet [demo_reserve]) = Inr (demo_reserve, demo_wallet [demo_reserve])"
  using wallet_retry_safe[OF _ demo_reserved, of "''k''" "[(demo_wallet_env, CallReserve 1 7 9 ''again'' (Some ''k''))]"] by simp

theorem release_twice_frees_twice_witness:
  "ac_held (account_of (demo_wallet_db [demo_reserve, demo_release 1, demo_release 2]) 1) = - 5"
proof -
  have ok: "wallet_ok (ws_db (demo_wallet [demo_reserve]))" using demo_wallet_ok(2) by (simp add: state_ok_def)
  have held: "ac_held (account_of (ws_db (demo_wallet [demo_reserve])) 1) = 5"
    by (simp add: account_of_def total_def total_abs_def demo_wallet_defs)
  from release_twice_frees_twice[OF demo_released ok demo_wallet_ok(3,3)] show ?thesis
    by (simp add: held) (simp add: demo_wallet_defs)
qed

end
