(* ===== verification/Circuit_Breaker.thy ===== *)
theory Circuit_Breaker
  imports Py_Float
begin

text \<open>
  Models \<^verbatim>\<open>backend/app/core/circuit_breaker.py\<close>. The Redis keys of one breaker are the fields of a
  record; a counter carries the time at which its key expires. A call is two steps, since other
  processes act on the same keys while the protected function runs: \<open>admit\<close> is \<open>call\<close> up to the
  invocation, \<open>record_success\<close> and \<open>record_failure\<close> are what follows it. Times are doubles.
\<close>

section \<open>State and operations\<close>

datatype circuit_state = CbClosed | CbOpen | CbHalfOpen

record breaker_config =
  bc_failure_threshold :: int
  bc_recovery_timeout :: rat
  bc_half_open_max :: int

type_synonym counter = "(int \<times> rat) option"

record breaker =
  cb_state :: "circuit_state option"
  cb_failures :: counter
  cb_opened_at :: "rat option"
  cb_half_open_calls :: counter

definition get_state :: "breaker \<Rightarrow> circuit_state" where
  "get_state b = (case cb_state b of None \<Rightarrow> CbClosed | Some s \<Rightarrow> s)"

definition counter_value :: "rat \<Rightarrow> counter \<Rightarrow> int" where
  "counter_value now c = (case c of None \<Rightarrow> 0 | Some (n, expires) \<Rightarrow> if now < expires then n else 0)"

text \<open>\<open>INCR\<close> followed by \<open>EXPIRE\<close> of twice the recovery timeout, in whole seconds.\<close>

definition counter_ttl :: "breaker_config \<Rightarrow> int" where
  "counter_ttl cfg = (let t = py_double (bc_recovery_timeout cfg * 2) in if t < 0 then - \<lfloor>- t\<rfloor> else \<lfloor>t\<rfloor>)"

definition increment :: "breaker_config \<Rightarrow> rat \<Rightarrow> counter \<Rightarrow> counter" where
  "increment cfg now c = Some (counter_value now c + 1, now + of_int (counter_ttl cfg))"

definition get_opened_at :: "breaker \<Rightarrow> rat" where
  "get_opened_at b = (case cb_opened_at b of None \<Rightarrow> 0 | Some t \<Rightarrow> t)"

definition open_circuit :: "rat \<Rightarrow> breaker \<Rightarrow> breaker" where
  "open_circuit now b = b\<lparr>cb_state := Some CbOpen, cb_opened_at := Some now\<rparr>"

datatype breaker_error = CircuitOpen

definition admit :: "breaker_config \<Rightarrow> rat \<Rightarrow> breaker \<Rightarrow> (breaker_error + circuit_state) \<times> breaker" where
  "admit cfg now b =
     (let enter_half_open = (\<lambda>b.
            if bc_half_open_max cfg \<le> counter_value now (cb_half_open_calls b) then (Inl CircuitOpen, b)
            else (Inr CbHalfOpen, b\<lparr>cb_half_open_calls := increment cfg now (cb_half_open_calls b)\<rparr>))
      in case get_state b of
           CbOpen \<Rightarrow>
             if bc_recovery_timeout cfg \<le> py_double (now - get_opened_at b)
             then enter_half_open (b\<lparr>cb_state := Some CbHalfOpen, cb_half_open_calls := None\<rparr>)
             else (Inl CircuitOpen, b)
         | CbHalfOpen \<Rightarrow> enter_half_open b
         | CbClosed \<Rightarrow> (Inr CbClosed, b))"

definition record_success :: "circuit_state \<Rightarrow> breaker \<Rightarrow> breaker" where
  "record_success current b =
     (case current of
        CbHalfOpen \<Rightarrow> b\<lparr>cb_state := Some CbClosed, cb_failures := None, cb_half_open_calls := None\<rparr>
      | CbClosed \<Rightarrow> b\<lparr>cb_failures := None\<rparr>
      | CbOpen \<Rightarrow> b)"

definition record_failure :: "breaker_config \<Rightarrow> rat \<Rightarrow> circuit_state \<Rightarrow> breaker \<Rightarrow> breaker" where
  "record_failure cfg now current b =
     (case current of
        CbHalfOpen \<Rightarrow> open_circuit now b
      | CbClosed \<Rightarrow>
          let b' = b\<lparr>cb_failures := increment cfg now (cb_failures b)\<rparr>
          in if bc_failure_threshold cfg \<le> counter_value now (cb_failures b) + 1
             then open_circuit now b' else b'
      | CbOpen \<Rightarrow> b)"

record breaker_status =
  bs_state :: circuit_state
  bs_failure_count :: int
  bs_failure_threshold :: int
  bs_recovery_timeout :: rat

definition get_status :: "breaker_config \<Rightarrow> rat \<Rightarrow> breaker \<Rightarrow> breaker_status" where
  "get_status cfg now b =
     \<lparr>bs_state = get_state b, bs_failure_count = counter_value now (cb_failures b),
      bs_failure_threshold = bc_failure_threshold cfg, bs_recovery_timeout = bc_recovery_timeout cfg\<rparr>"

text \<open>A whole call when nothing else happens while the function runs; \<open>ok\<close> tells whether it returns.\<close>

definition call :: "breaker_config \<Rightarrow> rat \<Rightarrow> bool \<Rightarrow> breaker \<Rightarrow> (breaker_error + bool) \<times> breaker" where
  "call cfg now ok b =
     (case admit cfg now b of
        (Inl err, b') \<Rightarrow> (Inl err, b')
      | (Inr current, b') \<Rightarrow>
          (Inr ok, if ok then record_success current b' else record_failure cfg now current b'))"

section \<open>Tripping\<close>

definition fail_calls :: "breaker_config \<Rightarrow> rat list \<Rightarrow> breaker \<Rightarrow> breaker" where
  "fail_calls cfg stamps b = foldl (\<lambda>b now. snd (call cfg now False b)) b stamps"

text \<open>Calls close enough that the failure counter does not expire in between.\<close>

fun close_together :: "rat \<Rightarrow> rat list \<Rightarrow> bool" where
  "close_together d (t # u # ts) \<longleftrightarrow> t \<le> u \<and> u < t + d \<and> close_together d (u # ts)"
| "close_together d _ \<longleftrightarrow> True"

lemma closed_failure:
  assumes "get_state b = CbClosed"
  shows "snd (call cfg now False b) = record_failure cfg now CbClosed b"
  using assms by (simp add: call_def admit_def)

lemma fail_calls_count:
  assumes "get_state b = CbClosed" "counter_value t (cb_failures b) = n" "close_together (of_int (counter_ttl cfg)) (t # ts)"
    and "0 \<le> n" "n + int (length ts) + 1 \<le> bc_failure_threshold cfg"
  shows "get_state (fail_calls cfg (t # ts) b)
      = (if n + int (length ts) + 1 = bc_failure_threshold cfg then CbOpen else CbClosed)
    \<and> (n + int (length ts) + 1 = bc_failure_threshold cfg \<longrightarrow> get_opened_at (fail_calls cfg (t # ts) b) = last (t # ts))"
  using assms
proof (induction ts arbitrary: t n b)
  case Nil
  then show ?case
    by (simp add: fail_calls_def closed_failure record_failure_def Let_def open_circuit_def get_state_def get_opened_at_def)
next
  case (Cons u ts)
  let ?b = "record_failure cfg t CbClosed b"
  have "n + 1 < bc_failure_threshold cfg" using Cons.prems by simp
  then have b: "?b = b\<lparr>cb_failures := increment cfg t (cb_failures b)\<rparr>"
    using Cons.prems by (simp add: record_failure_def Let_def)
  have "counter_value u (cb_failures ?b) = n + 1"
    using Cons.prems by (simp add: b increment_def counter_value_def)
  moreover have "get_state ?b = CbClosed" using Cons.prems by (simp add: b get_state_def)
  ultimately have "get_state (fail_calls cfg (u # ts) ?b) = (if n + 1 + int (length ts) + 1 = bc_failure_threshold cfg then CbOpen else CbClosed)
      \<and> (n + 1 + int (length ts) + 1 = bc_failure_threshold cfg \<longrightarrow> get_opened_at (fail_calls cfg (u # ts) ?b) = last (u # ts))"
    using Cons.prems by (intro Cons.IH) simp_all
  moreover have "fail_calls cfg (t # u # ts) b = fail_calls cfg (u # ts) ?b"
    using Cons.prems(1) by (simp add: fail_calls_def closed_failure)
  ultimately show ?case by (simp add: algebra_simps)
qed

text \<open>A closed breaker trips on exactly the threshold: after up to \<open>failure_threshold\<close> consecutive failing
  calls, each within the counter's lifetime of the one before, it is open if there were that many
  and closed otherwise, and the time it records is that of the last failure.\<close>

theorem breaker_trips_at_threshold:
  assumes "get_state b = CbClosed" and "cb_failures b = None" and "stamps \<noteq> []"
    and "close_together (of_int (counter_ttl cfg)) stamps"
    and "int (length stamps) \<le> bc_failure_threshold cfg"
  shows "get_state (fail_calls cfg stamps b) = (if int (length stamps) = bc_failure_threshold cfg then CbOpen else CbClosed)
    \<and> (int (length stamps) = bc_failure_threshold cfg \<longrightarrow> get_opened_at (fail_calls cfg stamps b) = last stamps)"
proof -
  obtain t ts where stamps: "stamps = t # ts" using assms(3) by (cases stamps) auto
  have "counter_value t (cb_failures b) = 0" using assms(2) by (simp add: counter_value_def)
  from fail_calls_count[OF assms(1) this _ order_refl] assms(4,5) stamps show ?thesis by simp
qed

section \<open>Recovery with interleaved calls\<close>

text \<open>Processes admit calls and report earlier ones in any order; an event is one of the three steps.\<close>

datatype breaker_event = Admit rat | Succeed circuit_state rat | Fail circuit_state rat

fun event_time :: "breaker_event \<Rightarrow> rat" where
  "event_time (Admit t) = t"
| "event_time (Succeed s t) = t"
| "event_time (Fail s t) = t"

fun breaker_step :: "breaker_config \<Rightarrow> breaker_event \<Rightarrow> breaker \<Rightarrow> breaker" where
  "breaker_step cfg (Admit now) b = snd (admit cfg now b)"
| "breaker_step cfg (Succeed s now) b = record_success s b"
| "breaker_step cfg (Fail s now) b = record_failure cfg now s b"

text \<open>The calls a history lets through.\<close>

fun admitted :: "breaker_config \<Rightarrow> breaker_event list \<Rightarrow> breaker \<Rightarrow> nat" where
  "admitted cfg [] b = 0"
| "admitted cfg (e # es) b =
     (case e of Admit now \<Rightarrow> if is_ok (fst (admit cfg now b)) then 1 else 0 | _ \<Rightarrow> 0)
       + admitted cfg es (breaker_step cfg e b)"

fun stays :: "circuit_state \<Rightarrow> breaker_config \<Rightarrow> breaker_event list \<Rightarrow> breaker \<Rightarrow> bool" where
  "stays s cfg [] b \<longleftrightarrow> get_state b = s"
| "stays s cfg (e # es) b \<longleftrightarrow> get_state b = s \<and> stays s cfg es (breaker_step cfg e b)"

lemma half_open_admit:
  assumes "get_state b = CbHalfOpen"
  shows "admit cfg now b = (if bc_half_open_max cfg \<le> counter_value now (cb_half_open_calls b) then (Inl CircuitOpen, b)
     else (Inr CbHalfOpen, b\<lparr>cb_half_open_calls := increment cfg now (cb_half_open_calls b)\<rparr>))"
  using assms by (simp add: admit_def)

lemma straggler_keeps_counter:
  assumes "get_state b = CbHalfOpen" "get_state (breaker_step cfg e b) = CbHalfOpen" "\<forall>t. e \<noteq> Admit t"
  shows "cb_half_open_calls (breaker_step cfg e b) = cb_half_open_calls b"
proof (cases e)
  case (Succeed s t)
  with assms show ?thesis by (cases s) (auto simp: record_success_def get_state_def)
next
  case (Fail s t)
  with assms show ?thesis by (cases s) (auto simp: record_failure_def Let_def open_circuit_def get_state_def)
qed (use assms in auto)

lemma half_open_admissions:
  assumes "stays CbHalfOpen cfg es b" "cb_half_open_calls b = Some (n, expires)" "0 \<le> n"
    and "\<forall>e \<in> set es. t0 \<le> event_time e \<and> event_time e < t0 + of_int (counter_ttl cfg)" "t0 + of_int (counter_ttl cfg) \<le> expires"
  shows "n + int (admitted cfg es b) \<le> max n (bc_half_open_max cfg)"
  using assms
proof (induction es arbitrary: b n expires)
  case (Cons e es)
  have st: "get_state b = CbHalfOpen" and rest: "stays CbHalfOpen cfg es (breaker_step cfg e b)" using Cons.prems(1) by simp_all
  have st': "get_state (breaker_step cfg e b) = CbHalfOpen" using rest by (cases es) simp_all
  have stamps: "\<forall>e \<in> set es. t0 \<le> event_time e \<and> event_time e < t0 + of_int (counter_ttl cfg)" using Cons.prems(4) by simp
  show ?case
  proof (cases "\<exists>t. e = Admit t")
    case False
    then have keep: "cb_half_open_calls (breaker_step cfg e b) = Some (n, expires)"
      using straggler_keeps_counter[OF st st'] Cons.prems(2) by auto
    have "admitted cfg (e # es) b = admitted cfg es (breaker_step cfg e b)" using False by (cases e) auto
    with Cons.IH[OF rest keep Cons.prems(3) stamps Cons.prems(5)] show ?thesis by simp
  next
    case True
    then obtain t where e: "e = Admit t" by blast
    have t: "t0 \<le> t" "t < expires" using Cons.prems(4,5) e by auto
    then have v: "counter_value t (cb_half_open_calls b) = n" using Cons.prems(2) by (simp add: counter_value_def)
    show ?thesis
    proof (cases "bc_half_open_max cfg \<le> n")
      case True
      then have "admit cfg t b = (Inl CircuitOpen, b)" using half_open_admit[OF st] v by simp
      then show ?thesis
        using Cons.IH[of b n expires] rest Cons.prems(2,3,5) stamps e by simp
    next
      case False
      let ?b = "b\<lparr>cb_half_open_calls := increment cfg t (cb_half_open_calls b)\<rparr>"
      have adm: "admit cfg t b = (Inr CbHalfOpen, ?b)" using False half_open_admit[OF st] v by simp
      have c: "cb_half_open_calls ?b = Some (n + 1, t + of_int (counter_ttl cfg))" using v by (simp add: increment_def)
      have "n + 1 + int (admitted cfg es ?b) \<le> max (n + 1) (bc_half_open_max cfg)"
        by (rule Cons.IH[OF _ c]) (use rest e adm Cons.prems(3) stamps t in auto)
      with False show ?thesis by (simp add: e adm)
    qed
  qed
qed simp

lemma open_rejects:
  assumes "get_state b = CbOpen" "py_double (now - get_opened_at b) < bc_recovery_timeout cfg"
  shows "admit cfg now b = (Inl CircuitOpen, b)"
  using assms by (simp add: admit_def)

text \<open>Recovery is guarded: before the recovery timeout an open breaker rejects every call and stays as
  it is; the call that finds the timeout over turns it half open, and from then on, whatever other
  processes admit and report, at most \<open>half_open_max_calls\<close> calls are let through while it stays
  half open and the call counter lives.\<close>

theorem breaker_recovery_guarded:
  assumes "get_state b = CbOpen" and "0 < bc_half_open_max cfg"
    and "\<forall>e \<in> set es. now \<le> event_time e \<and> event_time e < now + of_int (counter_ttl cfg)"
    and "stays CbHalfOpen cfg es (snd (admit cfg now b))"
  shows "(if py_double (now - get_opened_at b) < bc_recovery_timeout cfg
          then admit cfg now b = (Inl CircuitOpen, b)
          else fst (admit cfg now b) = Inr CbHalfOpen
            \<and> 1 + int (admitted cfg es (snd (admit cfg now b))) \<le> bc_half_open_max cfg)"
proof (cases "py_double (now - get_opened_at b) < bc_recovery_timeout cfg")
  case True
  then show ?thesis using open_rejects[OF assms(1)] by simp
next
  case False
  let ?b = "b\<lparr>cb_state := Some CbHalfOpen, cb_half_open_calls := Some (1, now + of_int (counter_ttl cfg))\<rparr>"
  have adm: "admit cfg now b = (Inr CbHalfOpen, ?b)"
    using False assms(1,2) by (simp add: admit_def counter_value_def increment_def)
  have "1 + int (admitted cfg es ?b) \<le> max 1 (bc_half_open_max cfg)"
    by (rule half_open_admissions[of cfg es ?b 1 "now + of_int (counter_ttl cfg)" now])
      (use assms(3,4) adm in auto)
  with False adm assms(2) show ?thesis by simp
qed

section \<open>A concrete breaker\<close>

definition demo_breaker_config :: breaker_config where
  "demo_breaker_config = \<lparr>bc_failure_threshold = 2, bc_recovery_timeout = 60, bc_half_open_max = 3\<rparr>"

definition new_breaker :: breaker where
  "new_breaker = \<lparr>cb_state = None, cb_failures = None, cb_opened_at = None, cb_half_open_calls = None\<rparr>"

lemma demo_counter_ttl: "counter_ttl demo_breaker_config = 120"
  by (simp add: counter_ttl_def demo_breaker_config_def py_double_int)

theorem breaker_trips_at_threshold_witness:
  "get_state (fail_calls demo_breaker_config [100, 130] new_breaker) = CbOpen
     \<and> get_state (fail_calls demo_breaker_config [100] new_breaker) = CbClosed"
proof -
  have "get_state new_breaker = CbClosed" "cb_failures new_breaker = None" by (simp_all add: new_breaker_def get_state_def)
  note t = breaker_trips_at_threshold[OF this, of _ demo_breaker_config]
  show ?thesis using t[of "[100, 130]"] t[of "[100]"] by (simp add: demo_counter_ttl) (simp add: demo_breaker_config_def)
qed

theorem breaker_recovery_guarded_witness:
  "1 + int (admitted demo_breaker_config [Admit 201, Admit 202, Admit 203]
       (snd (admit demo_breaker_config 200 (open_circuit 100 new_breaker)))) \<le> 3"
proof -
  have b: "get_state (open_circuit 100 new_breaker) = CbOpen" "get_opened_at (open_circuit 100 new_breaker) = 100"
    by (simp_all add: open_circuit_def get_state_def get_opened_at_def)
  have d: "py_double 100 = 100" by (simp add: py_double_int)
  have stay: "stays CbHalfOpen demo_breaker_config [Admit 201, Admit 202, Admit 203]
      (snd (admit demo_breaker_config 200 (open_circuit 100 new_breaker)))"
    by (simp add: admit_def open_circuit_def get_state_def get_opened_at_def d counter_value_def increment_def
        demo_counter_ttl new_breaker_def) (simp add: demo_breaker_config_def)
  have c: "bc_half_open_max demo_breaker_config = 3" "bc_recovery_timeout demo_breaker_config = 60"
    by (simp_all add: demo_breaker_config_def)
  show ?thesis
    using breaker_recovery_guarded[OF b(1) _ _ stay] by (simp add: b(2) d c demo_counter_ttl del: admitted.simps breaker_step.simps)
qed

end
