(* ===== verification/Policy_Decision.thy ===== *)
theory Policy_Decision
  imports Json_Canon "HOL-Library.Product_Lexorder"
begin

text \<open>
  Models \<^verbatim>\<open>backend/app/safety/decision.py\<close> and \<^verbatim>\<open>backend/app/safety/registry.py\<close>: decisions, their
  aggregation, the rule registry, and the evaluation of the registered rules.

  A rule is a function from the context and the state behind its query handles to a result and the
  new state; an exception and a value of another type are results of their own. The registry dict
  is the list of its entries in insertion order. A reason is the list of the parts of its f-string,
  their rendering is left out, and so is the creation time.
\<close>

section \<open>Decisions\<close>

datatype decision_action = DecAllow | DecDeny | DecEscalate | DecAbstain

datatype reason_part = Txt string | Num rat | Str string | Repr "string option" | ReprNum "rat option" | Exc

type_synonym reason = "reason_part list"

record decision =
  de_action :: decision_action
  de_rule_id :: "string option"
  de_reason :: reason
  de_metadata :: "(string \<times> json) list"
  de_contributing :: "string list"

definition dec_allow :: "string option \<Rightarrow> reason \<Rightarrow> (string \<times> json) list \<Rightarrow> decision" where
  "dec_allow rid reason metadata =
     \<lparr>de_action = DecAllow, de_rule_id = rid, de_reason = reason, de_metadata = metadata, de_contributing = []\<rparr>"

definition dec_deny :: "string option \<Rightarrow> reason \<Rightarrow> (string \<times> json) list \<Rightarrow> decision" where
  "dec_deny rid reason metadata =
     \<lparr>de_action = DecDeny, de_rule_id = rid, de_reason = reason, de_metadata = metadata, de_contributing = []\<rparr>"

definition dec_escalate :: "string option \<Rightarrow> reason \<Rightarrow> (string \<times> json) list \<Rightarrow> decision" where
  "dec_escalate rid reason metadata =
     \<lparr>de_action = DecEscalate, de_rule_id = rid, de_reason = reason, de_metadata = metadata, de_contributing = []\<rparr>"

definition dec_abstain :: "string option \<Rightarrow> reason \<Rightarrow> decision" where
  "dec_abstain rid reason =
     \<lparr>de_action = DecAbstain, de_rule_id = rid, de_reason = reason, de_metadata = [], de_contributing = []\<rparr>"

text \<open>A rule id that is \<open>None\<close> or empty does not count.\<close>

definition named_rule :: "decision \<Rightarrow> string option" where
  "named_rule d = (case de_rule_id d of None \<Rightarrow> None | Some r \<Rightarrow> if r = [] then None else Some r)"

fun dict_set :: "string \<Rightarrow> 'a \<Rightarrow> (string \<times> 'a) list \<Rightarrow> (string \<times> 'a) list" where
  "dict_set k v [] = [(k, v)]"
| "dict_set k v ((k', v') # kvs) = (if k' = k then (k, v) # kvs else (k', v') # dict_set k v kvs)"

text \<open>\<open>setdefault("by_rule", {})[rule_id] = ...\<close> and \<open>setdefault("unattributed", []).append(...)\<close>.\<close>

definition merge_one :: "decision \<Rightarrow> (string \<times> json) list \<Rightarrow> (string \<times> json) list" where
  "merge_one d out =
     (if de_metadata d = [] then out
      else case named_rule d of
        Some r \<Rightarrow>
          let cur = (case map_of out ''by_rule'' of Some (JObj kvs) \<Rightarrow> kvs | _ \<Rightarrow> [])
          in dict_set ''by_rule'' (JObj (dict_set r (JObj (de_metadata d)) cur)) out
      | None \<Rightarrow>
          let cur = (case map_of out ''unattributed'' of Some (JArr vs) \<Rightarrow> vs | _ \<Rightarrow> [])
          in dict_set ''unattributed'' (JArr (cur @ [JObj (de_metadata d)])) out)"

definition merged_metadata :: "decision list \<Rightarrow> (string \<times> json) list" where
  "merged_metadata ds = foldl (\<lambda>out d. merge_one d out) [] ds"

definition won_by :: "decision_action \<Rightarrow> decision list \<Rightarrow> decision list \<Rightarrow> decision" where
  "won_by act winners non_abstain =
     \<lparr>de_action = act, de_rule_id = de_rule_id (hd winners), de_reason = de_reason (hd winners),
      de_metadata = merged_metadata winners, de_contributing = List.map_filter named_rule non_abstain\<rparr>"

definition aggregate :: "decision list \<Rightarrow> decision" where
  "aggregate ds =
     (if ds = [] then dec_abstain None [Txt ''no rules registered'']
      else let non_abstain = filter (\<lambda>d. de_action d \<noteq> DecAbstain) ds in
        if non_abstain = [] then dec_abstain None [Txt ''all rules abstained'']
        else let denies = filter (\<lambda>d. de_action d = DecDeny) non_abstain in
          if denies \<noteq> [] then won_by DecDeny denies non_abstain
          else let escalations = filter (\<lambda>d. de_action d = DecEscalate) non_abstain in
            if escalations \<noteq> [] then won_by DecEscalate escalations non_abstain
            else won_by DecAllow (filter (\<lambda>d. de_action d = DecAllow) non_abstain) non_abstain)"

section \<open>The registry\<close>

datatype rule_result = Verdict decision | Crashed | NonDecision

record ('c, 's) rule_entry =
  re_rule_id :: string
  re_description :: string
  re_function :: "'c \<Rightarrow> 's \<Rightarrow> rule_result \<times> 's"
  re_priority :: int
  re_enabled :: bool
  re_tags :: "string list"

type_synonym ('c, 's) registry = "('c, 's) rule_entry list"

fun register :: "('c, 's) rule_entry \<Rightarrow> ('c, 's) registry \<Rightarrow> ('c, 's) registry" where
  "register e [] = [e]"
| "register e (r # rs) = (if re_rule_id r = re_rule_id e then e # rs else r # register e rs)"

definition unregister :: "string \<Rightarrow> ('c, 's) registry \<Rightarrow> bool \<times> ('c, 's) registry" where
  "unregister rid rs = (rid \<in> re_rule_id ` set rs, filter (\<lambda>r. re_rule_id r \<noteq> rid) rs)"

definition registry_get :: "string \<Rightarrow> ('c, 's) registry \<Rightarrow> ('c, 's) rule_entry option" where
  "registry_get rid rs = lookup_by re_rule_id rid rs"

definition registry_all :: "bool \<Rightarrow> ('c, 's) registry \<Rightarrow> ('c, 's) rule_entry list" where
  "registry_all include_disabled rs =
     sort_key (\<lambda>r. (re_priority r, re_rule_id r)) (filter (\<lambda>r. include_disabled \<or> re_enabled r) rs)"

definition set_enabled :: "string \<Rightarrow> bool \<Rightarrow> ('c, 's) registry \<Rightarrow> bool \<times> ('c, 's) registry" where
  "set_enabled rid b rs =
     (case registry_get rid rs of
        None \<Rightarrow> (False, rs)
      | Some _ \<Rightarrow> (True, map (\<lambda>r. if re_rule_id r = rid then r\<lparr>re_enabled := b\<rparr> else r) rs))"

section \<open>Evaluation\<close>

definition to_decision :: "string \<Rightarrow> rule_result \<Rightarrow> decision" where
  "to_decision rid res =
     (case res of
        Verdict d \<Rightarrow> d
      | Crashed \<Rightarrow> dec_abstain (Some rid) [Txt ''rule crashed: '', Exc]
      | NonDecision \<Rightarrow> dec_abstain (Some rid) [Txt ''rule returned non-Decision''])"

fun run_rules :: "'c \<Rightarrow> ('c, 's) rule_entry list \<Rightarrow> 's \<Rightarrow> decision list \<times> 's" where
  "run_rules ctx [] s = ([], s)"
| "run_rules ctx (r # rs) s =
     (let (res, s1) = re_function r ctx s; d = to_decision (re_rule_id r) res in
      if (case res of Verdict v \<Rightarrow> de_action v = DecDeny | _ \<Rightarrow> False) then ([d], s1)
      else let (ds, s2) = run_rules ctx rs s1 in (d # ds, s2))"

definition evaluate :: "('c, 's) registry \<Rightarrow> 'c \<Rightarrow> string list option \<Rightarrow> 's \<Rightarrow> decision \<times> 's" where
  "evaluate rs ctx rule_ids s =
     (let rules = (case rule_ids of
                     None \<Rightarrow> registry_all False rs
                   | Some ids \<Rightarrow> filter (\<lambda>r. re_rule_id r \<in> set ids) (registry_all True rs));
          (ds, s') = run_rules ctx rules s
      in (aggregate ds, s'))"

section \<open>Aggregation is a maximum\<close>

text \<open>The verdict of a list of decisions is the strongest action in it.\<close>

fun strength :: "decision_action \<Rightarrow> nat" where
  "strength DecAbstain = 0"
| "strength DecAllow = 1"
| "strength DecEscalate = 2"
| "strength DecDeny = 3"

definition verdict :: "decision_action list \<Rightarrow> decision_action" where
  "verdict acts =
     (if DecDeny \<in> set acts then DecDeny else if DecEscalate \<in> set acts then DecEscalate
      else if DecAllow \<in> set acts then DecAllow else DecAbstain)"

lemma aggregate_action: "de_action (aggregate ds) = verdict (map de_action ds)"
proof -
  have any: "filter (\<lambda>d. de_action d = a) (filter (\<lambda>d. de_action d \<noteq> DecAbstain) ds) = [] \<longleftrightarrow> a \<notin> de_action ` set ds"
    if "a \<noteq> DecAbstain" for a
    using that by (auto simp: filter_empty_conv image_iff)
  have none: "filter (\<lambda>d. de_action d \<noteq> DecAbstain) ds = [] \<longleftrightarrow> (\<forall>a \<in> de_action ` set ds. a = DecAbstain)"
    by (auto simp: filter_empty_conv)
  note deny = any[of DecDeny] and esc = any[of DecEscalate]
  show ?thesis
  proof (cases "\<forall>a \<in> de_action ` set ds. a = DecAbstain")
    case True
    then have "de_action (aggregate ds) = DecAbstain" by (simp add: aggregate_def none dec_abstain_def)
    with True show ?thesis by (auto simp: verdict_def)
  next
    case False
    then have ne: "ds \<noteq> []" by auto
    show ?thesis
    proof (cases "DecDeny \<in> de_action ` set ds")
      case True
      with False ne deny show ?thesis by (simp only: aggregate_def Let_def none) (simp add: won_by_def verdict_def)
    next
      case nodeny: False
      show ?thesis
      proof (cases "DecEscalate \<in> de_action ` set ds")
        case True
        with False ne nodeny deny esc show ?thesis
          by (simp only: aggregate_def Let_def none) (simp add: won_by_def verdict_def)
      next
        case noesc: False
        from False obtain a where a: "a \<in> de_action ` set ds" "a \<noteq> DecAbstain" by blast
        have "a \<noteq> DecDeny" "a \<noteq> DecEscalate" using a(1) nodeny noesc by blast+
        with a(2) have "a = DecAllow" by (cases a) simp_all
        with a(1) have "DecAllow \<in> de_action ` set ds" by (simp only:)
        with False ne nodeny noesc deny esc show ?thesis
          by (simp only: aggregate_def Let_def none) (simp add: won_by_def verdict_def)
      qed
    qed
  qed
qed

section \<open>Short-circuiting\<close>

text \<open>Running every rule to the end, whatever it answers.\<close>

fun run_all :: "'c \<Rightarrow> ('c, 's) rule_entry list \<Rightarrow> 's \<Rightarrow> decision list" where
  "run_all ctx [] s = []"
| "run_all ctx (r # rs) s =
     to_decision (re_rule_id r) (fst (re_function r ctx s)) # run_all ctx rs (snd (re_function r ctx s))"

lemma verdict_Cons: "verdict (a # as) = (if strength (verdict as) < strength a then a else verdict as)"
  by (cases a) (auto simp: verdict_def)

lemma verdict_strongest: "a \<in> set as \<Longrightarrow> strength a \<le> strength (verdict as)"
  by (induction as) (auto simp: verdict_Cons)

lemma verdict_deny: "DecDeny \<in> set as \<Longrightarrow> verdict as = DecDeny"
  by (simp add: verdict_def)

lemma run_rules_verdict: "verdict (map de_action (fst (run_rules ctx rs s))) = verdict (map de_action (run_all ctx rs s))"
proof (induction rs arbitrary: s)
  case (Cons r rs)
  obtain res s1 where f: "re_function r ctx s = (res, s1)" by (cases "re_function r ctx s")
  show ?case
  proof (cases "case res of Verdict v \<Rightarrow> de_action v = DecDeny | _ \<Rightarrow> False")
    case True
    then have "de_action (to_decision (re_rule_id r) res) = DecDeny" by (auto simp: to_decision_def split: rule_result.splits)
    with True f show ?thesis by (simp add: Let_def verdict_def)
  next
    case False
    then have "fst (run_rules ctx (r # rs) s) = to_decision (re_rule_id r) res # fst (run_rules ctx rs s1)"
      by (simp add: f Let_def case_prod_unfold)
    with f Cons[of s1] show ?thesis by (simp add: verdict_Cons)
  qed
qed simp

lemma run_rules_mem: "d \<in> set (fst (run_rules ctx rs s)) \<Longrightarrow> \<exists>r \<in> set rs. \<exists>t. d = to_decision (re_rule_id r) (fst (re_function r ctx t))"
proof (induction rs arbitrary: s)
  case (Cons r rs)
  obtain res s1 where f: "re_function r ctx s = (res, s1)" by (cases "re_function r ctx s")
  have "d = to_decision (re_rule_id r) res \<or> d \<in> set (fst (run_rules ctx rs s1))"
    using Cons.prems f by (auto simp: Let_def split: prod.splits if_splits)
  then show ?case
  proof
    assume "d = to_decision (re_rule_id r) res"
    with f show ?case by (intro bexI[of _ r] exI[of _ s]) simp_all
  next
    assume "d \<in> set (fst (run_rules ctx rs s1))"
    from Cons.IH[OF this] show ?case by auto
  qed
qed simp

lemma evaluate_action:
  "de_action (fst (evaluate rs ctx None s)) = verdict (map de_action (run_all ctx (registry_all False rs) s))"
  by (simp add: evaluate_def aggregate_action run_rules_verdict Let_def split: prod.split)
    (metis fst_conv run_rules_verdict)

text \<open>Stopping at the first deny does not change the outcome: the action of an evaluation is the strongest
  action (deny, then escalate, then allow, then abstain) among the answers of all enabled rules run
  in priority order to the end, where a rule that raises or returns something else abstains.\<close>

theorem evaluate_short_circuit:
  "de_action (fst (evaluate rs ctx None s)) = verdict (map de_action (run_all ctx (registry_all False rs) s))"
  by (rule evaluate_action)

end
