(* ===== verification/Policy_Rules.thy ===== *)
theory Policy_Rules
  imports Policy_Decision Py_Float Py_Strings Uuid
begin

text \<open>
  Models \<^verbatim>\<open>backend/app/safety/context.py\<close> and the ten built-in rules of
  \<^verbatim>\<open>backend/app/safety/rules/\<close>.

  \<open>ctx.extra\<close> is a record with one field per key the rules read. A field of type \<open>'a extra\<close> is
  absent, holds the value the rule's conversion gives, or something the conversion raises on.
  Numbers are finite. The context time is in microseconds of UTC. The parameter \<open>E :: rule_env\<close>
  holds the wall clock of the rate limit, whether its Redis pipeline raises,
  \<open>datetime.fromisoformat\<close> (as UTC microseconds), and the text of a reason. The state the rules share is the Redis sorted
  sets.
\<close>

section \<open>Context\<close>

datatype 'a extra = Absent | Bad | Val 'a

datatype credential = NoCredential | Credential "string option"

record policy_extra =
  px_cost_escalate_at :: "rat extra"
  px_cost_deny_at :: "rat extra"
  px_sensitive :: "string list extra"
  px_require_credential :: bool
  px_credential :: credential
  px_max_depth :: "int extra"
  px_depth :: "int extra"
  px_known_tools :: "string list extra"
  px_pii_tools :: "string list extra"
  px_capacity :: "int extra"
  px_window :: "int extra"
  px_signature :: "string option"
  px_start_hour :: "int extra"
  px_end_hour :: "int extra"

record policy_context =
  pc_agent_did :: "string option"
  pc_trust_score :: "rat option"
  pc_capabilities :: "string list"
  pc_agent_id :: "uuid option"
  pc_action :: string
  pc_category :: "string option"
  pc_tool_name :: "string option"
  pc_amount :: "rat option"
  pc_target :: "string option"
  pc_estimated_cost :: "rat option"
  pc_workflow_id :: "uuid option"
  pc_task_id :: "uuid option"
  pc_now :: int
  pc_redis :: bool
  pc_extra :: policy_extra

record zset =
  zs_key :: string
  zs_members :: "(string \<times> int) list"
  zs_expires :: int

type_synonym zstore = "zset list"

record rule_env =
  rv_now_ms :: int
  rv_redis_fails :: bool
  rv_fromiso :: "string \<Rightarrow> int option"
  rv_text :: "reason \<Rightarrow> string"

type_synonym rule = "policy_context \<Rightarrow> zstore \<Rightarrow> rule_result \<times> zstore"

text \<open>A rule that does not touch the store; a conversion that raises crashes it.\<close>

definition pure_rule :: "(policy_context \<Rightarrow> rule_result) \<Rightarrow> rule" where
  "pure_rule f ctx s = (f ctx, s)"

definition get_extra :: "'a extra \<Rightarrow> 'a \<Rightarrow> ('a \<Rightarrow> rule_result) \<Rightarrow> rule_result" where
  "get_extra x absent_value k = (case x of Absent \<Rightarrow> k absent_value | Bad \<Rightarrow> Crashed | Val v \<Rightarrow> k v)"

definition opt_str :: "string option \<Rightarrow> json" where
  "opt_str x = (case x of None \<Rightarrow> JNull | Some s \<Rightarrow> JStr s)"

definition opt_num :: "rat option \<Rightarrow> json" where
  "opt_num x = (case x of None \<Rightarrow> JNull | Some q \<Rightarrow> JFloat (FFin q))"

abbreviation jnum :: "rat \<Rightarrow> json" where
  "jnum q \<equiv> JFloat (FFin q)"

text \<open>\<open>len\<close> of a string counts characters, so the continuation bytes of UTF-8 are left out.\<close>

definition str_len :: "string \<Rightarrow> nat" where
  "str_len s = length (filter (\<lambda>c. of_char c < (128 :: nat) \<or> (192 :: nat) \<le> of_char c) s)"

section \<open>The rules\<close>

definition cost_caps :: "policy_context \<Rightarrow> rule_result" where
  "cost_caps ctx =
     (let rid = Some ''cost_caps'' in
      case pc_estimated_cost ctx of
        None \<Rightarrow> Verdict (dec_abstain rid [])
      | Some cost \<Rightarrow>
          get_extra (px_cost_escalate_at (pc_extra ctx)) 10 (\<lambda>escalate_at.
          get_extra (px_cost_deny_at (pc_extra ctx)) 50 (\<lambda>deny_at.
            if deny_at \<le> cost
            then Verdict (dec_deny rid [Txt ''estimated cost '', Num cost, Txt '' >= hard cap '', Num deny_at]
                   [(''estimated_cost'', jnum cost), (''deny_at'', jnum deny_at)])
            else if escalate_at \<le> cost
            then Verdict (dec_escalate rid [Txt ''estimated cost '', Num cost, Txt '' crossed escalation threshold '', Num escalate_at]
                   [(''estimated_cost'', jnum cost), (''escalate_at'', jnum escalate_at)])
            else Verdict (dec_allow rid [Txt ''estimated cost '', Num cost, Txt '' within free-flow band'']
                   [(''estimated_cost'', jnum cost)]))))"

definition default_sensitive :: "string list" where
  "default_sensitive = [''payment'', ''deploy'', ''destructive'']"

definition category_triggers :: "policy_context \<Rightarrow> string list \<Rightarrow> bool" where
  "category_triggers ctx sensitive =
     (if \<not> px_require_credential (pc_extra ctx) then False
      else case pc_category ctx of None \<Rightarrow> False | Some c \<Rightarrow> c \<in> set sensitive)"

definition credential_is_valid :: "rule_env \<Rightarrow> credential \<Rightarrow> int \<Rightarrow> reason + unit" where
  "credential_is_valid E cred now =
     (case cred of
        NoCredential \<Rightarrow> Inl [Txt ''credential missing'']
      | Credential None \<Rightarrow> Inl [Txt ''credential has no expires_at'']
      | Credential (Some raw) \<Rightarrow>
          (case rv_fromiso E raw of
             None \<Rightarrow> Inl [Txt ''credential.expires_at is unparseable: '', Repr (Some raw)]
           | Some expires_at \<Rightarrow>
               if expires_at \<le> now then Inl [Txt ''credential expired at '', Num (of_int expires_at)]
               else Inr ()))"

definition credential_requires :: "rule_env \<Rightarrow> policy_context \<Rightarrow> rule_result" where
  "credential_requires E ctx =
     (let rid = Some ''credential_requires'' in
      get_extra (px_sensitive (pc_extra ctx)) default_sensitive (\<lambda>sensitive.
        if \<not> category_triggers ctx sensitive then Verdict (dec_abstain rid [])
        else case credential_is_valid E (px_credential (pc_extra ctx)) (pc_now ctx) of
          Inl reason \<Rightarrow>
            Verdict (dec_deny rid (Txt ''sensitive action requires valid credential: '' # reason)
              [(''category'', opt_str (pc_category ctx)), (''credential_issue'', JStr (rv_text E reason))])
        | Inr _ \<Rightarrow>
            Verdict (dec_allow rid [Txt ''valid credential presented'']
              [(''credential_expires_at'', case px_credential (pc_extra ctx) of Credential e \<Rightarrow> opt_str e | NoCredential \<Rightarrow> JNull)])))"

definition is_delegation :: "policy_context \<Rightarrow> bool" where
  "is_delegation ctx \<longleftrightarrow> pc_action ctx = ''delegate_task'' \<or> pc_category ctx = Some ''delegation''"

definition cross_agent_delegation :: "policy_context \<Rightarrow> rule_result" where
  "cross_agent_delegation ctx =
     (let rid = Some ''cross_agent_delegation'' in
      if \<not> is_delegation ctx then Verdict (dec_abstain rid [])
      else get_extra (px_max_depth (pc_extra ctx)) 2 (\<lambda>max_depth.
           get_extra (px_depth (pc_extra ctx)) 0 (\<lambda>depth.
             if max_depth < depth
             then Verdict (dec_escalate rid
                    [Txt ''delegation chain depth '', Num (of_int depth), Txt '' exceeds max '', Num (of_int max_depth)]
                    [(''delegation_depth'', JInt depth), (''max_depth'', JInt max_depth)])
             else Verdict (dec_allow rid
                    [Txt ''delegation chain depth '', Num (of_int depth), Txt '' within max '', Num (of_int max_depth)]
                    [(''delegation_depth'', JInt depth), (''max_depth'', JInt max_depth)]))))"

definition default_deny_unknown_tool :: "policy_context \<Rightarrow> rule_result" where
  "default_deny_unknown_tool ctx =
     (let rid = Some ''default_deny_unknown_tool'' in
      case pc_tool_name ctx of
        None \<Rightarrow> Verdict (dec_abstain rid [])
      | Some tool \<Rightarrow>
          (case px_known_tools (pc_extra ctx) of
             Absent \<Rightarrow> Verdict (dec_abstain rid [])
           | Bad \<Rightarrow> Verdict (dec_abstain rid [])
           | Val known \<Rightarrow>
               if tool \<in> set known then Verdict (dec_abstain rid [])
               else Verdict (dec_deny rid [Txt ''tool '', Repr (Some tool), Txt '' is not on the known-tools allowlist'']
                      [(''tool_name'', JStr tool), (''allowlist_size'', JInt (int (length (remdups known))))])))"

definition is_memory_write :: "policy_context \<Rightarrow> bool" where
  "is_memory_write ctx \<longleftrightarrow> pc_action ctx = ''write_memory'' \<or> pc_category ctx = Some ''memory_write''"

definition supported_did_methods :: "string list" where
  "supported_did_methods = [''did:key:'', ''did:web:'', ''did:nanda:'']"

definition looks_like_did :: "string \<Rightarrow> bool" where
  "looks_like_did value \<longleftrightarrow> list_ex (\<lambda>prefix. starts_with prefix value) supported_did_methods"

definition memory_write_attribution :: "policy_context \<Rightarrow> rule_result" where
  "memory_write_attribution ctx =
     (let rid = Some ''memory_write_attribution'' in
      if \<not> is_memory_write ctx then Verdict (dec_abstain rid [])
      else case pc_agent_did ctx of
        None \<Rightarrow> Verdict (dec_deny rid [Txt ''memory write attempted without an agent_did''] [(''agent_did'', JNull)])
      | Some did \<Rightarrow>
          if did = [] then Verdict (dec_deny rid [Txt ''memory write attempted without an agent_did''] [(''agent_did'', JNull)])
          else if \<not> looks_like_did did
          then Verdict (dec_deny rid [Txt ''agent_did '', Repr (Some did), Txt '' does not use a supported DID method'']
                 [(''agent_did'', JStr did), (''supported'', JArr (map JStr supported_did_methods))])
          else Verdict (dec_allow rid [Txt ''memory write signed by '', Str did] [(''agent_did'', JStr did)]))"

definition default_pii_tools :: "string list" where
  "default_pii_tools =
     [''lookup_ssn'', ''lookup_address'', ''lookup_phone'', ''lookup_email'', ''lookup_dob'',
      ''lookup_ip_geolocation'', ''export_user_data'', ''query_user_profile'', ''dump_contacts'']"

definition pii_tool_guards :: "policy_context \<Rightarrow> rule_result" where
  "pii_tool_guards ctx =
     (let rid = Some ''pii_tool_guards'' in
      get_extra (px_pii_tools (pc_extra ctx)) default_pii_tools (\<lambda>pii_tools.
        let tool_hits = (case pc_tool_name ctx of None \<Rightarrow> False | Some t \<Rightarrow> t \<in> set pii_tools);
            category_hits = (pc_category ctx = Some ''pii_access'')
        in if \<not> (tool_hits \<or> category_hits) then Verdict (dec_abstain rid [])
           else Verdict (dec_escalate rid
                  [Txt ''PII access via tool='', Repr (pc_tool_name ctx), Txt '', category='', Repr (pc_category ctx),
                   Txt '' always requires a human reviewer'']
                  [(''tool_name'', opt_str (pc_tool_name ctx)), (''action_category'', opt_str (pc_category ctx)),
                   (''agent_did'', opt_str (pc_agent_did ctx))])))"

definition rate_key :: "uuid \<Rightarrow> string \<Rightarrow> string" where
  "rate_key agent_id tool_name = ''policy:rate_limit:'' @ str_uuid agent_id @ '':'' @ tool_name"

definition zset_members :: "int \<Rightarrow> string \<Rightarrow> zstore \<Rightarrow> (string \<times> int) list" where
  "zset_members now key s =
     (case lookup_by zs_key key s of
        None \<Rightarrow> [] | Some z \<Rightarrow> if now < zs_expires z then zs_members z else [])"

definition zset_put :: "string \<Rightarrow> (string \<times> int) list \<Rightarrow> int \<Rightarrow> zstore \<Rightarrow> zstore" where
  "zset_put key members expires s =
     \<lparr>zs_key = key, zs_members = members, zs_expires = expires\<rparr> # filter (\<lambda>z. zs_key z \<noteq> key) s"

definition task_marker :: "uuid option \<Rightarrow> string" where
  "task_marker t = (case t of None \<Rightarrow> ''na'' | Some u \<Rightarrow> str_uuid u)"

definition rate_limit_per_tool :: "rule_env \<Rightarrow> rule" where
  "rate_limit_per_tool E ctx s =
     (let rid = Some ''rate_limit_per_tool''; abstain = (Verdict (dec_abstain rid []), s) in
      case (pc_tool_name ctx, pc_agent_id ctx, pc_redis ctx) of
        (Some tool, Some agent, True) \<Rightarrow>
          (case (px_capacity (pc_extra ctx), px_window (pc_extra ctx)) of
             (Bad, _) \<Rightarrow> (Crashed, s)
           | (_, Bad) \<Rightarrow> (Crashed, s)
           | (c, w) \<Rightarrow>
               let capacity = (case c of Val v \<Rightarrow> v | _ \<Rightarrow> 20); window = (case w of Val v \<Rightarrow> v | _ \<Rightarrow> 60) in
               if capacity \<le> 0 \<or> window \<le> 0 then abstain
               else if rv_redis_fails E then abstain
               else
                 let now = rv_now_ms E;
                     key = rate_key agent tool;
                     kept = filter (\<lambda>(m, t). \<not> (0 \<le> t \<and> t \<le> now - window * 1000)) (zset_members now key s);
                     member = str_int now @ ''-'' @ task_marker (pc_task_id ctx);
                     s' = zset_put key (filter (\<lambda>(m, t). m \<noteq> member) kept @ [(member, now)]) (now + window * 2 * 1000) s;
                     count_after = int (length kept) + 1
                 in if capacity < count_after
                    then (Verdict (dec_deny rid
                            [Txt ''agent '', Str (str_uuid agent), Txt '' exceeded '', Num (of_int capacity), Txt '' calls to '',
                             Repr (Some tool), Txt '' in '', Num (of_int window), Txt ''s window (observed '',
                             Num (of_int count_after), Txt '')'']
                            [(''count_in_window'', JInt count_after), (''capacity'', JInt capacity), (''window_seconds'', JInt window)]), s')
                    else (Verdict (dec_allow rid
                            [Num (of_int count_after), Txt ''/'', Num (of_int capacity), Txt '' calls in '',
                             Num (of_int window), Txt ''s window'']
                            [(''count_in_window'', JInt count_after), (''capacity'', JInt capacity)]), s'))
      | _ \<Rightarrow> abstain)"

definition signature_requires :: "policy_context \<Rightarrow> rule_result" where
  "signature_requires ctx =
     (let rid = Some ''signature_requires'' in
      if \<not> is_memory_write ctx then Verdict (dec_abstain rid [])
      else case px_signature (pc_extra ctx) of
        None \<Rightarrow> Verdict (dec_deny rid [Txt ''memory write action has no signature payload''] [(''signature_present'', JBool False)])
      | Some signature \<Rightarrow>
          if str_strip signature = []
          then Verdict (dec_deny rid [Txt ''memory write action has no signature payload''] [(''signature_present'', JBool False)])
          else Verdict (dec_allow rid [Txt ''signature payload present'']
                 [(''signature_present'', JBool True), (''signature_length'', JInt (int (str_len signature)))]))"

definition hour_utc :: "int \<Rightarrow> int" where
  "hour_utc microseconds = (microseconds div 3600000000) mod 24"

definition two_digits :: "int \<Rightarrow> string" where
  "two_digits h = (if h < 10 then ''0'' @ str_int h else str_int h)"

definition time_of_day_restrictions :: "policy_context \<Rightarrow> rule_result" where
  "time_of_day_restrictions ctx =
     (let rid = Some ''time_of_day_restrictions'' in
      get_extra (px_sensitive (pc_extra ctx)) default_sensitive (\<lambda>sensitive.
        if \<not> (case pc_category ctx of None \<Rightarrow> False | Some c \<Rightarrow> c \<in> set sensitive) then Verdict (dec_abstain rid [])
        else get_extra (px_start_hour (pc_extra ctx)) 8 (\<lambda>start_hour.
             get_extra (px_end_hour (pc_extra ctx)) 20 (\<lambda>end_hour.
               let hour = hour_utc (pc_now ctx);
                   metadata = [(''hour_utc'', JInt hour), (''window'', JArr [JInt start_hour, JInt end_hour])]
               in if start_hour \<le> hour \<and> hour < end_hour
                  then Verdict (dec_allow rid
                         [Txt ''action '', Repr (pc_category ctx), Txt '' within business hours ('', Str (two_digits hour), Txt '':XX UTC)'']
                         metadata)
                  else Verdict (dec_escalate rid
                         [Txt ''action '', Repr (pc_category ctx), Txt '' submitted at '', Str (two_digits hour), Txt '':XX UTC '',
                          Txt [CHR 0xE2, CHR 0x80, CHR 0x94], Txt '' outside business hours ['', Num (of_int start_hour), Txt '':00, '',
                          Num (of_int end_hour), Txt '':00)'']
                         metadata)))))"

definition is_payment :: "policy_context \<Rightarrow> bool" where
  "is_payment ctx \<longleftrightarrow> pc_category ctx = Some ''payment'' \<or> starts_with ''pay_'' (pc_action ctx)"

definition escalate_floor :: rat where
  "escalate_floor = py_double (4 / 10)"

definition allow_floor :: rat where
  "allow_floor = py_double (6 / 10)"

definition trust_floor_for_payments :: "policy_context \<Rightarrow> rule_result" where
  "trust_floor_for_payments ctx =
     (let rid = Some ''trust_floor_for_payments'' in
      if \<not> is_payment ctx then Verdict (dec_abstain rid [])
      else case pc_amount ctx of
        None \<Rightarrow> Verdict (dec_abstain rid [])
      | Some amount \<Rightarrow>
          if amount \<le> 0 then Verdict (dec_abstain rid [])
          else
            let deny = Verdict (dec_deny rid
                  [Txt ''agent trust score '', ReprNum (pc_trust_score ctx), Txt '' below hard floor '', Num escalate_floor]
                  [(''trust_score'', opt_num (pc_trust_score ctx)), (''floor'', jnum escalate_floor), (''amount'', jnum amount)])
            in case pc_trust_score ctx of
                 None \<Rightarrow> deny
               | Some score \<Rightarrow>
                   if score < escalate_floor then deny
                   else if score < allow_floor
                   then Verdict (dec_escalate rid
                          [Txt ''agent trust score '', Num score, Txt '' in escalation band ('', Num escalate_floor,
                           Txt [CHR 0xE2, CHR 0x80, CHR 0x93], Num allow_floor, Txt '')'']
                          [(''trust_score'', jnum score), (''amount'', jnum amount)])
                   else Verdict (dec_allow rid
                          [Txt ''agent trust score '', Num score, Txt '' meets allow floor '', Num allow_floor]
                          [(''trust_score'', jnum score), (''amount'', jnum amount)]))"

section \<open>Registration\<close>

definition entry :: "string \<Rightarrow> string \<Rightarrow> rule \<Rightarrow> int \<Rightarrow> string list \<Rightarrow> (policy_context, zstore) rule_entry" where
  "entry rid description f priority tags =
     \<lparr>re_rule_id = rid, re_description = description, re_function = f, re_priority = priority, re_enabled = True, re_tags = tags\<rparr>"

definition builtin_rules :: "rule_env \<Rightarrow> (policy_context, zstore) registry" where
  "builtin_rules E = foldl (\<lambda>rs e. register e rs) []
     [entry ''cost_caps'' ''Escalate or deny tasks whose estimated cost crosses configured thresholds.''
        (pure_rule cost_caps) 30 [''cost'', ''budget''],
      entry ''credential_requires'' ''Sensitive actions require a fresh, non-expired robustness credential.''
        (pure_rule (credential_requires E)) 35 [''credential'', ''security''],
      entry ''cross_agent_delegation'' ''Escalate delegation chains that exceed the configured depth.''
        (pure_rule cross_agent_delegation) 50 [''delegation'', ''accountability''],
      entry ''default_deny_unknown_tool'' (''Deny tool calls whose tool_name isn'' @ [CHR 0x27] @ ''t on the operator-provided allowlist.'')
        (pure_rule default_deny_unknown_tool) 999 [''tool'', ''allowlist'', ''defense-in-depth''],
      entry ''memory_write_attribution'' ''Block memory writes without a valid author DID.''
        (pure_rule memory_write_attribution) 25 [''memory'', ''provenance''],
      entry ''pii_tool_guards'' ''Route every PII tool invocation through a human reviewer.''
        (pure_rule pii_tool_guards) 15 [''pii'', ''compliance''],
      entry ''rate_limit_per_tool'' ''Deny tool calls that exceed a sliding-window per-(agent, tool) rate limit.''
        (rate_limit_per_tool E) 20 [''rate_limit'', ''tool''],
      entry ''signature_requires'' ''Memory writes must carry a signature blob in the action context.''
        (pure_rule signature_requires) 26 [''memory'', ''signature'', ''provenance''],
      entry ''time_of_day_restrictions'' ''Escalate sensitive actions submitted outside business hours.''
        (pure_rule time_of_day_restrictions) 40 [''time'', ''business_hours''],
      entry ''trust_floor_for_payments'' (''Allow payments only when the agent'' @ [CHR 0x27] @ ''s trust score clears the floor.'')
        (pure_rule trust_floor_for_payments) 10 [''payment'', ''trust'']]"

end
