(* ===== verification/Policy_Guards.thy ===== *)
theory Policy_Guards
  imports Policy_Rules
begin

text \<open>
  What the built-in rules guarantee of an evaluation of the whole registry, and the sliding window
  of the rate limit over a sequence of calls.
\<close>

section \<open>A rule speaks in every evaluation\<close>

lemma set_registry_all: "set (registry_all b rs) = {r \<in> set rs. b \<or> re_enabled r}"
  by (auto simp: registry_all_def)

lemma run_all_mem:
  assumes "r \<in> set rs" "\<And>t. fst (re_function r ctx t) = res"
  shows "to_decision (re_rule_id r) res \<in> set (run_all ctx rs s)"
  using assms(1)
proof (induction rs arbitrary: s)
  case (Cons x xs)
  with assms(2) show ?case by auto
qed simp

text \<open>The action a pure rule contributes bounds the outcome from below.\<close>

lemma rule_bounds_outcome:
  assumes "r \<in> set rs" "re_enabled r" "re_function r = pure_rule f" "f ctx = Verdict d"
  shows "strength (de_action d) \<le> strength (de_action (fst (evaluate rs ctx None s)))"
proof -
  have "to_decision (re_rule_id r) (Verdict d) \<in> set (run_all ctx (registry_all False rs) s)"
    by (rule run_all_mem) (use assms in \<open>simp_all add: set_registry_all pure_rule_def\<close>)
  then have "de_action d \<in> set (map de_action (run_all ctx (registry_all False rs) s))"
    by (auto simp: to_decision_def intro: rev_image_eqI)
  then show ?thesis unfolding evaluate_action by (rule verdict_strongest)
qed

lemma strength_deny: "3 \<le> strength a \<longleftrightarrow> a = DecDeny" and strength_escalate: "2 \<le> strength a \<longleftrightarrow> a \<in> {DecDeny, DecEscalate}"
  by (cases a; simp)+

lemma builtin_members:
  "entry ''trust_floor_for_payments'' (''Allow payments only when the agent'' @ [CHR 0x27] @ ''s trust score clears the floor.'')
     (pure_rule trust_floor_for_payments) 10 [''payment'', ''trust''] \<in> set (builtin_rules E)"
  "entry ''pii_tool_guards'' ''Route every PII tool invocation through a human reviewer.''
     (pure_rule pii_tool_guards) 15 [''pii'', ''compliance''] \<in> set (builtin_rules E)"
  "entry ''memory_write_attribution'' ''Block memory writes without a valid author DID.''
     (pure_rule memory_write_attribution) 25 [''memory'', ''provenance''] \<in> set (builtin_rules E)"
  "entry ''signature_requires'' ''Memory writes must carry a signature blob in the action context.''
     (pure_rule signature_requires) 26 [''memory'', ''signature'', ''provenance''] \<in> set (builtin_rules E)"
  "entry ''cost_caps'' ''Escalate or deny tasks whose estimated cost crosses configured thresholds.''
     (pure_rule cost_caps) 30 [''cost'', ''budget''] \<in> set (builtin_rules E)"
  by (simp_all add: builtin_rules_def entry_def)

lemma entry_fields [simp]:
  "re_enabled (entry rid desc f p tags)" "re_function (entry rid desc f p tags) = f" "re_rule_id (entry rid desc f p tags) = rid"
  by (simp_all add: entry_def)

lemmas builtin_bounds = rule_bounds_outcome[OF builtin_members(1)] rule_bounds_outcome[OF builtin_members(2)]
  rule_bounds_outcome[OF builtin_members(3)] rule_bounds_outcome[OF builtin_members(4)] rule_bounds_outcome[OF builtin_members(5)]

definition outcome :: "rule_env \<Rightarrow> policy_context \<Rightarrow> zstore \<Rightarrow> decision_action" where
  "outcome E ctx s = de_action (fst (evaluate (builtin_rules E) ctx None s))"

lemma payment_denied:
  assumes "is_payment ctx" "pc_amount ctx = Some amount" "0 < amount"
    and "\<forall>score. pc_trust_score ctx = Some score \<longrightarrow> score < escalate_floor"
  shows "outcome E ctx s = DecDeny"
proof -
  obtain d where "trust_floor_for_payments ctx = Verdict d" "de_action d = DecDeny"
    using assms by (cases "pc_trust_score ctx") (simp_all add: trust_floor_for_payments_def Let_def dec_deny_def)
  with builtin_bounds(1)[of trust_floor_for_payments ctx d E s] show ?thesis by (simp add: strength_deny outcome_def)
qed

lemma payment_not_allowed:
  assumes "is_payment ctx" "pc_amount ctx = Some amount" "0 < amount" "pc_trust_score ctx = Some score" "score < allow_floor"
  shows "outcome E ctx s \<in> {DecDeny, DecEscalate}"
proof -
  obtain d where "trust_floor_for_payments ctx = Verdict d" "2 \<le> strength (de_action d)"
    using assms by (cases "score < escalate_floor") (simp_all add: trust_floor_for_payments_def Let_def dec_deny_def dec_escalate_def)
  with builtin_bounds(1)[of trust_floor_for_payments ctx d E s] show ?thesis
    unfolding outcome_def strength_escalate[symmetric] by simp
qed

lemma memory_write_denied:
  assumes "is_memory_write ctx"
    and "pc_agent_did ctx = None \<or> \<not> looks_like_did (the (pc_agent_did ctx))
      \<or> px_signature (pc_extra ctx) = None \<or> str_strip (the (px_signature (pc_extra ctx))) = []"
  shows "outcome E ctx s = DecDeny"
proof -
  have "\<exists>d. (memory_write_attribution ctx = Verdict d \<or> signature_requires ctx = Verdict d) \<and> de_action d = DecDeny"
  proof (cases "pc_agent_did ctx = None \<or> \<not> looks_like_did (the (pc_agent_did ctx))")
    case True
    then have "\<exists>d. memory_write_attribution ctx = Verdict d \<and> de_action d = DecDeny"
      using assms(1) by (cases "pc_agent_did ctx") (auto simp: memory_write_attribution_def Let_def dec_deny_def)
    then show ?thesis by blast
  next
    case False
    with assms have "\<exists>d. signature_requires ctx = Verdict d \<and> de_action d = DecDeny"
      by (cases "px_signature (pc_extra ctx)") (auto simp: signature_requires_def Let_def dec_deny_def)
    then show ?thesis by blast
  qed
  then obtain d where d: "memory_write_attribution ctx = Verdict d \<or> signature_requires ctx = Verdict d" "de_action d = DecDeny"
    by blast
  then show ?thesis
    using builtin_bounds(3)[of memory_write_attribution ctx d E s] builtin_bounds(4)[of signature_requires ctx d E s]
    by (auto simp: strength_deny outcome_def)
qed

lemma pii_not_allowed:
  assumes "pc_category ctx = Some ''pii_access'' \<or> (\<exists>t \<in> set default_pii_tools. pc_tool_name ctx = Some t)"
    and "px_pii_tools (pc_extra ctx) = Absent"
  shows "outcome E ctx s \<in> {DecDeny, DecEscalate}"
proof -
  obtain d where "pii_tool_guards ctx = Verdict d" "de_action d = DecEscalate"
    using assms by (auto simp: pii_tool_guards_def Let_def get_extra_def dec_escalate_def)
  with builtin_bounds(2)[of pii_tool_guards ctx d E s] show ?thesis
    unfolding outcome_def strength_escalate[symmetric] by simp
qed

lemma cost_denied:
  assumes "pc_estimated_cost ctx = Some cost" "px_cost_deny_at (pc_extra ctx) = Absent" "px_cost_escalate_at (pc_extra ctx) = Absent" "50 \<le> cost"
  shows "outcome E ctx s = DecDeny"
proof -
  obtain d where "cost_caps ctx = Verdict d" "de_action d = DecDeny"
    using assms by (simp add: cost_caps_def Let_def get_extra_def dec_deny_def)
  with builtin_bounds(5)[of cost_caps ctx d E s] show ?thesis by (simp add: strength_deny outcome_def)
qed


section \<open>The sliding window\<close>

text \<open>Calls of one agent to one tool: the time and the task of each, under one configuration.\<close>

definition rate_call :: "policy_context \<Rightarrow> int \<times> uuid option \<Rightarrow> zstore \<Rightarrow> rule_result \<times> zstore" where
  "rate_call ctx c s =
     rate_limit_per_tool \<lparr>rv_now_ms = fst c, rv_redis_fails = False, rv_fromiso = (\<lambda>_. None), rv_text = (\<lambda>_. [])\<rparr>
       (ctx\<lparr>pc_task_id := snd c\<rparr>) s"

fun rate_calls :: "policy_context \<Rightarrow> (int \<times> uuid option) list \<Rightarrow> zstore \<Rightarrow> rule_result list \<times> zstore" where
  "rate_calls ctx [] s = ([], s)"
| "rate_calls ctx (c # cs) s =
     (let (r, s1) = rate_call ctx c s; (rs, s2) = rate_calls ctx cs s1 in (r # rs, s2))"

definition limited :: "policy_context \<Rightarrow> string \<Rightarrow> uuid \<Rightarrow> int \<Rightarrow> int \<Rightarrow> bool" where
  "limited ctx tool agent capacity window \<longleftrightarrow> pc_tool_name ctx = Some tool \<and> pc_agent_id ctx = Some agent \<and> pc_redis ctx
     \<and> px_capacity (pc_extra ctx) = Val capacity \<and> px_window (pc_extra ctx) = Val window \<and> 0 < capacity \<and> 0 < window"

text \<open>The sorted set after a history of calls at increasing times: it holds the calls that were in the
  window at the last one, and its key lives for two windows.\<close>

definition window_inv :: "string \<Rightarrow> int \<Rightarrow> int list \<Rightarrow> zstore \<Rightarrow> bool" where
  "window_inv key window past s \<longleftrightarrow>
     (if past = [] then lookup_by zs_key key s = None
      else \<exists>z. lookup_by zs_key key s = Some z \<and> zs_expires z = last past + window * 2 * 1000
        \<and> map snd (zs_members z) = filter (\<lambda>t. last past - window * 1000 < t) past
        \<and> (\<forall>(m, t) \<in> set (zs_members z). \<exists>w. m = str_int t @ ''-'' @ w))"

definition in_window :: "int \<Rightarrow> int \<Rightarrow> int list \<Rightarrow> nat" where
  "in_window window now past = length (filter (\<lambda>t. now - window * 1000 < t) past)"

lemma kept_times:
  assumes "window_inv key window past s" "sorted_wrt (<) past" "\<forall>t \<in> set past. 0 \<le> t \<and> t < now" "0 < window"
  shows "map snd (filter (\<lambda>(m, t). \<not> (0 \<le> t \<and> t \<le> now - window * 1000)) (zset_members now key s))
      = filter (\<lambda>t. now - window * 1000 < t) past"
    and "\<forall>(m, t) \<in> set (zset_members now key s). t \<in> set past \<and> (\<exists>w. m = str_int t @ ''-'' @ w)"
proof -
  have "map snd (filter (\<lambda>(m, t). \<not> (0 \<le> t \<and> t \<le> now - window * 1000)) (zset_members now key s))
      = filter (\<lambda>t. now - window * 1000 < t) past
    \<and> (\<forall>(m, t) \<in> set (zset_members now key s). t \<in> set past \<and> (\<exists>w. m = str_int t @ ''-'' @ w))"
  proof (cases "past = []")
    case True
    with assms(1) show ?thesis by (simp add: window_inv_def zset_members_def)
  next
    case False
    then obtain z where z: "lookup_by zs_key key s = Some z" "zs_expires z = last past + window * 2 * 1000"
        "map snd (zs_members z) = filter (\<lambda>t. last past - window * 1000 < t) past"
        "\<forall>(m, t) \<in> set (zs_members z). \<exists>w. m = str_int t @ ''-'' @ w"
      using assms(1) by (auto simp: window_inv_def)
    have lt: "t \<le> last past" if "t \<in> set past" for t
      using that assms(2) False by (metis sorted_wrt_append append_butlast_last_id Un_iff empty_iff insert_iff less_eq_int_code(1)
        list.set(1,2) order_le_less set_append)
    have last: "last past < now" using False assms(3) by simp
    show ?thesis
    proof (cases "now < zs_expires z")
      case False
      then have "filter (\<lambda>t. now - window * 1000 < t) past = []" using lt z(2) assms(4) by (force simp: filter_empty_conv)
      with z(1) False show ?thesis by (simp add: zset_members_def)
    next
      case True
      have pos: "0 \<le> t" if "(m, t) \<in> set (zs_members z)" for m t
      proof -
        have "t \<in> set (map snd (zs_members z))" using that by force
        with z(3) assms(3) show ?thesis by auto
      qed
      then have "filter (\<lambda>(m, t). \<not> (0 \<le> t \<and> t \<le> now - window * 1000)) (zs_members z)
          = filter ((\<lambda>t. now - window * 1000 < t) \<circ> snd) (zs_members z)"
        by (intro filter_cong) auto
      then have "map snd (filter (\<lambda>(m, t). \<not> (0 \<le> t \<and> t \<le> now - window * 1000)) (zs_members z))
          = filter (\<lambda>t. now - window * 1000 < t) (map snd (zs_members z))" by (simp add: filter_map)
      also have "\<dots> = filter (\<lambda>t. now - window * 1000 < t) past"
        using last unfolding z(3) filter_filter by (intro filter_cong) auto
      finally have "map snd (filter (\<lambda>(m, t). \<not> (0 \<le> t \<and> t \<le> now - window * 1000)) (zs_members z))
          = filter (\<lambda>t. now - window * 1000 < t) past" .
      moreover have "t \<in> set past" if "(m, t) \<in> set (zs_members z)" for m t
      proof -
        have "t \<in> set (map snd (zs_members z))" using that by force
        with z(3) show ?thesis by simp
      qed
      ultimately show ?thesis using z(1,4) True by (auto simp: zset_members_def)
    qed
  qed
  then show "map snd (filter (\<lambda>(m, t). \<not> (0 \<le> t \<and> t \<le> now - window * 1000)) (zset_members now key s))
      = filter (\<lambda>t. now - window * 1000 < t) past"
    "\<forall>(m, t) \<in> set (zset_members now key s). t \<in> set past \<and> (\<exists>w. m = str_int t @ ''-'' @ w)" by blast+
qed

lemma marker_time:
  assumes "str_int t @ ''-'' @ w = str_int u @ ''-'' @ v" "0 \<le> t" "0 \<le> u"
  shows "t = u"
proof -
  have digits: "\<forall>c \<in> set (str_int x). c \<noteq> CHR ''-''" if "0 \<le> x" for x
    using that str_nat_is_digit is_digit_facts(2) by (auto simp: str_int_def)
  have "takeWhile (\<lambda>c. c \<noteq> CHR ''-'') (str_int x @ ''-'' @ y) = str_int x" if "0 \<le> x" for x y
    using digits[OF that] by (subst takeWhile_append2) auto
  with assms have "str_int t = str_int u" by metis
  then show ?thesis by simp
qed

lemma lookup_zset_put: "lookup_by zs_key key (zset_put key ms e s) = Some \<lparr>zs_key = key, zs_members = ms, zs_expires = e\<rparr>"
  by (simp add: zset_put_def)

lemma rate_call_step:
  assumes lim: "limited ctx tool agent capacity window"
    and inv: "window_inv (rate_key agent tool) window past s" "sorted_wrt (<) past" "\<forall>t \<in> set past. 0 \<le> t \<and> t < now" "0 \<le> now"
  shows "\<exists>d. fst (rate_call ctx (now, task) s) = Verdict d
      \<and> de_action d = (if capacity \<le> int (in_window window now past) then DecDeny else DecAllow)"
    and "window_inv (rate_key agent tool) window (past @ [now]) (snd (rate_call ctx (now, task) s))"
proof -
  let ?key = "rate_key agent tool"
  define kept where "kept = filter (\<lambda>(m, t). \<not> (0 \<le> t \<and> t \<le> now - window * 1000)) (zset_members now ?key s)"
  define member where "member = str_int now @ ''-'' @ task_marker task"
  have w: "0 < window" using lim by (simp add: limited_def)
  note k = kept_times[OF inv(1-3) w, folded kept_def]
  have len: "length kept = in_window window now past" using arg_cong[OF k(1), of length] by (simp add: in_window_def)
  have "m \<noteq> member" if "(m, t) \<in> set kept" for m t
  proof -
    have "t \<in> set past" "\<exists>w. m = str_int t @ ''-'' @ w" using k(2) that by (auto simp: kept_def)
    with inv(3) marker_time[of t _ now "task_marker task"] inv(4) show ?thesis by (auto simp: member_def)
  qed
  then have filt: "filter (\<lambda>(m, t). m \<noteq> member) kept = kept" by (auto intro: filter_True)
  show "\<exists>d. fst (rate_call ctx (now, task) s) = Verdict d
      \<and> de_action d = (if capacity \<le> int (in_window window now past) then DecDeny else DecAllow)"
    using lim len
    by (simp add: rate_call_def rate_limit_per_tool_def Let_def limited_def dec_deny_def dec_allow_def kept_def)
  have "snd (rate_call ctx (now, task) s)
      = zset_put ?key (filter (\<lambda>(m, t). m \<noteq> member) kept @ [(member, now)]) (now + window * 2 * 1000) s"
    using lim by (simp add: rate_call_def rate_limit_per_tool_def Let_def limited_def kept_def member_def)
  then have snd: "snd (rate_call ctx (now, task) s) = zset_put ?key (kept @ [(member, now)]) (now + window * 2 * 1000) s"
    by (simp only: filt)
  have ms: "map snd (kept @ [(member, now)]) = filter (\<lambda>t. now - window * 1000 < t) (past @ [now])"
    using k(1) w by simp
  have marks: "\<forall>(m, t) \<in> set (kept @ [(member, now)]). \<exists>w. m = str_int t @ ''-'' @ w"
    using k(2) by (auto simp: kept_def member_def)
  show "window_inv ?key window (past @ [now]) (snd (rate_call ctx (now, task) s))"
    unfolding window_inv_def snd lookup_zset_put using ms marks by simp
qed

lemma rate_calls_spec:
  assumes "limited ctx tool agent capacity window" "window_inv (rate_key agent tool) window past s"
    and "sorted_wrt (<) (past @ map fst calls)" "\<forall>t \<in> set (past @ map fst calls). 0 \<le> t"
  shows "\<forall>i < length calls. \<exists>d. fst (rate_calls ctx calls s) ! i = Verdict d
    \<and> de_action d = (if capacity \<le> int (in_window window (fst (calls ! i)) (past @ map fst (take i calls)))
                     then DecDeny else DecAllow)"
  using assms(2-)
proof (induction calls arbitrary: past s)
  case (Cons c calls)
  obtain now task where c: "c = (now, task)" by (cases c)
  have past: "sorted_wrt (<) past" "\<forall>t \<in> set past. 0 \<le> t \<and> t < now" "0 \<le> now"
    using Cons.prems(2,3) c by (auto simp: sorted_wrt_append)
  note step = rate_call_step[OF assms(1) Cons.prems(1) past, of task]
  obtain r s1 where rc: "rate_call ctx c s = (r, s1)" by (cases "rate_call ctx c s")
  have "window_inv (rate_key agent tool) window (past @ [now]) s1" using step(2) rc c by simp
  from Cons.IH[OF this] Cons.prems(2,3) c
  have IH: "\<forall>i < length calls. \<exists>d. fst (rate_calls ctx calls s1) ! i = Verdict d
    \<and> de_action d = (if capacity \<le> int (in_window window (fst (calls ! i)) ((past @ [now]) @ map fst (take i calls))) then DecDeny else DecAllow)"
    by simp
  have res: "fst (rate_calls ctx (c # calls) s) = r # fst (rate_calls ctx calls s1)" by (simp add: rc case_prod_unfold Let_def)
  show ?case
  proof (intro allI impI)
    fix i assume i: "i < length (c # calls)"
    show "\<exists>d. fst (rate_calls ctx (c # calls) s) ! i = Verdict d
      \<and> de_action d = (if capacity \<le> int (in_window window (fst ((c # calls) ! i)) (past @ map fst (take i (c # calls)))) then DecDeny else DecAllow)"
    proof (cases i)
      case 0
      then show ?thesis using step(1) rc c unfolding res by simp
    next
      case (Suc j)
      then show ?thesis using IH i c unfolding res by simp
    qed
  qed
qed simp


section \<open>A concrete context\<close>

definition demo_extra :: policy_extra where
  "demo_extra = \<lparr>px_cost_escalate_at = Absent, px_cost_deny_at = Absent, px_sensitive = Absent, px_require_credential = False,
     px_credential = NoCredential, px_max_depth = Absent, px_depth = Absent, px_known_tools = Absent, px_pii_tools = Absent,
     px_capacity = Val 1, px_window = Val 60, px_signature = None, px_start_hour = Absent, px_end_hour = Absent\<rparr>"

definition demo_context :: policy_context where
  "demo_context = \<lparr>pc_agent_did = None, pc_trust_score = None, pc_capabilities = [], pc_agent_id = Some 7,
     pc_action = ''pay_invoice'', pc_category = Some ''memory_write'', pc_tool_name = Some ''lookup_ssn'', pc_amount = Some 5,
     pc_target = None, pc_estimated_cost = Some 60, pc_workflow_id = None, pc_task_id = None, pc_now = 0, pc_redis = True,
     pc_extra = demo_extra\<rparr>"

definition demo_env :: rule_env where
  "demo_env = \<lparr>rv_now_ms = 1000, rv_redis_fails = False, rv_fromiso = (\<lambda>_. None), rv_text = (\<lambda>_. [])\<rparr>"



end
