(* ===== verification/Approval.thy ===== *)
theory Approval
  imports Crdt_Store Py_Strings
begin

text \<open>
  Models \<^verbatim>\<open>backend/app/safety/approval.py\<close> and \<^verbatim>\<open>backend/app/safety/approval_janitor.py\<close>: approval
  requests in Redis, their decision and expiry, and one tick of the janitor.

  Times are microseconds of UTC. A Redis key holds its request (or a payload that does not
  decode) and the time it lapses; the pending set is a list in the order Redis enumerates it. The
  world also has the status of each workflow, the signed twins written to the CRDT store, and the
  published events. What the surroundings decide is the parameter \<open>E :: approval_env\<close>: which
  best-effort calls raise, the fresh request ids, and the pending requests the CRDT store knows.
\<close>

section \<open>State\<close>

datatype approval_status = ApPending | ApApproved | ApDenied | ApExpired

record approval_request =
  ar_request_id :: string
  ar_workflow_id :: string
  ar_task_id :: "string option"
  ar_action :: string
  ar_context :: "(string \<times> json) list"
  ar_policy_rule :: string
  ar_status :: approval_status
  ar_requested_at :: int
  ar_decided_at :: "int option"
  ar_decided_by :: "string option"
  ar_expires_at :: "int option"
  ar_checkpoint_hash :: "string option"

datatype approval_payload = Stored approval_request | Undecodable

record approval_key =
  ak_id :: string
  ak_payload :: approval_payload
  ak_lapses :: int

record approval_world =
  aw_keys :: "approval_key list"
  aw_pending :: "string list"
  aw_workflows :: "(string \<times> workflow_status) list"
  aw_twins :: "approval_request list"
  aw_events :: "(string \<times> string) list"

record approval_env =
  ae_new_id :: "approval_world \<Rightarrow> string"
  ae_twin_ok :: "approval_request \<Rightarrow> bool"
  ae_db_ok :: "string \<Rightarrow> bool"
  ae_smembers_ok :: bool
  ae_get_ok :: "string \<Rightarrow> bool"
  ae_srem_ok :: bool
  ae_crdt_pending :: "approval_world \<Rightarrow> approval_request list"

datatype approval_error = ApprovalNotFound string | AlreadyDecided string approval_status | PayloadInvalid | InvalidExpire

definition expiry_grace_seconds :: int where
  "expiry_grace_seconds = 900"

definition second :: int where
  "second = 1000000"

text \<open>A malformed \<open>expires_at\<close> is \<open>None\<close> and counts as expired.\<close>

definition is_expired :: "approval_request \<Rightarrow> int \<Rightarrow> bool" where
  "is_expired r now = (case ar_expires_at r of None \<Rightarrow> True | Some deadline \<Rightarrow> deadline \<le> now)"

section \<open>Redis\<close>

definition redis_get :: "int \<Rightarrow> string \<Rightarrow> approval_world \<Rightarrow> approval_payload option" where
  "redis_get now rid w =
     (case lookup_by ak_id rid (aw_keys w) of
        None \<Rightarrow> None | Some k \<Rightarrow> if now < ak_lapses k then Some (ak_payload k) else None)"

text \<open>\<open>TTL\<close> in seconds, rounded to the nearest; \<open>-2\<close> without a key.\<close>

definition redis_ttl :: "int \<Rightarrow> string \<Rightarrow> approval_world \<Rightarrow> int" where
  "redis_ttl now rid w =
     (case lookup_by ak_id rid (aw_keys w) of
        None \<Rightarrow> -2
      | Some k \<Rightarrow> if now < ak_lapses k then ((ak_lapses k - now) div 1000 + 500) div 1000 else -2)"

text \<open>\<open>SET ... EX ttl\<close>; the server refuses an expiry of zero or less.\<close>

definition redis_set :: "int \<Rightarrow> approval_request \<Rightarrow> string \<Rightarrow> int \<Rightarrow> approval_world \<Rightarrow> approval_error + approval_world" where
  "redis_set now r rid ttl w =
     (if ttl \<le> 0 then Inl InvalidExpire
      else Inr (w\<lparr>aw_keys := \<lparr>ak_id = rid, ak_payload = Stored r, ak_lapses = now + ttl * second\<rparr>
                    # filter (\<lambda>k. ak_id k \<noteq> rid) (aw_keys w)\<rparr>))"

definition redis_srem :: "string list \<Rightarrow> approval_world \<Rightarrow> approval_world" where
  "redis_srem ids w = w\<lparr>aw_pending := filter (\<lambda>i. i \<notin> set ids) (aw_pending w)\<rparr>"

definition redis_sadd :: "string \<Rightarrow> approval_world \<Rightarrow> approval_world" where
  "redis_sadd rid w = w\<lparr>aw_pending := (if rid \<in> set (aw_pending w) then aw_pending w else aw_pending w @ [rid])\<rparr>"

definition write_twin :: "approval_env \<Rightarrow> approval_request \<Rightarrow> approval_world \<Rightarrow> approval_world" where
  "write_twin E r w = (if ae_twin_ok E r then w\<lparr>aw_twins := aw_twins w @ [r]\<rparr> else w)"

definition publish :: "string \<Rightarrow> string \<Rightarrow> approval_world \<Rightarrow> approval_world" where
  "publish event rid w = w\<lparr>aw_events := aw_events w @ [(event, rid)]\<rparr>"

section \<open>The manager\<close>

definition request_approval ::
  "approval_env \<Rightarrow> int \<Rightarrow> string \<Rightarrow> string option \<Rightarrow> string \<Rightarrow> (string \<times> json) list \<Rightarrow> string \<Rightarrow> int \<Rightarrow> string option
     \<Rightarrow> approval_world \<Rightarrow> approval_error + (approval_request \<times> approval_world)" where
  "request_approval E now workflow_id task_id action context policy_rule timeout checkpoint w =
     (let r = \<lparr>ar_request_id = ae_new_id E w, ar_workflow_id = workflow_id, ar_task_id = task_id, ar_action = action,
               ar_context = context, ar_policy_rule = policy_rule, ar_status = ApPending, ar_requested_at = now,
               ar_decided_at = None, ar_decided_by = None, ar_expires_at = Some (now + timeout * second),
               ar_checkpoint_hash = checkpoint\<rparr>
      in bindE (redis_set now r (ar_request_id r) (timeout + expiry_grace_seconds) w) (\<lambda>w1.
           Inr (r, publish ''approval.requested'' (ar_request_id r)
                     (write_twin E r (redis_sadd (ar_request_id r) w1)))))"

text \<open>The loop of \<open>get_pending\<close>: the requests to return and the ids to drop.\<close>

fun scan_pending :: "int \<Rightarrow> string option \<Rightarrow> approval_world \<Rightarrow> string list
    \<Rightarrow> approval_error + (approval_request list \<times> string list)" where
  "scan_pending now wid w [] = Inr ([], [])"
| "scan_pending now wid w (rid # ids) =
     (case redis_get now rid w of
        None \<Rightarrow> bindE (scan_pending now wid w ids) (\<lambda>(rs, ex). Inr (rs, rid # ex))
      | Some Undecodable \<Rightarrow> Inl PayloadInvalid
      | Some (Stored r) \<Rightarrow>
          bindE (scan_pending now wid w ids) (\<lambda>(rs, ex).
            if ar_status r \<noteq> ApPending \<or> is_expired r now then Inr (rs, rid # ex)
            else if wid \<noteq> None \<and> wid \<noteq> Some (ar_workflow_id r) then Inr (rs, ex)
            else Inr (r # rs, ex)))"

definition get_pending :: "int \<Rightarrow> string option \<Rightarrow> approval_world \<Rightarrow> approval_error + (approval_request list \<times> approval_world)" where
  "get_pending now wid w =
     bindE (scan_pending now wid w (aw_pending w)) (\<lambda>(rs, expired). Inr (rs, redis_srem expired w))"

definition check_status :: "int \<Rightarrow> string \<Rightarrow> approval_world \<Rightarrow> approval_error + approval_request" where
  "check_status now rid w =
     (case redis_get now rid w of
        None \<Rightarrow> Inl (ApprovalNotFound rid)
      | Some Undecodable \<Rightarrow> Inl PayloadInvalid
      | Some (Stored r) \<Rightarrow> Inr r)"

definition context_set :: "string \<Rightarrow> json \<Rightarrow> (string \<times> json) list \<Rightarrow> (string \<times> json) list" where
  "context_set k v ctx =
     (if k \<in> fst ` set ctx then map (\<lambda>kv. if fst kv = k then (k, v) else kv) ctx else ctx @ [(k, v)])"

fun status_name :: "approval_status \<Rightarrow> string" where
  "status_name ApPending = ''pending''"
| "status_name ApApproved = ''approved''"
| "status_name ApDenied = ''denied''"
| "status_name ApExpired = ''expired''"

definition kept_ttl :: "int \<Rightarrow> string \<Rightarrow> approval_world \<Rightarrow> int" where
  "kept_ttl now rid w = (if redis_ttl now rid w < 0 then 60 else redis_ttl now rid w)"

definition decide ::
  "approval_env \<Rightarrow> int \<Rightarrow> string \<Rightarrow> approval_status \<Rightarrow> string \<Rightarrow> string option \<Rightarrow> approval_world
     \<Rightarrow> approval_error + (approval_request \<times> approval_world)" where
  "decide E now rid status decided_by reason w =
     (case redis_get now rid w of
        None \<Rightarrow> Inl (ApprovalNotFound rid)
      | Some Undecodable \<Rightarrow> Inl PayloadInvalid
      | Some (Stored r) \<Rightarrow>
          if ar_status r \<noteq> ApPending then Inl (AlreadyDecided rid (ar_status r))
          else
            let r' = r\<lparr>ar_status := status, ar_decided_at := Some now, ar_decided_by := Some decided_by,
                       ar_context := (case reason of None \<Rightarrow> ar_context r
                                      | Some txt \<Rightarrow> context_set ''denial_reason'' (JStr txt) (ar_context r))\<rparr>
            in bindE (redis_set now r' rid (kept_ttl now rid w) w) (\<lambda>w1.
                 Inr (r', publish (''approval.'' @ status_name status) rid (write_twin E r' (redis_srem [rid] w1)))))"

definition approve :: "approval_env \<Rightarrow> int \<Rightarrow> string \<Rightarrow> string \<Rightarrow> approval_world \<Rightarrow> approval_error + (approval_request \<times> approval_world)" where
  "approve E now rid decided_by w = decide E now rid ApApproved decided_by None w"

definition deny ::
  "approval_env \<Rightarrow> int \<Rightarrow> string \<Rightarrow> string \<Rightarrow> string option \<Rightarrow> approval_world \<Rightarrow> approval_error + (approval_request \<times> approval_world)" where
  "deny E now rid decided_by reason w = decide E now rid ApDenied decided_by reason w"

definition mark_expired ::
  "approval_env \<Rightarrow> int \<Rightarrow> approval_request \<Rightarrow> approval_world \<Rightarrow> approval_error + approval_world" where
  "mark_expired E now r w =
     (let r' = r\<lparr>ar_status := ApExpired, ar_decided_at := Some now\<rparr>; rid = ar_request_id r in
      bindE (redis_set now r' rid (kept_ttl now rid w) w) (\<lambda>w1.
        Inr (publish ''approval.expired'' rid (write_twin E r' (redis_srem [rid] w1)))))"

section \<open>The janitor\<close>

definition transition_workflow_to_failed :: "approval_env \<Rightarrow> string \<Rightarrow> approval_world \<Rightarrow> approval_world" where
  "transition_workflow_to_failed E wid w =
     (if ae_db_ok E wid
      then w\<lparr>aw_workflows := map (\<lambda>(i, st). (i, if i = wid \<and> st = WfAwaitingApproval then WfFailed else st)) (aw_workflows w)\<rparr>
      else w)"

definition expire_one :: "approval_env \<Rightarrow> int \<Rightarrow> approval_request \<Rightarrow> approval_world \<Rightarrow> bool \<times> approval_world" where
  "expire_one E now r w =
     (case mark_expired E now r w of
        Inl _ \<Rightarrow> (False, w)
      | Inr w1 \<Rightarrow> (True, transition_workflow_to_failed E (ar_workflow_id r) w1))"

record reap_state =
  rs_world :: approval_world
  rs_count :: nat
  rs_handled :: "string list"
  rs_orphans :: "string list"

definition reap :: "approval_env \<Rightarrow> int \<Rightarrow> approval_request \<Rightarrow> reap_state \<Rightarrow> reap_state" where
  "reap E now r s =
     (let (ok, w) = expire_one E now r (rs_world s) in
      s\<lparr>rs_world := w, rs_count := rs_count s + (if ok then 1 else 0), rs_handled := ar_request_id r # rs_handled s\<rparr>)"

fun reap_redis :: "approval_env \<Rightarrow> int \<Rightarrow> string list \<Rightarrow> reap_state \<Rightarrow> reap_state" where
  "reap_redis E now [] s = s"
| "reap_redis E now (rid # ids) s =
     reap_redis E now ids
       (if \<not> ae_get_ok E rid then s
        else case redis_get now rid (rs_world s) of
          None \<Rightarrow> s\<lparr>rs_orphans := rid # rs_orphans s\<rparr>
        | Some Undecodable \<Rightarrow> s
        | Some (Stored r) \<Rightarrow> if ar_status r \<noteq> ApPending \<or> \<not> is_expired r now then s else reap E now r s)"

fun reap_crdt :: "approval_env \<Rightarrow> int \<Rightarrow> approval_request list \<Rightarrow> reap_state \<Rightarrow> reap_state" where
  "reap_crdt E now [] s = s"
| "reap_crdt E now (r # rs) s =
     reap_crdt E now rs
       (if ar_request_id r \<in> set (rs_handled s) \<or> \<not> is_expired r now then s
        else (reap E now r s)\<lparr>rs_orphans := filter (\<lambda>i. i \<noteq> ar_request_id r) (rs_orphans s)\<rparr>)"

definition reap_expired :: "approval_env \<Rightarrow> int \<Rightarrow> approval_world \<Rightarrow> nat \<times> approval_world" where
  "reap_expired E now w =
     (let ids = (if ae_smembers_ok E then aw_pending w else []);
          s1 = reap_redis E now ids \<lparr>rs_world = w, rs_count = 0, rs_handled = [], rs_orphans = []\<rparr>;
          s2 = reap_crdt E now (ae_crdt_pending E (rs_world s1)) s1;
          unaccounted = filter (\<lambda>i. i \<notin> set (rs_handled s2)) (rs_orphans s2)
      in (rs_count s2, if unaccounted \<noteq> [] \<and> ae_srem_ok E then redis_srem unaccounted (rs_world s2) else rs_world s2))"

section \<open>Decisions are final\<close>

lemma redis_set_get:
  "redis_set now r rid ttl w = Inr w' \<Longrightarrow> redis_get now rid w' = Some (Stored r)"
  by (auto simp: redis_set_def redis_get_def second_def split: if_splits)

lemma redis_views [simp]:
  "redis_get now rid (write_twin E r w) = redis_get now rid w" "redis_get now rid (publish e i w) = redis_get now rid w"
  "redis_get now rid (redis_srem ids w) = redis_get now rid w"
  "aw_pending (write_twin E r w) = aw_pending w" "aw_pending (publish e i w) = aw_pending w"
  "aw_workflows (write_twin E r w) = aw_workflows w" "aw_workflows (publish e i w) = aw_workflows w"
  "aw_workflows (redis_srem ids w) = aw_workflows w"
  "aw_keys (write_twin E r w) = aw_keys w" "aw_keys (publish e i w) = aw_keys w" "aw_keys (redis_srem ids w) = aw_keys w"
  "aw_pending (redis_srem ids w) = filter (\<lambda>i. i \<notin> set ids) (aw_pending w)"
  by (simp_all add: write_twin_def publish_def redis_srem_def redis_get_def)

text \<open>A decision is accepted exactly for a live, pending request whose key has at least half a second
  left, also when its deadline has passed: \<open>decide\<close> does not look at \<open>expires_at\<close>.\<close>

lemma decide_ok_iff:
  "is_ok (decide E now rid status by reason w) \<longleftrightarrow>
     (\<exists>r. redis_get now rid w = Some (Stored r) \<and> ar_status r = ApPending) \<and> 0 < kept_ttl now rid w"
  by (auto simp: decide_def redis_set_def Let_def split: option.splits approval_payload.splits)

text \<open>After a decision no other decision of the request is accepted, while its key lives.\<close>

lemma decide_final:
  assumes "decide E now rid status by reason w = Inr (r, w')" "status \<noteq> ApPending"
  shows "decide E' now rid status' by' reason' w' = Inl (AlreadyDecided rid status)"
proof -
  from assms(1) obtain w1 where w1: "redis_set now r rid (kept_ttl now rid w) w = Inr w1" "ar_status r = status"
      "redis_get now rid w' = redis_get now rid w1"
    by (auto simp: decide_def Let_def bindE_Inr_conv split: option.splits approval_payload.splits if_splits)
  from redis_set_get[OF w1(1)] w1(2,3) assms(2) show ?thesis by (simp add: decide_def)
qed

section \<open>The janitor reaches every expired request\<close>

definition keys_named :: "approval_world \<Rightarrow> bool" where
  "keys_named w \<longleftrightarrow> (\<forall>k \<in> set (aw_keys w). \<forall>q. ak_payload k = Stored q \<longrightarrow> ar_request_id q = ak_id k)"

lemma redis_get_named: "keys_named w \<Longrightarrow> redis_get now rid w = Some (Stored q) \<Longrightarrow> ar_request_id q = rid"
  by (auto simp: keys_named_def redis_get_def dest!: lookup_by_Some split: option.splits if_splits)

lemma lookup_filter_other:
  "i \<noteq> j \<Longrightarrow> lookup_by f i (filter (\<lambda>k. f k \<noteq> j) ks) = lookup_by f i ks"
  by (induction ks) auto

text \<open>What expiring one request does to the tables.\<close>

definition unblocked :: "string \<Rightarrow> string \<Rightarrow> approval_world \<Rightarrow> bool" where
  "unblocked rid wid w \<longleftrightarrow> rid \<notin> set (aw_pending w) \<and> (wid, WfAwaitingApproval) \<notin> set (aw_workflows w)"

lemma expire_one_fields:
  obtains (failed) "expire_one E now q w = (False, w)"
  | (expired) w' where "expire_one E now q w = (True, w')" "0 < kept_ttl now (ar_request_id q) w"
      "aw_keys w' = \<lparr>ak_id = ar_request_id q, ak_payload = Stored (q\<lparr>ar_status := ApExpired, ar_decided_at := Some now\<rparr>),
          ak_lapses = now + kept_ttl now (ar_request_id q) w * second\<rparr> # filter (\<lambda>k. ak_id k \<noteq> ar_request_id q) (aw_keys w)"
      "aw_pending w' = filter (\<lambda>i. i \<noteq> ar_request_id q) (aw_pending w)"
      "aw_workflows w' = (if ae_db_ok E (ar_workflow_id q)
         then map (\<lambda>(i, st). (i, if i = ar_workflow_id q \<and> st = WfAwaitingApproval then WfFailed else st)) (aw_workflows w)
         else aw_workflows w)"
proof (cases "0 < kept_ttl now (ar_request_id q) w")
  case False
  then have "expire_one E now q w = (False, w)" by (simp add: expire_one_def mark_expired_def redis_set_def Let_def)
  then show thesis by (rule failed)
next
  case True
  then show thesis
    by (intro expired[of "snd (expire_one E now q w)"])
      (simp_all add: expire_one_def mark_expired_def redis_set_def Let_def transition_workflow_to_failed_def redis_srem_def
        write_twin_def publish_def)
qed

lemma expire_one_keeps:
  assumes "expire_one E now q w = (b, w')"
  shows "unblocked rid wid w \<Longrightarrow> unblocked rid wid w'"
    and "keys_named w \<Longrightarrow> keys_named w'"
    and "ar_request_id q \<noteq> rid \<Longrightarrow> redis_get now rid w' = redis_get now rid w \<and> kept_ttl now rid w' = kept_ttl now rid w"
proof -
  have "(unblocked rid wid w \<longrightarrow> unblocked rid wid w') \<and> (keys_named w \<longrightarrow> keys_named w')
    \<and> (ar_request_id q \<noteq> rid \<longrightarrow> redis_get now rid w' = redis_get now rid w \<and> kept_ttl now rid w' = kept_ttl now rid w)"
  proof (cases rule: expire_one_fields[of E now q w])
    case failed
    with assms show ?thesis by simp
  next
    case (expired v)
    then have v: "v = w'" using assms by simp
    have "redis_get now rid w' = redis_get now rid w" "redis_ttl now rid w' = redis_ttl now rid w" if "ar_request_id q \<noteq> rid"
      using that lookup_filter_other[of rid "ar_request_id q" ak_id "aw_keys w"]
      by (simp_all add: redis_get_def redis_ttl_def expired(3)[unfolded v])
    moreover have "unblocked rid wid w'" if "unblocked rid wid w"
      using that by (auto simp: unblocked_def expired(4,5)[unfolded v] split: if_splits)
    moreover have "keys_named w'" if "keys_named w" using that by (auto simp: keys_named_def expired(3)[unfolded v])
    ultimately show ?thesis by (simp add: kept_ttl_def)
  qed
  then show "unblocked rid wid w \<Longrightarrow> unblocked rid wid w'" "keys_named w \<Longrightarrow> keys_named w'"
    "ar_request_id q \<noteq> rid \<Longrightarrow> redis_get now rid w' = redis_get now rid w \<and> kept_ttl now rid w' = kept_ttl now rid w" by blast+
qed

lemma expire_one_unblocks:
  assumes "0 < kept_ttl now (ar_request_id q) w" "ae_db_ok E (ar_workflow_id q)"
  shows "unblocked (ar_request_id q) (ar_workflow_id q) (snd (expire_one E now q w))"
proof (cases rule: expire_one_fields[of E now q w])
  case failed
  with assms(1) show ?thesis by (simp add: expire_one_def mark_expired_def redis_set_def Let_def)
next
  case (expired v)
  then show ?thesis using assms(2) by (auto simp: unblocked_def split: if_splits)
qed

lemma reap_world: "rs_world (reap E now q s) = snd (expire_one E now q (rs_world s))"
  by (simp add: reap_def case_prod_unfold Let_def)

lemma reap_keeps_unblocked: "unblocked rid wid (rs_world s) \<Longrightarrow> unblocked rid wid (rs_world (reap E now q s))"
  unfolding reap_world using expire_one_keeps(1)[of E now q "rs_world s"] by (metis surjective_pairing)

lemma reap_redis_keeps: "unblocked rid wid (rs_world s) \<Longrightarrow> unblocked rid wid (rs_world (reap_redis E now ids s))"
proof (induction ids arbitrary: s)
  case (Cons i ids)
  then show ?case by (auto simp: reap_keeps_unblocked split: option.splits approval_payload.splits)
qed simp

lemma reap_crdt_keeps: "unblocked rid wid (rs_world s) \<Longrightarrow> unblocked rid wid (rs_world (reap_crdt E now rs s))"
proof (induction rs arbitrary: s)
  case (Cons r rs)
  then show ?case by (simp add: reap_keeps_unblocked)
qed simp

lemma reap_redis_reaches:
  assumes "rid \<in> set ids" "keys_named (rs_world s)" "redis_get now rid (rs_world s) = Some (Stored r)"
    and "ar_status r = ApPending" "is_expired r now" "0 < kept_ttl now rid (rs_world s)"
    and "ae_get_ok E rid" "ae_db_ok E (ar_workflow_id r)"
  shows "unblocked rid (ar_workflow_id r) (rs_world (reap_redis E now ids s))"
  using assms
proof (induction ids arbitrary: s)
  case (Cons i ids)
  note named = Cons.prems(2) and get = Cons.prems(3)
  have id: "ar_request_id r = rid" using redis_get_named[OF named get] .
  show ?case
  proof (cases "i = rid")
    case True
    have "unblocked rid (ar_workflow_id r) (rs_world (reap E now r s))"
      unfolding reap_world using expire_one_unblocks[of now r "rs_world s" E] Cons.prems(6,8) id by simp
    then show ?thesis using True get Cons.prems(4,5,7) by (simp add: reap_redis_keeps)
  next
    case False
    let ?s = "if \<not> ae_get_ok E i then s
        else case redis_get now i (rs_world s) of
          None \<Rightarrow> s\<lparr>rs_orphans := i # rs_orphans s\<rparr>
        | Some Undecodable \<Rightarrow> s
        | Some (Stored q) \<Rightarrow> if ar_status q \<noteq> ApPending \<or> \<not> is_expired q now then s else reap E now q s"
    have "keys_named (rs_world ?s) \<and> redis_get now rid (rs_world ?s) = redis_get now rid (rs_world s)
        \<and> kept_ttl now rid (rs_world ?s) = kept_ttl now rid (rs_world s)"
    proof (cases "\<exists>q. redis_get now i (rs_world s) = Some (Stored q) \<and> ae_get_ok E i \<and> ar_status q = ApPending \<and> is_expired q now")
      case True
      then obtain q where q: "redis_get now i (rs_world s) = Some (Stored q)" "ae_get_ok E i" "ar_status q = ApPending" "is_expired q now"
        by blast
      have "ar_request_id q \<noteq> rid" using redis_get_named[OF named q(1)] False by simp
      then show ?thesis
        using q named expire_one_keeps(2,3)[of E now q "rs_world s" "fst (expire_one E now q (rs_world s))" "snd (expire_one E now q (rs_world s))"]
        by (simp add: reap_world)
    next
      case False
      then show ?thesis using named by (auto split: option.splits approval_payload.splits)
    qed
    then show ?thesis using Cons.IH[of ?s] Cons.prems False by simp
  qed
qed simp

text \<open>C18. No expired request strands its workflow: if a request is in the Redis pending set, still stored,
  pending and past its deadline, one janitor tick takes it off the set and leaves its workflow no
  longer awaiting approval, whatever the other requests, the CRDT store and the best-effort calls
  do, provided Redis answers for it and its workflow row can be updated.\<close>

theorem janitor_unblocks_expired:
  assumes "rid \<in> set (aw_pending w)" and "redis_get now rid w = Some (Stored r)" and "ar_status r = ApPending"
    and "is_expired r now" and "keys_named w" and "0 < kept_ttl now rid w"
    and "ae_smembers_ok E" and "ae_get_ok E rid" and "ae_db_ok E (ar_workflow_id r)"
  shows "rid \<notin> set (aw_pending (snd (reap_expired E now w)))
    \<and> (ar_workflow_id r, WfAwaitingApproval) \<notin> set (aw_workflows (snd (reap_expired E now w)))"
proof -
  let ?s1 = "reap_redis E now (aw_pending w) \<lparr>rs_world = w, rs_count = 0, rs_handled = [], rs_orphans = []\<rparr>"
  have "unblocked rid (ar_workflow_id r) (rs_world ?s1)"
    by (rule reap_redis_reaches) (use assms in simp_all)
  then have "unblocked rid (ar_workflow_id r) (rs_world (reap_crdt E now (ae_crdt_pending E (rs_world ?s1)) ?s1))"
    by (rule reap_crdt_keeps)
  then show ?thesis using assms(7) by (simp add: reap_expired_def Let_def unblocked_def)
qed

section \<open>A concrete request\<close>

definition demo_request :: approval_request where
  "demo_request = \<lparr>ar_request_id = ''r1'', ar_workflow_id = ''w1'', ar_task_id = None, ar_action = ''pay'', ar_context = [],
     ar_policy_rule = ''cost_caps'', ar_status = ApPending, ar_requested_at = 0, ar_decided_at = None, ar_decided_by = None,
     ar_expires_at = Some (300 * second), ar_checkpoint_hash = None\<rparr>"

definition demo_world :: approval_world where
  "demo_world = \<lparr>aw_keys = [\<lparr>ak_id = ''r1'', ak_payload = Stored demo_request, ak_lapses = 1200 * second\<rparr>], aw_pending = [''r1''],
     aw_workflows = [(''w1'', WfAwaitingApproval)], aw_twins = [], aw_events = []\<rparr>"

definition demo_approval_env :: approval_env where
  "demo_approval_env = \<lparr>ae_new_id = (\<lambda>_. ''r2''), ae_twin_ok = (\<lambda>_. False), ae_db_ok = (\<lambda>_. True), ae_smembers_ok = True,
     ae_get_ok = (\<lambda>_. True), ae_srem_ok = True, ae_crdt_pending = (\<lambda>_. [])\<rparr>"

theorem janitor_unblocks_expired_witness:
  "(''w1'', WfAwaitingApproval) \<in> set (aw_workflows demo_world)
     \<and> (''w1'', WfAwaitingApproval) \<notin> set (aw_workflows (snd (reap_expired demo_approval_env (330 * second) demo_world)))"
proof -
  have w: "''r1'' \<in> set (aw_pending demo_world)" "redis_get (330 * second) ''r1'' demo_world = Some (Stored demo_request)"
    "keys_named demo_world" "0 < kept_ttl (330 * second) ''r1'' demo_world"
    by (simp_all add: demo_world_def redis_get_def kept_ttl_def redis_ttl_def keys_named_def demo_request_def second_def)
  have r: "ar_status demo_request = ApPending" "is_expired demo_request (330 * second)" "ar_workflow_id demo_request = ''w1''"
    by (simp_all add: demo_request_def is_expired_def second_def)
  have e: "ae_smembers_ok demo_approval_env" "ae_get_ok demo_approval_env ''r1''" "ae_db_ok demo_approval_env (ar_workflow_id demo_request)"
    by (simp_all add: demo_approval_env_def)
  from janitor_unblocks_expired[OF w(1,2) r(1,2) w(3,4) e] r(3) show ?thesis by (simp add: demo_world_def)
qed

end
