(* ===== verification/Policy_Engine.thy ===== *)
theory Policy_Engine
  imports Json_Canon Uuid Py_Strings
begin

text \<open>
  Models \<^verbatim>\<open>backend/app/safety/policy_engine.py\<close>: the stored rules, the recursive evaluation of their
  JSON conditions, their validation, and the cache of the active rules.

  Conditions and contexts are JSON values. Comparison, equality, membership and truth are Python's
  on such values; \<open>None\<close> is the \<open>TypeError\<close>. The parameter \<open>A\<close> is \<open>getattr\<close> on values that are not
  dicts. Any exception of the evaluator is caught by its caller, so an error only keeps whether it
  is the module's \<open>ValidationError\<close>. \<open>es_rules\<close> lists the rows in the order in which the database
  returns rules of equal priority.
\<close>

section \<open>Python operators on JSON values\<close>

definition py_number :: "json \<Rightarrow> pyfloat option" where
  "py_number v = (case v of JBool b \<Rightarrow> Some (FFin (if b then 1 else 0)) | JInt i \<Rightarrow> Some (FFin (of_int i))
     | JFloat f \<Rightarrow> Some f | _ \<Rightarrow> None)"

fun float_eq :: "pyfloat \<Rightarrow> pyfloat \<Rightarrow> bool" where
  "float_eq (FFin p) (FFin q) \<longleftrightarrow> p = q"
| "float_eq (FInf a) (FInf b) \<longleftrightarrow> a = b"
| "float_eq _ _ \<longleftrightarrow> False"

text \<open>\<open>FInf True\<close> is minus infinity.\<close>

fun float_less :: "pyfloat \<Rightarrow> pyfloat \<Rightarrow> bool" where
  "float_less (FFin p) (FFin q) \<longleftrightarrow> p < q"
| "float_less (FInf a) (FInf b) \<longleftrightarrow> a \<and> \<not> b"
| "float_less (FInf a) (FFin q) \<longleftrightarrow> a"
| "float_less (FFin p) (FInf b) \<longleftrightarrow> \<not> b"
| "float_less _ _ \<longleftrightarrow> False"

lemma size_map_of: "map_of kvs k = Some v \<Longrightarrow> size v < Suc (size_list (size_prod (\<lambda>_. 0) size) (kvs :: (string \<times> json) list))"
  by (induction kvs) (auto split: if_splits)

lemma size_in_list: "v \<in> set vs \<Longrightarrow> size v < Suc (size_list size (vs :: json list))"
  by (induction vs) auto

function py_eq :: "json \<Rightarrow> json \<Rightarrow> bool" where
  "py_eq a b =
     (case (py_number a, py_number b) of
        (Some x, Some y) \<Rightarrow> float_eq x y
      | (None, None) \<Rightarrow>
          (case (a, b) of
             (JNull, JNull) \<Rightarrow> True
           | (JStr s, JStr t) \<Rightarrow> s = t
           | (JArr xs, JArr ys) \<Rightarrow> length xs = length ys \<and> list_all (\<lambda>(x, y). py_eq x y) (zip xs ys)
           | (JObj xs, JObj ys) \<Rightarrow> length xs = length ys
               \<and> list_all (\<lambda>(k, x). case map_of ys k of None \<Rightarrow> False | Some y \<Rightarrow> py_eq x y) xs
           | (JOpaque t u, JOpaque t' u') \<Rightarrow> t = t' \<and> u = u'
           | _ \<Rightarrow> False)
      | _ \<Rightarrow> False)"
  by pat_completeness auto
termination
proof (relation "measure (\<lambda>(a, b). size a)"; clarsimp)
  fix x y and xs ys :: "json list"
  assume "(x, y) \<in> set (zip xs ys)"
  then have "x \<in> set xs" by (rule set_zip_leftD)
  then show "size x < Suc (size_list size xs)" by (rule size_in_list)
next
  fix k x and xs :: "(string \<times> json) list"
  assume "(k, x) \<in> set xs"
  then show "size x < Suc (size_list (size_prod (\<lambda>_. 0) size) xs)" by (induction xs) auto
qed

declare py_eq.simps [simp del]

datatype ordering_op = OpLt | OpLe | OpGt | OpGe

definition by_order :: "ordering_op \<Rightarrow> bool \<Rightarrow> bool \<Rightarrow> bool \<Rightarrow> bool" where
  "by_order op lt eq gt =
     (case op of OpLt \<Rightarrow> lt | OpLe \<Rightarrow> lt \<or> eq | OpGt \<Rightarrow> gt | OpGe \<Rightarrow> gt \<or> eq)"

definition first_difference :: "json list \<Rightarrow> json list \<Rightarrow> (json \<times> json) option" where
  "first_difference xs ys = List.find (\<lambda>(x, y). \<not> py_eq x y) (zip xs ys)"

lemma first_difference_size: "first_difference xs ys = Some (x, y) \<Longrightarrow> size x < Suc (size_list size xs)"
proof -
  assume "first_difference xs ys = Some (x, y)"
  from find_SomeD[OF this[unfolded first_difference_def]] have "(x, y) \<in> set (zip xs ys)" by blast
  then show ?thesis by (rule size_in_list[OF set_zip_leftD])
qed

text \<open>Lists compare at the first pair of unequal elements, else by length.\<close>

function py_compare :: "ordering_op \<Rightarrow> json \<Rightarrow> json \<Rightarrow> bool option" where
  "py_compare op a b =
     (case (py_number a, py_number b) of
        (Some x, Some y) \<Rightarrow> Some (by_order op (float_less x y) (float_eq x y) (float_less y x))
      | (None, None) \<Rightarrow>
          (case (a, b) of
             (JStr s, JStr t) \<Rightarrow> Some (by_order op (s < t) (s = t) (t < s))
           | (JArr xs, JArr ys) \<Rightarrow>
               (case first_difference xs ys of
                  Some (x, y) \<Rightarrow> py_compare op x y
                | None \<Rightarrow> Some (by_order op (length xs < length ys) (length xs = length ys) (length ys < length xs)))
           | _ \<Rightarrow> None)
      | _ \<Rightarrow> None)"
  by pat_completeness auto
termination
  by (relation "measure (\<lambda>(op, a, b). size a)") (auto simp: first_difference_size)

declare py_compare.simps [simp del]

definition py_in :: "json \<Rightarrow> json \<Rightarrow> bool option" where
  "py_in v container =
     (case container of
        JArr xs \<Rightarrow> Some (list_ex (\<lambda>x. py_eq x v) xs)
      | JStr t \<Rightarrow> (case v of JStr s \<Rightarrow> Some (substring s t) | _ \<Rightarrow> None)
      | JObj kvs \<Rightarrow> (case v of JStr s \<Rightarrow> Some (s \<in> fst ` set kvs) | JArr _ \<Rightarrow> None | JObj _ \<Rightarrow> None | _ \<Rightarrow> Some False)
      | _ \<Rightarrow> None)"

section \<open>Conditions\<close>

datatype engine_error = ConditionInvalid | ConditionRaises | RuleNotFound uuid | RuleRejected

definition supported_ops :: "string list" where
  "supported_ops = [''eq'', ''ne'', ''lt'', ''le'', ''gt'', ''ge'', ''in'', ''not_in'', ''contains'', ''exists'']"

definition op_dispatch :: "string \<Rightarrow> json \<Rightarrow> json \<Rightarrow> bool option" where
  "op_dispatch op v ref =
     (if op = ''eq'' then Some (py_eq v ref)
      else if op = ''ne'' then Some (\<not> py_eq v ref)
      else if op = ''lt'' then py_compare OpLt v ref
      else if op = ''le'' then py_compare OpLe v ref
      else if op = ''gt'' then py_compare OpGt v ref
      else if op = ''ge'' then py_compare OpGe v ref
      else if op = ''in'' then py_in v ref
      else if op = ''not_in'' then map_option Not (py_in v ref)
      else py_in ref v)"

type_synonym getattr = "json \<Rightarrow> string \<Rightarrow> json option"

fun resolve_parts :: "getattr \<Rightarrow> json \<Rightarrow> string list \<Rightarrow> json option" where
  "resolve_parts A cur [] = Some cur"
| "resolve_parts A cur (part # parts) =
     (case (case cur of JObj kvs \<Rightarrow> map_of kvs part | _ \<Rightarrow> A cur part) of
        None \<Rightarrow> None | Some v \<Rightarrow> resolve_parts A v parts)"

definition resolve_field :: "getattr \<Rightarrow> json \<Rightarrow> string \<Rightarrow> json option" where
  "resolve_field A ctx path = resolve_parts A ctx (split_on CHR ''.'' path)"

text \<open>\<open>all(...)\<close> and \<open>any(...)\<close> over a generator: they stop, also before an element that raises.\<close>

fun all_of :: "('e + bool) list \<Rightarrow> 'e + bool" where
  "all_of [] = Inr True"
| "all_of (r # rs) = bindE r (\<lambda>b. if b then all_of rs else Inr False)"

fun any_of :: "('e + bool) list \<Rightarrow> 'e + bool" where
  "any_of [] = Inr False"
| "any_of (r # rs) = bindE r (\<lambda>b. if b then Inr True else any_of rs)"

definition evaluate_leaf :: "getattr \<Rightarrow> (string \<times> json) list \<Rightarrow> json \<Rightarrow> engine_error + bool" where
  "evaluate_leaf A cond ctx =
     (case (map_of cond ''field'', map_of cond ''op'') of
        (None, _) \<Rightarrow> Inl ConditionInvalid
      | (Some JNull, _) \<Rightarrow> Inl ConditionInvalid
      | (_, None) \<Rightarrow> Inl ConditionInvalid
      | (_, Some JNull) \<Rightarrow> Inl ConditionInvalid
      | (Some field, Some (JStr op)) \<Rightarrow>
          if op \<notin> set supported_ops then Inl ConditionInvalid
          else (case field of
            JStr path \<Rightarrow>
              let resolved = resolve_field A ctx path in
              if op = ''exists''
              then Inr ((resolved \<noteq> None) = (case map_of cond ''value'' of None \<Rightarrow> True | Some e \<Rightarrow> py_truth e))
              else (case resolved of
                None \<Rightarrow> Inr False
              | Some v \<Rightarrow>
                  (case op_dispatch op v (case map_of cond ''value'' of None \<Rightarrow> JNull | Some r \<Rightarrow> r) of
                     None \<Rightarrow> Inr False | Some b \<Rightarrow> Inr b))
          | _ \<Rightarrow> Inl ConditionRaises)
      | (_, Some (JArr _)) \<Rightarrow> Inl ConditionRaises
      | (_, Some (JObj _)) \<Rightarrow> Inl ConditionRaises
      | (_, Some _) \<Rightarrow> Inl ConditionInvalid)"

function evaluate_condition :: "getattr \<Rightarrow> json \<Rightarrow> json \<Rightarrow> engine_error + bool" where
  "evaluate_condition A cond ctx =
     (case cond of
        JObj kvs \<Rightarrow>
          (case map_of kvs ''all'' of
             Some (JArr cs) \<Rightarrow> all_of (map (\<lambda>c. evaluate_condition A c ctx) cs)
           | Some _ \<Rightarrow> Inl ConditionInvalid
           | None \<Rightarrow>
          (case map_of kvs ''any'' of
             Some (JArr cs) \<Rightarrow> any_of (map (\<lambda>c. evaluate_condition A c ctx) cs)
           | Some _ \<Rightarrow> Inl ConditionInvalid
           | None \<Rightarrow>
          (case map_of kvs ''not'' of
             Some (JObj c) \<Rightarrow> bindE (evaluate_condition A (JObj c) ctx) (\<lambda>b. Inr (\<not> b))
           | Some _ \<Rightarrow> Inl ConditionInvalid
           | None \<Rightarrow> evaluate_leaf A kvs ctx)))
      | _ \<Rightarrow> Inl ConditionRaises)"
  by pat_completeness auto

lemma size_nested: "map_of (kvs :: (string \<times> json) list) k = Some (JArr cs) \<Longrightarrow> c \<in> set cs \<Longrightarrow> size c < Suc (size_list (size_prod (\<lambda>_. 0) size) kvs)"
  using size_map_of[of kvs k "JArr cs"] size_in_list[of c cs] by simp

termination evaluate_condition
  by (relation "measure (\<lambda>(A, cond, ctx). size cond)") (auto simp: size_nested dest: size_map_of)

declare evaluate_condition.simps [simp del]

fun each_valid :: "('e + unit) list \<Rightarrow> 'e + unit" where
  "each_valid [] = Inr ()"
| "each_valid (r # rs) = bindE r (\<lambda>_. each_valid rs)"

definition validate_leaf :: "(string \<times> json) list \<Rightarrow> engine_error + unit" where
  "validate_leaf kvs =
     (case (map_of kvs ''field'', map_of kvs ''op'') of
        (Some _, Some op) \<Rightarrow>
          (case op of
             JStr o' \<Rightarrow>
               if o' \<notin> set supported_ops then Inl ConditionInvalid
               else if o' \<noteq> ''exists'' \<and> map_of kvs ''value'' = None then Inl ConditionInvalid
               else Inr ()
           | JArr _ \<Rightarrow> Inl ConditionRaises
           | JObj _ \<Rightarrow> Inl ConditionRaises
           | _ \<Rightarrow> Inl ConditionInvalid)
      | _ \<Rightarrow> Inl ConditionInvalid)"

function validate_condition :: "json \<Rightarrow> engine_error + unit" where
  "validate_condition cond =
     (case cond of
        JObj kvs \<Rightarrow>
          (case map_of kvs ''all'' of
             Some (JArr cs) \<Rightarrow> if cs = [] then Inl ConditionInvalid else each_valid (map validate_condition cs)
           | Some _ \<Rightarrow> Inl ConditionInvalid
           | None \<Rightarrow>
          (case map_of kvs ''any'' of
             Some (JArr cs) \<Rightarrow> if cs = [] then Inl ConditionInvalid else each_valid (map validate_condition cs)
           | Some _ \<Rightarrow> Inl ConditionInvalid
           | None \<Rightarrow>
          (case map_of kvs ''not'' of
             Some (JObj c) \<Rightarrow> validate_condition (JObj c)
           | Some _ \<Rightarrow> Inl ConditionInvalid
           | None \<Rightarrow> validate_leaf kvs)))
      | _ \<Rightarrow> Inl ConditionInvalid)"
  by pat_completeness auto
termination
  by (relation "measure size") (auto simp: size_nested dest: size_map_of)

declare validate_condition.simps [simp del]

section \<open>The engine\<close>

datatype policy_action = PaAllow | PaDeny | PaRequireApproval | PaFlag | PaLog

datatype policy_rule_type = RtContent | RtAccess | RtResource | RtWorkflow

fun rule_type_value :: "policy_rule_type \<Rightarrow> string" where
  "rule_type_value RtContent = ''content''"
| "rule_type_value RtAccess = ''access''"
| "rule_type_value RtResource = ''resource''"
| "rule_type_value RtWorkflow = ''workflow''"

record policy_row =
  po_rule_id :: uuid
  po_name :: string
  po_description :: "string option"
  po_rule_type :: policy_rule_type
  po_condition :: json
  po_action :: policy_action
  po_priority :: int
  po_enabled :: bool
  po_created :: int

text \<open>A cache entry that does not decode is \<open>None\<close>.\<close>

record engine_state =
  es_rules :: "policy_row list"
  es_cache :: "(policy_row list option \<times> int) option"

text \<open>What the database and Redis decide: whether Redis answers, the fresh ids, and which rows the
  constraints accept next to the others (unique names, lengths, non-null columns).\<close>

record engine_env =
  ee_redis_up :: bool
  ee_new_id :: "policy_row list \<Rightarrow> uuid"
  ee_now :: int
  ee_row_ok :: "policy_row list \<Rightarrow> policy_row \<Rightarrow> bool"

definition policy_cache_ttl :: int where
  "policy_cache_ttl = 300"

definition load_active_rules :: "engine_env \<Rightarrow> engine_state \<Rightarrow> policy_row list \<times> engine_state" where
  "load_active_rules E st =
     (case (if ee_redis_up E then es_cache st else None) of
        Some (Some rules, expires) \<Rightarrow>
          if ee_now E < expires then (rules, st)
          else (let rules = sort_key po_priority (filter po_enabled (es_rules st))
                in (rules, st\<lparr>es_cache := Some (Some rules, ee_now E + policy_cache_ttl)\<rparr>))
      | _ \<Rightarrow>
          let rules = sort_key po_priority (filter po_enabled (es_rules st))
          in (rules, if ee_redis_up E then st\<lparr>es_cache := Some (Some rules, ee_now E + policy_cache_ttl)\<rparr> else st))"

definition invalidate_rules :: "engine_env \<Rightarrow> engine_state \<Rightarrow> engine_state" where
  "invalidate_rules E st = (if ee_redis_up E then st\<lparr>es_cache := None\<rparr> else st)"

record violation =
  vi_rule_name :: string
  vi_rule_id :: uuid
  vi_action :: policy_action
  vi_reason :: string

record policy_decision =
  dc_approved :: bool
  dc_action :: policy_action
  dc_matched_rule :: "string option"
  dc_reason :: string
  dc_violations :: "violation list"

definition quoted :: "string \<Rightarrow> string" where
  "quoted s = [CHR 0x27] @ s @ [CHR 0x27]"

text \<open>\<open>rule.get("description") or ...\<close>.\<close>

definition described :: "policy_row \<Rightarrow> string \<Rightarrow> string" where
  "described r fallback = (case po_description r of None \<Rightarrow> fallback | Some d \<Rightarrow> if d = [] then fallback else d)"

definition violation_of :: "policy_row \<Rightarrow> violation" where
  "violation_of r = \<lparr>vi_rule_name = po_name r, vi_rule_id = po_rule_id r, vi_action = po_action r,
     vi_reason = described r (''Rule '' @ quoted (po_name r) @ '' triggered.'')\<rparr>"

fun run_policy :: "getattr \<Rightarrow> json \<Rightarrow> policy_row list \<Rightarrow> violation list \<Rightarrow> policy_decision" where
  "run_policy A ctx [] vs =
     \<lparr>dc_approved = True, dc_action = PaAllow, dc_matched_rule = None,
      dc_reason = ''No matching policy rules triggered; action allowed by default.'', dc_violations = vs\<rparr>"
| "run_policy A ctx (r # rs) vs =
     (if evaluate_condition A (po_condition r) ctx \<noteq> Inr True then run_policy A ctx rs vs
      else if po_action r \<in> {PaDeny, PaRequireApproval}
      then \<lparr>dc_approved = False, dc_action = po_action r, dc_matched_rule = Some (po_name r),
            dc_reason = described r (''Action blocked by policy rule '' @ quoted (po_name r) @ ''.''),
            dc_violations = vs @ [violation_of r]\<rparr>
      else run_policy A ctx rs (vs @ [violation_of r]))"

definition applies_to :: "string \<Rightarrow> policy_row \<Rightarrow> bool" where
  "applies_to action r \<longleftrightarrow> action = rule_type_value (po_rule_type r) \<or> starts_with (rule_type_value (po_rule_type r) @ ''.'') action"

definition evaluate_policy :: "engine_env \<Rightarrow> getattr \<Rightarrow> string \<Rightarrow> json \<Rightarrow> engine_state \<Rightarrow> policy_decision \<times> engine_state" where
  "evaluate_policy E A action ctx st =
     (let (rules, st') = load_active_rules E st
      in (run_policy A ctx (sort_key po_priority (filter (applies_to action) rules)) [], st'))"

section \<open>Changing rules\<close>

definition get_rule :: "engine_state \<Rightarrow> uuid \<Rightarrow> engine_error + policy_row" where
  "get_rule st i = (case lookup_by po_rule_id i (es_rules st) of None \<Rightarrow> Inl (RuleNotFound i) | Some r \<Rightarrow> Inr r)"

definition put_rule :: "policy_row \<Rightarrow> engine_state \<Rightarrow> engine_state" where
  "put_rule r st = st\<lparr>es_rules := map (\<lambda>x. if po_rule_id x = po_rule_id r then r else x) (es_rules st)\<rparr>"

definition create_rule :: "engine_env \<Rightarrow> policy_row \<Rightarrow> engine_state \<Rightarrow> engine_error + (policy_row \<times> engine_state)" where
  "create_rule E data st =
     bindE (validate_condition (po_condition data)) (\<lambda>_.
       let r = data\<lparr>po_rule_id := ee_new_id E (es_rules st), po_created := ee_now E\<rparr> in
       if \<not> ee_row_ok E (es_rules st) r then Inl RuleRejected
       else Inr (r, invalidate_rules E (st\<lparr>es_rules := es_rules st @ [r]\<rparr>)))"

text \<open>The fields set in an update, each a function of the row; \<open>condition\<close> also as the value to validate.\<close>

record rule_update =
  ru_condition :: "json option"
  ru_fields :: "(policy_row \<Rightarrow> policy_row) list"

definition update_rule :: "engine_env \<Rightarrow> uuid \<Rightarrow> rule_update \<Rightarrow> engine_state \<Rightarrow> engine_error + (policy_row \<times> engine_state)" where
  "update_rule E i upd st =
     bindE (get_rule st i) (\<lambda>r.
       if ru_condition upd = None \<and> ru_fields upd = [] then Inr (r, st)
       else bindE (case ru_condition upd of None \<Rightarrow> Inr () | Some c \<Rightarrow> validate_condition c) (\<lambda>_.
         let r1 = (case ru_condition upd of None \<Rightarrow> r | Some c \<Rightarrow> r\<lparr>po_condition := c\<rparr>);
             r2 = foldl (\<lambda>x f. f x) r1 (ru_fields upd)
         in if \<not> ee_row_ok E (filter (\<lambda>x. po_rule_id x \<noteq> i) (es_rules st)) r2 then Inl RuleRejected
            else Inr (r2, invalidate_rules E (put_rule r2 st))))"

definition toggle_rule :: "engine_env \<Rightarrow> uuid \<Rightarrow> bool \<Rightarrow> engine_state \<Rightarrow> engine_error + (policy_row \<times> engine_state)" where
  "toggle_rule E i b st =
     bindE (get_rule st i) (\<lambda>r. let r' = r\<lparr>po_enabled := b\<rparr> in Inr (r', invalidate_rules E (put_rule r' st)))"

section \<open>Validated conditions evaluate\<close>

text \<open>What validation does not check: that the field paths are strings.\<close>

function string_fields :: "json \<Rightarrow> bool" where
  "string_fields cond =
     (case cond of
        JObj kvs \<Rightarrow>
          (case map_of kvs ''all'' of
             Some (JArr cs) \<Rightarrow> list_all string_fields cs
           | Some _ \<Rightarrow> True
           | None \<Rightarrow>
          (case map_of kvs ''any'' of
             Some (JArr cs) \<Rightarrow> list_all string_fields cs
           | Some _ \<Rightarrow> True
           | None \<Rightarrow>
          (case map_of kvs ''not'' of
             Some (JObj c) \<Rightarrow> string_fields (JObj c)
           | Some _ \<Rightarrow> True
           | None \<Rightarrow> (case map_of kvs ''field'' of Some (JStr _) \<Rightarrow> True | _ \<Rightarrow> False))))
      | _ \<Rightarrow> True)"
  by pat_completeness auto
termination
  by (relation "measure size") (auto simp: size_nested dest: size_map_of)

declare string_fields.simps [simp del]

lemma all_of_ok: "\<forall>r \<in> set rs. is_ok r \<Longrightarrow> is_ok (all_of rs)"
proof (induction rs)
  case (Cons r rs)
  then obtain b where "r = Inr b" by (auto simp: is_ok_conv)
  with Cons show ?case by simp
qed simp

lemma any_of_ok: "\<forall>r \<in> set rs. is_ok r \<Longrightarrow> is_ok (any_of rs)"
proof (induction rs)
  case (Cons r rs)
  then obtain b where "r = Inr b" by (auto simp: is_ok_conv)
  with Cons show ?case by simp
qed simp

lemma each_valid_iff: "each_valid rs = Inr () \<longleftrightarrow> (\<forall>r \<in> set rs. r = Inr ())"
  by (induction rs) (auto simp: bindE_Inr_conv)

lemma leaf_ok:
  assumes "validate_leaf kvs = Inr ()" "map_of kvs ''field'' = Some (JStr path)"
  shows "is_ok (evaluate_leaf A kvs ctx)"
proof -
  obtain op where op: "map_of kvs ''op'' = Some (JStr op)" "op \<in> set supported_ops"
    using assms by (auto simp: validate_leaf_def split: option.splits json.splits if_splits)
  then show ?thesis using assms(2) by (simp add: evaluate_leaf_def Let_def split: option.split)
qed

lemma validated_ok:
  "validate_condition cond = Inr () \<Longrightarrow> string_fields cond \<Longrightarrow> is_ok (evaluate_condition A cond ctx)"
proof (induction cond rule: measure_induct_rule[of size])
  case (less cond)
  from less.prems(1) obtain kvs where kvs: "cond = JObj kvs"
    by (subst (asm) validate_condition.simps) (auto split: json.splits)
  note v = less.prems(1)[unfolded kvs, simplified validate_condition.simps[of "JObj kvs"]]
  note f = less.prems(2)[unfolded kvs, simplified string_fields.simps[of "JObj kvs"]]
  have sub: "is_ok (evaluate_condition A c ctx)"
    if "map_of kvs k = Some (JArr cs)" "each_valid (map validate_condition cs) = Inr ()" "list_all string_fields cs" "c \<in> set cs" for k cs c
    using that kvs less.IH[of c] size_nested[OF that(1,4)] by (auto simp: each_valid_iff list_all_iff)
  show ?case
  proof (cases "map_of kvs ''all''")
    case (Some w)
    with v obtain cs where "w = JArr cs" "each_valid (map validate_condition cs) = Inr ()"
      by (auto split: json.splits if_splits)
    with Some f sub[of "''all''" cs] show ?thesis
      by (simp add: kvs evaluate_condition.simps[of A "JObj kvs"] all_of_ok)
  next
    case no_all: None
    show ?thesis
    proof (cases "map_of kvs ''any''")
      case (Some w)
      with v no_all obtain cs where "w = JArr cs" "each_valid (map validate_condition cs) = Inr ()"
        by (auto split: json.splits if_splits)
      with Some no_all f sub[of "''any''" cs] show ?thesis
        by (simp add: kvs evaluate_condition.simps[of A "JObj kvs"] any_of_ok)
    next
      case no_any: None
      show ?thesis
      proof (cases "map_of kvs ''not''")
        case (Some w)
        with v no_all no_any obtain c where c: "w = JObj c" "validate_condition (JObj c) = Inr ()"
          by (auto split: json.splits)
        have "string_fields (JObj c)" using f no_all no_any Some c(1) by simp
        with less.IH[of "JObj c"] c size_map_of[of kvs "''not''" "JObj c"] Some kvs
        have "is_ok (evaluate_condition A (JObj c) ctx)" by simp
        then show ?thesis using Some no_all no_any c(1)
          by (auto simp: kvs evaluate_condition.simps[of A "JObj kvs"] is_ok_conv)
      next
        case None
        with v f no_all no_any have "validate_leaf kvs = Inr ()" "\<exists>path. map_of kvs ''field'' = Some (JStr path)"
          by (auto split: option.splits json.splits)
        with leaf_ok[of kvs _ A ctx] None no_all no_any show ?thesis
          by (auto simp: kvs evaluate_condition.simps[of A "JObj kvs"])
      qed
    qed
  qed
qed

text \<open>C40. Validated conditions are safe to evaluate: a condition that passes validation and whose field paths
  are strings evaluates to a truth value in every context, it never raises. Without strings for
  paths this fails, and validation does not look at them.\<close>

theorem validated_condition_evaluates:
  assumes "validate_condition cond = Inr ()" and "string_fields cond"
  shows "\<exists>b. evaluate_condition A cond ctx = Inr b"
  using validated_ok[OF assms, of A ctx] by (simp add: is_ok_conv)

definition low_trust_condition :: "json \<Rightarrow> json" where
  "low_trust_condition path =
     JObj [(''all'', JArr [JObj [(''field'', path), (''op'', JStr ''lt''), (''value'', JInt 3)],
                           JObj [(''not'', JObj [(''field'', JStr ''agent.name''), (''op'', JStr ''exists'')])]])]"

theorem validated_condition_evaluates_witness:
  "(\<exists>b. evaluate_condition (\<lambda>_ _. None) (low_trust_condition (JStr ''agent.score'')) (JObj [(''agent'', JNull)]) = Inr b)
     \<and> validate_condition (low_trust_condition (JInt 5)) = Inr ()
     \<and> evaluate_condition (\<lambda>_ _. None) (low_trust_condition (JInt 5)) (JObj [(''agent'', JNull)]) = Inl ConditionRaises"
proof -
  have "validate_condition (low_trust_condition p) = Inr ()" for p
    by (simp add: low_trust_condition_def validate_condition.simps validate_leaf_def supported_ops_def)
  moreover have "string_fields (low_trust_condition (JStr p))" for p
    by (simp add: low_trust_condition_def string_fields.simps)
  moreover have "evaluate_condition A (low_trust_condition (JInt 5)) ctx = Inl ConditionRaises" for A ctx
    by (simp add: low_trust_condition_def evaluate_condition.simps evaluate_leaf_def supported_ops_def)
  ultimately show ?thesis
    using validated_condition_evaluates[of "low_trust_condition (JStr ''agent.score'')" "\<lambda>_ _. None" "JObj [(''agent'', JNull)]"]
    by blast
qed

end
