(* ===== verification/Float_Order.thy ===== *)
theory Float_Order
  imports Py_Float
begin

text \<open>
  Rounding to doubles keeps the order, so comparisons the code makes on rounded amounts can be read as
  comparisons of the amounts themselves.
\<close>

lemma half_even_mono: "x \<le> y \<Longrightarrow> half_even x \<le> half_even y"
proof -
  assume xy: "x \<le> y"
  have f: "\<lfloor>x\<rfloor> \<le> \<lfloor>y\<rfloor>" using xy by (rule floor_mono)
  have "half_even x \<le> \<lfloor>x\<rfloor> + 1" "\<lfloor>y\<rfloor> \<le> half_even y" by (simp_all add: half_even_def Let_def)
  show ?thesis
  proof (cases "\<lfloor>x\<rfloor> = \<lfloor>y\<rfloor>")
    case True
    with xy show ?thesis by (simp add: half_even_def Let_def)
  next
    case False
    with f \<open>half_even x \<le> \<lfloor>x\<rfloor> + 1\<close> \<open>\<lfloor>y\<rfloor> \<le> half_even y\<close> show ?thesis by linarith
  qed
qed

lemma round_sig_ge: "2 \<le> b \<Longrightarrow> of_nat b ^ p \<le> x \<Longrightarrow> of_nat b ^ p \<le> round_sig b p x"
proof (induction b p x rule: round_sig.induct)
  case (1 b p x)
  have b: "(2::rat) \<le> of_nat b" using 1(3) by (metis of_nat_le_iff of_nat_numeral)
  have pos: "(0::rat) < of_nat b ^ p" "0 < x" using b 1(4) by (auto intro: less_le_trans[of 0 "of_nat b ^ p"])
  show ?case
  proof (cases "of_nat b ^ Suc p \<le> x")
    case True
    then have "of_nat b ^ p \<le> x / of_nat b" using b by (simp add: field_simps)
    then have "of_nat b ^ p \<le> round_sig b p (x / of_nat b)" using 1 True pos by simp
    also have "\<dots> \<le> of_nat b * round_sig b p (x / of_nat b)"
      using mult_right_mono[OF order_trans[OF _ b], of 1 "round_sig b p (x / of_nat b)"] round_sig_nonneg by simp
    finally show ?thesis using 1(3,4) True pos by (simp add: round_sig.simps[of b p x])
  next
    case False
    have "half_even (of_int (int b ^ p)) \<le> half_even x" by (rule half_even_mono) (use 1(4) in simp)
    then have "int b ^ p \<le> half_even x" by (simp only: half_even_of_int)
    then have "(of_nat b ^ p :: rat) \<le> of_int (half_even x)" by (metis of_int_le_iff of_int_of_nat_eq of_int_power)
    with 1(3,4) False pos show ?thesis by (simp add: round_sig.simps[of b p x])
  qed
qed

lemma round_sig_le: "2 \<le> b \<Longrightarrow> x \<le> of_nat b ^ Suc p \<Longrightarrow> round_sig b p x \<le> of_nat b ^ Suc p"
proof (induction b p x rule: round_sig.induct)
  case (1 b p x)
  have b: "(2::rat) \<le> of_nat b" using 1(3) by (metis of_nat_le_iff of_nat_numeral)
  have pos: "(0::rat) < of_nat b ^ p" using b by simp
  show ?case
  proof (cases "x \<le> 0")
    case True
    with b show ?thesis by (simp add: round_sig.simps[of b p x])
  next
    case x: False
    show ?thesis
    proof (cases "x < of_nat b ^ p")
      case True
      then have "round_sig b p (of_nat b * x) \<le> of_nat b ^ Suc p" using 1 x b by simp
      moreover have "round_sig b p (of_nat b * x) / of_nat b \<le> round_sig b p (of_nat b * x)"
        using divide_left_mono[of 1 "of_nat b" "round_sig b p (of_nat b * x)"] round_sig_nonneg[of b p "of_nat b * x"] b by simp
      ultimately have "round_sig b p (of_nat b * x) / of_nat b \<le> of_nat b ^ Suc p" by linarith
      moreover have "round_sig b p x = round_sig b p (of_nat b * x) / of_nat b" using 1(3) x True by (simp add: round_sig.simps[of b p x])
      ultimately show ?thesis by simp
    next
      case ge: False
      show ?thesis
      proof (cases "of_nat b ^ Suc p \<le> x")
        case True
        with 1(4) have "x = of_nat b ^ Suc p" by simp
        then have q: "x / of_nat b = of_int (int b ^ p)" using b by simp
        have "of_int (int b ^ p) < (of_nat b ^ Suc p :: rat)" using mult_strict_right_mono[of 1 "of_nat b" "of_nat b ^ p :: rat"] b pos by simp
        then have "round_sig b p (of_int (int b ^ p)) = of_int (int b ^ p)"
          using 1(3) pos by (intro round_sig_exact) auto
        with q have "round_sig b p x = of_nat b * of_int (int b ^ p)"
          using 1(3) x ge True by (simp add: round_sig.simps[of b p x])
        then show ?thesis by simp
      next
        case False
        have "half_even x \<le> half_even (of_int (int b ^ Suc p))" by (rule half_even_mono) (use 1(4) in simp)
        then have "half_even x \<le> int b ^ Suc p" by (simp only: half_even_of_int)
        then have "of_int (half_even x) \<le> (of_nat b ^ Suc p :: rat)" by (metis of_int_le_iff of_int_of_nat_eq of_int_power)
        with 1(3) x ge False show ?thesis by (simp add: round_sig.simps[of b p x])
      qed
    qed
  qed
qed

lemma round_sig_mono: "2 \<le> b \<Longrightarrow> x \<le> y \<Longrightarrow> round_sig b p x \<le> round_sig b p y"
proof (induction b p x arbitrary: y rule: round_sig.induct)
  case (1 b p x)
  have b: "(2::rat) \<le> of_nat b" using 1(3) by (metis of_nat_le_iff of_nat_numeral)
  show ?case
  proof (cases "x \<le> 0")
    case True
    then show ?thesis using round_sig_nonneg[of b p y] by (simp add: round_sig.simps[of b p x])
  next
    case x: False
    with 1(4) have y: "\<not> y \<le> 0" by simp
    show ?thesis
    proof (cases "x < of_nat b ^ p")
      case lo: True
      then have rx: "round_sig b p x = round_sig b p (of_nat b * x) / of_nat b" using 1(3) x by (simp add: round_sig.simps[of b p x])
      show ?thesis
      proof (cases "y < of_nat b ^ p")
        case True
        then have "round_sig b p y = round_sig b p (of_nat b * y) / of_nat b" using 1(3) y by (simp add: round_sig.simps[of b p y])
        moreover have "round_sig b p (of_nat b * x) \<le> round_sig b p (of_nat b * y)" using 1 x lo b by simp
        ultimately show ?thesis using rx b by (simp add: divide_right_mono)
      next
        case False
        have "round_sig b p (of_nat b * x) \<le> of_nat b ^ Suc p" using lo b by (intro round_sig_le[OF 1(3)]) simp
        then have "round_sig b p x \<le> of_nat b ^ Suc p / of_nat b" unfolding rx using b by (intro divide_right_mono) auto
        then have "round_sig b p x \<le> of_nat b ^ p" using b by simp
        also have "\<dots> \<le> round_sig b p y" using False by (intro round_sig_ge[OF 1(3)]) simp
        finally show ?thesis .
      qed
    next
      case ge: False
      show ?thesis
      proof (cases "of_nat b ^ Suc p \<le> x")
        case True
        with 1(4) have big: "of_nat b ^ Suc p \<le> y" by simp
        then have "of_nat b ^ p * 1 \<le> of_nat b ^ p * (of_nat b :: rat)" using b by (intro mult_left_mono) auto
        with big have "\<not> y < of_nat b ^ p" by (simp add: mult.commute)
        moreover have "round_sig b p (x / of_nat b) \<le> round_sig b p (y / of_nat b)"
          using 1 x ge True b by (simp add: divide_right_mono)
        ultimately show ?thesis using 1(3) x y ge True big b
          by (simp add: round_sig.simps[of b p x] round_sig.simps[of b p y] mult_left_mono)
      next
        case mid: False
        have rx: "round_sig b p x = of_int (half_even x)" using 1(3) x ge mid by (simp add: round_sig.simps[of b p x])
        show ?thesis
        proof (cases "of_nat b ^ Suc p \<le> y")
          case True
          then have "\<not> y < of_nat b ^ p" using ge 1(4) by simp
          moreover have "of_nat b ^ p \<le> round_sig b p (y / of_nat b)"
            using True b by (intro round_sig_ge[OF 1(3)]) (simp add: field_simps)
          ultimately have "of_nat b ^ Suc p \<le> round_sig b p y"
            using 1(3) y True b by (simp add: round_sig.simps[of b p y] mult_left_mono)
          moreover have "round_sig b p x \<le> of_nat b ^ Suc p" using mid by (intro round_sig_le[OF 1(3)]) simp
          ultimately show ?thesis by simp
        next
          case False
          then have "round_sig b p y = of_int (half_even y)" using 1(3,4) y ge by (simp add: round_sig.simps[of b p y])
          with rx half_even_mono[OF 1(4)] show ?thesis by simp
        qed
      qed
    qed
  qed
qed

lemma py_double_mono: "x \<le> y \<Longrightarrow> py_double x \<le> py_double y"
proof -
  assume xy: "x \<le> y"
  consider "y < 0" | "x < 0" "0 \<le> y" | "0 \<le> x" "0 \<le> y" using xy by linarith
  then show ?thesis
  proof cases
    case 1
    then show ?thesis using xy round_sig_mono[of 2 "- y" "- x" 52] by (simp add: py_double_def)
  next
    case 2
    have "- round_sig 2 52 (- x) \<le> round_sig 2 52 y"
      using round_sig_nonneg[of 2 52 "- x"] round_sig_nonneg[of 2 52 y] by linarith
    with 2 show ?thesis by (simp add: py_double_def)
  next
    case 3
    then show ?thesis using xy round_sig_mono[of 2 x y 52] by (simp add: py_double_def)
  qed
qed

text \<open>Comparing rounded values with an integer below \<open>2 ^ 53\<close>.\<close>

lemma py_double_less_int: "py_double x < of_int n \<Longrightarrow> \<bar>n\<bar> < 2 ^ 53 \<Longrightarrow> x < of_int n"
proof (rule ccontr)
  assume a: "py_double x < of_int n" "\<bar>n\<bar> < 2 ^ 53" "\<not> x < of_int n"
  have "\<bar>of_int n :: rat\<bar> < 2 ^ 53" using a(2) by (metis of_int_abs of_int_less_iff of_int_numeral of_int_power)
  then have "py_double (of_int n) = of_int n" by (intro py_double_int) auto
  with py_double_mono[of "of_int n" x] a(1,3) show False by simp
qed

lemma py_double_unit: "0 \<le> x \<Longrightarrow> x \<le> 1 \<Longrightarrow> 0 \<le> py_double x \<and> py_double x \<le> 1"
  using py_double_mono[of 0 x] py_double_mono[of x 1] py_double_int[of 1] by auto

section \<open>Exact values\<close>

text \<open>Rounding commutes with scaling by the base, so it changes nothing the second time, and a fraction with a
  power of two below is exact.\<close>

lemma round_sig_scale: "2 \<le> b \<Longrightarrow> 0 < x \<Longrightarrow> round_sig b p (of_nat b * x) = of_nat b * round_sig b p x"
proof -
  assume b: "2 \<le> b" and x: "0 < x"
  have b2: "(2::rat) \<le> of_nat b" using b by (metis of_nat_le_iff of_nat_numeral)
  show ?thesis
  proof (cases "x < of_nat b ^ p")
    case True
    with b x show ?thesis by (simp add: round_sig.simps[of b p x])
  next
    case False
    have "2 * x \<le> of_nat b * x" using b2 x by simp
    with False x b2 have "\<not> of_nat b * x < of_nat b ^ p" "of_nat b ^ Suc p \<le> of_nat b * x" by (linarith, simp)
    then show ?thesis using b x by (simp add: round_sig.simps[of b p "of_nat b * x"] mult_le_0_iff)
  qed
qed

lemma round_sig_idem: "2 \<le> b \<Longrightarrow> 0 < x \<Longrightarrow> round_sig b p (round_sig b p x) = round_sig b p x"
proof (induction b p x rule: round_sig.induct)
  case (1 b p x)
  have b: "(2::rat) \<le> of_nat b" using 1(3) by (metis of_nat_le_iff of_nat_numeral)
  then have pos: "(0::rat) < of_nat b ^ p" "(0::rat) < of_nat b" by simp_all
  have pow: "round_sig b p (of_nat b ^ p) = of_nat b ^ p"
    using 1(3) pos b by (intro round_sig_exact) auto
  consider (small) "x < of_nat b ^ p" | (large) "of_nat b ^ Suc p \<le> x" | (mid) "of_nat b ^ p \<le> x" "x < of_nat b ^ Suc p" by linarith
  then show ?case
  proof cases
    case small
    let ?r = "round_sig b p (of_nat b * x)"
    have r: "round_sig b p ?r = ?r" using 1(1) 1(3,4) small pos by simp
    have eq: "round_sig b p x = ?r / of_nat b" using 1(3,4) small by (simp add: round_sig.simps[of b p x])
    have "?r \<le> of_nat b ^ Suc p" using small pos by (intro round_sig_le[OF 1(3)]) simp
    then have le: "?r / of_nat b \<le> of_nat b ^ p" using pos by (simp add: field_simps)
    show ?thesis
    proof (cases "?r / of_nat b = of_nat b ^ p \<or> ?r \<le> 0")
      case True
      then show ?thesis using eq pow round_sig_nonneg[of b p "of_nat b * x"] by auto
    next
      case False
      with le have "?r / of_nat b < of_nat b ^ p" "0 < ?r / of_nat b" using pos by auto
      then have "round_sig b p (?r / of_nat b) = round_sig b p ?r / of_nat b"
        using 1(3) pos by (simp add: round_sig.simps[of b p "?r / of_nat b"])
      with r eq show ?thesis by simp
    qed
  next
    case large
    have xb: "of_nat b ^ p \<le> x / of_nat b" using large pos by (simp add: field_simps)
    have "1 * of_nat b ^ p \<le> of_nat b * (of_nat b ^ p :: rat)" by (rule mult_right_mono) (use b pos in linarith)+
    then have n: "\<not> x < of_nat b ^ p" using large by simp
    have eq: "round_sig b p x = of_nat b * round_sig b p (x / of_nat b)"
      using 1(3,4) large n by (simp add: round_sig.simps[of b p x])
    have "round_sig b p (round_sig b p (x / of_nat b)) = round_sig b p (x / of_nat b)"
      using 1(2) 1(3,4) large n pos by simp
    with round_sig_scale[OF 1(3), of "round_sig b p (x / of_nat b)"] round_sig_ge[OF 1(3) xb] eq pos show ?thesis by simp
  next
    case mid
    let ?h = "of_int (half_even x) :: rat"
    have eq: "round_sig b p x = ?h" using 1(3,4) mid by (simp add: round_sig.simps[of b p x])
    have h: "of_nat b ^ p \<le> ?h" "?h \<le> of_nat b ^ Suc p"
      using round_sig_ge[OF 1(3) mid(1)] round_sig_le[OF 1(3) less_imp_le[OF mid(2)]] eq by simp_all
    show ?thesis
    proof (cases "?h = of_nat b ^ Suc p")
      case True
      then show ?thesis using eq pow round_sig_scale[OF 1(3) pos(1)] by simp
    next
      case False
      with h pos have "?h < of_nat b ^ Suc p" "0 < ?h" by linarith+
      from round_sig_exact[OF 1(3) this(2) Ints_of_int this(1)] eq show ?thesis by simp
    qed
  qed
qed

lemma py_double_idem [simp]: "py_double (py_double x) = py_double x"
proof -
  have "round_sig 2 52 (round_sig 2 52 y) = round_sig 2 52 y" if "0 \<le> y" for y
    using that round_sig_idem[of 2 y 52] by (cases "y = 0") auto
  then show ?thesis using round_sig_nonneg[of 2 52 "- x"] round_sig_nonneg[of 2 52 x]
    by (auto simp: py_double_def)
qed

lemma py_double_half: "py_double (x / 2) = py_double x / 2"
proof -
  have "round_sig 2 52 (y / 2) = round_sig 2 52 y / 2" if "0 \<le> y" for y
    using that round_sig_scale[of 2 "y / 2" 52] by (cases "y = 0") auto
  from this[of x] this[of "- x"] show ?thesis by (simp add: py_double_def)
qed

lemma py_double_dyadic: "\<bar>n\<bar> < 2 ^ 53 \<Longrightarrow> py_double (of_int n / 2 ^ k) = of_int n / 2 ^ k"
proof (induction k)
  case 0
  have "\<bar>of_int n :: rat\<bar> < 2 ^ 53" using 0 by (metis of_int_abs of_int_less_iff of_int_numeral of_int_power)
  then show ?case using py_double_int[of "of_int n"] by simp
next
  case (Suc k)
  then show ?case using py_double_half[of "of_int n / 2 ^ k"] by (simp add: mult.commute)
qed

text \<open>Comparing a rounded value with such a fraction is comparing the value itself.\<close>

lemma py_double_ge_dyadic: "of_int n / 2 ^ k \<le> x \<Longrightarrow> \<bar>n\<bar> < 2 ^ 53 \<Longrightarrow> of_int n / 2 ^ k \<le> py_double x"
  using py_double_mono[of "of_int n / 2 ^ k" x] py_double_dyadic[of n k] by simp

lemma py_double_le_dyadic: "x \<le> of_int n / 2 ^ k \<Longrightarrow> \<bar>n\<bar> < 2 ^ 53 \<Longrightarrow> py_double x \<le> of_int n / 2 ^ k"
  using py_double_mono[of x "of_int n / 2 ^ k"] py_double_dyadic[of n k] by simp

end
