(* ===== verification/Json_Parse.thy ===== *)
theory Json_Parse
  imports Json_Canon Float_Order "HOL-Library.AList"
begin

text \<open>
  Models \<open>json.loads\<close> of Python's standard library, which the program applies to the answers of
  language models and to stored payloads. Strings are UTF-8 bytes; an escaped lone surrogate becomes
  its three-byte form. Of duplicate keys the last value stays, at the place of the first. A
  \<open>JSONDecodeError\<close> is \<open>None\<close>; the limits on nesting depth and on the digits of an integer are left
  out. Every recursive call is on a shorter text, which the guards on lengths make explicit: they
  never fail on a value that was parsed.
\<close>

section \<open>Strings\<close>

definition json_ws :: "char \<Rightarrow> bool" where
  "json_ws c \<longleftrightarrow> c \<in> set [CHR 0x20, CHR 0x09, CHR 0x0A, CHR 0x0D]"

definition skip_ws :: "string \<Rightarrow> string" where
  "skip_ws = dropWhile json_ws"

definition unescapes :: "(char \<times> char) list" where
  "unescapes = [(CHR 0x22, CHR 0x22), (CHR 0x5C, CHR 0x5C), (CHR ''/'', CHR ''/''), (CHR ''b'', CHR 0x08),
     (CHR ''f'', CHR 0x0C), (CHR ''n'', CHR 0x0A), (CHR ''r'', CHR 0x0D), (CHR ''t'', CHR 0x09)]"

definition hex_digit_value :: "char \<Rightarrow> nat option" where
  "hex_digit_value c =
     (let n = of_char c :: nat in
      if 48 \<le> n \<and> n \<le> 57 then Some (n - 48) else if 97 \<le> n \<and> n \<le> 102 then Some (n - 87)
      else if 65 \<le> n \<and> n \<le> 70 then Some (n - 55) else None)"

definition hex4 :: "string \<Rightarrow> nat option" where
  "hex4 s = (case map hex_digit_value (take 4 s) of
       [Some a, Some b, Some c, Some d] \<Rightarrow> Some (((a * 16 + b) * 16 + c) * 16 + d) | _ \<Rightarrow> None)"

definition utf8_of :: "nat \<Rightarrow> string" where
  "utf8_of n =
     (if n < 128 then [char_of n]
      else if n < 2048 then [char_of (192 + n div 64), char_of (128 + n mod 64)]
      else if n < 65536 then [char_of (224 + n div 4096), char_of (128 + n div 64 mod 64), char_of (128 + n mod 64)]
      else [char_of (240 + n div 262144), char_of (128 + n div 4096 mod 64), char_of (128 + n div 64 mod 64),
            char_of (128 + n mod 64)])"

definition put_first :: "string \<Rightarrow> (string \<times> string) option \<Rightarrow> (string \<times> string) option" where
  "put_first p = map_option (\<lambda>(s, r). (p @ s, r))"

text \<open>The rest of a string literal, after its opening quote: its value and what follows it.\<close>

fun string_body :: "string \<Rightarrow> (string \<times> string) option" where
  "string_body [] = None"
| "string_body (c # s) =
     (if c = CHR 0x22 then Some ([], s)
      else if (of_char c :: nat) < 32 then None
      else if c \<noteq> CHR 0x5C then put_first [c] (string_body s)
      else (case s of
        [] \<Rightarrow> None
      | e # t \<Rightarrow>
          (case map_of unescapes e of
             Some d \<Rightarrow> put_first [d] (string_body t)
           | None \<Rightarrow>
               if e \<noteq> CHR ''u'' then None
               else (case hex4 t of
                 None \<Rightarrow> None
               | Some n \<Rightarrow>
                   if 55296 \<le> n \<and> n < 56320 \<and> take 2 (drop 4 t) = [CHR 0x5C, CHR ''u''] then
                     (case hex4 (drop 6 t) of
                        None \<Rightarrow> None
                      | Some m \<Rightarrow>
                          if 56320 \<le> m \<and> m < 57344
                          then put_first (utf8_of (65536 + (n - 55296) * 1024 + (m - 56320))) (string_body (drop 10 t))
                          else put_first (utf8_of n) (string_body (drop 4 t)))
                   else put_first (utf8_of n) (string_body (drop 4 t))))))"

section \<open>Numbers\<close>

definition digits_value :: "string \<Rightarrow> nat" where
  "digits_value s = foldl (\<lambda>n c. 10 * n + (case digit_value c of None \<Rightarrow> 0 | Some d \<Rightarrow> d)) 0 s"

text \<open>The fraction and the exponent, when they are there.\<close>

definition fraction_of :: "string \<Rightarrow> string \<times> string" where
  "fraction_of s =
     (case s of
        c # t \<Rightarrow> if c = CHR ''.'' \<and> takeWhile is_digit t \<noteq> [] then (takeWhile is_digit t, dropWhile is_digit t) else ([], s)
      | [] \<Rightarrow> ([], []))"

definition exponent_of :: "string \<Rightarrow> int option \<times> string" where
  "exponent_of s =
     (case s of
        c # t \<Rightarrow>
          if c \<in> {CHR ''e'', CHR ''E''} then
            (let (neg, u) = (case t of d # u \<Rightarrow> if d = CHR ''-'' then (True, u) else if d = CHR ''+'' then (False, u) else (False, t)
                                     | [] \<Rightarrow> (False, []));
                 ds = takeWhile is_digit u
             in if ds = [] then (None, s)
                else (Some (if neg then - int (digits_value ds) else int (digits_value ds)), dropWhile is_digit u))
          else (None, s)
      | [] \<Rightarrow> (None, []))"

definition number_value :: "bool \<Rightarrow> string \<Rightarrow> string \<Rightarrow> int option \<Rightarrow> json" where
  "number_value neg ds fp ex =
     (if fp = [] \<and> ex = None then JInt (if neg then - int (digits_value ds) else int (digits_value ds))
      else let m = of_nat (digits_value (ds @ fp)) :: rat;
               e = (case ex of None \<Rightarrow> 0 | Some e \<Rightarrow> e) - int (length fp);
               v = (if 0 \<le> e then m * 10 ^ nat e else m / 10 ^ nat (- e))
           in JFloat (FFin (py_double (if neg then - v else v))))"

definition split_sign :: "string \<Rightarrow> bool \<times> string" where
  "split_sign s = (case s of c # u \<Rightarrow> if c = CHR ''-'' then (True, u) else (False, s) | [] \<Rightarrow> (False, []))"

definition leading_digits :: "string \<Rightarrow> string" where
  "leading_digits t = (if t \<noteq> [] \<and> hd t = CHR ''0'' then ''0'' else takeWhile is_digit t)"

definition parse_number :: "string \<Rightarrow> (json \<times> string) option" where
  "parse_number s =
     (let (neg, t) = split_sign s; ds = leading_digits t
      in if ds = [] then None
         else let (fp, u) = fraction_of (drop (length ds) t); (ex, r) = exponent_of u
              in Some (number_value neg ds fp ex, r))"

section \<open>Values\<close>

definition literals :: "(string \<times> json) list" where
  "literals = [(''null'', JNull), (''true'', JBool True), (''false'', JBool False), (''NaN'', JFloat FNaN),
     (''Infinity'', JFloat (FInf False)), (''-Infinity'', JFloat (FInf True))]"

definition parse_literal :: "string \<Rightarrow> (json \<times> string) option" where
  "parse_literal s = map_option (\<lambda>(l, v). (v, drop (length l) s)) (List.find (\<lambda>(l, v). starts_with l s) literals)"

definition dict_of :: "(string \<times> json) list \<Rightarrow> (string \<times> json) list" where
  "dict_of kvs = fold (\<lambda>(k, v) m. AList.update k v m) kvs []"

function (sequential) parse_value :: "string \<Rightarrow> (json \<times> string) option"
  and parse_items :: "string \<Rightarrow> (json list \<times> string) option"
  and parse_members :: "string \<Rightarrow> ((string \<times> json) list \<times> string) option" where
  "parse_value s =
     (case s of
        [] \<Rightarrow> None
      | c # t \<Rightarrow>
          if c = CHR 0x22 then map_option (\<lambda>(x, r). (JStr x, r)) (string_body t)
          else if c = CHR ''['' then
            (if starts_with '']'' (skip_ws t) then Some (JArr [], tl (skip_ws t))
             else if length (skip_ws t) < length s then map_option (\<lambda>(vs, r). (JArr vs, r)) (parse_items (skip_ws t)) else None)
          else if c = CHR ''{'' then
            (if starts_with ''}'' (skip_ws t) then Some (JObj [], tl (skip_ws t))
             else if length (skip_ws t) < length s then map_option (\<lambda>(kvs, r). (JObj (dict_of kvs), r)) (parse_members (skip_ws t))
             else None)
          else case parse_literal s of Some x \<Rightarrow> Some x | None \<Rightarrow> parse_number s)"
| "parse_items s =
     (case parse_value s of
        None \<Rightarrow> None
      | Some (v, r) \<Rightarrow>
          (case skip_ws r of
             [] \<Rightarrow> None
           | c # t \<Rightarrow>
               if c = CHR '']'' then Some ([v], t)
               else if c = CHR '','' \<and> length (skip_ws t) < length s
               then map_option (\<lambda>(vs, u). (v # vs, u)) (parse_items (skip_ws t)) else None))"
| "parse_members s =
     (if \<not> starts_with [CHR 0x22] s then None
      else case string_body (tl s) of
        None \<Rightarrow> None
      | Some (k, r) \<Rightarrow>
          (case skip_ws r of
             [] \<Rightarrow> None
           | c # t \<Rightarrow>
               if c \<noteq> CHR '':'' \<or> \<not> length (skip_ws t) < length s then None
               else case parse_value (skip_ws t) of
                 None \<Rightarrow> None
               | Some (v, u) \<Rightarrow>
                   (case skip_ws u of
                      [] \<Rightarrow> None
                    | d # x \<Rightarrow>
                        if d = CHR ''}'' then Some ([(k, v)], x)
                        else if d = CHR '','' \<and> length (skip_ws x) < length s
                        then map_option (\<lambda>(kvs, y). ((k, v) # kvs, y)) (parse_members (skip_ws x)) else None)))"
  by pat_completeness auto
termination
  by (relation "measure (\<lambda>x. case x of Inl s \<Rightarrow> 2 * length s | Inr (Inl s) \<Rightarrow> Suc (2 * length s) | Inr (Inr s) \<Rightarrow> Suc (2 * length s))") auto

declare parse_value.simps [simp del] parse_items.simps [simp del] parse_members.simps [simp del]

definition json_loads :: "string \<Rightarrow> json option" where
  "json_loads s =
     (case parse_value (skip_ws s) of None \<Rightarrow> None | Some (v, r) \<Rightarrow> if skip_ws r = [] then Some v else None)"

section \<open>Reading canonical text\<close>

text \<open>The text of a number: it starts with a digit, or with a minus sign and a digit.\<close>

definition number_text :: "string \<Rightarrow> bool" where
  "number_text s \<longleftrightarrow> (\<exists>c cs. s = c # cs \<and> (is_digit c \<or> c = CHR ''-'' \<and> cs \<noteq> [] \<and> is_digit (hd cs)))"

text \<open>The documented round trip of \<open>repr\<close> on the float \<open>q\<close>, for its text \<open>fr q\<close>.\<close>

definition repr_reads :: "(rat \<Rightarrow> string) \<Rightarrow> rat \<Rightarrow> bool" where
  "repr_reads fr q \<longleftrightarrow> number_text (fr q) \<and> (\<forall>r. delim r \<longrightarrow> parse_number (fr q @ r) = Some (JFloat (FFin q), r))"

text \<open>What a canonical text can be read back to: finite floats whose \<open>repr\<close> reads back, and dictionaries
  without duplicate keys.\<close>

fun readable :: "(rat \<Rightarrow> string) \<Rightarrow> json \<Rightarrow> bool" where
  "readable fr (JFloat f) \<longleftrightarrow> (case f of FFin q \<Rightarrow> rat_is_integer q \<or> repr_reads fr q | _ \<Rightarrow> False)"
| "readable fr (JArr vs) \<longleftrightarrow> (\<forall>v \<in> set vs. readable fr v)"
| "readable fr (JObj kvs) \<longleftrightarrow> distinct (map fst kvs) \<and> (\<forall>(k, v) \<in> set kvs. readable fr v)"
| "readable fr (JOpaque _ _) \<longleftrightarrow> False"
| "readable fr _ \<longleftrightarrow> True"

lemma hex_digit_value_digit: "n < 16 \<Longrightarrow> hex_digit_value (hex_digit n) = Some n"
  by (auto simp: hex_digit_value_def hex_digit_def Let_def)

lemma string_body_escaped: "string_body (concat (map escape_char s) @ CHR 0x22 # r) = Some (s, r)"
proof (induction s)
  case (Cons c s)
  show ?case
  proof (cases rule: escape_char_cases[of c])
    case (short e)
    have "(of_char c, e) \<in> set escape_table \<Longrightarrow> c = char_of (of_char c :: nat)" by simp
    moreover have "\<forall>(n, e) \<in> set escape_table. map_of unescapes e = Some (char_of n)" by code_simp
    ultimately have "map_of unescapes e = Some c" using short(1) by fastforce
    moreover have "e \<noteq> CHR ''u''" using short(1) escape_table_u by metis
    ultimately show ?thesis using short(2) Cons by (simp add: put_first_def)
  next
    case hex
    have "hex4 (CHR ''0'' # CHR ''0'' # hex_digit (of_char c div 16) # hex_digit (of_char c mod 16) # x) = Some (of_char c)" for x
      using hex(1) hex_digit_value_digit[of "of_char c div 16"] hex_digit_value_digit[of "of_char c mod 16"]
      by (simp add: hex4_def hex_digit_value_def Let_def)
    with hex Cons show ?thesis by (simp add: put_first_def unescapes_def utf8_of_def)
  next
    case raw
    have "\<not> (of_char c :: nat) < 32"
      using raw(1) by (auto simp: escape_char_def Let_def split: if_splits)
    with raw Cons show ?thesis by (simp add: put_first_def)
  qed
qed simp

lemma ws_facts:
  "\<not> json_ws (CHR '','')" "\<not> json_ws (CHR '']'')" "\<not> json_ws (CHR ''}'')" "\<not> json_ws (CHR '':'')" "\<not> json_ws (CHR 0x22)"
  by (simp_all add: json_ws_def)

lemma skip_ws_id: "s = [] \<or> \<not> json_ws (hd s) \<Longrightarrow> skip_ws s = s"
  by (cases s) (auto simp: skip_ws_def)

lemma digit_facts:
  assumes "is_digit c"
  shows "\<not> json_ws c" "c \<notin> set [CHR 0x22, CHR ''['', CHR '']'', CHR ''{'', CHR ''}'', CHR ''-'', CHR ''n'', CHR ''t'', CHR ''f'', CHR ''N'', CHR ''I'']"
  using assms by (auto simp: is_digit_def digit_value_def json_ws_def Let_def split: if_splits)

lemma digits_value_numeral: "\<forall>d \<in> set ds. d < 10 \<Longrightarrow> digits_value (map digit_char ds) = numeral_value 10 ds"
proof -
  have "foldl (\<lambda>n c. 10 * n + (case digit_value c of None \<Rightarrow> 0 | Some d \<Rightarrow> d)) a (map digit_char ds) = foldl (\<lambda>a d. a * 10 + d) a ds"
    if "\<forall>d \<in> set ds. d < 10" for a ds
    using that by (induction ds arbitrary: a) (auto simp: mult.commute)
  then show "\<forall>d \<in> set ds. d < 10 \<Longrightarrow> digits_value (map digit_char ds) = numeral_value 10 ds"
    by (simp add: digits_value_def numeral_value_def)
qed

lemma digits_value_str_nat: "digits_value (str_nat n) = n"
  using str_nat_digits[of n] digits_value_numeral by metis

lemma str_nat_zero_head: "hd (str_nat n) = CHR ''0'' \<Longrightarrow> str_nat n = ''0''"
proof (cases "n = 0")
  case False
  assume h: "hd (str_nat n) = CHR ''0''"
  have ne: "digits 10 n \<noteq> []" using False by (simp add: digits_eq_Nil_iff)
  then have "hd (digits 10 n) < 10 \<and> hd (digits 10 n) \<noteq> 0" using digits_lt[of _ 10 n] digits_hd_nonzero[of 10 n] by simp
  moreover have "digit_char (hd (digits 10 n)) = CHR ''0''" using h False ne by (simp add: str_nat_def hd_map)
  then have "of_char (digit_char (hd (digits 10 n))) = (48 :: nat)" by simp
  ultimately show ?thesis by simp
qed (simp add: str_nat_def)

lemma number_rest: "delim r \<Longrightarrow> takeWhile is_digit (str_nat n @ r) = str_nat n \<and> fraction_of r = ([], r) \<and> exponent_of r = (None, r)"
proof -
  assume d: "delim r"
  then have nd: "r = [] \<or> \<not> is_digit (hd r)" using delim_not_number[OF d] by (auto simp: number_char_def)
  have "takeWhile is_digit (str_nat n @ r) = str_nat n @ takeWhile is_digit r"
    by (rule takeWhile_append2) (rule str_nat_is_digit)
  moreover have "takeWhile is_digit r = []" using nd by (cases r) auto
  moreover have "fraction_of r = ([], r)" "exponent_of r = (None, r)"
    using d by (cases r; auto simp: fraction_of_def exponent_of_def delim_def)+
  ultimately show ?thesis by simp
qed

lemma leading_digits_nat: "delim r \<Longrightarrow> leading_digits (str_nat n @ r) = str_nat n"
  using str_nat_zero_head[of n] number_rest[of r n] by (auto simp: leading_digits_def)

lemma parse_number_int:
  assumes "delim r" shows "parse_number (str_int i @ r) = Some (JInt i, r)"
proof -
  have "split_sign (str_int i @ r) = (i < 0, str_nat (nat \<bar>i\<bar>) @ r)"
  proof (cases "i < 0")
    case False
    obtain c cs where c: "str_nat (nat i) = c # cs" by (cases "str_nat (nat i)") simp_all
    then have "is_digit c" using str_nat_is_digit[of c "nat i"] by simp
    then have "c \<noteq> CHR ''-''" by (rule is_digit_facts(2))
    with c False show ?thesis by (simp add: str_int_def split_sign_def)
  qed (simp add: str_int_def split_sign_def)
  then show ?thesis using number_rest[OF assms] leading_digits_nat[OF assms]
    by (simp add: parse_number_def number_value_def digits_value_str_nat Let_def)
qed

lemma int_head: "number_text (str_int i)"
proof (cases "i < 0")
  case True
  then show ?thesis using str_nat_is_digit[of "hd (str_nat (nat (- i)))" "nat (- i)"] by (simp add: str_int_def number_text_def)
next
  case False
  then show ?thesis using str_nat_is_digit[of "hd (str_nat (nat i))" "nat i"]
    by (cases "str_nat (nat i)") (auto simp: str_int_def number_text_def)
qed

lemma parse_literal_None:
  assumes "c \<notin> set ''ntfNI''" "c \<noteq> CHR ''-'' \<or> t = [] \<or> hd t \<noteq> CHR ''I''"
  shows "parse_literal (c # t) = None"
  using assms by (cases t) (simp_all add: parse_literal_def literals_def starts_with_def, blast)

lemma digit_no_literal:
  assumes "is_digit c" shows "c \<notin> set ''ntfNI''" "c \<noteq> CHR ''I''" "c \<noteq> CHR 0x22" "c \<noteq> CHR ''[''" "c \<noteq> CHR ''{''"
  using digit_facts(2)[OF assms] by simp_all

lemma parse_value_number:
  assumes "number_text s" "parse_number (s @ r) = Some (v, r)"
  shows "parse_value (s @ r) = Some (v, r)"
proof -
  obtain c cs where c: "s = c # cs" "is_digit c \<or> c = CHR ''-'' \<and> cs \<noteq> [] \<and> is_digit (hd cs)"
    using assms(1) by (auto simp: number_text_def)
  have ok: "c \<notin> set ''ntfNI'' \<and> c \<noteq> CHR 0x22 \<and> c \<noteq> CHR ''['' \<and> c \<noteq> CHR ''{''
      \<and> (c \<noteq> CHR ''-'' \<or> cs @ r = [] \<or> hd (cs @ r) \<noteq> CHR ''I'')"
    using c(2)
  proof
    assume d: "is_digit c"
    have "c \<noteq> CHR ''-''" by (rule is_digit_facts(2)[OF d])
    then show ?thesis using digit_no_literal[OF d] by blast
  next
    assume d: "c = CHR ''-'' \<and> cs \<noteq> [] \<and> is_digit (hd cs)"
    then have "hd cs \<noteq> CHR ''I''" using digit_no_literal(2) by blast
    with d show ?thesis by simp
  qed
  have "parse_literal (c # cs @ r) = None" by (rule parse_literal_None) (use ok in blast)+
  then show ?thesis using assms(2) ok unfolding c(1) by (simp add: parse_value.simps)
qed

lemma parse_value_int: "delim r \<Longrightarrow> parse_value (str_int i @ r) = Some (JInt i, r)"
  by (rule parse_value_number[OF int_head parse_number_int])

lemma emit_first:
  assumes "readable fr v" "emit fr v = Inr s"
  shows "\<exists>c t. s = c # t \<and> \<not> json_ws c \<and> c \<noteq> CHR '']'' \<and> c \<noteq> CHR ''}''"
proof -
  have num: "\<exists>c t. x = c # t \<and> \<not> json_ws c \<and> c \<noteq> CHR '']'' \<and> c \<noteq> CHR ''}''" if x: "number_text x" for x
  proof -
    obtain c cs where c: "x = c # cs" "is_digit c \<or> c = CHR ''-''" using x by (auto simp: number_text_def)
    from c(2) have "\<not> json_ws c \<and> c \<noteq> CHR '']'' \<and> c \<noteq> CHR ''}''"
    proof
      assume "is_digit c"
      from digit_facts[OF this] show ?thesis by simp
    qed (simp add: json_ws_def)
    with c(1) show ?thesis by simp
  qed
  show ?thesis using assms num[OF int_head] num
    by (cases v) (auto simp: escape_string_def json_ws_def bindE_Inr_conv repr_reads_def split: pyfloat.splits if_splits)
qed

lemma dict_of_distinct: "distinct (map fst kvs) \<Longrightarrow> dict_of kvs = kvs"
proof -
  have upd: "k \<notin> fst ` set m \<Longrightarrow> AList.update k v m = m @ [(k, v)]" for k v and m :: "(string \<times> json) list"
    by (induction m) auto
  have "distinct (map fst kvs) \<Longrightarrow> fst ` set m \<inter> fst ` set kvs = {} \<Longrightarrow> fold (\<lambda>(k, v) m. AList.update k v m) kvs m = m @ kvs" for m
    by (induction kvs arbitrary: m) (auto simp: upd)
  then show "distinct (map fst kvs) \<Longrightarrow> dict_of kvs = kvs" by (simp add: dict_of_def)
qed

definition reads :: "(rat \<Rightarrow> string) \<Rightarrow> json \<Rightarrow> bool" where
  "reads fr v \<longleftrightarrow> (\<forall>s r. emit fr v = Inr s \<longrightarrow> delim r \<longrightarrow> parse_value (s @ r) = Some (norm_json v, r))"

lemma parse_items_emitted:
  assumes "list_all2 (\<lambda>v x. emit fr v = Inr x) vs ss" and "\<forall>v \<in> set vs. readable fr v \<and> reads fr v" and "vs \<noteq> []"
  shows "parse_items (join '','' ss @ CHR '']'' # r) = Some (map norm_json vs, r)"
  using assms
proof (induction vs ss rule: list_all2_induct)
  case (Cons v vs x ss)
  let ?rest = "(if ss = [] then [] else '','' @ join '','' ss) @ CHR '']'' # r"
  have shape: "join '','' (x # ss) @ CHR '']'' # r = x @ ?rest" by (simp add: join_Cons)
  have "delim ?rest" by (simp add: delim_def)
  then have v: "parse_value (x @ ?rest) = Some (norm_json v, ?rest)" using Cons by (auto simp: reads_def)
  show ?case
  proof (cases "ss = []")
    case True
    then have "vs = []" using Cons.hyps(2) by simp
    then show ?thesis using v True ws_facts by (simp add: parse_items.simps[of "x @ CHR '']'' # r"] skip_ws_id shape)
  next
    case False
    then have vs: "vs \<noteq> []" using Cons.hyps(2) by auto
    then obtain w y where "w \<in> set vs" "emit fr w = Inr (hd ss)" "ss = hd ss # y"
      using Cons.hyps(2) by (cases vs; cases ss) auto
    then obtain c t where "hd ss = c # t" "\<not> json_ws c" using emit_first[of fr w "hd ss"] Cons.prems by auto
    then have skip: "skip_ws (join '','' ss @ CHR '']'' # r) = join '','' ss @ CHR '']'' # r"
      using \<open>ss = hd ss # y\<close> by (cases ss) (auto simp: join_Cons intro!: skip_ws_id)
    have more: "parse_items (join '','' ss @ CHR '']'' # r) = Some (map norm_json vs, r)" using Cons vs by simp
    show ?thesis using v False skip more ws_facts
      by (simp add: parse_items.simps[of "x @ CHR '','' # join '','' ss @ CHR '']'' # r"] skip_ws_id shape)
  qed
qed simp

lemma parse_members_emitted:
  assumes "list_all2 (item_emits fr) kvs ss" and "\<forall>(k, v) \<in> set kvs. readable fr v \<and> reads fr v" and "kvs \<noteq> []"
  shows "parse_members (join '','' ss @ CHR ''}'' # r) = Some (map (\<lambda>(k, v). (k, norm_json v)) kvs, r)"
  using assms
proof (induction kvs ss rule: list_all2_induct)
  case (Cons kv kvs x ss)
  obtain k v where kv: "kv = (k, v)" by (cases kv)
  from Cons.hyps(1) obtain e where e: "emit fr v = Inr e" "x = escape_string k @ '':'' @ e" by (auto simp: item_emits_def kv)
  obtain c t where c: "e = c # t" "\<not> json_ws c" using emit_first[OF _ e(1)] Cons.prems(1) by (auto simp: kv)
  let ?rest = "(if ss = [] then [] else '','' @ join '','' ss) @ CHR ''}'' # r"
  have shape: "join '','' (x # ss) @ CHR ''}'' # r = CHR 0x22 # concat (map escape_char k) @ CHR 0x22 # CHR '':'' # e @ ?rest"
    by (simp add: join_Cons e(2) escape_string_def)
  have "delim ?rest" by (simp add: delim_def)
  then have v: "parse_value (e @ ?rest) = Some (norm_json v, ?rest)" using Cons.prems(1) e(1) by (auto simp: reads_def kv)
  have skip_e: "skip_ws (e @ ?rest) = e @ ?rest" using c by (intro skip_ws_id) simp
  note open_item = parse_members.simps[of "CHR 0x22 # concat (map escape_char k) @ CHR 0x22 # CHR '':'' # e @ ?rest"]
  show ?case
  proof (cases "ss = []")
    case True
    then have "kvs = []" using Cons.hyps(2) by simp
    then show ?thesis using v skip_e True ws_facts unfolding shape open_item
      by (simp add: starts_with_def string_body_escaped skip_ws_id kv)
  next
    case False
    then have kvs: "kvs \<noteq> []" using Cons.hyps(2) by auto
    have "skip_ws (join '','' ss @ CHR ''}'' # r) = join '','' ss @ CHR ''}'' # r"
      using Cons.hyps(2) False
      by (cases kvs; cases ss) (auto simp: join_Cons item_emits_def escape_string_def json_ws_def intro!: skip_ws_id)
    moreover have "parse_members (join '','' ss @ CHR ''}'' # r) = Some (map (\<lambda>(k, v). (k, norm_json v)) kvs, r)"
      using Cons kvs by simp
    ultimately show ?thesis using v skip_e False ws_facts unfolding shape open_item
      by (simp add: starts_with_def string_body_escaped skip_ws_id kv)
  qed
qed simp

lemma emitted_reads: "readable fr v \<Longrightarrow> reads fr v"
proof (induction fr v rule: readable.induct)
  case (1 fr f)
  then show ?case by (auto simp: reads_def parse_value_int repr_reads_def parse_value_number split: pyfloat.splits)
next
  case (2 fr vs)
  show ?case unfolding reads_def
  proof (intro allI impI)
    fix s r assume e: "emit fr (JArr vs) = Inr s" "delim r"
    from e(1) obtain ss where ss: "list_all2 (\<lambda>v x. emit fr v = Inr x) vs ss" "s = ''['' @ join '','' ss @ '']''"
      unfolding emit_arr_conv by blast
    show "parse_value (s @ r) = Some (norm_json (JArr vs), r)"
    proof (cases "vs = []")
      case True
      with ss show ?thesis by (simp add: parse_value.simps skip_ws_id ws_facts starts_with_def)
    next
      case False
      then obtain v vs' x ss' where vs: "vs = v # vs'" "ss = x # ss'" "emit fr v = Inr x" using ss(1) by (cases vs; cases ss) auto
      obtain c t where c: "x = c # t" "\<not> json_ws c" "c \<noteq> CHR '']''" using emit_first[OF _ vs(3)] 2 vs(1) by auto
      have skip: "skip_ws (join '','' ss @ CHR '']'' # r) = join '','' ss @ CHR '']'' # r"
        using c by (intro skip_ws_id) (simp add: vs(2) join_Cons)
      have "parse_items (join '','' ss @ CHR '']'' # r) = Some (map norm_json vs, r)"
        by (rule parse_items_emitted[OF ss(1) _ False]) (use 2 in auto)
      then show ?thesis using skip c ss(2) by (simp add: parse_value.simps starts_with_def vs(2) join_Cons)
    qed
  qed
next
  case (3 fr kvs)
  show ?case unfolding reads_def
  proof (intro allI impI)
    fix s r assume e: "emit fr (JObj kvs) = Inr s" "delim r"
    let ?sorted = "sort_key fst kvs"
    from e(1) obtain ss where ss: "list_all2 (item_emits fr) ?sorted ss" "s = ''{'' @ join '','' ss @ ''}''"
      unfolding emit_obj_conv by blast
    have dist: "distinct (map fst (map (\<lambda>(k, v). (k, norm_json v)) ?sorted))"
      using 3(2) by (simp add: comp_def case_prod_beta distinct_map inj_on_def)
    show "parse_value (s @ r) = Some (norm_json (JObj kvs), r)"
    proof (cases "?sorted = []")
      case True
      with ss show ?thesis by (simp add: parse_value.simps skip_ws_id ws_facts starts_with_def)
    next
      case False
      have members: "parse_members (join '','' ss @ CHR ''}'' # r) = Some (map (\<lambda>(k, v). (k, norm_json v)) ?sorted, r)"
        by (rule parse_members_emitted[OF ss(1) _ False]) (use 3 in fastforce)
      have first: "\<exists>t. join '','' ss = CHR 0x22 # t"
        using ss(1) False by (cases ?sorted; cases ss) (auto simp: join_Cons item_emits_def escape_string_def)
      then have skip: "skip_ws (join '','' ss @ CHR ''}'' # r) = join '','' ss @ CHR ''}'' # r"
        by (auto intro!: skip_ws_id simp: json_ws_def)
      show ?thesis using skip first members ss(2) dict_of_distinct[OF dist]
        by (auto simp: parse_value.simps starts_with_def)
    qed
  qed
next
  case "5_4"
  then show ?case by (auto simp: reads_def parse_value.simps escape_string_def string_body_escaped)
next
  case "5_3"
  then show ?case by (simp add: reads_def parse_value_int)
qed (auto simp: reads_def parse_value.simps parse_literal_def literals_def starts_with_def)

text \<open>C28. Canonical JSON reads back: what \<open>json.loads\<close> makes of the canonical text of a value is that value, keys
  sorted and integral floats as integers, when no dictionary of it has a key twice, every float is finite
  and those with a fraction are ones whose \<open>repr\<close>, a parameter of the model, reads back as the same
  float, as Python documents it for all of them.\<close>

theorem canonical_text_reads_back:
  assumes "readable fr v"
  shows "\<exists>s. emit fr v = Inr s \<and> json_loads s = Some (norm_json v)"
proof -
  have "plain_json v" using assms by (induction fr v rule: readable.induct) (auto split: pyfloat.splits)
  then obtain s where s: "emit fr v = Inr s" using emit_plain by blast
  obtain c t where c: "s = c # t" "\<not> json_ws c" using emit_first[OF assms s] by blast
  have "parse_value (s @ []) = Some (norm_json v, [])" using emitted_reads[OF assms] s by (simp add: reads_def delim_def)
  with c s show ?thesis by (simp add: json_loads_def skip_ws_id)
qed

lemma half_reads: "fr (1 / 2) = ''0.5'' \<Longrightarrow> repr_reads fr (1 / 2)"
  unfolding repr_reads_def
proof (intro conjI allI impI)
  assume f: "fr (1 / 2) = ''0.5''"
  have dig: "is_digit (CHR ''0'')" "is_digit (CHR ''5'')" by code_simp+
  then show "number_text (fr (1 / 2))" by (simp add: f number_text_def)
  fix r assume d: "delim r"
  have r: "takeWhile is_digit r = [] \<and> dropWhile is_digit r = r" using delim_not_number[OF d] by (cases r) (auto simp: number_char_def)
  have e: "exponent_of r = (None, r)" using number_rest[OF d, of 0] by simp
  have "py_double (5 / 10) = 1 / 2" using py_double_dyadic[of 1 1] by simp
  moreover have "digits_value ''05'' = 5" by code_simp
  ultimately show "parse_number (fr (1 / 2) @ r) = Some (JFloat (FFin (1 / 2)), r)"
    using r e dig by (simp add: f parse_number_def split_sign_def leading_digits_def fraction_of_def number_value_def Let_def)
qed

theorem canonical_text_reads_back_witness:
  "\<exists>s. emit (\<lambda>_. ''0.5'') (JObj [(''b'', JArr [JInt (- 20), JFloat (FFin (1 / 2))]), (''a'', JStr [CHR 0x0A, CHR 0x22])]) = Inr s
     \<and> json_loads s = Some (JObj [(''a'', JStr [CHR 0x0A, CHR 0x22]), (''b'', JArr [JInt (- 20), JFloat (FFin (1 / 2))])])"
proof -
  let ?v = "JObj [(''b'', JArr [JInt (- 20), JFloat (FFin (1 / 2))]), (''a'', JStr [CHR 0x0A, CHR 0x22])]"
  have "readable (\<lambda>_. ''0.5'') ?v" by (simp add: half_reads)
  moreover have "\<not> rat_is_integer (1 / 2)" by code_simp
  ultimately show ?thesis using canonical_text_reads_back[of "\<lambda>_. ''0.5''" ?v] by simp
qed

end
