(* ===== verification/Py_Number.thy ===== *)
theory Py_Number
  imports Json_Canon Float_Order
begin

text \<open>
  Arithmetic of Python floats with infinities and NaN, as far as the program applies it to numbers that come
  from JSON text: a finite result that rounds to \<open>2 ^ 1024\<close> or more is an infinity. Also the truth
  value of a JSON value and the number it is in arithmetic.
\<close>

definition f_of :: "rat \<Rightarrow> pyfloat" where
  "f_of q = (let r = py_double q in if 2 ^ 1024 \<le> \<bar>r\<bar> then FInf (r < 0) else FFin r)"

fun f_add :: "pyfloat \<Rightarrow> pyfloat \<Rightarrow> pyfloat" where
  "f_add (FFin a) (FFin b) = f_of (a + b)"
| "f_add (FInf m) (FInf n) = (if m = n then FInf m else FNaN)"
| "f_add (FInf m) (FFin b) = FInf m"
| "f_add (FFin a) (FInf n) = FInf n"
| "f_add FNaN y = FNaN"
| "f_add x FNaN = FNaN"

text \<open>A finite number times a float.\<close>

fun f_scale :: "rat \<Rightarrow> pyfloat \<Rightarrow> pyfloat" where
  "f_scale q (FFin a) = f_of (q * a)"
| "f_scale q (FInf m) = (if q = 0 then FNaN else FInf (m \<noteq> (q < 0)))"
| "f_scale q FNaN = FNaN"

text \<open>A quotient by a positive float.\<close>

fun f_div :: "pyfloat \<Rightarrow> pyfloat \<Rightarrow> pyfloat" where
  "f_div (FFin a) (FFin b) = f_of (a / b)"
| "f_div (FFin a) (FInf n) = FFin 0"
| "f_div (FInf m) (FFin b) = FInf m"
| "f_div (FInf m) (FInf n) = FNaN"
| "f_div FNaN y = FNaN"
| "f_div x FNaN = FNaN"

fun float_ge :: "pyfloat \<Rightarrow> rat \<Rightarrow> bool" where
  "float_ge (FFin q) t \<longleftrightarrow> t \<le> q"
| "float_ge (FInf neg) t \<longleftrightarrow> \<not> neg"
| "float_ge FNaN t \<longleftrightarrow> False"

fun float_pos :: "pyfloat \<Rightarrow> bool" where
  "float_pos (FFin q) \<longleftrightarrow> 0 < q"
| "float_pos (FInf neg) \<longleftrightarrow> \<not> neg"
| "float_pos FNaN \<longleftrightarrow> False"

fun f_round :: "nat \<Rightarrow> pyfloat \<Rightarrow> pyfloat" where
  "f_round n (FFin q) = FFin (py_round q n)"
| "f_round n x = x"

fun json_truthy :: "json \<Rightarrow> bool" where
  "json_truthy JNull \<longleftrightarrow> False"
| "json_truthy (JBool b) \<longleftrightarrow> b"
| "json_truthy (JInt i) \<longleftrightarrow> i \<noteq> 0"
| "json_truthy (JFloat x) \<longleftrightarrow> x \<noteq> FFin 0"
| "json_truthy (JStr s) \<longleftrightarrow> s \<noteq> []"
| "json_truthy (JArr vs) \<longleftrightarrow> vs \<noteq> []"
| "json_truthy (JObj kvs) \<longleftrightarrow> kvs \<noteq> []"

text \<open>A value as the second factor of a float product; \<open>None\<close> is a \<open>TypeError\<close> or an \<open>OverflowError\<close>.\<close>

fun json_factor :: "json \<Rightarrow> pyfloat option" where
  "json_factor (JBool b) = Some (FFin (if b then 1 else 0))"
| "json_factor (JInt i) = (case f_of (of_int i) of FFin q \<Rightarrow> Some (FFin q) | _ \<Rightarrow> None)"
| "json_factor (JFloat x) = Some x"
| "json_factor _ = None"

section \<open>Square roots\<close>

text \<open>A square root, rounded once: the integer root of a multiple by a power of four, its last bit set when it
  is not exact.\<close>

fun isqrt :: "nat \<Rightarrow> nat" where
  "isqrt n = (if n = 0 then 0 else let r = 2 * isqrt (n div 4) in if (r + 1) * (r + 1) \<le> n then r + 1 else r)"

declare isqrt.simps [simp del]

text \<open>The integer square root of \<open>x\<close>, its last bit set when it is not exact.\<close>

definition sqrt_odd :: "rat \<Rightarrow> nat" where
  "sqrt_odd x = (let a = isqrt (nat \<lfloor>x\<rfloor>) in if of_nat (a * a) = x then a else 2 * (a div 2) + 1)"

fun sqrt_scaled :: "nat \<Rightarrow> nat \<Rightarrow> rat \<Rightarrow> rat" where
  "sqrt_scaled 0 k x = of_nat (sqrt_odd x) / 2 ^ k"
| "sqrt_scaled (Suc fuel) k x = (if 2 ^ 109 \<le> x then of_nat (sqrt_odd x) / 2 ^ k else sqrt_scaled fuel (k + 1) (4 * x))"

definition py_sqrt :: "rat \<Rightarrow> rat" where
  "py_sqrt x = py_double (sqrt_scaled 600 0 x)"

section \<open>Facts\<close>

lemma f_of_small: "\<bar>py_double q\<bar> < 2 ^ 1024 \<Longrightarrow> f_of q = FFin (py_double q)"
  by (simp add: f_of_def Let_def)

lemma f_of_0 [simp]: "f_of 0 = FFin 0"
  by (simp add: f_of_def)

lemma f_of_pos: "0 < q \<Longrightarrow> float_pos (f_of q)"
  using py_double_pos[of q] by (auto simp: f_of_def Let_def)

lemma f_add_nonneg: "0 \<le> a \<Longrightarrow> 0 \<le> b \<Longrightarrow> f_add (FFin a) (FFin b) \<in> range FFin \<union> {FInf False}"
  by (auto simp: f_of_def Let_def not_less)

lemma f_add_NaN [simp]: "f_add x FNaN = FNaN" "f_add FNaN x = FNaN"
  by (cases x; simp)+

end
