(* ===== verification/Task_State.thy ===== *)
theory Task_State
  imports MC_Prelude
begin

text \<open>
  Models \<^verbatim>\<open>backend/app/orchestration/state_machine.py\<close> and \<open>TaskStatus\<close> of
  \<^verbatim>\<open>backend/app/models/base.py\<close>: the table of task transitions and the functions over it.
\<close>

datatype task_status =
    TsTodo | TsPending | TsAssigned | TsRunning | TsRetrying | TsCompleted | TsFailed | TsSkipped
  | TsBlocked | TsAwaitingApproval

fun task_status_value :: "task_status \<Rightarrow> string" where
  "task_status_value TsTodo = ''todo''"
| "task_status_value TsPending = ''pending''"
| "task_status_value TsAssigned = ''assigned''"
| "task_status_value TsRunning = ''running''"
| "task_status_value TsRetrying = ''retrying''"
| "task_status_value TsCompleted = ''completed''"
| "task_status_value TsFailed = ''failed''"
| "task_status_value TsSkipped = ''skipped''"
| "task_status_value TsBlocked = ''blocked''"
| "task_status_value TsAwaitingApproval = ''awaiting_approval''"

definition all_task_statuses :: "task_status list" where
  "all_task_statuses = [TsTodo, TsPending, TsAssigned, TsRunning, TsRetrying, TsCompleted, TsFailed,
     TsSkipped, TsBlocked, TsAwaitingApproval]"

definition parse_task_status :: "string \<Rightarrow> task_status option" where
  "parse_task_status s = List.find (\<lambda>t. task_status_value t = s) all_task_statuses"

lemma parse_task_status_value [simp]: "parse_task_status (task_status_value t) = Some t"
  by (cases t) (simp_all add: parse_task_status_def all_task_statuses_def)

section \<open>The table\<close>

definition valid_transitions :: "((task_status \<times> string) \<times> task_status) list" where
  "valid_transitions =
     [((TsTodo, ''enqueue''), TsPending),
      ((TsPending, ''assign''), TsAssigned),
      ((TsAssigned, ''start''), TsRunning),
      ((TsPending, ''start''), TsRunning),
      ((TsRunning, ''complete''), TsCompleted),
      ((TsRunning, ''fail''), TsFailed),
      ((TsRunning, ''retry''), TsRetrying),
      ((TsRetrying, ''start''), TsRunning),
      ((TsRetrying, ''fail''), TsFailed),
      ((TsPending, ''skip''), TsSkipped),
      ((TsPending, ''block''), TsBlocked),
      ((TsBlocked, ''unblock''), TsPending),
      ((TsFailed, ''retry''), TsPending),
      ((TsBlocked, ''retry''), TsPending),
      ((TsRunning, ''skip''), TsSkipped),
      ((TsBlocked, ''skip''), TsSkipped),
      ((TsTodo, ''skip''), TsSkipped),
      ((TsRunning, ''force_complete''), TsCompleted),
      ((TsFailed, ''force_complete''), TsCompleted),
      ((TsPending, ''force_complete''), TsCompleted),
      ((TsBlocked, ''force_complete''), TsCompleted),
      ((TsTodo, ''force_complete''), TsCompleted),
      ((TsPending, ''cancel''), TsFailed),
      ((TsRunning, ''cancel''), TsFailed),
      ((TsBlocked, ''cancel''), TsFailed),
      ((TsTodo, ''cancel''), TsFailed),
      ((TsAssigned, ''cancel''), TsFailed),
      ((TsPending, ''dep_failed''), TsSkipped),
      ((TsTodo, ''dep_failed''), TsSkipped),
      ((TsBlocked, ''dep_failed''), TsSkipped)]"

definition terminal_states :: "task_status set" where
  "terminal_states = {TsCompleted, TsFailed, TsSkipped}"

definition override_actions :: "string set" where
  "override_actions = {''retry'', ''skip'', ''force_complete'', ''cancel''}"

datatype transition_error = InvalidTransition task_status string

definition validate_transition :: "task_status \<Rightarrow> string \<Rightarrow> transition_error + task_status" where
  "validate_transition current action =
     (case map_of valid_transitions (current, action) of
        None \<Rightarrow> Inl (InvalidTransition current action)
      | Some new_status \<Rightarrow> Inr new_status)"

definition is_terminal :: "task_status \<Rightarrow> bool" where
  "is_terminal status \<longleftrightarrow> status \<in> terminal_states"

definition get_valid_actions :: "task_status \<Rightarrow> string list" where
  "get_valid_actions current =
     sorted_set (map (snd \<circ> fst) (filter (\<lambda>((s, a), t). s = current) valid_transitions))"

definition get_valid_override_actions :: "task_status \<Rightarrow> string list" where
  "get_valid_override_actions current =
     sort (map (snd \<circ> fst) (filter (\<lambda>((s, a), t). s = current \<and> a \<in> override_actions) valid_transitions))"

section \<open>Reachable statuses\<close>

inductive task_step :: "task_status \<Rightarrow> string \<Rightarrow> task_status \<Rightarrow> bool" where
  "validate_transition s a = Inr t \<Longrightarrow> task_step s a t"

inductive task_run :: "task_status \<Rightarrow> string list \<Rightarrow> task_status \<Rightarrow> bool" where
  run_nil: "task_run s [] s"
| run_step: "task_step s a t \<Longrightarrow> task_run t as u \<Longrightarrow> task_run s (a # as) u"

inductive_cases task_run_NilE: "task_run s [] t"
inductive_cases task_run_ConsE: "task_run s (a # as) t"

lemma distinct_transitions: "distinct (map fst valid_transitions)"
  by (simp add: valid_transitions_def)

lemma validate_transition_iff: "validate_transition s a = Inr t \<longleftrightarrow> ((s, a), t) \<in> set valid_transitions"
proof -
  have "validate_transition s a = Inr t \<longleftrightarrow> map_of valid_transitions (s, a) = Some t"
    by (simp add: validate_transition_def split: option.splits)
  then show ?thesis by (simp add: map_of_eq_Some_iff[OF distinct_transitions])
qed

lemma task_step_iff: "task_step s a t \<longleftrightarrow> ((s, a), t) \<in> set valid_transitions"
  by (simp add: task_step.simps validate_transition_iff)

text \<open>The rows of the table that leave a status.\<close>

lemma leave_completed: "((TsCompleted, a), t) \<notin> set valid_transitions"
  and leave_skipped: "((TsSkipped, a), t) \<notin> set valid_transitions"
  and leave_failed: "((TsFailed, a), t) \<in> set valid_transitions \<longleftrightarrow>
    (a = ''retry'' \<and> t = TsPending) \<or> (a = ''force_complete'' \<and> t = TsCompleted)"
  and enter_awaiting: "((s, a), TsAwaitingApproval) \<notin> set valid_transitions"
  by (auto simp: valid_transitions_def)

lemma run_from_final: "task_run s as t \<Longrightarrow> s = TsCompleted \<or> s = TsSkipped \<Longrightarrow> as = [] \<and> t = s"
  by (induction rule: task_run.induct) (auto simp: task_step_iff leave_completed leave_skipped)

lemma run_not_awaiting: "task_run s as t \<Longrightarrow> t = TsAwaitingApproval \<Longrightarrow> s = TsAwaitingApproval"
  by (induction rule: task_run.induct) (auto simp: task_step_iff enter_awaiting)

text \<open>A run without the two overrides of a failed task.\<close>

lemma run_from_failed:
  assumes "task_run TsFailed as t" "as = [] \<or> hd as \<notin> override_actions"
  shows "as = [] \<and> t = TsFailed"
  using assms
  by (cases rule: task_run.cases) (auto simp: task_step_iff leave_failed override_actions_def)

text \<open>A finished task stays finished: from \<open>completed\<close> and \<open>skipped\<close> no action leads anywhere,
  from \<open>failed\<close> only a manual override does, and no sequence of actions ever brings a task into
  \<open>awaiting_approval\<close>.\<close>

theorem task_lifecycle:
  assumes "task_run s as t"
  shows "(s \<in> {TsCompleted, TsSkipped} \<longrightarrow> as = [] \<and> t = s)
    \<and> (s = TsFailed \<and> as \<noteq> [] \<longrightarrow> hd as \<in> override_actions)
    \<and> (t = TsAwaitingApproval \<longrightarrow> s = TsAwaitingApproval)"
proof (intro conjI impI)
  assume "s \<in> {TsCompleted, TsSkipped}"
  then show "as = []" "t = s" using run_from_final[OF assms] by blast+
next
  assume "s = TsFailed \<and> as \<noteq> []"
  then show "hd as \<in> override_actions" using run_from_failed[of as t] assms by blast
next
  assume "t = TsAwaitingApproval"
  then show "s = TsAwaitingApproval" using run_not_awaiting[OF assms] by blast
qed

theorem task_lifecycle_witness:
  "task_run TsTodo [''enqueue'', ''start'', ''fail'', ''retry''] TsPending
     \<and> \<not> task_run TsTodo [''enqueue''] TsAwaitingApproval"
proof
  show "task_run TsTodo [''enqueue'', ''start'', ''fail'', ''retry''] TsPending"
    by (rule run_step[of _ _ TsPending], simp add: task_step_iff valid_transitions_def,
        rule run_step[of _ _ TsRunning], simp add: task_step_iff valid_transitions_def,
        rule run_step[of _ _ TsFailed], simp add: task_step_iff valid_transitions_def,
        rule run_step[of _ _ TsPending], simp add: task_step_iff valid_transitions_def, rule run_nil)
  show "\<not> task_run TsTodo [''enqueue''] TsAwaitingApproval"
    using task_lifecycle[of TsTodo "[''enqueue'']" TsAwaitingApproval] by auto
qed

end
