(* ===== verification/Dag.thy ===== *)
theory Dag
  imports Task_State Uuid Py_Strings
begin

text \<open>
  Models \<^verbatim>\<open>backend/app/orchestration/dag.py\<close>: the workflow graph, its validation by Kahn's
  algorithm, the topological order, ready nodes, completion and failure propagation. The stored form
  is in \<open>Checkpoint\<close>. A Python dict keyed by node id is the list of its values
  in insertion order; the adjacency lists are functions (\<open>defaultdict(list)\<close>).
\<close>

section \<open>Data\<close>

record dag_node =
  dn_id :: string
  dn_capability :: string
  dn_description :: string
  dn_depends_on :: "string list"
  dn_complexity :: string
  dn_agent :: "uuid option"
  dn_task :: "uuid option"
  dn_status :: task_status
  dn_output :: "string option"
  dn_error :: "string option"

record dag =
  dag_nodes :: "dag_node list"
  dag_adj :: "string \<Rightarrow> string list"
  dag_rev :: "string \<Rightarrow> string list"

datatype dag_error =
    UnknownDependency string string | NoRootNodes | DagCycle "string list" | NoLeafNodes
  | NodeNotFound string | NodeExists string

section \<open>Construction\<close>

text \<open>\<open>{n.node_id: n for n in nodes}\<close>: a later node with the same id replaces the earlier one.\<close>

fun dict_put :: "dag_node \<Rightarrow> dag_node list \<Rightarrow> dag_node list" where
  "dict_put n [] = [n]"
| "dict_put n (m # ms) = (if dn_id m = dn_id n then n # ms else m # dict_put n ms)"

definition node_dict :: "dag_node list \<Rightarrow> dag_node list" where
  "node_dict nodes = foldl (\<lambda>d n. dict_put n d) [] nodes"

definition push_edge :: "string \<Rightarrow> string \<Rightarrow> (string \<Rightarrow> string list) \<Rightarrow> string \<Rightarrow> string list" where
  "push_edge k v f = f(k := f k @ [v])"

definition link_node :: "dag_node \<Rightarrow> dag \<Rightarrow> dag" where
  "link_node n d = foldl (\<lambda>d dep. d\<lparr>dag_adj := push_edge dep (dn_id n) (dag_adj d),
                                    dag_rev := push_edge (dn_id n) dep (dag_rev d)\<rparr>) d (dn_depends_on n)"

definition raw_dag :: "dag_node list \<Rightarrow> dag" where
  "raw_dag nodes = foldl (\<lambda>d n. link_node n d)
     \<lparr>dag_nodes = node_dict nodes, dag_adj = (\<lambda>_. []), dag_rev = (\<lambda>_. [])\<rparr> nodes"

section \<open>Kahn's algorithm\<close>

type_synonym degrees = "(string \<times> int) list"

definition decrement :: "string \<Rightarrow> degrees \<Rightarrow> degrees" where
  "decrement c deg = map (\<lambda>kv. (fst kv, if fst kv = c then snd kv - 1 else snd kv)) deg"

fun relax :: "string list \<Rightarrow> degrees \<Rightarrow> string list \<Rightarrow> degrees \<times> string list" where
  "relax [] deg queue = (deg, queue)"
| "relax (child # cs) deg queue =
     (let deg' = decrement child deg
      in relax cs deg' (if map_of deg' child = Some 0 then queue @ [child] else queue))"

definition open_degrees :: "degrees \<Rightarrow> nat" where
  "open_degrees deg = length (filter (\<lambda>kv. snd kv > 0) deg)"

lemma open_degrees_decrement: "open_degrees (decrement c deg) \<le> open_degrees deg"
  by (induction deg) (auto simp: open_degrees_def decrement_def)

lemma open_degrees_to_zero:
  "map_of (decrement c deg) c = Some 0 \<Longrightarrow> open_degrees (decrement c deg) < open_degrees deg"
proof (induction deg)
  case (Cons kv deg)
  obtain k v where kv: "kv = (k, v)" by (cases kv)
  show ?case
  proof (cases "k = c")
    case True
    then have "v = 1" using Cons.prems kv by (simp add: decrement_def)
    with True kv open_degrees_decrement[of c deg] show ?thesis by (simp add: open_degrees_def decrement_def)
  next
    case False
    with Cons kv show ?thesis by (simp add: open_degrees_def decrement_def)
  qed
qed (simp add: decrement_def)

lemma relax_measure:
  "length (snd (relax cs deg q)) + open_degrees (fst (relax cs deg q)) \<le> length q + open_degrees deg"
proof (induction cs arbitrary: deg q)
  case (Cons c cs)
  let ?d = "decrement c deg" and ?q = "if map_of (decrement c deg) c = Some 0 then q @ [c] else q"
  have "length ?q + open_degrees ?d \<le> length q + open_degrees deg"
    using open_degrees_to_zero[of c deg] open_degrees_decrement[of c deg] by auto
  with Cons.IH[where deg = ?d and q = ?q] show ?case by (simp add: Let_def)
qed simp

text \<open>The loop: every iteration takes one node off the queue, and a node enters it only when its
  degree becomes zero.\<close>

function kahn :: "(string \<Rightarrow> string list) \<Rightarrow> string list \<Rightarrow> degrees \<Rightarrow> string list \<Rightarrow> string list \<times> degrees" where
  "kahn adj [] deg out = (out, deg)"
| "kahn adj (nid # queue) deg out =
     kahn adj (snd (relax (adj nid) deg queue)) (fst (relax (adj nid) deg queue)) (out @ [nid])"
  by pat_completeness auto
termination
proof (relation "measure (\<lambda>(adj, queue, deg, out). length queue + open_degrees deg)")
  fix adj :: "string \<Rightarrow> string list" and nid queue deg and out :: "string list"
  show "((adj, snd (relax (adj nid) deg queue), fst (relax (adj nid) deg queue), out @ [nid]), adj, nid # queue, deg, out)
      \<in> measure (\<lambda>(adj, queue, deg, out). length queue + open_degrees deg)"
    using relax_measure[of "adj nid" deg queue] by simp
qed simp

definition roots :: "degrees \<Rightarrow> string list" where
  "roots deg = map fst (filter (\<lambda>kv. snd kv = 0) deg)"

definition dep_degrees :: "dag \<Rightarrow> degrees" where
  "dep_degrees d = map (\<lambda>n. (dn_id n, int (length (dn_depends_on n)))) (dag_nodes d)"

definition missing_dependency :: "dag \<Rightarrow> (string \<times> string) option" where
  "missing_dependency d =
     List.find (\<lambda>(i, dep). dep \<notin> dn_id ` set (dag_nodes d))
       (concat (map (\<lambda>n. map (Pair (dn_id n)) (dn_depends_on n)) (dag_nodes d)))"

definition dag_validate :: "dag \<Rightarrow> dag_error + unit" where
  "dag_validate d =
     (case missing_dependency d of
        Some (i, dep) \<Rightarrow> Inl (UnknownDependency i dep)
      | None \<Rightarrow>
          let in_degree = dep_degrees d; queue = roots in_degree in
          if queue = [] then Inl NoRootNodes
          else let (out, deg) = kahn (dag_adj d) queue in_degree [] in
            if length out \<noteq> length (dag_nodes d)
            then Inl (DagCycle (map fst (filter (\<lambda>kv. snd kv > 0) deg)))
            else if filter (\<lambda>n. dag_adj d (dn_id n) = []) (dag_nodes d) = [] then Inl NoLeafNodes
            else Inr ())"

definition make_dag :: "dag_node list \<Rightarrow> dag_error + dag" where
  "make_dag nodes = (let d = raw_dag nodes in bindE (dag_validate d) (\<lambda>_. Inr d))"

definition get_node :: "dag \<Rightarrow> string \<Rightarrow> dag_error + dag_node" where
  "get_node d node_id =
     (case lookup_by dn_id node_id (dag_nodes d) of None \<Rightarrow> Inl (NodeNotFound node_id) | Some n \<Rightarrow> Inr n)"

fun nodes_of :: "dag \<Rightarrow> string list \<Rightarrow> dag_error + dag_node list" where
  "nodes_of d [] = Inr []"
| "nodes_of d (i # is) = bindE (get_node d i) (\<lambda>n. bindE (nodes_of d is) (\<lambda>ns. Inr (n # ns)))"

definition topological_sort :: "dag \<Rightarrow> dag_error + dag_node list" where
  "topological_sort d =
     (let in_degree = map (\<lambda>n. (dn_id n, int (length (dag_rev d (dn_id n))))) (dag_nodes d)
      in nodes_of d (fst (kahn (dag_adj d) (roots in_degree) in_degree [])))"

section \<open>Scheduling operations\<close>

definition set_node :: "dag_node \<Rightarrow> dag \<Rightarrow> dag" where
  "set_node n d = d\<lparr>dag_nodes := map (\<lambda>m. if dn_id m = dn_id n then n else m) (dag_nodes d)\<rparr>"

fun any_dep_failed :: "dag \<Rightarrow> string list \<Rightarrow> dag_error + bool" where
  "any_dep_failed d [] = Inr False"
| "any_dep_failed d (dep # deps) =
     bindE (get_node d dep) (\<lambda>n.
       if dn_status n \<in> {TsFailed, TsSkipped} then Inr True else any_dep_failed d deps)"

fun deps_met :: "dag \<Rightarrow> string list \<Rightarrow> dag_error + bool" where
  "deps_met d [] = Inr True"
| "deps_met d (dep # deps) =
     bindE (get_node d dep) (\<lambda>n. if dn_status n = TsCompleted then deps_met d deps else Inr False)"

definition node_ready :: "dag \<Rightarrow> dag_node \<Rightarrow> dag_error + bool" where
  "node_ready d n =
     (if dn_status n \<notin> {TsPending, TsTodo} then Inr False
      else bindE (any_dep_failed d (dn_depends_on n)) (\<lambda>failed.
        if failed then Inr False else deps_met d (dn_depends_on n)))"

fun collect_ready :: "dag \<Rightarrow> dag_node list \<Rightarrow> dag_error + dag_node list" where
  "collect_ready d [] = Inr []"
| "collect_ready d (n # ns) =
     bindE (node_ready d n) (\<lambda>r. bindE (collect_ready d ns) (\<lambda>rs. Inr (if r then n # rs else rs)))"

definition get_ready_nodes :: "dag \<Rightarrow> dag_error + dag_node list" where
  "get_ready_nodes d = collect_ready d (dag_nodes d)"

definition mark_completed :: "dag \<Rightarrow> string \<Rightarrow> string option \<Rightarrow> dag_error + (dag \<times> dag_node list)" where
  "mark_completed d node_id out =
     bindE (get_node d node_id) (\<lambda>n.
       let d' = set_node (n\<lparr>dn_status := TsCompleted, dn_output := out\<rparr>) d
       in bindE (get_ready_nodes d') (\<lambda>ready. Inr (d', ready)))"

definition skippable :: "task_status \<Rightarrow> bool" where
  "skippable st \<longleftrightarrow> st \<in> {TsPending, TsTodo, TsBlocked}"

definition skip_message :: "string \<Rightarrow> string" where
  "skip_message failed_id =
     ''Skipped: dependency '' @ [char_of (39::nat)] @ failed_id @ [char_of (39::nat)] @ '' failed''"

definition skip_node :: "string \<Rightarrow> dag_node \<Rightarrow> dag \<Rightarrow> dag" where
  "skip_node failed_id n d =
     set_node (n\<lparr>dn_status := TsSkipped, dn_error := Some (skip_message failed_id)\<rparr>) d"

text \<open>
  The loop over \<open>to_skip\<close>. A node enters the queue with its parents' children, and each
  expansion makes a skippable node skipped, so the number of skippable nodes and the length of
  the queue decrease lexicographically. The lookup \<open>self._nodes[child_id]\<close> cannot fail for
  edges to known nodes; a failure ends the loop with its \<open>KeyError\<close>.
\<close>

definition skippable_count :: "dag \<Rightarrow> nat" where
  "skippable_count d = length (filter (\<lambda>n. skippable (dn_status n)) (dag_nodes d))"

lemma skippable_count_skip:
  assumes "lookup_by dn_id c (dag_nodes d) = Some n" "skippable (dn_status n)"
  shows "skippable_count (skip_node f n d) < skippable_count d"
proof -
  define m where "m = n\<lparr>dn_status := TsSkipped, dn_error := Some (skip_message f)\<rparr>"
  have m: "\<not> skippable (dn_status m)" "dn_id m = dn_id n" by (simp_all add: m_def skippable_def)
  have le: "length (filter (\<lambda>x. skippable (dn_status x)) (map (\<lambda>x. if dn_id x = dn_id m then m else x) ns))
      \<le> length (filter (\<lambda>x. skippable (dn_status x)) ns)" for ns
    using m by (induction ns) auto
  have "lookup_by dn_id c ns = Some n \<Longrightarrow>
      length (filter (\<lambda>x. skippable (dn_status x)) (map (\<lambda>x. if dn_id x = dn_id m then m else x) ns))
      < length (filter (\<lambda>x. skippable (dn_status x)) ns)" for ns
  proof (induction ns)
    case (Cons x xs)
    then show ?case
    proof (cases "dn_id x = c")
      case True
      then have "x = n" using Cons.prems by simp
      then show ?thesis using m assms(2) le[of xs] by simp
    next
      case False
      then have "dn_id n = c" "lookup_by dn_id c xs = Some n" using Cons.prems lookup_by_Some[of dn_id c xs n] by auto
      with False Cons.IH m show ?thesis by simp
    qed
  qed simp
  from this[OF assms(1)] show ?thesis by (simp add: skippable_count_def skip_node_def set_node_def flip: m_def)
qed

function skip_loop :: "string \<Rightarrow> dag \<Rightarrow> string list \<Rightarrow> string set \<Rightarrow> string list \<Rightarrow> dag_error + (dag \<times> string list)" where
  "skip_loop failed_id d [] seen skipped = Inr (d, skipped)"
| "skip_loop failed_id d (c # queue) seen skipped =
     (if c \<in> seen then skip_loop failed_id d queue seen skipped
      else case lookup_by dn_id c (dag_nodes d) of
        None \<Rightarrow> Inl (NodeNotFound c)
      | Some n \<Rightarrow>
          if skippable (dn_status n)
          then skip_loop failed_id (skip_node failed_id n d) (queue @ dag_adj d c) (insert c seen) (skipped @ [c])
          else skip_loop failed_id d queue (insert c seen) skipped)"
  by pat_completeness auto
termination
  by (relation "measures [\<lambda>(f, d, q, seen, sk). skippable_count d, \<lambda>(f, d, q, seen, sk). length q]")
    (auto simp: skippable_count_skip)

definition mark_failed :: "dag \<Rightarrow> string \<Rightarrow> string option \<Rightarrow> dag_error + (dag \<times> string list)" where
  "mark_failed d node_id err =
     bindE (get_node d node_id) (\<lambda>n.
       let d' = set_node (n\<lparr>dn_status := TsFailed, dn_error := err\<rparr>) d
       in skip_loop node_id d' (dag_adj d' node_id) {} [])"

definition mark_blocked :: "dag \<Rightarrow> string \<Rightarrow> string option \<Rightarrow> dag_error + dag" where
  "mark_blocked d node_id reason =
     bindE (get_node d node_id) (\<lambda>n. Inr (set_node (n\<lparr>dn_status := TsBlocked,
       dn_error := Some (case reason of
         Some r \<Rightarrow> if r = [] then ''Blocked by dependency or manual action'' else r
       | None \<Rightarrow> ''Blocked by dependency or manual action'')\<rparr>) d))"

definition mark_running :: "dag \<Rightarrow> string \<Rightarrow> dag_error + dag" where
  "mark_running d node_id = bindE (get_node d node_id) (\<lambda>n. Inr (set_node (n\<lparr>dn_status := TsRunning\<rparr>) d))"

definition mark_pending :: "dag \<Rightarrow> string \<Rightarrow> dag_error + dag" where
  "mark_pending d node_id =
     bindE (get_node d node_id) (\<lambda>n. Inr (set_node (n\<lparr>dn_status := TsPending, dn_output := None\<rparr>) d))"

definition add_node :: "dag \<Rightarrow> dag_node \<Rightarrow> dag_error + dag" where
  "add_node d n =
     (if dn_id n \<in> dn_id ` set (dag_nodes d) then Inl (NodeExists (dn_id n))
      else Inr (link_node n (d\<lparr>dag_nodes := dag_nodes d @ [n]\<rparr>)))"

section \<open>Observations\<close>

definition dag_is_complete :: "dag \<Rightarrow> bool" where
  "dag_is_complete d \<longleftrightarrow> (\<forall>n \<in> set (dag_nodes d). dn_status n \<in> {TsCompleted, TsFailed, TsSkipped})"

definition count_status :: "task_status \<Rightarrow> dag \<Rightarrow> nat" where
  "count_status st d = length (filter (\<lambda>n. dn_status n = st) (dag_nodes d))"

definition nodes_failed_for_budget :: "dag \<Rightarrow> string list" where
  "nodes_failed_for_budget d =
     map dn_id (filter (\<lambda>n. dn_status n = TsFailed
       \<and> starts_with ''budget insufficient'' (str_lower (case dn_error n of None \<Rightarrow> [] | Some e \<Rightarrow> e))) (dag_nodes d))"

section \<open>The graph of a node list\<close>

definition dag_ids :: "dag \<Rightarrow> string list" where
  "dag_ids d = map dn_id (dag_nodes d)"

text \<open>The dependencies recorded for an id, and the edges from dependency to dependent.\<close>

definition node_deps :: "dag_node list \<Rightarrow> string \<Rightarrow> string list" where
  "node_deps ns i = (case lookup_by dn_id i ns of None \<Rightarrow> [] | Some n \<Rightarrow> dn_depends_on n)"

definition dep_edges :: "dag_node list \<Rightarrow> (string \<times> string) set" where
  "dep_edges ns = {(dep, dn_id n) | n dep. n \<in> set ns \<and> dep \<in> set (dn_depends_on n)}"

lemma link_node_fields:
  "dag_nodes (link_node n d) = dag_nodes d"
  "dag_adj (link_node n d) p = dag_adj d p @ replicate (count_list (dn_depends_on n) p) (dn_id n)"
  "dag_rev (link_node n d) c = dag_rev d c @ (if c = dn_id n then dn_depends_on n else [])"
proof -
  let ?f = "\<lambda>d dep. d\<lparr>dag_adj := push_edge dep (dn_id n) (dag_adj d), dag_rev := push_edge (dn_id n) dep (dag_rev d)\<rparr>"
  have "dag_nodes (foldl ?f d deps) = dag_nodes d
      \<and> dag_adj (foldl ?f d deps) p = dag_adj d p @ replicate (count_list deps p) (dn_id n)
      \<and> dag_rev (foldl ?f d deps) c = dag_rev d c @ (if c = dn_id n then deps else [])" for deps
    by (induction deps arbitrary: d) (auto simp: push_edge_def)
  then show "dag_nodes (link_node n d) = dag_nodes d"
    "dag_adj (link_node n d) p = dag_adj d p @ replicate (count_list (dn_depends_on n) p) (dn_id n)"
    "dag_rev (link_node n d) c = dag_rev d c @ (if c = dn_id n then dn_depends_on n else [])"
    by (simp_all add: link_node_def)
qed

definition edges_out :: "dag_node list \<Rightarrow> string \<Rightarrow> string list" where
  "edges_out ns p = concat (map (\<lambda>n. replicate (count_list (dn_depends_on n) p) (dn_id n)) ns)"

definition edges_in :: "dag_node list \<Rightarrow> string \<Rightarrow> string list" where
  "edges_in ns c = concat (map dn_depends_on (filter (\<lambda>n. dn_id n = c) ns))"

lemma link_all:
  "dag_nodes (foldl (\<lambda>d n. link_node n d) d ns) = dag_nodes d"
  "dag_adj (foldl (\<lambda>d n. link_node n d) d ns) p = dag_adj d p @ edges_out ns p"
  "dag_rev (foldl (\<lambda>d n. link_node n d) d ns) c = dag_rev d c @ edges_in ns c"
  by (induction ns arbitrary: d) (auto simp: link_node_fields edges_out_def edges_in_def)

lemma dict_put_new: "dn_id n \<notin> dn_id ` set ms \<Longrightarrow> dict_put n ms = ms @ [n]"
  by (induction ms) auto

lemma node_dict_distinct: "distinct (map dn_id ns) \<Longrightarrow> node_dict ns = ns"
proof -
  have "distinct (map dn_id (ms @ ns)) \<Longrightarrow> foldl (\<lambda>d n. dict_put n d) ms ns = ms @ ns" for ms
    by (induction ns arbitrary: ms) (auto simp: dict_put_new)
  from this[of "[]"] show "distinct (map dn_id ns) \<Longrightarrow> node_dict ns = ns" by (simp add: node_dict_def)
qed

lemma raw_dag_fields:
  assumes "distinct (map dn_id ns)"
  shows "dag_nodes (raw_dag ns) = ns" "dag_adj (raw_dag ns) = edges_out ns" "dag_rev (raw_dag ns) = edges_in ns"
  using assms by (auto simp: raw_dag_def link_all node_dict_distinct)

text \<open>Each edge is counted once on either side.\<close>

lemma count_edges_out:
  "distinct (map dn_id ns) \<Longrightarrow> n \<in> set ns \<Longrightarrow> count_list (edges_out ns p) (dn_id n) = count_list (dn_depends_on n) p"
proof (induction ns)
  case (Cons m ns)
  have rep: "count_list (replicate k x) y = (if x = y then k else 0)" for k and x y :: string
    by (induction k) auto
  have none: "dn_id n \<notin> dn_id ` set ns \<Longrightarrow> count_list (edges_out ns p) (dn_id n) = 0" for n
    by (auto simp: edges_out_def count_list_0_iff)
  show ?case
  proof (cases "n = m")
    case True
    with Cons.prems none[of m] show ?thesis by (simp add: edges_out_def rep)
  next
    case False
    then have "n \<in> set ns" "dn_id m \<noteq> dn_id n" using Cons.prems by auto
    with Cons show ?thesis by (simp add: edges_out_def rep)
  qed
qed simp

lemma set_edges_out: "set (edges_out ns p) = {c. (p, c) \<in> dep_edges ns}"
proof -
  have "count_list xs p = 0 \<longleftrightarrow> p \<notin> set xs" for xs by (simp add: count_list_0_iff)
  then show ?thesis by (auto simp: edges_out_def dep_edges_def)
qed

section \<open>Correctness of the loop\<close>

lemma decrement_map:
  "decrement c (map (\<lambda>i. (i, f i)) is) = map (\<lambda>i. (i, if i = c then f i - 1 else f i)) is"
  by (simp add: decrement_def comp_def)

lemma map_of_pairs: "map_of (map (\<lambda>i. (i, f i)) is) c = (if c \<in> set is then Some (f c) else None)"
  by (induction "is") auto

text \<open>One pass over the children subtracts their number of occurrences and queues, once each,
  the nodes that reach zero.\<close>

lemma relax_spec:
  assumes "\<forall>i \<in> set is. int (count_list cs i) \<le> f i" "set cs \<subseteq> set is"
  shows "\<exists>new. relax cs (map (\<lambda>i. (i, f i)) is) q
      = (map (\<lambda>i. (i, f i - int (count_list cs i))) is, q @ new)
    \<and> distinct new \<and> set new = {i \<in> set cs. f i = int (count_list cs i)}"
  using assms
proof (induction cs arbitrary: f q)
  case (Cons c cs)
  define f1 where "f1 = (\<lambda>i. if i = c then f i - 1 else f i)"
  have f1: "\<forall>i \<in> set is. int (count_list cs i) \<le> f1 i" "set cs \<subseteq> set is" "c \<in> set is"
    using Cons.prems by (auto simp: f1_def)
  let ?q = "if f1 c = 0 then q @ [c] else q"
  obtain new where new: "relax cs (map (\<lambda>i. (i, f1 i)) is) ?q
      = (map (\<lambda>i. (i, f1 i - int (count_list cs i))) is, ?q @ new)"
      "distinct new" "set new = {i \<in> set cs. f1 i = int (count_list cs i)}"
    using Cons.IH[OF f1(1,2)] by blast
  have "relax (c # cs) (map (\<lambda>i. (i, f i)) is) q
      = (map (\<lambda>i. (i, f i - int (count_list (c # cs) i))) is, q @ (if f1 c = 0 then [c] else []) @ new)"
    using new(1) f1(3) by (auto simp: decrement_map map_of_pairs f1_def[symmetric] Let_def) (auto simp: f1_def)
  moreover have zero: "c \<notin> set cs" if "f1 c = 0"
  proof -
    have "int (count_list cs c) \<le> 0" using f1(1,3) that by fastforce
    then show ?thesis by (simp add: count_list_0_iff)
  qed
  moreover have "set ((if f1 c = 0 then [c] else []) @ new) = {i \<in> set (c # cs). f i = int (count_list (c # cs) i)}"
  proof (rule set_eqI)
    fix i
    have "count_list cs c = 0 \<longleftrightarrow> c \<notin> set cs" by (rule count_list_0_iff)
    then show "i \<in> set ((if f1 c = 0 then [c] else []) @ new) \<longleftrightarrow> i \<in> {i \<in> set (c # cs). f i = int (count_list (c # cs) i)}"
      using new(3) zero by (cases "i = c"; cases "c \<in> set cs") (simp_all add: f1_def, auto)
  qed
  ultimately show ?case using new(2,3) by (intro exI[of _ "(if f1 c = 0 then [c] else []) @ new"]) auto
qed simp

text \<open>The dependencies of a node that are not yet in the output.\<close>

definition open_deps :: "dag_node list \<Rightarrow> string set \<Rightarrow> string \<Rightarrow> nat" where
  "open_deps ns V i = length (filter (\<lambda>x. x \<notin> V) (node_deps ns i))"

definition ordered :: "dag_node list \<Rightarrow> string list \<Rightarrow> bool" where
  "ordered ns out \<longleftrightarrow> (\<forall>k < length out. set (node_deps ns (out ! k)) \<subseteq> set (take k out))"

definition kahn_inv :: "dag_node list \<Rightarrow> string list \<Rightarrow> string list \<Rightarrow> bool" where
  "kahn_inv ns queue out \<longleftrightarrow> distinct (out @ queue)
     \<and> set (out @ queue) = {i \<in> dn_id ` set ns. open_deps ns (set out) i = 0} \<and> ordered ns out"

definition open_table :: "dag_node list \<Rightarrow> string set \<Rightarrow> degrees" where
  "open_table ns V = map (\<lambda>i. (i, int (open_deps ns V i))) (map dn_id ns)"

lemma open_deps_insert:
  "n \<notin> V \<Longrightarrow> open_deps ns V i = open_deps ns (insert n V) i + count_list (node_deps ns i) n"
proof -
  have "n \<notin> V \<Longrightarrow> length (filter (\<lambda>x. x \<notin> V) xs) = length (filter (\<lambda>x. x \<notin> insert n V) xs) + count_list xs n" for xs
    by (induction xs) auto
  then show "n \<notin> V \<Longrightarrow> open_deps ns V i = open_deps ns (insert n V) i + count_list (node_deps ns i) n"
    by (simp add: open_deps_def)
qed

lemma node_deps_of: "distinct (map dn_id ns) \<Longrightarrow> n \<in> set ns \<Longrightarrow> node_deps ns (dn_id n) = dn_depends_on n"
  by (simp add: node_deps_def lookup_by_distinct)

lemma count_edges:
  "distinct (map dn_id ns) \<Longrightarrow> i \<in> dn_id ` set ns \<Longrightarrow> count_list (edges_out ns p) i = count_list (node_deps ns i) p"
  by (auto simp: count_edges_out node_deps_of)

lemma set_edges_out_ids: "set (edges_out ns p) \<subseteq> dn_id ` set ns"
  by (auto simp: set_edges_out dep_edges_def)

lemma ordered_snoc: "ordered ns out \<Longrightarrow> set (node_deps ns x) \<subseteq> set out \<Longrightarrow> ordered ns (out @ [x])"
  by (auto simp: ordered_def nth_append less_Suc_eq)

lemma kahn_step:
  assumes d: "distinct (map dn_id ns)" and inv: "kahn_inv ns (nid # queue) out"
  shows "\<exists>new. relax (edges_out ns nid) (open_table ns (set out)) queue
      = (open_table ns (set (out @ [nid])), queue @ new) \<and> kahn_inv ns (queue @ new) (out @ [nid])"
proof -
  let ?V = "set out" and ?cs = "edges_out ns nid" and ?ids = "map dn_id ns"
  have nid: "nid \<notin> ?V" "open_deps ns ?V nid = 0" "nid \<in> dn_id ` set ns"
    using inv by (auto simp: kahn_inv_def)
  have step: "int (open_deps ns ?V i) - int (count_list ?cs i) = int (open_deps ns (insert nid ?V) i)"
    if "i \<in> set ?ids" for i
    using count_edges[OF d, of i nid] open_deps_insert[OF nid(1), of ns i] that by simp
  have le: "\<forall>i \<in> set ?ids. int (count_list ?cs i) \<le> int (open_deps ns ?V i)"
    using step by (metis diff_ge_0_iff_ge of_nat_0_le_iff)
  obtain new where new: "relax ?cs (open_table ns ?V) queue
      = (map (\<lambda>i. (i, int (open_deps ns ?V i) - int (count_list ?cs i))) ?ids, queue @ new)"
      "distinct new" "set new = {i \<in> set ?cs. int (open_deps ns ?V i) = int (count_list ?cs i)}"
    using relax_spec[OF le, of queue] set_edges_out_ids[of ns nid] by (auto simp: open_table_def)
  have table: "map (\<lambda>i. (i, int (open_deps ns ?V i) - int (count_list ?cs i))) ?ids = open_table ns (set (out @ [nid]))"
    using step by (auto simp: open_table_def intro!: map_cong)
  have zero_old: "open_deps ns ?V i = 0" if "i \<in> set (out @ nid # queue)" for i
    using inv that by (auto simp: kahn_inv_def)
  have pos: "0 < count_list ?cs i" if "i \<in> set ?cs" for i using that by (metis count_list_0_iff gr0I)
  have disj: "set new \<inter> set (out @ nid # queue) = {}" using new(3) zero_old pos by fastforce
  have members: "set (out @ nid # queue @ new) = {i \<in> dn_id ` set ns. open_deps ns (insert nid ?V) i = 0}"
  proof (rule set_eqI)
    fix i
    have mono: "open_deps ns (insert nid ?V) i \<le> open_deps ns ?V i" using open_deps_insert[OF nid(1), of ns i] by simp
    have old: "i \<in> set (out @ nid # queue) \<longleftrightarrow> i \<in> dn_id ` set ns \<and> open_deps ns ?V i = 0"
      using inv by (simp add: kahn_inv_def)
    have nw: "i \<in> set new \<longleftrightarrow> i \<in> dn_id ` set ns \<and> open_deps ns ?V i \<noteq> 0 \<and> open_deps ns (insert nid ?V) i = 0"
    proof
      assume "i \<in> set new"
      with new(3) pos[of i] set_edges_out_ids[of ns nid] step[of i]
      show "i \<in> dn_id ` set ns \<and> open_deps ns ?V i \<noteq> 0 \<and> open_deps ns (insert nid ?V) i = 0" by auto
    next
      assume a: "i \<in> dn_id ` set ns \<and> open_deps ns ?V i \<noteq> 0 \<and> open_deps ns (insert nid ?V) i = 0"
      then have "open_deps ns ?V i = count_list ?cs i" using step[of i] by simp
      moreover from this a have "i \<in> set ?cs" by (metis count_list_0_iff)
      ultimately show "i \<in> set new" using new(3) by simp
    qed
    show "i \<in> set (out @ nid # queue @ new) \<longleftrightarrow> i \<in> {i \<in> dn_id ` set ns. open_deps ns (insert nid ?V) i = 0}"
      using old nw mono by auto
  qed
  have "set (node_deps ns nid) \<subseteq> ?V" using nid(2) by (auto simp: open_deps_def filter_empty_conv)
  then have "ordered ns (out @ [nid])" using inv ordered_snoc by (simp add: kahn_inv_def)
  moreover have dq: "distinct (out @ nid # queue)" using inv by (simp add: kahn_inv_def)
  moreover have "distinct ((out @ [nid]) @ queue @ new)" using dq disj new(2) by auto
  ultimately have "kahn_inv ns (queue @ new) (out @ [nid])" using members by (simp add: kahn_inv_def)
  with new(1) table show ?thesis by auto
qed

lemma kahn_result:
  assumes "distinct (map dn_id ns)" "kahn_inv ns queue out"
  shows "\<exists>out'. kahn (edges_out ns) queue (open_table ns (set out)) out = (out', open_table ns (set out')) \<and> kahn_inv ns [] out'"
  using assms(2)
proof (induction "length ns - length out" arbitrary: queue out rule: less_induct)
  case less
  show ?case
  proof (cases queue)
    case Nil
    with less.prems show ?thesis by auto
  next
    case (Cons nid q)
    obtain new where new: "relax (edges_out ns nid) (open_table ns (set out)) q = (open_table ns (set (out @ [nid])), q @ new)"
        "kahn_inv ns (q @ new) (out @ [nid])"
      using kahn_step[OF assms(1)] less.prems Cons by blast
    have "set (out @ [nid]) \<subseteq> dn_id ` set ns" "distinct (out @ [nid])"
      using new(2) by (auto simp: kahn_inv_def)
    then have "length (out @ [nid]) \<le> length ns"
      by (metis card_image_le card_length card_mono distinct_card finite_imageI finite_set le_trans)
    then have "length ns - length (out @ [nid]) < length ns - length out" by simp
    from less.hyps[OF this new(2)] new(1) Cons show ?thesis by simp
  qed
qed

section \<open>Validation\<close>

definition deps_closed :: "dag_node list \<Rightarrow> bool" where
  "deps_closed ns \<longleftrightarrow> (\<forall>n \<in> set ns. set (dn_depends_on n) \<subseteq> dn_id ` set ns)"

definition kahn_order :: "dag_node list \<Rightarrow> string list" where
  "kahn_order ns = fst (kahn (edges_out ns) (roots (open_table ns {})) (open_table ns {}) [])"

lemma dep_degrees_table:
  assumes "distinct (map dn_id (dag_nodes d))"
  shows "dep_degrees d = open_table (dag_nodes d) {}"
  using node_deps_of[OF assms] by (auto simp: dep_degrees_def open_table_def open_deps_def)

lemma kahn_inv_init: "distinct (map dn_id ns) \<Longrightarrow> kahn_inv ns (roots (open_table ns {})) []"
  by (auto simp: kahn_inv_def roots_def open_table_def ordered_def filter_map comp_def distinct_map
      intro: inj_on_subset)

lemma kahn_order_spec:
  assumes "distinct (map dn_id ns)"
  shows "kahn (edges_out ns) (roots (open_table ns {})) (open_table ns {}) [] = (kahn_order ns, open_table ns (set (kahn_order ns)))"
    "kahn_inv ns [] (kahn_order ns)"
  using kahn_result[OF assms kahn_inv_init[OF assms]] by (auto simp: kahn_order_def)

lemma missing_dependency_None: "missing_dependency d = None \<longleftrightarrow> deps_closed (dag_nodes d)"
proof -
  have "missing_dependency d = None \<longleftrightarrow>
      (\<forall>(i, dep) \<in> set (concat (map (\<lambda>n. map (Pair (dn_id n)) (dn_depends_on n)) (dag_nodes d))). dep \<in> dn_id ` set (dag_nodes d))"
    unfolding missing_dependency_def find_None_iff by fastforce
  also have "\<dots> \<longleftrightarrow> deps_closed (dag_nodes d)" by (auto simp: deps_closed_def)
  finally show ?thesis .
qed

lemma finite_dep_edges: "finite (dep_edges ns)"
proof -
  have "dep_edges ns \<subseteq> (\<Union>n \<in> set ns. set (dn_depends_on n)) \<times> dn_id ` set ns" by (auto simp: dep_edges_def)
  then show ?thesis by (rule finite_subset) auto
qed

lemma dep_edges_deps:
  "distinct (map dn_id ns) \<Longrightarrow> (p, c) \<in> dep_edges ns \<longleftrightarrow> c \<in> dn_id ` set ns \<and> p \<in> set (node_deps ns c)"
  by (auto simp: dep_edges_def node_deps_of)

text \<open>The order produced covers the whole graph exactly when there is no cycle.\<close>

lemma ordered_acyclic:
  assumes "distinct (map dn_id ns)" "ordered ns out" "dn_id ` set ns \<subseteq> set out" "distinct out"
  shows "acyclic (dep_edges ns)"
proof -
  define rank where "rank x = length (takeWhile (\<lambda>y. y \<noteq> x) out)" for x
  have nth: "rank (out ! k) = k" if "k < length out" for k
  proof -
    have "takeWhile (\<lambda>y. y \<noteq> out ! k) out = take k out"
      by (rule takeWhile_eq_take_P_nth) (use that assms(4) in \<open>auto simp: nth_eq_iff_index_eq\<close>)
    then show ?thesis using that by (simp add: rank_def)
  qed
  have "rank p < rank c" if "(p, c) \<in> dep_edges ns" for p c
  proof -
    have c: "c \<in> set out" "p \<in> set (node_deps ns c)" using that assms(1,3) by (auto simp: dep_edges_deps)
    then obtain k where k: "k < length out" "c = out ! k" by (metis in_set_conv_nth)
    then have "p \<in> set (take k out)" using assms(2) c(2) by (auto simp: ordered_def)
    then obtain j where "j < k" "p = out ! j" by (auto simp: in_set_conv_nth)
    with nth k show ?thesis by simp
  qed
  then have "dep_edges ns \<subseteq> measure rank" by auto
  then show ?thesis by (metis acyclic_subset wf_acyclic wf_measure)
qed

lemma acyclic_covers:
  assumes d: "distinct (map dn_id ns)" and c: "deps_closed ns" and a: "acyclic (dep_edges ns)"
  shows "set (kahn_order ns) = dn_id ` set ns"
proof (rule ccontr)
  assume ne: "set (kahn_order ns) \<noteq> dn_id ` set ns"
  have inv: "set (kahn_order ns) = {i \<in> dn_id ` set ns. open_deps ns (set (kahn_order ns)) i = 0}"
    using kahn_order_spec(2)[OF d] by (simp add: kahn_inv_def)
  with ne obtain x where "x \<in> dn_id ` set ns - set (kahn_order ns)" by blast
  with finite_acyclic_wf[OF finite_dep_edges a]
  obtain i where i: "i \<in> dn_id ` set ns - set (kahn_order ns)"
      "\<And>p. (p, i) \<in> dep_edges ns \<Longrightarrow> p \<notin> dn_id ` set ns - set (kahn_order ns)"
    by (rule wfE_min) auto
  have "set (node_deps ns i) \<subseteq> set (kahn_order ns)"
  proof
    fix p assume p: "p \<in> set (node_deps ns i)"
    then have "(p, i) \<in> dep_edges ns" using i(1) d by (auto simp: dep_edges_deps)
    moreover from this have "p \<in> dn_id ` set ns" using c by (fastforce simp: dep_edges_def deps_closed_def)
    ultimately show "p \<in> set (kahn_order ns)" using i(2) by blast
  qed
  then have "open_deps ns (set (kahn_order ns)) i = 0" by (auto simp: open_deps_def filter_empty_conv)
  with i(1) inv show False by auto
qed

lemma kahn_order_covers_iff:
  assumes d: "distinct (map dn_id ns)" and c: "deps_closed ns"
  shows "length (kahn_order ns) = length ns \<longleftrightarrow> acyclic (dep_edges ns)"
proof -
  have inv: "distinct (kahn_order ns)" "set (kahn_order ns) \<subseteq> dn_id ` set ns" "ordered ns (kahn_order ns)"
    using kahn_order_spec(2)[OF d] by (auto simp: kahn_inv_def)
  have card: "card (dn_id ` set ns) = length ns" using d by (metis distinct_card length_map set_map)
  show ?thesis
  proof
    assume "length (kahn_order ns) = length ns"
    then have "card (set (kahn_order ns)) = card (dn_id ` set ns)" using inv(1) card by (simp add: distinct_card)
    then have "set (kahn_order ns) = dn_id ` set ns" using inv(2) by (intro card_subset_eq) auto
    then show "acyclic (dep_edges ns)" using ordered_acyclic[OF d inv(3)] inv(1) by simp
  next
    assume "acyclic (dep_edges ns)"
    then show "length (kahn_order ns) = length ns"
      using acyclic_covers[OF d c] inv(1) card by (metis distinct_card)
  qed
qed

lemma acyclic_has_root:
  assumes "distinct (map dn_id ns)" "deps_closed ns" "acyclic (dep_edges ns)" "ns \<noteq> []"
  shows "roots (open_table ns {}) \<noteq> []"
proof
  assume "roots (open_table ns {}) = []"
  then have "kahn_order ns = []" by (simp add: kahn_order_def)
  with acyclic_covers[OF assms(1-3)] assms(4) show False by simp
qed

lemma acyclic_has_leaf:
  assumes "acyclic (dep_edges ns)" "ns \<noteq> []"
  shows "\<exists>n \<in> set ns. edges_out ns (dn_id n) = []"
proof -
  have "wf ((dep_edges ns)\<inverse>)"
    using assms(1) finite_dep_edges by (simp add: finite_acyclic_wf_converse)
  moreover have "dn_id (hd ns) \<in> dn_id ` set ns" using assms(2) by simp
  ultimately obtain i where i: "i \<in> dn_id ` set ns" "\<And>c. (c, i) \<in> (dep_edges ns)\<inverse> \<Longrightarrow> c \<notin> dn_id ` set ns"
    by (rule wfE_min) auto
  have "c \<notin> set (edges_out ns i)" for c
  proof
    assume c: "c \<in> set (edges_out ns i)"
    then have "(i, c) \<in> dep_edges ns" by (simp add: set_edges_out)
    then show False using i(2)[of c] set_edges_out_ids[of ns i] c by auto
  qed
  then have "edges_out ns i = []" by (cases "edges_out ns i") auto
  with i(1) show ?thesis by auto
qed

lemma dag_validate_iff:
  assumes d: "distinct (map dn_id ns)"
  shows "dag_validate (raw_dag ns) = Inr () \<longleftrightarrow> ns \<noteq> [] \<and> deps_closed ns \<and> acyclic (dep_edges ns)"
proof (cases "deps_closed ns")
  case False
  then show ?thesis using missing_dependency_None[of "raw_dag ns"] raw_dag_fields[OF d]
    by (auto simp: dag_validate_def split: option.splits)
next
  case True
  have v: "dag_validate (raw_dag ns) =
      (if roots (open_table ns {}) = [] then Inl NoRootNodes
       else if length (kahn_order ns) \<noteq> length ns
       then Inl (DagCycle (map fst (filter (\<lambda>kv. snd kv > 0) (open_table ns (set (kahn_order ns))))))
       else if filter (\<lambda>n. edges_out ns (dn_id n) = []) ns = [] then Inl NoLeafNodes else Inr ())"
    using True missing_dependency_None[of "raw_dag ns"] kahn_order_spec(1)[OF d] dep_degrees_table[of "raw_dag ns"] d
    by (simp add: dag_validate_def raw_dag_fields[OF d])
  show ?thesis
  proof
    assume "dag_validate (raw_dag ns) = Inr ()"
    then have "roots (open_table ns {}) \<noteq> []" "length (kahn_order ns) = length ns" using v by (auto split: if_splits)
    with kahn_order_covers_iff[OF d True] True show "ns \<noteq> [] \<and> deps_closed ns \<and> acyclic (dep_edges ns)"
      by (auto simp: roots_def open_table_def)
  next
    assume r: "ns \<noteq> [] \<and> deps_closed ns \<and> acyclic (dep_edges ns)"
    then have "filter (\<lambda>n. edges_out ns (dn_id n) = []) ns \<noteq> []"
      using acyclic_has_leaf[of ns] by (auto simp: filter_empty_conv)
    with r v acyclic_has_root[OF d True] kahn_order_covers_iff[OF d True] show "dag_validate (raw_dag ns) = Inr ()"
      by simp
  qed
qed

text \<open>C11. A list of nodes with distinct ids is accepted as a workflow graph exactly when it is not
  empty, every dependency is one of the nodes, and the dependencies have no cycle. (Lists that repeat
  an id are not checked for it, and can hide a cycle, see \<open>repeated_id_hides_cycle\<close>.)\<close>

theorem make_dag_accepts_iff:
  assumes "distinct (map dn_id ns)"
  shows "is_ok (make_dag ns) \<longleftrightarrow> ns \<noteq> [] \<and> deps_closed ns \<and> acyclic (dep_edges ns)"
proof -
  have "is_ok (make_dag ns) \<longleftrightarrow> dag_validate (raw_dag ns) = Inr ()"
    by (cases "dag_validate (raw_dag ns)") (simp_all add: make_dag_def)
  then show ?thesis by (simp only: dag_validate_iff[OF assms])
qed

section \<open>Topological order\<close>

text \<open>What construction guarantees and every status change keeps.\<close>

definition dag_ok :: "dag \<Rightarrow> bool" where
  "dag_ok d \<longleftrightarrow> distinct (map dn_id (dag_nodes d)) \<and> deps_closed (dag_nodes d) \<and> acyclic (dep_edges (dag_nodes d))
     \<and> dag_adj d = edges_out (dag_nodes d) \<and> dag_rev d = edges_in (dag_nodes d)"

lemma make_dag_ok:
  assumes "distinct (map dn_id ns)" "make_dag ns = Inr d"
  shows "dag_ok d" "dag_nodes d = ns" "d = raw_dag ns"
proof -
  have v: "dag_validate (raw_dag ns) = Inr ()" "d = raw_dag ns"
    using assms(2) by (auto simp: make_dag_def bindE_Inr_conv Let_def)
  with dag_validate_iff[OF assms(1)] raw_dag_fields[OF assms(1)] assms(1)
  show "dag_ok d" "dag_nodes d = ns" "d = raw_dag ns" by (simp_all add: dag_ok_def)
qed

lemma edges_in_deps: "distinct (map dn_id ns) \<Longrightarrow> n \<in> set ns \<Longrightarrow> edges_in ns (dn_id n) = dn_depends_on n"
proof (induction ns)
  case (Cons m ns)
  show ?case
  proof (cases "n = m")
    case True
    then have "filter (\<lambda>x. dn_id x = dn_id n) ns = []"
      using Cons.prems by (auto simp: filter_empty_conv image_iff)
    with True show ?thesis by (simp add: edges_in_def)
  next
    case False
    then have "n \<in> set ns" "dn_id m \<noteq> dn_id n" using Cons.prems by auto
    with Cons show ?thesis by (simp add: edges_in_def)
  qed
qed simp

lemma get_node_conv: "distinct (map dn_id (dag_nodes d)) \<Longrightarrow> get_node d i = Inr n \<longleftrightarrow> n \<in> set (dag_nodes d) \<and> dn_id n = i"
  by (auto simp: get_node_def lookup_by_distinct dest: lookup_by_Some split: option.splits)

lemma nodes_of_ok:
  assumes d: "distinct (map dn_id (dag_nodes d))" and i: "set is \<subseteq> dn_id ` set (dag_nodes d)"
  shows "\<exists>out. nodes_of d is = Inr out \<and> map dn_id out = is \<and> set out \<subseteq> set (dag_nodes d)"
  using i
proof (induction "is")
  case (Cons i js)
  then obtain n where n: "n \<in> set (dag_nodes d)" "dn_id n = i" by auto
  then have "get_node d i = Inr n" using d by (simp add: get_node_conv)
  with Cons n show ?case by auto
qed simp

lemma topological_sort_spec:
  assumes "distinct (map dn_id ns)" and "make_dag ns = Inr d"
  shows "\<exists>out. topological_sort d = Inr out \<and> distinct out \<and> set out = set ns
    \<and> (\<forall>k < length out. set (dn_depends_on (out ! k)) \<subseteq> dn_id ` set (take k out))"
proof -
  have ok: "dag_ok d" and ns: "dag_nodes d = ns" using make_dag_ok[OF assms] by simp_all
  have table: "map (\<lambda>n. (dn_id n, int (length (dag_rev d (dn_id n))))) (dag_nodes d) = open_table ns {}"
    using ok ns edges_in_deps[OF assms(1)] node_deps_of[OF assms(1)]
    by (auto simp: open_table_def open_deps_def dag_ok_def)
  have cover: "set (kahn_order ns) = dn_id ` set ns" using acyclic_covers ok ns by (simp add: dag_ok_def)
  have inv: "distinct (kahn_order ns)" "ordered ns (kahn_order ns)"
    using kahn_order_spec(2)[OF assms(1)] by (simp_all add: kahn_inv_def)
  obtain out where out: "nodes_of d (kahn_order ns) = Inr out" "map dn_id out = kahn_order ns" "set out \<subseteq> set ns"
    using nodes_of_ok[of d "kahn_order ns"] assms(1) ns cover by auto
  have "topological_sort d = Inr out"
    unfolding topological_sort_def table Let_def using out(1) ok ns by (simp add: kahn_order_def dag_ok_def)
  moreover have "distinct out" using inv(1) out(2) by (metis distinct_map)
  moreover have "set ns \<subseteq> set out"
  proof
    fix n assume n: "n \<in> set ns"
    then obtain m where m: "m \<in> set out" "dn_id m = dn_id n" using cover out(2) by (metis image_iff list.set_map)
    then have "m = n" using n out(3) assms(1) by (metis eq_key_imp_eq_value in_mono lookup_by_distinct option.inject)
    with m show "n \<in> set out" by simp
  qed
  moreover have "set (dn_depends_on (out ! k)) \<subseteq> dn_id ` set (take k out)" if "k < length out" for k
  proof -
    have "out ! k \<in> set ns" using that out(3) by (meson nth_mem subsetD)
    then have "set (dn_depends_on (out ! k)) = set (node_deps ns (kahn_order ns ! k))"
      using that out(2) node_deps_of[OF assms(1)] by (metis nth_map)
    also have "\<dots> \<subseteq> set (take k (kahn_order ns))" using inv(2) that out(2) by (metis length_map ordered_def)
    also have "\<dots> = dn_id ` set (take k out)" by (simp flip: out(2) add: take_map)
    finally show ?thesis .
  qed
  ultimately show ?thesis using out(3) by blast
qed

lemma make_dag_nonempty: "distinct (map dn_id ns) \<Longrightarrow> make_dag ns = Inr d \<Longrightarrow> ns \<noteq> []"
  using dag_validate_iff by (auto simp: make_dag_def bindE_Inr_conv Let_def)

text \<open>For a constructed graph \<open>topological_sort\<close> returns every node exactly once, each after all
  nodes it depends on.\<close>

theorem topological_sort_correct:
  assumes "distinct (map dn_id ns)" and "make_dag ns = Inr d"
  shows "\<exists>out. topological_sort d = Inr out \<and> distinct out \<and> set out = set ns
    \<and> (\<forall>k < length out. set (dn_depends_on (out ! k)) \<subseteq> dn_id ` set (take k out))"
  using assms by (rule topological_sort_spec)

section \<open>Status changes\<close>

text \<open>Only status, output and error of nodes differ.\<close>

definition node_shape :: "dag_node \<Rightarrow> string \<times> string list" where
  "node_shape n = (dn_id n, dn_depends_on n)"

definition same_graph :: "dag \<Rightarrow> dag \<Rightarrow> bool" where
  "same_graph d d' \<longleftrightarrow> dag_adj d' = dag_adj d \<and> dag_rev d' = dag_rev d
     \<and> map node_shape (dag_nodes d') = map node_shape (dag_nodes d)"

lemma shape_ids: "map dn_id ns = map fst (map node_shape ns)"
  by (simp add: node_shape_def comp_def)

lemma shape_determines:
  assumes z: "map node_shape ms = map node_shape ns"
  shows "edges_out ms = edges_out ns" "edges_in ms = edges_in ns" "dep_edges ms = dep_edges ns"
    "deps_closed ms = deps_closed ns" "map dn_id ms = map dn_id ns"
proof -
  have eo: "edges_out ns = (\<lambda>p. concat (map (\<lambda>(i, deps). replicate (count_list deps p) i) (map node_shape ns)))" for ns
    by (simp add: edges_out_def comp_def fun_eq_iff node_shape_def)
  have ei: "edges_in ns = (\<lambda>c. concat (map snd (filter (\<lambda>(i, deps). i = c) (map node_shape ns))))" for ns
    by (simp add: edges_in_def comp_def fun_eq_iff filter_map node_shape_def)
  have de: "dep_edges ns = {(dep, i). \<exists>deps. (i, deps) \<in> set (map node_shape ns) \<and> dep \<in> set deps}" for ns
    by (auto simp: dep_edges_def node_shape_def)
  have dc: "deps_closed ns \<longleftrightarrow> (\<forall>(i, deps) \<in> set (map node_shape ns). set deps \<subseteq> set (map fst (map node_shape ns)))" for ns
    by (auto simp: deps_closed_def node_shape_def)
  show "edges_out ms = edges_out ns" "edges_in ms = edges_in ns" "dep_edges ms = dep_edges ns"
    "map dn_id ms = map dn_id ns"
    by (simp_all only: eo ei de z shape_ids)
  show "deps_closed ms = deps_closed ns" by (simp only: dc z)
qed

lemma dag_ok_same_graph:
  assumes "same_graph d d'" "dag_ok d"
  shows "dag_ok d'"
  using shape_determines[of "dag_nodes d'" "dag_nodes d"] assms by (simp add: dag_ok_def same_graph_def)

lemma same_graph_refl [simp]: "same_graph d d"
  by (simp add: same_graph_def)

lemma same_graph_trans: "same_graph a b \<Longrightarrow> same_graph b c \<Longrightarrow> same_graph a c"
  by (simp add: same_graph_def)

lemma node_id_inj: "distinct (map dn_id ns) \<Longrightarrow> x \<in> set ns \<Longrightarrow> y \<in> set ns \<Longrightarrow> dn_id x = dn_id y \<Longrightarrow> x = y"
  by (metis lookup_by_distinct option.inject)

text \<open>Replacing a node by one of the same shape.\<close>

lemma set_node_same_graph:
  assumes "get_node d i = Inr n" "node_shape m = node_shape n" "distinct (map dn_id (dag_nodes d))"
  shows "same_graph d (set_node m d)"
proof -
  have n: "n \<in> set (dag_nodes d)" "dn_id n = i" using assms(1,3) by (simp_all add: get_node_conv)
  have "node_shape (if dn_id x = dn_id m then m else x) = node_shape x" if "x \<in> set (dag_nodes d)" for x
    using that n assms(2) node_id_inj[OF assms(3) that n(1)] by (auto simp: node_shape_def)
  then show ?thesis by (simp add: same_graph_def set_node_def comp_def)
qed

definition dag_status :: "dag \<Rightarrow> string \<Rightarrow> task_status option" where
  "dag_status d i = map_option dn_status (lookup_by dn_id i (dag_nodes d))"

lemma dag_status_set_node:
  assumes "get_node d i = Inr n" "dn_id m = i"
  shows "dag_status (set_node m d) = (dag_status d)(i := Some (dn_status m))"
proof
  fix j
  have look: "lookup_by dn_id j (map (\<lambda>x. if dn_id x = dn_id m then m else x) xs)
      = (if j = dn_id m \<and> j \<in> dn_id ` set xs then Some m else lookup_by dn_id j xs)" for xs
    by (induction xs) auto
  have "i \<in> dn_id ` set (dag_nodes d)"
    using assms(1) lookup_by_None[of dn_id i "dag_nodes d"] by (auto simp: get_node_def split: option.splits)
  with assms(2) look show "dag_status (set_node m d) j = ((dag_status d)(i := Some (dn_status m))) j"
    by (auto simp: dag_status_def set_node_def)
qed

text \<open>Statuses seen by id: a graph's dependencies together with the status map.\<close>

definition can_skip :: "task_status option \<Rightarrow> bool" where
  "can_skip st \<longleftrightarrow> (case st of None \<Rightarrow> False | Some t \<Rightarrow> skippable t)"

lemma can_skip_simps [simp]:
  "can_skip (Some t) = skippable t" "\<not> can_skip None" "\<not> skippable TsSkipped" "\<not> skippable TsFailed"
  "\<not> skippable TsCompleted" "\<not> skippable TsRunning" "skippable TsPending" "skippable TsTodo"
  by (simp_all add: can_skip_def skippable_def)

definition fail_closed :: "dag \<Rightarrow> bool" where
  "fail_closed d \<longleftrightarrow> (\<forall>(p, c) \<in> dep_edges (dag_nodes d).
     can_skip (dag_status d c) \<longrightarrow> dag_status d p \<notin> {Some TsFailed, Some TsSkipped})"

lemma dag_status_node: "dag_ok d \<Longrightarrow> n \<in> set (dag_nodes d) \<Longrightarrow> dag_status d (dn_id n) = Some (dn_status n)"
  by (simp add: dag_status_def lookup_by_distinct dag_ok_def)

lemma dag_status_Some: "dag_status d i = Some st \<Longrightarrow> \<exists>n \<in> set (dag_nodes d). dn_id n = i \<and> dn_status n = st"
  by (auto simp: dag_status_def dest: lookup_by_Some)

lemma get_node_status: "get_node d i = Inr n \<Longrightarrow> dag_status d i = Some (dn_status n) \<and> dn_id n = i"
  by (auto simp: get_node_def dag_status_def dest: lookup_by_Some split: option.splits)

text \<open>
  The queue of the failure cascade always holds every node that is still skippable although a
  dependency failed; the nodes already seen are not skippable.
\<close>

definition cascade_inv :: "dag \<Rightarrow> string list \<Rightarrow> string set \<Rightarrow> bool" where
  "cascade_inv d queue seen \<longleftrightarrow> dag_ok d \<and> set queue \<subseteq> dn_id ` set (dag_nodes d)
     \<and> (\<forall>c \<in> seen. \<not> can_skip (dag_status d c))
     \<and> (\<forall>(p, c) \<in> dep_edges (dag_nodes d). can_skip (dag_status d c)
          \<and> dag_status d p \<in> {Some TsFailed, Some TsSkipped} \<longrightarrow> c \<in> set queue)"

text \<open>Only skippable nodes have changed, and only to skipped.\<close>

definition cascaded :: "dag \<Rightarrow> dag \<Rightarrow> bool" where
  "cascaded d d' \<longleftrightarrow> same_graph d d'
     \<and> (\<forall>i. dag_status d' i = dag_status d i
          \<or> dag_status d' i = Some TsSkipped \<and> can_skip (dag_status d i))"

lemma cascaded_refl [simp]: "cascaded d d"
  by (simp add: cascaded_def)

lemma cascaded_trans: "cascaded a b \<Longrightarrow> cascaded b c \<Longrightarrow> cascaded a c"
proof -
  assume ab: "cascaded a b" and bc: "cascaded b c"
  have "dag_status c i = dag_status a i
      \<or> dag_status c i = Some TsSkipped \<and> can_skip (dag_status a i)" for i
  proof -
    have "dag_status b i = dag_status a i \<or> dag_status b i = Some TsSkipped \<and> can_skip (dag_status a i)"
      "dag_status c i = dag_status b i \<or> dag_status c i = Some TsSkipped \<and> can_skip (dag_status b i)"
      using ab bc by (simp_all add: cascaded_def)
    then show ?thesis by auto
  qed
  with ab bc same_graph_trans show "cascaded a c" by (auto simp: cascaded_def)
qed

lemma skip_node_facts:
  assumes "dag_ok d" "lookup_by dn_id c (dag_nodes d) = Some n" "skippable (dn_status n)"
  shows "same_graph d (skip_node f n d)" "dag_status (skip_node f n d) = (dag_status d)(c := Some TsSkipped)"
    "cascaded d (skip_node f n d)"
proof -
  have g: "get_node d c = Inr n" using assms(2) by (simp add: get_node_def)
  have id: "dn_id n = c" using lookup_by_Some[OF assms(2)] by simp
  show sg: "same_graph d (skip_node f n d)"
    unfolding skip_node_def using assms(1) by (intro set_node_same_graph[OF g]) (simp_all add: node_shape_def dag_ok_def)
  show st: "dag_status (skip_node f n d) = (dag_status d)(c := Some TsSkipped)"
    unfolding skip_node_def using dag_status_set_node[OF g] id by simp
  show "cascaded d (skip_node f n d)"
    using sg st get_node_status[OF g] assms(3) by (auto simp: cascaded_def)
qed

lemma cascade_step:
  assumes inv: "cascade_inv d (c # queue) seen" and n: "lookup_by dn_id c (dag_nodes d) = Some n" "skippable (dn_status n)"
  shows "cascade_inv (skip_node f n d) (queue @ dag_adj d c) (insert c seen)"
proof -
  let ?d = "skip_node f n d"
  have ok: "dag_ok d" using inv by (simp add: cascade_inv_def)
  note sk = skip_node_facts[OF ok n]
  have shape: "map node_shape (dag_nodes ?d) = map node_shape (dag_nodes d)" using sk(1) by (simp add: same_graph_def)
  have "set (map dn_id (dag_nodes ?d)) = set (map dn_id (dag_nodes d))" by (simp only: shape_determines(5)[OF shape])
  then have edges: "dep_edges (dag_nodes ?d) = dep_edges (dag_nodes d)" "dn_id ` set (dag_nodes ?d) = dn_id ` set (dag_nodes d)"
    by (simp_all add: shape_determines(3)[OF shape])
  have adj: "dag_adj d c = edges_out (dag_nodes d) c" using ok by (simp add: dag_ok_def)
  have "dag_ok ?d" using dag_ok_same_graph[OF sk(1) ok] .
  moreover have "set (queue @ dag_adj d c) \<subseteq> dn_id ` set (dag_nodes ?d)"
    using inv set_edges_out_ids[of "dag_nodes d" c] by (auto simp: cascade_inv_def edges adj)
  moreover have "\<forall>x \<in> insert c seen. \<not> can_skip (dag_status ?d x)"
    using inv by (auto simp: cascade_inv_def sk(2))
  moreover have "x \<in> set (queue @ dag_adj d c)"
    if "(p, x) \<in> dep_edges (dag_nodes d)" "can_skip (dag_status ?d x)" "dag_status ?d p \<in> {Some TsFailed, Some TsSkipped}" for p x
  proof (cases "p = c")
    case True
    then show ?thesis using that(1) by (simp add: adj set_edges_out)
  next
    case False
    moreover have "x \<noteq> c" using that(2) by (auto simp: sk(2))
    ultimately have "x \<in> set (c # queue)" using inv that by (auto simp: cascade_inv_def sk(2))
    with \<open>x \<noteq> c\<close> show ?thesis by simp
  qed
  ultimately show ?thesis unfolding cascade_inv_def edges by auto
qed

lemma cascade_drop:
  assumes "cascade_inv d (c # queue) seen" "\<not> can_skip (dag_status d c)"
  shows "cascade_inv d queue (insert c seen)" "cascade_inv d queue seen"
  using assms by (auto simp: cascade_inv_def)

lemma skip_loop_spec:
  "cascade_inv d queue seen \<Longrightarrow>
     \<exists>d' sk. skip_loop f d queue seen skipped = Inr (d', sk) \<and> cascaded d d' \<and> dag_ok d' \<and> fail_closed d'"
proof (induction f d queue seen skipped rule: skip_loop.induct)
  case (1 f d seen skipped)
  then show ?case by (auto simp: cascade_inv_def fail_closed_def)
next
  case (2 f d c queue seen skipped)
  have "c \<in> dn_id ` set (dag_nodes d)" using 2(4) by (simp add: cascade_inv_def)
  then obtain n where n: "lookup_by dn_id c (dag_nodes d) = Some n"
    using lookup_by_None[of dn_id c "dag_nodes d"] by (cases "lookup_by dn_id c (dag_nodes d)") auto
  have st: "dag_status d c = Some (dn_status n)" using n by (simp add: dag_status_def)
  show ?case
  proof (cases "c \<in> seen")
    case True
    then have "\<not> skippable (dn_status n)" using 2(4) st by (auto simp: cascade_inv_def)
    then have "cascade_inv d queue seen" using cascade_drop(2)[OF 2(4)] st by simp
    with 2(1) True show ?thesis by simp
  next
    case False
    show ?thesis
    proof (cases "skippable (dn_status n)")
      case True
      obtain d' sk where "skip_loop f (skip_node f n d) (queue @ dag_adj d c) (insert c seen) (skipped @ [c]) = Inr (d', sk)"
          "cascaded (skip_node f n d) d'" "dag_ok d'" "fail_closed d'"
        using 2(2)[OF False n True] cascade_step[OF 2(4) n True] by blast
      moreover have "cascaded d (skip_node f n d)" using skip_node_facts(3)[OF _ n True] 2(4) by (simp add: cascade_inv_def)
      ultimately show ?thesis using False n True cascaded_trans by auto
    next
      case ns: False
      then have "cascade_inv d queue (insert c seen)" using cascade_drop(1)[OF 2(4)] st by simp
      with 2(3)[OF False n ns] False n ns show ?thesis by simp
    qed
  qed
qed

text \<open>A skipped node stays skipped throughout the cascade.\<close>

lemma skip_loop_skipped:
  "skip_loop f d queue seen skipped = Inr (d', sk) \<Longrightarrow> dag_ok d \<Longrightarrow> dag_status d i = Some TsSkipped \<Longrightarrow>
     dag_status d' i = Some TsSkipped"
proof (induction f d queue seen skipped rule: skip_loop.induct)
  case (2 f d c queue seen skipped)
  show ?case
  proof (cases "c \<in> seen")
    case False
    with 2(4) obtain n where n: "lookup_by dn_id c (dag_nodes d) = Some n" by (auto split: option.splits)
    show ?thesis
    proof (cases "skippable (dn_status n)")
      case True
      note sk = skip_node_facts[OF 2(5) n True]
      show ?thesis
        by (rule 2(2)[OF False n True]) (use 2 False n True dag_ok_same_graph[OF sk(1) 2(5)] sk(2) in auto)
    qed (use 2 False n in simp)
  qed (use 2 in simp)
qed simp

text \<open>What the cascade changes lies downstream of its queue, and it returns exactly the ids it changed.\<close>

definition child_rel :: "dag \<Rightarrow> (string \<times> string) set" where
  "child_rel d = {(p, c). c \<in> set (dag_adj d p)}"

lemma skip_loop_origin:
  "skip_loop f d queue seen skipped = Inr (d', sk) \<Longrightarrow> dag_ok d \<Longrightarrow>
     (dag_status d' j \<noteq> dag_status d j \<longrightarrow> (\<exists>c \<in> set queue. (c, j) \<in> (child_rel d)\<^sup>*))
     \<and> (j \<in> set sk \<longleftrightarrow> j \<in> set skipped \<or> dag_status d' j \<noteq> dag_status d j)"
proof (induction f d queue seen skipped rule: skip_loop.induct)
  case (2 f d c queue seen skipped)
  show ?case
  proof (cases "c \<in> seen")
    case True
    with 2 show ?thesis by auto
  next
    case False
    with 2(4) obtain n where n: "lookup_by dn_id c (dag_nodes d) = Some n" by (auto split: option.splits)
    show ?thesis
    proof (cases "skippable (dn_status n)")
      case True
      let ?d = "skip_node f n d"
      note sk = skip_node_facts[OF 2(5) n True]
      have ok: "dag_ok ?d" using dag_ok_same_graph[OF sk(1) 2(5)] .
      have run: "skip_loop f ?d (queue @ dag_adj d c) (insert c seen) (skipped @ [c]) = Inr (d', sk)"
        using 2(4) False n True by simp
      have rel: "child_rel ?d = child_rel d" by (simp add: child_rel_def skip_node_def set_node_def)
      have cs: "dag_status d c = Some (dn_status n)" using n by (simp add: dag_status_def)
      note IH = 2(2)[OF False n True run ok, unfolded rel]
      have chg: "dag_status d' j \<noteq> dag_status d j \<longleftrightarrow> j = c \<or> dag_status d' j \<noteq> dag_status ?d j"
        using skip_loop_skipped[OF run ok, of c] sk(2) cs True by (cases "j = c") auto
      have "\<exists>x \<in> set (c # queue). (x, j) \<in> (child_rel d)\<^sup>*" if "dag_status d' j \<noteq> dag_status ?d j"
      proof -
        obtain x where x: "x \<in> set queue \<union> set (dag_adj d c)" "(x, j) \<in> (child_rel d)\<^sup>*" using IH \<open>_ \<noteq> _\<close> by auto
        show ?thesis
        proof (cases "x \<in> set queue")
          case False
          then have "(c, x) \<in> child_rel d" using x(1) by (simp add: child_rel_def)
          with x(2) have "(c, j) \<in> (child_rel d)\<^sup>*" by (rule converse_rtrancl_into_rtrancl[rotated])
          then show ?thesis by auto
        qed (use x in auto)
      qed
      with IH chg show ?thesis by auto
    next
      case ns: False
      have run: "skip_loop f d queue (insert c seen) skipped = Inr (d', sk)" using 2(4) False n ns by simp
      show ?thesis using 2(3)[OF False n ns run 2(5)] by auto
    qed
  qed
qed simp

lemma mark_failed_spec:
  assumes "dag_ok d" and "fail_closed d" and "get_node d i = Inr n"
  shows "\<exists>d' skipped. mark_failed d i err = Inr (d', skipped) \<and> dag_ok d' \<and> fail_closed d'
    \<and> dag_status d' i = Some TsFailed
    \<and> (\<forall>j. j \<noteq> i \<longrightarrow> dag_status d' j = dag_status d j
         \<or> dag_status d' j = Some TsSkipped \<and> can_skip (dag_status d j))"
proof -
  let ?m = "n\<lparr>dn_status := TsFailed, dn_error := err\<rparr>"
  let ?d = "set_node ?m d"
  have id: "dn_id n = i" using get_node_status[OF assms(3)] by simp
  have sg: "same_graph d ?d"
    using assms(1) by (intro set_node_same_graph[OF assms(3)]) (simp_all add: node_shape_def dag_ok_def)
  have ok: "dag_ok ?d" using dag_ok_same_graph[OF sg assms(1)] .
  have st: "dag_status ?d = (dag_status d)(i := Some TsFailed)" using dag_status_set_node[OF assms(3), of ?m] id by simp
  have edges: "dep_edges (dag_nodes ?d) = dep_edges (dag_nodes d)"
    using shape_determines(3)[of "dag_nodes ?d" "dag_nodes d"] sg by (simp add: same_graph_def)
  have adj: "dag_adj ?d i = edges_out (dag_nodes ?d) i" using ok by (simp add: dag_ok_def)
  have "cascade_inv ?d (dag_adj ?d i) {}"
    unfolding cascade_inv_def
    using ok assms(2) set_edges_out_ids[of "dag_nodes ?d" i]
    by (auto simp: adj set_edges_out st edges fail_closed_def skippable_def split: if_splits)
  from skip_loop_spec[OF this, of i "[]"]
  obtain d' sk where d': "skip_loop i ?d (dag_adj ?d i) {} [] = Inr (d', sk)" "cascaded ?d d'" "dag_ok d'" "fail_closed d'"
    by blast
  have change: "dag_status d' j = dag_status ?d j \<or> dag_status d' j = Some TsSkipped \<and> can_skip (dag_status ?d j)" for j
    using d'(2) by (simp add: cascaded_def)
  have "dag_status d' i = Some TsFailed" using change[of i] st by simp
  moreover have "\<forall>j. j \<noteq> i \<longrightarrow> dag_status d' j = dag_status d j
      \<or> dag_status d' j = Some TsSkipped \<and> can_skip (dag_status d j)"
  proof (intro allI impI)
    fix j assume "j \<noteq> i"
    with change[of j] st show "dag_status d' j = dag_status d j
      \<or> dag_status d' j = Some TsSkipped \<and> can_skip (dag_status d j)" by simp
  qed
  ultimately show ?thesis using d' assms(3) by (simp add: mark_failed_def Let_def)
qed

text \<open>C23. Marking a node failed always succeeds on a constructed graph and propagates exactly: apart
  from the node itself only pending, todo or blocked descendants of it change, to skipped, these
  are the ids it returns, and afterwards no pending, todo or blocked node depends on a failed or
  skipped one, provided none did before.\<close>

theorem mark_failed_propagates:
  assumes "dag_ok d" and "fail_closed d" and "get_node d i = Inr n"
  shows "\<exists>d' skipped. mark_failed d i err = Inr (d', skipped) \<and> dag_ok d' \<and> fail_closed d'
    \<and> dag_status d' i = Some TsFailed
    \<and> (\<forall>j. j \<noteq> i \<longrightarrow> dag_status d' j = dag_status d j
         \<or> dag_status d' j = Some TsSkipped \<and> can_skip (dag_status d j) \<and> (i, j) \<in> (child_rel d)\<^sup>+)
    \<and> (\<forall>j. j \<noteq> i \<longrightarrow> (j \<in> set skipped \<longleftrightarrow> dag_status d' j \<noteq> dag_status d j))"
proof -
  obtain d' sk where d': "mark_failed d i err = Inr (d', sk)" "dag_ok d'" "fail_closed d'" "dag_status d' i = Some TsFailed"
      "\<And>j. j \<noteq> i \<Longrightarrow> dag_status d' j = dag_status d j \<or> dag_status d' j = Some TsSkipped \<and> can_skip (dag_status d j)"
    using mark_failed_spec[OF assms, of err] by blast
  let ?m = "n\<lparr>dn_status := TsFailed, dn_error := err\<rparr>"
  have id: "dn_id ?m = i" using get_node_status[OF assms(3)] by simp
  have ok: "dag_ok (set_node ?m d)"
    using assms(1) by (intro dag_ok_same_graph[OF set_node_same_graph[OF assms(3)]]) (simp_all add: node_shape_def dag_ok_def)
  have loop: "skip_loop i (set_node ?m d) (dag_adj d i) {} [] = Inr (d', sk)"
    using d'(1) assms(3) by (simp add: mark_failed_def set_node_def)
  have rel: "child_rel (set_node ?m d) = child_rel d" by (simp add: child_rel_def set_node_def)
  have st: "dag_status (set_node ?m d) j = dag_status d j" if "j \<noteq> i" for j
    using dag_status_set_node[OF assms(3) id] that by simp
  note org = skip_loop_origin[OF loop ok, unfolded rel]
  have "(i, j) \<in> (child_rel d)\<^sup>+" if "j \<noteq> i" "dag_status d' j \<noteq> dag_status d j" for j
    using org[of j] st[OF that(1)] that(2) by (auto simp: child_rel_def intro: rtrancl_into_trancl2)
  moreover have "j \<in> set sk \<longleftrightarrow> dag_status d' j \<noteq> dag_status d j" if "j \<noteq> i" for j
    using org[of j] st[OF that] by simp
  ultimately show ?thesis using d' by blast
qed

section \<open>Execution\<close>

text \<open>A scheduler starts ready nodes and reports each running node as completed or failed, in any
  order and interleaving.\<close>

inductive exec_step :: "dag \<Rightarrow> dag \<Rightarrow> bool" where
  exec_start: "get_ready_nodes d = Inr ready \<Longrightarrow> n \<in> set ready \<Longrightarrow> mark_running d (dn_id n) = Inr d' \<Longrightarrow> exec_step d d'"
| exec_complete: "dag_status d i = Some TsRunning \<Longrightarrow> mark_completed d i out = Inr (d', ready) \<Longrightarrow> exec_step d d'"
| exec_fail: "dag_status d i = Some TsRunning \<Longrightarrow> mark_failed d i err = Inr (d', skipped) \<Longrightarrow> exec_step d d'"

inductive exec_run :: "dag \<Rightarrow> nat \<Rightarrow> dag \<Rightarrow> bool" where
  exec_nil: "exec_run d 0 d"
| exec_cons: "exec_step d d' \<Longrightarrow> exec_run d' k d'' \<Longrightarrow> exec_run d (Suc k) d''"

fun status_weight :: "task_status \<Rightarrow> nat" where
  "status_weight TsPending = 2"
| "status_weight TsTodo = 2"
| "status_weight TsRunning = 1"
| "status_weight _ = 0"

definition dag_weight :: "dag \<Rightarrow> nat" where
  "dag_weight d = (\<Sum>n \<leftarrow> dag_nodes d. status_weight (dn_status n))"

definition exec_inv :: "dag \<Rightarrow> bool" where
  "exec_inv d \<longleftrightarrow> dag_ok d \<and> fail_closed d
     \<and> (\<forall>n \<in> set (dag_nodes d). dn_status n \<in> {TsPending, TsTodo, TsRunning, TsCompleted, TsFailed, TsSkipped})"

text \<open>Weight by the status map: it is a sum over the ids.\<close>

definition opt_weight :: "task_status option \<Rightarrow> nat" where
  "opt_weight st = (case st of None \<Rightarrow> 0 | Some t \<Rightarrow> status_weight t)"

lemma dag_weight_status:
  assumes "dag_ok d"
  shows "dag_weight d = (\<Sum>i \<leftarrow> map dn_id (dag_nodes d). opt_weight (dag_status d i))"
  using dag_status_node[OF assms] by (simp add: dag_weight_def opt_weight_def comp_def cong: map_cong)

lemma sum_list_less:
  fixes f g :: "string \<Rightarrow> nat"
  assumes "\<And>j. f j \<le> g j" "f i < g i" "i \<in> set xs"
  shows "(\<Sum>j \<leftarrow> xs. f j) < (\<Sum>j \<leftarrow> xs. g j)"
  using assms(3)
proof (induction xs)
  case (Cons x xs)
  have "(\<Sum>j \<leftarrow> xs. f j) \<le> (\<Sum>j \<leftarrow> xs. g j)" by (rule sum_list_mono) (rule assms(1))
  with Cons assms(1)[of x] assms(2) show ?case
    by (cases "i = x") (auto intro: add_less_le_mono add_le_less_mono)
qed simp

lemma dag_weight_less:
  assumes "dag_ok d" "same_graph d d'" "i \<in> dn_id ` set (dag_nodes d)"
    and "\<And>j. opt_weight (dag_status d' j) \<le> opt_weight (dag_status d j)"
    and "opt_weight (dag_status d' i) < opt_weight (dag_status d i)"
  shows "dag_weight d' < dag_weight d"
proof -
  have ids: "map dn_id (dag_nodes d') = map dn_id (dag_nodes d)"
    by (rule shape_determines(5)) (use assms(2) in \<open>simp add: same_graph_def\<close>)
  have "(\<Sum>j \<leftarrow> map dn_id (dag_nodes d). opt_weight (dag_status d' j))
      < (\<Sum>j \<leftarrow> map dn_id (dag_nodes d). opt_weight (dag_status d j))"
    by (rule sum_list_less[where i = i]) (use assms(3-5) in simp_all)
  then show ?thesis
    by (simp only: dag_weight_status[OF assms(1)] dag_weight_status[OF dag_ok_same_graph[OF assms(2,1)]] ids)
qed

lemma any_dep_failed_conv:
  assumes "dag_ok d" "set deps \<subseteq> dn_id ` set (dag_nodes d)"
  shows "any_dep_failed d deps = Inr (\<exists>p \<in> set deps. dag_status d p \<in> {Some TsFailed, Some TsSkipped})"
  using assms(2)
proof (induction deps)
  case (Cons p ps)
  then obtain n where n: "get_node d p = Inr n" using assms(1) get_node_conv[of d p] by (auto simp: dag_ok_def)
  with Cons get_node_status[OF n] show ?case by auto
qed simp

lemma deps_met_conv:
  assumes "dag_ok d" "set deps \<subseteq> dn_id ` set (dag_nodes d)"
  shows "deps_met d deps = Inr (\<forall>p \<in> set deps. dag_status d p = Some TsCompleted)"
  using assms(2)
proof (induction deps)
  case (Cons p ps)
  then obtain n where n: "get_node d p = Inr n" using assms(1) get_node_conv[of d p] by (auto simp: dag_ok_def)
  with Cons get_node_status[OF n] show ?case by auto
qed simp

definition is_ready :: "dag \<Rightarrow> dag_node \<Rightarrow> bool" where
  "is_ready d n \<longleftrightarrow> dn_status n \<in> {TsPending, TsTodo} \<and> (\<forall>p \<in> set (dn_depends_on n). dag_status d p = Some TsCompleted)"

lemma node_ready_conv:
  assumes "dag_ok d" "n \<in> set (dag_nodes d)"
  shows "node_ready d n = Inr (is_ready d n)"
proof -
  have "set (dn_depends_on n) \<subseteq> dn_id ` set (dag_nodes d)" using assms by (auto simp: dag_ok_def deps_closed_def)
  moreover have "\<not> (\<forall>p \<in> set (dn_depends_on n). dag_status d p = Some TsCompleted)"
    if "\<exists>p \<in> set (dn_depends_on n). dag_status d p \<in> {Some TsFailed, Some TsSkipped}"
    using that by force
  ultimately show ?thesis
    using assms(1) by (simp add: node_ready_def any_dep_failed_conv deps_met_conv is_ready_def)
qed

text \<open>On a constructed graph the ready nodes are those pending nodes whose dependencies have all
  completed.\<close>

lemma get_ready_nodes_conv:
  assumes "dag_ok d"
  shows "get_ready_nodes d = Inr (filter (is_ready d) (dag_nodes d))"
proof -
  have "set ns \<subseteq> set (dag_nodes d) \<Longrightarrow> collect_ready d ns = Inr (filter (is_ready d) ns)" for ns
    using node_ready_conv[OF assms] by (induction ns) auto
  then show ?thesis by (simp add: get_ready_nodes_def)
qed

lemma skippable_iff_open: "exec_inv d \<Longrightarrow> n \<in> set (dag_nodes d) \<Longrightarrow> skippable (dn_status n) \<longleftrightarrow> dn_status n \<in> {TsPending, TsTodo}"
  by (auto simp: exec_inv_def skippable_def)

text \<open>If nothing runs and something is open, the smallest open node is ready.\<close>

lemma ready_exists:
  assumes inv: "exec_inv d" and run: "\<forall>n \<in> set (dag_nodes d). dn_status n \<noteq> TsRunning" and inc: "\<not> dag_is_complete d"
  shows "filter (is_ready d) (dag_nodes d) \<noteq> []"
proof -
  let ?open = "dn_id ` {n \<in> set (dag_nodes d). dn_status n \<in> {TsPending, TsTodo}}"
  have ok: "dag_ok d" "distinct (map dn_id (dag_nodes d))" using inv by (simp_all add: exec_inv_def dag_ok_def)
  obtain n0 where "n0 \<in> set (dag_nodes d)" "dn_status n0 \<notin> {TsCompleted, TsFailed, TsSkipped}"
    using inc by (auto simp: dag_is_complete_def)
  then have "dn_id n0 \<in> ?open" using inv run by (auto simp: exec_inv_def)
  moreover have "wf (dep_edges (dag_nodes d))" using ok finite_acyclic_wf[OF finite_dep_edges] by (simp add: dag_ok_def)
  ultimately obtain i where i: "i \<in> ?open" "\<And>p. (p, i) \<in> dep_edges (dag_nodes d) \<Longrightarrow> p \<notin> ?open"
    using wfE_min[of "dep_edges (dag_nodes d)" "dn_id n0" ?open] by blast
  then obtain n where n: "n \<in> set (dag_nodes d)" "dn_id n = i" "dn_status n \<in> {TsPending, TsTodo}" by auto
  have "dag_status d p = Some TsCompleted" if p: "p \<in> set (dn_depends_on n)" for p
  proof -
    have e: "(p, i) \<in> dep_edges (dag_nodes d)" using n p by (auto simp: dep_edges_def)
    obtain m where m: "m \<in> set (dag_nodes d)" "dn_id m = p" using ok n p by (auto simp: dag_ok_def deps_closed_def)
    have "dag_status d p = Some (dn_status m)" using dag_status_node[OF ok(1) m(1)] m by simp
    moreover have "dag_status d i = Some (dn_status n)" using dag_status_node[OF ok(1) n(1)] n by simp
    moreover have "skippable (dn_status n)" using n(3) by (auto simp: skippable_def)
    ultimately have "dn_status m \<notin> {TsFailed, TsSkipped}" using inv e by (auto simp: exec_inv_def fail_closed_def)
    moreover have "dn_status m \<notin> {TsPending, TsTodo}" using i(2)[OF e] m by auto
    moreover have "dn_status m \<noteq> TsRunning" using run m by blast
    moreover have "dn_status m \<in> {TsPending, TsTodo, TsRunning, TsCompleted, TsFailed, TsSkipped}"
      using inv m by (simp add: exec_inv_def)
    ultimately show ?thesis using \<open>dag_status d p = Some (dn_status m)\<close> by auto
  qed
  with n have "is_ready d n" by (simp add: is_ready_def)
  with n show ?thesis by (auto simp: filter_empty_conv)
qed

text \<open>Changing the status of one node to a status that is neither skippable, failed nor skipped.\<close>

lemma set_status_keeps:
  assumes inv: "exec_inv d" and g: "get_node d i = Inr n" and m: "node_shape m = node_shape n"
    and st: "dn_status m \<in> {TsRunning, TsCompleted}" and w: "status_weight (dn_status m) < status_weight (dn_status n)"
  shows "exec_inv (set_node m d)" "dag_weight (set_node m d) < dag_weight d"
proof -
  have ok: "dag_ok d" "distinct (map dn_id (dag_nodes d))" using inv by (simp_all add: exec_inv_def dag_ok_def)
  have id: "dn_id m = i" "dag_status d i = Some (dn_status n)" using get_node_status[OF g] m by (auto simp: node_shape_def)
  have sg: "same_graph d (set_node m d)" by (rule set_node_same_graph[OF g m ok(2)])
  have sts: "dag_status (set_node m d) = (dag_status d)(i := Some (dn_status m))" by (rule dag_status_set_node[OF g id(1)])
  have edges: "dep_edges (dag_nodes (set_node m d)) = dep_edges (dag_nodes d)"
    by (rule shape_determines(3)) (use sg in \<open>simp add: same_graph_def\<close>)
  have "fail_closed (set_node m d)"
    unfolding fail_closed_def edges
  proof (clarify)
    fix p c assume e: "(p, c) \<in> dep_edges (dag_nodes d)" and c: "can_skip (dag_status (set_node m d) c)"
      and p: "dag_status (set_node m d) p \<in> {Some TsFailed, Some TsSkipped}"
    have "c \<noteq> i" "p \<noteq> i" using c p st by (auto simp: sts)
    with c p have "can_skip (dag_status d c)" "dag_status d p \<in> {Some TsFailed, Some TsSkipped}" by (simp_all add: sts)
    with e inv show False by (auto simp: exec_inv_def fail_closed_def)
  qed
  moreover have "\<forall>x \<in> set (dag_nodes (set_node m d)).
      dn_status x \<in> {TsPending, TsTodo, TsRunning, TsCompleted, TsFailed, TsSkipped}"
    using inv st by (auto simp: set_node_def exec_inv_def)
  ultimately show "exec_inv (set_node m d)" using dag_ok_same_graph[OF sg ok(1)] by (simp add: exec_inv_def)
  have "i \<in> dn_id ` set (dag_nodes d)" using g ok(2) by (auto simp: get_node_conv)
  then show "dag_weight (set_node m d) < dag_weight d"
    using w id by (intro dag_weight_less[OF ok(1) sg]) (auto simp: sts opt_weight_def)
qed

lemma mark_failed_same_graph:
  assumes "dag_ok d" "mark_failed d i err = Inr (d', skipped)"
  shows "same_graph d d'"
proof -
  obtain n where g: "get_node d i = Inr n" using assms(2) by (auto simp: mark_failed_def bindE_Inr_conv)
  let ?d = "set_node (n\<lparr>dn_status := TsFailed, dn_error := err\<rparr>) d"
  have loop: "skip_loop i ?d (dag_adj ?d i) {} [] = Inr (d', skipped)"
    using assms(2) g by (simp add: mark_failed_def Let_def)
  have sg: "same_graph d ?d"
    using assms(1) by (intro set_node_same_graph[OF g]) (simp_all add: node_shape_def dag_ok_def)
  have "same_graph a b" if "skip_loop f a q seen sk = Inr (b, sk')" "dag_ok a" for f a q seen sk b sk'
    using that
  proof (induction f a q seen sk rule: skip_loop.induct)
    case (2 f d c queue seen skipped)
    then show ?case
      using skip_node_facts(1) dag_ok_same_graph same_graph_trans
      by (fastforce split: if_splits option.splits)
  qed simp
  from this[OF loop dag_ok_same_graph[OF sg assms(1)]] sg show ?thesis by (rule same_graph_trans[rotated])
qed

lemma exec_step_keeps:
  assumes inv: "exec_inv d" and "exec_step d d'"
  shows "exec_inv d' \<and> dag_weight d' < dag_weight d"
  using assms(2)
proof (cases rule: exec_step.cases)
  case (exec_start ready n)
  have ok: "dag_ok d" "distinct (map dn_id (dag_nodes d))" using inv by (simp_all add: exec_inv_def dag_ok_def)
  have n: "n \<in> set (dag_nodes d)" "dn_status n \<in> {TsPending, TsTodo}"
    using exec_start(1,2) get_ready_nodes_conv[OF ok(1)] by (auto simp: is_ready_def)
  then have g: "get_node d (dn_id n) = Inr n" using ok(2) by (simp add: get_node_conv)
  then have d': "d' = set_node (n\<lparr>dn_status := TsRunning\<rparr>) d" using exec_start(3) by (simp add: mark_running_def)
  show ?thesis unfolding d' using n set_status_keeps[OF inv g, of "n\<lparr>dn_status := TsRunning\<rparr>"]
    by (auto simp: node_shape_def)
next
  case (exec_complete i out ready)
  obtain n where n: "get_node d i = Inr n" "d' = set_node (n\<lparr>dn_status := TsCompleted, dn_output := out\<rparr>) d"
    using exec_complete(2) by (auto simp: mark_completed_def bindE_Inr_conv Let_def)
  have "dn_status n = TsRunning" using exec_complete(1) get_node_status[OF n(1)] by simp
  then show ?thesis
    unfolding n(2) using set_status_keeps[OF inv n(1), of "n\<lparr>dn_status := TsCompleted, dn_output := out\<rparr>"]
    by (simp add: node_shape_def)
next
  case (exec_fail i err skipped)
  have ok: "dag_ok d" "fail_closed d" using inv by (simp_all add: exec_inv_def)
  obtain n where g: "get_node d i = Inr n" using exec_fail(2) by (auto simp: mark_failed_def bindE_Inr_conv)
  have d': "dag_ok d'" "fail_closed d'" "dag_status d' i = Some TsFailed"
      "\<And>j. j \<noteq> i \<Longrightarrow> dag_status d' j = dag_status d j \<or> dag_status d' j = Some TsSkipped \<and> can_skip (dag_status d j)"
    using mark_failed_spec[OF ok g, of err] exec_fail(2) by auto
  have sg: "same_graph d d'" using mark_failed_same_graph[OF ok(1) exec_fail(2)] .
  have st: "dag_status d' j \<in> {Some TsFailed, Some TsSkipped} \<or> dag_status d' j = dag_status d j" for j
    using d'(3) d'(4)[of j] by (cases "j = i") auto
  have "\<forall>x \<in> set (dag_nodes d'). dn_status x \<in> {TsPending, TsTodo, TsRunning, TsCompleted, TsFailed, TsSkipped}"
  proof
    fix x assume x: "x \<in> set (dag_nodes d')"
    then have sx: "dag_status d' (dn_id x) = Some (dn_status x)" by (rule dag_status_node[OF d'(1)])
    show "dn_status x \<in> {TsPending, TsTodo, TsRunning, TsCompleted, TsFailed, TsSkipped}"
    proof (cases "dag_status d' (dn_id x) = dag_status d (dn_id x)")
      case True
      then have "dag_status d (dn_id x) = Some (dn_status x)" using sx by simp
      from dag_status_Some[OF this] obtain y where "y \<in> set (dag_nodes d)" "dn_status y = dn_status x" by blast
      with inv show ?thesis by (auto simp: exec_inv_def)
    next
      case False
      with st[of "dn_id x"] sx show ?thesis by auto
    qed
  qed
  with d' have "exec_inv d'" by (simp add: exec_inv_def)
  moreover have "i \<in> dn_id ` set (dag_nodes d)" using g ok(1) by (auto simp: get_node_conv dag_ok_def)
  then have "dag_weight d' < dag_weight d"
  proof (rule dag_weight_less[OF ok(1) sg])
    show "opt_weight (dag_status d' j) \<le> opt_weight (dag_status d j)" for j
      using st[of j] by (auto simp: opt_weight_def)
    show "opt_weight (dag_status d' i) < opt_weight (dag_status d i)"
      using d'(3) exec_fail(1) by (simp add: opt_weight_def)
  qed
  ultimately show ?thesis ..
qed

lemma exec_run_keeps: "exec_run d k d' \<Longrightarrow> exec_inv d \<Longrightarrow> exec_inv d' \<and> dag_weight d' + k \<le> dag_weight d"
proof (induction rule: exec_run.induct)
  case (exec_cons d d' k d'')
  then show ?case using exec_step_keeps[OF exec_cons.prems exec_cons.hyps(1)] by auto
qed simp

lemma fresh_exec_inv:
  assumes "distinct (map dn_id ns)" "make_dag ns = Inr d" "\<forall>n \<in> set ns. dn_status n \<in> {TsPending, TsTodo}"
  shows "exec_inv d" "dag_weight d = 2 * length ns"
proof -
  have ok: "dag_ok d" "dag_nodes d = ns" using make_dag_ok[OF assms(1,2)] by simp_all
  have "dag_status d p \<notin> {Some TsFailed, Some TsSkipped}" for p
    using assms(3) ok(2) dag_status_Some[of d p] by fastforce
  then have "fail_closed d" by (auto simp: fail_closed_def)
  with ok assms(3) show "exec_inv d" by (auto simp: exec_inv_def)
  have "map (\<lambda>n. status_weight (dn_status n)) ns = map (\<lambda>n. 2) ns" using assms(3) by (intro map_cong) auto
  then have "dag_weight d = (\<Sum>n \<leftarrow> ns. 2)" using ok(2) by (simp only: dag_weight_def)
  then show "dag_weight d = 2 * length ns" by (simp add: sum_list_triv)
qed

text \<open>C10. Executing a freshly constructed graph whose nodes have distinct ids never deadlocks and always ends:
  however starts, completions and failures are interleaved there are at most two steps per node, and as
  long as the graph is not complete some step is possible.\<close>

theorem dag_execution_live:
  assumes "distinct (map dn_id ns)" and "make_dag ns = Inr d" and "\<forall>n \<in> set ns. dn_status n \<in> {TsPending, TsTodo}"
    and "exec_run d k d'"
  shows "k \<le> 2 * length ns \<and> (dag_is_complete d' \<or> (\<exists>d''. exec_step d' d''))"
proof -
  have inv: "exec_inv d'" "k \<le> 2 * length ns"
    using exec_run_keeps[OF assms(4) fresh_exec_inv(1)[OF assms(1-3)]] fresh_exec_inv(2)[OF assms(1-3)] by auto
  have ok: "dag_ok d'" "distinct (map dn_id (dag_nodes d'))" using inv(1) by (simp_all add: exec_inv_def dag_ok_def)
  have "\<exists>d''. exec_step d' d''" if inc: "\<not> dag_is_complete d'"
  proof (cases "\<exists>n \<in> set (dag_nodes d'). dn_status n = TsRunning")
    case True
    then obtain n where n: "n \<in> set (dag_nodes d')" "dn_status n = TsRunning" by blast
    then have g: "get_node d' (dn_id n) = Inr n" using ok(2) by (simp add: get_node_conv)
    let ?d = "set_node (n\<lparr>dn_status := TsCompleted, dn_output := None\<rparr>) d'"
    have "same_graph d' ?d" by (rule set_node_same_graph[OF g _ ok(2)]) (simp add: node_shape_def)
    then have "dag_ok ?d" using ok(1) by (rule dag_ok_same_graph)
    then have "mark_completed d' (dn_id n) None = Inr (?d, filter (is_ready ?d) (dag_nodes ?d))"
      using g by (simp add: mark_completed_def Let_def get_ready_nodes_conv)
    then show ?thesis using exec_complete get_node_status[OF g] n(2) by metis
  next
    case False
    then obtain n where n: "n \<in> set (filter (is_ready d') (dag_nodes d'))"
      using ready_exists[OF inv(1)] inc by (cases "filter (is_ready d') (dag_nodes d')") auto
    then have "get_node d' (dn_id n) = Inr n" using ok(2) by (simp add: get_node_conv)
    then show ?thesis
      using exec_start[OF get_ready_nodes_conv[OF ok(1)] n] by (auto simp: mark_running_def)
  qed
  with inv(2) show ?thesis by blast
qed


section \<open>A two-node workflow\<close>

definition demo_node :: "string \<Rightarrow> string list \<Rightarrow> dag_node" where
  "demo_node i deps = \<lparr>dn_id = i, dn_capability = ''search'', dn_description = ''step'', dn_depends_on = deps,
     dn_complexity = ''medium'', dn_agent = None, dn_task = None, dn_status = TsPending, dn_output = None, dn_error = None\<rparr>"

definition demo_nodes :: "dag_node list" where
  "demo_nodes = [demo_node ''draft'' [], demo_node ''review'' [''draft'']]"

lemma demo_nodes_facts:
  "distinct (map dn_id demo_nodes)" "\<forall>n \<in> set demo_nodes. dn_status n \<in> {TsPending, TsTodo}" "length demo_nodes = 2"
  by (simp_all add: demo_nodes_def demo_node_def)

lemma demo_dag: "make_dag demo_nodes = Inr (raw_dag demo_nodes)"
proof -
  have "dag_validate (raw_dag demo_nodes) = Inr ()" by code_simp
  then show ?thesis by (simp add: make_dag_def Let_def)
qed

lemma demo_dag_ok: "dag_ok (raw_dag demo_nodes)" "dag_nodes (raw_dag demo_nodes) = demo_nodes"
  using make_dag_ok[OF demo_nodes_facts(1) demo_dag] by simp_all

text \<open>The constructor does not look for repeated ids: the first of two nodes with one id leaves its edges in
  the adjacency lists, where they make up for an edge of a cycle. The list below is accepted although
  the nodes it keeps for \<open>x\<close> and \<open>y\<close> wait for each other; once the other two are completed nothing is ready
  and nothing will be.\<close>

definition repeated_ids :: "dag_node list" where
  "repeated_ids = [demo_node ''x'' [''r''], demo_node ''x'' [''y''], demo_node ''y'' [''x''], demo_node ''r'' [], demo_node ''end'' []]"

theorem repeated_id_hides_cycle:
  "(case make_dag repeated_ids of
      Inl _ \<Rightarrow> False
    | Inr d \<Rightarrow> map (\<lambda>n. (dn_id n, dn_depends_on n)) (dag_nodes d) = [(''x'', [''y'']), (''y'', [''x'']), (''r'', []), (''end'', [])]
        \<and> (case mark_completed d ''r'' None of
             Inl _ \<Rightarrow> False
           | Inr (d1, _) \<Rightarrow> (case mark_completed d1 ''end'' None of
                 Inl _ \<Rightarrow> False | Inr (d2, ready) \<Rightarrow> ready = [] \<and> \<not> dag_is_complete d2)))"
  by code_simp

theorem make_dag_accepts_iff_witness:
  "distinct (map dn_id demo_nodes) \<and> acyclic (dep_edges demo_nodes)
     \<and> \<not> is_ok (make_dag [demo_node ''a'' [''b''], demo_node ''b'' [''a'']])"
proof -
  have "\<not> is_ok (make_dag [demo_node ''a'' [''b''], demo_node ''b'' [''a'']])" by code_simp
  then show ?thesis
    using make_dag_accepts_iff[OF demo_nodes_facts(1)] demo_dag demo_nodes_facts(1) by simp
qed

theorem topological_sort_correct_witness:
  "make_dag demo_nodes = Inr (raw_dag demo_nodes)
     \<and> (\<exists>out. topological_sort (raw_dag demo_nodes) = Inr out \<and> distinct out \<and> set out = set demo_nodes)"
  using topological_sort_correct[OF demo_nodes_facts(1) demo_dag] demo_dag by blast

theorem mark_failed_propagates_witness:
  "\<exists>d' skipped. mark_failed (raw_dag demo_nodes) ''draft'' None = Inr (d', skipped) \<and> fail_closed d'
     \<and> dag_status d' ''draft'' = Some TsFailed"
proof -
  have "fail_closed (raw_dag demo_nodes)"
    using fresh_exec_inv(1)[OF demo_nodes_facts(1) demo_dag demo_nodes_facts(2)] by (simp add: exec_inv_def)
  moreover have "get_node (raw_dag demo_nodes) ''draft'' = Inr (demo_node ''draft'' [])"
    by (simp add: get_node_def demo_dag_ok(2)) (simp add: demo_nodes_def demo_node_def)
  ultimately show ?thesis using mark_failed_propagates[OF demo_dag_ok(1), of "''draft''" _ None] by blast
qed

theorem dag_execution_live_witness:
  "exec_run (raw_dag demo_nodes) 0 (raw_dag demo_nodes) \<and> (\<exists>d. exec_step (raw_dag demo_nodes) d)"
proof -
  have "\<not> dag_is_complete (raw_dag demo_nodes)"
    by (simp add: dag_is_complete_def demo_dag_ok(2)) (simp add: demo_nodes_def demo_node_def)
  then show ?thesis
    using dag_execution_live[OF demo_nodes_facts(1) demo_dag demo_nodes_facts(2) exec_nil] exec_nil by blast
qed

end
