(* ===== verification/Selector.thy ===== *)
theory Selector
  imports Dag Py_Float
begin

text \<open>
  Models \<^verbatim>\<open>backend/app/orchestration/selector.py\<close>: scoring, selection of an agent for a capability
  within a budget, and the assignment of agents to the nodes of a graph. The agents table is a
  list of rows; of the JSON profiles only the two numbers the code reads are kept, as options.
  Scores are computed in doubles.
\<close>

section \<open>Operations\<close>

datatype agent_status = AgActive | AgInactive | AgSuspended | AgDegraded

record agent_row =
  ag_id :: uuid
  ag_status :: agent_status
  ag_capabilities :: "string list option"
  ag_trust_score :: rat
  ag_avg_cost :: "rat option"
  ag_p95_ms :: "rat option"

definition get_avg_cost :: "agent_row \<Rightarrow> rat" where
  "get_avg_cost a = (case ag_avg_cost a of None \<Rightarrow> py_double (1 / 100) | Some c \<Rightarrow> c)"

definition has_capability :: "string \<Rightarrow> agent_row \<Rightarrow> bool" where
  "has_capability cap a \<longleftrightarrow> (case ag_capabilities a of None \<Rightarrow> False | Some cs \<Rightarrow> cap \<in> set cs)"

definition compute_score :: "agent_row \<Rightarrow> string \<Rightarrow> rat" where
  "compute_score a cap =
     (let cost_eff = max 0 (py_double (1 - min (py_double (get_avg_cost a / py_double (5 / 100))) 1));
          p95 = (case ag_p95_ms a of None \<Rightarrow> 5000 | Some v \<Rightarrow> v);
          latency_score = max 0 (py_double (1 - min (py_double (p95 / 15000)) 1));
          match_score = (if has_capability cap a then 1 else 0);
          health = (if ag_status a = AgActive then 1 else 1 / 2);
          trust_part = py_double (py_double (35 / 100) * ag_trust_score a);
          cost_part = py_double (py_double (20 / 100) * cost_eff);
          latency_part = py_double (py_double (15 / 100) * latency_score);
          match_part = py_double (py_double (15 / 100) * match_score);
          health_part = py_double (py_double (15 / 100) * health)
      in py_double (py_double (py_double (py_double (trust_part + cost_part) + latency_part) + match_part) + health_part))"

datatype selector_error = AgentUnavailable string | SelectorDag dag_error

definition candidates :: "agent_row list \<Rightarrow> string \<Rightarrow> rat option \<Rightarrow> uuid list \<Rightarrow> agent_row list" where
  "candidates agents cap budget excluded =
     filter (\<lambda>a. (case budget of None \<Rightarrow> True | Some b \<Rightarrow> get_avg_cost a \<le> b))
       (filter (\<lambda>a. ag_id a \<notin> set excluded)
         (filter (has_capability cap)
           (filter (\<lambda>a. ag_status a \<in> {AgActive, AgDegraded}) agents)))"

text \<open>\<open>sort(key=..., reverse=True)\<close> keeps equal elements in their order.\<close>

definition sort_desc :: "('a \<Rightarrow> 'k::linorder) \<Rightarrow> 'a list \<Rightarrow> 'a list" where
  "sort_desc f xs = rev (sort_key f (rev xs))"

definition select_agent :: "agent_row list \<Rightarrow> string \<Rightarrow> rat option \<Rightarrow> uuid list \<Rightarrow> selector_error + agent_row" where
  "select_agent agents cap budget excluded =
     (case sort_desc snd (map (\<lambda>a. (a, compute_score a cap)) (candidates agents cap budget excluded)) of
        [] \<Rightarrow> Inl (AgentUnavailable cap)
      | (best, score) # _ \<Rightarrow> Inr best)"

fun assign_nodes :: "agent_row list \<Rightarrow> dag_node list \<Rightarrow> rat \<Rightarrow> dag \<Rightarrow> (string \<times> agent_row) list
    \<Rightarrow> selector_error + ((string \<times> agent_row) list \<times> dag)" where
  "assign_nodes agents [] remaining d assignments = Inr (assignments, d)"
| "assign_nodes agents (node # nodes) remaining d assignments =
     bindE (select_agent agents (dn_capability node) (Some remaining) []) (\<lambda>agent.
       assign_nodes agents nodes (py_double (remaining - get_avg_cost agent))
         (set_node (node\<lparr>dn_agent := Some (ag_id agent)\<rparr>) d) (assignments @ [(dn_id node, agent)]))"

definition select_agents_for_dag :: "agent_row list \<Rightarrow> dag \<Rightarrow> rat \<Rightarrow> selector_error + ((string \<times> agent_row) list \<times> dag)" where
  "select_agents_for_dag agents d budget =
     bindE (mapErr SelectorDag (topological_sort d)) (\<lambda>order. assign_nodes agents order budget d [])"

section \<open>Selection\<close>

lemma set_sort_desc [simp]: "set (sort_desc f xs) = set xs"
  by (simp add: sort_desc_def)

lemma sort_desc_Nil [simp]: "sort_desc f xs = [] \<longleftrightarrow> xs = []"
proof -
  have "sort_desc f xs = [] \<longleftrightarrow> set (sort_desc f xs) = {}" by (simp del: set_sort_desc)
  then show ?thesis by simp
qed

lemma sort_desc_empty [simp]: "sort_desc f [] = []"
  by (simp add: sort_desc_def)

lemma sort_desc_head:
  assumes "sort_desc f xs = y # ys" "x \<in> set xs"
  shows "f x \<le> f y"
proof -
  have "sorted (map f (rev (y # ys)))" using assms(1) by (simp only: sort_desc_def flip: assms(1)) simp
  then have "\<forall>z \<in> set ys. f z \<le> f y" by (simp add: sorted_append)
  moreover have "x \<in> set (y # ys)" using assms set_sort_desc[of f xs] by simp
  ultimately show ?thesis by auto
qed

definition eligible :: "agent_row list \<Rightarrow> string \<Rightarrow> rat option \<Rightarrow> uuid list \<Rightarrow> agent_row \<Rightarrow> bool" where
  "eligible agents cap budget excluded a \<longleftrightarrow> a \<in> set agents \<and> ag_status a \<in> {AgActive, AgDegraded}
     \<and> has_capability cap a \<and> ag_id a \<notin> set excluded \<and> (budget \<noteq> None \<longrightarrow> get_avg_cost a \<le> the budget)"

lemma set_candidates: "set (candidates agents cap budget excluded) = {a. eligible agents cap budget excluded a}"
  by (auto simp: candidates_def eligible_def split: option.splits)

lemma select_agent_spec:
  "(case select_agent agents cap budget excluded of
      Inl err \<Rightarrow> err = AgentUnavailable cap \<and> (\<forall>a. \<not> eligible agents cap budget excluded a)
    | Inr best \<Rightarrow> eligible agents cap budget excluded best
        \<and> (\<forall>a. eligible agents cap budget excluded a \<longrightarrow> compute_score a cap \<le> compute_score best cap))"
proof (cases "sort_desc snd (map (\<lambda>a. (a, compute_score a cap)) (candidates agents cap budget excluded))")
  case Nil
  then have "candidates agents cap budget excluded = []" by simp
  then have "\<forall>a. \<not> eligible agents cap budget excluded a" using set_candidates[of agents cap budget excluded] by auto
  with Nil show ?thesis by (simp add: select_agent_def)
next
  case (Cons p ps)
  obtain best s where p: "p = (best, s)" by (cases p)
  have "set (p # ps) = (\<lambda>a. (a, compute_score a cap)) ` set (candidates agents cap budget excluded)"
    by (simp only: flip: Cons) simp
  then have "p \<in> (\<lambda>a. (a, compute_score a cap)) ` set (candidates agents cap budget excluded)" by (metis list.set_intros(1))
  then have best: "eligible agents cap budget excluded best" "s = compute_score best cap" using p set_candidates by auto
  have "compute_score a cap \<le> s" if "eligible agents cap budget excluded a" for a
  proof -
    have "(a, compute_score a cap) \<in> set (map (\<lambda>a. (a, compute_score a cap)) (candidates agents cap budget excluded))"
      using that set_candidates by auto
    from sort_desc_head[OF Cons this] show ?thesis by (simp add: p)
  qed
  with best Cons p show ?thesis by (simp add: select_agent_def)
qed

text \<open>Selection is optimal and complete: an agent is returned exactly when one is active or degraded,
  has the capability, is not excluded and fits the budget, and no such agent scores higher.\<close>

theorem select_agent_optimal:
  "(case select_agent agents cap budget excluded of
      Inl err \<Rightarrow> err = AgentUnavailable cap \<and> (\<forall>a. \<not> eligible agents cap budget excluded a)
    | Inr best \<Rightarrow> eligible agents cap budget excluded best
        \<and> (\<forall>a. eligible agents cap budget excluded a \<longrightarrow> compute_score a cap \<le> compute_score best cap))"
  by (rule select_agent_spec)

section \<open>Assignment within the budget\<close>

abbreviation growth :: rat where
  "growth \<equiv> 1 + 1 / 2 ^ 53"

lemma assign_nodes_spec:
  assumes "assign_nodes agents nodes remaining d acc = Inr (res, d')" "\<forall>a \<in> set agents. 0 \<le> get_avg_cost a"
  shows "\<exists>picked. res = acc @ zip (map dn_id nodes) picked \<and> length picked = length nodes
    \<and> (\<forall>i < length nodes. picked ! i \<in> set agents \<and> has_capability (dn_capability (nodes ! i)) (picked ! i))
    \<and> (nodes \<noteq> [] \<longrightarrow> sum_list (map get_avg_cost picked) \<le> remaining * growth ^ length nodes)"
  using assms
proof (induction nodes arbitrary: remaining d acc)
  case (Cons node nodes)
  from Cons.prems(1) obtain a where a: "select_agent agents (dn_capability node) (Some remaining) [] = Inr a"
      "assign_nodes agents nodes (py_double (remaining - get_avg_cost a)) (set_node (node\<lparr>dn_agent := Some (ag_id a)\<rparr>) d)
         (acc @ [(dn_id node, a)]) = Inr (res, d')"
    by (auto simp: bindE_Inr_conv)
  have el: "eligible agents (dn_capability node) (Some remaining) [] a"
    using select_agent_spec[where agents = agents and cap = "dn_capability node" and budget = "Some remaining" and excluded = "[]"] a(1) by simp
  then have c: "0 \<le> get_avg_cost a" "get_avg_cost a \<le> remaining" "a \<in> set agents" "has_capability (dn_capability node) a"
    using Cons.prems(2) by (auto simp: eligible_def)
  let ?r = "py_double (remaining - get_avg_cost a)"
  obtain picked where p: "res = (acc @ [(dn_id node, a)]) @ zip (map dn_id nodes) picked" "length picked = length nodes"
      "\<forall>i < length nodes. picked ! i \<in> set agents \<and> has_capability (dn_capability (nodes ! i)) (picked ! i)"
      "nodes \<noteq> [] \<longrightarrow> sum_list (map get_avg_cost picked) \<le> ?r * growth ^ length nodes"
    using Cons.IH[OF a(2) Cons.prems(2)] by blast
  have g1: "1 \<le> growth ^ k" for k by (rule one_le_power) simp
  have "sum_list (map get_avg_cost picked) \<le> (remaining - get_avg_cost a) * growth ^ Suc (length nodes)"
  proof (cases "nodes = []")
    case True
    then show ?thesis using p(2) c(2) by simp
  next
    case False
    define x where "x = remaining - get_avg_cost a"
    have "\<bar>py_double x - x\<bar> \<le> x / 2 ^ 53" using py_double_error[of x] c(2) by (simp add: x_def)
    then have "py_double x \<le> x + x / 2 ^ 53" by linarith
    also have "\<dots> = x * growth" by (simp only: distrib_left) simp
    finally have "?r \<le> (remaining - get_avg_cost a) * growth" by (simp only: x_def)
    then have "?r * growth ^ length nodes \<le> ((remaining - get_avg_cost a) * growth) * growth ^ length nodes"
      by (rule mult_right_mono) (use g1[of "length nodes"] in linarith)
    moreover have "sum_list (map get_avg_cost picked) \<le> ?r * growth ^ length nodes" using p(4) False by blast
    ultimately show ?thesis by (simp only: power_Suc mult.assoc)
  qed
  moreover have "get_avg_cost a \<le> get_avg_cost a * growth ^ Suc (length nodes)"
    using mult_left_mono[OF g1[of "Suc (length nodes)"] c(1)] by simp
  ultimately have sum: "get_avg_cost a + sum_list (map get_avg_cost picked) \<le> remaining * growth ^ Suc (length nodes)"
    by (simp only: left_diff_distrib)
  have each: "\<forall>i < length (node # nodes). (a # picked) ! i \<in> set agents
      \<and> has_capability (dn_capability ((node # nodes) ! i)) ((a # picked) ! i)"
    using p(3) c(3,4) by (auto simp: nth_Cons split: nat.splits)
  show ?case
    by (rule exI[of _ "a # picked"]) (use p(1,2) sum each in simp)
qed simp

text \<open>The assignment of a graph covers every node once, in dependency order, with an agent that has
  the node's capability, and the agents' average costs add up to at most the budget, up to the
  rounding of one subtraction per node.\<close>

theorem select_agents_for_dag_within_budget:
  assumes "distinct (map dn_id ns)" and "make_dag ns = Inr d"
    and "\<forall>a \<in> set agents. 0 \<le> get_avg_cost a"
    and "select_agents_for_dag agents d budget = Inr (assignments, d')"
  shows "\<exists>order picked. topological_sort d = Inr order \<and> assignments = zip (map dn_id order) picked
    \<and> length picked = length ns
    \<and> (\<forall>i < length ns. picked ! i \<in> set agents \<and> has_capability (dn_capability (order ! i)) (picked ! i))
    \<and> sum_list (map get_avg_cost picked) \<le> budget * growth ^ length ns"
proof -
  from assms(4) obtain order where o: "topological_sort d = Inr order" "assign_nodes agents order budget d [] = Inr (assignments, d')"
    by (auto simp: select_agents_for_dag_def bindE_Inr_conv mapErr_Inr_conv)
  have s: "distinct order" "set order = set ns" using topological_sort_spec[OF assms(1,2)] o(1) by auto
  have "distinct ns" using assms(1) by (simp add: distinct_map)
  then have len: "length order = length ns" using s by (metis distinct_card)
  have "ns \<noteq> []" using assms(1,2) make_dag_nonempty by blast
  with assign_nodes_spec[OF o(2) assms(3)] len o(1) show ?thesis by auto
qed

section \<open>A concrete assignment\<close>

definition demo_agent :: agent_row where
  "demo_agent = \<lparr>ag_id = 7, ag_status = AgActive, ag_capabilities = Some [''search''], ag_trust_score = 1,
     ag_avg_cost = Some 2, ag_p95_ms = None\<rparr>"

lemma demo_select: "2 \<le> b \<Longrightarrow> select_agent [demo_agent] ''search'' (Some b) [] = Inr demo_agent"
proof -
  assume "2 \<le> b"
  then have "candidates [demo_agent] ''search'' (Some b) [] = [demo_agent]"
    by (simp add: candidates_def has_capability_def get_avg_cost_def demo_agent_def)
  then show ?thesis by (simp add: select_agent_def sort_desc_def)
qed

theorem select_agent_optimal_witness:
  "select_agent [demo_agent] ''search'' (Some 10) [] = Inr demo_agent \<and> eligible [demo_agent] ''search'' (Some 10) [] demo_agent"
  using select_agent_optimal[where agents = "[demo_agent]" and cap = "''search''" and budget = "Some 10" and excluded = "[]"]
    demo_select[of 10] by simp

theorem select_agents_for_dag_within_budget_witness:
  "\<exists>assignments d'. select_agents_for_dag [demo_agent] (raw_dag demo_nodes) 10 = Inr (assignments, d')
     \<and> (\<exists>picked. length picked = 2 \<and> sum_list (map get_avg_cost picked) \<le> 10 * growth ^ 2)"
proof -
  obtain order where o: "topological_sort (raw_dag demo_nodes) = Inr order" "set order = set demo_nodes" "distinct order"
    using topological_sort_spec[OF demo_nodes_facts(1) demo_dag] by blast
  have "distinct demo_nodes" using demo_nodes_facts(1) by (simp add: distinct_map)
  then have "length order = 2" using o(2,3) demo_nodes_facts(3) by (metis distinct_card)
  then obtain a b where ab: "order = [a, b]" by (auto simp: length_Suc_conv numeral_2_eq_2)
  have cap: "dn_capability n = ''search''" if "n \<in> set demo_nodes" for n
    using that by (auto simp: demo_nodes_def demo_node_def)
  have caps: "dn_capability a = ''search''" "dn_capability b = ''search''" using cap o(2) ab by auto
  have cost: "get_avg_cost demo_agent = 2" by (simp add: get_avg_cost_def demo_agent_def)
  have d: "py_double 8 = 8" "py_double 6 = 6" by (simp_all add: py_double_int)
  obtain res d' where run: "select_agents_for_dag [demo_agent] (raw_dag demo_nodes) 10 = Inr (res, d')"
    using o(1) ab caps by (simp add: select_agents_for_dag_def demo_select cost d)
  show ?thesis
    using select_agents_for_dag_within_budget[OF demo_nodes_facts(1) demo_dag _ run] run demo_nodes_facts(3) cost by auto
qed

end
