(* ===== verification/Trust.thy ===== *)
theory Trust
  imports Selector Py_Number
begin

text \<open>
  Models \<^verbatim>\<open>backend/app/services/trust_service.py\<close> and \<^verbatim>\<open>backend/app/models/trust.py\<close>: how an agent's
  trust score is updated, decays and is reported.

  Times are microseconds, \<open>now\<close> of the application's clock, \<open>created\<close> of the database's. \<open>math.log\<close> and \<open>math.pow\<close> of the C library, the average of the database and the
  set of rows another transaction has locked are parameters; rows with equal timestamps are read newest
  first. Log lines and the event stream are left out.
\<close>

section \<open>State\<close>

record rated_agent = agent_row +
  ra_name :: string
  ra_safety :: int

record trust_scores =
  tg_quality :: rat
  tg_latency :: rat
  tg_cost :: rat
  tg_consistency :: rat
  tg_reliability :: rat

record trust_event =
  tv_agent :: uuid
  tv_workflow :: "uuid option"
  tv_task :: "uuid option"
  tv_scores :: trust_scores
  tv_composite :: rat
  tv_old :: rat
  tv_new :: rat
  tv_created :: int

record trust_db =
  tb_agents :: "rated_agent list"
  tb_events :: "trust_event list"

text \<open>The settings, the C library, the average of a column and the rows \<open>SKIP LOCKED\<close> passes over.\<close>

record trust_env =
  tu_weights :: trust_scores
  tu_learning_rate :: rat
  tu_decay_rate :: rat
  tu_decay_interval :: int
  tu_log :: "rat \<Rightarrow> rat"
  tu_pow :: "rat \<Rightarrow> rat \<Rightarrow> rat"
  tu_avg :: "rat list \<Rightarrow> rat"
  tu_locked :: "uuid \<Rightarrow> bool"

datatype trust_error = TrustAgentNotFound uuid

definition trust_floor :: rat where "trust_floor = py_double (1 / 100)"
definition trust_ceiling :: rat where "trust_ceiling = py_double (99 / 100)"
definition consistency_window :: nat where "consistency_window = 20"
definition reliability_alpha :: nat where "reliability_alpha = 2"
definition reliability_beta :: nat where "reliability_beta = 2"

definition find_rated :: "rated_agent list \<Rightarrow> uuid \<Rightarrow> trust_error + rated_agent" where
  "find_rated agents i = (case List.find (\<lambda>a. ag_id a = i) agents of None \<Rightarrow> Inl (TrustAgentNotFound i) | Some a \<Rightarrow> Inr a)"

definition set_trust :: "uuid \<Rightarrow> rat \<Rightarrow> rated_agent list \<Rightarrow> rated_agent list" where
  "set_trust i v agents = map (\<lambda>a. if ag_id a = i then a\<lparr>ag_trust_score := v\<rparr> else a) agents"

definition events_of :: "trust_db \<Rightarrow> uuid \<Rightarrow> trust_event list" where
  "events_of db i = filter (\<lambda>e. tv_agent e = i) (tb_events db)"

definition newest_first :: "trust_event list \<Rightarrow> trust_event list" where
  "newest_first es = sort_key (\<lambda>e. - tv_created e) (rev es)"

section \<open>The update\<close>

definition composite_score :: "trust_scores \<Rightarrow> trust_scores \<Rightarrow> rat" where
  "composite_score w s =
     py_double (py_double (py_double (py_double (
       py_double (tg_quality w * tg_quality s) + py_double (tg_latency w * tg_latency s))
       + py_double (tg_cost w * tg_cost s)) + py_double (tg_consistency w * tg_consistency s))
       + py_double (tg_reliability w * tg_reliability s))"

definition count_interactions :: "trust_db \<Rightarrow> uuid \<Rightarrow> nat" where
  "count_interactions db i = length (events_of db i)"

definition hours_since_last_event :: "trust_db \<Rightarrow> uuid \<Rightarrow> int \<Rightarrow> rat" where
  "hours_since_last_event db i now =
     (case map tv_created (events_of db i) of
        [] \<Rightarrow> 0
      | t # ts \<Rightarrow> py_double (py_double (of_int (now - foldl max t ts) / 10 ^ 6) / 3600))"

definition decay_factor :: "trust_env \<Rightarrow> rat \<Rightarrow> rat" where
  "decay_factor E hours = tu_pow E (py_double (1 - tu_decay_rate E)) (py_double (hours / of_int (max (tu_decay_interval E) 1)))"

definition learning_rate :: "trust_env \<Rightarrow> nat \<Rightarrow> rat" where
  "learning_rate E n = py_double (tu_learning_rate E / py_double (1 + tu_log E (py_double (1 + of_nat n))))"

definition clamp_trust :: "rat \<Rightarrow> rat" where
  "clamp_trust x = max trust_floor (min trust_ceiling x)"

text \<open>From the old score, the number of events, the hours since the last one and the composite score.\<close>

definition updated_trust :: "trust_env \<Rightarrow> rat \<Rightarrow> nat \<Rightarrow> rat \<Rightarrow> rat \<Rightarrow> rat" where
  "updated_trust E old n hours composite =
     (let alpha = learning_rate E n; decayed = py_double (old * decay_factor E hours)
      in clamp_trust (py_double (py_double (py_double (1 - alpha) * decayed) + py_double (alpha * composite))))"

definition record_trust_event ::
  "trust_env \<Rightarrow> uuid \<Rightarrow> trust_scores \<Rightarrow> uuid option \<Rightarrow> uuid option \<Rightarrow> int \<Rightarrow> int \<Rightarrow> trust_db \<Rightarrow> trust_error + trust_event \<times> trust_db" where
  "record_trust_event E i s workflow task now created db =
     bindE (find_rated (tb_agents db) i) (\<lambda>a.
       let composite = composite_score (tu_weights E) s;
           new = updated_trust E (ag_trust_score a) (count_interactions db i) (hours_since_last_event db i now) composite;
           event = \<lparr>tv_agent = i, tv_workflow = workflow, tv_task = task, tv_scores = s, tv_composite = composite,
                    tv_old = ag_trust_score a, tv_new = new, tv_created = created\<rparr>
       in Inr (event, db\<lparr>tb_agents := set_trust i new (tb_agents db), tb_events := tb_events db @ [event]\<rparr>))"

section \<open>Decay in the background\<close>

definition decay_one :: "trust_env \<Rightarrow> trust_db \<Rightarrow> int \<Rightarrow> rated_agent \<Rightarrow> rat option" where
  "decay_one E db now a =
     (let hours = hours_since_last_event db (ag_id a) now in
      if hours < of_int (tu_decay_interval E) then None
      else let new = max trust_floor (py_double (ag_trust_score a * decay_factor E hours))
           in if py_double (1 / 10000) < \<bar>py_double (new - ag_trust_score a)\<bar> then Some new else None)"

definition decays :: "trust_env \<Rightarrow> rated_agent \<Rightarrow> bool" where
  "decays E a \<longleftrightarrow> ag_status a \<in> {AgActive, AgDegraded} \<and> \<not> tu_locked E (ag_id a)"

definition decay_all_scores :: "trust_env \<Rightarrow> int \<Rightarrow> trust_db \<Rightarrow> nat \<times> trust_db" where
  "decay_all_scores E now db =
     (length (filter (\<lambda>a. decays E a \<and> decay_one E db now a \<noteq> None) (tb_agents db)),
      db\<lparr>tb_agents := map (\<lambda>a. if decays E a
                               then case decay_one E db now a of None \<Rightarrow> a | Some v \<Rightarrow> a\<lparr>ag_trust_score := v\<rparr>
                               else a) (tb_agents db)\<rparr>)"

section \<open>Reports\<close>

text \<open>\<open>statistics.mean\<close> and \<open>statistics.stdev\<close>: exact sums, and a square root rounded once.\<close>

definition mean_exact :: "rat list \<Rightarrow> rat" where
  "mean_exact xs = sum_list xs / of_nat (length xs)"

definition py_mean :: "rat list \<Rightarrow> rat" where
  "py_mean xs = py_double (mean_exact xs)"

definition py_stdev :: "rat list \<Rightarrow> rat" where
  "py_stdev xs = py_sqrt (sum_list (map (\<lambda>x. (x - mean_exact xs) ^ 2) xs) / of_nat (length xs - 1))"

definition compute_consistency_score :: "trust_db \<Rightarrow> uuid \<Rightarrow> rat" where
  "compute_consistency_score db i =
     (let scores = map (tg_quality \<circ> tv_scores) (take consistency_window (newest_first (events_of db i))) in
      if length scores < 2 then 1 / 2
      else if py_mean scores = 0 then 1 / 2
      else max 0 (min 1 (py_double (1 - py_double (min (py_double (py_stdev scores / py_mean scores)) 2 / 2)))))"

definition compute_reliability_score :: "trust_db \<Rightarrow> uuid \<Rightarrow> rat" where
  "compute_reliability_score db i =
     (let n = length (events_of db i); successes = length (filter (\<lambda>e. 1 / 2 < tg_quality (tv_scores e)) (events_of db i))
      in max 0 (min 1 (py_double (of_nat (successes + reliability_alpha) / of_nat (n + reliability_alpha + reliability_beta)))))"

record trust_breakdown =
  bk_agent :: uuid
  bk_current :: rat
  bk_averages :: trust_scores
  bk_total :: nat
  bk_last :: "int option"

definition avg_or_zero :: "trust_env \<Rightarrow> rat list \<Rightarrow> rat" where
  "avg_or_zero E xs = (if xs = [] then 0 else tu_avg E xs)"

definition get_trust_breakdown :: "trust_env \<Rightarrow> trust_db \<Rightarrow> uuid \<Rightarrow> trust_error + trust_breakdown" where
  "get_trust_breakdown E db i =
     bindE (find_rated (tb_agents db) i) (\<lambda>a.
       let es = events_of db i; avg = (\<lambda>f. avg_or_zero E (map (f \<circ> tv_scores) es)) in
       Inr \<lparr>bk_agent = i, bk_current = ag_trust_score a,
            bk_averages = \<lparr>tg_quality = avg tg_quality, tg_latency = avg tg_latency, tg_cost = avg tg_cost,
              tg_consistency = avg tg_consistency, tg_reliability = avg tg_reliability\<rparr>,
            bk_total = length es,
            bk_last = (case map tv_created es of [] \<Rightarrow> None | t # ts \<Rightarrow> Some (foldl max t ts))\<rparr>)"

text \<open>A page of a list: its rows, and how many there are in all.\<close>

definition page_of :: "nat \<Rightarrow> nat \<Rightarrow> 'a list \<Rightarrow> 'a list \<times> nat" where
  "page_of page page_size xs = (take page_size (drop ((page - 1) * page_size) xs), length xs)"

definition get_trust_history :: "trust_db \<Rightarrow> uuid \<Rightarrow> nat \<Rightarrow> nat \<Rightarrow> int option \<Rightarrow> trust_error + trust_event list \<times> nat" where
  "get_trust_history db i page page_size since =
     bindE (find_rated (tb_agents db) i) (\<lambda>a.
       Inr (page_of page page_size
         (newest_first (filter (\<lambda>e. case since of None \<Rightarrow> True | Some t \<Rightarrow> t \<le> tv_created e) (events_of db i)))))"

record trust_summary =
  tz_agent :: uuid
  tz_name :: string
  tz_score :: rat
  tz_total :: nat
  tz_trend :: rat
  tz_rank :: nat

definition get_leaderboard :: "trust_env \<Rightarrow> nat \<Rightarrow> string list \<Rightarrow> trust_db \<Rightarrow> trust_summary list" where
  "get_leaderboard E limit capability_filter db =
     (let rows = take limit (sort_key (\<lambda>a. - ag_trust_score a)
            (filter (\<lambda>a. ag_status a \<in> {AgActive, AgDegraded} \<and> (\<forall>cap \<in> set capability_filter. has_capability cap (agent_row.truncate a)))
              (tb_agents db)))
      in map (\<lambda>(rank, a).
           let es = events_of db (ag_id a); recent = avg_or_zero E (map tv_composite es) in
           \<lparr>tz_agent = ag_id a, tz_name = ra_name a, tz_score = ag_trust_score a, tz_total = length es,
            tz_trend = py_round (py_double (ag_trust_score a - (if recent = 0 then ag_trust_score a else recent))) 4, tz_rank = rank\<rparr>)
         (zip [1..<length rows + 1] rows))"

section \<open>What the score guarantees\<close>

text \<open>What is relied on of the C library: a power of a base in [0, 1] with a nonnegative exponent is in [0, 1],
  and the logarithm of a number of at least 1 is not negative.\<close>

definition libm_ok :: "trust_env \<Rightarrow> bool" where
  "libm_ok E \<longleftrightarrow> (\<forall>x y. 0 \<le> x \<and> x \<le> 1 \<and> 0 \<le> y \<longrightarrow> 0 \<le> tu_pow E x y \<and> tu_pow E x y \<le> 1) \<and> (\<forall>x. 1 \<le> x \<longrightarrow> 0 \<le> tu_log E x)"

definition settings_ok :: "trust_env \<Rightarrow> bool" where
  "settings_ok E \<longleftrightarrow> 0 \<le> tu_decay_rate E \<and> tu_decay_rate E \<le> 1 \<and> 0 \<le> tu_decay_interval E
     \<and> 0 \<le> tu_learning_rate E \<and> tu_learning_rate E \<le> 1
     \<and> (\<forall>f \<in> {tg_quality, tg_latency, tg_cost, tg_consistency, tg_reliability}. 0 \<le> f (tu_weights E))"

lemma decay_factor_unit:
  assumes "libm_ok E" and "settings_ok E" and "0 \<le> hours"
  shows "0 \<le> decay_factor E hours \<and> decay_factor E hours \<le> 1"
proof -
  have "0 \<le> 1 - tu_decay_rate E" "1 - tu_decay_rate E \<le> 1" using assms(2) by (simp_all add: settings_ok_def)
  from py_double_unit[OF this] have "0 \<le> py_double (1 - tu_decay_rate E)" "py_double (1 - tu_decay_rate E) \<le> 1" by simp_all
  moreover have "0 \<le> py_double (hours / of_int (max (tu_decay_interval E) 1))" using assms(3) by simp
  ultimately show ?thesis using assms(1) by (simp add: libm_ok_def decay_factor_def)
qed

lemma trust_bounds: "0 \<le> trust_floor" "trust_floor \<le> trust_ceiling" "py_double trust_ceiling = trust_ceiling" "trust_ceiling \<le> 1"
  using py_double_mono[of "1 / 100" "99 / 100"] py_double_unit[of "99 / 100"] by (simp_all add: trust_floor_def trust_ceiling_def)

lemma clamp_trust_bounds: "trust_floor \<le> clamp_trust x \<and> clamp_trust x \<le> trust_ceiling"
  using trust_bounds(2) by (simp add: clamp_trust_def)

text \<open>Every score is within the bounds.\<close>

definition trust_bounded :: "trust_db \<Rightarrow> bool" where
  "trust_bounded db \<longleftrightarrow> (\<forall>a \<in> set (tb_agents db). trust_floor \<le> ag_trust_score a \<and> ag_trust_score a \<le> trust_ceiling)"

text \<open>The operations that write scores, with what they are called with.\<close>

datatype trust_op = RecordTrust uuid trust_scores "uuid option" "uuid option" int int | DecayTrust int

fun trust_step :: "trust_env \<Rightarrow> trust_db \<Rightarrow> trust_op \<Rightarrow> trust_db" where
  "trust_step E db (RecordTrust i s w t now created) =
     (case record_trust_event E i s w t now created db of Inl _ \<Rightarrow> db | Inr (_, db') \<Rightarrow> db')"
| "trust_step E db (DecayTrust now) = snd (decay_all_scores E now db)"

lemma record_bounded:
  assumes "trust_bounded db" and "record_trust_event E i s w t now created db = Inr (e, db')"
  shows "trust_bounded db'"
  using assms clamp_trust_bounds
  by (auto simp: record_trust_event_def bindE_Inr_conv trust_bounded_def set_trust_def updated_trust_def Let_def)

lemma decay_one_bounded:
  assumes "libm_ok E" and "settings_ok E" and "trust_floor \<le> ag_trust_score a" and "ag_trust_score a \<le> trust_ceiling"
    and "decay_one E db now a = Some v"
  shows "trust_floor \<le> v \<and> v \<le> trust_ceiling \<and> v \<le> max trust_floor (py_double (ag_trust_score a))"
proof -
  let ?h = "hours_since_last_event db (ag_id a) now"
  have v: "v = max trust_floor (py_double (ag_trust_score a * decay_factor E ?h))" and h: "\<not> ?h < of_int (tu_decay_interval E)"
    using assms(5) by (auto simp: decay_one_def Let_def split: if_splits)
  have "0 \<le> tu_decay_interval E" using assms(2) by (simp add: settings_ok_def)
  then have "(0::rat) \<le> of_int (tu_decay_interval E)" by simp
  with h have "0 \<le> ?h" by linarith
  then have "0 \<le> decay_factor E ?h" "decay_factor E ?h \<le> 1" using decay_factor_unit[OF assms(1,2)] by simp_all
  then have "ag_trust_score a * decay_factor E ?h \<le> ag_trust_score a"
    using assms(3) trust_bounds(1) by (intro mult_left_le) simp_all
  then have le: "py_double (ag_trust_score a * decay_factor E ?h) \<le> py_double (ag_trust_score a)" by (rule py_double_mono)
  have "py_double (ag_trust_score a) \<le> trust_ceiling" using py_double_mono[OF assms(4)] trust_bounds(3) by simp
  with le v trust_bounds(2) show ?thesis by simp
qed

lemma decay_bounded:
  assumes "libm_ok E" and "settings_ok E" and "trust_bounded db"
  shows "trust_bounded (snd (decay_all_scores E now db))"
  unfolding trust_bounded_def
proof
  fix b assume "b \<in> set (tb_agents (snd (decay_all_scores E now db)))"
  then obtain a where a: "a \<in> set (tb_agents db)" "b = (if decays E a
      then case decay_one E db now a of None \<Rightarrow> a | Some v \<Rightarrow> a\<lparr>ag_trust_score := v\<rparr> else a)"
    by (auto simp: decay_all_scores_def)
  with assms(3) have "trust_floor \<le> ag_trust_score a" "ag_trust_score a \<le> trust_ceiling" by (auto simp: trust_bounded_def)
  note bounds = this
  have "trust_floor \<le> v \<and> v \<le> trust_ceiling" if "decay_one E db now a = Some v" for v
    using decay_one_bounded[OF assms(1,2) bounds that] by blast
  with a(2) bounds show "trust_floor \<le> ag_trust_score b \<and> ag_trust_score b \<le> trust_ceiling"
    by (cases "decay_one E db now a") simp_all
qed

text \<open>C29. An agent is never fully trusted nor fully distrusted: whatever is recorded, with whatever clock
  readings, and however often the background decay runs, every trust score stays between 0.01 and 0.99.\<close>

theorem trust_stays_bounded:
  assumes "libm_ok E" and "settings_ok E" and "trust_bounded db"
  shows "trust_bounded (foldl (trust_step E) db ops)"
  using assms(3)
proof (induction ops arbitrary: db)
  case (Cons op ops)
  have "trust_bounded (trust_step E db op)"
    using Cons.prems record_bounded decay_bounded[OF assms(1,2)]
    by (cases op) (auto split: sum.splits)
  with Cons.IH show ?case by simp
qed simp

section \<open>Better scores\<close>

lemma composite_mono:
  assumes "\<forall>f \<in> {tg_quality, tg_latency, tg_cost, tg_consistency, tg_reliability}. 0 \<le> f w \<and> f s \<le> f s'"
  shows "composite_score w s \<le> composite_score w s'"
  unfolding composite_score_def by (intro py_double_mono add_mono mult_left_mono) (use assms in simp_all)

lemma learning_rate_unit:
  assumes "libm_ok E" and "settings_ok E"
  shows "0 \<le> learning_rate E n \<and> learning_rate E n \<le> 1"
proof -
  have "(1::rat) = py_double (of_int 1)" using py_double_int[of 1] by simp
  also have "\<dots> \<le> py_double (1 + of_nat n)" by (rule py_double_mono) simp
  finally have "0 \<le> tu_log E (py_double (1 + of_nat n))" using assms(1) by (simp add: libm_ok_def)
  then have "py_double 1 \<le> py_double (1 + tu_log E (py_double (1 + of_nat n)))" by (intro py_double_mono) simp
  moreover have "py_double (1::rat) = 1" using py_double_int[of 1] by simp
  ultimately have d: "1 \<le> py_double (1 + tu_log E (py_double (1 + of_nat n)))" by simp
  have "0 \<le> tu_learning_rate E" "tu_learning_rate E \<le> 1" using assms(2) by (simp_all add: settings_ok_def)
  with d have "0 \<le> tu_learning_rate E / py_double (1 + tu_log E (py_double (1 + of_nat n)))"
    "tu_learning_rate E / py_double (1 + tu_log E (py_double (1 + of_nat n))) \<le> 1" by (simp_all add: divide_le_eq)
  from py_double_unit[OF this] show ?thesis by (simp add: learning_rate_def)
qed

lemma updated_trust_mono:
  assumes "libm_ok E" and "settings_ok E" and "0 \<le> hours" and "old \<le> old'" and "c \<le> c'"
  shows "updated_trust E old n hours c \<le> updated_trust E old' n hours c'"
proof -
  note a = learning_rate_unit[OF assms(1,2), of n] and d = decay_factor_unit[OF assms(1-3)]
  have "py_double (old * decay_factor E hours) \<le> py_double (old' * decay_factor E hours)"
    using assms(4) d by (intro py_double_mono mult_right_mono) simp_all
  moreover have "0 \<le> py_double (1 - learning_rate E n)" using a by simp
  ultimately have "py_double (py_double (1 - learning_rate E n) * py_double (old * decay_factor E hours))
      \<le> py_double (py_double (1 - learning_rate E n) * py_double (old' * decay_factor E hours))"
    by (rule py_double_mono[OF mult_left_mono])
  moreover have "py_double (learning_rate E n * c) \<le> py_double (learning_rate E n * c')"
    using a assms(5) by (intro py_double_mono mult_left_mono) simp_all
  ultimately have "py_double (py_double (py_double (1 - learning_rate E n) * py_double (old * decay_factor E hours)) + py_double (learning_rate E n * c))
      \<le> py_double (py_double (py_double (1 - learning_rate E n) * py_double (old' * decay_factor E hours)) + py_double (learning_rate E n * c'))"
    by (rule py_double_mono[OF add_mono])
  then show ?thesis by (auto simp: updated_trust_def clamp_trust_def Let_def intro: max.mono min.mono)
qed

text \<open>Better work never lowers trust: of two outcomes recorded for the same agent at the same moment, the one
  that is at least as good in every dimension leaves the agent at least as trusted, rounding included.\<close>

theorem better_scores_more_trust:
  assumes "libm_ok E" and "settings_ok E" and "0 \<le> hours_since_last_event db i now"
    and "\<forall>f \<in> {tg_quality, tg_latency, tg_cost, tg_consistency, tg_reliability}. f s \<le> f s'"
    and "record_trust_event E i s w t now created db = Inr (e, db1)"
    and "record_trust_event E i s' w t now created db = Inr (e', db2)"
  shows "tv_new e \<le> tv_new e' \<and> tv_old e = tv_old e'"
proof -
  have "composite_score (tu_weights E) s \<le> composite_score (tu_weights E) s'"
    using assms(2,4) by (intro composite_mono) (auto simp: settings_ok_def)
  from updated_trust_mono[OF assms(1-3) order_refl this] assms(5,6) show ?thesis
    by (auto simp: record_trust_event_def bindE_Inr_conv Let_def)
qed

section \<open>Decay is not what the formula says\<close>

text \<open>The background decay compounds: each run multiplies the score that earlier runs already lowered by the
  factor for all the hours since the last event. So a second run for the same idle period leaves an
  agent with less than the formula gives for that period, which one run alone computes.\<close>

theorem decay_compounds:
  assumes "libm_ok E" and "settings_ok E" and "trust_floor \<le> ag_trust_score a" and "ag_trust_score a \<le> trust_ceiling"
    and "decay_one E db t1 a = Some v1"
    and "decay_one E (snd (decay_all_scores E t1 db)) t2 (a\<lparr>ag_trust_score := v1\<rparr>) = Some v2"
    and "decay_one E db t2 a = Some v" and "py_double (ag_trust_score a) = ag_trust_score a"
  shows "v2 = max trust_floor (py_double (max trust_floor (py_double (ag_trust_score a
             * decay_factor E (hours_since_last_event db (ag_id a) t1)))
             * decay_factor E (hours_since_last_event db (ag_id a) t2)))
    \<and> v = max trust_floor (py_double (ag_trust_score a * decay_factor E (hours_since_last_event db (ag_id a) t2)))
    \<and> v2 \<le> v"
proof -
  let ?h2 = "hours_since_last_event db (ag_id a) t2"
  have same: "hours_since_last_event (snd (decay_all_scores E t1 db)) i t = hours_since_last_event db i t" for i t
    by (simp add: hours_since_last_event_def events_of_def decay_all_scores_def)
  have v1: "v1 = max trust_floor (py_double (ag_trust_score a * decay_factor E (hours_since_last_event db (ag_id a) t1)))"
    using assms(5) by (auto simp: decay_one_def Let_def split: if_splits)
  have v2: "v2 = max trust_floor (py_double (v1 * decay_factor E ?h2))"
    using assms(6) same by (auto simp: decay_one_def Let_def split: if_splits)
  have v: "v = max trust_floor (py_double (ag_trust_score a * decay_factor E ?h2))" "\<not> ?h2 < of_int (tu_decay_interval E)"
    using assms(7) by (auto simp: decay_one_def Let_def split: if_splits)
  have "0 \<le> tu_decay_interval E" using assms(2) by (simp add: settings_ok_def)
  then have "(0::rat) \<le> of_int (tu_decay_interval E)" by simp
  with v(2) have h2: "0 \<le> ?h2" by linarith
  have "v1 \<le> ag_trust_score a" using decay_one_bounded[OF assms(1-5)] assms(3,8) by simp
  then have "v1 * decay_factor E ?h2 \<le> ag_trust_score a * decay_factor E ?h2"
    using decay_factor_unit[OF assms(1,2) h2] by (intro mult_right_mono) simp_all
  from py_double_mono[OF this] v2 v(1) have "v2 \<le> v" by simp
  with v1 v2 v(1) show ?thesis by simp
qed

section \<open>At a concrete agent\<close>

definition demo_weights :: trust_scores where
  "demo_weights = \<lparr>tg_quality = 1, tg_latency = 0, tg_cost = 0, tg_consistency = 0, tg_reliability = 0\<rparr>"

definition demo_trust_env :: trust_env where
  "demo_trust_env = \<lparr>tu_weights = demo_weights, tu_learning_rate = 1 / 2, tu_decay_rate = 1 / 2, tu_decay_interval = 24,
     tu_log = (\<lambda>_. 0), tu_pow = (\<lambda>x y. x ^ nat \<lfloor>y\<rfloor>), tu_avg = mean_exact, tu_locked = (\<lambda>_. False)\<rparr>"

definition demo_rated :: "rat \<Rightarrow> rated_agent" where
  "demo_rated score = \<lparr>ag_id = 7, ag_status = AgActive, ag_capabilities = None, ag_trust_score = score, ag_avg_cost = None,
     ag_p95_ms = None, ra_name = ''a'', ra_safety = 1\<rparr>"

definition demo_trust_db :: trust_db where
  "demo_trust_db = \<lparr>tb_agents = [demo_rated (1 / 2)], tb_events = [\<lparr>tv_agent = 7, tv_workflow = None, tv_task = None,
     tv_scores = demo_weights, tv_composite = 1, tv_old = 1 / 2, tv_new = 1 / 2, tv_created = 0\<rparr>]\<rparr>"

lemma demo_trust_ok: "libm_ok demo_trust_env" "settings_ok demo_trust_env"
  by (auto simp: libm_ok_def settings_ok_def demo_trust_env_def demo_weights_def intro: power_le_one)

lemma half_bounded: "trust_floor \<le> 1 / 2" "1 / 2 \<le> trust_ceiling" "trust_floor \<le> 1 / 16" "py_double (1 / 2) = 1 / 2"
  using py_double_le_dyadic[of "1 / 100" 1 4] py_double_ge_dyadic[of 1 1 "99 / 100"] py_double_dyadic[of 1 1]
  by (simp_all add: trust_floor_def trust_ceiling_def)

lemma demo_bounded: "trust_bounded demo_trust_db"
  using half_bounded by (simp add: trust_bounded_def demo_trust_db_def demo_rated_def)

lemma demo_hours: "hours_since_last_event demo_trust_db 7 (d * 86400 * 10 ^ 6) = of_int (d * 24)" if "0 \<le> d" "d < 1000"
proof -
  have "\<bar>of_int (d * 86400) :: rat\<bar> < 2 ^ 53" "\<bar>of_int (d * 24) :: rat\<bar> < 2 ^ 53" using that by simp_all
  with py_double_int[of "of_int (d * 86400)"] py_double_int[of "of_int (d * 24)"] show ?thesis
    by (simp add: hours_since_last_event_def events_of_def demo_trust_db_def mult.commute)
qed

lemma demo_factor: "decay_factor demo_trust_env 24 = 1 / 2" "decay_factor demo_trust_env 48 = 1 / 4"
  by (simp_all add: decay_factor_def demo_trust_env_def half_bounded(4) py_double_int power2_eq_square)

lemma demo_decays:
  assumes "hours_since_last_event db 7 t = h" "24 \<le> h" "decay_factor demo_trust_env h = f"
    "p = q * f" "py_double p = p" "1 / 16 \<le> p" "1 / 16 \<le> q - p"
  shows "decay_one demo_trust_env db t (demo_rated q) = Some p"
proof -
  have "1 / 16 \<le> py_double (q - p)" using assms(7) py_double_ge_dyadic[of 1 4] by simp
  then have "1 / 16 \<le> \<bar>py_double (p - q)\<bar>" using py_double_minus[of "q - p"] by simp
  moreover have "max trust_floor p = p" using assms(6) half_bounded(3) by simp
  moreover have "py_double (1 / 10000) \<le> 1 / 1024" using py_double_le_dyadic[of "1 / 10000" 1 10] by simp
  moreover have "ag_id (demo_rated q) = 7" "ag_trust_score (demo_rated q) = q" "tu_decay_interval demo_trust_env = 24"
    by (simp_all add: demo_rated_def demo_trust_env_def)
  ultimately show ?thesis using assms(1-5) by (simp add: decay_one_def Let_def)
qed

text \<open>After one and two idle days a score of 1/2 should be 1/4 and then 1/8; the second run leaves 1/16.\<close>

theorem decay_compounds_witness:
  "decay_one demo_trust_env (snd (decay_all_scores demo_trust_env (86400 * 10 ^ 6) demo_trust_db)) (2 * 86400 * 10 ^ 6) (demo_rated (1 / 4))
     = Some (1 / 16)
   \<and> decay_one demo_trust_env demo_trust_db (2 * 86400 * 10 ^ 6) (demo_rated (1 / 2)) = Some (1 / 8) \<and> (1 / 16 :: rat) \<le> 1 / 8"
proof -
  let ?db = "snd (decay_all_scores demo_trust_env (86400 * 10 ^ 6) demo_trust_db)"
  have h: "hours_since_last_event demo_trust_db 7 (86400 * 10 ^ 6) = 24" "hours_since_last_event demo_trust_db 7 (2 * 86400 * 10 ^ 6) = 48"
    using demo_hours[of 1] demo_hours[of 2] by simp_all
  then have h': "hours_since_last_event ?db 7 (2 * 86400 * 10 ^ 6) = 48"
    by (simp add: hours_since_last_event_def events_of_def decay_all_scores_def)
  have d: "decay_one demo_trust_env demo_trust_db (86400 * 10 ^ 6) (demo_rated (1 / 2)) = Some (1 / 4)"
    "decay_one demo_trust_env ?db (2 * 86400 * 10 ^ 6) (demo_rated (1 / 4)) = Some (1 / 16)"
    "decay_one demo_trust_env demo_trust_db (2 * 86400 * 10 ^ 6) (demo_rated (1 / 2)) = Some (1 / 8)"
    by (rule demo_decays[OF h(1) _ demo_factor(1)] demo_decays[OF h' _ demo_factor(2)] demo_decays[OF h(2) _ demo_factor(2)];
        use py_double_dyadic[of 1 2] py_double_dyadic[of 1 4] py_double_dyadic[of 1 3] in simp)+
  have b: "trust_floor \<le> ag_trust_score (demo_rated (1 / 2))" "ag_trust_score (demo_rated (1 / 2)) \<le> trust_ceiling"
    "py_double (ag_trust_score (demo_rated (1 / 2))) = ag_trust_score (demo_rated (1 / 2))"
    using half_bounded by (simp_all add: demo_rated_def)
  have u: "(demo_rated (1 / 2))\<lparr>ag_trust_score := 1 / 4\<rparr> = demo_rated (1 / 4)" by (simp add: demo_rated_def)
  from decay_compounds[OF demo_trust_ok b(1,2) d(1) _ d(3) b(3), unfolded u, OF d(2)] d show ?thesis by simp
qed

theorem trust_stays_bounded_witness:
  "trust_bounded (foldl (trust_step demo_trust_env) demo_trust_db [RecordTrust 7 demo_weights None None 5 6, DecayTrust 7])"
  using trust_stays_bounded[OF demo_trust_ok demo_bounded] .

theorem better_scores_more_trust_witness:
  "\<exists>e e' db1 db2. record_trust_event demo_trust_env 7 (demo_weights\<lparr>tg_quality := 1 / 2\<rparr>) None None 0 0 demo_trust_db = Inr (e, db1)
     \<and> record_trust_event demo_trust_env 7 demo_weights None None 0 0 demo_trust_db = Inr (e', db2) \<and> tv_new e \<le> tv_new e'"
proof -
  have "find_rated (tb_agents demo_trust_db) 7 = Inr (demo_rated (1 / 2))"
    by (simp add: find_rated_def demo_trust_db_def demo_rated_def)
  then obtain e e' db1 db2 where
    r: "record_trust_event demo_trust_env 7 (demo_weights\<lparr>tg_quality := 1 / 2\<rparr>) None None 0 0 demo_trust_db = Inr (e, db1)"
      "record_trust_event demo_trust_env 7 demo_weights None None 0 0 demo_trust_db = Inr (e', db2)"
    by (simp add: record_trust_event_def Let_def)
  have "\<forall>f \<in> {tg_quality, tg_latency, tg_cost, tg_consistency, tg_reliability}. f (demo_weights\<lparr>tg_quality := 1 / 2\<rparr>) \<le> f demo_weights"
    by (simp add: demo_weights_def)
  from better_scores_more_trust[OF demo_trust_ok _ this r] demo_hours[of 0] r show ?thesis by auto
qed

end
