(* ===== verification/Regex.thy ===== *)
theory Regex
  imports Main
begin

text \<open>
  The regular expressions of the content screens as data, and Python's \<open>re\<close> on them: backtracking, so of
  the ways to match at a position the first in the order of preference counts. Greedy repetition prefers
  more rounds; a round that consumes nothing ends it. Texts are lists of code points.

  The classes \<open>\w\<close>, \<open>\s\<close> and \<open>\d\<close>, and the letters that \<open>IGNORECASE\<close> takes for each other, are given
  for ASCII; beyond it they are those of the Unicode database, a parameter.
\<close>

section \<open>Characters\<close>

record unicode =
  un_word :: "nat \<Rightarrow> bool"
  un_space :: "nat \<Rightarrow> bool"
  un_digit :: "nat \<Rightarrow> bool"
  un_fold :: "nat \<Rightarrow> nat"

definition ascii_lower :: "nat \<Rightarrow> nat" where
  "ascii_lower c = (if 65 \<le> c \<and> c \<le> 90 then c + 32 else c)"

definition fold_case :: "unicode \<Rightarrow> nat \<Rightarrow> nat" where
  "fold_case U c = (if c < 128 then ascii_lower c else un_fold U c)"

definition digit_cp :: "unicode \<Rightarrow> nat \<Rightarrow> bool" where
  "digit_cp U c \<longleftrightarrow> (if c < 128 then 48 \<le> c \<and> c \<le> 57 else un_digit U c)"

definition word_cp :: "unicode \<Rightarrow> nat \<Rightarrow> bool" where
  "word_cp U c \<longleftrightarrow> (if c < 128 then 48 \<le> c \<and> c \<le> 57 \<or> 65 \<le> c \<and> c \<le> 90 \<or> c = 95 \<or> 97 \<le> c \<and> c \<le> 122 else un_word U c)"

definition space_cp :: "unicode \<Rightarrow> nat \<Rightarrow> bool" where
  "space_cp U c \<longleftrightarrow> (if c < 128 then 9 \<le> c \<and> c \<le> 13 \<or> 28 \<le> c \<and> c \<le> 32 else un_space U c)"

section \<open>Expressions\<close>

datatype cls = Range nat nat | Digit | Word | Space

datatype regex =
    Chars bool "cls list"
  | Seq regex regex
  | Alt regex regex
  | Rep nat "nat option" regex
  | Empty
  | WordBoundary
  | LineStart

fun in_cls :: "unicode \<Rightarrow> nat \<Rightarrow> cls \<Rightarrow> bool" where
  "in_cls U c (Range lo hi) \<longleftrightarrow> lo \<le> c \<and> c \<le> hi"
| "in_cls U c Digit \<longleftrightarrow> digit_cp U c"
| "in_cls U c Word \<longleftrightarrow> word_cp U c"
| "in_cls U c Space \<longleftrightarrow> space_cp U c"

text \<open>A character against a set, \<open>neg\<close> for \<open>[^...]\<close>. With \<open>IGNORECASE\<close> the other letter case counts too.\<close>

definition swap_ascii :: "nat \<Rightarrow> nat" where
  "swap_ascii c = (if 65 \<le> c \<and> c \<le> 90 then c + 32 else if 97 \<le> c \<and> c \<le> 122 then c - 32 else c)"

definition char_in :: "unicode \<Rightarrow> bool \<Rightarrow> bool \<Rightarrow> cls list \<Rightarrow> nat \<Rightarrow> bool" where
  "char_in U ic neg cs c \<longleftrightarrow>
     (let hit = (\<lambda>d. list_ex (in_cls U d) cs) in
      (if ic then hit c \<or> hit (fold_case U c) \<or> hit (swap_ascii (fold_case U c)) else hit c) \<noteq> neg)"

text \<open>A position: the character before it, if any, and the text after it.\<close>

type_synonym pos = "nat option \<times> nat list"

definition at_word_boundary :: "unicode \<Rightarrow> pos \<Rightarrow> bool" where
  "at_word_boundary U = (\<lambda>(prev, rest).
     (case prev of None \<Rightarrow> False | Some c \<Rightarrow> word_cp U c) \<noteq> (case rest of [] \<Rightarrow> False | c # _ \<Rightarrow> word_cp U c))"

fun repeat :: "(pos \<Rightarrow> pos list) \<Rightarrow> nat \<Rightarrow> nat \<Rightarrow> nat option \<Rightarrow> pos \<Rightarrow> pos list" where
  "repeat step 0 lo hi p = (if lo = 0 then [p] else [])"
| "repeat step (Suc fuel) lo hi p =
     (if hi = Some 0 then []
      else concat (map (\<lambda>q. if length (snd q) < length (snd p) then repeat step fuel (lo - 1) (map_option (\<lambda>h. h - 1) hi) q else []) (step p)))
     @ (if lo = 0 then [p] else [])"

text \<open>The positions where a match that starts here can end, in the order of preference. Every round consumes, so as
  many rounds as there are characters left are enough.\<close>

fun ends :: "unicode \<Rightarrow> bool \<Rightarrow> regex \<Rightarrow> pos \<Rightarrow> pos list" where
  "ends U ic (Chars neg cs) (prev, rest) = (case rest of [] \<Rightarrow> [] | c # t \<Rightarrow> if char_in U ic neg cs c then [(Some c, t)] else [])"
| "ends U ic (Seq r s) p = concat (map (ends U ic s) (ends U ic r p))"
| "ends U ic (Alt r s) p = ends U ic r p @ ends U ic s p"
| "ends U ic (Rep lo hi r) p = repeat (ends U ic r) (length (snd p)) lo hi p"
| "ends U ic Empty p = [p]"
| "ends U ic WordBoundary p = (if at_word_boundary U p then [p] else [])"
| "ends U ic LineStart p = (case fst p of None \<Rightarrow> [p] | Some c \<Rightarrow> if c = 10 then [p] else [])"

text \<open>\<open>pattern.search(text)\<close> as a condition.\<close>

fun search_from :: "unicode \<Rightarrow> bool \<Rightarrow> regex \<Rightarrow> nat option \<Rightarrow> nat list \<Rightarrow> bool" where
  "search_from U ic r prev [] \<longleftrightarrow> ends U ic r (prev, []) \<noteq> []"
| "search_from U ic r prev (c # t) \<longleftrightarrow> ends U ic r (prev, c # t) \<noteq> [] \<or> search_from U ic r (Some c) t"

definition search :: "unicode \<Rightarrow> bool \<Rightarrow> regex \<Rightarrow> nat list \<Rightarrow> bool" where
  "search U ic r t \<longleftrightarrow> search_from U ic r None t"

text \<open>\<open>pattern.finditer(text)\<close>: the spans of the matches; \<open>skip\<close> characters still belong to the last one. An empty
  match cannot occur in the patterns it is used with.\<close>

fun spans_from :: "unicode \<Rightarrow> bool \<Rightarrow> regex \<Rightarrow> nat \<Rightarrow> nat \<Rightarrow> nat option \<Rightarrow> nat list \<Rightarrow> (nat \<times> nat) list" where
  "spans_from U ic r i skip prev [] = []"
| "spans_from U ic r i (Suc skip) prev (c # t) = spans_from U ic r (Suc i) skip (Some c) t"
| "spans_from U ic r i 0 prev (c # t) =
     (case ends U ic r (prev, c # t) of
        [] \<Rightarrow> spans_from U ic r (Suc i) 0 (Some c) t
      | (_, rest) # _ \<Rightarrow>
          let n = length (c # t) - length rest
          in (if n = 0 then [] else [(i, i + n)]) @ spans_from U ic r (Suc i) (n - 1) (Some c) t)"

definition spans :: "unicode \<Rightarrow> bool \<Rightarrow> regex \<Rightarrow> nat list \<Rightarrow> (nat \<times> nat) list" where
  "spans U ic r t = spans_from U ic r 0 0 None t"

section \<open>Building blocks\<close>

definition cps :: "string \<Rightarrow> nat list" where
  "cps s = map of_char s"

definition cp1 :: "nat \<Rightarrow> regex" where
  "cp1 c = Chars False [Range c c]"

fun seqs :: "regex list \<Rightarrow> regex" where
  "seqs [] = Empty"
| "seqs [r] = r"
| "seqs (r # rs) = Seq r (seqs rs)"

fun alts :: "regex list \<Rightarrow> regex" where
  "alts [] = Chars False []"
| "alts [r] = r"
| "alts (r # rs) = Alt r (alts rs)"

definition lit :: "string \<Rightarrow> regex" where
  "lit s = seqs (map cp1 (cps s))"

definition set_of :: "string \<Rightarrow> regex" where
  "set_of s = Chars False (map (\<lambda>c. Range c c) (cps s))"

definition opt :: "regex \<Rightarrow> regex" where "opt r = Rep 0 (Some 1) r"
definition star :: "regex \<Rightarrow> regex" where "star r = Rep 0 None r"
definition plus1 :: "regex \<Rightarrow> regex" where "plus1 r = Rep 1 None r"
definition exactly :: "nat \<Rightarrow> regex \<Rightarrow> regex" where "exactly n r = Rep n (Some n) r"
definition spaces :: regex where "spaces = star (Chars False [Space])"
definition spaces1 :: regex where "spaces1 = plus1 (Chars False [Space])"
definition digit_run :: "nat \<Rightarrow> regex" where "digit_run n = exactly n (Chars False [Digit])"

section \<open>Facts\<close>

text \<open>What is left never grows, so the spans of \<open>finditer\<close> lie in the text, in order, and do not overlap.\<close>

lemma repeat_shrinks:
  assumes "\<And>p q. q \<in> set (step p) \<Longrightarrow> length (snd q) \<le> length (snd p)"
  shows "q \<in> set (repeat step fuel lo hi p) \<Longrightarrow> length (snd q) \<le> length (snd p)"
proof (induction step fuel lo hi p rule: repeat.induct)
  case (2 step fuel lo hi p)
  then show ?case by (auto split: if_splits) fastforce
qed (auto split: if_splits)

lemma ends_shrink: "q \<in> set (ends U ic r p) \<Longrightarrow> length (snd q) \<le> length (snd p)"
proof (induction r arbitrary: p q)
  case (Chars neg cs)
  then show ?case by (cases p) (auto split: list.splits if_splits)
next
  case (Seq r s)
  from Seq.prems obtain m where "m \<in> set (ends U ic r p)" "q \<in> set (ends U ic s m)" by auto
  with Seq.IH show ?case using order_trans by blast
next
  case (Rep lo hi r)
  then show ?case using repeat_shrinks[of "ends U ic r"] by simp
qed (auto split: if_splits option.splits)

fun ordered_in :: "nat \<Rightarrow> nat \<Rightarrow> (nat \<times> nat) list \<Rightarrow> bool" where
  "ordered_in lo hi [] \<longleftrightarrow> True"
| "ordered_in lo hi ((a, b) # s) \<longleftrightarrow> lo \<le> a \<and> a < b \<and> b \<le> hi \<and> ordered_in b hi s"

lemma ordered_weaken: "ordered_in lo hi s \<Longrightarrow> lo' \<le> lo \<Longrightarrow> ordered_in lo' hi s"
  by (cases s) auto

lemma spans_from_ordered: "ordered_in (i + skip) (i + length t) (spans_from U ic r i skip prev t)"
proof (induction U ic r i skip prev t rule: spans_from.induct)
  case (2 U ic r i skip prev c t)
  then show ?case by simp
next
  case (3 U ic r i prev c t)
  show ?case
  proof (cases "ends U ic r (prev, c # t)")
    case Nil
    then show ?thesis using 3(1) by (auto intro: ordered_weaken)
  next
    case (Cons q qs)
    obtain d rest where q: "q = (d, rest)" by (cases q)
    define n where "n = length (c # t) - length rest"
    have fit: "length rest \<le> length (c # t)" using ends_shrink[of q U ic r "(prev, c # t)"] Cons q by simp
    then have n: "n \<le> Suc (length t)" by (simp add: n_def)
    have eq: "spans_from U ic r i 0 prev (c # t)
        = (if n = 0 then [] else [(i, i + n)]) @ spans_from U ic r (Suc i) (n - 1) (Some c) t"
      using Cons q by (simp add: n_def Let_def)
    have rest: "ordered_in (Suc i + (n - 1)) (Suc i + length t) (spans_from U ic r (Suc i) (n - 1) (Some c) t)"
      using 3(2)[OF Cons q[symmetric] refl] by (simp add: n_def)
    show ?thesis
    proof (cases "n = 0")
      case True
      with rest eq ordered_weaken[OF rest, of i] show ?thesis by simp
    next
      case False
      then have "Suc i + (n - 1) = i + n" by simp
      with rest eq n False show ?thesis by simp
    qed
  qed
qed simp

lemma spans_ordered: "ordered_in 0 (length t) (spans U ic r t)"
  using spans_from_ordered[of 0 0 t U ic r None] by (simp add: spans_def)

end
