(* ===== verification/Checkpoint.thy ===== *)
theory Checkpoint
  imports Dag Crdt_Store
begin

text \<open>
  Models \<open>DAG.to_dict\<close> and \<open>DAG.from_dict\<close> of \<^verbatim>\<open>backend/app/orchestration/dag.py\<close> and
  \<^verbatim>\<open>backend/app/orchestration/checkpoint.py\<close>: the stored form of a workflow graph, checkpoints, their
  payload, and saving and loading them through the content-addressed store.

  An exception of a decoder is \<open>None\<close> or the module's error; a field of another JSON type than the
  encoder writes is one. A creation time is its ISO text; the parameter \<open>C\<close> tells which texts
  \<open>fromisoformat\<close> reads and the text of the present time.
\<close>

section \<open>The stored graph\<close>

definition node_json :: "dag_node \<Rightarrow> json" where
  "node_json n = JObj
     [(''node_id'', JStr (dn_id n)), (''capability'', JStr (dn_capability n)), (''description'', JStr (dn_description n)),
      (''depends_on'', JArr (map JStr (dn_depends_on n))), (''estimated_complexity'', JStr (dn_complexity n)),
      (''assigned_agent_id'', json_opt_str (map_option str_uuid (dn_agent n))),
      (''task_id'', json_opt_str (map_option str_uuid (dn_task n))),
      (''status'', JStr (task_status_value (dn_status n))),
      (''output'', json_opt_str (dn_output n)), (''error'', json_opt_str (dn_error n))]"

definition dag_to_dict :: "dag \<Rightarrow> (string \<times> json) list" where
  "dag_to_dict d = [(''nodes'', JArr (map node_json (dag_nodes d)))]"

fun json_str :: "json \<Rightarrow> string option" where
  "json_str (JStr s) = Some s"
| "json_str _ = None"

fun maybe_str :: "json \<Rightarrow> string option option" where
  "maybe_str JNull = Some None"
| "maybe_str (JStr s) = Some (Some s)"
| "maybe_str _ = None"

fun json_strs :: "json \<Rightarrow> string list option" where
  "json_strs (JArr vs) = those (map json_str vs)"
| "json_strs _ = None"

text \<open>\<open>d[k]\<close> and \<open>d.get(k, default)\<close>.\<close>

definition required :: "(string \<times> json) list \<Rightarrow> string \<Rightarrow> (json \<Rightarrow> 'a option) \<Rightarrow> 'a option" where
  "required kvs k f = (case map_of kvs k of None \<Rightarrow> None | Some v \<Rightarrow> f v)"

definition optional_key :: "(string \<times> json) list \<Rightarrow> string \<Rightarrow> 'a \<Rightarrow> (json \<Rightarrow> 'a option) \<Rightarrow> 'a option" where
  "optional_key kvs k d f = (case map_of kvs k of None \<Rightarrow> Some d | Some v \<Rightarrow> f v)"

text \<open>\<open>uuid.UUID(nd[k]) if nd.get(k) else None\<close>.\<close>

definition uuid_field :: "(string \<times> json) list \<Rightarrow> string \<Rightarrow> uuid option option" where
  "uuid_field kvs k =
     Option.bind (optional_key kvs k None maybe_str) (\<lambda>s.
       case s of None \<Rightarrow> Some None | Some t \<Rightarrow> if t = [] then Some None else map_option Some (parse_uuid t))"

definition node_of_json :: "json \<Rightarrow> dag_node option" where
  "node_of_json j =
     (case j of
        JObj kvs \<Rightarrow>
          Option.bind (required kvs ''node_id'' json_str) (\<lambda>i.
          Option.bind (required kvs ''capability'' json_str) (\<lambda>cap.
          Option.bind (required kvs ''description'' json_str) (\<lambda>desc.
          Option.bind (optional_key kvs ''depends_on'' [] json_strs) (\<lambda>deps.
          Option.bind (optional_key kvs ''estimated_complexity'' ''medium'' json_str) (\<lambda>complexity.
          Option.bind (uuid_field kvs ''assigned_agent_id'') (\<lambda>agent.
          Option.bind (uuid_field kvs ''task_id'') (\<lambda>task.
          Option.bind (Option.bind (optional_key kvs ''status'' ''pending'' json_str) parse_task_status) (\<lambda>status.
          Option.bind (optional_key kvs ''output'' None maybe_str) (\<lambda>out.
          Option.bind (optional_key kvs ''error'' None maybe_str) (\<lambda>err.
            Some \<lparr>dn_id = i, dn_capability = cap, dn_description = desc, dn_depends_on = deps, dn_complexity = complexity,
                  dn_agent = agent, dn_task = task, dn_status = status, dn_output = out, dn_error = err\<rparr>))))))))))
      | _ \<Rightarrow> None)"

definition dag_from_dict :: "(string \<times> json) list \<Rightarrow> dag option" where
  "dag_from_dict data =
     (case map_of data ''nodes'' of
        Some (JArr vs) \<Rightarrow>
          Option.bind (those (map node_of_json vs)) (\<lambda>nodes.
            case make_dag nodes of Inl _ \<Rightarrow> None | Inr d \<Rightarrow> Some d)
      | _ \<Rightarrow> None)"

section \<open>Checkpoints\<close>

record checkpoint =
  cp_workflow :: uuid
  cp_reason :: string
  cp_snapshot :: "(string \<times> json) list"
  cp_current :: "string option"
  cp_completed :: "string list"
  cp_pending :: "string list"
  cp_failed :: "string list"
  cp_variables :: "(string \<times> json) list"
  cp_reflection :: "(string \<times> json) list option"
  cp_version :: int
  cp_created :: string
  cp_hash :: "string option"

datatype checkpoint_error = CheckpointDecode | CheckpointStoreError store_error | CheckpointDid did_error

record clock =
  ck_iso :: "string \<Rightarrow> bool"
  ck_now :: string

definition checkpoint_version :: int where "checkpoint_version = 1"

text \<open>The three buckets: every status but completed and failed counts as pending, and a node without
  id is left out.\<close>

definition bucket :: "(task_status \<Rightarrow> bool) \<Rightarrow> dag \<Rightarrow> string list" where
  "bucket p d = map dn_id (filter (\<lambda>n. dn_id n \<noteq> [] \<and> p (dn_status n)) (dag_nodes d))"

definition from_dag :: "clock \<Rightarrow> uuid \<Rightarrow> dag \<Rightarrow> string \<Rightarrow> string option \<Rightarrow> (string \<times> json) list
    \<Rightarrow> (string \<times> json) list option \<Rightarrow> checkpoint" where
  "from_dag C w d reason current variables reflection =
     \<lparr>cp_workflow = w, cp_reason = reason, cp_snapshot = dag_to_dict d, cp_current = current,
      cp_completed = bucket (\<lambda>s. s = TsCompleted) d,
      cp_pending = bucket (\<lambda>s. s \<noteq> TsCompleted \<and> s \<noteq> TsFailed) d,
      cp_failed = bucket (\<lambda>s. s = TsFailed) d,
      cp_variables = variables, cp_reflection = reflection, cp_version = checkpoint_version,
      cp_created = ck_now C, cp_hash = None\<rparr>"

definition to_payload :: "checkpoint \<Rightarrow> (string \<times> json) list" where
  "to_payload cp =
     [(''version'', JInt (cp_version cp)), (''workflow_id'', JStr (str_uuid (cp_workflow cp))),
      (''reason'', JStr (cp_reason cp)), (''current_task_id'', json_opt_str (cp_current cp)),
      (''completed_task_ids'', JArr (map JStr (cp_completed cp))),
      (''pending_task_ids'', JArr (map JStr (cp_pending cp))),
      (''failed_task_ids'', JArr (map JStr (cp_failed cp))),
      (''variables'', JObj (cp_variables cp)),
      (''reflection'', (case cp_reflection cp of None \<Rightarrow> JNull | Some r \<Rightarrow> JObj r)),
      (''dag_snapshot'', JObj (cp_snapshot cp)), (''created_at'', JStr (cp_created cp))]"

text \<open>\<open>payload.get(k) or ()\<close> and \<open>payload.get(k) or {}\<close>.\<close>

fun json_strs_or_none :: "json \<Rightarrow> string list option" where
  "json_strs_or_none JNull = Some []"
| "json_strs_or_none v = json_strs v"

fun json_dict_or_none :: "json \<Rightarrow> (string \<times> json) list option" where
  "json_dict_or_none JNull = Some []"
| "json_dict_or_none (JObj kvs) = Some kvs"
| "json_dict_or_none _ = None"

fun json_int_or_none :: "json \<Rightarrow> int option" where
  "json_int_or_none JNull = Some 0"
| "json_int_or_none (JInt i) = Some i"
| "json_int_or_none _ = None"

definition from_payload :: "clock \<Rightarrow> (string \<times> json) list \<Rightarrow> checkpoint_error + checkpoint" where
  "from_payload C payload =
     (case Option.bind (required payload ''workflow_id'' json_str) (\<lambda>w. Option.bind (parse_uuid w) (\<lambda>workflow_id.
          Option.bind (optional_key payload ''created_at'' [] json_str) (\<lambda>created.
          Option.bind (optional_key payload ''reason'' [] json_str) (\<lambda>reason.
          Option.bind (optional_key payload ''dag_snapshot'' [] json_dict_or_none) (\<lambda>snapshot.
          Option.bind (optional_key payload ''current_task_id'' None maybe_str) (\<lambda>current.
          Option.bind (optional_key payload ''completed_task_ids'' [] json_strs_or_none) (\<lambda>completed.
          Option.bind (optional_key payload ''pending_task_ids'' [] json_strs_or_none) (\<lambda>pending.
          Option.bind (optional_key payload ''failed_task_ids'' [] json_strs_or_none) (\<lambda>failed.
          Option.bind (optional_key payload ''variables'' [] json_dict_or_none) (\<lambda>variables.
          Option.bind (optional_key payload ''version'' 0 json_int_or_none) (\<lambda>version.
            Some \<lparr>cp_workflow = workflow_id, cp_reason = reason, cp_snapshot = snapshot, cp_current = current,
                  cp_completed = completed, cp_pending = pending, cp_failed = failed, cp_variables = variables,
                  cp_reflection = (case map_of payload ''reflection'' of Some (JObj r) \<Rightarrow> Some r | _ \<Rightarrow> None),
                  cp_version = (if version = 0 then checkpoint_version else version),
                  cp_created = (if ck_iso C created then created else ck_now C), cp_hash = None\<rparr>))))))))))) of
        None \<Rightarrow> Inl CheckpointDecode | Some cp \<Rightarrow> Inr cp)"

definition restore_dag :: "checkpoint \<Rightarrow> checkpoint_error + dag" where
  "restore_dag cp = (case dag_from_dict (cp_snapshot cp) of None \<Rightarrow> Inl CheckpointDecode | Some d \<Rightarrow> Inr d)"

section \<open>The checkpoint store\<close>

definition metadata_for :: "checkpoint \<Rightarrow> (string \<times> json) list" where
  "metadata_for cp =
     [(''checkpoint'', JBool True), (''checkpoint_workflow_id'', JStr (str_uuid (cp_workflow cp))),
      (''checkpoint_reason'', JStr (cp_reason cp)), (''checkpoint_payload'', JObj (to_payload cp))]"

definition is_checkpoint_record :: "memory_record \<Rightarrow> bool" where
  "is_checkpoint_record r \<longleftrightarrow>
     (case map_of (mr_metadata r) ''checkpoint'' of None \<Rightarrow> False | Some v \<Rightarrow> py_truth v) \<and> mr_memory_type r = META"

definition decode_record :: "clock \<Rightarrow> memory_record \<Rightarrow> checkpoint_error + checkpoint" where
  "decode_record C r =
     (case map_of (mr_metadata r) ''checkpoint_payload'' of
        Some (JObj payload) \<Rightarrow> bindE (from_payload C payload) (\<lambda>cp. Inr (cp\<lparr>cp_hash := mr_content_hash r\<rparr>))
      | _ \<Rightarrow> Inl CheckpointDecode)"

definition save_args :: "string \<Rightarrow> keypair \<Rightarrow> checkpoint \<Rightarrow> put_args" where
  "save_args author_did kp cp =
     \<lparr>pa_workflow_id = Some (cp_workflow cp), pa_memory_type = META,
      pa_content = (if cp_reason cp = [] then ''workflow checkpoint @ '' @ cp_created cp else cp_reason cp),
      pa_confidence = FFin 1, pa_metadata = Some (metadata_for cp), pa_parent_hashes = Some [],
      pa_author_did = Some author_did, pa_source_agent_id = None, pa_keypair = Some kp,
      pa_precomputed_hash = None, pa_precomputed_signature = None, pa_embedding = None, pa_version = 1,
      pa_parent_version_id = None, pa_expires_at = None, pa_record_state = ACTIVE\<rparr>"

definition save_checkpoint :: "platform \<Rightarrow> db_env \<Rightarrow> keypair \<Rightarrow> checkpoint \<Rightarrow> db_session
    \<Rightarrow> (checkpoint_error + checkpoint) \<times> db_session" where
  "save_checkpoint P E kp cp s =
     (case build_did_key (public_bytes kp) of
        Inl e \<Rightarrow> (Inl (CheckpointDid e), s)
      | Inr author_did \<Rightarrow>
          let (res, s') = put P E (save_args author_did kp cp) s
          in (bindE (mapErr CheckpointStoreError res) (\<lambda>r. Inr (cp\<lparr>cp_hash := mr_content_hash r\<rparr>)), s'))"

definition load_by_hash :: "clock \<Rightarrow> string \<Rightarrow> db_session \<Rightarrow> checkpoint_error + checkpoint option" where
  "load_by_hash C h s =
     bindE (mapErr CheckpointStoreError (fetch_by_hash s h)) (\<lambda>found.
       case found of
         None \<Rightarrow> Inr None
       | Some r \<Rightarrow> if \<not> is_checkpoint_record r then Inr None
                   else bindE (decode_record C r) (\<lambda>cp. Inr (Some cp)))"

text \<open>\<open>created\<close> gives the creation time of a row, newest first.\<close>

definition load_latest :: "clock \<Rightarrow> (memory_record \<Rightarrow> int) \<Rightarrow> uuid \<Rightarrow> db_session \<Rightarrow> checkpoint_error + checkpoint option" where
  "load_latest C created w s =
     (if \<not> sess_active s then Inl (CheckpointStoreError StoreSessionInactive)
      else case List.find is_checkpoint_record
             (sort_key (\<lambda>r. - created r) (filter (\<lambda>r. mr_workflow_id r = Some w \<and> mr_memory_type r = META
                \<and> mr_record_state r = ACTIVE) (db_memory (sess_db s)))) of
        None \<Rightarrow> Inr None
      | Some r \<Rightarrow> bindE (decode_record C r) (\<lambda>cp. Inr (Some cp)))"

section \<open>Reading back what was written\<close>

lemma those_map: "(\<And>x. x \<in> set xs \<Longrightarrow> f (g x) = Some x) \<Longrightarrow> those (map f (map g xs)) = Some xs"
  by (induction xs) auto

lemma json_strs_written [simp]: "those (map (json_str \<circ> JStr) xs) = Some xs"
  using those_map[of xs json_str JStr] by simp

lemma maybe_str_written [simp]: "maybe_str (json_opt_str s) = Some s"
  by (cases s) (simp_all add: json_opt_str_def)

lemma node_round_trip: "node_of_json (node_json n) = Some n"
  by (cases n; cases "dn_agent n"; cases "dn_task n")
    (simp_all add: node_json_def node_of_json_def required_def optional_key_def uuid_field_def json_opt_str_def[of None]
      json_opt_str_def[of "Some (str_uuid u)" for u])

text \<open>A stored workflow graph is read back exactly: \<open>from_dict\<close> of \<open>to_dict\<close> gives a constructed graph
  with all its nodes, statuses, outputs, errors and adjacency, in their order.\<close>

theorem dag_snapshot_roundtrip:
  assumes "dag_ok d" and "dag_nodes d \<noteq> []"
  shows "dag_from_dict (dag_to_dict d) = Some d"
proof -
  have dist: "distinct (map dn_id (dag_nodes d))" using assms(1) by (simp add: dag_ok_def)
  have "those (map node_of_json (map node_json (dag_nodes d))) = Some (dag_nodes d)"
    by (rule those_map) (rule node_round_trip)
  moreover have "raw_dag (dag_nodes d) = d"
    using raw_dag_fields[OF dist] assms(1) by (cases d; cases "raw_dag (dag_nodes d)") (simp add: dag_ok_def)
  moreover have "dag_validate (raw_dag (dag_nodes d)) = Inr ()"
    using dag_validate_iff[OF dist] assms by (simp add: dag_ok_def)
  ultimately show ?thesis by (simp add: dag_from_dict_def dag_to_dict_def make_dag_def Let_def)
qed

lemma payload_round_trip:
  assumes "cp_version cp \<noteq> 0" "ck_iso C (cp_created cp)"
  shows "from_payload C (to_payload cp) = Inr (cp\<lparr>cp_hash := None\<rparr>)"
proof -
  have refl: "(case (case cp_reflection cp of None \<Rightarrow> JNull | Some r \<Rightarrow> JObj r) of JObj r \<Rightarrow> Some r | _ \<Rightarrow> None) = cp_reflection cp"
    by (cases "cp_reflection cp") simp_all
  show ?thesis
    using assms by (simp add: from_payload_def to_payload_def required_def optional_key_def refl)
qed

text \<open>A signed insert of a new hash stores exactly the row of its arguments.\<close>

lemma put_signed_fresh:
  assumes p: "put P E a s = (Inr r, s')" and signed: "pa_keypair a = Some kp"
    and quiet: "quiet_env E" and h: "mr_content_hash r = Some h" and new: "h \<notin> set (hashes_of (sess_db s))"
  obtains i sg where "r = put_row a i (Some h) (Some sg)" "fetch_by_hash s' h = Inr (Some r)"
    "sess_active s'" "r \<in> set (db_memory (sess_db s'))"
proof -
  have resolved: "\<exists>h sg. x = (Some h, Some sg)"
    if "resolve_hash_and_signature P (put_body a) (pa_keypair a) (pa_precomputed_hash a) (pa_precomputed_signature a) = Inr x" for x
    using that signed by (auto simp: resolve_hash_and_signature_def bindE_Inr_conv split: if_splits)
  have absent: "lookup_by mr_content_hash (Some h) (db_memory (sess_db s)) = None"
    using new by (simp add: lookup_by_None set_hashes_of_iff)
  have "\<exists>i sg. r = put_row a i (Some h) (Some sg) \<and> fetch_by_hash s' h = Inr (Some r)"
    using p
  proof (cases rule: put_cases)
    case (existing h' sg' r')
    from resolved[OF existing(1)] obtain g where "h' = Some g" by auto
    with existing(2,3) have "lookup_by mr_content_hash (Some g) (db_memory (sess_db s)) = Some r"
      by (auto simp: fetch_existing_def fetch_by_hash_def split: if_splits)
    with lookup_by_Some[OF this] h absent show ?thesis by auto
  next
    case (insert h' sg' r')
    from resolved[OF insert(1)] obtain g sg where g: "h' = Some g" "sg' = Some sg" by auto
    have active: "sess_active s" using insert(2) g by (auto dest: fetch_existing_active)
    have s: "interleave E s r' = s" using quiet by (simp add: quiet_env_def interleave_def)
    note ins = insert(4)[unfolded s]
    have found: "fetch_by_hash s' g = Inr (Some r)" using insert_row_result(1)[OF ins active] insert(3) g by simp
    then have "g = h" using h by (auto simp: fetch_by_hash_def dest: lookup_by_Some split: if_splits)
    from insert_row_rows[OF ins active] have "r = r'"
    proof (elim disjE conjE)
      assume "sess_db s' = sess_db s"
      with found \<open>g = h\<close> absent show "r = r'" by (auto simp: fetch_by_hash_def split: if_splits)
    qed (simp_all)
    then show ?thesis using insert(3) g found \<open>g = h\<close> by auto
  qed (use p in simp_all)
  then obtain i sg where row: "r = put_row a i (Some h) (Some sg)" "fetch_by_hash s' h = Inr (Some r)" by blast
  then have "sess_active s'" "r \<in> set (db_memory (sess_db s'))"
    by (auto simp: fetch_by_hash_def dest: lookup_by_Some split: if_splits)
  with row show thesis using that by blast
qed

text \<open>C25. A saved checkpoint can be resumed from its hash: after saving a checkpoint whose hash was not in
  use before, loading that hash gives the same checkpoint, and the stored record is signed by the
  saving node.\<close>

theorem checkpoint_save_load:
  assumes "save_checkpoint P E kp cp s = (Inr cp', s')" and "cp_version cp \<noteq> 0" and "ck_iso C (cp_created cp)"
    and "quiet_env E" and "cp_hash cp' = Some h" and "h \<notin> set (hashes_of (sess_db s))"
  shows "load_by_hash C h s' = Inr (Some cp') \<and> cp' = cp\<lparr>cp_hash := Some h\<rparr>
    \<and> (\<exists>r sg. fetch_by_hash s' h = Inr (Some r) \<and> mr_signature r = Some sg)"
proof -
  obtain did where did: "build_did_key (public_bytes kp) = Inr did"
    using assms(1) by (cases "build_did_key (public_bytes kp)") (auto simp: save_checkpoint_def)
  let ?a = "save_args did kp cp"
  obtain r where p: "put P E ?a s = (Inr r, s')" and r: "cp' = cp\<lparr>cp_hash := mr_content_hash r\<rparr>"
    using assms(1) did by (auto simp: save_checkpoint_def bindE_Inr_conv mapErr_Inr_conv split: prod.splits)
  have h: "mr_content_hash r = Some h" using r assms(5) by simp
  have "pa_keypair ?a = Some kp" by (simp add: save_args_def)
  from put_signed_fresh[OF p this assms(4) h assms(6)]
  obtain i sg where row: "r = put_row ?a i (Some h) (Some sg)" and stored: "fetch_by_hash s' h = Inr (Some r)" by blast
  have "mr_metadata r = metadata_for cp" "mr_memory_type r = META"
    by (simp_all add: row put_row_def save_args_def)
  then have "load_by_hash C h s' = Inr (Some (cp\<lparr>cp_hash := Some h\<rparr>))"
    using payload_round_trip[OF assms(2,3)] h
    by (simp add: load_by_hash_def stored is_checkpoint_record_def decode_record_def metadata_for_def py_truth_def)
  moreover have "cp' = cp\<lparr>cp_hash := Some h\<rparr>" using r h by simp
  ultimately show ?thesis using stored row by simp
qed

section \<open>A paused two-step workflow\<close>

definition demo_clock :: clock where
  "demo_clock = \<lparr>ck_iso = (\<lambda>_. True), ck_now = ''2026-04-18T09:00:00+00:00''\<rparr>"

definition demo_checkpoint :: checkpoint where
  "demo_checkpoint = from_dag demo_clock 1 (raw_dag demo_nodes) ''awaiting_approval'' (Some ''draft'') [] None"

definition demo_keypair :: keypair where
  "demo_keypair = \<lparr>private_seed = replicate 32 0, public_bytes = replicate 32 0\<rparr>"

theorem dag_snapshot_roundtrip_witness:
  "dag_nodes (raw_dag demo_nodes) \<noteq> [] \<and> dag_from_dict (dag_to_dict (raw_dag demo_nodes)) = Some (raw_dag demo_nodes)"
proof -
  have "dag_nodes (raw_dag demo_nodes) \<noteq> []" by (simp add: demo_dag_ok(2)) (simp add: demo_nodes_def)
  then show ?thesis using dag_snapshot_roundtrip[OF demo_dag_ok(1)] by simp
qed

lemma demo_snapshot: "dag_to_dict (raw_dag demo_nodes) = [(''nodes'', JArr (map node_json demo_nodes))]"
  by (simp add: dag_to_dict_def demo_dag_ok(2))

lemma plain_node: "plain_json (node_json n)"
  by (auto simp: node_json_def json_opt_str_def split: option.split)

lemma plain_clone: "plain_json v \<Longrightarrow> plain_json (clone_jsonable v)"
  by (induction v rule: clone_jsonable.induct) auto

lemma plain_body:
  assumes "plain_json (JObj (cb_metadata b))" "cb_confidence b = FFin q"
  shows "\<exists>bs. to_signable_bytes P b = Inr bs"
proof -
  have "plain_json (as_jsonable b)"
    using plain_clone[OF assms(1)] assms(2) by (auto simp: as_jsonable_def json_opt_str_def split: option.split)
  from emit_plain[OF this, of "float_repr P"] show ?thesis
    by (auto simp: to_signable_bytes_def canonicalize_def)
qed

lemma demo_checkpoint_resolves:
  "\<exists>h sg. resolve_hash_and_signature demo_platform (put_body (save_args did demo_keypair demo_checkpoint)) (Some demo_keypair) None None
     = Inr (Some h, Some sg)"
proof -
  let ?body = "put_body (save_args did demo_keypair demo_checkpoint)"
  have "plain_json (JObj (cb_metadata ?body))"
    by (auto simp: put_body_def save_args_def build_canonical_body_def metadata_for_def to_payload_def demo_checkpoint_def
        from_dag_def demo_snapshot json_opt_str_def plain_node)
  then obtain bs where "to_signable_bytes demo_platform ?body = Inr bs"
    using plain_body[of ?body 1] by (auto simp: put_body_def save_args_def build_canonical_body_def)
  then show ?thesis
    by (simp add: resolve_hash_and_signature_def compute_content_hash_def sign_local_def sign_bytes_def load_private_key_def demo_keypair_def)
qed

theorem checkpoint_save_load_witness:
  "\<exists>cp' s' h. save_checkpoint demo_platform demo_env demo_keypair demo_checkpoint demo_session = (Inr cp', s')
     \<and> load_by_hash demo_clock h s' = Inr (Some cp') \<and> cp_snapshot cp' = dag_to_dict (raw_dag demo_nodes)"
proof -
  obtain did where did: "build_did_key (public_bytes demo_keypair) = Inr did"
    using build_did_key_shape[of "public_bytes demo_keypair"] by (auto simp: demo_keypair_def)
  obtain h sg where r: "resolve_hash_and_signature demo_platform (put_body (save_args did demo_keypair demo_checkpoint))
      (Some demo_keypair) None None = Inr (Some h, Some sg)"
    using demo_checkpoint_resolves by blast
  have "storable demo_platform demo_env demo_session (save_args did demo_keypair demo_checkpoint)"
    using r by (auto simp: storable_def save_args_def demo_env_def demo_session_def demo_workflow_def fk_ok_def demo_checkpoint_def
        from_dag_def Let_def)
  moreover have "delivery_inv demo_env demo_session"
    by (simp add: delivery_inv_def quiet_env_def demo_env_def demo_session_def all_active_def Let_def)
  ultimately obtain row s' where p: "put demo_platform demo_env (save_args did demo_keypair demo_checkpoint) demo_session = (Inr row, s')"
      "mr_content_hash row = Some (put_address demo_platform (save_args did demo_keypair demo_checkpoint))"
    using put_storable by blast
  define h where "h = put_address demo_platform (save_args did demo_keypair demo_checkpoint)"
  have sv: "save_checkpoint demo_platform demo_env demo_keypair demo_checkpoint demo_session
      = (Inr (demo_checkpoint\<lparr>cp_hash := Some h\<rparr>), s')"
    using p by (simp add: save_checkpoint_def did h_def)
  have "load_by_hash demo_clock h s' = Inr (Some (demo_checkpoint\<lparr>cp_hash := Some h\<rparr>))"
    using checkpoint_save_load[OF sv, of demo_clock h]
    by (simp add: demo_checkpoint_def from_dag_def checkpoint_version_def demo_clock_def quiet_env_def demo_env_def
        demo_session_def hashes_of_def Let_def List.map_filter_def)
  with sv show ?thesis by (force simp: demo_checkpoint_def from_dag_def)
qed

end
