(* ===== verification/Federated_Approval.thy ===== *)
theory Federated_Approval
  imports Checkpoint Approval "HOL-Library.AList"
begin

text \<open>
  Models \<^verbatim>\<open>backend/app/safety/federated_approval.py\<close> and the decision endpoints of
  \<^verbatim>\<open>backend/app/api/approvals.py\<close>: the signed twins of approval requests in the content-addressed
  store, the views computed from them, and their reconciliation with the requests in Redis
  (\<open>Approval\<close>).

  A twin is the pydantic model as it is stored, with free text for its status and times. The parameter
  \<open>V :: twin_env\<close> has what the model's defaults and the database provide: fresh request ids, the ISO
  texts of the present and of a default deadline, which texts are past deadlines, creation times of
  rows, the name-based UUID of a workflow id that is none, the order in which Python enumerates a set,
  and the text of a JSON value that is no string.
\<close>

section \<open>Twins\<close>

record twin =
  tw_request_id :: string
  tw_workflow_id :: string
  tw_task_id :: "string option"
  tw_action :: string
  tw_context :: "(string \<times> json) list"
  tw_policy_rule :: string
  tw_status :: string
  tw_requested_at :: string
  tw_decided_at :: "string option"
  tw_decided_by :: "string option"
  tw_expires_at :: string
  tw_checkpoint_hash :: "string option"

record twin_env =
  te_fresh :: "memory_record \<Rightarrow> string"
  te_now :: string
  te_soon :: string
  te_past :: "string \<Rightarrow> bool"
  te_created :: "memory_record \<Rightarrow> int"
  te_uuid5 :: "string \<Rightarrow> uuid"
  te_order :: "string list \<Rightarrow> string list"
  te_str :: "json \<Rightarrow> string"

definition model_dump :: "twin \<Rightarrow> (string \<times> json) list" where
  "model_dump t =
     [(''request_id'', JStr (tw_request_id t)), (''workflow_id'', JStr (tw_workflow_id t)),
      (''task_id'', json_opt_str (tw_task_id t)), (''action'', JStr (tw_action t)), (''context'', JObj (tw_context t)),
      (''policy_rule'', JStr (tw_policy_rule t)), (''status'', JStr (tw_status t)),
      (''requested_at'', JStr (tw_requested_at t)), (''decided_at'', json_opt_str (tw_decided_at t)),
      (''decided_by'', json_opt_str (tw_decided_by t)), (''expires_at'', JStr (tw_expires_at t)),
      (''checkpoint_hash'', json_opt_str (tw_checkpoint_hash t))]"

fun json_obj :: "json \<Rightarrow> (string \<times> json) list option" where
  "json_obj (JObj kvs) = Some kvs"
| "json_obj _ = None"

definition model_validate :: "twin_env \<Rightarrow> memory_record \<Rightarrow> (string \<times> json) list \<Rightarrow> twin option" where
  "model_validate V r kvs =
     Option.bind (optional_key kvs ''request_id'' (te_fresh V r) json_str) (\<lambda>rid.
     Option.bind (required kvs ''workflow_id'' json_str) (\<lambda>wid.
     Option.bind (optional_key kvs ''task_id'' None maybe_str) (\<lambda>task.
     Option.bind (required kvs ''action'' json_str) (\<lambda>action.
     Option.bind (optional_key kvs ''context'' [] json_obj) (\<lambda>context.
     Option.bind (required kvs ''policy_rule'' json_str) (\<lambda>rule.
     Option.bind (optional_key kvs ''status'' ''pending'' json_str) (\<lambda>status.
     Option.bind (optional_key kvs ''requested_at'' (te_now V) json_str) (\<lambda>requested.
     Option.bind (optional_key kvs ''decided_at'' None maybe_str) (\<lambda>decided.
     Option.bind (optional_key kvs ''decided_by'' None maybe_str) (\<lambda>by.
     Option.bind (optional_key kvs ''expires_at'' (te_soon V) json_str) (\<lambda>expires.
     Option.bind (optional_key kvs ''checkpoint_hash'' None maybe_str) (\<lambda>h.
       Some \<lparr>tw_request_id = rid, tw_workflow_id = wid, tw_task_id = task, tw_action = action, tw_context = context,
             tw_policy_rule = rule, tw_status = status, tw_requested_at = requested, tw_decided_at = decided,
             tw_decided_by = by, tw_expires_at = expires, tw_checkpoint_hash = h\<rparr>))))))))))))"

definition twin_metadata :: "twin \<Rightarrow> string option \<Rightarrow> (string \<times> json) list" where
  "twin_metadata t node_id =
     [(''approval_marker'', JBool True), (''approval_request_id'', JStr (tw_request_id t)),
      (''approval_status'', JStr (tw_status t)), (''approval_payload'', JObj (model_dump t))]
     @ (case node_id of None \<Rightarrow> [] | Some n \<Rightarrow> [(''approval_node_id'', JStr n)])"

definition is_approval_record :: "memory_record \<Rightarrow> bool" where
  "is_approval_record r \<longleftrightarrow>
     (case map_of (mr_metadata r) ''approval_marker'' of None \<Rightarrow> False | Some v \<Rightarrow> py_truth v) \<and> mr_memory_type r = META"

definition decode_twin :: "twin_env \<Rightarrow> memory_record \<Rightarrow> twin option" where
  "decode_twin V r =
     (case map_of (mr_metadata r) ''approval_payload'' of Some (JObj kvs) \<Rightarrow> model_validate V r kvs | _ \<Rightarrow> None)"

definition record_node_id :: "twin_env \<Rightarrow> memory_record \<Rightarrow> string option" where
  "record_node_id V r =
     (case map_of (mr_metadata r) ''approval_node_id'' of
        None \<Rightarrow> None | Some JNull \<Rightarrow> None | Some (JStr s) \<Rightarrow> Some s | Some v \<Rightarrow> Some (te_str V v))"

section \<open>The store of twins\<close>

definition twin_workflow :: "twin_env \<Rightarrow> twin \<Rightarrow> uuid" where
  "twin_workflow V t =
     (case parse_uuid (tw_workflow_id t) of Some w \<Rightarrow> w | None \<Rightarrow> te_uuid5 V (''approval:'' @ tw_workflow_id t))"

definition twin_args :: "twin_env \<Rightarrow> string \<Rightarrow> keypair \<Rightarrow> twin \<Rightarrow> string option \<Rightarrow> string \<Rightarrow> put_args" where
  "twin_args V author_did kp t node_id content =
     \<lparr>pa_workflow_id = Some (twin_workflow V t), pa_memory_type = META, pa_content = content,
      pa_confidence = FFin 1, pa_metadata = Some (twin_metadata t node_id), pa_parent_hashes = Some [],
      pa_author_did = Some author_did, pa_source_agent_id = None, pa_keypair = Some kp,
      pa_precomputed_hash = None, pa_precomputed_signature = None, pa_embedding = None, pa_version = 1,
      pa_parent_version_id = None, pa_expires_at = None, pa_record_state = ACTIVE\<rparr>"

datatype twin_error = TwinPending string | TwinStore store_error

definition hash_or_empty :: "memory_record \<Rightarrow> string" where
  "hash_or_empty r = (case mr_content_hash r of None \<Rightarrow> [] | Some h \<Rightarrow> h)"

definition write_request :: "platform \<Rightarrow> db_env \<Rightarrow> twin_env \<Rightarrow> string \<Rightarrow> keypair \<Rightarrow> twin \<Rightarrow> string option \<Rightarrow> db_session
    \<Rightarrow> (twin_error + string) \<times> db_session" where
  "write_request P E V did kp t node_id s =
     (let (res, s') = put P E (twin_args V did kp t node_id (''approval.request:'' @ tw_request_id t)) s
      in (bindE (mapErr TwinStore res) (\<lambda>r. Inr (hash_or_empty r)), s'))"

definition write_decision :: "platform \<Rightarrow> db_env \<Rightarrow> twin_env \<Rightarrow> string \<Rightarrow> keypair \<Rightarrow> twin \<Rightarrow> string option \<Rightarrow> db_session
    \<Rightarrow> (twin_error + string) \<times> db_session" where
  "write_decision P E V did kp t node_id s =
     (if tw_status t = ''pending'' then (Inl (TwinPending (tw_request_id t)), s)
      else let (res, s') = put P E (twin_args V did kp t node_id
                                     (''approval.decision:'' @ tw_request_id t @ '':'' @ tw_status t)) s
           in (bindE (mapErr TwinStore res) (\<lambda>r. Inr (hash_or_empty r)), s'))"

definition scan_twins :: "twin_env \<Rightarrow> db_session \<Rightarrow> store_error + memory_record list" where
  "scan_twins V s =
     (if \<not> sess_active s then Inl StoreSessionInactive
      else Inr (filter is_approval_record
             (sort_key (\<lambda>r. - te_created V r)
               (filter (\<lambda>r. mr_memory_type r = META \<and> mr_record_state r = ACTIVE) (db_memory (sess_db s))))))"

definition decoded :: "twin_env \<Rightarrow> memory_record list \<Rightarrow> (memory_record \<times> twin) list" where
  "decoded V rs = List.map_filter (\<lambda>r. map_option (Pair r) (decode_twin V r)) rs"

text \<open>\<open>get_pending\<close>: the dictionary keeps the position of the first record of a request, \<open>True\<close> marks
  a decided one.\<close>

definition pending_step :: "twin \<Rightarrow> (string \<times> (twin \<times> bool)) list \<Rightarrow> (string \<times> (twin \<times> bool)) list" where
  "pending_step t by_request =
     (case map_of by_request (tw_request_id t) of
        None \<Rightarrow> by_request @ [(tw_request_id t, t, tw_status t \<noteq> ''pending'')]
      | Some (_, already) \<Rightarrow>
          if tw_status t \<noteq> ''pending'' then AList.update (tw_request_id t) (t, True) by_request
          else if \<not> already then AList.update (tw_request_id t) (t, False) by_request
          else by_request)"

definition pending_twins :: "twin_env \<Rightarrow> string option \<Rightarrow> bool \<Rightarrow> twin list \<Rightarrow> twin list" where
  "pending_twins V workflow_id include_expired ts =
     (let by_request = fold pending_step (filter (\<lambda>t. workflow_id = None \<or> workflow_id = Some (tw_workflow_id t)) ts) []
      in map (fst \<circ> snd) (filter (\<lambda>(rid, t, dec). \<not> dec \<and> (include_expired \<or> \<not> te_past V (tw_expires_at t))) by_request))"

definition get_pending_twins :: "twin_env \<Rightarrow> string option \<Rightarrow> bool \<Rightarrow> db_session \<Rightarrow> store_error + twin list" where
  "get_pending_twins V workflow_id include_expired s =
     bindE (scan_twins V s) (\<lambda>rs. Inr (pending_twins V workflow_id include_expired (map snd (decoded V rs))))"

text \<open>\<open>find_many_by_request_id\<close>: the first decision of a wanted id, or else its first pending record.\<close>

definition keep_first :: "'k \<Rightarrow> 'v \<Rightarrow> ('k \<times> 'v) list \<Rightarrow> ('k \<times> 'v) list" where
  "keep_first k v al = (if map_of al k = None then al @ [(k, v)] else al)"

definition many_step :: "string list \<Rightarrow> twin \<Rightarrow> (string \<times> twin) list \<times> (string \<times> twin) list
    \<Rightarrow> (string \<times> twin) list \<times> (string \<times> twin) list" where
  "many_step wanted t st =
     (case st of (decisions, pendings) \<Rightarrow>
        if tw_request_id t \<notin> set wanted then st
        else if tw_status t = ''pending'' then (decisions, keep_first (tw_request_id t) t pendings)
        else (keep_first (tw_request_id t) t decisions, pendings))"

definition find_many_by_request_id :: "twin_env \<Rightarrow> string list \<Rightarrow> db_session \<Rightarrow> store_error + (string \<rightharpoonup> twin)" where
  "find_many_by_request_id V wanted s =
     (if wanted = [] then Inr (\<lambda>_. None)
      else bindE (scan_twins V s) (\<lambda>rs.
        let (decisions, pendings) = fold (many_step wanted) (map snd (decoded V rs)) ([], [])
        in Inr (\<lambda>rid. case map_of decisions rid of Some t \<Rightarrow> Some t | None \<Rightarrow> map_of pendings rid)))"

definition find_by_request_id :: "twin_env \<Rightarrow> string \<Rightarrow> db_session \<Rightarrow> store_error + twin option" where
  "find_by_request_id V rid s = bindE (find_many_by_request_id V [rid] s) (\<lambda>m. Inr (m rid))"

text \<open>\<open>find_decision_for_node\<close>: the first loop, which may return at once, and the lookup after it.\<close>

fun decision_scan :: "twin_env \<Rightarrow> string \<Rightarrow> string \<Rightarrow> (memory_record \<times> twin) list \<Rightarrow> string list \<Rightarrow> (string \<times> twin) list
    \<Rightarrow> twin option" where
  "decision_scan V wid node_id [] matching decisions =
     List.find (\<lambda>_. True) (List.map_filter (map_of decisions) (te_order V matching))"
| "decision_scan V wid node_id ((r, t) # rest) matching decisions =
     (if tw_workflow_id t \<noteq> wid then decision_scan V wid node_id rest matching decisions
      else if tw_status t = ''pending'' then
        decision_scan V wid node_id rest
          (if record_node_id V r = Some node_id then List.insert (tw_request_id t) matching else matching) decisions
      else if record_node_id V r = Some node_id then Some t
      else decision_scan V wid node_id rest matching (keep_first (tw_request_id t) t decisions))"

definition find_decision_for_node :: "twin_env \<Rightarrow> uuid \<Rightarrow> string \<Rightarrow> db_session \<Rightarrow> store_error + twin option" where
  "find_decision_for_node V w node_id s =
     bindE (scan_twins V s) (\<lambda>rs. Inr (decision_scan V (str_uuid w) node_id (decoded V rs) [] []))"

section \<open>Redis and the store together\<close>

text \<open>The twin a request of the approval manager is written as; \<open>isof\<close> is \<open>isoformat\<close>. A malformed deadline
  has no time and keeps no text in that model; the parameter gives it one.\<close>

definition twin_of :: "(int \<Rightarrow> string) \<Rightarrow> string \<Rightarrow> approval_request \<Rightarrow> twin" where
  "twin_of isof bad r =
     \<lparr>tw_request_id = ar_request_id r, tw_workflow_id = ar_workflow_id r, tw_task_id = ar_task_id r,
      tw_action = ar_action r, tw_context = ar_context r, tw_policy_rule = ar_policy_rule r,
      tw_status = status_name (ar_status r), tw_requested_at = isof (ar_requested_at r),
      tw_decided_at = map_option isof (ar_decided_at r), tw_decided_by = ar_decided_by r,
      tw_expires_at = (case ar_expires_at r of None \<Rightarrow> bad | Some d \<Rightarrow> isof d), tw_checkpoint_hash = ar_checkpoint_hash r\<rparr>"

definition hydrate_from_crdt :: "twin_env \<Rightarrow> string \<Rightarrow> db_session \<Rightarrow> twin option" where
  "hydrate_from_crdt V rid s = (case find_by_request_id V rid s of Inl _ \<Rightarrow> None | Inr t \<Rightarrow> t)"

record api_env =
  ap_approval :: approval_env
  ap_twins :: twin_env
  ap_iso :: "int \<Rightarrow> string"
  ap_bad_date :: string
  ap_invalid_says_already :: bool

definition redis_state :: "api_env \<Rightarrow> int \<Rightarrow> string \<Rightarrow> approval_world \<Rightarrow> twin option" where
  "redis_state A now rid w =
     (case check_status now rid w of Inl _ \<Rightarrow> None | Inr r \<Rightarrow> Some (twin_of (ap_iso A) (ap_bad_date A) r))"

definition merged_approval_status :: "api_env \<Rightarrow> int \<Rightarrow> string \<Rightarrow> approval_world \<Rightarrow> db_session \<Rightarrow> twin option" where
  "merged_approval_status A now rid w s =
     (case (redis_state A now rid w, hydrate_from_crdt (ap_twins A) rid s) of
        (None, crdt) \<Rightarrow> crdt
      | (Some r, None) \<Rightarrow> Some r
      | (Some r, Some c) \<Rightarrow> if tw_status r = ''pending'' \<and> tw_status c \<noteq> ''pending'' then Some c else Some r)"

definition list_pending_approvals :: "api_env \<Rightarrow> int \<Rightarrow> bool \<Rightarrow> approval_world \<Rightarrow> db_session
    \<Rightarrow> approval_error + (twin list \<times> approval_world)" where
  "list_pending_approvals A now federated w s =
     bindE (get_pending now None w) (\<lambda>(rs, w').
       let redis_pending = map (twin_of (ap_iso A) (ap_bad_date A)) rs in
       if \<not> federated then Inr (redis_pending, w')
       else
         let crdt_pending = get_pending_twins (ap_twins A) None False s;
             latest = find_many_by_request_id (ap_twins A) (map tw_request_id redis_pending) s;
             (extra, decided_in_crdt) =
               (case (crdt_pending, latest) of
                  (Inr ps, Inr m) \<Rightarrow>
                    (ps, filter (\<lambda>rid. case m rid of None \<Rightarrow> False | Some t \<Rightarrow> tw_status t \<noteq> ''pending'')
                           (map tw_request_id redis_pending))
                | _ \<Rightarrow> ([], []));
             merged = fold (\<lambda>t acc. if tw_request_id t \<in> tw_request_id ` set acc then acc else acc @ [t])
                        (filter (\<lambda>t. tw_request_id t \<notin> set decided_in_crdt) redis_pending @ extra) []
         in Inr (merged, w'))"

definition get_approval :: "api_env \<Rightarrow> int \<Rightarrow> string \<Rightarrow> approval_world \<Rightarrow> db_session \<Rightarrow> int + twin" where
  "get_approval A now rid w s = (case merged_approval_status A now rid w s of None \<Rightarrow> Inl 404 | Some t \<Rightarrow> Inr t)"

text \<open>A decision endpoint answers with an HTTP status other than 200, or \<open>Inr ()\<close>.\<close>

definition has_already :: "string \<Rightarrow> bool" where
  "has_already msg = (\<exists>k \<in> set [0..<length msg + 1]. starts_with ''already'' (drop k msg))"

definition says_already :: "api_env \<Rightarrow> approval_error \<Rightarrow> bool" where
  "says_already A e =
     (case e of ApprovalNotFound rid \<Rightarrow> has_already rid | AlreadyDecided _ _ \<Rightarrow> True
      | PayloadInvalid \<Rightarrow> ap_invalid_says_already A | InvalidExpire \<Rightarrow> False)"

definition decide_in_crdt :: "platform \<Rightarrow> db_env \<Rightarrow> api_env \<Rightarrow> string \<Rightarrow> keypair \<Rightarrow> int \<Rightarrow> string \<Rightarrow> string \<Rightarrow> string
    \<Rightarrow> string \<Rightarrow> db_session \<Rightarrow> (int + unit) \<times> db_session" where
  "decide_in_crdt P E A did kp now rid status decided_by reason s =
     (case hydrate_from_crdt (ap_twins A) rid s of
        None \<Rightarrow> (Inl 404, s)
      | Some t \<Rightarrow>
          if tw_status t \<noteq> ''pending'' then (Inl 409, s)
          else
            let t' = t\<lparr>tw_status := status, tw_decided_at := Some (ap_iso A now), tw_decided_by := Some decided_by,
                       tw_context := (if reason = [] then tw_context t
                                      else context_set ''denial_reason'' (JStr reason) (tw_context t))\<rparr>;
                (res, s') = write_decision P E (ap_twins A) did kp t' None s
            in (case res of Inl _ \<Rightarrow> (Inl 500, s') | Inr _ \<Rightarrow> (Inr (), s')))"

definition decision_endpoint :: "platform \<Rightarrow> db_env \<Rightarrow> api_env \<Rightarrow> string \<Rightarrow> keypair \<Rightarrow> int \<Rightarrow> string \<Rightarrow> string \<Rightarrow> string \<Rightarrow> string
    \<Rightarrow> approval_error + (approval_request \<times> approval_world) \<Rightarrow> approval_world \<Rightarrow> db_session
    \<Rightarrow> (int + unit) \<times> approval_world \<times> db_session" where
  "decision_endpoint P E A did kp now rid status decided_by reason answer w s =
     (case answer of
        Inr (_, w') \<Rightarrow> (Inr (), w', s)
      | Inl InvalidExpire \<Rightarrow> (Inl 500, w, s)
      | Inl e \<Rightarrow>
          if says_already A e then (Inl 409, w, s)
          else let (res, s') = decide_in_crdt P E A did kp now rid status decided_by reason s in (res, w, s'))"

definition approve_request :: "platform \<Rightarrow> db_env \<Rightarrow> api_env \<Rightarrow> string \<Rightarrow> keypair \<Rightarrow> int \<Rightarrow> string \<Rightarrow> string
    \<Rightarrow> approval_world \<Rightarrow> db_session \<Rightarrow> (int + unit) \<times> approval_world \<times> db_session" where
  "approve_request P E A did kp now rid decided_by w s =
     decision_endpoint P E A did kp now rid ''approved'' decided_by []
       (approve (ap_approval A) now rid decided_by w) w s"

definition deny_request :: "platform \<Rightarrow> db_env \<Rightarrow> api_env \<Rightarrow> string \<Rightarrow> keypair \<Rightarrow> int \<Rightarrow> string \<Rightarrow> string \<Rightarrow> string
    \<Rightarrow> approval_world \<Rightarrow> db_session \<Rightarrow> (int + unit) \<times> approval_world \<times> db_session" where
  "deny_request P E A did kp now rid decided_by reason w s =
     decision_endpoint P E A did kp now rid ''denied'' decided_by reason
       (deny (ap_approval A) now rid decided_by (if reason = [] then None else Some reason) w) w s"

section \<open>Reading back\<close>

lemma twin_round_trip: "model_validate V r (model_dump t) = Some t"
  by (simp add: model_validate_def model_dump_def required_def optional_key_def)

lemma decode_written:
  "mr_metadata r = twin_metadata t node_id \<Longrightarrow> decode_twin V r = Some t"
  "mr_metadata r = twin_metadata t node_id \<Longrightarrow> record_node_id V r = node_id"
  "mr_metadata r = twin_metadata t node_id \<Longrightarrow> mr_memory_type r = META \<Longrightarrow> is_approval_record r"
  by (auto simp: decode_twin_def record_node_id_def is_approval_record_def twin_metadata_def twin_round_trip py_truth_def
      split: option.splits)

text \<open>A twin is readable when an active row of the store carries it; \<open>twins\<close> are the readable ones, newest
  first.\<close>

definition twins :: "twin_env \<Rightarrow> db_session \<Rightarrow> twin list" where
  "twins V s = (case scan_twins V s of Inl _ \<Rightarrow> [] | Inr rs \<Rightarrow> map snd (decoded V rs))"

definition of_id :: "string \<Rightarrow> twin list \<Rightarrow> twin list" where
  "of_id rid ts = filter (\<lambda>t. tw_request_id t = rid) ts"

definition decided :: "twin \<Rightarrow> bool" where
  "decided t \<longleftrightarrow> tw_status t \<noteq> ''pending''"

lemma scan_ok: "sess_active s \<Longrightarrow> \<exists>rs. scan_twins V s = Inr rs \<and> map snd (decoded V rs) = twins V s"
  by (simp add: twins_def scan_twins_def)

lemma set_decoded: "(r, t) \<in> set (decoded V rs) \<longleftrightarrow> r \<in> set rs \<and> decode_twin V r = Some t"
  by (auto simp: decoded_def List.map_filter_def image_iff)

lemma set_twins:
  "sess_active s \<Longrightarrow> t \<in> set (twins V s) \<longleftrightarrow>
     (\<exists>r \<in> set (db_memory (sess_db s)). mr_memory_type r = META \<and> mr_record_state r = ACTIVE \<and> is_approval_record r
        \<and> decode_twin V r = Some t)"
  by (auto simp: twins_def scan_twins_def set_decoded image_iff Bex_def)

section \<open>The pending view\<close>

lemma of_id_snoc [simp]: "of_id k (ts @ [t]) = (if tw_request_id t = k then of_id k ts @ [t] else of_id k ts)"
  by (simp add: of_id_def)

lemma pending_fold:
  "distinct (map fst (fold pending_step ts []))
   \<and> (\<forall>k. case map_of (fold pending_step ts []) k of
          None \<Rightarrow> of_id k ts = []
        | Some (t, dec) \<Rightarrow> of_id k ts \<noteq> [] \<and> tw_request_id t = k \<and> (dec \<longleftrightarrow> (\<exists>u \<in> set (of_id k ts). decided u))
            \<and> (\<not> dec \<longrightarrow> t = last (of_id k ts)))"
proof (induction ts rule: rev_induct)
  case Nil
  then show ?case by (simp add: of_id_def)
next
  case (snoc t ts)
  let ?m = "fold pending_step ts []"
  have fin: "distinct (map fst ?m)" using snoc.IH by blast
  have at: "case map_of ?m k of None \<Rightarrow> of_id k ts = []
        | Some (t, dec) \<Rightarrow> of_id k ts \<noteq> [] \<and> tw_request_id t = k \<and> (dec \<longleftrightarrow> (\<exists>u \<in> set (of_id k ts). decided u))
            \<and> (\<not> dec \<longrightarrow> t = last (of_id k ts))" for k
    using snoc.IH by blast
  have d: "distinct (map fst (pending_step t ?m))"
    using fin by (auto simp: pending_step_def distinct_update map_of_eq_None_iff image_iff split: option.splits)
  have m: "map_of (pending_step t ?m) k = (if k \<noteq> tw_request_id t then map_of ?m k else
      Some (case map_of ?m k of None \<Rightarrow> (t, decided t)
            | Some (u, already) \<Rightarrow> if decided t then (t, True) else if already then (u, True) else (t, False)))" for k
    by (auto simp: pending_step_def update_conv' map_add_def decided_def split: option.splits)
  have "case map_of (pending_step t ?m) k of None \<Rightarrow> of_id k (ts @ [t]) = []
        | Some (u, dec) \<Rightarrow> of_id k (ts @ [t]) \<noteq> [] \<and> tw_request_id u = k
            \<and> (dec \<longleftrightarrow> (\<exists>u \<in> set (of_id k (ts @ [t])). decided u)) \<and> (\<not> dec \<longrightarrow> u = last (of_id k (ts @ [t])))" for k
  proof (cases "tw_request_id t = k")
    case True
    with at[of k] show ?thesis
    proof (cases "map_of ?m k")
      case (Some e)
      obtain u already where e: "e = (u, already)" by (cases e)
      show ?thesis using at[of k] True Some e by (cases "decided t"; cases already) (auto simp: m)
    qed (auto simp: m)
  next
    case False
    then have same: "of_id k (ts @ [t]) = of_id k ts" by simp
    show ?thesis unfolding same using at[of k] False by (simp add: m)
  qed
  with d show ?case by simp
qed

lemma pending_twins_spec:
  fixes ts :: "twin list"
  defines "us wid \<equiv> filter (\<lambda>t. wid = None \<or> wid = Some (tw_workflow_id t)) ts"
  shows "t \<in> set (pending_twins V wid inc ts) \<longleftrightarrow> of_id (tw_request_id t) (us wid) \<noteq> []
      \<and> (\<forall>u \<in> set (of_id (tw_request_id t) (us wid)). \<not> decided u) \<and> t = last (of_id (tw_request_id t) (us wid))
      \<and> (inc \<or> \<not> te_past V (tw_expires_at t))"
    and "distinct (map tw_request_id (pending_twins V wid inc ts))"
proof -
  let ?m = "fold pending_step (us wid) []"
  have dist: "distinct (map fst ?m)" using pending_fold[of "us wid"] by blast
  have at: "case map_of ?m k of None \<Rightarrow> of_id k (us wid) = []
        | Some (t, dec) \<Rightarrow> of_id k (us wid) \<noteq> [] \<and> tw_request_id t = k \<and> (dec \<longleftrightarrow> (\<exists>u \<in> set (of_id k (us wid)). decided u))
            \<and> (\<not> dec \<longrightarrow> t = last (of_id k (us wid)))" for k
    using pending_fold[of "us wid"] by blast
  have entry: "(k, t, dec) \<in> set ?m \<longleftrightarrow> map_of ?m k = Some (t, dec)" for k t dec
    using dist by (auto simp: map_of_eq_Some_iff)
  have view: "pending_twins V wid inc ts
      = map (fst \<circ> snd) (filter (\<lambda>(rid, t, dec). \<not> dec \<and> (inc \<or> \<not> te_past V (tw_expires_at t))) ?m)"
    by (simp add: pending_twins_def us_def)
  have key: "(k, t, dec) \<in> set ?m \<Longrightarrow> tw_request_id t = k" for k t dec using at[of k] by (simp add: entry)
  have "t \<in> set (pending_twins V wid inc ts) \<longleftrightarrow> (tw_request_id t, t, False) \<in> set ?m \<and> (inc \<or> \<not> te_past V (tw_expires_at t))"
    using key by (force simp: view)
  also have "(tw_request_id t, t, False) \<in> set ?m \<longleftrightarrow> of_id (tw_request_id t) (us wid) \<noteq> []
      \<and> (\<forall>u \<in> set (of_id (tw_request_id t) (us wid)). \<not> decided u) \<and> t = last (of_id (tw_request_id t) (us wid))"
    using at[of "tw_request_id t"] by (auto simp: entry split: option.splits prod.splits)
  finally show "t \<in> set (pending_twins V wid inc ts) \<longleftrightarrow> of_id (tw_request_id t) (us wid) \<noteq> []
      \<and> (\<forall>u \<in> set (of_id (tw_request_id t) (us wid)). \<not> decided u) \<and> t = last (of_id (tw_request_id t) (us wid))
      \<and> (inc \<or> \<not> te_past V (tw_expires_at t))" by blast
  have "map tw_request_id (pending_twins V wid inc ts)
      = map fst (filter (\<lambda>(rid, t, dec). \<not> dec \<and> (inc \<or> \<not> te_past V (tw_expires_at t))) ?m)"
    using key by (auto simp: view)
  with dist show "distinct (map tw_request_id (pending_twins V wid inc ts))" by (simp add: distinct_map_filter)
qed

section \<open>Looking up decisions\<close>

lemma map_of_keep_first: "map_of (keep_first k v al) k' = (if k' = k \<and> map_of al k = None then Some v else map_of al k')"
  by (auto simp: keep_first_def map_add_def split: option.splits)

lemma many_fold:
  assumes "rid \<in> set wanted"
  shows "map_of (fst (fold (many_step wanted) ts st)) rid
      = (case map_of (fst st) rid of Some t \<Rightarrow> Some t | None \<Rightarrow> List.find (\<lambda>t. tw_request_id t = rid \<and> decided t) ts)
    \<and> map_of (snd (fold (many_step wanted) ts st)) rid
      = (case map_of (snd st) rid of Some t \<Rightarrow> Some t | None \<Rightarrow> List.find (\<lambda>t. tw_request_id t = rid \<and> \<not> decided t) ts)"
proof (induction ts arbitrary: st)
  case Nil
  then show ?case by (simp split: option.splits)
next
  case (Cons t ts)
  obtain a b where st: "st = (a, b)" by (cases st)
  have "map_of (fst (many_step wanted t st)) rid
      = (if tw_request_id t = rid \<and> decided t \<and> map_of a rid = None then Some t else map_of a rid)"
    and "map_of (snd (many_step wanted t st)) rid
      = (if tw_request_id t = rid \<and> \<not> decided t \<and> map_of b rid = None then Some t else map_of b rid)"
    using assms by (auto simp: st many_step_def map_of_keep_first decided_def)
  with Cons.IH[of "many_step wanted t st"] show ?case by (auto simp: st split: option.splits)
qed

lemma find_many_spec:
  assumes "sess_active s"
  shows "\<exists>m. find_many_by_request_id V wanted s = Inr m \<and> (\<forall>rid \<in> set wanted.
      m rid = (case List.find (\<lambda>t. tw_request_id t = rid \<and> decided t) (twins V s) of Some t \<Rightarrow> Some t
               | None \<Rightarrow> List.find (\<lambda>t. tw_request_id t = rid) (twins V s)))"
proof -
  obtain rs where rs: "scan_twins V s = Inr rs" "map snd (decoded V rs) = twins V s" using scan_ok[OF assms] by blast
  obtain ds ps where f: "fold (many_step wanted) (twins V s) ([], []) = (ds, ps)" by fastforce
  have "(case map_of ds rid of Some t \<Rightarrow> Some t | None \<Rightarrow> map_of ps rid)
      = (case List.find (\<lambda>t. tw_request_id t = rid \<and> decided t) (twins V s) of Some t \<Rightarrow> Some t
               | None \<Rightarrow> List.find (\<lambda>t. tw_request_id t = rid) (twins V s))" if r: "rid \<in> set wanted" for rid
  proof -
    have "List.find (\<lambda>t. tw_request_id t = rid \<and> \<not> decided t) ts = List.find (\<lambda>t. tw_request_id t = rid) ts"
      if "List.find (\<lambda>t. tw_request_id t = rid \<and> decided t) ts = None" for ts
      using that by (induction ts) auto
    then show ?thesis using many_fold[OF r, of "twins V s" "([], [])"] f by (auto split: option.splits)
  qed
  then show ?thesis by (cases "wanted = []") (auto simp: find_many_by_request_id_def rs f)
qed

lemma hydrate_spec:
  assumes "sess_active s"
  shows "hydrate_from_crdt V rid s =
      (case List.find (\<lambda>t. tw_request_id t = rid \<and> decided t) (twins V s) of Some t \<Rightarrow> Some t
       | None \<Rightarrow> List.find (\<lambda>t. tw_request_id t = rid) (twins V s))"
proof -
  obtain m where m: "find_many_by_request_id V [rid] s = Inr m"
    "m rid = (case List.find (\<lambda>t. tw_request_id t = rid \<and> decided t) (twins V s) of Some t \<Rightarrow> Some t
       | None \<Rightarrow> List.find (\<lambda>t. tw_request_id t = rid) (twins V s))"
    using find_many_spec[OF assms, of V "[rid]"] by auto
  have "hydrate_from_crdt V rid s = m rid" by (simp add: hydrate_from_crdt_def find_by_request_id_def m(1))
  with m(2) show ?thesis by simp
qed

lemma hydrate_decided:
  assumes "sess_active s" and "t \<in> set (twins V s)" and "decided t"
  shows "\<exists>u. hydrate_from_crdt V (tw_request_id t) s = Some u \<and> decided u"
proof -
  obtain u where "List.find (\<lambda>u. tw_request_id u = tw_request_id t \<and> decided u) (twins V s) = Some u"
    using assms(2,3) by (metis (mono_tags, lifting) find_None_iff not_Some_eq)
  moreover from this have "decided u" by (simp add: find_Some_iff) blast
  ultimately show ?thesis by (simp add: hydrate_spec[OF assms(1)])
qed

section \<open>What the views promise\<close>

text \<open>The pending view of the store is exact: it lists each request at most once, and a twin is in it
  exactly when its request has no decision among the readable twins (of the workflow asked for), the
  twin is the oldest one of the request, and, unless expired ones are wanted, its deadline is not past.\<close>

theorem pending_view_exact:
  assumes "get_pending_twins V wid inc s = Inr ts"
  shows "distinct (map tw_request_id ts)
    \<and> (t \<in> set ts \<longleftrightarrow>
         (let us = of_id (tw_request_id t) (filter (\<lambda>u. wid = None \<or> wid = Some (tw_workflow_id u)) (twins V s))
          in us \<noteq> [] \<and> (\<forall>u \<in> set us. \<not> decided u) \<and> t = last us \<and> (inc \<or> \<not> te_past V (tw_expires_at t))))"
proof -
  from assms have "sess_active s" by (auto simp: get_pending_twins_def scan_twins_def bindE_Inr_conv split: if_splits)
  from scan_ok[OF this, of V] assms have "ts = pending_twins V wid inc (twins V s)" by (auto simp: get_pending_twins_def)
  then show ?thesis using pending_twins_spec[where V = V and wid = wid and inc = inc and ts = "twins V s"]
    by (simp add: Let_def)
qed

lemma merged_decided:
  assumes "sess_active s" and "t \<in> set (twins (ap_twins A) s)" and "decided t"
  shows "\<exists>u. merged_approval_status A now (tw_request_id t) w s = Some u \<and> decided u"
  using hydrate_decided[OF assms] by (auto simp: merged_approval_status_def decided_def split: option.splits)

lemma in_first_seen:
  "t \<in> set (fold (\<lambda>t acc. if tw_request_id t \<in> tw_request_id ` set acc then acc else acc @ [t]) ts acc)
     \<Longrightarrow> t \<in> set acc \<or> t \<in> set ts"
proof (induction ts arbitrary: acc)
  case (Cons a ts)
  then show ?case using Cons.IH[of acc] Cons.IH[of "acc @ [a]"] by (auto split: if_splits)
qed simp

lemma listing_hides_decided:
  assumes "sess_active s" and "t \<in> set (twins (ap_twins A) s)" and "decided t"
    and "list_pending_approvals A now True w s = Inr (ts, w')"
  shows "tw_request_id t \<notin> tw_request_id ` set ts"
proof
  assume "tw_request_id t \<in> tw_request_id ` set ts"
  then obtain u where u: "u \<in> set ts" "tw_request_id u = tw_request_id t" by auto
  obtain rs w1 where rs: "get_pending now None w = Inr (rs, w1)"
    using assms(4) by (cases "get_pending now None w") (auto simp: list_pending_approvals_def)
  define redis where "redis = map (twin_of (ap_iso A) (ap_bad_date A)) rs"
  obtain ps where ps: "get_pending_twins (ap_twins A) None False s = Inr ps" "ps = pending_twins (ap_twins A) None False (twins (ap_twins A) s)"
    using scan_ok[OF assms(1), of "ap_twins A"] by (auto simp: get_pending_twins_def)
  obtain m where m: "find_many_by_request_id (ap_twins A) (map tw_request_id redis) s = Inr m"
      "\<forall>rid \<in> set (map tw_request_id redis). m rid = hydrate_from_crdt (ap_twins A) rid s"
    using find_many_spec[OF assms(1), of "ap_twins A" "map tw_request_id redis"] by (auto simp: hydrate_spec[OF assms(1)])
  let ?kept = "filter (\<lambda>v. tw_request_id v \<notin> set (filter (\<lambda>rid. case m rid of None \<Rightarrow> False | Some t \<Rightarrow> tw_status t \<noteq> ''pending'')
      (map tw_request_id redis))) redis"
  have "ts = fold (\<lambda>t acc. if tw_request_id t \<in> tw_request_id ` set acc then acc else acc @ [t]) (?kept @ ps) []"
    using assms(4) by (simp add: list_pending_approvals_def rs Let_def ps(1) redis_def m(1)[unfolded redis_def, simplified])
  from in_first_seen[OF u(1)[unfolded this]] have "u \<in> set ?kept \<or> u \<in> set ps" by auto
  then show False
  proof
    assume k: "u \<in> set ?kept"
    then have "tw_request_id t \<in> tw_request_id ` set redis" using u(2)[symmetric] by simp
    moreover from this have "m (tw_request_id t) = hydrate_from_crdt (ap_twins A) (tw_request_id t) s" using m(2) by auto
    ultimately show False using hydrate_decided[OF assms(1-3)] k u(2) by (auto simp: decided_def)
  next
    assume "u \<in> set ps"
    then have "\<forall>v \<in> set (of_id (tw_request_id u) (twins (ap_twins A) s)). \<not> decided v"
      using pending_twins_spec(1)[where t = u and V = "ap_twins A" and wid = None and inc = False and ts = "twins (ap_twins A) s"] by (simp add: ps(2))
    with assms(2,3) u(2) show False by (auto simp: of_id_def)
  qed
qed

lemma write_decision_row:
  assumes "write_decision P E V did kp t node s = (Inr h, s')" and "quiet_env E" and "h \<notin> set (hashes_of (sess_db s))"
  obtains r where "r \<in> set (db_memory (sess_db s'))" "sess_active s'" "mr_metadata r = twin_metadata t node"
    "mr_memory_type r = META" "mr_record_state r = ACTIVE" "mr_content_hash r = Some h" "decided t"
proof -
  have dec: "decided t" using assms(1) by (auto simp: write_decision_def decided_def split: if_splits)
  define a where "a = twin_args V did kp t node (''approval.decision:'' @ tw_request_id t @ '':'' @ tw_status t)"
  have "write_decision P E V did kp t node s
      = (let (res, s') = put P E a s in (bindE (mapErr TwinStore res) (\<lambda>r. Inr (hash_or_empty r)), s'))"
    using dec by (simp add: write_decision_def decided_def a_def)
  with assms(1) obtain r where p: "put P E a s = (Inr r, s')" and h: "h = hash_or_empty r"
    by (auto simp: bindE_Inr_conv mapErr_Inr_conv split: prod.splits)
  have kp: "pa_keypair a = Some kp" by (simp add: a_def twin_args_def)
  have "\<exists>g. mr_content_hash r = Some g"
    using p
  proof (cases rule: put_cases)
    case (existing h' sg r')
    from existing(1) obtain g where "h' = Some g" by (auto simp: resolve_hash_and_signature_def kp bindE_Inr_conv split: if_splits)
    with existing(2,3) show ?thesis by (auto simp: fetch_existing_def fetch_by_hash_def dest: lookup_by_Some split: if_splits)
  next
    case (insert h' sg r')
    from insert(1) obtain g where g: "h' = Some g" by (auto simp: resolve_hash_and_signature_def kp bindE_Inr_conv split: if_splits)
    have active: "sess_active s" using insert(2) g by (auto dest: fetch_existing_active)
    have "interleave E s r' = s" using assms(2) by (simp add: quiet_env_def interleave_def)
    with insert_row_result(1)[OF insert(4)] active insert(3) g show ?thesis by (auto simp: fetch_by_hash_def dest: lookup_by_Some split: if_splits)
  qed (use p in simp_all)
  with h have hash: "mr_content_hash r = Some h" by (auto simp: hash_or_empty_def)
  from put_signed_fresh[OF p kp assms(2) hash assms(3)] obtain i sg where
    "r = put_row a i (Some h) (Some sg)" "sess_active s'" "r \<in> set (db_memory (sess_db s'))" by blast
  with that[of r] dec hash show thesis by (simp add: put_row_def a_def twin_args_def)
qed

text \<open>A copy of a record, as another node holds it: the same body under the same hash, in a row of its own
  (primary key, embedding and the like are local).\<close>

definition copy_of :: "memory_record \<Rightarrow> memory_record \<Rightarrow> bool" where
  "copy_of r q \<longleftrightarrow> row_body q = row_body r \<and> mr_content_hash q = mr_content_hash r \<and> mr_record_state q = ACTIVE"

lemma copy_fields:
  assumes "copy_of r q"
  shows "mr_metadata q = mr_metadata r \<and> mr_memory_type q = mr_memory_type r"
proof -
  have "cb_metadata (row_body q) = cb_metadata (row_body r)" "cb_memory_type (row_body q) = cb_memory_type (row_body r)"
    using assms by (simp_all add: copy_of_def)
  then have "mr_metadata q = mr_metadata r" "str_memory_type (mr_memory_type q) = str_memory_type (mr_memory_type r)"
    by (simp_all add: row_body_def build_canonical_body_def)
  then show ?thesis by (cases "mr_memory_type q"; cases "mr_memory_type r") simp_all
qed


text \<open>The scheduler's lookup takes a decision from anyone: the newest decision twin for a node of a
  workflow is returned whatever key signed it and whichever author it names, so a peer that can get one
  record into the store of a node opens (or closes) the approval gate there.\<close>

theorem any_author_decides:
  assumes "write_decision P E V did kp t (Some node) s = (Inr h, s')" and "quiet_env E" and "h \<notin> set (hashes_of (sess_db s))"
    and "tw_workflow_id t = str_uuid w"
    and "\<forall>q \<in> set (db_memory (sess_db s')). \<forall>r \<in> set (db_memory (sess_db s')).
           mr_content_hash r = Some h \<and> mr_content_hash q \<noteq> Some h \<longrightarrow> te_created V q < te_created V r"
    and "distinct (map mr_content_hash (db_memory (sess_db s')))"
  shows "find_decision_for_node V w node s' = Inr (Some t)"
proof -
  from write_decision_row[OF assms(1-3)] obtain r where r: "r \<in> set (db_memory (sess_db s'))" "sess_active s'"
    "mr_metadata r = twin_metadata t (Some node)" "mr_memory_type r = META" "mr_record_state r = ACTIVE"
    "mr_content_hash r = Some h" "decided t" by blast
  let ?rows = "filter (\<lambda>r. mr_memory_type r = META \<and> mr_record_state r = ACTIVE) (db_memory (sess_db s'))"
  let ?sorted = "sort_key (\<lambda>r. - te_created V r) ?rows"
  have newest: "te_created V q < te_created V r" if q: "q \<in> set ?rows" "q \<noteq> r" for q
  proof -
    have "mr_content_hash q \<noteq> Some h"
      using assms(6) r(1,6) q by (auto simp: distinct_map inj_on_def)
    with assms(5) r(1,6) q(1) show ?thesis by auto
  qed
  have mem: "r \<in> set ?sorted" using r by simp
  then obtain x xs where x: "?sorted = x # xs" by (cases ?sorted) auto
  have "x = r"
  proof (rule ccontr)
    assume "x \<noteq> r"
    moreover have "x \<in> set ?rows" using x by (metis list.set_intros(1) set_sort)
    ultimately have "te_created V x < te_created V r" by (rule newest[rotated])
    moreover have "sorted (map (\<lambda>r. - te_created V r) (x # xs))" using sorted_sort_key[of "\<lambda>r. - te_created V r" ?rows] by (simp add: x)
    ultimately show False using mem x \<open>x \<noteq> r\<close> by auto
  qed
  moreover have "is_approval_record r" using decode_written(3) r by blast
  ultimately have "scan_twins V s' = Inr (r # filter is_approval_record xs)"
    using r(2) by (simp add: scan_twins_def x)
  moreover have "decoded V (r # filter is_approval_record xs) = (r, t) # decoded V (filter is_approval_record xs)"
    using decode_written(1)[OF r(3)] by (simp add: decoded_def)
  ultimately show ?thesis
    using assms(4) r(7) decode_written(2)[OF r(3)] by (simp add: find_decision_for_node_def decided_def)
qed

text \<open>A peer's decision does not stop the local one: while the request is still pending in this node's
  Redis, approving it succeeds even when the store already holds a peer's denial, and from then on this
  node reports it approved.\<close>

theorem local_approval_overrides_denial:
  assumes "redis_get now rid w = Some (Stored r)" and "ar_status r = ApPending" and "0 < kept_ttl now rid w"
    and "sess_active s" and "t \<in> set (twins (ap_twins A) s)" and "tw_request_id t = rid" and "tw_status t = ''denied''"
  shows "(\<exists>u. merged_approval_status A now rid w s = Some u \<and> tw_status u \<noteq> ''pending'')
    \<and> (\<exists>w' u. approve_request P E A did kp now rid by w s = (Inr (), w', s)
         \<and> merged_approval_status A now rid w' s = Some u \<and> tw_status u = ''approved'')"
proof -
  have dec: "decided t" using assms(7) by (simp add: decided_def)
  let ?D = "decide (ap_approval A) now rid ApApproved by None w"
  have "is_ok ?D" using assms(1-3) by (simp add: decide_ok_iff)
  then obtain r' w' where d: "?D = Inr (r', w')" by (cases ?D) (auto simp: is_ok_def)
  then obtain w1 where w1: "redis_set now r' rid (kept_ttl now rid w) w = Inr w1" "ar_status r' = ApApproved"
      "redis_get now rid w' = redis_get now rid w1"
    by (auto simp: decide_def Let_def bindE_Inr_conv split: option.splits approval_payload.splits if_splits)
  have st: "redis_state A now rid w' = Some (twin_of (ap_iso A) (ap_bad_date A) r')"
    using redis_set_get[OF w1(1)] w1(3) by (simp add: redis_state_def check_status_def)
  have ap: "tw_status (twin_of (ap_iso A) (ap_bad_date A) r') = ''approved''" using w1(2) by (simp add: twin_of_def)
  have "merged_approval_status A now rid w' s = Some (twin_of (ap_iso A) (ap_bad_date A) r')"
    using ap by (simp add: merged_approval_status_def st split: option.splits)
  then show ?thesis
    using ap d merged_decided[OF assms(4,5) dec, of now w] assms(6)
    by (auto simp: approve_request_def decision_endpoint_def approve_def decided_def)
qed

section \<open>A request and its denial by a peer\<close>

definition demo_twins :: twin_env where
  "demo_twins = \<lparr>te_fresh = (\<lambda>_. ''r0''), te_now = ''2026-04-18T09:00:00+00:00'', te_soon = ''2026-04-18T09:05:00+00:00'',
     te_past = (\<lambda>_. False), te_created = (\<lambda>_. 0), te_uuid5 = (\<lambda>_. 0), te_order = (\<lambda>ids. ids), te_str = (\<lambda>_. [])\<rparr>"

definition demo_ask :: twin where
  "demo_ask = \<lparr>tw_request_id = ''r1'', tw_workflow_id = str_uuid 1, tw_task_id = None, tw_action = ''pay'', tw_context = [],
     tw_policy_rule = ''cost_caps'', tw_status = ''pending'', tw_requested_at = ''2026-04-18T09:00:00+00:00'', tw_decided_at = None,
     tw_decided_by = None, tw_expires_at = ''2026-04-18T09:05:00+00:00'', tw_checkpoint_hash = None\<rparr>"

definition demo_denial :: twin where
  "demo_denial = demo_ask\<lparr>tw_status := ''denied'', tw_decided_by := Some ''peer''\<rparr>"

definition demo_api :: api_env where
  "demo_api = \<lparr>ap_approval = demo_approval_env, ap_twins = demo_twins, ap_iso = (\<lambda>_. ''2026-04-18T09:00:00+00:00''), ap_bad_date = [],
     ap_invalid_says_already = False\<rparr>"

lemma demo_twin_stored:
  assumes "t = demo_ask \<or> t = demo_denial"
  shows "\<exists>r s'. put demo_platform demo_env (twin_args demo_twins did demo_keypair t node content) demo_session = (Inr r, s')
     \<and> mr_content_hash r \<noteq> None \<and> sess_active s' \<and> db_memory (sess_db s') = [r]
     \<and> mr_metadata r = twin_metadata t node \<and> mr_memory_type r = META \<and> mr_record_state r = ACTIVE"
proof -
  let ?a = "twin_args demo_twins did demo_keypair t node content"
  have w: "tw_workflow_id t = str_uuid 1" "tw_context t = []" using assms by (auto simp: demo_ask_def demo_denial_def)
  have flat: "plain_json (JObj (model_dump t))" using w(2) by (auto simp: model_dump_def json_opt_str_def split: option.split)
  have "plain_json (JObj (cb_metadata (put_body ?a)))"
    using flat by (auto simp: put_body_def twin_args_def build_canonical_body_def twin_metadata_def split: option.splits)
  then obtain bs where "to_signable_bytes demo_platform (put_body ?a) = Inr bs"
    using plain_body[of "put_body ?a" 1] by (auto simp: put_body_def twin_args_def build_canonical_body_def)
  moreover have "pa_keypair ?a = Some demo_keypair" "pa_precomputed_hash ?a = None" "pa_precomputed_signature ?a = None"
    by (simp_all add: twin_args_def)
  ultimately have "storable demo_platform demo_env demo_session ?a"
    by (simp add: storable_def resolve_hash_and_signature_def compute_content_hash_def sign_local_def sign_bytes_def
        load_private_key_def demo_keypair_def)
      (simp add: twin_args_def demo_env_def demo_session_def demo_workflow_def fk_ok_def Let_def twin_workflow_def w(1) parse_str_uuid)
  moreover have inv: "delivery_inv demo_env demo_session"
    by (simp add: delivery_inv_def quiet_env_def demo_env_def demo_session_def all_active_def Let_def)
  ultimately obtain r s' where p: "put demo_platform demo_env ?a demo_session = (Inr r, s')" "mr_content_hash r = Some (put_address demo_platform ?a)"
    "s' = demo_session \<and> r \<in> set (db_memory (sess_db demo_session)) \<or> s' = demo_session\<lparr>sess_db := add_rows [r] (sess_db demo_session)\<rparr>"
    using put_storable by blast
  have kp: "pa_keypair ?a = Some demo_keypair" by (simp add: twin_args_def)
  have fresh: "put_address demo_platform ?a \<notin> set (hashes_of (sess_db demo_session))"
    by (simp add: demo_session_def hashes_of_def Let_def List.map_filter_def)
  have quiet: "quiet_env demo_env" using inv by (simp add: delivery_inv_def)
  obtain i sg where row: "r = put_row ?a i (Some (put_address demo_platform ?a)) (Some sg)" "sess_active s'"
    using put_signed_fresh[OF p(1) kp quiet p(2) fresh] by blast
  have "db_memory (sess_db s') = [r]" using p(3) by (auto simp: demo_session_def add_rows_def Let_def)
  with p(1,2) row show ?thesis by (auto simp: put_row_def twin_args_def)
qed

lemma demo_decision:
  "\<exists>h s' r. write_decision demo_platform demo_env demo_twins did demo_keypair demo_denial node demo_session = (Inr h, s')
     \<and> sess_active s' \<and> db_memory (sess_db s') = [r] \<and> mr_content_hash r = Some h \<and> mr_record_state r = ACTIVE
     \<and> demo_denial \<in> set (twins demo_twins s')"
proof -
  obtain r s' where r: "put demo_platform demo_env (twin_args demo_twins did demo_keypair demo_denial node
        (''approval.decision:'' @ tw_request_id demo_denial @ '':'' @ tw_status demo_denial)) demo_session = (Inr r, s')"
      "mr_content_hash r \<noteq> None" "sess_active s'" "db_memory (sess_db s') = [r]"
      "mr_metadata r = twin_metadata demo_denial node" "mr_memory_type r = META" "mr_record_state r = ACTIVE"
    using demo_twin_stored[of demo_denial did node "''approval.decision:'' @ tw_request_id demo_denial @ '':'' @ tw_status demo_denial"] by auto
  have st: "tw_status demo_denial = ''denied''" by (simp add: demo_denial_def)
  have "write_decision demo_platform demo_env demo_twins did demo_keypair demo_denial node demo_session = (Inr (hash_or_empty r), s')"
    unfolding write_decision_def Let_def using r(1) st by simp
  moreover have "demo_denial \<in> set (twins demo_twins s')" using r decode_written[OF r(5)] by (simp add: set_twins)
  moreover have "mr_content_hash r = Some (hash_or_empty r)" using r(2) by (auto simp: hash_or_empty_def)
  ultimately show ?thesis using r(3,4,7) by blast
qed

lemma demo_quiet_empty: "quiet_env demo_env" "hashes_of (sess_db demo_session) = []"
  by (simp_all add: quiet_env_def demo_env_def demo_session_def hashes_of_def Let_def List.map_filter_def)

theorem pending_view_exact_witness:
  "\<exists>s ts. get_pending_twins demo_twins None False s = Inr ts \<and> demo_denial \<in> set (twins demo_twins s) \<and> demo_denial \<notin> set ts"
proof -
  obtain s' where s: "sess_active s'" "demo_denial \<in> set (twins demo_twins s')" using demo_decision by blast
  obtain ts where ts: "get_pending_twins demo_twins None False s' = Inr ts"
    using scan_ok[OF s(1), of demo_twins] by (auto simp: get_pending_twins_def)
  have "decided demo_denial" by (simp add: decided_def demo_denial_def)
  with pending_view_exact[OF ts, of demo_denial] s(2) have "demo_denial \<notin> set ts" by (auto simp: of_id_def Let_def)
  with ts s(2) show ?thesis by blast
qed


theorem any_author_decides_witness:
  "\<exists>h s'. write_decision demo_platform demo_env demo_twins ''did:key:stranger'' demo_keypair demo_denial (Some ''n'') demo_session = (Inr h, s')
     \<and> find_decision_for_node demo_twins 1 ''n'' s' = Inr (Some demo_denial)"
proof -
  obtain h s' r where d: "write_decision demo_platform demo_env demo_twins ''did:key:stranger'' demo_keypair demo_denial (Some ''n'') demo_session = (Inr h, s')"
      "db_memory (sess_db s') = [r]" "mr_content_hash r = Some h"
    using demo_decision[of "''did:key:stranger''" "Some ''n''"] by blast
  have new: "h \<notin> set (hashes_of (sess_db demo_session))" by (simp add: demo_quiet_empty)
  have "tw_workflow_id demo_denial = str_uuid 1" by (simp add: demo_denial_def demo_ask_def)
  from any_author_decides[OF d(1) demo_quiet_empty(1) new this] d show ?thesis by simp
qed

theorem local_approval_overrides_denial_witness:
  "\<exists>s w' u. demo_denial \<in> set (twins demo_twins s)
     \<and> approve_request demo_platform demo_env demo_api ''did:key:z'' demo_keypair 0 ''r1'' ''human'' demo_world s = (Inr (), w', s)
     \<and> merged_approval_status demo_api 0 ''r1'' w' s = Some u \<and> tw_status u = ''approved''"
proof -
  obtain s where s: "sess_active s" "demo_denial \<in> set (twins demo_twins s)" using demo_decision by blast
  have w: "redis_get 0 ''r1'' demo_world = Some (Stored demo_request)" "0 < kept_ttl 0 ''r1'' demo_world" "ar_status demo_request = ApPending"
    by (simp_all add: demo_world_def redis_get_def kept_ttl_def redis_ttl_def demo_request_def second_def)
  have t: "demo_denial \<in> set (twins (ap_twins demo_api) s)" "tw_request_id demo_denial = ''r1''" "tw_status demo_denial = ''denied''"
    using s(2) by (simp_all add: demo_api_def demo_denial_def demo_ask_def)
  from local_approval_overrides_denial[OF w(1,3,2) s(1) t, of demo_platform demo_env "''did:key:z''" demo_keypair "''human''"] s(2)
  show ?thesis by blast
qed

end
