(* ===== verification/Llm_Cost.thy ===== *)
theory Llm_Cost
  imports Selector
begin

text \<open>
  Models \<^verbatim>\<open>backend/app/llm/token_counter.py\<close> and the cost functions of
  \<^verbatim>\<open>backend/app/orchestration/scheduler.py\<close>: which model a node runs on, what is reserved for it, and
  whether the workflow can pay for another call. \<open>Decimal\<close> amounts are exact rationals, credits
  are doubles. A prompt length counts code points.
\<close>

section \<open>Prices\<close>

definition pricing_table :: "(string \<times> (rat \<times> rat)) list" where
  "pricing_table =
     [(''claude-opus-5'', (15, 75)), (''claude-sonnet-5'', (3, 15)), (''claude-fable-5'', (3, 15)),
      (''claude-haiku-4-5-20251001'', (4/5, 4)), (''claude-opus-4-20250514'', (15, 75)),
      (''claude-sonnet-4-20250514'', (3, 15)), (''claude-haiku-3-5-20241022'', (4/5, 4)),
      (''claude-opus'', (15, 75)), (''claude-sonnet'', (3, 15)), (''claude-haiku'', (4/5, 4)),
      (''cache'', (0, 0)), (''gpt-4o'', (5/2, 10)), (''gpt-4o-mini'', (3/20, 3/5)), (''gpt-4-turbo'', (10, 30)),
      (''local'', (0, 0)), (''default'', (3, 15))]"

definition get_model_pricing :: "string \<Rightarrow> rat \<times> rat" where
  "get_model_pricing model = (case map_of pricing_table model of Some p \<Rightarrow> p | None \<Rightarrow> (3, 15))"

definition estimate_cost :: "int \<Rightarrow> int \<Rightarrow> string \<Rightarrow> rat" where
  "estimate_cost input_tokens output_tokens model =
     (let (input_price, output_price) = get_model_pricing model
      in of_int input_tokens * input_price / 1000000 + of_int output_tokens * output_price / 1000000)"

text \<open>\<open>len(s)\<close>: the code points of a string, that is its bytes that do not continue another one.\<close>

definition py_len :: "string \<Rightarrow> nat" where
  "py_len s = length (filter (\<lambda>c. \<not> (128 \<le> (of_char c :: nat) \<and> (of_char c :: nat) < 192)) s)"

definition estimate_tokens :: "string \<Rightarrow> int" where
  "estimate_tokens s = max 1 \<lfloor>py_double (of_nat (py_len s) / 4)\<rfloor>"

definition estimate_call_cost :: "string \<Rightarrow> int \<Rightarrow> string \<Rightarrow> rat" where
  "estimate_call_cost prompt expected_output_tokens model = estimate_cost (estimate_tokens prompt) expected_output_tokens model"

definition tokens_to_credits :: "rat \<Rightarrow> rat" where
  "tokens_to_credits cost_usd = py_double (cost_usd * 1000)"

definition credits_to_usd :: "rat \<Rightarrow> rat" where
  "credits_to_usd amount = decimal_str amount / 1000"

definition list_supported_models :: "string list" where
  "list_supported_models = filter (\<lambda>k. k \<noteq> ''default'') (map fst pricing_table)"

section \<open>Choosing a model and sizing a reservation\<close>

definition haiku_capabilities :: "string list" where
  "haiku_capabilities =
     [''intake'', ''classify'', ''extract-requirements'', ''data-retrieval'', ''literature-review'', ''summarization'']"

definition sonnet_capabilities :: "string list" where
  "sonnet_capabilities =
     [''verification'', ''quality-check'', ''consistency-audit'', ''risk-assessment'', ''compliance-check'',
      ''safety-analysis'', ''optimization'', ''process-analysis'', ''report-generation'', ''executive-brief'', ''cost-analysis'']"

definition haiku_model :: string where "haiku_model = ''claude-haiku-4-5-20251001''"
definition sonnet_model :: string where "sonnet_model = ''claude-sonnet-5''"
definition assumed_prompt_tokens :: int where "assumed_prompt_tokens = 6000"

definition select_model :: "dag_node \<Rightarrow> string \<times> int" where
  "select_model n =
     (if dn_capability n \<in> set haiku_capabilities \<and> dn_complexity n \<noteq> ''high'' then (haiku_model, 1000)
      else if dn_capability n \<in> set sonnet_capabilities \<or> dn_complexity n = ''high'' then (sonnet_model, 2000)
      else (sonnet_model, 1200))"

text \<open>\<open>max_iterations\<close> is the setting \<open>tool_max_iterations\<close>.\<close>

definition estimate_node_cost :: "nat \<Rightarrow> dag_node \<Rightarrow> agent_row \<Rightarrow> rat" where
  "estimate_node_cost max_iterations n agent =
     (let (model, max_output_tokens) = select_model n;
          per_call_usd = estimate_cost assumed_prompt_tokens max_output_tokens model;
          iterations = py_double (1 + py_double ((of_nat max_iterations - 1) * py_double (15 / 100)));
          estimated = py_double (tokens_to_credits per_call_usd * iterations);
          profile_usd = (case ag_avg_cost agent of None \<Rightarrow> 0 | Some c \<Rightarrow> c);
          profile_floor = py_double (tokens_to_credits (decimal_str profile_usd) * (3 / 2))
      in max estimated profile_floor)"

text \<open>\<open>limit\<close> and \<open>used\<close> are the budget columns of the workflow row.\<close>

definition can_afford_another_round :: "rat \<Rightarrow> rat \<Rightarrow> rat \<Rightarrow> string \<Rightarrow> int \<Rightarrow> bool" where
  "can_afford_another_round limit used spent model max_output_tokens =
     (let remaining = py_double (py_double (py_double limit - py_double used) - tokens_to_credits spent);
          next_round = tokens_to_credits (estimate_cost assumed_prompt_tokens max_output_tokens model)
      in next_round \<le> remaining)"

section \<open>Facts\<close>

lemma select_model_cases:
  "select_model n \<in> {(haiku_model, 1000), (sonnet_model, 2000), (sonnet_model, 1200)}"
  by (simp add: select_model_def)

lemma selected_prices:
  "get_model_pricing haiku_model = (4/5, 4)" "get_model_pricing sonnet_model = (3, 15)"
  by (simp_all add: get_model_pricing_def pricing_table_def haiku_model_def sonnet_model_def)

text \<open>What one call of the selected model is expected to cost, in credits.\<close>

lemma selected_call_usd:
  assumes "select_model n = (model, out)"
  shows "estimate_cost assumed_prompt_tokens out model \<in> {11 / 1250, 9 / 250, 6 / 125}"
  using select_model_cases[of n] assms selected_prices
  by (auto simp: estimate_cost_def assumed_prompt_tokens_def)

lemma selected_call_cost:
  assumes "select_model n = (model, out)"
  shows "0 < tokens_to_credits (estimate_cost assumed_prompt_tokens out model)"
  unfolding tokens_to_credits_def by (rule py_double_pos) (use selected_call_usd[OF assms] in auto)

lemma estimate_positive:
  assumes "1 \<le> m"
  shows "0 < estimate_node_cost m n agent"
proof -
  obtain model out where sel: "select_model n = (model, out)" by (cases "select_model n")
  define it where "it = py_double (1 + py_double ((of_nat m - 1) * py_double (15 / 100)))"
  have "0 \<le> (of_nat m - 1 :: rat)" using assms by simp
  then have "0 \<le> py_double ((of_nat m - 1) * py_double (15 / 100))" by (intro py_double_nonneg mult_nonneg_nonneg) simp_all
  then have "0 < it" unfolding it_def by (intro py_double_pos add_pos_nonneg) simp_all
  then have "0 < py_double (tokens_to_credits (estimate_cost assumed_prompt_tokens out model) * it)"
    by (intro py_double_pos mult_pos_pos selected_call_cost[OF sel])
  then show ?thesis unfolding estimate_node_cost_def sel by (simp only: Let_def prod.case less_max_iff_disj simp_thms flip: it_def)
qed

end
