(* ===== verification/Tool_Loop.thy ===== *)
theory Tool_Loop
  imports Llm_Cost Json_Canon "HOL-Library.AList"
begin

text \<open>
  Models \<open>_run_tool_loop\<close>, \<open>_tool_bias_directive\<close>, \<open>_is_cacheable\<close> and \<open>_store_in_cache\<close> of
  \<^verbatim>\<open>backend/app/orchestration/scheduler.py\<close>: the rounds of model calls and tool executions of one node,
  with the budget gate before every further round and the forced summary at the end.

  What the language model answers to the \<open>j\<close>-th request and what the tools return are the parameter
  \<open>E :: tool_env\<close>; an exception is its message. The values of the cache write that depend on the
  embedding are left out.
\<close>

section \<open>Data\<close>

record tool_call =
  tc_name :: string
  tc_args :: json

record llm_response =
  lr_content :: string
  lr_model :: string
  lr_cost :: rat
  lr_tokens :: int
  lr_latency :: rat
  lr_calls :: "tool_call list"
  lr_meta :: "(string \<times> json) list"

record tool_result =
  tr_content :: string
  tr_success :: bool
  tr_cost :: rat

record gen_request =
  rq_prompt :: string
  rq_system :: string
  rq_model :: string
  rq_max :: int
  rq_tools :: bool

record tool_env =
  te_generate :: "nat \<Rightarrow> gen_request \<Rightarrow> string + llm_response"
  te_tool :: "nat \<Rightarrow> nat \<Rightarrow> tool_call \<Rightarrow> tool_result"
  te_embeddings :: bool

text \<open>The arguments of the loop; \<open>la_limit\<close> and \<open>la_used\<close> are the budget columns of the workflow.\<close>

record loop_args =
  la_prompt :: string
  la_system :: string
  la_model :: string
  la_max :: int
  la_rounds :: nat
  la_limit :: rat
  la_used :: rat
  la_tools :: bool

definition newline :: string where "newline = [CHR 0x0A]"

section \<open>Prompts\<close>

definition tool_bias_keywords :: "(string \<times> string list) list" where
  "tool_bias_keywords =
     [(''code_execute'', [''code_execute'', ''run this python'', ''execute this'', ''sandbox'']),
      (''web_search'', [''web_search'', ''search the web'', ''search online'']),
      (''web_scrape'', [''web_scrape'', ''scrape this url'']),
      (''file_read'', [''file_read'', ''read this file'']),
      (''file_write'', [''file_write'', ''write this file'']),
      (''api_call'', [''api_call'', ''call this api'', ''http request''])]"

definition bias_directive :: "string \<Rightarrow> string" where
  "bias_directive tool_name =
     newline @ newline @ ''=== TOOL-USE REQUIREMENT ==='' @ newline
     @ ''The user has explicitly asked for the '' @ [CHR 0x27] @ tool_name @ [CHR 0x27] @ '' tool. ''
     @ ''You MUST call it to produce the answer. Do NOT reason the result ''
     @ ''from memory, do NOT substitute a different tool, and do NOT emit ''
     @ ''fake tool-call XML in your content. If the tool is not in your ''
     @ ''available tools list, return an error explaining it is missing '' @ [CHR 0xE2, CHR 0x80, CHR 0x94] @ '' ''
     @ ''do not fabricate a result.'' @ newline @ ''============================'' @ newline"

definition tool_bias_directive :: "string \<Rightarrow> string option" where
  "tool_bias_directive user_prompt =
     (case List.find (\<lambda>(tool_name, phrases). list_ex (\<lambda>p. substring p (str_lower user_prompt)) phrases) tool_bias_keywords of
        None \<Rightarrow> None | Some (tool_name, _) \<Rightarrow> Some (bias_directive tool_name))"

definition round_prompt :: "string \<Rightarrow> nat \<Rightarrow> string list \<Rightarrow> string" where
  "round_prompt user_prompt iteration texts =
     user_prompt @ newline @ newline
     @ ''## Tool Execution Results (iteration '' @ str_nat (iteration + 1) @ '')'' @ newline @ newline
     @ join newline texts
     @ newline @ newline @ ''Continue your analysis using these tool results. ''
     @ ''If you need more information, call another tool. ''
     @ ''Otherwise, provide your final response.''"

definition summary_prompt :: "string \<Rightarrow> nat \<Rightarrow> string list \<Rightarrow> string" where
  "summary_prompt user_prompt max_iterations texts =
     user_prompt @ newline @ newline
     @ ''## Tool Execution Results (all '' @ str_nat max_iterations @ '' iterations)'' @ newline @ newline
     @ join newline texts
     @ newline @ newline @ ''You have reached the tool-use budget. Do not request any more tools. ''
     @ ''Synthesise your final response from the tool results above. ''
     @ ''If the information is insufficient, say so clearly and stop.''"

section \<open>The semantic cache\<close>

definition cache_poison_markers :: "string list" where
  "cache_poison_markers =
     [''not available'', ''unavailable'', ''does not have'', ''cannot execute'', ''unable to'', ''could not be completed'',
      ''environment issues'', ''tool not found'', ''api key is missing'', ''missing api configuration'', ''no access to'']"

definition is_cacheable :: "string \<Rightarrow> bool" where
  "is_cacheable content \<longleftrightarrow> content \<noteq> [] \<and> \<not> list_ex (\<lambda>m. substring m (str_lower content)) cache_poison_markers"

definition store_in_cache :: "tool_env \<Rightarrow> string \<Rightarrow> string option" where
  "store_in_cache E content =
     (if content = [] \<or> py_len content < 50 then None
      else if \<not> is_cacheable content then None
      else if \<not> te_embeddings E then None
      else Some (utf8_take 5000 content))"

section \<open>The loop\<close>

text \<open>The tool calls of one round: their log entries, their result texts and what they add to the cost.\<close>

fun run_calls :: "tool_env \<Rightarrow> nat \<Rightarrow> nat \<Rightarrow> tool_call list \<Rightarrow> json list \<times> string list \<times> rat" where
  "run_calls E iteration pos [] = ([], [], 0)"
| "run_calls E iteration pos (call # calls) =
     (let result = te_tool E iteration pos call;
          (logs, texts, cost) = run_calls E iteration (pos + 1) calls
      in (JObj [(''tool'', JStr (tc_name call)), (''arguments'', tc_args call),
                (''result'', JStr (utf8_take 500 (tr_content result))), (''success'', JBool (tr_success result))] # logs,
          (''## Tool Result: '' @ tc_name call @ newline @ ''Success: '' @ (if tr_success result then ''True'' else ''False'')
             @ newline @ tr_content result @ newline) # texts,
          decimal_str (tr_cost result) + cost))"

datatype rounds_outcome =
    Answered llm_response
  | Raised string
  | Exhausted rat "json list" "string list" "llm_response option"

definition gate :: "loop_args \<Rightarrow> rat \<Rightarrow> bool" where
  "gate a spent = can_afford_another_round (la_limit a) (la_used a) spent (la_model a) (la_max a)"

fun tool_rounds :: "tool_env \<Rightarrow> loop_args \<Rightarrow> nat \<Rightarrow> nat \<Rightarrow> string \<Rightarrow> rat \<Rightarrow> json list \<Rightarrow> string list
    \<Rightarrow> llm_response option \<Rightarrow> rounds_outcome" where
  "tool_rounds E a 0 iteration prompt spent logs texts last_resp = Exhausted spent logs texts last_resp"
| "tool_rounds E a (Suc n) iteration prompt spent logs texts last_resp =
     (case te_generate E iteration \<lparr>rq_prompt = prompt, rq_system = la_system a, rq_model = la_model a,
                                   rq_max = la_max a, rq_tools = la_tools a\<rparr> of
        Inl message \<Rightarrow> Raised message
      | Inr resp \<Rightarrow>
          if lr_calls resp = [] then
            Answered (resp\<lparr>lr_cost := spent + lr_cost resp,
              lr_meta := (if logs = [] then lr_meta resp
                          else AList.update ''tool_iterations'' (JInt (int iteration + 1))
                                 (AList.update ''tool_calls'' (JArr logs) (lr_meta resp)))\<rparr>)
          else
            let (logs', texts', cost) = run_calls E iteration 0 (lr_calls resp);
                spent' = spent + lr_cost resp + cost
            in if \<not> gate a spent' then Exhausted spent' (logs @ logs') texts' (Some resp)
               else tool_rounds E a n (iteration + 1) (round_prompt (la_prompt a) iteration texts')
                      spent' (logs @ logs') texts' (Some resp))"

text \<open>A response without usable text: the caller is told by an empty content.\<close>

definition emptied :: "llm_response \<Rightarrow> rat \<Rightarrow> (string \<times> json) list \<Rightarrow> llm_response" where
  "emptied resp spent meta =
     resp\<lparr>lr_cost := spent, lr_content := [], lr_meta := foldl (\<lambda>m (k, v). AList.update k v m) (lr_meta resp) meta\<rparr>"

definition no_response_message :: string where
  "no_response_message = ''tool loop must have produced at least one response''"

definition run_tool_loop :: "tool_env \<Rightarrow> loop_args \<Rightarrow> string + (llm_response \<times> string option)" where
  "run_tool_loop E a0 =
     (let a = a0\<lparr>la_system := la_system a0 @ (case tool_bias_directive (la_prompt a0) of None \<Rightarrow> [] | Some b \<Rightarrow> b)\<rparr> in
      case tool_rounds E a (la_rounds a) 0 (la_prompt a) 0 [] [] None of
        Answered resp \<Rightarrow> Inr (resp, store_in_cache E (lr_content resp))
      | Raised message \<Rightarrow> Inl message
      | Exhausted spent logs texts last_resp \<Rightarrow>
          if \<not> gate a spent then
            (case last_resp of
               None \<Rightarrow> Inl no_response_message
             | Some resp \<Rightarrow> Inr (emptied resp spent [(''tool_calls'', JArr logs), (''budget_truncated'', JBool True)], None))
          else
            let forced = [(''tool_calls'', JArr logs), (''tool_iterations'', JInt (int (la_rounds a))),
                          (''max_iterations_reached'', JBool True), (''summary_forced'', JBool True)]
            in case te_generate E (la_rounds a) \<lparr>rq_prompt = summary_prompt (la_prompt a) (la_rounds a) texts,
                      rq_system = la_system a, rq_model = la_model a, rq_max = la_max a, rq_tools = False\<rparr> of
                 Inl message \<Rightarrow>
                   (case last_resp of
                      None \<Rightarrow> Inl no_response_message
                    | Some resp \<Rightarrow> Inr (emptied resp spent (forced @ [(''summary_empty'', JBool True)]), None))
               | Inr summary \<Rightarrow>
                   let spent' = spent + lr_cost summary in
                   if str_strip (lr_content summary) \<noteq> [] then
                     Inr (summary\<lparr>lr_cost := spent',
                            lr_meta := foldl (\<lambda>m (k, v). AList.update k v m) (lr_meta summary) forced\<rparr>,
                          store_in_cache E (lr_content summary))
                   else Inr (emptied summary spent' (forced @ [(''summary_empty'', JBool True)]), None))"

section \<open>Spending\<close>

lemma py_double_near:
  assumes "\<bar>x\<bar> \<le> 1000000000"
  shows "py_double x - x \<le> 1 / 1000000" "x - py_double x \<le> 1 / 1000000"
proof -
  have "\<bar>x\<bar> / 2 ^ 53 \<le> 1000000000 / 2 ^ 53" using assms by (intro divide_right_mono) simp_all
  also have "\<dots> \<le> 1 / 1000000" by simp
  finally have "\<bar>py_double x - x\<bar> \<le> 1 / 1000000" using py_double_error[of x] by linarith
  then show "py_double x - x \<le> 1 / 1000000" "x - py_double x \<le> 1 / 1000000" by linarith+
qed

lemma gate_amounts:
  fixes L U S C :: rat
  assumes "0 \<le> L" "L \<le> 100000000" "0 \<le> U" "U \<le> 100000000" "0 \<le> S" "S \<le> 200000000" "0 \<le> C" "C \<le> 1000"
    and gate: "py_double C \<le> py_double (py_double (py_double L - py_double U) - py_double S)"
  shows "U + S + C \<le> L + 1 / 1000"
proof -
  define l u s where "l = py_double L" "u = py_double U" "s = py_double S"
  note near = py_double_near[of L] py_double_near[of U] py_double_near[of S] py_double_near[of C]
  have b: "l - L \<le> 1 / 1000000" "L - l \<le> 1 / 1000000" "u - U \<le> 1 / 1000000" "U - u \<le> 1 / 1000000"
      "s - S \<le> 1 / 1000000" "S - s \<le> 1 / 1000000" "C - py_double C \<le> 1 / 1000000"
    using near assms(1-8) by (simp_all add: l_u_s_def)
  have "\<bar>l - u\<bar> \<le> 1000000000" using b assms(1-8) by (intro abs_leI) linarith+
  note lu = py_double_near[OF this]
  have "\<bar>py_double (l - u) - s\<bar> \<le> 1000000000" using b lu assms(1-8) by (intro abs_leI) linarith+
  note lus = py_double_near[OF this]
  show ?thesis using gate[folded l_u_s_def] b lu lus by linarith
qed

text \<open>What an open gate means for the exact amounts.\<close>

lemma gate_sound:
  assumes "gate a spent" and "0 \<le> la_limit a" "la_limit a \<le> 100000000" "0 \<le> la_used a" "la_used a \<le> 100000000"
    and "0 \<le> spent" "spent \<le> 200000"
    and c: "c = estimate_cost assumed_prompt_tokens (la_max a) (la_model a)" "0 \<le> c" "c \<le> 1"
  shows "la_used a + 1000 * (spent + c) \<le> la_limit a + 1 / 1000"
proof -
  have "py_double (1000 * c) \<le> py_double (py_double (py_double (la_limit a) - py_double (la_used a)) - py_double (1000 * spent))"
    using assms(1) by (simp add: gate_def can_afford_another_round_def tokens_to_credits_def Let_def c(1) mult.commute)
  from gate_amounts[OF _ _ _ _ _ _ _ _ this] assms(2-7) c(2,3)
  have "la_used a + 1000 * spent + 1000 * c \<le> la_limit a + 1 / 1000" by simp
  then show ?thesis by (simp add: algebra_simps)
qed

text \<open>A bound on what one round costs: a call of the model with the tools it asks for.\<close>

definition tools_cost :: "tool_env \<Rightarrow> nat \<Rightarrow> llm_response \<Rightarrow> rat" where
  "tools_cost E i resp = snd (snd (run_calls E i 0 (lr_calls resp)))"

definition rounds_at_most :: "tool_env \<Rightarrow> rat \<Rightarrow> bool" where
  "rounds_at_most E x \<longleftrightarrow> (\<forall>i rq resp. te_generate E i rq = Inr resp
     \<longrightarrow> 0 \<le> lr_cost resp \<and> 0 \<le> tools_cost E i resp \<and> lr_cost resp + tools_cost E i resp \<le> x)"

text \<open>A cost \<open>spent\<close> that is one round's, or overshoots the limit by at most what a round of \<open>x\<close> costs
  above the estimate \<open>c\<close>.\<close>

definition affordable :: "loop_args \<Rightarrow> rat \<Rightarrow> rat \<Rightarrow> rat \<Rightarrow> bool" where
  "affordable a c x spent \<longleftrightarrow> 0 \<le> spent
     \<and> (spent \<le> x \<or> la_used a + 1000 * spent \<le> la_limit a + 1000 * (x - c) + 1 / 1000)"

lemma decimal_str_0 [simp]: "decimal_str 0 = 0"
  by (rule decimal_str_int) simp_all

definition budget_range :: "loop_args \<Rightarrow> rat \<Rightarrow> bool" where
  "budget_range a c \<longleftrightarrow> 0 \<le> la_limit a \<and> la_limit a \<le> 100000000 \<and> 0 \<le> la_used a \<and> la_used a \<le> 100000000
     \<and> c = estimate_cost assumed_prompt_tokens (la_max a) (la_model a) \<and> 0 \<le> c \<and> c \<le> 1"

lemma affordable_next:
  assumes "budget_range a c" "x \<le> 10000" "affordable a c x spent" "gate a spent" "0 \<le> y" "y \<le> x"
  shows "affordable a c x (spent + y)"
proof -
  have "spent \<le> 200000" using assms(1-3) by (auto simp: affordable_def budget_range_def)
  then have "la_used a + 1000 * (spent + c) \<le> la_limit a + 1 / 1000"
    using gate_sound[of a spent c] assms by (simp add: affordable_def budget_range_def)
  then have "la_used a + 1000 * (spent + y) \<le> la_limit a + 1000 * (x - c) + 1 / 1000" using assms(6) by (simp add: algebra_simps)
  then show ?thesis using assms(3,5) by (simp add: affordable_def)
qed

definition outcome_spent :: "rounds_outcome \<Rightarrow> rat option" where
  "outcome_spent r = (case r of Answered resp \<Rightarrow> Some (lr_cost resp) | Raised _ \<Rightarrow> None | Exhausted s _ _ _ \<Rightarrow> Some s)"

text \<open>Every round starts with nothing spent or with an open gate.\<close>

lemma tool_rounds_affordable:
  assumes "rounds_at_most E x" "budget_range a c" "x \<le> 10000"
  shows "affordable a c x spent \<Longrightarrow> spent = 0 \<or> gate a spent \<Longrightarrow>
    outcome_spent (tool_rounds E a n i prompt spent logs texts last_resp) = Some amount \<Longrightarrow> affordable a c x amount"
proof (induction n arbitrary: i prompt spent logs texts last_resp)
  case (Suc n)
  show ?case
  proof (cases "te_generate E i \<lparr>rq_prompt = prompt, rq_system = la_system a, rq_model = la_model a,
                                 rq_max = la_max a, rq_tools = la_tools a\<rparr>")
    case (Inr resp)
    have r: "0 \<le> lr_cost resp" "0 \<le> tools_cost E i resp" "lr_cost resp + tools_cost E i resp \<le> x"
      using assms(1) Inr unfolding rounds_at_most_def by blast+
    have next_ok: "affordable a c x (spent + y)" if "0 \<le> y" "y \<le> x" for y
    proof (cases "spent = 0")
      case True
      with that show ?thesis by (simp add: affordable_def)
    next
      case False
      with Suc.prems affordable_next[OF assms(2,3)] that show ?thesis by blast
    qed
    obtain logs' texts' cost where rc: "run_calls E i 0 (lr_calls resp) = (logs', texts', cost)"
      by (cases "run_calls E i 0 (lr_calls resp)") auto
    then have cost: "cost = tools_cost E i resp" by (simp add: tools_cost_def)
    have "affordable a c x (spent + lr_cost resp)" "affordable a c x (spent + lr_cost resp + cost)"
      using next_ok[of "lr_cost resp"] next_ok[of "lr_cost resp + cost"] r by (simp_all add: cost add.assoc)
    then show ?thesis
      using Suc.prems(3) Suc.IH[of "spent + lr_cost resp + cost"] Inr rc
      by (auto simp: Let_def outcome_spent_def split: if_splits)
  qed (use Suc.prems in \<open>simp add: outcome_spent_def\<close>)
qed (simp add: outcome_spent_def)

lemma gate_only_budget: "gate (a\<lparr>la_system := s\<rparr>) spent = gate a spent"
  "budget_range (a\<lparr>la_system := s\<rparr>) c = budget_range a c" "affordable (a\<lparr>la_system := s\<rparr>) c x spent = affordable a c x spent"
  by (simp_all add: gate_def budget_range_def affordable_def)

text \<open>C12. The tool loop of a node overshoots the workflow budget by at most one round: whatever bound \<open>x\<close> the
  cost of a single round (one model call and the tools it asks for) has, what a node has run up is
  either at most one round, or exceeds what the limit leaves by no more than \<open>x\<close> lies above the estimate
  \<open>c\<close> that the gate before each further round uses, and a thousandth of a credit, however many rounds
  the model asks for, the forced summary included. In particular, when no round costs more than the
  estimate, every round after the first keeps the workflow within its limit. Limits and usage are in
  the range of their columns, the estimate is at most a dollar and \<open>x\<close> at most 10000.\<close>

theorem tool_loop_within_budget:
  assumes "rounds_at_most E x" and "budget_range a c" and "0 \<le> x" and "x \<le> 10000" and "run_tool_loop E a = Inr (resp, cached)"
  shows "0 \<le> lr_cost resp
    \<and> (lr_cost resp \<le> x \<or> la_used a + 1000 * lr_cost resp \<le> la_limit a + 1000 * (x - c) + 1 / 1000)"
proof -
  define b where "b = a\<lparr>la_system := la_system a @ (case tool_bias_directive (la_prompt a) of None \<Rightarrow> [] | Some b \<Rightarrow> b)\<rparr>"
  define r where "r = tool_rounds E b (la_rounds b) 0 (la_prompt b) 0 [] [] None"
  have range: "budget_range b c" using assms(2) by (simp add: b_def gate_only_budget)
  have ok: "affordable b c x amount" if "outcome_spent r = Some amount" for amount
  proof -
    have "affordable b c x 0" using assms(3) by (simp add: affordable_def)
    from tool_rounds_affordable[OF assms(1) range assms(4) this disjI1[OF refl] that[unfolded r_def]] show ?thesis .
  qed
  note run = assms(5)[unfolded run_tool_loop_def, folded b_def, unfolded Let_def, folded r_def]
  have "affordable b c x (lr_cost resp)"
  proof (cases r)
    case (Answered y)
    with run ok show ?thesis by (simp add: outcome_spent_def)
  next
    case (Raised m)
    with run show ?thesis by simp
  next
    case (Exhausted spent logs texts last_resp)
    have sp: "affordable b c x spent" using ok Exhausted by (simp add: outcome_spent_def)
    show ?thesis
    proof (cases "gate b spent")
      case False
      with run Exhausted sp show ?thesis by (auto simp: emptied_def split: option.splits)
    next
      case True
      have "affordable b c x (spent + lr_cost y)" if "te_generate E j rq = Inr y" for j rq y
      proof (rule affordable_next[OF range assms(4) sp True])
        have "0 \<le> lr_cost y \<and> 0 \<le> tools_cost E j y \<and> lr_cost y + tools_cost E j y \<le> x"
          using assms(1) that unfolding rounds_at_most_def by blast
        then show "0 \<le> lr_cost y" "lr_cost y \<le> x" by linarith+
      qed
      with True run Exhausted sp show ?thesis
        by (auto simp: emptied_def split: option.splits sum.splits if_splits)
    qed
  qed
  then show ?thesis by (simp add: b_def gate_only_budget affordable_def)
qed

text \<open>Tool costs are credits, but they are added to dollars: a tool of \<open>t\<close> credits is billed as \<open>1000 t\<close>.\<close>

theorem tool_credits_billed_as_dollars:
  assumes "tool_bias_directive (la_prompt a) = None" "1 < la_rounds a" "gate a (lr_cost x + decimal_str t)"
    and "\<And>rq. te_generate E 0 rq = Inr x" "lr_calls x = [call]" "tr_cost (te_tool E 0 0 call) = t"
    and "\<And>rq. te_generate E 1 rq = Inr y" "lr_calls y = []"
  shows "\<exists>resp cached. run_tool_loop E a = Inr (resp, cached) \<and> lr_cost resp = lr_cost x + decimal_str t + lr_cost y"
proof -
  obtain n where n: "la_rounds a = Suc (Suc n)" by (cases "la_rounds a"; cases "la_rounds a - 1") (use assms(2) in auto)
  have again: "\<exists>resp. tool_rounds E a (Suc m) 1 prompt spent logs texts r = Answered resp \<and> lr_cost resp = spent + lr_cost y" for m prompt spent logs texts r
    unfolding tool_rounds.simps assms(7) sum.case assms(8) by (simp only: simp_thms if_True rounds_outcome.inject) simp
  obtain ls ts where c0: "run_calls E 0 0 [call] = (ls, ts, decimal_str t)"
    using assms(6) by (simp add: Let_def)
  have "tool_rounds E a (la_rounds a) 0 (la_prompt a) 0 [] [] None
      = tool_rounds E a (Suc n) 1 (round_prompt (la_prompt a) 0 ts) (lr_cost x + decimal_str t) ls ts (Some x)"
    using assms(3) by (simp del: tool_rounds.simps run_calls.simps add: tool_rounds.simps(2)[of E a "Suc n"] n assms(4,5) c0)
  with again obtain resp where "tool_rounds E a (la_rounds a) 0 (la_prompt a) 0 [] [] None = Answered resp"
      "lr_cost resp = lr_cost x + decimal_str t + lr_cost y" by metis
  then show ?thesis by (auto simp: run_tool_loop_def Let_def assms(1))
qed

section \<open>A node that uses a tool\<close>

definition demo_response :: "string \<Rightarrow> rat \<Rightarrow> tool_call list \<Rightarrow> llm_response" where
  "demo_response content cost calls = \<lparr>lr_content = content, lr_model = sonnet_model, lr_cost = cost, lr_tokens = 700,
     lr_latency = 900, lr_calls = calls, lr_meta = []\<rparr>"

definition demo_tool_env :: tool_env where
  "demo_tool_env =
     \<lparr>te_generate = (\<lambda>j rq. Inr (if j = 0 then demo_response [] (1 / 100) [\<lparr>tc_name = ''web_search'', tc_args = JNull\<rparr>]
                                   else demo_response ''done'' (1 / 50) [])),
      te_tool = (\<lambda>i j call. \<lparr>tr_content = ''three hits'', tr_success = True, tr_cost = 0\<rparr>),
      te_embeddings = False\<rparr>"

definition demo_loop_args :: loop_args where
  "demo_loop_args = \<lparr>la_prompt = ''find it'', la_system = [], la_model = sonnet_model, la_max = 2000, la_rounds = 5,
     la_limit = 100, la_used = 0, la_tools = True\<rparr>"

theorem tool_loop_within_budget_witness:
  "\<exists>resp cached. run_tool_loop demo_tool_env demo_loop_args = Inr (resp, cached) \<and> lr_cost resp = 3 / 100
     \<and> 1000 * lr_cost resp \<le> 100 - 28 + 1 / 1000"
proof -
  have est: "estimate_cost assumed_prompt_tokens 2000 sonnet_model = 6 / 125"
    by (simp add: estimate_cost_def selected_prices assumed_prompt_tokens_def)
  have bias: "tool_bias_directive (la_prompt demo_loop_args) = None"
    unfolding demo_loop_args_def by code_simp
  have "py_double 48 = 48" "py_double 10 = 10" "py_double 100 = 100" "py_double 90 = 90"
    by (rule py_double_int; simp)+
  then have "gate demo_loop_args (1 / 100)"
    by (simp add: gate_def can_afford_another_round_def tokens_to_credits_def demo_loop_args_def est)
  then have "\<exists>resp cached. run_tool_loop demo_tool_env demo_loop_args = Inr (resp, cached)
      \<and> lr_cost resp = 1 / 100 + decimal_str 0 + 1 / 50"
    using tool_credits_billed_as_dollars[where a = demo_loop_args and E = demo_tool_env
        and x = "demo_response [] (1 / 100) [\<lparr>tc_name = ''web_search'', tc_args = JNull\<rparr>]"
        and y = "demo_response ''done'' (1 / 50) []" and t = 0, OF bias]
    by (simp add: demo_tool_env_def demo_response_def demo_loop_args_def)
  then obtain resp cached where r: "run_tool_loop demo_tool_env demo_loop_args = Inr (resp, cached)" "lr_cost resp = 3 / 100"
    by auto
  have "rounds_at_most demo_tool_env (1 / 50)"
    by (auto simp: rounds_at_most_def tools_cost_def demo_tool_env_def demo_response_def)
  moreover have "budget_range demo_loop_args (6 / 125)" by (simp add: budget_range_def demo_loop_args_def est)
  ultimately have "0 \<le> lr_cost resp \<and> (lr_cost resp \<le> 1 / 50
      \<or> la_used demo_loop_args + 1000 * lr_cost resp \<le> la_limit demo_loop_args + 1000 * (1 / 50 - 6 / 125) + 1 / 1000)"
    using r(1) by (intro tool_loop_within_budget) simp_all
  with r show ?thesis by (simp add: demo_loop_args_def)
qed

end
