(* ===== verification/Scheduler.thy ===== *)
theory Scheduler
  imports Tool_Loop Checkpoint Wallet Policy_Rules
begin

text \<open>
  Models \<open>WorkflowScheduler\<close> of \<^verbatim>\<open>backend/app/orchestration/scheduler.py\<close> with the modules it drives:
  the graph, the wallet, the policy registry, the tool loop, checkpoints, and
  \<^verbatim>\<open>backend/app/intelligence/dynamic_replanner.py\<close> and \<^verbatim>\<open>backend/app/intelligence/self_correction.py\<close>.

  A run is a sequence of batches. A batch prepares every ready node (reservation, task row, context),
  passes the policy and approval gates, calls the models, and processes the results one by one. The
  answers of everything outside these modules are the parameter \<open>E :: sched_env\<close>, indexed by the
  number of the batch and the node id, since a node runs at most once in a batch: contexts from
  shared memory, decisions found in the federation, the approval service, language models and tools,
  the memory and trust services, consensus and reflection verdicts, the final synthesis.

  The database accepts the rows the scheduler writes itself, with fresh task ids; of the
  wallet's errors those raised while writing leave the session unusable, so that the next flush ends
  the run with an exception. That rollback is applied to the wallet only: two schedulers on one workflow
  at the same time are not modelled. Published events, log lines and timestamps are left out.
\<close>

section \<open>State\<close>

record task_row =
  tk_id :: uuid
  tk_workflow :: uuid
  tk_agent :: "uuid option"
  tk_step :: nat
  tk_capability :: string
  tk_description :: string
  tk_status :: task_status
  tk_error :: "string option"
  tk_output :: "(string \<times> json) list option"
  tk_confidence :: "rat option"
  tk_cost :: rat
  tk_latency :: "rat option"
  tk_retries :: nat

text \<open>
  \<open>ss_status\<close>, \<open>ss_result\<close> and \<open>ss_snapshot\<close> are columns of the workflow row, \<open>ss_memory\<close> the results
  written to shared memory (node id and content), \<open>ss_checkpoints\<close> the checkpoints saved and
  \<open>ss_cache\<close> the entries of the semantic cache (capability and content).
\<close>

record sched_state =
  ss_dag :: dag
  ss_tasks :: "task_row list"
  ss_wallet :: wallet_state
  ss_zsets :: zstore
  ss_status :: workflow_status
  ss_result :: "(string \<times> json) list option"
  ss_snapshot :: "(string \<times> json) list"
  ss_replans :: nat
  ss_memory :: "(string \<times> string) list"
  ss_checkpoints :: "checkpoint list"
  ss_cache :: "(string \<times> string) list"

record reflection =
  rf_action :: string
  rf_confidence :: rat
  rf_issues :: "string list"
  rf_suggestions :: "string list"

record fed_decision =
  fd_status :: string
  fd_by :: "string option"
  fd_reason :: string

text \<open>What \<open>request_approval\<close> and the status check after it give: an exception, or the id of the request
  and its status, if it is still known.\<close>

datatype gate_answer = GateRaises string | GateAnswer string "string option"

record trust_scores =
  ts_quality :: rat
  ts_latency :: rat
  ts_cost :: rat

record sched_env =
  se_wallet :: wallet_env
  se_rules :: "(policy_context, zstore) registry"
  se_policy_now :: "nat \<Rightarrow> int"
  se_render :: "reason \<Rightarrow> string"
  se_new_task :: "task_row list \<Rightarrow> uuid"
  se_context :: "nat \<Rightarrow> string \<Rightarrow> string + string"
  se_federated :: "nat \<Rightarrow> string \<Rightarrow> fed_decision option"
  se_clock :: clock
  se_save :: "checkpoint \<Rightarrow> string option"
  se_gate :: "nat \<Rightarrow> string \<Rightarrow> string option \<Rightarrow> gate_answer"
  se_status_commit :: "nat \<Rightarrow> string \<Rightarrow> bool"
  se_agent_prompt :: "string \<Rightarrow> string"
  se_agent_name :: "uuid \<Rightarrow> string"
  se_tool_schemas :: "agent_row \<Rightarrow> bool"
  se_max_iterations :: nat
  se_cache_row :: "nat \<Rightarrow> string \<Rightarrow> string option"
  se_tools :: "nat \<Rightarrow> string \<Rightarrow> tool_env"
  se_invalid_content :: string
  se_write_memory :: "nat \<Rightarrow> string \<Rightarrow> string option"
  se_record_trust :: "nat \<Rightarrow> string \<Rightarrow> trust_scores \<Rightarrow> string option"
  se_consensus :: "nat \<Rightarrow> string \<Rightarrow> (bool \<times> rat) option"
  se_request_review :: "nat \<Rightarrow> string \<Rightarrow> bool"
  se_reflect :: "nat \<Rightarrow> string \<Rightarrow> reflection option"
  se_synthesize :: "dag \<Rightarrow> string + (string \<times> json) list"

datatype sched_error = SchedDag dag_error | SchedWallet wallet_error | SchedRaises string | SchedBrokenSession

text \<open>An entry of \<open>node_contexts\<close> together with the node's reservation.\<close>

record prepared =
  pn_node :: dag_node
  pn_task :: uuid
  pn_agent :: agent_row
  pn_context :: string
  pn_reservation :: wallet_event

record pause =
  pz_node :: string
  pz_request :: string
  pz_checkpoint :: "string option"

definition max_replans :: nat where "max_replans = 3"
definition max_retries_per_task :: nat where "max_retries_per_task = 2"

definition high_risk_capabilities :: "string list" where
  "high_risk_capabilities = [''risk-assessment'', ''compliance-check'', ''safety-analysis'']"

definition pn_id :: "prepared \<Rightarrow> string" where "pn_id p = dn_id (pn_node p)"

section \<open>Rows and nodes\<close>

definition update_task :: "uuid \<Rightarrow> (task_row \<Rightarrow> task_row) \<Rightarrow> sched_state \<Rightarrow> sched_state" where
  "update_task t f st = st\<lparr>ss_tasks := map (\<lambda>r. if tk_id r = t then f r else r) (ss_tasks st)\<rparr>"

definition fail_node :: "string \<Rightarrow> string \<Rightarrow> sched_state \<Rightarrow> sched_error + sched_state" where
  "fail_node i message st =
     bindE (mapErr SchedDag (mark_failed (ss_dag st) i (Some message))) (\<lambda>(d, skipped). Inr (st\<lparr>ss_dag := d\<rparr>))"

definition step_number :: "string \<Rightarrow> nat" where
  "step_number i = foldl (\<lambda>n c. 10 * n + (case digit_value c of None \<Rightarrow> 0 | Some v \<Rightarrow> v)) 0 (filter is_digit i)"

definition upsert_task_row :: "sched_env \<Rightarrow> uuid \<Rightarrow> string \<Rightarrow> uuid \<Rightarrow> task_status \<Rightarrow> string option \<Rightarrow> sched_state
    \<Rightarrow> sched_error + (uuid \<times> sched_state)" where
  "upsert_task_row E w i agent status message st =
     bindE (mapErr SchedDag (get_node (ss_dag st) i)) (\<lambda>n.
       case Option.bind (dn_task n) (\<lambda>t. lookup_by tk_id t (ss_tasks st)) of
         Some row \<Rightarrow>
           Inr (tk_id row, update_task (tk_id row)
             (\<lambda>r. r\<lparr>tk_status := status, tk_error := message, tk_agent := Some agent\<rparr>) st)
       | None \<Rightarrow>
           let t = se_new_task E (ss_tasks st) in
           if t \<in> tk_id ` set (ss_tasks st) then Inl SchedBrokenSession
           else Inr (t, st\<lparr>ss_tasks := ss_tasks st @
                  [\<lparr>tk_id = t, tk_workflow = w, tk_agent = Some agent, tk_step = step_number i,
                    tk_capability = dn_capability n, tk_description = dn_description n, tk_status = status,
                    tk_error = message, tk_output = None, tk_confidence = None, tk_cost = 0, tk_latency = None,
                    tk_retries = 0\<rparr>],
                  ss_dag := set_node (n\<lparr>dn_task := Some t\<rparr>) (ss_dag st)\<rparr>))"

section \<open>Phase 1: preparing the ready nodes\<close>

definition reserve_key :: "uuid \<Rightarrow> string \<Rightarrow> string" where
  "reserve_key w i = str_uuid w @ '':'' @ i @ '':reserve''"

definition charge_key :: "uuid \<Rightarrow> string \<Rightarrow> string" where
  "charge_key w i = str_uuid w @ '':'' @ i @ '':charge''"

text \<open>\<open>f"{x:.1f}"\<close> for \<open>x\<close> at least 0.\<close>

definition format_1f :: "rat \<Rightarrow> string" where
  "format_1f x = (let n = half_even (x * 10) in str_int (n div 10) @ ''.'' @ str_int (n mod 10))"

definition prepare_node :: "sched_env \<Rightarrow> uuid \<Rightarrow> (string \<times> agent_row) list \<Rightarrow> nat \<Rightarrow> dag_node \<Rightarrow> sched_state
    \<Rightarrow> sched_error + (prepared option \<times> sched_state)" where
  "prepare_node E w agents k node st =
     (let i = dn_id node in
      case map_of agents i of
        None \<Rightarrow> bindE (fail_node i ''No agent assigned'' st) (\<lambda>st'. Inr (None, st'))
      | Some agent \<Rightarrow>
          let cost = estimate_node_cost (se_max_iterations E) node agent in
          case reserve_budget (se_wallet E) w (ag_id agent) cost
                 (''Task '' @ i @ '': '' @ dn_capability node) (Some (reserve_key w i)) (ss_wallet st) of
            Inl BudgetExhausted \<Rightarrow>
              bindE (fail_node i (''Budget insufficient for '' @ dn_capability node @ '': need ~'' @ format_1f cost @ '' cr'') st)
                (\<lambda>st1. bindE (upsert_task_row E w i (ag_id agent) TsFailed
                        (Some (''Budget insufficient: need ~'' @ format_1f cost @ '' cr'')) st1)
                  (\<lambda>(t, st2). Inr (None, st2)))
          | Inl e \<Rightarrow> Inl (SchedWallet e)
          | Inr (reservation, wallet) \<Rightarrow>
              bindE (mapErr SchedDag (mark_running (ss_dag st) i)) (\<lambda>d.
              bindE (upsert_task_row E w i (ag_id agent) TsRunning None (st\<lparr>ss_wallet := wallet, ss_dag := d\<rparr>)) (\<lambda>(t, st1).
              bindE (mapErr SchedRaises (se_context E k i)) (\<lambda>context.
                Inr (Some \<lparr>pn_node = node, pn_task = t, pn_agent = agent, pn_context = context,
                           pn_reservation = reservation\<rparr>, st1)))))"

fun prepare_nodes :: "sched_env \<Rightarrow> uuid \<Rightarrow> (string \<times> agent_row) list \<Rightarrow> nat \<Rightarrow> dag_node list \<Rightarrow> sched_state
    \<Rightarrow> sched_error + (prepared list \<times> sched_state)" where
  "prepare_nodes E w agents k [] st = Inr ([], st)"
| "prepare_nodes E w agents k (node # nodes) st =
     bindE (prepare_node E w agents k node st) (\<lambda>(p, st1).
     bindE (prepare_nodes E w agents k nodes st1) (\<lambda>(ps, st2).
       Inr (case p of None \<Rightarrow> ps | Some p' \<Rightarrow> p' # ps, st2)))"

section \<open>Phase 1.5: policy and approval\<close>

definition node_policy_context :: "sched_env \<Rightarrow> uuid \<Rightarrow> nat \<Rightarrow> prepared \<Rightarrow> policy_context" where
  "node_policy_context E w k p =
     \<lparr>pc_agent_did = None, pc_trust_score = Some (ag_trust_score (pn_agent p)),
      pc_capabilities = (case ag_capabilities (pn_agent p) of None \<Rightarrow> [] | Some cs \<Rightarrow> cs),
      pc_agent_id = Some (ag_id (pn_agent p)), pc_action = ''execute_'' @ dn_capability (pn_node p),
      pc_category = Some (dn_capability (pn_node p)), pc_tool_name = None, pc_amount = None, pc_target = None,
      pc_estimated_cost = None, pc_workflow_id = Some w, pc_task_id = Some (pn_task p),
      pc_now = se_policy_now E k, pc_redis = True,
      pc_extra = \<lparr>px_cost_escalate_at = Absent, px_cost_deny_at = Absent, px_sensitive = Absent,
        px_require_credential = False, px_credential = NoCredential, px_max_depth = Absent, px_depth = Absent,
        px_known_tools = Absent, px_pii_tools = Absent, px_capacity = Absent, px_window = Absent, px_signature = None,
        px_start_hour = Absent, px_end_hour = Absent\<rparr>\<rparr>"

definition node_decision :: "sched_env \<Rightarrow> uuid \<Rightarrow> nat \<Rightarrow> prepared \<Rightarrow> zstore \<Rightarrow> decision \<times> zstore" where
  "node_decision E w k p zs = evaluate (se_rules E) (node_policy_context E w k p) None zs"

text \<open>The nodes that stay, those to escalate, and the new state.\<close>

fun policy_nodes :: "sched_env \<Rightarrow> uuid \<Rightarrow> nat \<Rightarrow> prepared list \<Rightarrow> sched_state \<Rightarrow> prepared list \<times> prepared list \<times> sched_state" where
  "policy_nodes E w k [] st = ([], [], st)"
| "policy_nodes E w k (p # ps) st =
     (let (d, zs) = node_decision E w k p (ss_zsets st); st1 = st\<lparr>ss_zsets := zs\<rparr> in
      if de_action d = DecDeny then
        policy_nodes E w k ps (update_task (pn_task p) (\<lambda>r. r\<lparr>tk_status := TsSkipped,
          tk_error := Some (''Policy denied ('' @ (case de_rule_id d of None \<Rightarrow> ''None'' | Some i \<Rightarrow> i) @ ''): ''
                            @ se_render E (de_reason d))\<rparr>) st1)
      else
        let (kept, escalated, st2) = policy_nodes E w k ps st1
        in (p # kept, if de_action d = DecEscalate then p # escalated else escalated, st2))"

definition policy_evaluate_nodes :: "sched_env \<Rightarrow> uuid \<Rightarrow> nat \<Rightarrow> prepared list \<Rightarrow> sched_state
    \<Rightarrow> prepared list \<times> prepared list \<times> sched_state" where
  "policy_evaluate_nodes E w k ps st =
     (if registry_all False (se_rules E) = [] then (ps, [], st) else policy_nodes E w k ps st)"

definition needing_approval :: "dag_node list \<Rightarrow> prepared list \<Rightarrow> dag_node list" where
  "needing_approval active escalated =
     (let risky = filter (\<lambda>n. dn_capability n \<in> set high_risk_capabilities) active
      in risky @ filter (\<lambda>n. n \<notin> set risky) (map pn_node escalated))"

definition drop_node :: "string \<Rightarrow> prepared list \<Rightarrow> prepared list" where
  "drop_node i ps = filter (\<lambda>p. pn_id p \<noteq> i) ps"

text \<open>Pausing: what this session changed after its last commit is rolled back, and a session of its own
  writes the new statuses. \<open>committed\<close> are the task rows of that commit.\<close>

definition pause_state :: "sched_env \<Rightarrow> nat \<Rightarrow> prepared \<Rightarrow> string \<Rightarrow> task_row list \<Rightarrow> sched_state \<Rightarrow> sched_state" where
  "pause_state E k p request_id committed st =
     (let st1 = st\<lparr>ss_tasks := committed\<rparr> in
      if se_status_commit E k (pn_id p) then
        update_task (pn_task p) (\<lambda>r. r\<lparr>tk_status := TsAwaitingApproval,
          tk_error := Some (''Awaiting human approval (request: '' @ request_id @ '')'')\<rparr>)
          (st1\<lparr>ss_status := WfAwaitingApproval\<rparr>)
      else st1)"

definition pause_checkpoint :: "sched_env \<Rightarrow> uuid \<Rightarrow> prepared \<Rightarrow> dag \<Rightarrow> checkpoint" where
  "pause_checkpoint E w p d =
     from_dag (se_clock E) w d (''awaiting_approval: '' @ dn_capability (pn_node p)) (Some (pn_id p))
       [(''capability'', JStr (dn_capability (pn_node p))), (''agent'', JStr (se_agent_name E (ag_id (pn_agent p))))] None"

definition save_pause :: "sched_env \<Rightarrow> checkpoint \<Rightarrow> sched_state \<Rightarrow> string option \<times> sched_state" where
  "save_pause E cp st =
     (case se_save E cp of
        None \<Rightarrow> (None, st)
      | Some h \<Rightarrow> (Some h, st\<lparr>ss_checkpoints := ss_checkpoints st @ [cp\<lparr>cp_hash := Some h\<rparr>]\<rparr>))"

text \<open>A node that policy removed has no entry in \<open>node_contexts\<close> any more; the lookup raises.\<close>

fun approval_gate :: "sched_env \<Rightarrow> uuid \<Rightarrow> nat \<Rightarrow> task_row list \<Rightarrow> dag_node list \<Rightarrow> prepared list \<Rightarrow> sched_state
    \<Rightarrow> sched_error + (pause option \<times> prepared list \<times> sched_state)" where
  "approval_gate E w k committed [] ps st = Inr (None, ps, st)"
| "approval_gate E w k committed (node # nodes) ps st =
     (let i = dn_id node in
      case lookup_by pn_id i ps of
        None \<Rightarrow> Inl (SchedRaises ([CHR 0x27] @ i @ [CHR 0x27]))
      | Some p \<Rightarrow>
          (case se_federated E k i of
             Some fd \<Rightarrow>
               if fd_status fd = ''denied'' then
                 bindE (fail_node i (''Denied by human: '' @ (case fd_by fd of None \<Rightarrow> ''reviewer'' | Some b \<Rightarrow>
                          if b = [] then ''reviewer'' else b)) st) (\<lambda>st1.
                   approval_gate E w k committed nodes (drop_node i ps)
                     (update_task (pn_task p) (\<lambda>r. r\<lparr>tk_status := TsSkipped,
                        tk_error := Some (''Denied: '' @ fd_reason fd)\<rparr>) st1))
               else approval_gate E w k committed nodes ps st
           | None \<Rightarrow>
               bindE (mapErr SchedDag (mark_pending (ss_dag st) i)) (\<lambda>d.
                 let (h, st1) = save_pause E (pause_checkpoint E w p d) (st\<lparr>ss_dag := d\<rparr>) in
                 case se_gate E k i h of
                   GateRaises message \<Rightarrow> Inl (SchedRaises message)
                 | GateAnswer request_id status \<Rightarrow>
                     if status = Some ''pending'' then
                       Inr (Some \<lparr>pz_node = i, pz_request = request_id, pz_checkpoint = h\<rparr>, ps,
                            pause_state E k p request_id committed st1)
                     else approval_gate E w k committed nodes ps
                            (update_task (pn_task p) (\<lambda>r. r\<lparr>tk_status := TsRunning, tk_error := None\<rparr>) st1))))"

section \<open>Phase 2: running the models\<close>

definition build_agent_prompt :: "dag_node \<Rightarrow> string \<Rightarrow> string" where
  "build_agent_prompt node context =
     ''## Task'' @ newline @ dn_description node @ newline @ newline
     @ ''## Context from Prior Agents'' @ newline @ context @ newline @ newline
     @ ''## Instructions'' @ newline
     @ ''Complete this task thoroughly. Build on the context provided by prior agents. ''
     @ ''Be specific, actionable, and thorough in your analysis.''"

definition check_semantic_cache :: "sched_env \<Rightarrow> nat \<Rightarrow> string \<Rightarrow> llm_response option" where
  "check_semantic_cache E k i =
     (case se_cache_row E k i of
        None \<Rightarrow> None
      | Some content \<Rightarrow>
          if \<not> is_cacheable content then None
          else Some \<lparr>lr_content = content, lr_model = ''cache'', lr_cost = 0, lr_tokens = 0, lr_latency = 1 / 2,
                     lr_calls = [], lr_meta = [(''stop_reason'', JStr ''cache_hit''), (''provider'', JStr ''cache'')]\<rparr>)"

definition llm_call :: "sched_env \<Rightarrow> nat \<Rightarrow> budget_row \<Rightarrow> prepared \<Rightarrow> string + (llm_response \<times> string option)" where
  "llm_call E k flow p =
     (let node = pn_node p; (model, max_tok) = select_model node in
      case check_semantic_cache E k (pn_id p) of
        Some resp \<Rightarrow> Inr (resp, None)
      | None \<Rightarrow>
          run_tool_loop (se_tools E k (pn_id p))
            \<lparr>la_prompt = build_agent_prompt node (pn_context p), la_system = se_agent_prompt E (dn_capability node),
             la_model = model, la_max = max_tok, la_rounds = se_max_iterations E,
             la_limit = br_limit flow, la_used = br_used flow, la_tools = se_tool_schemas E (pn_agent p)\<rparr>)"

definition cached_contents :: "(prepared \<times> (string + (llm_response \<times> string option))) list \<Rightarrow> (string \<times> string) list" where
  "cached_contents results =
     List.map_filter (\<lambda>(p, r). case r of Inr (resp, Some c) \<Rightarrow> Some (dn_capability (pn_node p), c) | _ \<Rightarrow> None) results"

section \<open>Reflection\<close>

definition feedback_prompt :: "string list \<Rightarrow> string list \<Rightarrow> string" where
  "feedback_prompt issues suggestions =
     join newline
       ([newline @ newline @ ''## Feedback from Quality Review'' @ newline]
        @ (if issues = [] then [] else ''**Issues identified:**'' # map (\<lambda>x. ''- '' @ x) (take 3 issues))
        @ (if suggestions = [] then []
           else (newline @ ''**Suggestions for improvement:**'') # map (\<lambda>x. ''- '' @ x) (take 3 suggestions))
        @ [newline @ ''Please address these issues in your revised response.''])"

text \<open>\<open>SelfCorrectionEngine.evaluate\<close>: the improved prompt, if the task is to be retried.\<close>

definition evaluate_retry :: "reflection \<Rightarrow> nat \<Rightarrow> string option" where
  "evaluate_retry rf retry_count =
     (if max_retries_per_task \<le> retry_count then None
      else if rf_action rf \<notin> {''retry_task'', ''re_plan''} then None
      else if py_double (3 / 5) \<le> rf_confidence rf then None
      else Some (feedback_prompt (rf_issues rf) (rf_suggestions rf)))"

text \<open>\<open>DynamicReplanner.replan\<close>: the id of the node it added.\<close>

definition replan :: "dag \<Rightarrow> string \<Rightarrow> string \<Rightarrow> string \<Rightarrow> dag_error + (dag \<times> string option)" where
  "replan d failed_node_id reflection_action context =
     (if reflection_action \<noteq> ''re_plan'' then Inr (d, None)
      else bindE (get_node d failed_node_id) (\<lambda>n.
        let alt = \<lparr>dn_id = failed_node_id @ ''_alt'', dn_capability = dn_capability n,
                   dn_description = ''[RETRY with different approach] '' @ dn_description n @ newline
                     @ ''Previous attempt was inadequate. '' @ context @ newline
                     @ ''Use a fundamentally different methodology or perspective.'',
                   dn_depends_on = dn_depends_on n, dn_complexity = dn_complexity n, dn_agent = None, dn_task = None,
                   dn_status = TsPending, dn_output = None, dn_error = None\<rparr>
        in case add_node d alt of Inl _ \<Rightarrow> Inr (d, None) | Inr d' \<Rightarrow> Inr (d', Some (dn_id alt))))"

definition set_output :: "string \<Rightarrow> json \<Rightarrow> task_row \<Rightarrow> task_row" where
  "set_output key v r = r\<lparr>tk_output := Some (AList.update key v (case tk_output r of None \<Rightarrow> [] | Some kvs \<Rightarrow> kvs))\<rparr>"

definition drop_output :: "string \<Rightarrow> task_row \<Rightarrow> task_row" where
  "drop_output key r = r\<lparr>tk_output := map_option (filter (\<lambda>(k, v). k \<noteq> key)) (tk_output r)\<rparr>"

definition join_or :: "string \<Rightarrow> string list \<Rightarrow> string \<Rightarrow> string" where
  "join_or sep xs fallback = (if join sep xs = [] then fallback else join sep xs)"

definition reflection_entry :: "nat \<Rightarrow> reflection \<Rightarrow> json" where
  "reflection_entry n rf = JObj [(''action'', JStr (rf_action rf)), (''confidence'', JFloat (FFin (rf_confidence rf))),
     (''issues'', JArr (map JStr (take n (rf_issues rf)))), (''suggestions'', JArr (map JStr (take n (rf_suggestions rf))))]"

definition retries_of :: "uuid \<Rightarrow> sched_state \<Rightarrow> nat" where
  "retries_of t st = (case lookup_by tk_id t (ss_tasks st) of None \<Rightarrow> 0 | Some r \<Rightarrow> tk_retries r)"

text \<open>The branch \<open>retry_task\<close>; the flag is \<open>continue_loop\<close>.\<close>

definition reflect_retry :: "prepared \<Rightarrow> reflection \<Rightarrow> sched_state \<Rightarrow> sched_error + (bool \<times> sched_state)" where
  "reflect_retry p rf st =
     (case evaluate_retry rf (retries_of (pn_task p) st) of
        None \<Rightarrow> Inr (False, st)
      | Some improved \<Rightarrow>
          bindE (mapErr SchedDag (mark_pending (ss_dag st) (pn_id p))) (\<lambda>d.
            Inr (True, update_task (pn_task p)
              (\<lambda>r. drop_output ''review_requested'' (set_output ''retry_feedback'' (JStr improved)
                     (r\<lparr>tk_retries := tk_retries r + 1, tk_status := TsPending\<rparr>))) (st\<lparr>ss_dag := d\<rparr>))))"

text \<open>The branches \<open>re_plan\<close> and \<open>add_verifier\<close>.\<close>

definition reflect_replan :: "prepared \<Rightarrow> reflection \<Rightarrow> sched_state \<Rightarrow> sched_error + sched_state" where
  "reflect_replan p rf st =
     (if max_replans \<le> ss_replans st then
        Inr (update_task (pn_task p) (set_output ''replan_capped''
          (JObj [(''action_requested'', JStr (rf_action rf)), (''cap'', JInt (int max_replans)),
                 (''issues'', JArr (map JStr (take 3 (rf_issues rf))))])) st)
      else
        let context = join_or ''; '' (take 3 (rf_issues rf)) (rf_action rf) in
        bindE (mapErr SchedDag (replan (ss_dag st) (pn_id p) ''re_plan'' context)) (\<lambda>(d, added).
          case added of
            None \<Rightarrow> Inr (st\<lparr>ss_dag := d\<rparr>)
          | Some alt \<Rightarrow>
              Inr (update_task (pn_task p) (set_output ''replan''
                (JObj [(''added_node_ids'', JArr [JStr alt]), (''action'', JStr (rf_action rf)), (''context'', JStr context)]))
                (st\<lparr>ss_dag := d, ss_replans := ss_replans st + 1\<rparr>))))"

definition abort_result :: "prepared \<Rightarrow> reflection \<Rightarrow> string option \<Rightarrow> (string \<times> json) list" where
  "abort_result p rf h =
     [(''status'', JStr ''aborted_by_safety_reflection''), (''aborted_at_task'', JStr (pn_id p)),
      (''aborted_at_capability'', JStr (dn_capability (pn_node p))),
      (''issues'', JStr (join_or ''; '' (take 3 (rf_issues rf)) ''safety check failed'')),
      (''suggestions'', JStr (join ''; '' (take 2 (rf_suggestions rf)))),
      (''checkpoint_hash'', json_opt_str h),
      (''next_steps'', JStr (''The safety reflection engine refused to execute this workflow. ''
         @ ''If you believe the block is a false positive, rephrase the request ''
         @ ''with explicit authorization context or submit it via the HITL ''
         @ ''approval flow using the checkpoint_hash above.''))]"

text \<open>The branch \<open>abort\<close>.\<close>

definition reflect_abort :: "sched_env \<Rightarrow> uuid \<Rightarrow> prepared \<Rightarrow> reflection \<Rightarrow> sched_state \<Rightarrow> sched_state" where
  "reflect_abort E w p rf st =
     (let cp = from_dag (se_clock E) w (ss_dag st) (''reflection_abort: '' @ join '', '' (take 2 (rf_issues rf)))
                 (Some (pn_id p)) []
                 (Some [(''action'', JStr (rf_action rf)), (''confidence'', JFloat (FFin (rf_confidence rf))),
                        (''issues'', JArr (map JStr (take 5 (rf_issues rf)))),
                        (''suggestions'', JArr (map JStr (take 5 (rf_suggestions rf))))]);
          (h, st1) = save_pause E cp st;
          st2 = (case h of None \<Rightarrow> st1 | Some g \<Rightarrow> update_task (pn_task p) (set_output ''abort_checkpoint''
                   (JObj [(''hash'', JStr g), (''reason'', JStr (cp_reason cp))])) st1)
      in st2\<lparr>ss_status := WfFailed, ss_result := Some (abort_result p rf h)\<rparr>)"

text \<open>The dispatch; a reflection engine that raises (\<open>None\<close>) leaves the task as it is.\<close>

definition reflect_on_task :: "sched_env \<Rightarrow> uuid \<Rightarrow> nat \<Rightarrow> prepared \<Rightarrow> sched_state \<Rightarrow> sched_error + (bool \<times> sched_state)" where
  "reflect_on_task E w k p st =
     (case se_reflect E k (pn_id p) of
        None \<Rightarrow> Inr (False, st)
      | Some rf \<Rightarrow>
          let st1 = update_task (pn_task p) (set_output ''reflection'' (reflection_entry 3 rf)) st in
          if rf_action rf = ''accept'' then Inr (False, st1)
          else if rf_action rf = ''retry_task'' then reflect_retry p rf st1
          else if rf_action rf \<in> {''re_plan'', ''add_verifier''} then bindE (reflect_replan p rf st1) (\<lambda>st2. Inr (False, st2))
          else if rf_action rf = ''abort'' then Inr (False, reflect_abort E w p rf st1)
          else Inr (False, st1))"

section \<open>Phase 3: processing the results\<close>

definition broken_by :: "wallet_error \<Rightarrow> bool" where
  "broken_by e \<longleftrightarrow> e \<in> {WalletIntegrity, WalletData}"

text \<open>A best-effort release: its exceptions are swallowed, but a broken session ends the run.\<close>

definition try_release :: "sched_env \<Rightarrow> uuid \<Rightarrow> prepared \<Rightarrow> string \<Rightarrow> sched_state \<Rightarrow> sched_error + sched_state" where
  "try_release E w p reason st =
     (case release_reservation (se_wallet E) w (we_id (pn_reservation p)) reason None (ss_wallet st) of
        Inr (event, wallet) \<Rightarrow> Inr (st\<lparr>ss_wallet := wallet\<rparr>)
      | Inl e \<Rightarrow> if broken_by e then Inl SchedBrokenSession else Inr st)"

definition mark_task_failed :: "prepared \<Rightarrow> string \<Rightarrow> sched_state \<Rightarrow> sched_state" where
  "mark_task_failed p message st = update_task (pn_task p) (\<lambda>r. r\<lparr>tk_status := TsFailed, tk_error := Some message\<rparr>) st"

text \<open>The outer \<open>except\<close> of the processing.\<close>

definition processing_failed :: "sched_env \<Rightarrow> uuid \<Rightarrow> prepared \<Rightarrow> bool \<Rightarrow> string \<Rightarrow> sched_state \<Rightarrow> sched_error + sched_state" where
  "processing_failed E w p charged message st =
     bindE (if charged then Inr st
            else try_release E w p (''Task '' @ pn_id p @ '' post-processing failed: '' @ message) st) (\<lambda>st1.
       fail_node (pn_id p) message (mark_task_failed p message st1))"

text \<open>\<open>str\<close> of the exceptions \<open>charge\<close> raises before it writes.\<close>

definition wallet_message :: "wallet_error \<Rightarrow> string" where
  "wallet_message e =
     (case e of
        ReservationNotFound i \<Rightarrow> ''Reservation '' @ [CHR 0x27] @ str_uuid i @ [CHR 0x27] @ '' not found''
      | WorkflowNotFound i \<Rightarrow> ''Workflow '' @ [CHR 0x27] @ str_uuid i @ [CHR 0x27] @ '' not found''
      | _ \<Rightarrow> [])"

definition quality_of :: "string \<Rightarrow> rat" where
  "quality_of content = min 1 (py_double (of_nat (py_len content) / 500))"

definition scores_of :: "llm_response \<Rightarrow> rat \<Rightarrow> trust_scores" where
  "scores_of resp credits =
     \<lparr>ts_quality = quality_of (lr_content resp),
      ts_latency = max 0 (py_double (1 - min (py_double (lr_latency resp / 30000)) 1)),
      ts_cost = max 0 (py_double (1 - min (py_double (credits / 50)) 1))\<rparr>"

text \<open>The memory service checks the length of the content before it writes.\<close>

definition write_result :: "sched_env \<Rightarrow> nat \<Rightarrow> string \<Rightarrow> string \<Rightarrow> string option" where
  "write_result E k i content =
     (if content = [] \<or> 100000 < py_len content then Some (se_invalid_content E) else se_write_memory E k i)"

text \<open>\<open>f"{x:.0%}"\<close>.\<close>

definition format_percent :: "rat \<Rightarrow> string" where
  "format_percent x = str_int (half_even (x * 100)) @ ''%''"

definition apply_consensus :: "sched_env \<Rightarrow> nat \<Rightarrow> prepared \<Rightarrow> sched_state \<Rightarrow> sched_state" where
  "apply_consensus E k p st =
     (if dn_capability (pn_node p) \<notin> set high_risk_capabilities then st
      else case se_consensus E k (pn_id p) of
        None \<Rightarrow> st
      | Some (agreed, weight) \<Rightarrow>
          if agreed then st
          else update_task (pn_task p)
            (\<lambda>r. set_output ''consensus_warning'' (JStr (''Consensus not reached (agreement: '' @ format_percent weight
                   @ ''). Output may require manual review.''))
                   (r\<lparr>tk_confidence := map_option (\<lambda>c. max (py_double (3 / 10)) (py_double (c * weight))) (tk_confidence r)\<rparr>)) st)"

definition confidence_of :: "uuid \<Rightarrow> sched_state \<Rightarrow> rat option" where
  "confidence_of t st = Option.bind (lookup_by tk_id t (ss_tasks st)) tk_confidence"

definition review_requested :: "uuid \<Rightarrow> sched_state \<Rightarrow> bool" where
  "review_requested t st =
     (case Option.bind (lookup_by tk_id t (ss_tasks st)) (\<lambda>r. Option.bind (tk_output r) (\<lambda>kvs. map_of kvs ''review_requested'')) of
        None \<Rightarrow> False | Some v \<Rightarrow> py_truth v)"

definition review_gate :: "sched_env \<Rightarrow> nat \<Rightarrow> prepared \<Rightarrow> sched_state \<Rightarrow> sched_state" where
  "review_gate E k p st =
     (case confidence_of (pn_task p) st of
        None \<Rightarrow> st
      | Some c \<Rightarrow>
          if c < py_double (2 / 5) \<and> \<not> review_requested (pn_task p) st \<and> se_request_review E k (pn_id p)
          then update_task (pn_task p) (set_output ''review_requested'' (JBool True)) st
          else st)"

definition complete_task :: "prepared \<Rightarrow> llm_response \<Rightarrow> rat \<Rightarrow> task_row \<Rightarrow> task_row" where
  "complete_task p resp credits r =
     r\<lparr>tk_status := TsCompleted, tk_output := Some [(''content'', JStr (lr_content resp)), (''model'', JStr (lr_model resp))],
       tk_confidence := Some (quality_of (lr_content resp)), tk_cost := decimal_str credits,
       tk_latency := Some (lr_latency resp)\<rparr>"

text \<open>What follows a successful charge.\<close>

definition settle_result :: "sched_env \<Rightarrow> uuid \<Rightarrow> nat \<Rightarrow> prepared \<Rightarrow> llm_response \<Rightarrow> rat \<Rightarrow> sched_state \<Rightarrow> sched_error + sched_state" where
  "settle_result E w k p resp credits st =
     (case write_result E k (pn_id p) (lr_content resp) of
        Some message \<Rightarrow> processing_failed E w p True message st
      | None \<Rightarrow>
          let st1 = st\<lparr>ss_memory := ss_memory st @ [(pn_id p, lr_content resp)]\<rparr> in
          case se_record_trust E k (pn_id p) (scores_of resp credits) of
            Some message \<Rightarrow> processing_failed E w p True message st1
          | None \<Rightarrow>
              let st2 = update_task (pn_task p) (complete_task p resp credits) st1 in
              bindE (mapErr SchedDag (mark_completed (ss_dag st2) (pn_id p) (Some (lr_content resp)))) (\<lambda>(d, ready).
              bindE (reflect_on_task E w k p (review_gate E k p (apply_consensus E k p (st2\<lparr>ss_dag := d\<rparr>))))
                (\<lambda>(continue_loop, st3). Inr st3)))"

definition process_result :: "sched_env \<Rightarrow> uuid \<Rightarrow> nat \<Rightarrow> prepared \<Rightarrow> string + (llm_response \<times> string option) \<Rightarrow> sched_state
    \<Rightarrow> sched_error + sched_state" where
  "process_result E w k p res st =
     (case res of
        Inl message \<Rightarrow>
          bindE (try_release E w p (''Task '' @ pn_id p @ '' failed: LLM error'') (mark_task_failed p message st)) (\<lambda>st1.
            fail_node (pn_id p) message st1)
      | Inr (resp, cached) \<Rightarrow>
          let credits = tokens_to_credits (lr_cost resp) in
          case charge (se_wallet E) w (ag_id (pn_agent p)) credits (we_id (pn_reservation p))
                 (''Task '' @ pn_id p @ '' completed: '' @ str_int (lr_tokens resp) @ '' tokens'')
                 (Some (charge_key w (pn_id p))) (ss_wallet st) of
            Inl e \<Rightarrow>
              if broken_by e then Inl SchedBrokenSession
              else processing_failed E w p False (wallet_message e) st
          | Inr (event, wallet) \<Rightarrow> settle_result E w k p resp credits (st\<lparr>ss_wallet := wallet\<rparr>))"

fun process_results :: "sched_env \<Rightarrow> uuid \<Rightarrow> nat \<Rightarrow> (prepared \<times> (string + (llm_response \<times> string option))) list \<Rightarrow> sched_state
    \<Rightarrow> sched_error + sched_state" where
  "process_results E w k [] st = Inr st"
| "process_results E w k ((p, res) # rest) st =
     bindE (process_result E w k p res st) (\<lambda>st1. process_results E w k rest st1)"

section \<open>Batches and runs\<close>

definition run_batch :: "sched_env \<Rightarrow> uuid \<Rightarrow> (string \<times> agent_row) list \<Rightarrow> nat \<Rightarrow> dag_node list \<Rightarrow> sched_state
    \<Rightarrow> sched_error + (pause option \<times> sched_state)" where
  "run_batch E w agents k ready st =
     bindE (prepare_nodes E w agents k ready st) (\<lambda>(ps, st1).
       let (kept, escalated, st2) = policy_evaluate_nodes E w k ps st1 in
       bindE (approval_gate E w k (ss_tasks st2) (needing_approval (map pn_node ps) escalated) kept st2) (\<lambda>(paused, active, st3).
         case paused of
           Some pz \<Rightarrow> Inr (Some pz, st3)
         | None \<Rightarrow>
             bindE (mapErr SchedWallet (get_workflow (ws_db (ss_wallet st3)) w)) (\<lambda>flow.
               let results = map (\<lambda>p. (p, llm_call E k flow p)) active in
               bindE (process_results E w k results (st3\<lparr>ss_cache := ss_cache st3 @ cached_contents results\<rparr>)) (\<lambda>st4.
                 Inr (None, st4\<lparr>ss_snapshot := dag_to_dict (ss_dag st4)\<rparr>)))))"

datatype run_end = RunPaused pause sched_state | RunRunaway sched_state | RunFinished sched_state

definition runaway :: "nat \<Rightarrow> sched_state \<Rightarrow> sched_state" where
  "runaway limit st =
     st\<lparr>ss_status := WfFailed,
        ss_result := Some [(''error'', JStr ''scheduler_loop_runaway''),
          (''detail'', JStr (''Exceeded '' @ str_nat limit @ '' iterations without completing'')),
          (''completed'', JInt (int (count_status TsCompleted (ss_dag st)))),
          (''failed'', JInt (int (count_status TsFailed (ss_dag st))))]\<rparr>"

text \<open>\<open>k\<close> batches are done; the loop gives up after \<open>limit\<close>.\<close>

function run_loop :: "sched_env \<Rightarrow> uuid \<Rightarrow> (string \<times> agent_row) list \<Rightarrow> nat \<Rightarrow> nat \<Rightarrow> sched_state \<Rightarrow> sched_error + run_end" where
  "run_loop E w agents limit k st =
     (if dag_is_complete (ss_dag st) then Inr (RunFinished st)
      else if limit < k + 1 then Inr (RunRunaway (runaway limit st))
      else bindE (mapErr SchedDag (get_ready_nodes (ss_dag st))) (\<lambda>ready.
        if ready = [] then Inr (RunFinished st)
        else bindE (run_batch E w agents (k + 1) ready st) (\<lambda>(paused, st1).
          case paused of
            Some pz \<Rightarrow> Inr (RunPaused pz st1)
          | None \<Rightarrow> run_loop E w agents limit (k + 1) st1)))"
  by pat_completeness auto
termination
  by (relation "measure (\<lambda>(E, w, agents, limit, k, st). limit - k)") auto

declare run_loop.simps [simp del]

definition final_status :: "dag \<Rightarrow> workflow_status" where
  "final_status d = (if 0 < count_status TsFailed d \<and> count_status TsCompleted d = 0 then WfFailed else WfCompleted)"

definition synthesis_error :: "string \<Rightarrow> (string \<times> json) list" where
  "synthesis_error message =
     [(''content'', JStr ''Synthesis failed. Individual task outputs are available in the DAG.''),
      (''confidence'', JFloat (FFin 0)), (''summary'', JStr (''Synthesis error: '' @ message)),
      (''synthesis_failed'', JBool True)]"

text \<open>The entries the end of a run adds to the synthesised result, in order.\<close>

definition final_entries :: "budget_row \<Rightarrow> dag \<Rightarrow> bool \<Rightarrow> (string \<times> json) list" where
  "final_entries flow d synthesis_failed =
     (let failed = count_status TsFailed d; skipped = count_status TsSkipped d; starved = nodes_failed_for_budget d in
      (if 0 < failed \<and> 0 < count_status TsCompleted d
       then [(''partial'', JBool True), (''failed_tasks'', JInt (int failed))] else [])
      @ (if skipped \<noteq> 0 then [(''skipped_tasks'', JInt (int skipped))] else [])
      @ (if starved \<noteq> [] then [(''budget_exhausted'', JBool True), (''budget_exhausted_tasks'', JArr (map JStr starved)),
           (''budget_limit'', JFloat (FFin (py_double (br_limit flow)))), (''budget_used'', JFloat (FFin (py_double (br_used flow))))] else [])
      @ (if synthesis_failed then [(''synthesis_failed'', JBool True)] else []))"

definition finalize_run :: "sched_env \<Rightarrow> uuid \<Rightarrow> sched_state \<Rightarrow> sched_error + sched_state" where
  "finalize_run E w st =
     bindE (mapErr SchedWallet (get_workflow (ws_db (ss_wallet st)) w)) (\<lambda>flow.
       let (synthesis_failed, result) = (case se_synthesize E (ss_dag st) of
              Inl message \<Rightarrow> (True, synthesis_error message) | Inr r \<Rightarrow> (False, r))
       in Inr (st\<lparr>ss_status := final_status (ss_dag st),
                  ss_result := Some (foldl (\<lambda>m (key, v). AList.update key v m) result
                                       (final_entries flow (ss_dag st) synthesis_failed)),
                  ss_snapshot := dag_to_dict (ss_dag st)\<rparr>))"

definition iteration_limit :: "dag \<Rightarrow> nat" where
  "iteration_limit d = max (length (dag_nodes d) * 5) 50"

definition execute_workflow :: "sched_env \<Rightarrow> uuid \<Rightarrow> (string \<times> agent_row) list \<Rightarrow> sched_state \<Rightarrow> sched_error + run_end" where
  "execute_workflow E w agents st =
     bindE (run_loop E w agents (iteration_limit (ss_dag st)) 0
              (st\<lparr>ss_status := WfRunning, ss_snapshot := dag_to_dict (ss_dag st), ss_replans := 0\<rparr>)) (\<lambda>r.
       case r of
         RunFinished st1 \<Rightarrow> bindE (finalize_run E w st1) (\<lambda>st2. Inr (RunFinished st2))
       | _ \<Rightarrow> Inr r)"

end
