(* ===== verification/Dag_Steps.thy ===== *)
theory Dag_Steps
  imports Dag
begin

text \<open>
  What each operation of the workflow graph changes, seen through two maps from node ids: the status
  and the task row of a node. The scheduler's proofs use these facts only.
\<close>

section \<open>Views\<close>

definition dag_task :: "dag \<Rightarrow> string \<Rightarrow> uuid option" where
  "dag_task d i = Option.bind (lookup_by dn_id i (dag_nodes d)) dn_task"

definition dag_deps :: "dag \<Rightarrow> string \<Rightarrow> string list" where
  "dag_deps d = node_deps (dag_nodes d)"

definition known :: "dag \<Rightarrow> string \<Rightarrow> bool" where
  "known d i \<longleftrightarrow> i \<in> dn_id ` set (dag_nodes d)"

lemma known_status: "known d i \<longleftrightarrow> dag_status d i \<noteq> None"
  by (simp add: known_def dag_status_def lookup_by_None)

lemma known_get_node: "known d i \<Longrightarrow> \<exists>n. get_node d i = Inr n"
  by (cases "lookup_by dn_id i (dag_nodes d)") (simp_all add: known_def get_node_def lookup_by_None)

lemma get_node_views:
  assumes "get_node d i = Inr n"
  shows "known d i" "dag_status d i = Some (dn_status n)" "dag_task d i = dn_task n" "dn_id n = i"
    "dag_deps d i = dn_depends_on n"
  using assms
  by (auto simp: get_node_def known_def dag_status_def dag_task_def dag_deps_def node_deps_def dest: lookup_by_Some split: option.splits)

lemma node_in_views:
  assumes "dag_ok d" "n \<in> set (dag_nodes d)"
  shows "get_node d (dn_id n) = Inr n"
  using assms by (simp add: get_node_conv dag_ok_def)

lemma lookup_node_deps: "dag_ok d \<Longrightarrow> n \<in> set (dag_nodes d) \<Longrightarrow> dag_deps d (dn_id n) = dn_depends_on n"
  using get_node_views(5)[OF node_in_views] by blast

text \<open>Edges by dependency lists.\<close>

lemma edge_iff: "dag_ok d \<Longrightarrow> (q, i) \<in> dep_edges (dag_nodes d) \<longleftrightarrow> known d i \<and> q \<in> set (dag_deps d i)"
  using lookup_node_deps[of d] by (fastforce simp: dep_edges_def known_def)

lemma edge_known: "dag_ok d \<Longrightarrow> known d i \<Longrightarrow> q \<in> set (dag_deps d i) \<Longrightarrow> known d q"
  using lookup_node_deps[of d] by (fastforce simp: known_def dag_ok_def deps_closed_def)

lemma deps_irrefl: "dag_ok d \<Longrightarrow> known d i \<Longrightarrow> i \<notin> set (dag_deps d i)"
  using edge_iff[of d i i] by (auto simp: dag_ok_def acyclic_def)

text \<open>Two graphs with the same nodes up to status, output and error.\<close>

definition reshaped :: "dag \<Rightarrow> dag \<Rightarrow> bool" where
  "reshaped d d' \<longleftrightarrow> same_graph d d' \<and> dag_task d' = dag_task d"

lemma same_graph_views:
  assumes "same_graph d d'"
  shows "dag_deps d' = dag_deps d" "known d' = known d" "dag_ids d' = dag_ids d"
    "dep_edges (dag_nodes d') = dep_edges (dag_nodes d)"
proof -
  have m: "map node_shape (dag_nodes d') = map node_shape (dag_nodes d)" using assms by (simp add: same_graph_def)
  have nd: "node_deps ns i = (case map_of (map node_shape ns) i of None \<Rightarrow> [] | Some deps \<Rightarrow> deps)" for ns i
    by (induction ns) (auto simp: node_deps_def node_shape_def)
  show "dag_deps d' = dag_deps d" by (rule ext) (simp only: dag_deps_def nd m)
  show "dag_ids d' = dag_ids d" using shape_determines(5)[OF m] by (simp add: dag_ids_def)
  show "dep_edges (dag_nodes d') = dep_edges (dag_nodes d)" by (rule shape_determines(3)[OF m])
  have "set (map dn_id (dag_nodes d')) = set (map dn_id (dag_nodes d))" by (simp only: shape_determines(5)[OF m])
  then show "known d' = known d" by (auto simp: known_def fun_eq_iff)
qed

lemma reshaped_trans: "reshaped a b \<Longrightarrow> reshaped b c \<Longrightarrow> reshaped a c"
  by (auto simp: reshaped_def intro: same_graph_trans)

section \<open>Status changes\<close>

lemma lookup_set_node:
  "lookup_by dn_id j (map (\<lambda>x. if dn_id x = dn_id m then m else x) ns)
     = (if j = dn_id m \<and> j \<in> dn_id ` set ns then Some m else lookup_by dn_id j ns)"
  by (induction ns) auto

lemma set_node_views:
  assumes "dag_ok d" "get_node d i = Inr n" "node_shape m = node_shape n"
  shows "same_graph d (set_node m d)" "dag_ok (set_node m d)"
    "dag_status (set_node m d) = (dag_status d)(i := Some (dn_status m))"
    "dag_task (set_node m d) = (dag_task d)(i := dn_task m)"
proof -
  have id: "dn_id m = i" using assms(3) get_node_views(4)[OF assms(2)] by (simp add: node_shape_def)
  show sg: "same_graph d (set_node m d)"
    using assms by (intro set_node_same_graph) (simp_all add: dag_ok_def)
  show "dag_ok (set_node m d)" by (rule dag_ok_same_graph[OF sg assms(1)])
  show "dag_status (set_node m d) = (dag_status d)(i := Some (dn_status m))" by (rule dag_status_set_node[OF assms(2) id])
  have "dn_id m \<in> dn_id ` set (dag_nodes d)" using get_node_views(1)[OF assms(2)] id by (simp add: known_def)
  then show "dag_task (set_node m d) = (dag_task d)(i := dn_task m)"
    unfolding id[symmetric] by (intro ext) (simp add: dag_task_def set_node_def lookup_set_node)
qed

lemma keeps_task:
  assumes "dag_ok d" "get_node d i = Inr n" "node_shape m = node_shape n" "dn_task m = dn_task n"
  shows "reshaped d (set_node m d)"
  using set_node_views[OF assms(1-3)] get_node_views(3)[OF assms(2)] assms(4) by (auto simp: reshaped_def)

lemma mark_running_views:
  assumes "dag_ok d" "mark_running d i = Inr d'"
  shows "known d i" "reshaped d d'" "dag_ok d'" "dag_status d' = (dag_status d)(i := Some TsRunning)"
proof -
  obtain n where n: "get_node d i = Inr n" "d' = set_node (n\<lparr>dn_status := TsRunning\<rparr>) d"
    using assms(2) by (auto simp: mark_running_def bindE_Inr_conv)
  have s: "node_shape (n\<lparr>dn_status := TsRunning\<rparr>) = node_shape n" by (simp add: node_shape_def)
  show "known d i" "reshaped d d'" "dag_ok d'" "dag_status d' = (dag_status d)(i := Some TsRunning)"
    using get_node_views(1)[OF n(1)] keeps_task[OF assms(1) n(1) s] set_node_views[OF assms(1) n(1) s] n(2) by simp_all
qed

lemma mark_pending_views:
  assumes "dag_ok d" "mark_pending d i = Inr d'"
  shows "known d i" "reshaped d d'" "dag_ok d'" "dag_status d' = (dag_status d)(i := Some TsPending)"
proof -
  obtain n where n: "get_node d i = Inr n" "d' = set_node (n\<lparr>dn_status := TsPending, dn_output := None\<rparr>) d"
    using assms(2) by (auto simp: mark_pending_def bindE_Inr_conv)
  have s: "node_shape (n\<lparr>dn_status := TsPending, dn_output := None\<rparr>) = node_shape n" by (simp add: node_shape_def)
  show "known d i" "reshaped d d'" "dag_ok d'" "dag_status d' = (dag_status d)(i := Some TsPending)"
    using get_node_views(1)[OF n(1)] keeps_task[OF assms(1) n(1) s] set_node_views[OF assms(1) n(1) s] n(2) by simp_all
qed

lemma mark_completed_views:
  assumes "dag_ok d" "mark_completed d i out = Inr (d', ready)"
  shows "known d i" "reshaped d d'" "dag_ok d'" "dag_status d' = (dag_status d)(i := Some TsCompleted)"
proof -
  obtain n where n: "get_node d i = Inr n" "d' = set_node (n\<lparr>dn_status := TsCompleted, dn_output := out\<rparr>) d"
    using assms(2) by (auto simp: mark_completed_def bindE_Inr_conv Let_def)
  have s: "node_shape (n\<lparr>dn_status := TsCompleted, dn_output := out\<rparr>) = node_shape n" by (simp add: node_shape_def)
  show "known d i" "reshaped d d'" "dag_ok d'" "dag_status d' = (dag_status d)(i := Some TsCompleted)"
    using get_node_views(1)[OF n(1)] keeps_task[OF assms(1) n(1) s] set_node_views[OF assms(1) n(1) s] n(2) by simp_all
qed

text \<open>The failure cascade changes statuses and messages only.\<close>

lemma skip_loop_task:
  "skip_loop f d queue seen sk = Inr (d', sk') \<Longrightarrow> dag_ok d \<Longrightarrow> dag_task d' = dag_task d"
proof (induction f d queue seen sk rule: skip_loop.induct)
  case (2 f d c queue seen sk)
  show ?case
  proof (cases "c \<in> seen")
    case False
    with 2(4) obtain n where n: "lookup_by dn_id c (dag_nodes d) = Some n" by (auto split: option.splits)
    show ?thesis
    proof (cases "skippable (dn_status n)")
      case True
      have g: "get_node d c = Inr n" using n by (simp add: get_node_def)
      have "reshaped d (skip_node f n d)"
        unfolding skip_node_def by (rule keeps_task[OF 2(5) g]) (simp_all add: node_shape_def)
      then have v: "dag_task (skip_node f n d) = dag_task d" "dag_ok (skip_node f n d)"
        using dag_ok_same_graph 2(5) by (auto simp: reshaped_def)
      show ?thesis using 2(2)[OF False n True _ v(2)] 2(4) False n True v(1) by simp
    qed (use 2 False n in simp)
  qed (use 2 in simp)
qed simp

lemma mark_failed_views:
  assumes "dag_ok d" "fail_closed d" "mark_failed d i err = Inr (d', sk)"
  shows "known d i" "reshaped d d'" "dag_ok d'" "fail_closed d'" "dag_status d' i = Some TsFailed"
    "\<And>j. j \<noteq> i \<Longrightarrow> dag_status d' j = dag_status d j \<or> dag_status d' j = Some TsSkipped \<and> can_skip (dag_status d j)"
proof -
  obtain n where n: "get_node d i = Inr n" using assms(3) by (auto simp: mark_failed_def bindE_Inr_conv)
  show "known d i" by (rule get_node_views(1)[OF n])
  show "dag_ok d'" "fail_closed d'" "dag_status d' i = Some TsFailed"
    "\<And>j. j \<noteq> i \<Longrightarrow> dag_status d' j = dag_status d j \<or> dag_status d' j = Some TsSkipped \<and> can_skip (dag_status d j)"
    using mark_failed_spec[OF assms(1,2) n, of err] assms(3) by auto
  define m where "m = n\<lparr>dn_status := TsFailed, dn_error := err\<rparr>"
  have s: "node_shape m = node_shape n" "dn_task m = dn_task n" by (simp_all add: m_def node_shape_def)
  have r: "reshaped d (set_node m d)" by (rule keeps_task[OF assms(1) n s])
  have ok: "dag_ok (set_node m d)" by (rule set_node_views(2)[OF assms(1) n s(1)])
  have loop: "skip_loop i (set_node m d) (dag_adj (set_node m d) i) {} [] = Inr (d', sk)"
    using assms(3) n by (simp add: mark_failed_def m_def Let_def)
  have "dag_task d' = dag_task d" using skip_loop_task[OF loop ok] r by (simp add: reshaped_def)
  then show "reshaped d d'" using mark_failed_same_graph[OF assms(1,3)] by (simp add: reshaped_def)
qed

section \<open>Adding a node\<close>

lemma acyclic_sink:
  assumes "acyclic r" "j \<notin> fst ` r" "\<And>p q. (p, q) \<in> s \<Longrightarrow> q = j \<and> p \<noteq> j"
  shows "acyclic (r \<union> s)"
proof -
  have step: "(a, b) \<in> (r \<union> s)\<^sup>+ \<Longrightarrow> a \<noteq> j \<and> (b \<noteq> j \<longrightarrow> (a, b) \<in> r\<^sup>+)" for a b
  proof (induction rule: trancl_induct)
    case (base b)
    then show ?case using assms(2,3) by (force intro: r_into_trancl)
  next
    case (step b c)
    have b: "b \<noteq> j" using step.hyps(2) assms(2,3) by force
    with step.IH have "a \<noteq> j" "(a, b) \<in> r\<^sup>+" by simp_all
    moreover have "(b, c) \<in> r" if "c \<noteq> j" using step.hyps(2) assms(3) that by blast
    ultimately show ?case by (blast intro: trancl_into_trancl)
  qed
  show ?thesis unfolding acyclic_def
  proof (intro allI notI)
    fix x assume "(x, x) \<in> (r \<union> s)\<^sup>+"
    from step[OF this] have "(x, x) \<in> r\<^sup>+" by blast
    with assms(1) show False by (simp add: acyclic_def)
  qed
qed

lemma add_node_views:
  assumes ok: "dag_ok d" and deps: "set (dn_depends_on n) \<subseteq> dn_id ` set (dag_nodes d)" and add: "add_node d n = Inr d'"
  shows "\<not> known d (dn_id n)" "dag_ok d'" "dag_nodes d' = dag_nodes d @ [n]"
    "dag_status d' = (dag_status d)(dn_id n := Some (dn_status n))"
    "dag_task d' = (dag_task d)(dn_id n := dn_task n)"
    "dag_deps d' = (dag_deps d)(dn_id n := dn_depends_on n)"
    "dep_edges (dag_nodes d') = dep_edges (dag_nodes d) \<union> {(p, dn_id n) | p. p \<in> set (dn_depends_on n)}"
proof -
  have new: "dn_id n \<notin> dn_id ` set (dag_nodes d)" and d': "d' = link_node n (d\<lparr>dag_nodes := dag_nodes d @ [n]\<rparr>)"
    using add by (auto simp: add_node_def split: if_splits)
  show "\<not> known d (dn_id n)" using new by (simp add: known_def)
  show nodes: "dag_nodes d' = dag_nodes d @ [n]" by (simp add: d' link_node_fields)
  have look: "lookup_by dn_id j (dag_nodes d @ [n]) = (if j = dn_id n then Some n else lookup_by dn_id j (dag_nodes d))" for j
    using lookup_by_None[of dn_id "dn_id n" "dag_nodes d"] new by (auto simp: lookup_by_append split: option.splits)
  show "dag_status d' = (dag_status d)(dn_id n := Some (dn_status n))"
    "dag_task d' = (dag_task d)(dn_id n := dn_task n)" "dag_deps d' = (dag_deps d)(dn_id n := dn_depends_on n)"
    by (auto simp: dag_status_def dag_task_def dag_deps_def node_deps_def nodes look fun_eq_iff)
  show edges: "dep_edges (dag_nodes d') = dep_edges (dag_nodes d) \<union> {(p, dn_id n) | p. p \<in> set (dn_depends_on n)}"
    by (auto simp: nodes dep_edges_def)
  have "acyclic (dep_edges (dag_nodes d'))"
    unfolding edges
  proof (rule acyclic_sink)
    show "acyclic (dep_edges (dag_nodes d))" using ok by (simp add: dag_ok_def)
    show "dn_id n \<notin> fst ` dep_edges (dag_nodes d)" using ok new by (force simp: dep_edges_def dag_ok_def deps_closed_def)
    show "\<And>p q. (p, q) \<in> {(p, dn_id n) | p. p \<in> set (dn_depends_on n)} \<Longrightarrow> q = dn_id n \<and> p \<noteq> dn_id n"
      using deps new by auto
  qed
  moreover have "dag_adj d' = edges_out (dag_nodes d')" "dag_rev d' = edges_in (dag_nodes d')"
    using ok by (auto simp: fun_eq_iff d' link_node_fields dag_ok_def edges_out_def edges_in_def)
  ultimately show "dag_ok d'" using ok new deps by (auto simp: dag_ok_def nodes deps_closed_def)
qed

end
