(* ===== verification/Scheduler_Inv.thy ===== *)
theory Scheduler_Inv
  imports Scheduler Dag_Steps
begin

text \<open>
  The invariant of a run and how the preparation of a batch and the gates keep it. A batch is
  followed through one invariant of the graph, \<open>graph_inv\<close>, and one of the attempts still to be made,
  \<open>funded\<close>.
\<close>

section \<open>The invariant of the graph\<close>

text \<open>\<open>R\<close> are the nodes of the current batch, \<open>A\<close> those among them that are still to be settled, \<open>S\<close> the
  nodes that are running although nothing will report on them.\<close>

definition run_statuses :: "task_status set" where
  "run_statuses = {TsPending, TsTodo, TsRunning, TsCompleted, TsFailed, TsSkipped}"

definition graph_inv :: "string set \<Rightarrow> string set \<Rightarrow> string set \<Rightarrow> dag \<Rightarrow> bool" where
  "graph_inv R A S d \<longleftrightarrow> dag_ok d \<and> fail_closed d \<and> (\<forall>i s. dag_status d i = Some s \<longrightarrow> s \<in> run_statuses)
     \<and> A \<subseteq> R \<and> R \<subseteq> {i. known d i}
     \<and> (\<forall>i \<in> A. \<forall>p \<in> set (dag_deps d i). p \<notin> R \<and> dag_status d p = Some TsCompleted)
     \<and> (\<forall>i. dag_status d i = Some TsRunning \<longrightarrow> i \<in> A \<union> S)
     \<and> (\<forall>i \<in> S. dag_status d i = Some TsRunning) \<and> A \<inter> S = {}"

lemma exec_inv_statuses:
  "exec_inv d \<longleftrightarrow> dag_ok d \<and> fail_closed d \<and> (\<forall>i s. dag_status d i = Some s \<longrightarrow> s \<in> run_statuses)"
proof -
  have "(\<forall>n \<in> set (dag_nodes d). dn_status n \<in> run_statuses) \<longleftrightarrow> (\<forall>i s. dag_status d i = Some s \<longrightarrow> s \<in> run_statuses)"
    if "dag_ok d"
    using dag_status_node[OF that] dag_status_Some[of d] by metis
  then show ?thesis by (auto simp: exec_inv_def run_statuses_def)
qed

text \<open>One node of the batch changes its status; others at most become skipped.\<close>

definition moved :: "string \<Rightarrow> dag \<Rightarrow> dag \<Rightarrow> bool" where
  "moved i d d' \<longleftrightarrow> dag_ok d' \<and> reshaped d d'
     \<and> (\<forall>j. j \<noteq> i \<longrightarrow> dag_status d' j = dag_status d j \<or> dag_status d' j = Some TsSkipped \<and> can_skip (dag_status d j))"

lemma moved_views:
  assumes "moved i d d'"
  shows "dag_deps d' = dag_deps d" "known d' = known d" "dag_ids d' = dag_ids d" "dag_task d' = dag_task d"
    "dep_edges (dag_nodes d') = dep_edges (dag_nodes d)"
  using assms same_graph_views[of d d'] by (simp_all add: moved_def reshaped_def)

lemma moved_keeps:
  assumes "moved i d d'" "j \<noteq> i" "dag_status d j \<in> {Some TsRunning, Some TsCompleted, Some TsFailed, Some TsSkipped}"
  shows "dag_status d' j = dag_status d j"
  using assms by (auto simp: moved_def)

lemma graph_inv_move:
  assumes inv: "graph_inv R A S d" and i: "i \<in> A" and m: "moved i d d'" and fc: "fail_closed d'"
    and s: "dag_status d' i = Some s" "s \<in> run_statuses"
  shows "graph_inv R A S d'"
proof -
  have change: "dag_status d' j = dag_status d j \<or> dag_status d' j = Some TsSkipped" if "j \<noteq> i" for j
    using m that by (auto simp: moved_def)
  have "dag_ok d'" using m by (simp add: moved_def)
  moreover have "t \<in> run_statuses" if "dag_status d' j = Some t" for j t
  proof (cases "j = i \<or> dag_status d' j = Some TsSkipped")
    case True
    with that s show ?thesis by (auto simp: run_statuses_def)
  next
    case False
    with that change[of j] have "dag_status d j = Some t" by auto
    with inv show ?thesis by (simp add: graph_inv_def)
  qed
  moreover have "p \<notin> R \<and> dag_status d' p = Some TsCompleted" if "j \<in> A" "p \<in> set (dag_deps d' j)" for j p
  proof -
    have p: "p \<notin> R" "dag_status d p = Some TsCompleted"
      using inv that moved_views(1)[OF m] by (auto simp: graph_inv_def)
    have "p \<noteq> i" using p(1) i inv by (auto simp: graph_inv_def)
    with moved_keeps[OF m] p show ?thesis by simp
  qed
  moreover have "j \<in> A \<union> S" if "dag_status d' j = Some TsRunning" for j
    using that change[of j] inv i by (cases "j = i") (auto simp: graph_inv_def)
  moreover have "dag_status d' j = Some TsRunning" if "j \<in> S" for j
  proof -
    have "j \<noteq> i" "dag_status d j = Some TsRunning" using that i inv by (auto simp: graph_inv_def)
    with moved_keeps[OF m] show ?thesis by simp
  qed
  ultimately show ?thesis using inv fc moved_views(2)[OF m] by (simp add: graph_inv_def)
qed

text \<open>A node of the batch may take any status but failed without breaking \<open>fail_closed\<close>: its dependencies
  are complete.\<close>

lemma batch_node_fail_closed:
  assumes inv: "graph_inv R A S d" and i: "i \<in> A" and d': "dag_ok d'" "reshaped d d'"
    and st: "dag_status d' = (dag_status d)(i := Some s)" "s \<notin> {TsFailed, TsSkipped}"
  shows "fail_closed d'"
proof -
  have ok: "dag_ok d" and known: "known d i" using inv i by (auto simp: graph_inv_def)
  have edges: "dep_edges (dag_nodes d') = dep_edges (dag_nodes d)"
    using d'(2) same_graph_views(4) by (simp add: reshaped_def)
  have deps: "dag_status d p = Some TsCompleted \<and> p \<noteq> i" if "(p, i) \<in> dep_edges (dag_nodes d)" for p
    using that edge_iff[OF ok] inv i by (auto simp: graph_inv_def)
  show ?thesis
    unfolding fail_closed_def edges
  proof (clarify)
    fix p c assume e: "(p, c) \<in> dep_edges (dag_nodes d)" and c: "can_skip (dag_status d' c)"
      and p: "dag_status d' p \<in> {Some TsFailed, Some TsSkipped}"
    have pi: "p \<noteq> i" using p st by auto
    then have dp: "dag_status d p \<in> {Some TsFailed, Some TsSkipped}" using p by (simp add: st(1))
    have "c \<noteq> i" using deps[of p] e dp by auto
    then have "can_skip (dag_status d c)" using c by (simp add: st(1))
    with inv e dp show False by (auto simp: graph_inv_def fail_closed_def)
  qed
qed

lemma graph_inv_set:
  assumes inv: "graph_inv R A S d" and i: "i \<in> A" and d': "dag_ok d'" "reshaped d d'"
    and st: "dag_status d' = (dag_status d)(i := Some s)" "s \<in> {TsPending, TsRunning, TsCompleted}"
  shows "graph_inv R A S d'" "moved i d d'"
proof -
  show m: "moved i d d'" using d' st by (simp add: moved_def)
  have "fail_closed d'" using st by (intro batch_node_fail_closed[OF inv i d']) auto
  then show "graph_inv R A S d'" using st by (intro graph_inv_move[OF inv i m]) (auto simp: run_statuses_def)
qed

lemma graph_inv_leave:
  assumes "graph_inv R A S d" "dag_status d i \<noteq> Some TsRunning"
  shows "graph_inv R (A - {i}) S d"
  using assms by (auto simp: graph_inv_def)

lemma graph_inv_strand:
  assumes "graph_inv R A S d" "i \<in> A" "dag_status d i = Some TsRunning"
  shows "graph_inv R (A - {i}) (insert i S) d"
  using assms by (auto simp: graph_inv_def)

lemma graph_inv_fail:
  assumes inv: "graph_inv R A S d" and i: "i \<in> A" and f: "mark_failed d i m = Inr (d', sk)"
  shows "graph_inv R (A - {i}) S d'" "moved i d d'" "dag_status d' i = Some TsFailed"
proof -
  have "dag_ok d" "fail_closed d" using inv by (simp_all add: graph_inv_def)
  note v = mark_failed_views[OF this f]
  show mv: "moved i d d'" using v(2,3,6) by (auto simp: moved_def)
  show st: "dag_status d' i = Some TsFailed" by (rule v(5))
  show "graph_inv R (A - {i}) S d'"
    using st by (intro graph_inv_leave graph_inv_move[OF inv i mv v(4)]) (auto simp: run_statuses_def)
qed

lemma graph_inv_add:
  assumes inv: "graph_inv R A S d" and i: "i \<in> A" and deps: "dn_depends_on n = dag_deps d i" and s: "dn_status n = TsPending"
    and add: "add_node d n = Inr d'"
  shows "graph_inv R A S d'"
proof -
  have ok: "dag_ok d" and fc: "fail_closed d" and ki: "known d i" using inv i by (auto simp: graph_inv_def)
  have complete: "dag_status d p = Some TsCompleted" if "p \<in> set (dag_deps d i)" for p using inv i that by (auto simp: graph_inv_def)
  have closed: "set (dn_depends_on n) \<subseteq> dn_id ` set (dag_nodes d)"
    using edge_known[OF ok ki] by (auto simp: deps known_def)
  note v = add_node_views[OF ok closed add]
  have knows: "known d j \<Longrightarrow> j \<noteq> dn_id n" for j using v(1) by auto
  have sts: "dag_status d' j = dag_status d j" if "known d j" for j using knows[OF that] by (simp add: v(4))
  have "fail_closed d'"
    unfolding fail_closed_def v(7)
  proof (clarify)
    fix p c assume e: "(p, c) \<in> dep_edges (dag_nodes d) \<union> {(p, dn_id n) | p. p \<in> set (dn_depends_on n)}"
      and c: "can_skip (dag_status d' c)" and p: "dag_status d' p \<in> {Some TsFailed, Some TsSkipped}"
    show False
    proof (cases "(p, c) \<in> dep_edges (dag_nodes d)")
      case True
      then have "known d c" "known d p" using edge_iff[OF ok] edge_known[OF ok] by auto
      with True c p fc show False by (auto simp: sts fail_closed_def)
    next
      case False
      then have "p \<in> set (dag_deps d i)" using e by (auto simp: deps)
      with edge_known[OF ok ki] complete p show False by (auto simp: sts)
    qed
  qed
  moreover have "t \<in> run_statuses" if "dag_status d' j = Some t" for j t
    using that inv by (cases "j = dn_id n") (auto simp: v(4) s graph_inv_def run_statuses_def)
  moreover have "p \<notin> R \<and> dag_status d' p = Some TsCompleted" if "j \<in> A" "p \<in> set (dag_deps d' j)" for j p
  proof -
    have "known d j" using inv that(1) by (auto simp: graph_inv_def)
    then have p: "p \<in> set (dag_deps d j)" "known d p" using that(2) knows[of j] edge_known[OF ok] by (auto simp: v(6))
    with inv that(1) show ?thesis by (auto simp: sts graph_inv_def)
  qed
  moreover have "j \<in> A \<union> S" if "dag_status d' j = Some TsRunning" for j
    using that inv s by (cases "j = dn_id n") (auto simp: v(4) graph_inv_def)
  moreover have "dag_status d' j = Some TsRunning" if "j \<in> S" for j
  proof -
    have "dag_status d j = Some TsRunning" using inv that by (simp add: graph_inv_def)
    with sts[of j] show ?thesis by (simp add: known_status)
  qed
  moreover have "known d j \<Longrightarrow> known d' j" for j by (simp add: known_def v(3))
  ultimately show ?thesis using inv v(2) by (auto simp: graph_inv_def)
qed

section \<open>The attempts that are left\<close>

definition is_open :: "task_status option \<Rightarrow> bool" where
  "is_open s \<longleftrightarrow> s \<in> {Some TsPending, Some TsTodo}"

definition attempts :: "sched_state \<Rightarrow> string \<Rightarrow> nat" where
  "attempts st i = (case dag_task (ss_dag st) i of
     None \<Rightarrow> Suc max_retries_per_task | Some t \<Rightarrow> Suc (max_retries_per_task - retries_of t st))"

definition load :: "sched_state \<Rightarrow> string \<Rightarrow> nat" where
  "load st i = (if is_open (dag_status (ss_dag st) i) then attempts st i else 0)"

text \<open>The loads stay within a bound \<open>B\<close> for each node, where a node of the batch (\<open>A\<close>) is counted as
  if its current attempt were over; the sum of the bounds and of the nodes that may still be added
  is at most \<open>T\<close>, and the nodes with those that may still be added are at most \<open>N\<close>.\<close>

definition funded :: "nat \<Rightarrow> nat \<Rightarrow> string set \<Rightarrow> sched_state \<Rightarrow> bool" where
  "funded N T A st \<longleftrightarrow> length (dag_ids (ss_dag st)) + (max_replans - ss_replans st) \<le> N
     \<and> (\<exists>B. (\<forall>i \<in> A. attempts st i \<le> Suc (B i)) \<and> (\<forall>i. i \<notin> A \<longrightarrow> load st i \<le> B i)
          \<and> sum_list (map B (dag_ids (ss_dag st))) + Suc max_retries_per_task * (max_replans - ss_replans st) \<le> T)"

lemma load_attempts: "load st i \<le> attempts st i"
  by (simp add: load_def)

lemma attempts_bounds: "0 < attempts st i" "attempts st i \<le> Suc max_retries_per_task"
  by (auto simp: attempts_def split: option.splits)

definition calm :: "string set \<Rightarrow> sched_state \<Rightarrow> sched_state \<Rightarrow> bool" where
  "calm A st st' \<longleftrightarrow> dag_ids (ss_dag st') = dag_ids (ss_dag st) \<and> ss_replans st' = ss_replans st
     \<and> (\<forall>i. attempts st' i \<le> attempts st i)
     \<and> (\<forall>i. i \<notin> A \<longrightarrow> is_open (dag_status (ss_dag st') i) \<longrightarrow> is_open (dag_status (ss_dag st) i))"

lemma calm_load: "calm A st st' \<Longrightarrow> i \<notin> A \<Longrightarrow> load st' i \<le> load st i"
  by (simp add: calm_def load_def)

lemma calm_trans: "calm A a b \<Longrightarrow> calm A b c \<Longrightarrow> calm A a c"
  unfolding calm_def by (metis order_trans)

lemma funded_leave:
  assumes f: "funded N T A st" and c: "calm A st st'"
    and i: "\<not> is_open (dag_status (ss_dag st') i) \<or> attempts st' i < attempts st i"
  shows "funded N T (A - {i}) st'"
proof -
  obtain B where B: "\<forall>j \<in> A. attempts st j \<le> Suc (B j)" "\<forall>j. j \<notin> A \<longrightarrow> load st j \<le> B j"
      "sum_list (map B (dag_ids (ss_dag st))) + Suc max_retries_per_task * (max_replans - ss_replans st) \<le> T"
    using f by (auto simp: funded_def)
  have at: "attempts st' j \<le> attempts st j" for j using c by (simp add: calm_def)
  have "\<forall>j \<in> A - {i}. attempts st' j \<le> Suc (B j)" using B(1) at le_trans by fastforce
  moreover have "load st' j \<le> B j" if "j \<notin> A - {i}" for j
  proof (cases "j \<in> A")
    case True
    then have "j = i" using that by simp
    moreover have "load st' i \<le> B i"
      using i B(1) True load_attempts[of st' i] \<open>j = i\<close> by (fastforce simp: load_def)
    ultimately show ?thesis by simp
  next
    case False
    with calm_load[OF c] B(2) show ?thesis using le_trans by blast
  qed
  ultimately show ?thesis using f c B(3) by (auto simp: funded_def calm_def)
qed

lemma funded_calm:
  assumes f: "funded N T A st" and c: "calm A st st'"
  shows "funded N T A st'"
proof -
  obtain B where B: "\<forall>j \<in> A. attempts st j \<le> Suc (B j)" "\<forall>j. j \<notin> A \<longrightarrow> load st j \<le> B j"
      "sum_list (map B (dag_ids (ss_dag st))) + Suc max_retries_per_task * (max_replans - ss_replans st) \<le> T"
    using f by (auto simp: funded_def)
  have "attempts st' j \<le> attempts st j" for j using c by (simp add: calm_def)
  then have "\<forall>j \<in> A. attempts st' j \<le> Suc (B j)" using B(1) le_trans by blast
  moreover have "\<forall>j. j \<notin> A \<longrightarrow> load st' j \<le> B j" using calm_load[OF c] B(2) le_trans by blast
  ultimately show ?thesis using f c B(3) by (auto simp: funded_def calm_def)
qed

text \<open>Starting a batch pays for one attempt.\<close>

lemma funded_start:
  assumes f: "funded N T {} st" and d: "distinct (dag_ids (ss_dag st))"
    and A: "A \<noteq> {}" "\<And>i. i \<in> A \<Longrightarrow> i \<in> set (dag_ids (ss_dag st)) \<and> is_open (dag_status (ss_dag st) i)"
  shows "0 < T \<and> funded N (T - 1) A st"
proof -
  obtain B where B: "\<forall>j. load st j \<le> B j"
      "sum_list (map B (dag_ids (ss_dag st))) + Suc max_retries_per_task * (max_replans - ss_replans st) \<le> T"
    using f by (auto simp: funded_def)
  define B' where "B' j = (if j \<in> A then B j - 1 else B j)" for j
  have pos: "attempts st j \<le> B j" if "j \<in> A" for j using B(1) A(2)[OF that] by (auto simp: load_def dest: spec[of _ j])
  have "attempts st j \<le> Suc (B' j)" if "j \<in> A" for j using pos[OF that] that by (simp add: B'_def)
  moreover have "load st j \<le> B' j" if "j \<notin> A" for j using B(1) that by (simp add: B'_def)
  moreover obtain i where i: "i \<in> A" using A(1) by blast
  have "sum_list (map B' (dag_ids (ss_dag st))) < sum_list (map B (dag_ids (ss_dag st)))"
  proof (rule sum_list_less)
    show "B' j \<le> B j" for j by (simp add: B'_def)
    show "i \<in> set (dag_ids (ss_dag st))" using A(2) i by blast
    show "B' i < B i" using pos[OF i] attempts_bounds(1)[of st i] i by (simp add: B'_def)
  qed
  ultimately show ?thesis using f B(2) by (auto simp: funded_def intro!: exI[of _ B'])
qed

text \<open>A new node is paid for by the re-planning counter.\<close>

lemma funded_add:
  assumes f: "funded N T A st" and r: "ss_replans st < max_replans" "ss_replans st' = ss_replans st + 1"
    and ids: "dag_ids (ss_dag st') = dag_ids (ss_dag st) @ [j]" "j \<notin> set (dag_ids (ss_dag st))" "j \<notin> A"
    and at: "\<And>i. i \<noteq> j \<Longrightarrow> attempts st' i = attempts st i"
    and op: "\<And>i. i \<noteq> j \<Longrightarrow> dag_status (ss_dag st') i = dag_status (ss_dag st) i"
  shows "funded N T A st'"
proof -
  obtain B where B: "\<forall>j \<in> A. attempts st j \<le> Suc (B j)" "\<forall>j. j \<notin> A \<longrightarrow> load st j \<le> B j"
      "sum_list (map B (dag_ids (ss_dag st))) + Suc max_retries_per_task * (max_replans - ss_replans st) \<le> T"
    using f by (auto simp: funded_def)
  define B' where "B' = B(j := Suc max_retries_per_task)"
  have B': "B' j = Suc max_retries_per_task" "\<And>i. i \<noteq> j \<Longrightarrow> B' i = B i" by (simp_all add: B'_def)
  have "map B' (dag_ids (ss_dag st)) = map B (dag_ids (ss_dag st))"
    using ids(2) by (intro map_cong refl B'(2)) auto
  then have "sum_list (map B' (dag_ids (ss_dag st'))) = sum_list (map B (dag_ids (ss_dag st))) + Suc max_retries_per_task"
    by (simp only: ids(1) map_append sum_list_append list.map B'(1)) simp
  moreover have "max_replans - ss_replans st = Suc (max_replans - ss_replans st')" using r by simp
  ultimately have "sum_list (map B' (dag_ids (ss_dag st'))) + Suc max_retries_per_task * (max_replans - ss_replans st') \<le> T"
    using B(3) by simp
  moreover have "\<forall>i \<in> A. attempts st' i \<le> Suc (B' i)" using B(1) ids(3) at B'(2) by fastforce
  moreover have "load st' i \<le> B' i" if "i \<notin> A" for i
  proof (cases "i = j")
    case True
    then show ?thesis using load_attempts[of st' j] attempts_bounds(2)[of st' j] B'(1) by simp
  next
    case False
    then have "load st' i = load st i" "B' i = B i" using at[of i] op[of i] B'(2) by (simp_all add: load_def)
    with B(2) that show ?thesis by simp
  qed
  ultimately show ?thesis using f r ids(1) by (auto simp: funded_def)
qed

section \<open>The invariant of a run\<close>

definition run_inv :: "nat \<Rightarrow> nat \<Rightarrow> string set \<Rightarrow> string set \<Rightarrow> string set \<Rightarrow> sched_state \<Rightarrow> bool" where
  "run_inv N T R A S st \<longleftrightarrow> graph_inv R A S (ss_dag st) \<and> funded N T A st"

text \<open>A node and its task row; neither is ever lost.\<close>

definition linked :: "sched_state \<Rightarrow> string \<Rightarrow> uuid \<Rightarrow> bool" where
  "linked st i t \<longleftrightarrow> dag_task (ss_dag st) i = Some t \<and> t \<in> tk_id ` set (ss_tasks st)"

text \<open>What a step for node \<open>i\<close> leaves of the other nodes.\<close>

definition frame :: "string \<Rightarrow> sched_state \<Rightarrow> sched_state \<Rightarrow> bool" where
  "frame i st st' \<longleftrightarrow> (\<forall>j t. linked st j t \<longrightarrow> linked st' j t)
     \<and> (\<forall>j. j \<noteq> i \<longrightarrow> dag_status (ss_dag st) j = Some TsRunning \<longrightarrow> dag_status (ss_dag st') j = Some TsRunning)"

lemma frame_refl [simp]: "frame i st st"
  by (simp add: frame_def)

lemma frame_trans: "frame i a b \<Longrightarrow> frame i b c \<Longrightarrow> frame i a c"
  by (simp add: frame_def)

lemma lookup_by_map:
  "(\<And>r. key (f r) = key r) \<Longrightarrow> lookup_by key k (map f rows) = map_option f (lookup_by key k rows)"
  by (induction rows) auto

lemma retries_update:
  assumes "\<And>r. tk_id (f r) = tk_id r"
  shows "retries_of u (update_task t f st) = (case lookup_by tk_id u (ss_tasks st) of None \<Rightarrow> 0 | Some r \<Rightarrow>
           if u = t then tk_retries (f r) else tk_retries r)"
proof -
  have "lookup_by tk_id u (map (\<lambda>r. if tk_id r = t then f r else r) (ss_tasks st))
      = map_option (\<lambda>r. if tk_id r = t then f r else r) (lookup_by tk_id u (ss_tasks st))"
    by (rule lookup_by_map) (simp add: assms)
  then show ?thesis by (auto simp: retries_of_def update_task_def dest: lookup_by_Some split: option.splits)
qed

definition row_update :: "(task_row \<Rightarrow> task_row) \<Rightarrow> bool" where
  "row_update f \<longleftrightarrow> (\<forall>r. tk_id (f r) = tk_id r \<and> tk_retries r \<le> tk_retries (f r))"

lemma row_updates [simp]:
  "row_update (\<lambda>r. r\<lparr>tk_status := s, tk_error := e, tk_agent := a\<rparr>)" "row_update (\<lambda>r. r\<lparr>tk_status := s, tk_error := e\<rparr>)"
  "row_update (set_output key v)" "row_update (complete_task p resp credits)"
  "row_update (\<lambda>r. set_output key v (r\<lparr>tk_confidence := g r\<rparr>))"
  by (simp_all add: row_update_def set_output_def complete_task_def)

lemma update_task_fields [simp]:
  "ss_dag (update_task t f st) = ss_dag st" "ss_replans (update_task t f st) = ss_replans st"
  by (simp_all add: update_task_def)

lemma linked_update:
  assumes "\<And>r. tk_id (f r) = tk_id r"
  shows "linked (update_task t f st) j u = linked st j u"
proof -
  have "map tk_id (ss_tasks (update_task t f st)) = map tk_id (ss_tasks st)"
    by (simp add: update_task_def comp_def assms)
  then have "set (map tk_id (ss_tasks (update_task t f st))) = set (map tk_id (ss_tasks st))" by (simp only:)
  then show ?thesis by (simp add: linked_def)
qed

text \<open>Steps that leave the graph alone.\<close>

definition quiet :: "sched_state \<Rightarrow> sched_state \<Rightarrow> bool" where
  "quiet st st' \<longleftrightarrow> ss_dag st' = ss_dag st \<and> ss_replans st' = ss_replans st
     \<and> (\<forall>t. retries_of t st \<le> retries_of t st') \<and> (\<forall>j t. linked st j t \<longrightarrow> linked st' j t)"

lemma quiet_refl [simp]: "quiet st st"
  by (simp add: quiet_def)

lemma quiet_trans: "quiet a b \<Longrightarrow> quiet b c \<Longrightarrow> quiet a c"
  unfolding quiet_def by (metis order_trans)

lemma quiet_update:
  assumes "row_update f"
  shows "quiet st (update_task t f st)"
proof -
  have f: "\<And>r. tk_id (f r) = tk_id r" "\<And>r. tk_retries r \<le> tk_retries (f r)" using assms by (simp_all add: row_update_def)
  have "retries_of u st \<le> retries_of u (update_task t f st)" for u
    unfolding retries_update[where f = f, OF f(1)] by (auto simp: retries_of_def f(2) split: option.splits)
  then show ?thesis by (simp add: quiet_def linked_update[where f = f, OF f(1)])
qed

lemma quiet_same:
  "ss_dag st' = ss_dag st \<Longrightarrow> ss_replans st' = ss_replans st \<Longrightarrow> ss_tasks st' = ss_tasks st \<Longrightarrow> quiet st st'"
  by (simp add: quiet_def linked_def retries_of_def)

lemma attempts_mono:
  "dag_task (ss_dag st') i = dag_task (ss_dag st) i \<Longrightarrow> (\<And>t. retries_of t st \<le> retries_of t st') \<Longrightarrow> attempts st' i \<le> attempts st i"
  by (auto simp: attempts_def split: option.splits intro: diff_le_mono2)

lemma quiet_calm: "quiet st st' \<Longrightarrow> calm A st st'"
  by (simp add: calm_def quiet_def attempts_mono)

lemma quiet_frame: "quiet st st' \<Longrightarrow> frame i st st'"
  by (simp add: frame_def quiet_def)

lemma quiet_inv: "quiet st st' \<Longrightarrow> run_inv N T R A S st \<Longrightarrow> run_inv N T R A S st'"
  using funded_calm[OF _ quiet_calm] by (auto simp: run_inv_def quiet_def)

text \<open>A status change of one node of the batch.\<close>

lemma moved_state:
  assumes m: "moved i (ss_dag st) (ss_dag st')" and i: "i \<in> A" and rest: "ss_replans st' = ss_replans st" "ss_tasks st' = ss_tasks st"
  shows "calm A st st'" "frame i st st'"
proof -
  have "is_open (dag_status (ss_dag st) j)" if "j \<notin> A" "is_open (dag_status (ss_dag st') j)" for j
    using m i that by (fastforce simp: moved_def is_open_def)
  moreover have "attempts st' j \<le> attempts st j" for j
    by (rule attempts_mono) (simp_all add: moved_views(4)[OF m] retries_of_def rest(2))
  ultimately show "calm A st st'" by (simp add: calm_def moved_views(3)[OF m] rest(1))
  show "frame i st st'"
    using moved_keeps[OF m] by (simp add: frame_def linked_def moved_views(4)[OF m] rest(2))
qed

lemma run_inv_leave:
  assumes "run_inv N T R A S st" "dag_status (ss_dag st) i \<in> {Some TsCompleted, Some TsFailed, Some TsSkipped}"
  shows "run_inv N T R (A - {i}) S st"
proof -
  have "calm A st st" by (simp add: calm_def)
  then have "funded N T (A - {i}) st"
    using assms by (intro funded_leave[where st = st]) (auto simp: run_inv_def is_open_def)
  then show ?thesis using assms graph_inv_leave by (auto simp: run_inv_def)
qed

lemma run_inv_strand:
  assumes "run_inv N T R A S st" "i \<in> A" "dag_status (ss_dag st) i = Some TsRunning"
  shows "run_inv N T R (A - {i}) (insert i S) st"
proof -
  have "calm A st st" by (simp add: calm_def)
  then have "funded N T (A - {i}) st"
    using assms by (intro funded_leave[where st = st]) (auto simp: run_inv_def is_open_def)
  then show ?thesis using assms graph_inv_strand by (auto simp: run_inv_def)
qed

lemma run_inv_set:
  assumes "run_inv N T R A S st" "i \<in> A" "dag_ok (ss_dag st')" "reshaped (ss_dag st) (ss_dag st')"
    and "dag_status (ss_dag st') = (dag_status (ss_dag st))(i := Some s)" "s \<in> {TsPending, TsRunning, TsCompleted}"
    and rest: "ss_replans st' = ss_replans st" "ss_tasks st' = ss_tasks st"
  shows "run_inv N T R A S st'" "frame i st st'"
proof -
  have g: "graph_inv R A S (ss_dag st)" using assms(1) by (simp add: run_inv_def)
  note gs = graph_inv_set[OF g assms(2-6)]
  note ms = moved_state[OF gs(2) assms(2) rest]
  show "run_inv N T R A S st'" using gs(1) funded_calm[OF _ ms(1)] assms(1) by (simp add: run_inv_def)
  show "frame i st st'" by (rule ms(2))
qed

lemma fail_node_inv:
  assumes inv: "run_inv N T R A S st" and i: "i \<in> A" and f: "fail_node i m st = Inr st'"
  shows "run_inv N T R (A - {i}) S st'" "frame i st st'" "dag_status (ss_dag st') i = Some TsFailed"
proof -
  obtain d sk where d: "mark_failed (ss_dag st) i (Some m) = Inr (d, sk)" "st' = st\<lparr>ss_dag := d\<rparr>"
    using f by (auto simp: fail_node_def bindE_Inr_conv mapErr_Inr_conv)
  note gf = graph_inv_fail[OF inv[unfolded run_inv_def, THEN conjunct1] i d(1)]
  note ms = moved_state[of i st st' A, OF _ i]
  have c: "calm A st st'" "frame i st st'" using ms gf(2) d(2) by simp_all
  show "frame i st st'" "dag_status (ss_dag st') i = Some TsFailed" using c gf(3) d(2) by simp_all
  have "funded N T (A - {i}) st'"
    using inv gf(3) d(2) by (intro funded_leave[OF _ c(1)]) (simp_all add: run_inv_def is_open_def)
  then show "run_inv N T R (A - {i}) S st'" using gf(1) d(2) by (simp add: run_inv_def)
qed

section \<open>Preparing a batch\<close>

lemma graph_inv_same:
  assumes "graph_inv R A S d" "same_graph d d'" "dag_ok d'" "dag_status d' = dag_status d"
  shows "graph_inv R A S d'"
  using assms same_graph_views[OF assms(2)] by (simp add: graph_inv_def fail_closed_def)

lemma retries_append:
  assumes "tk_retries r = 0"
  shows "retries_of u (st\<lparr>ss_tasks := ss_tasks st @ [r], ss_dag := d\<rparr>) = retries_of u st"
  using assms by (auto simp: retries_of_def lookup_by_append split: option.splits)

lemma upsert_inv:
  assumes inv: "run_inv N T R A S st" and u: "upsert_task_row E w i a status msg st = Inr (t, st')"
  shows "run_inv N T R A S st'" "linked st' i t" "frame j st st'" "dag_status (ss_dag st') = dag_status (ss_dag st)"
proof -
  have ok: "dag_ok (ss_dag st)" using inv by (simp add: run_inv_def graph_inv_def)
  obtain n where n: "get_node (ss_dag st) i = Inr n"
    using u by (auto simp: upsert_task_row_def bindE_Inr_conv mapErr_Inr_conv)
  note nv = get_node_views[OF n]
  have "run_inv N T R A S st' \<and> linked st' i t \<and> frame j st st' \<and> dag_status (ss_dag st') = dag_status (ss_dag st)"
  proof (cases "Option.bind (dn_task n) (\<lambda>t. lookup_by tk_id t (ss_tasks st))")
    case (Some row)
    then obtain t0 where t0: "dn_task n = Some t0" "lookup_by tk_id t0 (ss_tasks st) = Some row" by (auto simp: bind_eq_Some_conv)
    note row = lookup_by_Some[OF t0(2)]
    have st': "t = t0" "st' = update_task t0 (\<lambda>r. r\<lparr>tk_status := status, tk_error := msg, tk_agent := Some a\<rparr>) st"
      using u n Some row by (auto simp: upsert_task_row_def)
    have q: "quiet st st'" unfolding st' by (rule quiet_update) simp
    have "linked st i t0" using nv(3) t0(1) row by (auto simp: linked_def)
    with quiet_inv[OF q inv] quiet_frame[OF q] q st' show ?thesis by (simp add: quiet_def)
  next
    case None
    define m where "m = n\<lparr>dn_task := Some t\<rparr>"
    define row where "row = \<lparr>tk_id = t, tk_workflow = w, tk_agent = Some a, tk_step = step_number i, tk_capability = dn_capability n,
      tk_description = dn_description n, tk_status = status, tk_error = msg, tk_output = None, tk_confidence = None,
      tk_cost = 0, tk_latency = None, tk_retries = 0\<rparr>"
    have row: "tk_id row = t" "tk_retries row = 0" by (simp_all add: row_def)
    have st': "st' = st\<lparr>ss_tasks := ss_tasks st @ [row], ss_dag := set_node m (ss_dag st)\<rparr>"
      using u n None by (auto simp: upsert_task_row_def Let_def m_def row_def split: if_splits)
    have "node_shape m = node_shape n" by (simp add: m_def node_shape_def)
    note v = set_node_views[OF ok n this]
    have sts: "dag_status (set_node m (ss_dag st)) = dag_status (ss_dag st)"
      using v(3) nv(2) by (simp add: m_def fun_upd_idem)
    have tsk: "dag_task (set_node m (ss_dag st)) = (dag_task (ss_dag st))(i := Some t)" using v(4) by (simp add: m_def)
    have ret: "retries_of u st' = retries_of u st" for u unfolding st' by (rule retries_append[OF row(2)])
    have old: "dag_task (ss_dag st) i = Some t0 \<Longrightarrow> lookup_by tk_id t0 (ss_tasks st) = None" for t0
      using nv(3) None by simp
    have "attempts st i = Suc max_retries_per_task" using old by (auto simp: attempts_def retries_of_def split: option.splits)
    then have "attempts st' i \<le> attempts st i" using attempts_bounds(2)[of st' i] by simp
    moreover have "attempts st' x \<le> attempts st x" if "x \<noteq> i" for x
      by (rule attempts_mono) (use that tsk ret in \<open>simp_all add: st'\<close>)
    ultimately have at: "\<forall>x. attempts st' x \<le> attempts st x" by (metis)
    have "ss_replans st' = ss_replans st" "dag_ids (ss_dag st') = dag_ids (ss_dag st)" "dag_status (ss_dag st') = dag_status (ss_dag st)"
      by (simp_all add: st' sts same_graph_views(3)[OF v(1)])
    with at have "calm A st st'" by (simp only: calm_def) blast
    then have "funded N T A st'" using funded_calm inv by (auto simp: run_inv_def)
    moreover have "linked st' i t" by (simp add: linked_def st' tsk row(1))
    moreover have "graph_inv R A S (set_node m (ss_dag st))"
      by (rule graph_inv_same[OF _ v(1,2) sts]) (use inv in \<open>simp add: run_inv_def\<close>)
    moreover have "linked st' x y" if "linked st x y" for x y
    proof -
      have "x \<noteq> i" using that old[of y] by (auto simp: linked_def lookup_by_None)
      with that show ?thesis by (auto simp: linked_def st' tsk)
    qed
    ultimately show ?thesis
      by (simp add: run_inv_def frame_def st' sts)
  qed
  then show "run_inv N T R A S st'" "linked st' i t" "frame j st st'" "dag_status (ss_dag st') = dag_status (ss_dag st)" by simp_all
qed

definition prepared_ok :: "sched_state \<Rightarrow> prepared \<Rightarrow> bool" where
  "prepared_ok st p \<longleftrightarrow> linked st (pn_id p) (pn_task p) \<and> dag_status (ss_dag st) (pn_id p) = Some TsRunning"

lemma prepared_ok_frame: "frame i st st' \<Longrightarrow> pn_id p \<noteq> i \<Longrightarrow> prepared_ok st p \<Longrightarrow> prepared_ok st' p"
  by (simp add: prepared_ok_def frame_def)

lemma prepare_node_inv:
  assumes inv: "run_inv N T R A S st" and i: "dn_id node \<in> A" and p: "prepare_node E w agents k node st = Inr (q, st')"
  shows "frame (dn_id node) st st'"
    "q = None \<Longrightarrow> run_inv N T R (A - {dn_id node}) S st'"
    "q = Some x \<Longrightarrow> pn_node x = node \<and> run_inv N T R A S st' \<and> prepared_ok st' x"
proof -
  let ?i = "dn_id node"
  have ok: "dag_ok (ss_dag st)" using inv by (simp add: run_inv_def graph_inv_def)
  have "frame ?i st st' \<and> (q = None \<longrightarrow> run_inv N T R (A - {?i}) S st')
      \<and> (\<forall>x. q = Some x \<longrightarrow> pn_node x = node \<and> run_inv N T R A S st' \<and> prepared_ok st' x)"
  proof (cases "map_of agents ?i")
    case None
    then have "q = None" "fail_node ?i ''No agent assigned'' st = Inr st'"
      using p by (auto simp: prepare_node_def Let_def bindE_Inr_conv)
    with fail_node_inv[OF inv i] show ?thesis by simp
  next
    case (Some agent)
    define r where "r = reserve_budget (se_wallet E) w (ag_id agent) (estimate_node_cost (se_max_iterations E) node agent)
      (''Task '' @ ?i @ '': '' @ dn_capability node) (Some (reserve_key w ?i)) (ss_wallet st)"
    show ?thesis
    proof (cases r)
      case (Inl e)
      have e: "e = BudgetExhausted" using p Some Inl by (cases e) (simp_all add: prepare_node_def Let_def r_def)
      obtain m m' st1 t where f: "fail_node ?i m st = Inr st1" "upsert_task_row E w ?i (ag_id agent) TsFailed m' st1 = Inr (t, st')" "q = None"
        using p Some Inl e by (auto simp: prepare_node_def Let_def r_def bindE_Inr_conv)
      note fn = fail_node_inv[OF inv i f(1)]
      show ?thesis using upsert_inv(1,3)[OF fn(1) f(2)] frame_trans[OF fn(2)] f(3) by blast
    next
      case (Inr rw)
      obtain res wal where rw: "rw = (res, wal)" by (cases rw)
      obtain d st1 t c where s: "mark_running (ss_dag st) ?i = Inr d"
          "upsert_task_row E w ?i (ag_id agent) TsRunning None (st\<lparr>ss_wallet := wal, ss_dag := d\<rparr>) = Inr (t, st')"
          "q = Some \<lparr>pn_node = node, pn_task = t, pn_agent = agent, pn_context = c, pn_reservation = res\<rparr>"
        using p Some Inr rw by (auto simp: prepare_node_def Let_def r_def bindE_Inr_conv mapErr_Inr_conv)
      note mv = mark_running_views[OF ok s(1)]
      note set = run_inv_set[OF inv i, of "st\<lparr>ss_wallet := wal, ss_dag := d\<rparr>" TsRunning]
      have st: "run_inv N T R A S (st\<lparr>ss_wallet := wal, ss_dag := d\<rparr>)" "frame ?i st (st\<lparr>ss_wallet := wal, ss_dag := d\<rparr>)"
        using set mv by simp_all
      note up = upsert_inv[OF st(1) s(2)]
      have "dag_status (ss_dag st') ?i = Some TsRunning" using up(4) mv(4) by simp
      then show ?thesis
        using frame_trans[OF st(2) up(3)] up(1,2) s(3) by (simp add: prepared_ok_def pn_id_def)
    qed
  qed
  then show "frame ?i st st'" "q = None \<Longrightarrow> run_inv N T R (A - {?i}) S st'"
    "q = Some x \<Longrightarrow> pn_node x = node \<and> run_inv N T R A S st' \<and> prepared_ok st' x" by blast+
qed

lemma prepare_nodes_inv:
  "prepare_nodes E w agents k nodes st = Inr (ps, st') \<Longrightarrow> run_inv N T R A S st \<Longrightarrow> dn_id ` set nodes \<subseteq> A
     \<Longrightarrow> distinct (map dn_id nodes)
     \<Longrightarrow> run_inv N T R (A - (dn_id ` set nodes - pn_id ` set ps)) S st' \<and> (\<forall>p \<in> set ps. prepared_ok st' p \<and> pn_node p \<in> set nodes)
       \<and> distinct (map pn_id ps) \<and> (\<forall>p. prepared_ok st p \<longrightarrow> pn_id p \<notin> dn_id ` set nodes \<longrightarrow> prepared_ok st' p)"
proof (induction nodes arbitrary: st ps A)
  case Nil
  then show ?case by simp
next
  case (Cons node nodes)
  let ?i = "dn_id node"
  obtain q st1 ps1 where s: "prepare_node E w agents k node st = Inr (q, st1)" "prepare_nodes E w agents k nodes st1 = Inr (ps1, st')"
      "ps = (case q of None \<Rightarrow> ps1 | Some x \<Rightarrow> x # ps1)"
    using Cons.prems(1) by (auto simp: bindE_Inr_conv)
  have i: "?i \<in> A" and fresh: "?i \<notin> dn_id ` set nodes" and dist: "distinct (map dn_id nodes)" using Cons.prems(3,4) by auto
  note pn = prepare_node_inv[OF Cons.prems(2) i s(1)]
  have frame: "prepared_ok st1 p" if "prepared_ok st p" "pn_id p \<noteq> ?i" for p using prepared_ok_frame[OF pn(1)] that by blast
  have ids: "pn_id ` set ps1 \<subseteq> dn_id ` set nodes" if "\<forall>p \<in> set ps1. pn_node p \<in> set nodes" using that by (auto simp: pn_id_def)
  show ?case
  proof (cases q)
    case None
    have "dn_id ` set nodes \<subseteq> A" using Cons.prems(3) by auto
    then have sub: "dn_id ` set nodes \<subseteq> A - {?i}" using fresh by blast
    note IH = Cons.IH[OF s(2) pn(2)[OF None] sub dist]
    have "A - (dn_id ` set (node # nodes) - pn_id ` set ps) = A - {?i} - (dn_id ` set nodes - pn_id ` set ps1)"
    proof -
      have "?i \<notin> pn_id ` set ps1" using ids IH fresh by blast
      moreover have "A - (insert ?i X - Y) = A - {?i} - (X - Y)" if "?i \<notin> Y" for X Y using that by blast
      ultimately show ?thesis using s(3) None by simp
    qed
    with IH s(3) None frame show ?thesis by auto
  next
    case (Some x)
    note x = pn(3)[OF Some]
    have sub: "dn_id ` set nodes \<subseteq> A" using Cons.prems(3) by auto
    note IH = Cons.IH[OF s(2) x[THEN conjunct2, THEN conjunct1] sub dist]
    have xi: "pn_id x = ?i" using x by (simp add: pn_id_def)
    have "A - (dn_id ` set (node # nodes) - pn_id ` set ps) = A - (dn_id ` set nodes - pn_id ` set ps1)"
      using s(3) Some xi fresh by auto
    moreover have "prepared_ok st' x" using IH x xi fresh by simp
    moreover have "pn_id x \<notin> pn_id ` set ps1" using ids IH xi fresh by auto
    ultimately show ?thesis using IH x s(3) Some frame by auto
  qed
qed

section \<open>The policy and approval gates\<close>

lemma run_inv_strand_all:
  assumes "run_inv N T R A S st" "D \<subseteq> A" "\<forall>i \<in> D. dag_status (ss_dag st) i = Some TsRunning"
  shows "run_inv N T R (A - D) (S \<union> D) st"
proof -
  have load: "load st i = 0" if "i \<in> D" for i using that assms(3) by (simp add: load_def is_open_def)
  have "funded N T (A - D) st"
    using assms(1) load by (fastforce simp: run_inv_def funded_def)
  moreover have "graph_inv R (A - D) (S \<union> D) (ss_dag st)"
    using assms by (auto simp: run_inv_def graph_inv_def)
  ultimately show ?thesis by (simp add: run_inv_def)
qed

lemma policy_nodes_quiet:
  "policy_nodes E w k ps st = (kept, escalated, st') \<Longrightarrow> quiet st st' \<and> set kept \<subseteq> set ps
     \<and> (distinct (map pn_id ps) \<longrightarrow> distinct (map pn_id kept))"
proof (induction ps arbitrary: st kept escalated)
  case (Cons p ps)
  obtain d zs where d: "node_decision E w k p (ss_zsets st) = (d, zs)" by (cases "node_decision E w k p (ss_zsets st)")
  have q: "quiet st (st\<lparr>ss_zsets := zs\<rparr>)" by (rule quiet_same) simp_all
  show ?case
  proof (cases "de_action d = DecDeny")
    case True
    then obtain t f where run: "policy_nodes E w k ps (update_task t f (st\<lparr>ss_zsets := zs\<rparr>)) = (kept, escalated, st')"
        and f: "row_update f"
      using Cons.prems d by (simp add: Let_def)
    from Cons.IH[OF run] quiet_trans[OF quiet_trans[OF q quiet_update[OF f]]] show ?thesis by auto
  next
    case False
    obtain kept1 esc1 where run: "policy_nodes E w k ps (st\<lparr>ss_zsets := zs\<rparr>) = (kept1, esc1, st')" "kept = p # kept1"
      using Cons.prems d False by (auto simp: Let_def split: prod.splits)
    have "p' \<in> set ps" if "p' \<in> set kept1" for p' using Cons.IH[OF run(1)] that by blast
    then show ?thesis using Cons.IH[OF run(1)] quiet_trans[OF q] run(2) by auto
  qed
qed simp

lemma policy_evaluate_inv:
  assumes p: "policy_evaluate_nodes E w k ps st = (kept, escalated, st')" and inv: "run_inv N T R (pn_id ` set ps) S st"
    and ok: "\<forall>p \<in> set ps. prepared_ok st p" "distinct (map pn_id ps)"
  shows "\<exists>D. run_inv N T R (pn_id ` set kept) (S \<union> D) st' \<and> D = pn_id ` set ps - pn_id ` set kept"
    "set kept \<subseteq> set ps" "\<forall>p \<in> set kept. prepared_ok st' p" "distinct (map pn_id kept)"
proof -
  have q: "quiet st st' \<and> set kept \<subseteq> set ps \<and> distinct (map pn_id kept)"
    using p policy_nodes_quiet[of E w k ps st kept escalated st'] ok(2) by (auto simp: policy_evaluate_nodes_def split: if_splits)
  then show "set kept \<subseteq> set ps" "distinct (map pn_id kept)" by simp_all
  show ok': "\<forall>p \<in> set kept. prepared_ok st' p" using q ok(1) by (auto simp: prepared_ok_def quiet_def)
  let ?D = "pn_id ` set ps - pn_id ` set kept"
  have "run_inv N T R (pn_id ` set ps) S st'" using quiet_inv[OF q[THEN conjunct1] inv] .
  moreover have "\<forall>i \<in> ?D. dag_status (ss_dag st') i = Some TsRunning"
    using q ok(1) by (auto simp: quiet_def prepared_ok_def)
  ultimately have "run_inv N T R (pn_id ` set ps - ?D) (S \<union> ?D) st'" by (intro run_inv_strand_all) auto
  moreover have "pn_id ` set ps - ?D = pn_id ` set kept" using q by auto
  ultimately show "\<exists>D. run_inv N T R (pn_id ` set kept) (S \<union> D) st' \<and> D = pn_id ` set ps - pn_id ` set kept" by simp
qed

lemma quiet_save: "save_pause E cp st = (h, st') \<Longrightarrow> quiet st st'"
  by (auto simp: save_pause_def split: option.splits intro: quiet_same)

lemma lookup_pn: "lookup_by pn_id i ps = Some p \<Longrightarrow> i \<in> pn_id ` set ps"
  by (auto dest: lookup_by_Some)

lemma approval_gate_inv:
  "approval_gate E w k committed nodes ps st = Inr (None, active, st') \<Longrightarrow> run_inv N T R (pn_id ` set ps) S st
     \<Longrightarrow> run_inv N T R (pn_id ` set active) S st' \<and> set active \<subseteq> set ps \<and> (distinct (map pn_id ps) \<longrightarrow> distinct (map pn_id active))
       \<and> (\<forall>j t. linked st j t \<longrightarrow> linked st' j t)"
proof (induction nodes arbitrary: ps st)
  case (Cons node nodes)
  let ?i = "dn_id node"
  obtain p where p: "lookup_by pn_id ?i ps = Some p" using Cons.prems(1) by (auto simp: Let_def split: option.splits)
  note i = lookup_pn[OF p]
  show ?case
  proof (cases "se_federated E k ?i")
    case (Some fd)
    show ?thesis
    proof (cases "fd_status fd = ''denied''")
      case True
      define f where "f = (\<lambda>r::task_row. r\<lparr>tk_status := TsSkipped, tk_error := Some (''Denied: '' @ fd_reason fd)\<rparr>)"
      have s2: "row_update f" by (simp add: f_def)
      obtain m st1 where s13: "fail_node ?i m st = Inr st1"
          "approval_gate E w k committed nodes (drop_node ?i ps) (update_task (pn_task p) f st1) = Inr (None, active, st')"
        using Cons.prems(1) p Some True by (auto simp: Let_def bindE_Inr_conv f_def)
      note s = s13(1) s2 s13(2)
      note fn = fail_node_inv[OF Cons.prems(2) i s(1)]
      have ids: "pn_id ` set (drop_node ?i ps) = pn_id ` set ps - {?i}" by (auto simp: drop_node_def)
      note q = quiet_update[OF s(2), of st1 "pn_task p"]
      from Cons.IH[OF s(3)] quiet_inv[OF q fn(1)] ids
      have "run_inv N T R (pn_id ` set active) S st' \<and> set active \<subseteq> set (drop_node ?i ps)
          \<and> (distinct (map pn_id (drop_node ?i ps)) \<longrightarrow> distinct (map pn_id active))
          \<and> (\<forall>j t. linked (update_task (pn_task p) f st1) j t \<longrightarrow> linked st' j t)" by simp
      moreover have "set (drop_node ?i ps) \<subseteq> set ps" by (auto simp: drop_node_def)
      moreover have "distinct (map pn_id ps) \<longrightarrow> distinct (map pn_id (drop_node ?i ps))"
        by (simp add: drop_node_def distinct_map_filter)
      moreover have "linked st j t \<longrightarrow> linked (update_task (pn_task p) f st1) j t" for j t
        using fn(2) q by (simp add: frame_def quiet_def)
      ultimately show ?thesis by blast
    next
      case False
      with Cons.prems p Some Cons.IH show ?thesis by (simp add: Let_def)
    qed
  next
    case None
    obtain d where d: "mark_pending (ss_dag st) ?i = Inr d"
      using Cons.prems(1) p None by (auto simp: Let_def bindE_Inr_conv mapErr_Inr_conv)
    obtain h st1 where h: "save_pause E (pause_checkpoint E w p d) (st\<lparr>ss_dag := d\<rparr>) = (h, st1)"
      by (cases "save_pause E (pause_checkpoint E w p d) (st\<lparr>ss_dag := d\<rparr>)")
    define f where "f = (\<lambda>r::task_row. r\<lparr>tk_status := TsRunning, tk_error := None\<rparr>)"
    have "row_update f" by (simp add: f_def)
    moreover have "approval_gate E w k committed nodes ps (update_task (pn_task p) f st1) = Inr (None, active, st')"
      using Cons.prems(1) p None d h by (auto simp: Let_def f_def split: gate_answer.splits if_splits)
    ultimately have s: "row_update f" "approval_gate E w k committed nodes ps (update_task (pn_task p) f st1) = Inr (None, active, st')" .
    have ok: "dag_ok (ss_dag st)" using Cons.prems(2) by (simp add: run_inv_def graph_inv_def)
    note v = mark_pending_views[OF ok d]
    note set = run_inv_set[OF Cons.prems(2) i, of "st\<lparr>ss_dag := d\<rparr>" TsPending]
    have st: "run_inv N T R (pn_id ` set ps) S (st\<lparr>ss_dag := d\<rparr>)" "frame ?i st (st\<lparr>ss_dag := d\<rparr>)" using set v by simp_all
    have q: "quiet (st\<lparr>ss_dag := d\<rparr>) (update_task (pn_task p) f st1)" using quiet_trans[OF quiet_save[OF h] quiet_update[OF s(1)]] .
    from Cons.IH[OF s(2) quiet_inv[OF q st(1)]] st(2) q show ?thesis by (auto simp: frame_def quiet_def)
  qed
qed simp

end
