(* ===== verification/Resume.thy ===== *)
theory Resume
  imports Federated_Approval Scheduler_Inv
begin

text \<open>
  Models \<^verbatim>\<open>backend/app/orchestration/resume.py\<close> and the resume endpoint of
  \<^verbatim>\<open>backend/app/api/workflows.py\<close>: a node that holds a checkpoint (\<open>Checkpoint\<close>) rebuilds the workflow row
  and the task rows from it and starts the scheduler again (\<open>Scheduler\<close>), if the approval it was given
  is approved (\<open>Federated_Approval\<close>).

  Task rows are listed in the order the database returns them. The parameter \<open>R\<close> has \<open>hash\<close> of Python
  strings, the fresh task ids and the ISO text of the present. A fresh id that is taken breaks the
  session, like an exception of the database.
\<close>

section \<open>State\<close>

record wf_row =
  wf_id :: uuid
  wf_user :: string
  wf_prompt :: string
  wf_status :: workflow_status
  wf_limit :: rat
  wf_used :: rat
  wf_metadata :: "(string \<times> json) list"
  wf_snapshot :: "(string \<times> json) list option"
  wf_completed :: "string option"

record resume_db =
  rd_flows :: "wf_row list"
  rd_tasks :: "task_row list"

record resume_env =
  rs_hash :: "string \<Rightarrow> int"
  rs_new_task :: "task_row list \<Rightarrow> uuid"
  rs_now :: string

record resume_outcome =
  ro_workflow :: wf_row
  ro_checkpoint :: checkpoint
  ro_dag :: dag
  ro_created_workflow :: bool
  ro_created :: "string list"
  ro_updated :: "string list"

datatype resume_error = ResumeUnknown | ResumeCheckpoint checkpoint_error | ResumeBrokenSession

fun workflow_status_value :: "workflow_status \<Rightarrow> string" where
  "workflow_status_value WfPending = ''pending''"
| "workflow_status_value WfDecomposing = ''decomposing''"
| "workflow_status_value WfRunning = ''running''"
| "workflow_status_value WfPaused = ''paused''"
| "workflow_status_value WfCompleted = ''completed''"
| "workflow_status_value WfFailed = ''failed''"
| "workflow_status_value WfCancelled = ''cancelled''"
| "workflow_status_value WfAwaitingApproval = ''awaiting_approval''"

definition as_summary :: "resume_outcome \<Rightarrow> (string \<times> json) list" where
  "as_summary r =
     [(''workflow_id'', JStr (str_uuid (wf_id (ro_workflow r)))), (''checkpoint_hash'', json_opt_str (cp_hash (ro_checkpoint r))),
      (''created_workflow'', JBool (ro_created_workflow r)), (''created_tasks'', JArr (map JStr (ro_created r))),
      (''updated_tasks'', JArr (map JStr (ro_updated r))),
      (''status'', JStr (workflow_status_value (wf_status (ro_workflow r))))]"

section \<open>Restoring\<close>

definition load_checkpoint :: "clock \<Rightarrow> string \<Rightarrow> db_session \<Rightarrow> resume_error + checkpoint" where
  "load_checkpoint C h s =
     (if h = [] then Inl ResumeUnknown
      else bindE (mapErr ResumeCheckpoint (load_by_hash C h s)) (\<lambda>cp.
        case cp of None \<Rightarrow> Inl ResumeUnknown | Some c \<Rightarrow> Inr c))"

text \<open>Later buckets overwrite earlier ones.\<close>

definition bucket_statuses :: "checkpoint \<Rightarrow> string \<rightharpoonup> task_status" where
  "bucket_statuses cp =
     fold (\<lambda>i m. m(i \<mapsto> TsPending)) (cp_pending cp)
       (fold (\<lambda>i m. m(i \<mapsto> TsFailed)) (cp_failed cp)
         (fold (\<lambda>i m. m(i \<mapsto> TsCompleted)) (cp_completed cp) (\<lambda>_. None)))"

definition target_status :: "checkpoint \<Rightarrow> string \<Rightarrow> task_status" where
  "target_status cp i = (case bucket_statuses cp i of None \<Rightarrow> TsPending | Some s \<Rightarrow> s)"

definition resume_step :: "resume_env \<Rightarrow> string \<Rightarrow> nat" where
  "resume_step R i =
     (if filter is_digit i \<noteq> [] then step_number i else nat (abs (rs_hash R i) mod (2 ^ 31 - 1) + 1))"

definition shadow_flow :: "resume_env \<Rightarrow> checkpoint \<Rightarrow> string \<Rightarrow> string \<Rightarrow> rat \<Rightarrow> wf_row" where
  "shadow_flow R cp prompt user budget =
     \<lparr>wf_id = cp_workflow cp, wf_user = user,
      wf_prompt = (if prompt = [] then ''resumed from checkpoint '' @ take 12 (case cp_hash cp of None \<Rightarrow> [] | Some h \<Rightarrow> h) else prompt),
      wf_status = WfRunning, wf_limit = budget, wf_used = 0,
      wf_metadata = [(''resumed_from_checkpoint'', json_opt_str (cp_hash cp)), (''resumed_at'', JStr (rs_now R))],
      wf_snapshot = Some (cp_snapshot cp), wf_completed = None\<rparr>"

definition patch_flow :: "resume_env \<Rightarrow> checkpoint \<Rightarrow> wf_row \<Rightarrow> wf_row" where
  "patch_flow R cp f =
     f\<lparr>wf_snapshot := Some (cp_snapshot cp), wf_status := WfRunning, wf_completed := None,
       wf_metadata := AList.update ''resumed_at'' (JStr (rs_now R))
                        (AList.update ''resumed_from_checkpoint'' (json_opt_str (cp_hash cp)) (wf_metadata f))\<rparr>"

definition restore_flow :: "resume_env \<Rightarrow> checkpoint \<Rightarrow> string \<Rightarrow> string \<Rightarrow> rat \<Rightarrow> wf_row list \<Rightarrow> wf_row \<times> bool \<times> wf_row list" where
  "restore_flow R cp prompt user budget flows =
     (case lookup_by wf_id (cp_workflow cp) flows of
        None \<Rightarrow> let f = shadow_flow R cp prompt user budget in (f, True, flows @ [f])
      | Some f \<Rightarrow> (patch_flow R cp f, False, map (\<lambda>g. if wf_id g = wf_id f then patch_flow R cp f else g) flows))"

text \<open>\<open>tasks_by_step\<close>: the first row of each step.\<close>

definition first_row :: "uuid \<Rightarrow> task_row list \<Rightarrow> nat \<Rightarrow> task_row option" where
  "first_row w rows step = List.find (\<lambda>r. tk_workflow r = w \<and> tk_step r = step) rows"

definition new_row :: "resume_env \<Rightarrow> uuid \<Rightarrow> uuid \<Rightarrow> dag_node \<Rightarrow> task_status \<Rightarrow> task_row" where
  "new_row R w t n status =
     \<lparr>tk_id = t, tk_workflow = w, tk_agent = None, tk_step = resume_step R (dn_id n), tk_capability = dn_capability n,
      tk_description = dn_description n, tk_status = status, tk_error = None, tk_output = None, tk_confidence = None,
      tk_cost = 0, tk_latency = None, tk_retries = 0\<rparr>"

definition set_status :: "uuid \<Rightarrow> task_status \<Rightarrow> task_row list \<Rightarrow> task_row list" where
  "set_status t status rows = map (\<lambda>r. if tk_id r = t then r\<lparr>tk_status := status\<rparr> else r) rows"

fun reconcile :: "resume_env \<Rightarrow> uuid \<Rightarrow> checkpoint \<Rightarrow> (nat \<Rightarrow> task_row option) \<Rightarrow> dag_node list \<Rightarrow> task_row list
    \<Rightarrow> resume_error + (string list \<times> string list \<times> task_row list)" where
  "reconcile R w cp by_step [] rows = Inr ([], [], rows)"
| "reconcile R w cp by_step (n # ns) rows =
     (let target = target_status cp (dn_id n) in
      case by_step (resume_step R (dn_id n)) of
        None \<Rightarrow>
          let t = rs_new_task R rows in
          if t \<in> tk_id ` set rows then Inl ResumeBrokenSession
          else bindE (reconcile R w cp by_step ns (rows @ [new_row R w t n target])) (\<lambda>(created, updated, rows').
            Inr (dn_id n # created, updated, rows'))
      | Some first \<Rightarrow>
          (case lookup_by tk_id (tk_id first) rows of
             None \<Rightarrow> Inl ResumeBrokenSession
           | Some r \<Rightarrow>
               if tk_status r = target then reconcile R w cp by_step ns rows
               else bindE (reconcile R w cp by_step ns (set_status (tk_id r) target rows)) (\<lambda>(created, updated, rows').
                 Inr (created, dn_id n # updated, rows'))))"

definition restore :: "resume_env \<Rightarrow> checkpoint \<Rightarrow> string \<Rightarrow> string \<Rightarrow> rat \<Rightarrow> resume_db
    \<Rightarrow> resume_error + (resume_outcome \<times> resume_db)" where
  "restore R cp prompt user budget db =
     bindE (mapErr ResumeCheckpoint (restore_dag cp)) (\<lambda>d.
       let (f, created_workflow, flows) = restore_flow R cp prompt user budget (rd_flows db) in
       bindE (reconcile R (cp_workflow cp) cp (first_row (cp_workflow cp) (rd_tasks db)) (dag_nodes d) (rd_tasks db))
         (\<lambda>(created, updated, rows).
            Inr (\<lparr>ro_workflow = f, ro_checkpoint = cp, ro_dag = d, ro_created_workflow = created_workflow,
                  ro_created = created, ro_updated = updated\<rparr>,
                 \<lparr>rd_flows = flows, rd_tasks = rows\<rparr>)))"

section \<open>The endpoint\<close>

text \<open>The status and hash checks on an approval; the answer is the HTTP status of a refusal.\<close>

definition check_approval :: "api_env \<Rightarrow> int \<Rightarrow> string option \<Rightarrow> string \<Rightarrow> approval_world \<Rightarrow> db_session \<Rightarrow> int + unit" where
  "check_approval A now approval_id h world s =
     (case approval_id of
        None \<Rightarrow> Inr ()
      | Some a \<Rightarrow>
          if a = [] then Inr ()
          else (case merged_approval_status A now a world s of
                  None \<Rightarrow> Inl 404
                | Some t \<Rightarrow>
                    if tw_status t \<noteq> ''approved'' then Inl 409
                    else if (case tw_checkpoint_hash t of None \<Rightarrow> False | Some g \<Rightarrow> g \<noteq> [] \<and> g \<noteq> h) then Inl 409
                    else Inr ()))"

definition resume_workflow :: "api_env \<Rightarrow> resume_env \<Rightarrow> clock \<Rightarrow> int \<Rightarrow> uuid \<Rightarrow> string \<Rightarrow> string option
    \<Rightarrow> approval_world \<Rightarrow> db_session \<Rightarrow> resume_db \<Rightarrow> int + (resume_outcome \<times> resume_db)" where
  "resume_workflow A R C now w h approval_id world s db =
     (if h = [] \<or> 200 < py_len h \<or> (case approval_id of None \<Rightarrow> False | Some a \<Rightarrow> 100 < py_len a) then Inl 422
      else bindE (check_approval A now approval_id h world s) (\<lambda>_.
        case load_checkpoint C h s of
          Inl ResumeUnknown \<Rightarrow> Inl 404
        | Inl _ \<Rightarrow> Inl 500
        | Inr cp \<Rightarrow>
            if cp_workflow cp \<noteq> w then Inl 409
            else mapErr (\<lambda>_. 500) (restore R cp [] ''federation'' 100 db)))"

text \<open>The background task: what the run it starts does, or why it starts none.\<close>

datatype background = BgMissing | BgCorrupt | BgNoAgents selector_error | BgRun "sched_error + run_end"

definition resume_run :: "sched_env \<Rightarrow> agent_row list \<Rightarrow> wallet_state \<Rightarrow> zstore \<Rightarrow> uuid \<Rightarrow> resume_db \<Rightarrow> background" where
  "resume_run E agents wallet zsets w db =
     (case lookup_by wf_id w (rd_flows db) of
        None \<Rightarrow> BgMissing
      | Some f \<Rightarrow>
          (case wf_snapshot f of
             None \<Rightarrow> BgMissing
           | Some snapshot \<Rightarrow>
               if snapshot = [] then BgMissing
               else case dag_from_dict snapshot of
                 None \<Rightarrow> BgCorrupt
               | Some d \<Rightarrow>
                   (case select_agents_for_dag agents d
                           (max (py_double (py_double (wf_limit f) - py_double (wf_used f))) 0) of
                      Inl e \<Rightarrow> BgNoAgents e
                    | Inr (assigned, d') \<Rightarrow>
                        BgRun (execute_workflow E w assigned
                          \<lparr>ss_dag = d', ss_tasks = rd_tasks db, ss_wallet = wallet, ss_zsets = zsets,
                           ss_status = WfRunning, ss_result = None, ss_snapshot = snapshot, ss_replans = 0,
                           ss_memory = [], ss_checkpoints = [], ss_cache = []\<rparr>))))"

section \<open>Buckets\<close>

lemma fold_upd: "fold (\<lambda>i m. m(i \<mapsto> v)) xs m i = (if i \<in> set xs then Some v else m i)"
  by (induction xs arbitrary: m) auto

lemma target_status_iff:
  "target_status cp i = (if i \<in> set (cp_pending cp) then TsPending else if i \<in> set (cp_failed cp) then TsFailed
     else if i \<in> set (cp_completed cp) then TsCompleted else TsPending)"
  by (simp add: target_status_def bucket_statuses_def fold_upd)

text \<open>What the row of a node becomes: completed and failed nodes keep their status, every other node is
  pending again.\<close>

lemma target_of_checkpoint:
  assumes "dag_ok d" and "n \<in> set (dag_nodes d)"
  shows "target_status (from_dag C w d reason current variables reflection) (dn_id n)
    = (if dn_id n \<noteq> [] \<and> dn_status n \<in> {TsCompleted, TsFailed} then dn_status n else TsPending)"
proof -
  have same: "m = n" if "m \<in> set (dag_nodes d)" "dn_id m = dn_id n" for m
    using that assms by (auto simp: dag_ok_def distinct_map inj_on_def)
  have "dn_id n \<in> set (bucket q d) \<longleftrightarrow> dn_id n \<noteq> [] \<and> q (dn_status n)" for q
    using same assms(2) by (auto simp: bucket_def image_iff)
  then show ?thesis by (auto simp: target_status_iff from_dag_def)
qed

section \<open>Reconciling rows\<close>

lemma first_row_Some: "first_row w rows k = Some r \<Longrightarrow> r \<in> set rows \<and> tk_workflow r = w \<and> tk_step r = k"
  by (auto simp: first_row_def find_Some_iff)

lemma first_row_append: "first_row w (rows @ [r]) k = (case first_row w rows k of Some q \<Rightarrow> Some q
    | None \<Rightarrow> if tk_workflow r = w \<and> tk_step r = k then Some r else None)"
  by (induction rows) (auto simp: first_row_def)

lemma first_row_set_status:
  "first_row w (set_status t s rows) k = map_option (\<lambda>r. if tk_id r = t then r\<lparr>tk_status := s\<rparr> else r) (first_row w rows k)"
  by (induction rows) (auto simp: first_row_def set_status_def)

lemma ids_set_status [simp]: "map tk_id (set_status t s rows) = map tk_id rows"
  by (simp add: set_status_def)

lemma lookup_in_rows: "distinct (map tk_id rows) \<Longrightarrow> r \<in> set rows \<Longrightarrow> lookup_by tk_id (tk_id r) rows = Some r"
  by (rule lookup_by_distinct)

lemma reconcile_spec:
  assumes "reconcile R w cp by_step ns rows = Inr (created, updated, rows')" and "distinct (map tk_id rows)"
    and "\<forall>n \<in> set ns. map_option tk_id (by_step (resume_step R (dn_id n))) = map_option tk_id (first_row w rows (resume_step R (dn_id n)))"
    and "distinct (map (\<lambda>n. resume_step R (dn_id n)) ns)"
  shows "distinct (map tk_id rows')
    \<and> (\<forall>n \<in> set ns. \<exists>r. first_row w rows' (resume_step R (dn_id n)) = Some r \<and> tk_status r = target_status cp (dn_id n))
    \<and> (\<forall>k. k \<notin> (\<lambda>n. resume_step R (dn_id n)) ` set ns \<longrightarrow> first_row w rows' k = first_row w rows k)"
  using assms
proof (induction ns arbitrary: rows created updated)
  case (Cons n ns)
  let ?k = "resume_step R (dn_id n)" and ?s = "target_status cp (dn_id n)"
  have others: "resume_step R (dn_id m) \<noteq> ?k" if "m \<in> set ns" for m
    using Cons.prems(4) that by (auto simp: image_iff)
  have "\<exists>rows1 c u. reconcile R w cp by_step ns rows1 = Inr (c, u, rows') \<and> distinct (map tk_id rows1)
      \<and> (\<exists>r. first_row w rows1 ?k = Some r \<and> tk_status r = ?s) \<and> (\<forall>k. k \<noteq> ?k \<longrightarrow> map_option tk_id (first_row w rows1 k)
            = map_option tk_id (first_row w rows k) \<and> first_row w rows1 k = first_row w rows k)"
  proof (cases "by_step ?k")
    case None
    then have "first_row w rows ?k = None" using Cons.prems(3) by simp
    moreover define t where "t = rs_new_task R rows"
    ultimately show ?thesis using Cons.prems(1,2) None
      by (auto simp: Let_def bindE_Inr_conv first_row_append new_row_def split: if_splits option.splits
          intro!: exI[of _ "rows @ [new_row R w t n ?s]"])
  next
    case (Some first)
    then obtain r where r: "first_row w rows ?k = Some r" "tk_id r = tk_id first"
      using Cons.prems(3) by (cases "first_row w rows ?k") auto
    have look: "lookup_by tk_id (tk_id first) rows = Some r"
      using lookup_in_rows[OF Cons.prems(2), of r] first_row_Some[OF r(1)] r(2) by simp
    have other: "tk_id q \<noteq> tk_id r" if "first_row w rows k = Some q" "k \<noteq> ?k" for k q
      using that r(1) Cons.prems(2) first_row_Some[OF that(1)] first_row_Some[OF r(1)]
      by (metis distinct_map inj_onD)
    show ?thesis
    proof (cases "tk_status r = ?s")
      case True
      with Some look r Cons.prems(1,2) show ?thesis by auto
    next
      case False
      have "first_row w (set_status (tk_id r) ?s rows) k = first_row w rows k" if "k \<noteq> ?k" for k
        using other that by (cases "first_row w rows k") (auto simp: first_row_set_status)
      with False Some look r Cons.prems(1,2) show ?thesis
        by (auto simp: bindE_Inr_conv first_row_set_status intro!: exI[of _ "set_status (tk_id first) ?s rows"])
    qed
  qed
  then obtain rows1 c u where one: "reconcile R w cp by_step ns rows1 = Inr (c, u, rows')" "distinct (map tk_id rows1)"
      "\<exists>r. first_row w rows1 ?k = Some r \<and> tk_status r = ?s" "\<forall>k. k \<noteq> ?k \<longrightarrow> first_row w rows1 k = first_row w rows k" by blast
  have "\<forall>m \<in> set ns. map_option tk_id (by_step (resume_step R (dn_id m))) = map_option tk_id (first_row w rows1 (resume_step R (dn_id m)))"
    using Cons.prems(3) one(4) others by simp
  from Cons.IH[OF one(1,2) this] Cons.prems(4) one(3,4) others show ?case by force
qed simp

lemma reconcile_settled:
  assumes "\<forall>n \<in> set ns. \<exists>r q. by_step (resume_step R (dn_id n)) = Some q \<and> lookup_by tk_id (tk_id q) rows = Some r
      \<and> tk_status r = target_status cp (dn_id n)"
  shows "reconcile R w cp by_step ns rows = Inr ([], [], rows)"
  using assms by (induction ns) auto

lemma ids_reconcile:
  "reconcile R w cp by_step ns rows = Inr (created, updated, rows') \<Longrightarrow> distinct (map tk_id rows)
     \<Longrightarrow> distinct (map tk_id rows') \<and> (\<exists>more. map (\<lambda>r. (tk_id r, tk_workflow r, tk_step r)) rows'
           = map (\<lambda>r. (tk_id r, tk_workflow r, tk_step r)) rows @ more)
         \<and> (\<forall>n \<in> set ns. by_step (resume_step R (dn_id n)) = None \<longrightarrow>
              (\<exists>r \<in> set rows'. tk_workflow r = w \<and> tk_step r = resume_step R (dn_id n)))"
proof (induction ns arbitrary: rows created updated)
  case (Cons n ns)
  let ?k = "resume_step R (dn_id n)" and ?s = "target_status cp (dn_id n)"
  let ?f = "\<lambda>r. (tk_id r, tk_workflow r, tk_step r)"
  obtain rows1 c u more where one: "reconcile R w cp by_step ns rows1 = Inr (c, u, rows')" "distinct (map tk_id rows1)"
      "map ?f rows1 = map ?f rows @ more" "by_step ?k = None \<longrightarrow> (w, ?k) \<in> snd ` set (map ?f rows1)"
  proof (cases "by_step ?k")
    case None
    then show thesis using Cons.prems that[of "rows @ [new_row R w (rs_new_task R rows) n ?s]"]
      by (auto simp: Let_def bindE_Inr_conv new_row_def split: if_splits)
  next
    case (Some first)
    have "map ?f (set_status t s rows) = map ?f rows" for t s by (simp add: set_status_def)
    then show thesis using Cons.prems Some that[of rows] that[of "set_status t ?s rows" for t]
      by (auto simp: Let_def bindE_Inr_conv split: option.splits if_splits)
  qed
  from Cons.IH[OF one(1,2)] obtain more' where rest: "distinct (map tk_id rows')" "map ?f rows' = map ?f rows1 @ more'"
      "\<forall>m \<in> set ns. by_step (resume_step R (dn_id m)) = None \<longrightarrow> (\<exists>r \<in> set rows'. tk_workflow r = w \<and> tk_step r = resume_step R (dn_id m))"
    by blast
  have "(w, ?k) \<in> snd ` set (map ?f rows')" if "by_step ?k = None" using one(4) that unfolding rest(2) by auto
  then have "\<exists>r \<in> set rows'. tk_workflow r = w \<and> tk_step r = ?k" if "by_step ?k = None" using that by auto
  with rest one(3) show ?case by auto
qed auto

text \<open>Every node has a row of its step after a restore, so later restores create none.\<close>

lemma restore_parts:
  assumes "restore R cp prompt user budget db = Inr (r, db')"
  obtains d rows where "restore_dag cp = Inr d" "ro_dag r = d" "rd_tasks db' = rows"
    "reconcile R (cp_workflow cp) cp (first_row (cp_workflow cp) (rd_tasks db)) (dag_nodes d) (rd_tasks db)
       = Inr (ro_created r, ro_updated r, rows)"
    "rd_flows db' = snd (snd (restore_flow R cp prompt user budget (rd_flows db)))"
    "ro_workflow r = fst (restore_flow R cp prompt user budget (rd_flows db))"
    "ro_created_workflow r = fst (snd (restore_flow R cp prompt user budget (rd_flows db)))"
proof -
  obtain f c fl where "restore_flow R cp prompt user budget (rd_flows db) = (f, c, fl)" by (metis prod_cases3)
  with assms that show thesis by (auto simp: restore_def bindE_Inr_conv mapErr_Inr_conv Let_def)
qed

lemma restore_leaves_rows:
  assumes "restore R cp prompt user budget db = Inr (r, db')" and "distinct (map tk_id (rd_tasks db))" and "n \<in> set (dag_nodes (ro_dag r))"
  shows "distinct (map tk_id (rd_tasks db')) \<and> first_row (cp_workflow cp) (rd_tasks db') (resume_step R (dn_id n)) \<noteq> None"
  using assms(1)
proof (rule restore_parts)
  fix d rows
  assume d: "ro_dag r = d" "rd_tasks db' = rows"
    and rec: "reconcile R (cp_workflow cp) cp (first_row (cp_workflow cp) (rd_tasks db)) (dag_nodes d) (rd_tasks db)
       = Inr (ro_created r, ro_updated r, rows)"
  let ?k = "resume_step R (dn_id n)" and ?f = "\<lambda>r. (tk_id r, tk_workflow r, tk_step r)"
  obtain more where ids: "distinct (map tk_id rows)" "map ?f rows = map ?f (rd_tasks db) @ more"
    "first_row (cp_workflow cp) (rd_tasks db) ?k = None \<longrightarrow> (\<exists>r \<in> set rows. tk_workflow r = cp_workflow cp \<and> tk_step r = ?k)"
    using ids_reconcile[OF rec assms(2)] assms(3) d by blast
  have "\<exists>r \<in> set rows. tk_workflow r = cp_workflow cp \<and> tk_step r = ?k"
  proof (cases "first_row (cp_workflow cp) (rd_tasks db) ?k")
    case (Some q)
    then have "?f q \<in> set (map ?f rows)" using first_row_Some[OF Some] unfolding ids(2) by auto
    with first_row_Some[OF Some] show ?thesis by auto
  qed (use ids(3) in blast)
  with ids(1) show ?thesis by (auto simp: d first_row_def find_None_iff)
qed

section \<open>Restoring is repeatable, and when it is not\<close>

lemma restore_flow_known:
  "lookup_by wf_id (cp_workflow cp) (snd (snd (restore_flow R cp prompt user budget flows))) \<noteq> None"
proof (cases "lookup_by wf_id (cp_workflow cp) flows")
  case (Some f)
  have "map wf_id (map (\<lambda>g. if wf_id g = wf_id f then patch_flow R cp f else g) flows) = map wf_id flows"
    by (simp add: patch_flow_def)
  then have "wf_id ` set (map (\<lambda>g. if wf_id g = wf_id f then patch_flow R cp f else g) flows) = wf_id ` set flows"
    by (simp only: list.set_map [symmetric])
  moreover have "cp_workflow cp \<in> wf_id ` set flows" using lookup_by_Some[OF Some] by force
  ultimately have "cp_workflow cp \<in> wf_id ` set (map (\<lambda>g. if wf_id g = wf_id f then patch_flow R cp f else g) flows)" by simp
  with Some show ?thesis unfolding restore_flow_def lookup_by_None by simp
qed (simp add: restore_flow_def Let_def lookup_by_append shadow_flow_def)


lemma reconcile_no_update:
  "reconcile R w cp by_step ns rows = Inr (created, [], rows') \<Longrightarrow> n \<in> set ns \<Longrightarrow> by_step (resume_step R (dn_id n)) = Some q
     \<Longrightarrow> lookup_by tk_id (tk_id q) rows = Some row \<Longrightarrow> tk_status row = target_status cp (dn_id n)"
proof (induction ns arbitrary: rows created)
  case (Cons m ns)
  show ?case
  proof (cases "by_step (resume_step R (dn_id m))")
    case None
    then show ?thesis using Cons by (auto simp: Let_def bindE_Inr_conv lookup_by_append split: if_splits)
  next
    case (Some f)
    then show ?thesis using Cons by (auto simp: Let_def bindE_Inr_conv split: option.splits if_splits)
  qed
qed simp

text \<open>Two nodes with the same digits in their ids share one task row: when their target statuses
  differ, as for a task and the alternative a re-plan adds for it, every restore after the first one
  changes that row again, so repeated restores never come to rest.\<close>

theorem shared_step_never_settles:
  assumes "restore R cp prompt user budget db = Inr (r, db')" and "distinct (map tk_id (rd_tasks db))"
    and "m \<in> set (dag_nodes (ro_dag r))" and "n \<in> set (dag_nodes (ro_dag r))" and "resume_step R (dn_id m) = resume_step R (dn_id n)"
    and "target_status cp (dn_id m) \<noteq> target_status cp (dn_id n)" and "restore R cp prompt' user' budget' db' = Inr (r', db'')"
  shows "ro_updated r' \<noteq> []"
proof
  assume none: "ro_updated r' = []"
  from restore_parts[OF assms(1)] obtain d where d: "restore_dag cp = Inr d" "ro_dag r = d" by metis
  from restore_parts[OF assms(7)] d(1) have rec: "reconcile R (cp_workflow cp) cp (first_row (cp_workflow cp) (rd_tasks db')) (dag_nodes d) (rd_tasks db')
       = Inr (ro_created r', [], rd_tasks db'')" by (metis none Inr_inject)
  from restore_leaves_rows[OF assms(1,2,4)] obtain q where q: "distinct (map tk_id (rd_tasks db'))"
    "first_row (cp_workflow cp) (rd_tasks db') (resume_step R (dn_id n)) = Some q" by auto
  have "lookup_by tk_id (tk_id q) (rd_tasks db') = Some q"
    using lookup_in_rows[OF q(1)] first_row_Some[OF q(2)] by simp
  from reconcile_no_update[OF rec _ _ this] q(2) assms(3-6) d(2) show False by metis
qed

text \<open>On a node that did not run the workflow, the resumed scheduler does not find the rows the restore
  made: it looks a task row up by the id stored in the graph, so the first time it prepares a node it
  writes a second row for the same step, and the restored one is never updated again.\<close>

theorem restored_row_not_found:
  assumes "restore R cp prompt user budget db = Inr (r, db')" and "distinct (map tk_id (rd_tasks db))"
    and "n \<in> set (dag_nodes (ro_dag r))" and "filter is_digit (dn_id n) \<noteq> []" and "get_node (ro_dag r) (dn_id n) = Inr n"
    and "\<forall>t. dn_task n = Some t \<longrightarrow> t \<notin> tk_id ` set (rd_tasks db')"
    and "ss_dag st = ro_dag r" and "ss_tasks st = rd_tasks db'"
    and "upsert_task_row E (cp_workflow cp) (dn_id n) agent status message st = Inr (t, st')"
  shows "2 \<le> length (filter (\<lambda>row. tk_workflow row = cp_workflow cp \<and> tk_step row = step_number (dn_id n)) (ss_tasks st'))"
proof -
  have step: "resume_step R (dn_id n) = step_number (dn_id n)" using assms(4) by (simp add: resume_step_def)
  from restore_leaves_rows[OF assms(1-3)] step obtain q where
    "first_row (cp_workflow cp) (rd_tasks db') (step_number (dn_id n)) = Some q" by auto
  from first_row_Some[OF this]
  have "1 \<le> length (filter (\<lambda>row. tk_workflow row = cp_workflow cp \<and> tk_step row = step_number (dn_id n)) (rd_tasks db'))"
    by (metis (mono_tags, lifting) One_nat_def Suc_leI filter_set length_pos_if_in_set mem_Collect_eq set_filter)
  moreover have "Option.bind (dn_task n) (\<lambda>t. lookup_by tk_id t (rd_tasks db')) = None"
    using assms(6) by (cases "dn_task n") (auto simp: lookup_by_None)
  ultimately show ?thesis using assms(5,7-9) by (auto simp: upsert_task_row_def Let_def split: if_splits)
qed

text \<open>C15. A resume that names an approval goes ahead only with it: the merged status of the approval is
  approved, its checkpoint hash, if it has one, is the hash that was asked for, that record is a
  checkpoint of the workflow in the path, and the answer carries the graph of that checkpoint. So once
  any node has recorded another decision and its record has arrived, the resume is refused, unless this
  node's own Redis says approved.\<close>

theorem resume_needs_approval:
  assumes "resume_workflow A R C now w h (Some a) world s db = Inr (r, db')" and "a \<noteq> []"
  shows "\<exists>t cp. merged_approval_status A now a world s = Some t \<and> tw_status t = ''approved''
      \<and> (\<forall>g. tw_checkpoint_hash t = Some g \<and> g \<noteq> [] \<longrightarrow> g = h)
      \<and> load_by_hash C h s = Inr (Some cp) \<and> cp_workflow cp = w \<and> restore_dag cp = Inr (ro_dag r)
      \<and> ((\<forall>u \<in> set (twins (ap_twins A) s). tw_request_id u = a \<longrightarrow> tw_status u \<noteq> ''approved'') \<and> sess_active s
           \<longrightarrow> (\<exists>u. redis_state A now a world = Some u \<and> tw_status u = ''approved''))"
proof -
  from assms obtain cp where c: "check_approval A now (Some a) h world s = Inr ()" "load_checkpoint C h s = Inr cp" "cp_workflow cp = w"
      "restore R cp [] ''federation'' 100 db = Inr (r, db')"
    by (auto simp: resume_workflow_def bindE_Inr_conv mapErr_Inr_conv split: if_splits sum.splits resume_error.splits)
  from c(1) assms(2) obtain t where t: "merged_approval_status A now a world s = Some t" "tw_status t = ''approved''"
      "\<forall>g. tw_checkpoint_hash t = Some g \<and> g \<noteq> [] \<longrightarrow> g = h"
    by (auto simp: check_approval_def split: option.splits if_splits)
  have load: "load_by_hash C h s = Inr (Some cp)"
    using c(2) by (auto simp: load_checkpoint_def bindE_Inr_conv mapErr_Inr_conv split: if_splits option.splits)
  from restore_parts[OF c(4)] have dag: "restore_dag cp = Inr (ro_dag r)" by metis
  have "\<exists>u. redis_state A now a world = Some u \<and> tw_status u = ''approved''"
    if none: "\<forall>u \<in> set (twins (ap_twins A) s). tw_request_id u = a \<longrightarrow> tw_status u \<noteq> ''approved''" and act: "sess_active s"
  proof -
    have "hydrate_from_crdt (ap_twins A) a s \<noteq> Some t"
    proof
      assume "hydrate_from_crdt (ap_twins A) a s = Some t"
      then have "t \<in> set (twins (ap_twins A) s) \<and> tw_request_id t = a"
        by (auto simp: hydrate_spec[OF act] find_Some_iff split: option.splits)
      with none t(2) show False by blast
    qed
    with t(1,2) show ?thesis by (auto simp: merged_approval_status_def split: option.splits if_splits)
  qed
  with t load c(3) dag show ?thesis by blast
qed

end
