(* ===== verification/Scheduler_Graph.thy ===== *)
theory Scheduler_Graph
  imports Scheduler Policy_Guards
begin

text \<open>
  What every step of a run keeps of the task graph itself, whatever its statuses: no node disappears
  and no new capability appears, because the re-planner copies the capability of the node it
  replaces. On top of it, the capabilities that the policy rules never deny.
\<close>

definition node_ids :: "dag \<Rightarrow> string set" where
  "node_ids d = dn_id ` set (dag_nodes d)"

definition node_caps :: "dag \<Rightarrow> string set" where
  "node_caps d = dn_capability ` set (dag_nodes d)"

definition evolves :: "dag \<Rightarrow> dag \<Rightarrow> bool" where
  "evolves d d' \<longleftrightarrow> node_ids d \<subseteq> node_ids d' \<and> node_caps d' \<subseteq> node_caps d"

lemma evolves_refl [simp]: "evolves d d"
  by (simp add: evolves_def)

lemma evolves_trans: "evolves a b \<Longrightarrow> evolves b c \<Longrightarrow> evolves a c"
  by (auto simp: evolves_def)

lemma evolves_ids: "evolves d d' \<Longrightarrow> i \<in> node_ids d \<Longrightarrow> i \<in> node_ids d'"
  by (auto simp: evolves_def)

section \<open>The operations of the graph\<close>

lemma get_node_member: "get_node d i = Inr n \<Longrightarrow> n \<in> set (dag_nodes d) \<and> dn_id n = i"
  using lookup_by_Some[of dn_id i "dag_nodes d" n] by (auto simp: get_node_def split: option.splits)

lemma get_node_cap: "get_node d i = Inr n \<Longrightarrow> dn_id n = i \<and> dn_capability n \<in> node_caps d \<and> i \<in> node_ids d"
  by (drule get_node_member) (auto simp: node_ids_def node_caps_def)

lemma lookup_cap: "lookup_by dn_id i (dag_nodes d) = Some n \<Longrightarrow> dn_capability n \<in> node_caps d"
  using lookup_by_Some[of dn_id i "dag_nodes d" n] by (simp add: node_caps_def)

lemma evolves_set_node:
  assumes "dn_capability n \<in> node_caps d"
  shows "evolves d (set_node n d)"
proof -
  have "map dn_id (dag_nodes (set_node n d)) = map dn_id (dag_nodes d)" by (simp add: set_node_def)
  then have "node_ids (set_node n d) = node_ids d" by (metis node_ids_def set_map)
  with assms show ?thesis by (auto simp: evolves_def node_caps_def set_node_def)
qed

lemma evolves_mark:
  "mark_running d i = Inr d' \<Longrightarrow> evolves d d' \<and> i \<in> node_ids d"
  "mark_pending d i = Inr d' \<Longrightarrow> evolves d d' \<and> i \<in> node_ids d"
  by (auto simp: mark_running_def mark_pending_def bindE_Inr_conv dest!: get_node_cap intro!: evolves_set_node)

lemma evolves_mark_completed: "mark_completed d i out = Inr (d', ready) \<Longrightarrow> evolves d d' \<and> i \<in> node_ids d"
  by (auto simp: mark_completed_def Let_def bindE_Inr_conv dest!: get_node_cap intro!: evolves_set_node)

lemma evolves_skip_loop: "skip_loop f d queue seen skipped = Inr (d', sk) \<Longrightarrow> evolves d d'"
proof (induction f d queue seen skipped rule: skip_loop.induct)
  case (2 f d c queue seen skipped)
  show ?case
  proof (cases "c \<in> seen")
    case True
    with 2 show ?thesis by simp
  next
    case False
    with 2(4) obtain n where n: "lookup_by dn_id c (dag_nodes d) = Some n" by (auto split: option.splits)
    show ?thesis
    proof (cases "skippable (dn_status n)")
      case True
      have "evolves d (skip_node f n d)"
        using lookup_cap[OF n] by (auto simp: skip_node_def intro!: evolves_set_node)
      moreover have "evolves (skip_node f n d) d'" using 2 False n True by simp
      ultimately show ?thesis by (rule evolves_trans)
    qed (use 2 False n in simp)
  qed
qed simp

lemma evolves_mark_failed: "mark_failed d i e = Inr (d', sk) \<Longrightarrow> evolves d d' \<and> i \<in> node_ids d"
proof -
  assume "mark_failed d i e = Inr (d', sk)"
  then obtain n where n: "get_node d i = Inr n"
    and s: "skip_loop i (set_node (n\<lparr>dn_status := TsFailed, dn_error := e\<rparr>) d)
      (dag_adj (set_node (n\<lparr>dn_status := TsFailed, dn_error := e\<rparr>) d) i) {} [] = Inr (d', sk)"
    by (auto simp: mark_failed_def Let_def bindE_Inr_conv)
  have "evolves d (set_node (n\<lparr>dn_status := TsFailed, dn_error := e\<rparr>) d)"
    using get_node_cap[OF n] by (auto intro!: evolves_set_node)
  from evolves_trans[OF this evolves_skip_loop[OF s]] get_node_cap[OF n] show ?thesis by simp
qed

lemma evolves_add_node: "add_node d n = Inr d' \<Longrightarrow> dn_capability n \<in> node_caps d \<Longrightarrow> evolves d d'"
  by (auto simp: add_node_def evolves_def node_ids_def node_caps_def link_node_fields split: if_splits)

lemma evolves_replan:
  assumes "replan d i act ctx = Inr (d', added)"
  shows "evolves d d'"
proof (cases "act = ''re_plan''")
  case True
  with assms obtain n where n: "get_node d i = Inr n" by (cases "get_node d i") (simp_all add: replan_def)
  have "\<exists>alt. dn_capability alt = dn_capability n
      \<and> (case add_node d alt of Inl _ \<Rightarrow> Inr (d, None) | Inr d2 \<Rightarrow> Inr (d2, Some (dn_id alt))) = (Inr (d', added) :: dag_error + _)"
    using assms True
    by (simp only: replan_def Let_def n bindE_simps simp_thms if_False) (rule exI, rule conjI[rotated], assumption, simp)
  then obtain alt where alt: "dn_capability alt = dn_capability n"
    "(case add_node d alt of Inl _ \<Rightarrow> Inr (d, None) | Inr d2 \<Rightarrow> Inr (d2, Some (dn_id alt))) = (Inr (d', added) :: dag_error + _)" by blast
  have "dn_capability alt \<in> node_caps d" using get_node_cap[OF n] alt(1) by simp
  with alt(2) show ?thesis by (cases "add_node d alt") (auto dest: evolves_add_node)
qed (use assms in \<open>simp add: replan_def\<close>)

section \<open>The steps of the scheduler\<close>

abbreviation moves :: "sched_state \<Rightarrow> sched_state \<Rightarrow> bool" where
  "moves st st' \<equiv> evolves (ss_dag st) (ss_dag st')"

lemma dag_update [simp]: "ss_dag (update_task t f st) = ss_dag st"
  by (simp add: update_task_def)

lemma moves_fail: "fail_node i m st = Inr st' \<Longrightarrow> moves st st' \<and> i \<in> node_ids (ss_dag st)"
  by (auto simp: fail_node_def bindE_Inr_conv mapErr_Inr_conv dest: evolves_mark_failed)

lemma moves_upsert: "upsert_task_row E w i a s m st = Inr (t, st') \<Longrightarrow> moves st st'"
  by (auto simp: upsert_task_row_def Let_def bindE_Inr_conv mapErr_Inr_conv split: option.splits if_splits
      dest!: get_node_cap intro!: evolves_set_node)

lemma dag_save: "save_pause E cp st = (h, st') \<Longrightarrow> ss_dag st' = ss_dag st"
  by (auto simp: save_pause_def split: option.splits)

lemma moves_prepare:
  assumes "prepare_node E w agents k node st = Inr (q, st')"
  shows "moves st st' \<and> (\<forall>p. q = Some p \<longrightarrow> pn_node p = node) \<and> dn_id node \<in> node_ids (ss_dag st)"
proof (cases "map_of agents (dn_id node)")
  case None
  then show ?thesis using assms by (auto simp: prepare_node_def Let_def bindE_Inr_conv dest!: moves_fail)
next
  case (Some agent)
  let ?r = "reserve_budget (se_wallet E) w (ag_id agent) (estimate_node_cost (se_max_iterations E) node agent)
      (''Task '' @ dn_id node @ '': '' @ dn_capability node) (Some (reserve_key w (dn_id node))) (ss_wallet st)"
  show ?thesis
  proof (cases ?r)
    case (Inl e)
    have e: "e = BudgetExhausted" using assms Some Inl by (cases e) (simp_all add: prepare_node_def Let_def)
    obtain m m' st1 t where "fail_node (dn_id node) m st = Inr st1" "upsert_task_row E w (dn_id node) (ag_id agent) TsFailed m' st1 = Inr (t, st')"
        "q = None"
      using assms Some Inl e by (auto simp: prepare_node_def Let_def bindE_Inr_conv)
    then show ?thesis by (auto dest!: moves_fail moves_upsert intro: evolves_trans)
  next
    case (Inr ew)
    obtain ev wal where ew: "ew = (ev, wal)" by (cases ew)
    obtain d t st1 where s: "mark_running (ss_dag st) (dn_id node) = Inr d"
        "upsert_task_row E w (dn_id node) (ag_id agent) TsRunning None (st\<lparr>ss_wallet := wal, ss_dag := d\<rparr>) = Inr (t, st1)"
        "st' = st1" "\<forall>p. q = Some p \<longrightarrow> pn_node p = node"
      using assms Some Inr ew by (auto simp: prepare_node_def Let_def bindE_Inr_conv mapErr_Inr_conv)
    from evolves_mark(1)[OF s(1)] moves_upsert[OF s(2)] s(3,4) show ?thesis by (auto intro: evolves_trans)
  qed
qed

lemma moves_prepare_nodes:
  "prepare_nodes E w agents k nodes st = Inr (ps, st') \<Longrightarrow> moves st st' \<and> pn_node ` set ps \<subseteq> set nodes"
proof (induction nodes arbitrary: st ps)
  case (Cons node nodes)
  obtain q st1 ps1 where s: "prepare_node E w agents k node st = Inr (q, st1)" "prepare_nodes E w agents k nodes st1 = Inr (ps1, st')"
      "ps = (case q of None \<Rightarrow> ps1 | Some p \<Rightarrow> p # ps1)"
    using Cons.prems by (auto simp: bindE_Inr_conv)
  note first = moves_prepare[OF s(1)] and rest = Cons.IH[OF s(2)]
  have "pn_node ` set ps \<subseteq> set (node # nodes)" using first rest s(3) by (cases q) auto
  moreover have "moves st st'" using evolves_trans[OF conjunct1[OF first] conjunct1[OF rest]] .
  ultimately show ?case by simp
qed simp

lemma dag_policy: "policy_evaluate_nodes E w k ps st = (kept, escalated, st') \<Longrightarrow> ss_dag st' = ss_dag st"
proof -
  have "policy_nodes E w k ps st = (kept, escalated, st') \<Longrightarrow> ss_dag st' = ss_dag st" for st kept escalated
  proof (induction ps arbitrary: st kept escalated)
    case (Cons p ps)
    obtain d zs where "node_decision E w k p (ss_zsets st) = (d, zs)" by (cases "node_decision E w k p (ss_zsets st)")
    with Cons show ?case by (fastforce simp: Let_def split: if_splits prod.splits)
  qed simp
  then show "policy_evaluate_nodes E w k ps st = (kept, escalated, st') \<Longrightarrow> ss_dag st' = ss_dag st"
    by (auto simp: policy_evaluate_nodes_def split: if_splits)
qed

lemma moves_gate: "approval_gate E w k committed nodes ps st = Inr (pz, active, st') \<Longrightarrow> moves st st'"
proof (induction nodes arbitrary: ps st)
  case (Cons node nodes)
  obtain p where p: "lookup_by pn_id (dn_id node) ps = Some p" using Cons.prems by (auto simp: Let_def split: option.splits)
  show ?case
  proof (cases "se_federated E k (dn_id node)")
    case (Some fd)
    show ?thesis
    proof (cases "fd_status fd = ''denied''")
      case True
      define f where "f = (\<lambda>r::task_row. r\<lparr>tk_status := TsSkipped, tk_error := Some (''Denied: '' @ fd_reason fd)\<rparr>)"
      obtain m st1 where s: "fail_node (dn_id node) m st = Inr st1"
          "approval_gate E w k committed nodes (drop_node (dn_id node) ps) (update_task (pn_task p) f st1) = Inr (pz, active, st')"
        using Cons.prems p Some True by (auto simp: Let_def bindE_Inr_conv f_def)
      from Cons.IH[OF s(2)] moves_fail[OF s(1)] show ?thesis by (auto intro: evolves_trans)
    next
      case False
      with Cons p Some show ?thesis by (simp add: Let_def)
    qed
  next
    case None
    obtain d where d: "mark_pending (ss_dag st) (dn_id node) = Inr d"
      using Cons.prems p None by (auto simp: Let_def bindE_Inr_conv mapErr_Inr_conv)
    obtain h st1 where h: "save_pause E (pause_checkpoint E w p d) (st\<lparr>ss_dag := d\<rparr>) = (h, st1)"
      by (cases "save_pause E (pause_checkpoint E w p d) (st\<lparr>ss_dag := d\<rparr>)")
    have w1: "moves st st1" using dag_save[OF h] evolves_mark(2)[OF d] by simp
    define f where "f = (\<lambda>r::task_row. r\<lparr>tk_status := TsRunning, tk_error := None\<rparr>)"
    have "(\<exists>r. st' = pause_state E k p r committed st1)
        \<or> approval_gate E w k committed nodes ps (update_task (pn_task p) f st1) = Inr (pz, active, st')"
      using Cons.prems p None d h by (auto simp: Let_def f_def split: gate_answer.splits if_splits)
    then show ?thesis
    proof
      assume "\<exists>r. st' = pause_state E k p r committed st1"
      with w1 show ?thesis by (auto simp: pause_state_def Let_def)
    next
      assume "approval_gate E w k committed nodes ps (update_task (pn_task p) f st1) = Inr (pz, active, st')"
      from evolves_trans[OF w1] Cons.IH[OF this] show ?thesis by simp
    qed
  qed
qed simp

lemma dag_review [simp]: "ss_dag (review_gate E k p st) = ss_dag st"
  by (auto simp: review_gate_def split: option.splits)

lemma dag_consensus [simp]: "ss_dag (apply_consensus E k p st) = ss_dag st"
  by (auto simp: apply_consensus_def split: option.splits)

lemma dag_abort: "ss_dag (reflect_abort E w p rf st) = ss_dag st"
  unfolding reflect_abort_def Let_def by (auto split: prod.splits option.splits dest: dag_save)

lemma moves_replan: "reflect_replan p rf st = Inr st' \<Longrightarrow> moves st st'"
  by (auto simp: reflect_replan_def Let_def bindE_Inr_conv mapErr_Inr_conv split: if_splits option.splits
      dest!: evolves_replan)

lemma moves_retry: "reflect_retry p rf st = Inr (b, st') \<Longrightarrow> moves st st'"
  by (auto simp: reflect_retry_def bindE_Inr_conv mapErr_Inr_conv split: option.splits dest: evolves_mark)

lemma moves_reflect: "reflect_on_task E w k p st = Inr (b, st') \<Longrightarrow> moves st st'"
  by (auto simp: reflect_on_task_def Let_def bindE_Inr_conv dag_abort
      dest!: moves_retry moves_replan split: option.splits if_splits)

lemma dag_release: "try_release E w p reason st = Inr st' \<Longrightarrow> ss_dag st' = ss_dag st"
  by (auto simp: try_release_def split: sum.splits if_splits)

lemma moves_failed:
  assumes "processing_failed E w p charged m st = Inr st'"
  shows "moves st st' \<and> pn_id p \<in> node_ids (ss_dag st)"
proof -
  obtain st1 where s: "ss_dag st1 = ss_dag st" "fail_node (pn_id p) m (mark_task_failed p m st1) = Inr st'"
    using assms by (auto simp: processing_failed_def bindE_Inr_conv split: if_splits dest: dag_release)
  from moves_fail[OF s(2)] s(1) show ?thesis by (simp add: mark_task_failed_def)
qed

lemma moves_settle:
  assumes "settle_result E w k p resp credits st = Inr st'"
  shows "moves st st' \<and> pn_id p \<in> node_ids (ss_dag st)"
proof (cases "write_result E k (pn_id p) (lr_content resp)")
  case (Some m)
  with assms show ?thesis by (auto simp: settle_result_def dest: moves_failed)
next
  case None
  define st1 where "st1 = st\<lparr>ss_memory := ss_memory st @ [(pn_id p, lr_content resp)]\<rparr>"
  have d1: "ss_dag st1 = ss_dag st" by (simp add: st1_def)
  show ?thesis
  proof (cases "se_record_trust E k (pn_id p) (scores_of resp credits)")
    case (Some m)
    with assms None have "processing_failed E w p True m st1 = Inr st'" by (simp add: settle_result_def Let_def st1_def)
    from moves_failed[OF this] d1 show ?thesis by simp
  next
    case none: None
    define st2 where "st2 = update_task (pn_task p) (complete_task p resp credits) st1"
    obtain d ready b where s: "mark_completed (ss_dag st2) (pn_id p) (Some (lr_content resp)) = Inr (d, ready)"
        "reflect_on_task E w k p (review_gate E k p (apply_consensus E k p (st2\<lparr>ss_dag := d\<rparr>))) = Inr (b, st')"
      using assms None none by (auto simp: settle_result_def Let_def st1_def st2_def bindE_Inr_conv mapErr_Inr_conv)
    have d2: "ss_dag st2 = ss_dag st" by (simp add: st2_def d1)
    from evolves_mark_completed[OF s(1)] moves_reflect[OF s(2)] show ?thesis by (auto simp: d2 intro: evolves_trans)
  qed
qed

lemma moves_result:
  assumes "process_result E w k p res st = Inr st'"
  shows "moves st st' \<and> pn_id p \<in> node_ids (ss_dag st)"
proof (cases res)
  case (Inl m)
  then obtain r st1 where s: "try_release E w p r (mark_task_failed p m st) = Inr st1" "fail_node (pn_id p) m st1 = Inr st'"
    using assms by (auto simp: process_result_def bindE_Inr_conv)
  have "ss_dag st1 = ss_dag st" using dag_release[OF s(1)] by (simp add: mark_task_failed_def)
  with moves_fail[OF s(2)] show ?thesis by simp
next
  case (Inr rc)
  obtain resp cached where "rc = (resp, cached)" by (cases rc)
  with assms Inr show ?thesis
    by (auto simp: process_result_def Let_def split: sum.splits if_splits dest!: moves_failed moves_settle)
qed

lemma moves_results: "process_results E w k results st = Inr st' \<Longrightarrow> moves st st'"
  by (induction E w k results st rule: process_results.induct)
    (auto simp: bindE_Inr_conv dest!: moves_result intro: evolves_trans)

section \<open>Capabilities the policy spares\<close>

definition spares :: "sched_env \<Rightarrow> uuid \<Rightarrow> string set \<Rightarrow> bool" where
  "spares E w C \<longleftrightarrow> (\<forall>k p zs. dn_capability (pn_node p) \<in> C \<longrightarrow> de_action (fst (node_decision E w k p zs)) \<noteq> DecDeny)"

lemma spared_kept:
  assumes "spares E w C" "\<forall>p \<in> set ps. dn_capability (pn_node p) \<in> C" "policy_evaluate_nodes E w k ps st = (kept, escalated, st')"
  shows "kept = ps"
proof -
  have "policy_nodes E w k ps st = (kept, escalated, st') \<Longrightarrow> kept = ps" for st kept escalated
    using assms(2)
  proof (induction ps arbitrary: st kept escalated)
    case (Cons p ps)
    obtain d zs where d: "node_decision E w k p (ss_zsets st) = (d, zs)" by (cases "node_decision E w k p (ss_zsets st)")
    have "de_action (fst (node_decision E w k p (ss_zsets st))) \<noteq> DecDeny" using assms(1) Cons.prems(2) by (simp add: spares_def)
    with d Cons show ?case by (auto simp: Let_def split: prod.splits)
  qed simp
  with assms(3) show ?thesis by (auto simp: policy_evaluate_nodes_def split: if_splits)
qed

lemma no_rules_spare: "registry_all False (se_rules E) = [] \<Longrightarrow> spares E w C"
  by (simp add: spares_def node_decision_def evaluate_action verdict_def)

lemma verdict_not_deny: "DecDeny \<notin> set as \<Longrightarrow> verdict as \<noteq> DecDeny"
  by (simp add: verdict_def)

text \<open>With the rules the application registers at its start, the only capability that is ever denied is
  \<open>memory_write\<close>: the context of a node has no cost, no tool, no amount and no extra settings.\<close>

lemma builtin_rules_spare:
  assumes "se_rules E = builtin_rules R" "''memory_write'' \<notin> C"
  shows "spares E w C"
  unfolding spares_def
proof (intro allI impI)
  fix k and p :: prepared and zs
  assume c: "dn_capability (pn_node p) \<in> C"
  let ?ctx = "node_policy_context E w k p"
  have ctx: "pc_estimated_cost ?ctx = None" "pc_tool_name ?ctx = None" "pc_amount ?ctx = None"
    "px_require_credential (pc_extra ?ctx) = False" "\<not> is_memory_write ?ctx" "px_sensitive (pc_extra ?ctx) = Absent"
    "px_pii_tools (pc_extra ?ctx) = Absent" "px_max_depth (pc_extra ?ctx) = Absent" "px_depth (pc_extra ?ctx) = Absent"
    "px_start_hour (pc_extra ?ctx) = Absent" "px_end_hour (pc_extra ?ctx) = Absent"
    using c assms(2) by (auto simp: node_policy_context_def is_memory_write_def)
  have pure: "re_function (entry rid desc (pure_rule f) pr tags) ctx t = (f ctx, t)" for rid desc f pr tags ctx t
    by (simp add: pure_rule_def)
  have "de_action (to_decision (re_rule_id r) (fst (re_function r ?ctx t))) \<noteq> DecDeny"
    if "r \<in> set (builtin_rules R)" for r t
  proof -
    have "set (builtin_rules R) = set [entry ''cost_caps'' ''Escalate or deny tasks whose estimated cost crosses configured thresholds.''
        (pure_rule cost_caps) 30 [''cost'', ''budget''],
      entry ''credential_requires'' ''Sensitive actions require a fresh, non-expired robustness credential.''
        (pure_rule (credential_requires R)) 35 [''credential'', ''security''],
      entry ''cross_agent_delegation'' ''Escalate delegation chains that exceed the configured depth.''
        (pure_rule cross_agent_delegation) 50 [''delegation'', ''accountability''],
      entry ''default_deny_unknown_tool'' (''Deny tool calls whose tool_name isn'' @ [CHR 0x27] @ ''t on the operator-provided allowlist.'')
        (pure_rule default_deny_unknown_tool) 999 [''tool'', ''allowlist'', ''defense-in-depth''],
      entry ''memory_write_attribution'' ''Block memory writes without a valid author DID.''
        (pure_rule memory_write_attribution) 25 [''memory'', ''provenance''],
      entry ''pii_tool_guards'' ''Route every PII tool invocation through a human reviewer.''
        (pure_rule pii_tool_guards) 15 [''pii'', ''compliance''],
      entry ''rate_limit_per_tool'' ''Deny tool calls that exceed a sliding-window per-(agent, tool) rate limit.''
        (rate_limit_per_tool R) 20 [''rate_limit'', ''tool''],
      entry ''signature_requires'' ''Memory writes must carry a signature blob in the action context.''
        (pure_rule signature_requires) 26 [''memory'', ''signature'', ''provenance''],
      entry ''time_of_day_restrictions'' ''Escalate sensitive actions submitted outside business hours.''
        (pure_rule time_of_day_restrictions) 40 [''time'', ''business_hours''],
      entry ''trust_floor_for_payments'' (''Allow payments only when the agent'' @ [CHR 0x27] @ ''s trust score clears the floor.'')
        (pure_rule trust_floor_for_payments) 10 [''payment'', ''trust'']]"
      by (simp add: builtin_rules_def entry_def)
    with that show ?thesis
      by (simp only: set_simps insert_iff empty_iff)
        (elim disjE; simp add: pure_rule_def to_decision_def cost_caps_def credential_requires_def category_triggers_def
          cross_agent_delegation_def default_deny_unknown_tool_def memory_write_attribution_def pii_tool_guards_def
          rate_limit_per_tool_def signature_requires_def time_of_day_restrictions_def trust_floor_for_payments_def
          ctx get_extra_def Let_def dec_abstain_def dec_allow_def dec_escalate_def)
  qed
  then have "\<forall>d \<in> set (fst (run_rules ?ctx (registry_all False (builtin_rules R)) zs)). de_action d \<noteq> DecDeny"
    using run_rules_mem[of _ ?ctx "registry_all False (builtin_rules R)" zs] by (fastforce simp: set_registry_all)
  then have "DecDeny \<notin> set (map de_action (fst (run_rules ?ctx (registry_all False (builtin_rules R)) zs)))" by auto
  then show "de_action (fst (node_decision E w k p zs)) \<noteq> DecDeny"
    unfolding node_decision_def assms(1) evaluate_action run_rules_verdict[symmetric] by (rule verdict_not_deny)
qed

end
