(* ===== verification/Scheduler_Laws.thy ===== *)
theory Scheduler_Laws
  imports Scheduler_Inv Scheduler_Graph
begin

text \<open>
  What a run guarantees: processing the results of a batch keeps the invariant of \<open>Scheduler_Inv\<close>,
  which bounds the number of batches and says which nodes are left when the loop ends.
\<close>

section \<open>Processing the results\<close>

lemma links_quiet: "quiet a b \<Longrightarrow> \<forall>j t. linked a j t \<longrightarrow> linked b j t"
  by (simp add: quiet_def)

lemma quiet_release: "try_release E w p reason st = Inr st' \<Longrightarrow> quiet st st'"
  by (auto simp: try_release_def split: sum.splits if_splits intro: quiet_same)

lemma quiet_mark_failed: "quiet st (mark_task_failed p message st)"
  unfolding mark_task_failed_def by (rule quiet_update) simp

lemma quiet_consensus: "quiet st (apply_consensus E k p st)"
  by (auto simp: apply_consensus_def split: option.splits intro: quiet_update)

lemma quiet_review: "quiet st (review_gate E k p st)"
  by (auto simp: review_gate_def split: option.splits intro: quiet_update)

lemma fail_after:
  assumes inv: "run_inv N T R A S st" and i: "i \<in> A" and q: "quiet st st1" and f: "fail_node i m st1 = Inr st'"
  shows "run_inv N T R (A - {i}) S st' \<and> (\<forall>j t. linked st j t \<longrightarrow> linked st' j t)"
  using fail_node_inv[OF quiet_inv[OF q inv] i f] q by (auto simp: frame_def quiet_def)

lemma processing_failed_inv:
  assumes "run_inv N T R A S st" "pn_id p \<in> A" "processing_failed E w p charged m st = Inr st'"
  shows "run_inv N T R (A - {pn_id p}) S st' \<and> (\<forall>j t. linked st j t \<longrightarrow> linked st' j t)"
proof -
  obtain st1 where s: "charged \<and> st1 = st \<or> (\<exists>reason. try_release E w p reason st = Inr st1)"
      "fail_node (pn_id p) m (mark_task_failed p m st1) = Inr st'"
    using assms(3) by (cases charged) (auto simp: processing_failed_def bindE_Inr_conv)
  then have s1: "quiet st st1" using quiet_release by auto
  show ?thesis by (rule fail_after[OF assms(1,2) quiet_trans[OF s1 quiet_mark_failed] s(2)])
qed

lemma reflect_retry_inv:
  assumes inv: "run_inv N T R A S st" and i: "pn_id p \<in> A" and l: "linked st (pn_id p) (pn_task p)"
    and st: "dag_status (ss_dag st) (pn_id p) = Some TsCompleted" and r: "reflect_retry p rf st = Inr (b, st')"
  shows "run_inv N T R (A - {pn_id p}) S st' \<and> (\<forall>j t. linked st j t \<longrightarrow> linked st' j t)"
proof (cases "evaluate_retry rf (retries_of (pn_task p) st)")
  case None
  with r run_inv_leave[OF inv] st show ?thesis by (simp add: reflect_retry_def)
next
  case (Some improved)
  let ?i = "pn_id p"
  define f where "f = (\<lambda>r. drop_output ''review_requested'' (set_output ''retry_feedback'' (JStr improved)
      (r\<lparr>tk_retries := tk_retries r + 1, tk_status := TsPending\<rparr>)))"
  have f: "tk_id (f r) = tk_id r" "tk_retries (f r) = tk_retries r + 1" for r
    by (simp_all add: f_def drop_output_def set_output_def)
  have rf: "row_update f" by (simp add: row_update_def f)
  obtain d where d: "mark_pending (ss_dag st) ?i = Inr d" "st' = update_task (pn_task p) f (st\<lparr>ss_dag := d\<rparr>)"
    using r Some by (auto simp: reflect_retry_def f_def bindE_Inr_conv mapErr_Inr_conv)
  have ok: "dag_ok (ss_dag st)" and g: "graph_inv R A S (ss_dag st)" using inv by (simp_all add: run_inv_def graph_inv_def)
  note v = mark_pending_views[OF ok d(1)]
  note gs = graph_inv_set[OF g i v(3,2,4)]
  let ?m = "st\<lparr>ss_dag := d\<rparr>"
  have m: "calm A st ?m" "frame ?i st ?m" using moved_state[of ?i st ?m A, OF _ i] gs(2) by simp_all
  have q: "quiet ?m st'" unfolding d(2) by (rule quiet_update[OF rf])
  obtain row where row: "lookup_by tk_id (pn_task p) (ss_tasks st) = Some row"
    using l lookup_by_None[of tk_id "pn_task p" "ss_tasks st"] by (cases "lookup_by tk_id (pn_task p) (ss_tasks st)") (auto simp: linked_def)
  have old: "retries_of (pn_task p) st = tk_retries row" by (simp add: retries_of_def row)
  have new: "retries_of (pn_task p) st' = tk_retries row + 1"
    unfolding d(2) retries_update[where f = f, OF f(1)] by (simp add: row f(2))
  have "dag_task (ss_dag st) ?i = Some (pn_task p)" using l by (simp add: linked_def)
  moreover have "dag_task (ss_dag st') ?i = Some (pn_task p)" using q m(2) l by (simp add: quiet_def frame_def linked_def)
  moreover have "tk_retries row < max_retries_per_task" using Some old by (auto simp: evaluate_retry_def split: if_splits)
  ultimately have "attempts st' ?i < attempts st ?i" by (simp add: attempts_def old new)
  then have "funded N T (A - {?i}) st'"
    using inv funded_leave[OF _ calm_trans[OF m(1) quiet_calm[OF q]]] by (simp add: run_inv_def)
  moreover have "graph_inv R (A - {?i}) S d" using v(4) by (intro graph_inv_leave gs(1)[simplified]) simp_all
  ultimately show ?thesis using q m(2) d(2) by (simp add: run_inv_def quiet_def frame_def)
qed

lemma replan_node:
  assumes "get_node d i = Inr n"
  shows "\<exists>x. replan d i ''re_plan'' c = (case add_node d x of Inl _ \<Rightarrow> Inr (d, None) | Inr d' \<Rightarrow> Inr (d', Some (dn_id x)))
    \<and> dn_depends_on x = dn_depends_on n \<and> dn_status x = TsPending \<and> dn_task x = None \<and> dn_id x = i @ ''_alt''"
  unfolding replan_def Let_def assms bindE_simps by (simp only: if_False not_False_eq_True simp_thms) (rule exI, rule conjI, rule refl, simp)

lemma reflect_replan_inv:
  assumes inv: "run_inv N T R A S st" and i: "pn_id p \<in> A"
    and st: "dag_status (ss_dag st) (pn_id p) = Some TsCompleted" and r: "reflect_replan p rf st = Inr st'"
  shows "run_inv N T R (A - {pn_id p}) S st' \<and> (\<forall>j t. linked st j t \<longrightarrow> linked st' j t)"
proof -
  let ?i = "pn_id p"
  have leave: "run_inv N T R (A - {?i}) S st1" if "run_inv N T R A S st1" "dag_status (ss_dag st1) ?i = Some TsCompleted" for st1
    using run_inv_leave[OF that(1)] that(2) by simp
  show ?thesis
  proof (cases "max_replans \<le> ss_replans st")
    case True
    have q: "quiet st st'" using r True by (auto simp: reflect_replan_def intro: quiet_update)
    show ?thesis using leave[OF quiet_inv[OF q inv]] q st by (simp add: quiet_def)
  next
    case False
    define c where "c = join_or ''; '' (take 3 (rf_issues rf)) (rf_action rf)"
    obtain d added where d: "replan (ss_dag st) ?i ''re_plan'' c = Inr (d, added)"
      using r False by (auto simp: reflect_replan_def Let_def bindE_Inr_conv mapErr_Inr_conv c_def)
    obtain n where n: "get_node (ss_dag st) ?i = Inr n" using d by (cases "get_node (ss_dag st) ?i") (simp_all add: replan_def)
    obtain x where x: "replan (ss_dag st) ?i ''re_plan'' c
          = (case add_node (ss_dag st) x of Inl _ \<Rightarrow> Inr (ss_dag st, None) | Inr d' \<Rightarrow> Inr (d', Some (dn_id x)))"
        "dn_depends_on x = dn_depends_on n" "dn_status x = TsPending" "dn_task x = None"
      using replan_node[OF n, of c] by blast
    show ?thesis
    proof (cases "add_node (ss_dag st) x")
      case (Inl e)
      then have "added = None" "d = ss_dag st" using d x(1) by simp_all
      then have "st' = st\<lparr>ss_dag := ss_dag st\<rparr>"
        using r False d by (simp add: reflect_replan_def Let_def c_def[symmetric])
      then have "st' = st" by simp
      with leave[OF inv st] show ?thesis by simp
    next
      case (Inr d')
      define alt where "alt = dn_id x"
      have Some: "added = Some alt" and x1: "add_node (ss_dag st) x = Inr d" using d x(1) Inr by (simp_all add: alt_def)
      define m where "m = st\<lparr>ss_dag := d, ss_replans := ss_replans st + 1\<rparr>"
      define v where "v = JObj [(''added_node_ids'', JArr [JStr alt]), (''action'', JStr (rf_action rf)), (''context'', JStr c)]"
      have st': "st' = update_task (pn_task p) (set_output ''replan'' v) m"
        using r False d Some by (simp add: reflect_replan_def Let_def c_def[symmetric] m_def v_def)
      have q: "quiet m st'" unfolding st' by (rule quiet_update) simp
      have deps: "dn_depends_on x = dag_deps (ss_dag st) ?i" using get_node_views(5)[OF n] x(2) by simp
      have g: "graph_inv R A S (ss_dag st)" and ok: "dag_ok (ss_dag st)" using inv by (simp_all add: run_inv_def graph_inv_def)
      have gd: "graph_inv R A S d" by (rule graph_inv_add[OF g i deps x(3) x1])
      have "set (dn_depends_on x) \<subseteq> dn_id ` set (dag_nodes (ss_dag st))"
        using edge_known[OF ok get_node_views(1)[OF n]] by (auto simp: deps known_def)
      note av = add_node_views[OF ok this x1]
      note av5 = av(5)[unfolded x(4)]
      have new: "\<not> known (ss_dag st) (dn_id x)" by (rule av(1))
      have ret: "retries_of u m = retries_of u st" for u by (simp add: retries_of_def m_def)
      have "funded N T A m"
      proof (rule funded_add[where j = "dn_id x"])
        show "funded N T A st" using inv by (simp add: run_inv_def)
        show "ss_replans st < max_replans" using False by simp
        show "ss_replans m = ss_replans st + 1" by (simp add: m_def)
        show "dag_ids (ss_dag m) = dag_ids (ss_dag st) @ [dn_id x]" by (simp add: m_def dag_ids_def av(3))
        show "dn_id x \<notin> set (dag_ids (ss_dag st))" using new by (simp add: known_def dag_ids_def)
        show "dn_id x \<notin> A" using new g by (auto simp: graph_inv_def)
        show "attempts m j = attempts st j" if "j \<noteq> dn_id x" for j
        proof -
          have "dag_task (ss_dag m) j = dag_task (ss_dag st) j" using that by (simp add: m_def av(5))
          then show ?thesis by (simp only: attempts_def ret)
        qed
        show "dag_status (ss_dag m) j = dag_status (ss_dag st) j" if "j \<noteq> dn_id x" for j using that by (simp add: m_def av(4))
      qed
      then have "run_inv N T R A S m" using gd by (simp add: run_inv_def m_def)
      moreover have ix: "?i \<noteq> dn_id x" using new get_node_views(1)[OF n] by auto
      have "dag_status (ss_dag st') ?i = Some TsCompleted" using q st ix by (simp add: quiet_def m_def av(4))
      ultimately have "run_inv N T R (A - {?i}) S st'" using leave quiet_inv[OF q] by blast
      moreover have "linked st' j t" if "linked st j t" for j t
      proof -
        have "known (ss_dag st) j"
          using that lookup_by_None[of dn_id j "dag_nodes (ss_dag st)"] by (auto simp: linked_def dag_task_def known_def bind_eq_Some_conv)
        then have "j \<noteq> dn_id x" using new by auto
        with that have "linked m j t" by (simp add: linked_def m_def av(5))
        with q show ?thesis by (simp add: quiet_def)
      qed
      ultimately show ?thesis by blast
    qed
  qed
qed

lemma quiet_result: "quiet a b \<Longrightarrow> quiet a (b\<lparr>ss_status := x, ss_result := y\<rparr>)"
  by (rule quiet_trans[OF _ quiet_same]) simp_all

lemma quiet_abort: "quiet st (reflect_abort E w p rf st)"
  unfolding reflect_abort_def Let_def
  by (auto split: prod.splits option.splits intro!: quiet_result
      intro: quiet_save quiet_trans[OF quiet_save quiet_update])

lemma reflect_on_task_inv:
  assumes inv: "run_inv N T R A S st" and i: "pn_id p \<in> A" and l: "linked st (pn_id p) (pn_task p)"
    and st: "dag_status (ss_dag st) (pn_id p) = Some TsCompleted" and r: "reflect_on_task E w k p st = Inr (b, st')"
  shows "run_inv N T R (A - {pn_id p}) S st' \<and> (\<forall>j t. linked st j t \<longrightarrow> linked st' j t)"
proof -
  have leave: "run_inv N T R (A - {pn_id p}) S st1 \<and> (\<forall>j t. linked st j t \<longrightarrow> linked st1 j t)" if "quiet st st1" for st1
    using run_inv_leave[OF quiet_inv[OF that inv]] that st by (simp add: quiet_def)
  show ?thesis
  proof (cases "se_reflect E k (pn_id p)")
    case None
    with r leave show ?thesis by (simp add: reflect_on_task_def)
  next
    case (Some rf)
    define st1 where "st1 = update_task (pn_task p) (set_output ''reflection'' (reflection_entry 3 rf)) st"
    have q: "quiet st st1" unfolding st1_def by (rule quiet_update) simp
    have i1: "run_inv N T R A S st1" "linked st1 (pn_id p) (pn_task p)" "dag_status (ss_dag st1) (pn_id p) = Some TsCompleted"
      using quiet_inv[OF q inv] q l st by (simp_all add: quiet_def)
    consider "st' = st1" | "reflect_retry p rf st1 = Inr (b, st')" | "reflect_replan p rf st1 = Inr st'"
      | "st' = reflect_abort E w p rf st1"
      using r Some by (auto simp: reflect_on_task_def st1_def Let_def bindE_Inr_conv split: if_splits)
    then show ?thesis
    proof cases
      case 2
      from reflect_retry_inv[OF i1(1) i i1(2,3) this] links_quiet[OF q] show ?thesis by blast
    next
      case 3
      from reflect_replan_inv[OF i1(1) i i1(3) this] links_quiet[OF q] show ?thesis by blast
    qed (use leave q quiet_trans[OF q quiet_abort] in simp_all)
  qed
qed

lemma settle_result_inv:
  assumes inv: "run_inv N T R A S st" and i: "pn_id p \<in> A" and l: "linked st (pn_id p) (pn_task p)"
    and r: "settle_result E w k p resp credits st = Inr st'"
  shows "run_inv N T R (A - {pn_id p}) S st' \<and> (\<forall>j t. linked st j t \<longrightarrow> linked st' j t)"
proof (cases "write_result E k (pn_id p) (lr_content resp)")
  case (Some m)
  with r processing_failed_inv[OF inv i] show ?thesis by (simp add: settle_result_def)
next
  case None
  define st1 where "st1 = st\<lparr>ss_memory := ss_memory st @ [(pn_id p, lr_content resp)]\<rparr>"
  have q1: "quiet st st1" unfolding st1_def by (rule quiet_same) simp_all
  show ?thesis
  proof (cases "se_record_trust E k (pn_id p) (scores_of resp credits)")
    case (Some m)
    with r None have "processing_failed E w p True m st1 = Inr st'" by (simp add: settle_result_def Let_def st1_def)
    from processing_failed_inv[OF quiet_inv[OF q1 inv] i this] links_quiet[OF q1] show ?thesis by blast
  next
    case none: None
    define st2 where "st2 = update_task (pn_task p) (complete_task p resp credits) st1"
    have q2: "quiet st st2" unfolding st2_def by (rule quiet_trans[OF q1 quiet_update]) simp
    note i2 = quiet_inv[OF q2 inv]
    have ok: "dag_ok (ss_dag st2)" using i2 by (simp add: run_inv_def graph_inv_def)
    obtain d ready b where d: "mark_completed (ss_dag st2) (pn_id p) (Some (lr_content resp)) = Inr (d, ready)"
        "reflect_on_task E w k p (review_gate E k p (apply_consensus E k p (st2\<lparr>ss_dag := d\<rparr>))) = Inr (b, st')"
      using r None none by (auto simp: settle_result_def Let_def st1_def st2_def bindE_Inr_conv mapErr_Inr_conv)
    note v = mark_completed_views[OF ok d(1)]
    note set = run_inv_set[OF i2 i, of "st2\<lparr>ss_dag := d\<rparr>" TsCompleted]
    have i3: "run_inv N T R A S (st2\<lparr>ss_dag := d\<rparr>)" "frame (pn_id p) st2 (st2\<lparr>ss_dag := d\<rparr>)" using set v by simp_all
    define st4 where "st4 = review_gate E k p (apply_consensus E k p (st2\<lparr>ss_dag := d\<rparr>))"
    have q4: "quiet (st2\<lparr>ss_dag := d\<rparr>) st4" unfolding st4_def by (rule quiet_trans[OF quiet_consensus quiet_review])
    have links: "linked st j t \<Longrightarrow> linked st4 j t" for j t using q2 i3(2) q4 by (simp add: quiet_def frame_def)
    have "dag_status (ss_dag st4) (pn_id p) = Some TsCompleted" using q4 v(4) by (simp add: quiet_def)
    from reflect_on_task_inv[OF quiet_inv[OF q4 i3(1)] i links[OF l] this d(2)[folded st4_def]] links
    show ?thesis by blast
  qed
qed

lemma process_result_inv:
  assumes inv: "run_inv N T R A S st" and i: "pn_id p \<in> A" and l: "linked st (pn_id p) (pn_task p)"
    and r: "process_result E w k p res st = Inr st'"
  shows "run_inv N T R (A - {pn_id p}) S st' \<and> (\<forall>j t. linked st j t \<longrightarrow> linked st' j t)"
proof (cases res)
  case (Inl m)
  obtain reason st1 where s: "try_release E w p reason (mark_task_failed p m st) = Inr st1" "fail_node (pn_id p) m st1 = Inr st'"
    using r Inl by (auto simp: process_result_def bindE_Inr_conv)
  show ?thesis by (rule fail_after[OF inv i quiet_trans[OF quiet_mark_failed quiet_release[OF s(1)]] s(2)])
next
  case (Inr rc)
  obtain resp cached where rc: "rc = (resp, cached)" by (cases rc)
  obtain wal where "processing_failed E w p False wal st = Inr st'
      \<or> (\<exists>wal'. settle_result E w k p resp (tokens_to_credits (lr_cost resp)) (st\<lparr>ss_wallet := wal'\<rparr>) = Inr st')"
    using r Inr rc by (auto simp: process_result_def Let_def split: sum.splits if_splits)
  then show ?thesis
  proof
    assume "processing_failed E w p False wal st = Inr st'"
    from processing_failed_inv[OF inv i this] show ?thesis .
  next
    assume "\<exists>wal'. settle_result E w k p resp (tokens_to_credits (lr_cost resp)) (st\<lparr>ss_wallet := wal'\<rparr>) = Inr st'"
    then obtain wal' where s: "settle_result E w k p resp (tokens_to_credits (lr_cost resp)) (st\<lparr>ss_wallet := wal'\<rparr>) = Inr st'" ..
    have q: "quiet st (st\<lparr>ss_wallet := wal'\<rparr>)" by (rule quiet_same) simp_all
    have "linked (st\<lparr>ss_wallet := wal'\<rparr>) (pn_id p) (pn_task p)" using q l by (simp add: quiet_def)
    from settle_result_inv[OF quiet_inv[OF q inv] i this s] links_quiet[OF q] show ?thesis by blast
  qed
qed

lemma process_results_inv:
  "process_results E w k results st = Inr st' \<Longrightarrow> run_inv N T R A S st \<Longrightarrow> A = pn_id ` fst ` set results
     \<Longrightarrow> distinct (map (\<lambda>x. pn_id (fst x)) results) \<Longrightarrow> \<forall>p \<in> fst ` set results. linked st (pn_id p) (pn_task p)
     \<Longrightarrow> run_inv N T R {} S st'"
proof (induction results arbitrary: st A)
  case (Cons x results)
  obtain p res where x: "x = (p, res)" by (cases x)
  obtain st1 where s: "process_result E w k p res st = Inr st1" "process_results E w k results st1 = Inr st'"
    using Cons.prems(1) x by (auto simp: bindE_Inr_conv)
  have p: "pn_id p \<in> A" "linked st (pn_id p) (pn_task p)" using Cons.prems x by auto
  note pr = process_result_inv[OF Cons.prems(2) p s(1)]
  have "map (\<lambda>x. pn_id (fst x)) results = map pn_id (map fst results)" by simp
  then have "pn_id p \<notin> set (map pn_id (map fst results))" using Cons.prems(4) x by (simp only: list.map distinct.simps fst_conv) simp
  then have "pn_id p \<notin> pn_id ` fst ` set results" by (simp add: image_image)
  moreover have "A = insert (pn_id p) (pn_id ` fst ` set results)" using Cons.prems(3) x by simp
  ultimately have "A - {pn_id p} = pn_id ` fst ` set results" by simp
  moreover have "distinct (map (\<lambda>x. pn_id (fst x)) results)" using Cons.prems(4) by simp
  moreover have "\<forall>p \<in> fst ` set results. linked st1 (pn_id p) (pn_task p)" using Cons.prems(5) pr by simp
  ultimately show ?case using Cons.IH[OF s(2) pr[THEN conjunct1]] by blast
qed simp

section \<open>A batch\<close>

lemma graph_inv_ready:
  assumes inv: "graph_inv {} {} S d" and ready: "get_ready_nodes d = Inr ready"
  shows "graph_inv (dn_id ` set ready) (dn_id ` set ready) S d" "distinct (map dn_id ready)"
    "\<And>i. i \<in> dn_id ` set ready \<Longrightarrow> is_open (dag_status d i) \<and> i \<in> set (dag_ids d)"
proof -
  have ok: "dag_ok d" using inv by (simp add: graph_inv_def)
  have r: "ready = filter (is_ready d) (dag_nodes d)" using ready get_ready_nodes_conv[OF ok] by simp
  show "distinct (map dn_id ready)" using ok by (simp add: r dag_ok_def distinct_map_filter)
  have node: "n \<in> set (dag_nodes d) \<and> is_ready d n" if "n \<in> set ready" for n using that by (simp add: r)
  have st: "dag_status d (dn_id n) = Some (dn_status n)" "dag_deps d (dn_id n) = dn_depends_on n" if "n \<in> set ready" for n
    using dag_status_node[OF ok] lookup_node_deps[OF ok] node[OF that] by simp_all
  show op: "is_open (dag_status d i) \<and> i \<in> set (dag_ids d)" if i: "i \<in> dn_id ` set ready" for i
  proof -
    obtain n where n: "n \<in> set ready" "i = dn_id n" using i by blast
    have "dn_status n \<in> {TsPending, TsTodo}" using node[OF n(1)] by (simp add: is_ready_def)
    then show ?thesis using st(1)[OF n(1)] node[OF n(1)] n(2) by (auto simp: is_open_def dag_ids_def)
  qed
  have "p \<notin> dn_id ` set ready \<and> dag_status d p = Some TsCompleted" if "n \<in> set ready" "p \<in> set (dag_deps d (dn_id n))" for n p
  proof -
    have "dag_status d p = Some TsCompleted" using that st(2) node by (auto simp: is_ready_def)
    with op[of p] show ?thesis by (auto simp: is_open_def)
  qed
  moreover have "dn_id ` set ready \<inter> S = {}" using op inv by (fastforce simp: graph_inv_def is_open_def)
  moreover have "dn_id ` set ready \<subseteq> {i. known d i}" using node by (auto simp: known_def)
  ultimately show "graph_inv (dn_id ` set ready) (dn_id ` set ready) S d" using inv by (auto simp: graph_inv_def)
qed

lemma graph_inv_end: "graph_inv R {} S d \<Longrightarrow> graph_inv {} {} S d"
  by (auto simp: graph_inv_def)

text \<open>The invariant between batches: \<open>S\<close> are the running nodes that nothing will report on.\<close>

lemma run_batch_inv:
  assumes inv: "run_inv N T {} {} S st" and ready: "get_ready_nodes (ss_dag st) = Inr ready" "ready \<noteq> []"
    and b: "run_batch E w agents k ready st = Inr (None, st')" and C: "node_caps (ss_dag st) \<subseteq> C"
  shows "0 < T \<and> node_caps (ss_dag st') \<subseteq> C
    \<and> (\<exists>S'. S \<subseteq> S' \<and> run_inv N (T - 1) {} {} S' st' \<and> (spares E w C \<longrightarrow> S' = S))"
proof -
  define R where "R = dn_id ` set ready"
  have g: "graph_inv {} {} S (ss_dag st)" and f: "funded N T {} st" using inv by (simp_all add: run_inv_def)
  note gr = graph_inv_ready[OF g ready(1), folded R_def]
  have "distinct (dag_ids (ss_dag st))" using g by (simp add: graph_inv_def dag_ok_def dag_ids_def)
  moreover have "R \<noteq> {}" using ready(2) by (simp add: R_def)
  ultimately have T: "0 < T" "funded N (T - 1) R st" using funded_start[OF f] gr(3) by auto
  have i0: "run_inv N (T - 1) R R S st" using gr(1) T(2) by (simp add: run_inv_def)
  obtain ps st1 where s1: "prepare_nodes E w agents k ready st = Inr (ps, st1)"
    using b unfolding run_batch_def bindE_Inr_conv by auto
  obtain kept esc st2 where s2: "policy_evaluate_nodes E w k ps st1 = (kept, esc, st2)"
    by (cases "policy_evaluate_nodes E w k ps st1")
  note b2 = b[unfolded run_batch_def s1 bindE_simps s2 Let_def case_prod_conv]
  obtain pz active st3 where s3: "approval_gate E w k (ss_tasks st2) (needing_approval (map pn_node ps) esc) kept st2 = Inr (pz, active, st3)"
    using b2 unfolding bindE_Inr_conv by auto
  note b3 = b2[unfolded s3 bindE_simps case_prod_conv]
  have "pz = None" using b3 by (cases pz) simp_all
  note s = s1 s2 s3[unfolded this] and b4 = b3[unfolded this option.case]
  obtain flow where flow: "get_workflow (ws_db (ss_wallet st3)) w = Inr flow"
    using b4 unfolding bindE_Inr_conv mapErr_Inr_conv by auto
  note b5 = b4[unfolded flow mapErr_simps bindE_simps]
  obtain st4 where st4: "process_results E w k (map (\<lambda>p. (p, llm_call E k flow p)) active)
        (st3\<lparr>ss_cache := ss_cache st3 @ cached_contents (map (\<lambda>p. (p, llm_call E k flow p)) active)\<rparr>) = Inr st4"
      "st' = st4\<lparr>ss_snapshot := dag_to_dict (ss_dag st4)\<rparr>"
    using b5 unfolding bindE_Inr_conv by auto
  note pn = prepare_nodes_inv[OF s(1) i0 _ gr(2)]
  have pn': "run_inv N (T - 1) R (pn_id ` set ps) S st1" "\<forall>p \<in> set ps. prepared_ok st1 p" "distinct (map pn_id ps)"
  proof -
    have "R - (dn_id ` set ready - pn_id ` set ps) = pn_id ` set ps"
      using pn by (auto simp: R_def pn_id_def)
    then show "run_inv N (T - 1) R (pn_id ` set ps) S st1" "\<forall>p \<in> set ps. prepared_ok st1 p" "distinct (map pn_id ps)"
      using pn by (simp_all add: R_def)
  qed
  note pe = policy_evaluate_inv[OF s(2) pn']
  obtain D where D: "run_inv N (T - 1) R (pn_id ` set kept) (S \<union> D) st2" "D = pn_id ` set ps - pn_id ` set kept" using pe(1) by blast
  note ag = approval_gate_inv[OF s(3) D(1)]
  define res where "res = map (\<lambda>p. (p, llm_call E k flow p)) active"
  define st3' where "st3' = st3\<lparr>ss_cache := ss_cache st3 @ cached_contents res\<rparr>"
  have q: "quiet st3 st3'" unfolding st3'_def by (rule quiet_same) simp_all
  have i3: "run_inv N (T - 1) R (pn_id ` set active) (S \<union> D) st3'" using quiet_inv[OF q] ag by blast
  have ids: "pn_id ` set active = pn_id ` fst ` set res" by (auto simp: res_def image_iff)
  have dist: "distinct (map (\<lambda>x. pn_id (fst x)) res)" using ag pe(4) by (simp add: res_def comp_def)
  have links: "\<forall>p \<in> fst ` set res. linked st3' (pn_id p) (pn_task p)"
    using pe(3) ag links_quiet[OF q] by (auto simp: res_def prepared_ok_def)
  have "run_inv N (T - 1) R {} (S \<union> D) st4"
    by (rule process_results_inv[OF st4(1)[folded res_def, folded st3'_def] i3 ids dist links])
  moreover have "quiet st4 st'" unfolding st4(2) by (rule quiet_same) simp_all
  ultimately have "run_inv N (T - 1) R {} (S \<union> D) st'" using quiet_inv by blast
  then have "run_inv N (T - 1) {} {} (S \<union> D) st'" by (auto simp: run_inv_def intro: graph_inv_end)
  moreover have "spares E w C \<longrightarrow> S \<union> D = S"
  proof
    assume spare: "spares E w C"
    have "set ready \<subseteq> set (dag_nodes (ss_dag st))"
      using g ready(1) get_ready_nodes_conv[of "ss_dag st"] by (auto simp: graph_inv_def)
    then have "\<forall>p \<in> set ps. dn_capability (pn_node p) \<in> C" using moves_prepare_nodes[OF s(1)] C unfolding node_caps_def by blast
    from spared_kept[OF spare this s(2)] D(2) show "S \<union> D = S" by simp
  qed
  moreover have "moves st st'"
  proof -
    have "moves st st1" "moves st2 st3" "moves st3' st4" "ss_dag st2 = ss_dag st1" "ss_dag st3' = ss_dag st3" "ss_dag st' = ss_dag st4"
      using moves_prepare_nodes[OF s(1)] moves_gate[OF s(3)] moves_results[OF st4(1)[folded res_def, folded st3'_def]] dag_policy[OF s(2)]
      by (simp_all add: st3'_def st4(2))
    then show ?thesis by (metis evolves_trans)
  qed
  then have "node_caps (ss_dag st') \<subseteq> C" using C by (auto simp: evolves_def)
  ultimately show ?thesis using T(1) by blast
qed

section \<open>A run\<close>

lemma run_loop_inv:
  "run_loop E w agents limit k st = Inr r \<Longrightarrow> run_inv N T {} {} S st \<Longrightarrow> T + k < limit \<Longrightarrow> node_caps (ss_dag st) \<subseteq> C
     \<Longrightarrow> (case r of
           RunRunaway st' \<Rightarrow> False
         | RunPaused pz st' \<Rightarrow> True
         | RunFinished st' \<Rightarrow> \<exists>S' T'. S \<subseteq> S' \<and> run_inv N T' {} {} S' st' \<and> (spares E w C \<longrightarrow> S' = S)
             \<and> (dag_is_complete (ss_dag st') \<or> get_ready_nodes (ss_dag st') = Inr []))"
proof (induction E w agents limit k st arbitrary: T S rule: run_loop.induct)
  case (1 E w agents limit k st)
  show ?case
  proof (cases "dag_is_complete (ss_dag st)")
    case True
    then have "r = RunFinished st" using 1(2) by (simp add: run_loop.simps)
    then show ?thesis using 1(3) True by auto
  next
    case False
    have lim: "\<not> limit < k + 1" using 1(4) by simp
    obtain ready where ready: "get_ready_nodes (ss_dag st) = Inr ready"
      using 1(2) False lim by (auto simp: run_loop.simps bindE_Inr_conv mapErr_Inr_conv)
    show ?thesis
    proof (cases "ready = []")
      case True
      then have "r = RunFinished st" using 1(2) False lim ready by (simp add: run_loop.simps)
      then show ?thesis using 1(3) True ready by auto
    next
      case ne: False
      obtain q st1 where b: "run_batch E w agents (k + 1) ready st = Inr (q, st1)"
        using 1(2) False lim ready ne by (auto simp: run_loop.simps bindE_Inr_conv)
      show ?thesis
      proof (cases q)
        case (Some pz)
        then have "r = RunPaused pz st1" using 1(2) False lim ready ne b by (simp add: run_loop.simps)
        then show ?thesis by simp
      next
        case None
        obtain S' where S': "0 < T" "S \<subseteq> S'" "run_inv N (T - 1) {} {} S' st1" "spares E w C \<longrightarrow> S' = S"
          "node_caps (ss_dag st1) \<subseteq> C"
          using run_batch_inv[OF 1(3) ready ne b[unfolded None] 1(5)] by blast
        have run: "run_loop E w agents limit (k + 1) st1 = Inr r"
          using 1(2) False lim ready ne b None by (simp add: run_loop.simps)
        have m: "mapErr SchedDag (get_ready_nodes (ss_dag st)) = Inr ready" using ready by simp
        have "T - 1 + (k + 1) < limit" using S'(1) 1(4) by simp
        note IH = 1(1)[OF False lim ne None run S'(3) this S'(5)]
        show ?thesis
        proof (cases r)
          case (RunFinished x)
          obtain S2 T2 where "S' \<subseteq> S2" "run_inv N T2 {} {} S2 x" "spares E w C \<longrightarrow> S2 = S'"
              "dag_is_complete (ss_dag x) \<or> get_ready_nodes (ss_dag x) = Inr []"
            using IH[unfolded RunFinished run_end.case] by blast
          then show ?thesis using S'(2,4) unfolding RunFinished run_end.case by blast
        qed (use IH in simp_all)
      qed
    qed
  qed
qed

text \<open>The invariant at the start of a run.\<close>

lemma run_inv_start:
  assumes "exec_inv (ss_dag st)" and "ss_replans st = 0"
  shows "run_inv (length (dag_nodes (ss_dag st)) + max_replans)
    (Suc max_retries_per_task * (length (dag_nodes (ss_dag st)) + max_replans)) {} {}
    {i. dag_status (ss_dag st) i = Some TsRunning} st"
proof -
  have l: "load st i \<le> Suc max_retries_per_task" for i using load_attempts attempts_bounds(2) le_trans by blast
  have "funded (length (dag_nodes (ss_dag st)) + max_replans)
      (Suc max_retries_per_task * (length (dag_nodes (ss_dag st)) + max_replans)) {} st"
  proof -
    have len: "length (dag_ids (ss_dag st)) = length (dag_nodes (ss_dag st))" by (simp add: dag_ids_def)
    have "sum_list (map (\<lambda>_. Suc max_retries_per_task) (dag_ids (ss_dag st)))
        = Suc max_retries_per_task * length (dag_nodes (ss_dag st))" by (simp add: sum_list_triv len)
    then show ?thesis
      unfolding funded_def assms(2) len using l by (intro conjI exI[of _ "\<lambda>_. Suc max_retries_per_task"]) (auto simp: add_mult_distrib2)
  qed
  moreover have "graph_inv {} {} {i. dag_status (ss_dag st) i = Some TsRunning} (ss_dag st)"
    using assms(1) by (auto simp: exec_inv_statuses graph_inv_def)
  ultimately show ?thesis by (simp add: run_inv_def)
qed

text \<open>Everything a finished run has in common.\<close>

lemma finished_run:
  assumes x: "exec_inv (ss_dag st)" and r: "execute_workflow E w agents st = Inr r"
  shows "(\<forall>st'. r \<noteq> RunRunaway st')
    \<and> (\<forall>st'. r = RunFinished st' \<longrightarrow>
         (\<exists>S. {i. dag_status (ss_dag st) i = Some TsRunning} \<subseteq> S
           \<and> (spares E w (node_caps (ss_dag st)) \<longrightarrow> S = {i. dag_status (ss_dag st) i = Some TsRunning})
           \<and> exec_inv (ss_dag st') \<and> length (dag_nodes (ss_dag st')) \<le> length (dag_nodes (ss_dag st)) + max_replans
           \<and> (\<forall>i. dag_status (ss_dag st') i = Some TsRunning \<longleftrightarrow> i \<in> S)
           \<and> (dag_is_complete (ss_dag st') \<or> get_ready_nodes (ss_dag st') = Inr [])
           \<and> ss_status st' = final_status (ss_dag st')))"
proof -
  define st0 where "st0 = st\<lparr>ss_status := WfRunning, ss_snapshot := dag_to_dict (ss_dag st), ss_replans := 0\<rparr>"
  define n where "n = length (dag_nodes (ss_dag st))"
  define S0 where "S0 = {i. dag_status (ss_dag st) i = Some TsRunning}"
  obtain r0 where r0: "run_loop E w agents (iteration_limit (ss_dag st)) 0 st0 = Inr r0"
      "(case r0 of RunFinished st1 \<Rightarrow> bindE (finalize_run E w st1) (\<lambda>st2. Inr (RunFinished st2)) | _ \<Rightarrow> Inr r0) = Inr r"
    using r by (auto simp: execute_workflow_def st0_def bindE_Inr_conv)
  have "run_inv (n + max_replans) (Suc max_retries_per_task * (n + max_replans)) {} {} S0 st0"
    using run_inv_start[of st0] x by (simp add: st0_def n_def S0_def)
  moreover have "Suc max_retries_per_task * (n + max_replans) + 0 < iteration_limit (ss_dag st)"
    by (simp add: iteration_limit_def max_retries_per_task_def max_replans_def n_def)
  ultimately have loop: "case r0 of RunRunaway st' \<Rightarrow> False | RunPaused pz st' \<Rightarrow> True
      | RunFinished st' \<Rightarrow> \<exists>S' T'. S0 \<subseteq> S' \<and> run_inv (n + max_replans) T' {} {} S' st' \<and> (spares E w (node_caps (ss_dag st)) \<longrightarrow> S' = S0)
             \<and> (dag_is_complete (ss_dag st') \<or> get_ready_nodes (ss_dag st') = Inr [])"
    by (rule run_loop_inv[OF r0(1)]) (simp add: st0_def)
  show ?thesis
  proof (cases r0)
    case (RunFinished st1)
    obtain S T' where S: "S0 \<subseteq> S" "run_inv (n + max_replans) T' {} {} S st1" "spares E w (node_caps (ss_dag st)) \<longrightarrow> S = S0"
        "dag_is_complete (ss_dag st1) \<or> get_ready_nodes (ss_dag st1) = Inr []" using loop RunFinished by auto
    obtain st2 where st2: "finalize_run E w st1 = Inr st2" "r = RunFinished st2" using r0(2) RunFinished by (auto simp: bindE_Inr_conv)
    have fin: "ss_dag st2 = ss_dag st1" "ss_status st2 = final_status (ss_dag st1)"
      using st2(1) by (auto simp: finalize_run_def bindE_Inr_conv split: prod.splits sum.splits)
    have "exec_inv (ss_dag st1)" "\<forall>i. dag_status (ss_dag st1) i = Some TsRunning \<longleftrightarrow> i \<in> S"
      using S(2) by (auto simp: run_inv_def graph_inv_def exec_inv_statuses)
    moreover have "length (dag_nodes (ss_dag st1)) \<le> n + max_replans"
      using S(2) by (simp add: run_inv_def funded_def dag_ids_def)
    ultimately show ?thesis using S fin st2(2) unfolding S0_def n_def by auto
  qed (use loop r0(2) in auto)
qed

section \<open>What a run guarantees\<close>

text \<open>C5. A run never hits the runaway guard: on any graph that satisfies the execution invariant,
  whatever the agents, models, policies, reviewers and reflections answer, the loop ends within
  \<open>max(5 n, 50)\<close> batches by itself, because every batch uses up one of the at most three attempts of a
  node and re-planning adds at most three nodes.\<close>

theorem never_runaway:
  assumes "exec_inv (ss_dag st)"
  shows "execute_workflow E w agents st \<noteq> Inr (RunRunaway st')"
  using finished_run[OF assms] by blast

lemma run_completes:
  assumes "exec_inv (ss_dag st)" and "\<forall>n \<in> set (dag_nodes (ss_dag st)). dn_status n \<noteq> TsRunning"
    and "spares E w (node_caps (ss_dag st))" and "execute_workflow E w agents st = Inr (RunFinished st')"
  shows "dag_is_complete (ss_dag st') \<and> length (dag_nodes (ss_dag st')) \<le> length (dag_nodes (ss_dag st)) + max_replans
    \<and> ss_status st' = final_status (ss_dag st')"
proof -
  have "{i. dag_status (ss_dag st) i = Some TsRunning} = {}" using assms(2) dag_status_Some by fastforce
  with finished_run[OF assms(1,4)] assms(3)
  have f: "exec_inv (ss_dag st')" "length (dag_nodes (ss_dag st')) \<le> length (dag_nodes (ss_dag st)) + max_replans"
      "\<forall>i. dag_status (ss_dag st') i \<noteq> Some TsRunning" "ss_status st' = final_status (ss_dag st')"
      "dag_is_complete (ss_dag st') \<or> get_ready_nodes (ss_dag st') = Inr []" by auto
  have ok: "dag_ok (ss_dag st')" using f(1) by (simp add: exec_inv_def)
  have "\<forall>n \<in> set (dag_nodes (ss_dag st')). dn_status n \<noteq> TsRunning" using f(3) dag_status_node[OF ok] by metis
  then have "dag_is_complete (ss_dag st')"
    using ready_exists[OF f(1)] f(5) get_ready_nodes_conv[OF ok] by auto
  with f show ?thesis by simp
qed


text \<open>A node that is running when a run starts is never taken up again: it is still running when the
  run finishes, and the workflow is nevertheless reported completed unless something failed and
  nothing was completed. Checkpoints taken at an approval gate hold such nodes, see
  \<open>pause_strands_siblings\<close>, and so does every node a policy denied.\<close>

theorem running_node_abandoned:
  assumes "exec_inv (ss_dag st)" and "dag_status (ss_dag st) i = Some TsRunning"
    and "execute_workflow E w agents st = Inr (RunFinished st')"
  shows "dag_status (ss_dag st') i = Some TsRunning \<and> \<not> dag_is_complete (ss_dag st')
    \<and> (ss_status st' = WfFailed \<longleftrightarrow> 0 < count_status TsFailed (ss_dag st') \<and> count_status TsCompleted (ss_dag st') = 0)"
proof -
  obtain S where S: "{i. dag_status (ss_dag st) i = Some TsRunning} \<subseteq> S" "\<forall>i. dag_status (ss_dag st') i = Some TsRunning \<longleftrightarrow> i \<in> S"
      "ss_status st' = final_status (ss_dag st')" using finished_run[OF assms(1,3)] by auto
  have r: "dag_status (ss_dag st') i = Some TsRunning" using S(1,2) assms(2) by auto
  from dag_status_Some[OF r] have "\<not> dag_is_complete (ss_dag st')" by (fastforce simp: dag_is_complete_def)
  with r S(3) show ?thesis by (simp add: final_status_def)
qed

end
