(* ===== verification/Scheduler_Ledger.thy ===== *)
theory Scheduler_Ledger
  imports Scheduler_Graph Wallet_Laws
begin

text \<open>
  The money of a run: which steps of the scheduler touch the wallet, and that they keep its ledger
  well formed and add only keyed holds and charges of its own nodes, so that a node is billed at most
  once, its retries included.
\<close>

section \<open>Steps that leave the wallet alone\<close>

lemma wallet_update [simp]: "ss_wallet (update_task t f st) = ss_wallet st"
  by (simp add: update_task_def)

lemma wallet_fail: "fail_node i m st = Inr st' \<Longrightarrow> ss_wallet st' = ss_wallet st"
  by (auto simp: fail_node_def bindE_Inr_conv)

lemma wallet_upsert: "upsert_task_row E w i a s m st = Inr (t, st') \<Longrightarrow> ss_wallet st' = ss_wallet st"
  by (auto simp: upsert_task_row_def bindE_Inr_conv Let_def split: option.splits if_splits)

lemma wallet_save: "save_pause E cp st = (h, st') \<Longrightarrow> ss_wallet st' = ss_wallet st"
  by (auto simp: save_pause_def split: option.splits)

lemma wallet_policy: "policy_nodes E w k ps st = (kept, escalated, st') \<Longrightarrow> ss_wallet st' = ss_wallet st"
proof (induction ps arbitrary: st kept escalated)
  case (Cons p ps)
  obtain d zs where "node_decision E w k p (ss_zsets st) = (d, zs)" by (cases "node_decision E w k p (ss_zsets st)")
  with Cons show ?case by (fastforce simp: Let_def split: if_splits prod.splits)
qed simp

lemma wallet_evaluate: "policy_evaluate_nodes E w k ps st = (kept, escalated, st') \<Longrightarrow> ss_wallet st' = ss_wallet st"
  by (auto simp: policy_evaluate_nodes_def wallet_policy split: if_splits)

lemma wallet_pause: "ss_wallet (pause_state E k p r committed st) = ss_wallet st"
  by (simp add: pause_state_def Let_def)

lemma wallet_gate: "approval_gate E w k committed nodes ps st = Inr (pz, active, st') \<Longrightarrow> ss_wallet st' = ss_wallet st"
proof (induction nodes arbitrary: ps st)
  case (Cons node nodes)
  obtain p where p: "lookup_by pn_id (dn_id node) ps = Some p" using Cons.prems by (auto simp: Let_def split: option.splits)
  show ?case
  proof (cases "se_federated E k (dn_id node)")
    case (Some fd)
    show ?thesis
    proof (cases "fd_status fd = ''denied''")
      case True
      define f where "f = (\<lambda>r::task_row. r\<lparr>tk_status := TsSkipped, tk_error := Some (''Denied: '' @ fd_reason fd)\<rparr>)"
      obtain m st1 where s: "fail_node (dn_id node) m st = Inr st1"
          "approval_gate E w k committed nodes (drop_node (dn_id node) ps) (update_task (pn_task p) f st1) = Inr (pz, active, st')"
        using Cons.prems p Some True by (auto simp: Let_def bindE_Inr_conv f_def)
      from Cons.IH[OF s(2)] wallet_fail[OF s(1)] show ?thesis by simp
    next
      case False
      with Cons p Some show ?thesis by (simp add: Let_def)
    qed
  next
    case None
    obtain d where d: "mark_pending (ss_dag st) (dn_id node) = Inr d"
      using Cons.prems p None by (auto simp: Let_def bindE_Inr_conv mapErr_Inr_conv)
    obtain h st1 where h: "save_pause E (pause_checkpoint E w p d) (st\<lparr>ss_dag := d\<rparr>) = (h, st1)"
      by (cases "save_pause E (pause_checkpoint E w p d) (st\<lparr>ss_dag := d\<rparr>)")
    have w1: "ss_wallet st1 = ss_wallet st" using wallet_save[OF h] by simp
    define f where "f = (\<lambda>r::task_row. r\<lparr>tk_status := TsRunning, tk_error := None\<rparr>)"
    have "(\<exists>r. st' = pause_state E k p r committed st1)
        \<or> approval_gate E w k committed nodes ps (update_task (pn_task p) f st1) = Inr (pz, active, st')"
      using Cons.prems p None d h by (auto simp: Let_def f_def split: gate_answer.splits if_splits)
    then show ?thesis using Cons.IH w1 wallet_pause by fastforce
  qed
qed simp

lemma wallet_review [simp]: "ss_wallet (review_gate E k p st) = ss_wallet st"
  by (auto simp: review_gate_def split: option.splits)

lemma wallet_consensus [simp]: "ss_wallet (apply_consensus E k p st) = ss_wallet st"
  by (auto simp: apply_consensus_def split: option.splits)

lemma wallet_abort: "ss_wallet (reflect_abort E w p rf st) = ss_wallet st"
  unfolding reflect_abort_def Let_def by (auto split: prod.splits option.splits dest: wallet_save)

lemma wallet_replan: "reflect_replan p rf st = Inr st' \<Longrightarrow> ss_wallet st' = ss_wallet st"
  by (auto simp: reflect_replan_def Let_def bindE_Inr_conv split: if_splits option.splits)

lemma wallet_retry: "reflect_retry p rf st = Inr (b, st') \<Longrightarrow> ss_wallet st' = ss_wallet st"
  by (auto simp: reflect_retry_def bindE_Inr_conv split: option.splits)

lemma wallet_reflect: "reflect_on_task E w k p st = Inr (b, st') \<Longrightarrow> ss_wallet st' = ss_wallet st"
  by (auto simp: reflect_on_task_def Let_def bindE_Inr_conv wallet_abort
      dest!: wallet_retry wallet_replan split: option.splits if_splits)

lemma wallet_charged_failure: "processing_failed E w p True m st = Inr st' \<Longrightarrow> ss_wallet st' = ss_wallet st"
  by (simp add: processing_failed_def mark_task_failed_def) (drule wallet_fail, simp)

lemma wallet_settle:
  assumes "settle_result E w k p resp credits st = Inr st'"
  shows "ss_wallet st' = ss_wallet st"
proof (cases "write_result E k (pn_id p) (lr_content resp)")
  case (Some m)
  with assms show ?thesis by (auto simp: settle_result_def dest: wallet_charged_failure)
next
  case None
  define st1 where "st1 = st\<lparr>ss_memory := ss_memory st @ [(pn_id p, lr_content resp)]\<rparr>"
  show ?thesis
  proof (cases "se_record_trust E k (pn_id p) (scores_of resp credits)")
    case (Some m)
    with assms None have "processing_failed E w p True m st1 = Inr st'" by (simp add: settle_result_def Let_def st1_def)
    from wallet_charged_failure[OF this] show ?thesis by (simp add: st1_def)
  next
    case none: None
    define st2 where "st2 = update_task (pn_task p) (complete_task p resp credits) st1"
    obtain d b where "reflect_on_task E w k p (review_gate E k p (apply_consensus E k p (st2\<lparr>ss_dag := d\<rparr>))) = Inr (b, st')"
      using assms None none by (auto simp: settle_result_def Let_def st1_def st2_def bindE_Inr_conv)
    from wallet_reflect[OF this] show ?thesis by (simp add: st2_def st1_def)
  qed
qed

section \<open>Calls that only append\<close>

text \<open>A session whose tables extend what a rollback returns to.\<close>

definition session_ok :: "wallet_state \<Rightarrow> bool" where
  "session_ok st \<longleftrightarrow> state_ok st \<and> (\<exists>rows. wd_events (ws_db st) = wd_events (ws_start st) @ rows)"

lemma session_replay: "session_ok st \<Longrightarrow> replay (ws_db st) key = None \<Longrightarrow> replay (ws_start st) key = None"
  by (auto simp: session_ok_def replay_def find_by_key_def find_None_iff split: option.splits if_splits)

lemma no_race_absorb: "wn_race E = (\<lambda>_. []) \<Longrightarrow> absorb E st = st"
  by (simp add: absorb_def)

lemma session_grows:
  "session_ok st \<Longrightarrow> state_ok st' \<Longrightarrow> ws_start st' = ws_start st \<Longrightarrow> wd_events (ws_db st') = wd_events (ws_db st) @ new
    \<Longrightarrow> session_ok st'"
  by (auto simp: session_ok_def)

lemma insert_appends:
  assumes "insert_event E ev st = Inr (row, st')"
  shows "wd_events (ws_db st') = wd_events (ws_db st) @ [row] \<and> ws_start st' = ws_start st
    \<and> we_workflow row = we_workflow ev \<and> we_action row = we_action ev \<and> we_key row = we_key ev"
  using insert_event_Inr(1,2)[OF assms] by simp

lemma set_used_appends: "set_used w v st = Inr st' \<Longrightarrow> wd_events (ws_db st') = wd_events (ws_db st) \<and> ws_start st' = ws_start st"
  by (drule set_used_Inr) simp

text \<open>What the three wallet calls of a run add to the ledger.\<close>

definition appends :: "wallet_state \<Rightarrow> wallet_state \<Rightarrow> (wallet_event \<Rightarrow> bool) \<Rightarrow> bool" where
  "appends st st' P \<longleftrightarrow> ws_start st' = ws_start st
     \<and> (\<exists>new. wd_events (ws_db st') = wd_events (ws_db st) @ new \<and> (\<forall>e \<in> set new. P e))"

lemma appends_none: "ws_start st' = ws_start st \<Longrightarrow> wd_events (ws_db st') = wd_events (ws_db st) \<Longrightarrow> appends st st' P"
  by (simp add: appends_def)

lemma reserve_appends:
  assumes "reserve_budget E w a cost reason key st = Inr (ev, st')" "wn_race E = (\<lambda>_. [])" "session_ok st"
  shows "appends st st' (\<lambda>e. we_workflow e = w \<and> we_action e = RESERVE \<and> we_key e = key)"
proof (cases "replay (ws_db st) key")
  case (Some e)
  with assms(1) have "st' = st" by (simp add: reserve_budget_def split: if_splits)
  then show ?thesis by (simp add: appends_none)
next
  case None
  note absorb = no_race_absorb[OF assms(2)] and start = session_replay[OF assms(3) None]
  from assms(1) show ?thesis
  proof (cases rule: reserve_cases)
    case (fresh flow row)
    from insert_appends[OF fresh(5)] show ?thesis by (simp add: fresh(6) absorb appends_def)
  qed (use None start absorb in simp_all)
qed

lemma release_appends:
  assumes "release_reservation E w rid reason key st = Inr (ev, st')" "wn_race E = (\<lambda>_. [])" "session_ok st"
  shows "appends st st' (\<lambda>e. we_workflow e = w \<and> we_action e = RELEASE)"
proof (cases "replay (ws_db st) key")
  case (Some e)
  with assms(1) have "st' = st" by (simp add: release_reservation_def)
  then show ?thesis by (simp add: appends_none)
next
  case None
  note absorb = no_race_absorb[OF assms(2)] and start = session_replay[OF assms(3) None]
  from assms(1) show ?thesis
  proof (cases rule: release_cases)
    case (fresh r row)
    from insert_appends[OF fresh(3)] show ?thesis by (simp add: fresh(4) absorb appends_def)
  qed (use None start absorb in simp_all)
qed

lemma charge_appends:
  assumes "charge E w a cost rid reason key st = Inr (ev, st')" "wn_race E = (\<lambda>_. [])"
  shows "appends st st' (\<lambda>e. we_workflow e = w \<and> (we_action e = RELEASE \<or> we_action e = DEBIT \<and> we_key e = key))"
  using assms(1)
proof (cases rule: charge_cases)
  case replayed
  then show ?thesis by (simp add: appends_none)
next
  case (fresh r rel st1 st2 st3)
  from insert_appends[OF fresh(3)] insert_appends[OF fresh(4)] set_used_appends[OF fresh(5)] show ?thesis
    by (simp add: fresh(6) no_race_absorb[OF assms(2)] appends_def)
qed

section \<open>Steps that use it\<close>

text \<open>The events a run may write: holds and charges under the key of a node of its graph, and releases.\<close>

definition run_event :: "uuid \<Rightarrow> string set \<Rightarrow> wallet_event \<Rightarrow> bool" where
  "run_event w ids e \<longleftrightarrow> we_workflow e = w
     \<and> (we_action e = RELEASE
        \<or> we_action e = RESERVE \<and> (\<exists>i \<in> ids. we_key e = Some (reserve_key w i))
        \<or> we_action e = DEBIT \<and> (\<exists>i \<in> ids. we_key e = Some (charge_key w i)))"

definition books_kept :: "sched_env \<Rightarrow> uuid \<Rightarrow> sched_state \<Rightarrow> sched_state \<Rightarrow> bool" where
  "books_kept E w st st' \<longleftrightarrow> moves st st'
     \<and> (wn_race (se_wallet E) = (\<lambda>_. []) \<longrightarrow> session_ok (ss_wallet st)
        \<longrightarrow> session_ok (ss_wallet st') \<and> appends (ss_wallet st) (ss_wallet st') (run_event w (node_ids (ss_dag st'))))"

lemma books_refl: "ss_wallet st' = ss_wallet st \<Longrightarrow> moves st st' \<Longrightarrow> books_kept E w st st'"
  by (simp add: books_kept_def appends_none)

lemma run_event_mono: "run_event w ids e \<Longrightarrow> ids \<subseteq> ids' \<Longrightarrow> run_event w ids' e"
  by (auto simp: run_event_def)

lemma appends_trans:
  assumes "appends a b P" "appends b c Q" "\<And>e. P e \<Longrightarrow> Q e"
  shows "appends a c Q"
proof -
  obtain m n where "wd_events (ws_db b) = wd_events (ws_db a) @ m" "\<forall>e \<in> set m. P e"
    "wd_events (ws_db c) = wd_events (ws_db b) @ n" "\<forall>e \<in> set n. Q e"
    using assms(1,2) by (auto simp: appends_def)
  then have "wd_events (ws_db c) = wd_events (ws_db a) @ (m @ n) \<and> (\<forall>e \<in> set (m @ n). Q e)" using assms(3) by auto
  then show ?thesis using assms(1,2) unfolding appends_def by metis
qed

lemma books_trans:
  assumes "books_kept E w a b" "books_kept E w b c"
  shows "books_kept E w a c"
proof -
  have ab: "moves a b" and bc: "moves b c" using assms by (simp_all add: books_kept_def)
  have m: "moves a c" "node_ids (ss_dag b) \<subseteq> node_ids (ss_dag c)"
    using evolves_trans[OF ab bc] bc by (simp_all add: evolves_def)
  show ?thesis
    unfolding books_kept_def
  proof (intro conjI impI)
    assume h: "wn_race (se_wallet E) = (\<lambda>_. [])" "session_ok (ss_wallet a)"
    with assms show "session_ok (ss_wallet c)" by (simp add: books_kept_def)
    have "appends (ss_wallet a) (ss_wallet b) (run_event w (node_ids (ss_dag b)))"
      "appends (ss_wallet b) (ss_wallet c) (run_event w (node_ids (ss_dag c)))" using assms h by (simp_all add: books_kept_def)
    then show "appends (ss_wallet a) (ss_wallet c) (run_event w (node_ids (ss_dag c)))"
      by (rule appends_trans) (rule run_event_mono[OF _ m(2)])
  qed (rule m(1))
qed

lemma books_call:
  assumes "wallet_do (se_wallet E) c (ss_wallet st) = Inr (ev, ss_wallet st')" "moves st st'"
    and "wn_race (se_wallet E) = (\<lambda>_. []) \<Longrightarrow> session_ok (ss_wallet st)
      \<Longrightarrow> appends (ss_wallet st) (ss_wallet st') (run_event w (node_ids (ss_dag st')))"
  shows "books_kept E w st st'"
  unfolding books_kept_def
proof (intro conjI impI)
  assume h: "wn_race (se_wallet E) = (\<lambda>_. [])" "session_ok (ss_wallet st)"
  have "state_ok (ss_wallet st')"
    using wallet_do_ok[OF assms(1)] no_race_absorb[OF h(1)] h(2) by (simp add: session_ok_def)
  with assms(3)[OF h] h(2) show "session_ok (ss_wallet st')" by (auto simp: appends_def intro: session_grows)
qed (use assms in simp_all)

lemma books_release:
  assumes "try_release E w p reason st = Inr st'"
  shows "books_kept E w st st'"
proof (cases "release_reservation (se_wallet E) w (we_id (pn_reservation p)) reason None (ss_wallet st)")
  case (Inl e)
  with assms show ?thesis by (auto simp: try_release_def split: if_splits intro: books_refl)
next
  case (Inr x)
  obtain ev wal where x: "x = (ev, wal)" by (cases x)
  with assms Inr have st': "st' = st\<lparr>ss_wallet := wal\<rparr>" by (simp add: try_release_def)
  show ?thesis
  proof (rule books_call[where c = "CallRelease w (we_id (pn_reservation p)) reason None"])
    assume h: "wn_race (se_wallet E) = (\<lambda>_. [])" "session_ok (ss_wallet st)"
    from release_appends[OF Inr[unfolded x] h] show "appends (ss_wallet st) (ss_wallet st') (run_event w (node_ids (ss_dag st')))"
      by (auto simp: st' appends_def run_event_def)
  qed (use Inr x st' in simp_all)
qed

lemma books_failed:
  assumes "processing_failed E w p charged m st = Inr st'"
  shows "books_kept E w st st'"
proof (cases charged)
  case True
  with assms show ?thesis using moves_failed[OF assms] by (auto intro: books_refl wallet_charged_failure)
next
  case False
  obtain reason st1 where s: "try_release E w p reason st = Inr st1" "fail_node (pn_id p) m (mark_task_failed p m st1) = Inr st'"
    using assms False by (auto simp: processing_failed_def bindE_Inr_conv)
  have "ss_wallet st' = ss_wallet st1" "moves st1 st'"
    using wallet_fail[OF s(2)] moves_fail[OF s(2)] by (simp_all add: mark_task_failed_def)
  from books_trans[OF books_release[OF s(1)] books_refl[OF this]] show ?thesis .
qed

lemma books_result:
  assumes "process_result E w k p res st = Inr st'"
  shows "books_kept E w st st'"
proof (cases res)
  case (Inl m)
  obtain reason st1 where s: "try_release E w p reason (mark_task_failed p m st) = Inr st1" "fail_node (pn_id p) m st1 = Inr st'"
    using assms Inl by (auto simp: process_result_def bindE_Inr_conv)
  have 1: "books_kept E w st (mark_task_failed p m st)" by (rule books_refl) (simp_all add: mark_task_failed_def)
  have 2: "books_kept E w st1 st'" using wallet_fail[OF s(2)] moves_fail[OF s(2)] by (simp add: books_refl)
  from books_trans[OF 1 books_trans[OF books_release[OF s(1)] 2]] show ?thesis .
next
  case (Inr rc)
  obtain resp cached where rc: "rc = (resp, cached)" by (cases rc)
  define call where "call = CallCharge w (ag_id (pn_agent p)) (tokens_to_credits (lr_cost resp)) (we_id (pn_reservation p))
    (''Task '' @ pn_id p @ '' completed: '' @ str_int (lr_tokens resp) @ '' tokens'') (Some (charge_key w (pn_id p)))"
  show ?thesis
  proof (cases "wallet_do (se_wallet E) call (ss_wallet st)")
    case (Inl e)
    then have "processing_failed E w p False (wallet_message e) st = Inr st'"
      using assms Inr rc by (simp add: process_result_def Let_def call_def split: if_splits)
    then show ?thesis by (rule books_failed)
  next
    case charged: (Inr ew)
    obtain ev wal where ew: "ew = (ev, wal)" by (cases ew)
    have s: "settle_result E w k p resp (tokens_to_credits (lr_cost resp)) (st\<lparr>ss_wallet := wal\<rparr>) = Inr st'"
      using assms Inr rc charged ew by (simp add: process_result_def Let_def call_def)
    have wal: "ss_wallet st' = wal" using wallet_settle[OF s] by simp
    have "pn_id p \<in> node_ids (ss_dag st')" using moves_result[OF assms] evolves_ids by blast
    moreover have "moves st st'" using moves_result[OF assms] by simp
    ultimately show ?thesis
      using charge_appends charged[unfolded ew call_def wallet_do.simps]
      by (intro books_call[where c = call and ev = ev]) (use charged ew wal in \<open>fastforce simp: appends_def run_event_def\<close>)+
  qed
qed

lemma books_results: "process_results E w k results st = Inr st' \<Longrightarrow> books_kept E w st st'"
  by (induction E w k results st rule: process_results.induct)
    (auto simp: bindE_Inr_conv intro: books_refl books_trans[OF books_result])

lemma books_prepare:
  assumes "prepare_node E w agents k node st = Inr (q, st')"
  shows "books_kept E w st st'"
proof (cases "map_of agents (dn_id node)")
  case None
  have "moves st st'" using moves_prepare[OF assms] by simp
  moreover have "ss_wallet st' = ss_wallet st" using assms None by (auto simp: prepare_node_def Let_def bindE_Inr_conv dest: wallet_fail)
  ultimately show ?thesis by (simp add: books_refl)
next
  case (Some agent)
  define call where "call = CallReserve w (ag_id agent) (estimate_node_cost (se_max_iterations E) node agent)
      (''Task '' @ dn_id node @ '': '' @ dn_capability node) (Some (reserve_key w (dn_id node)))"
  note mv = moves_prepare[OF assms]
  show ?thesis
  proof (cases "wallet_do (se_wallet E) call (ss_wallet st)")
    case (Inl e)
    have e: "e = BudgetExhausted" using assms Some Inl by (cases e) (simp_all add: prepare_node_def Let_def call_def)
    obtain m m' st1 t where "fail_node (dn_id node) m st = Inr st1" "upsert_task_row E w (dn_id node) (ag_id agent) TsFailed m' st1 = Inr (t, st')"
      using assms Some Inl e by (auto simp: prepare_node_def Let_def call_def bindE_Inr_conv)
    then have "ss_wallet st' = ss_wallet st" by (auto dest!: wallet_fail wallet_upsert)
    with mv show ?thesis by (simp add: books_refl)
  next
    case (Inr ew)
    obtain ev wal where ew: "ew = (ev, wal)" by (cases ew)
    obtain d t where "upsert_task_row E w (dn_id node) (ag_id agent) TsRunning None (st\<lparr>ss_wallet := wal, ss_dag := d\<rparr>) = Inr (t, st')"
      using assms Some Inr ew by (auto simp: prepare_node_def Let_def call_def bindE_Inr_conv)
    then have wal: "ss_wallet st' = wal" by (auto dest: wallet_upsert)
    have "dn_id node \<in> node_ids (ss_dag st')" using mv evolves_ids by blast
    then show ?thesis
      using reserve_appends Inr[unfolded ew call_def wallet_do.simps] mv
      by (intro books_call[where c = call and ev = ev]) (use Inr ew wal in \<open>fastforce simp: appends_def run_event_def\<close>)+
  qed
qed

lemma books_prepare_nodes: "prepare_nodes E w agents k nodes st = Inr (ps, st') \<Longrightarrow> books_kept E w st st'"
proof (induction nodes arbitrary: st ps)
  case Nil
  then show ?case by (simp add: books_refl)
next
  case (Cons node nodes)
  obtain q st1 ps1 where "prepare_node E w agents k node st = Inr (q, st1)" "prepare_nodes E w agents k nodes st1 = Inr (ps1, st')"
    using Cons.prems by (auto simp: bindE_Inr_conv)
  with Cons.IH books_prepare books_trans show ?case by blast
qed

lemma books_batch:
  assumes b: "run_batch E w agents k ready st = Inr (pz, st')"
  shows "books_kept E w st st'"
proof -
  obtain ps st1 where s1: "prepare_nodes E w agents k ready st = Inr (ps, st1)"
    using b unfolding run_batch_def bindE_Inr_conv by auto
  obtain kept esc st2 where s2: "policy_evaluate_nodes E w k ps st1 = (kept, esc, st2)"
    by (cases "policy_evaluate_nodes E w k ps st1")
  note b2 = b[unfolded run_batch_def s1 bindE_simps s2 Let_def case_prod_conv]
  obtain q active st3 where s3: "approval_gate E w k (ss_tasks st2) (needing_approval (map pn_node ps) esc) kept st2 = Inr (q, active, st3)"
    using b2 unfolding bindE_Inr_conv by auto
  note b3 = b2[unfolded s3 bindE_simps case_prod_conv]
  have "books_kept E w st2 st3" by (rule books_refl[OF wallet_gate[OF s3] moves_gate[OF s3]])
  moreover have "books_kept E w st1 st2" using wallet_evaluate[OF s2] dag_policy[OF s2] by (simp add: books_refl)
  ultimately have k: "books_kept E w st st3" using books_trans books_prepare_nodes[OF s1] by blast
  show ?thesis
  proof (cases q)
    case (Some x)
    with b3 k show ?thesis by simp
  next
    case None
    note b4 = b3[unfolded None option.case]
    obtain flow where flow: "get_workflow (ws_db (ss_wallet st3)) w = Inr flow"
      using b4 unfolding bindE_Inr_conv mapErr_Inr_conv by auto
    note b5 = b4[unfolded flow mapErr_simps bindE_simps]
    define res where "res = map (\<lambda>p. (p, llm_call E k flow p)) active"
    obtain st4 where st4: "process_results E w k res (st3\<lparr>ss_cache := ss_cache st3 @ cached_contents res\<rparr>) = Inr st4"
        "st' = st4\<lparr>ss_snapshot := dag_to_dict (ss_dag st4)\<rparr>"
      using b5 unfolding bindE_Inr_conv res_def by auto
    have "books_kept E w st3 (st3\<lparr>ss_cache := ss_cache st3 @ cached_contents res\<rparr>)" "books_kept E w st4 st'"
      using st4(2) by (simp_all add: books_refl)
    with k books_results[OF st4(1)] books_trans show ?thesis by blast
  qed
qed

definition end_state :: "run_end \<Rightarrow> sched_state" where
  "end_state r = (case r of RunPaused pz st \<Rightarrow> st | RunRunaway st \<Rightarrow> st | RunFinished st \<Rightarrow> st)"

lemma books_loop: "run_loop E w agents limit k st = Inr r \<Longrightarrow> books_kept E w st (end_state r)"
proof (induction E w agents limit k st rule: run_loop.induct)
  case (1 E w agents limit k st)
  show ?case
  proof (cases "dag_is_complete (ss_dag st) \<or> limit < k + 1")
    case True
    then have "r = RunFinished st \<or> r = RunRunaway (runaway limit st)" using 1(2) by (auto simp: run_loop.simps split: if_splits)
    then show ?thesis by (auto simp: end_state_def runaway_def books_refl)
  next
    case False
    then have lim: "\<not> dag_is_complete (ss_dag st)" "\<not> limit < k + 1" by simp_all
    obtain ready where ready: "get_ready_nodes (ss_dag st) = Inr ready"
      using 1(2) lim by (auto simp: run_loop.simps bindE_Inr_conv mapErr_Inr_conv)
    show ?thesis
    proof (cases "ready = []")
      case True
      then have "r = RunFinished st" using 1(2) lim ready by (simp add: run_loop.simps)
      then show ?thesis by (simp add: end_state_def books_refl)
    next
      case ne: False
      obtain q st1 where b: "run_batch E w agents (k + 1) ready st = Inr (q, st1)"
        using 1(2) lim ready ne by (auto simp: run_loop.simps bindE_Inr_conv)
      note bb = books_batch[OF b]
      show ?thesis
      proof (cases q)
        case (Some pz)
        then have "r = RunPaused pz st1" using 1(2) lim ready ne b by (simp add: run_loop.simps)
        with bb show ?thesis by (simp add: end_state_def)
      next
        case None
        have "run_loop E w agents limit (k + 1) st1 = Inr r" using 1(2) lim ready ne b None by (simp add: run_loop.simps)
        from books_trans[OF bb 1(1)[OF lim ne None this]] show ?thesis .
      qed
    qed
  qed
qed

lemma books_run:
  assumes "execute_workflow E w agents st = Inr r"
  shows "books_kept E w st (end_state r)"
proof -
  define st0 where "st0 = st\<lparr>ss_status := WfRunning, ss_snapshot := dag_to_dict (ss_dag st), ss_replans := 0\<rparr>"
  obtain r0 where r0: "run_loop E w agents (iteration_limit (ss_dag st)) 0 st0 = Inr r0"
      "(case r0 of RunFinished st1 \<Rightarrow> bindE (finalize_run E w st1) (\<lambda>st2. Inr (RunFinished st2)) | _ \<Rightarrow> Inr r0) = Inr r"
    using assms by (auto simp: execute_workflow_def st0_def bindE_Inr_conv)
  have "ss_wallet (end_state r) = ss_wallet (end_state r0) \<and> ss_dag (end_state r) = ss_dag (end_state r0)"
    using r0(2) by (auto simp: end_state_def finalize_run_def bindE_Inr_conv split: run_end.splits prod.splits sum.splits)
  then have "books_kept E w (end_state r0) (end_state r)" by (simp add: books_refl)
  moreover have "books_kept E w st st0" by (simp add: st0_def books_refl)
  ultimately show ?thesis using books_loop[OF r0(1)] books_trans by blast
qed

lemma charge_keys_bounded:
  assumes "keys_unique es" "\<forall>e \<in> set es. \<exists>i \<in> set ids. we_key e = Some (charge_key w i)"
  shows "length es \<le> length ids"
proof -
  have "filter (\<lambda>k. k \<noteq> None) (map we_key es) = map we_key es" using assms(2) by (auto simp: filter_id_conv)
  then have "distinct (map we_key es)" using assms(1) by (simp add: keys_unique_def)
  then have "length es = card (we_key ` set es)" using distinct_card[of "map we_key es"] by simp
  also have "\<dots> \<le> card ((\<lambda>i. Some (charge_key w i)) ` set ids)" using assms(2) by (intro card_mono) auto
  also have "\<dots> \<le> length ids" using card_image_le[of "set ids"] card_length[of ids] le_trans by blast
  finally show ?thesis .
qed

lemma keys_unique_filter: "keys_unique es \<Longrightarrow> keys_unique (filter P es)"
  unfolding keys_unique_def by (induction es) (auto simp: image_iff, metis)

text \<open>C7. A run keeps the books: while no other session interferes, whether it finishes, pauses or gives up,
  the tables of the wallet satisfy their invariant afterwards if they did before; every earlier event
  stays; each event the run adds is for its workflow and is a hold or a charge under the idempotency
  key of a node of its graph, or a release; and it adds no more charges than the graph has nodes at the
  end, at most one for each node, however often nodes are retried.\<close>

theorem run_keeps_books:
  assumes "execute_workflow E w agents st = Inr r" and "wn_race (se_wallet E) = (\<lambda>_. [])" and "session_ok (ss_wallet st)"
  shows "session_ok (ss_wallet (end_state r))
    \<and> (\<exists>new. wd_events (ws_db (ss_wallet (end_state r))) = wd_events (ws_db (ss_wallet st)) @ new
        \<and> (\<forall>e \<in> set new. run_event w (node_ids (ss_dag (end_state r))) e)
        \<and> (\<forall>i. length (filter (\<lambda>e. we_action e = DEBIT \<and> we_key e = Some (charge_key w i)) new) \<le> 1)
        \<and> length (filter (\<lambda>e. we_action e = DEBIT) new) \<le> length (dag_nodes (ss_dag (end_state r))))"
proof -
  define ids where "ids = map dn_id (dag_nodes (ss_dag (end_state r)))"
  have ids: "node_ids (ss_dag (end_state r)) = set ids" "length ids = length (dag_nodes (ss_dag (end_state r)))"
    by (simp_all add: node_ids_def ids_def)
  have ok: "session_ok (ss_wallet (end_state r))"
    and app: "appends (ss_wallet st) (ss_wallet (end_state r)) (run_event w (set ids))"
    using books_run[OF assms(1)] assms(2,3) unfolding books_kept_def ids by blast+
  obtain new where new: "wd_events (ws_db (ss_wallet (end_state r))) = wd_events (ws_db (ss_wallet st)) @ new"
      "\<forall>e \<in> set new. run_event w (set ids) e"
    using app by (auto simp: appends_def)
  have "keys_unique (wd_events (ws_db (ss_wallet st)) @ new)" using ok by (simp add: session_ok_def state_ok_def wallet_ok_def new(1))
  then have "keys_unique new" by (simp add: keys_unique_def)
  then have u: "keys_unique (filter P new)" for P by (rule keys_unique_filter)
  have "length (filter (\<lambda>e. we_action e = DEBIT) new) \<le> length ids"
    using new(2) by (intro charge_keys_bounded[OF u, where w = w]) (auto simp: run_event_def)
  moreover have "length (filter (\<lambda>e. we_action e = DEBIT \<and> we_key e = Some (charge_key w i)) new) \<le> length [i]" for i
    by (intro charge_keys_bounded[OF u, where w = w]) auto
  ultimately show ?thesis using ok new unfolding ids by auto
qed

text \<open>The retried attempts of a node are not billed: once the charge key of a node is in the ledger,
  processing another result of that node leaves the wallet exactly as it is, whatever the model calls
  of that attempt cost.\<close>

theorem retry_not_charged:
  assumes "replay (ws_db (ss_wallet st)) (Some (charge_key w (pn_id p))) = Some ev"
    and "process_result E w k p (Inr (resp, cached)) st = Inr st'"
  shows "ss_wallet st' = ss_wallet st"
proof -
  have "settle_result E w k p resp (tokens_to_credits (lr_cost resp)) (st\<lparr>ss_wallet := ss_wallet st\<rparr>) = Inr st'"
    using assms by (simp add: process_result_def Let_def charge_def)
  from wallet_settle[OF this] show ?thesis by simp
qed

end
