(* ===== verification/Scheduler_Gates.thy ===== *)
theory Scheduler_Gates
  imports Scheduler_Laws Scheduler_Ledger
begin

text \<open>
  The two gates between preparing a batch and running it: what a pause for approval leaves behind, and
  what a policy denial of a high-risk node does.
\<close>

section \<open>Pausing for approval\<close>

lemma approval_gate_pause:
  "approval_gate E w k committed nodes ps st = Inr (Some pz, active, st') \<Longrightarrow> run_inv N T R (pn_id ` set ps) S st
     \<Longrightarrow> exec_inv (ss_dag st') \<and> dag_status (ss_dag st') (pz_node pz) = Some TsPending
       \<and> (\<forall>j. j \<notin> dn_id ` set nodes \<longrightarrow> dag_status (ss_dag st) j = Some TsRunning \<longrightarrow> dag_status (ss_dag st') j = Some TsRunning)"
proof (induction nodes arbitrary: ps st)
  case (Cons node nodes)
  let ?i = "dn_id node"
  obtain p where p: "lookup_by pn_id ?i ps = Some p" using Cons.prems(1) by (auto simp: Let_def split: option.splits)
  note i = lookup_pn[OF p]
  show ?case
  proof (cases "se_federated E k ?i")
    case (Some fd)
    show ?thesis
    proof (cases "fd_status fd = ''denied''")
      case True
      define f where "f = (\<lambda>r::task_row. r\<lparr>tk_status := TsSkipped, tk_error := Some (''Denied: '' @ fd_reason fd)\<rparr>)"
      have rf: "row_update f" by (simp add: f_def)
      obtain m st1 where s: "fail_node ?i m st = Inr st1"
          "approval_gate E w k committed nodes (drop_node ?i ps) (update_task (pn_task p) f st1) = Inr (Some pz, active, st')"
        using Cons.prems(1) p Some True by (auto simp: Let_def bindE_Inr_conv f_def)
      note fn = fail_node_inv[OF Cons.prems(2) i s(1)]
      have "pn_id ` set (drop_node ?i ps) = pn_id ` set ps - {?i}" by (auto simp: drop_node_def)
      then have "run_inv N T R (pn_id ` set (drop_node ?i ps)) S (update_task (pn_task p) f st1)"
        using quiet_inv[OF quiet_update[OF rf] fn(1)] by simp
      from Cons.IH[OF s(2) this] fn(2) show ?thesis by (simp add: frame_def)
    next
      case False
      with Cons.prems(1) p Some have "approval_gate E w k committed nodes ps st = Inr (Some pz, active, st')" by (simp add: Let_def)
      from Cons.IH[OF this Cons.prems(2)] show ?thesis by simp
    qed
  next
    case None
    obtain d where d: "mark_pending (ss_dag st) ?i = Inr d"
      using Cons.prems(1) p None by (auto simp: Let_def bindE_Inr_conv mapErr_Inr_conv)
    obtain h st1 where h: "save_pause E (pause_checkpoint E w p d) (st\<lparr>ss_dag := d\<rparr>) = (h, st1)"
      by (cases "save_pause E (pause_checkpoint E w p d) (st\<lparr>ss_dag := d\<rparr>)")
    define f where "f = (\<lambda>r::task_row. r\<lparr>tk_status := TsRunning, tk_error := None\<rparr>)"
    have rf: "row_update f" by (simp add: f_def)
    have ok: "dag_ok (ss_dag st)" using Cons.prems(2) by (simp add: run_inv_def graph_inv_def)
    note v = mark_pending_views[OF ok d]
    note set = run_inv_set[OF Cons.prems(2) i, of "st\<lparr>ss_dag := d\<rparr>" TsPending]
    have st: "run_inv N T R (pn_id ` set ps) S (st\<lparr>ss_dag := d\<rparr>)" "frame ?i st (st\<lparr>ss_dag := d\<rparr>)" using set v by simp_all
    have q: "quiet (st\<lparr>ss_dag := d\<rparr>) (update_task (pn_task p) f st1)" using quiet_trans[OF quiet_save[OF h] quiet_update[OF rf]] .
    have dag1: "ss_dag st1 = d" using quiet_save[OF h] by (simp add: quiet_def)
    consider (paused) r where "pz_node pz = ?i" "st' = pause_state E k p r committed st1"
      | (go) "approval_gate E w k committed nodes ps (update_task (pn_task p) f st1) = Inr (Some pz, active, st')"
      using Cons.prems(1) p None d h by (auto simp: Let_def f_def split: gate_answer.splits if_splits)
    then show ?thesis
    proof cases
      case (paused r)
      have dag: "ss_dag st' = d" using paused(2) dag1 by (simp add: pause_state_def Let_def)
      have "exec_inv d" using st(1) by (simp add: run_inv_def graph_inv_def exec_inv_statuses)
      then show ?thesis using v(4) paused(1) by (simp add: dag)
    next
      case go
      from Cons.IH[OF go quiet_inv[OF q st(1)]] st(2) q show ?thesis by (simp add: frame_def quiet_def)
    qed
  qed
qed simp

lemma funded_some: "\<exists>N T. funded N T {} st"
proof -
  have l: "load st i \<le> Suc max_retries_per_task" for i using load_attempts attempts_bounds(2) le_trans by blast
  show ?thesis
    using l unfolding funded_def
    by (intro exI[of _ "length (dag_ids (ss_dag st)) + (max_replans - ss_replans st)"]
      exI[of _ "sum_list (map (\<lambda>_. Suc max_retries_per_task) (dag_ids (ss_dag st))) + Suc max_retries_per_task * (max_replans - ss_replans st)"]
      conjI exI[of _ "\<lambda>_. Suc max_retries_per_task"]) auto
qed

lemma prepared_batch:
  assumes x: "exec_inv (ss_dag st)" and ready: "get_ready_nodes (ss_dag st) = Inr ready" "ready \<noteq> []"
    and p: "prepare_nodes E w agents k ready st = Inr (ps, st1)"
  shows "\<exists>N T R S. run_inv N T R (pn_id ` set ps) S st1" "\<forall>p \<in> set ps. prepared_ok st1 p" "distinct (map pn_id ps)"
proof -
  define R where "R = dn_id ` set ready"
  define S where "S = {i. dag_status (ss_dag st) i = Some TsRunning}"
  obtain N T where f: "funded N T {} st" using funded_some by blast
  have g: "graph_inv {} {} S (ss_dag st)" using x by (auto simp: exec_inv_statuses graph_inv_def S_def)
  note gr = graph_inv_ready[OF g ready(1), folded R_def]
  have "distinct (dag_ids (ss_dag st))" using g by (simp add: graph_inv_def dag_ok_def dag_ids_def)
  moreover have "R \<noteq> {}" using ready(2) by (simp add: R_def)
  ultimately have "funded N (T - 1) R st" using funded_start[OF f] gr(3) by auto
  then have i0: "run_inv N (T - 1) R R S st" using gr(1) by (simp add: run_inv_def)
  note pn = prepare_nodes_inv[OF p i0 _ gr(2)]
  have "R - (dn_id ` set ready - pn_id ` set ps) = pn_id ` set ps" using pn by (auto simp: R_def pn_id_def)
  then show "\<exists>N T R S. run_inv N T R (pn_id ` set ps) S st1" "\<forall>p \<in> set ps. prepared_ok st1 p" "distinct (map pn_id ps)"
    using pn by (auto simp: R_def)
qed

lemma policy_escalated:
  assumes "policy_evaluate_nodes E w k ps st = (kept, escalated, st')"
  shows "set escalated \<subseteq> set ps"
proof -
  have "policy_nodes E w k ps st = (kept, escalated, st') \<Longrightarrow> set escalated \<subseteq> set ps" for st kept escalated
  proof (induction ps arbitrary: st kept escalated)
    case (Cons p ps)
    obtain d zs where d: "node_decision E w k p (ss_zsets st) = (d, zs)" by (cases "node_decision E w k p (ss_zsets st)")
    have "\<exists>kept1 esc1 st1. policy_nodes E w k ps st1 = (kept1, esc1, st') \<and> set escalated \<subseteq> insert p (set esc1)"
      using Cons.prems d by (auto simp: Let_def split: prod.splits if_splits; blast)
    then obtain kept1 esc1 st1 where "policy_nodes E w k ps st1 = (kept1, esc1, st')" "set escalated \<subseteq> insert p (set esc1)" by blast
    with Cons.IH show ?case by fastforce
  qed simp
  with assms show ?thesis by (auto simp: policy_evaluate_nodes_def split: if_splits)
qed


section \<open>A policy denial\<close>

lemma approval_gate_needs: "approval_gate E w k committed nodes ps st = Inr (None, active, st') \<Longrightarrow> dn_id ` set nodes \<subseteq> pn_id ` set ps"
proof (induction nodes arbitrary: ps st)
  case (Cons node nodes)
  obtain p where p: "lookup_by pn_id (dn_id node) ps = Some p" using Cons.prems by (auto simp: Let_def split: option.splits)
  have sub: "set (drop_node (dn_id node) ps) \<subseteq> set ps" by (auto simp: drop_node_def)
  have "\<exists>ps' st1. set ps' \<subseteq> set ps \<and> approval_gate E w k committed nodes ps' st1 = Inr (None, active, st')"
  proof (cases "se_federated E k (dn_id node)")
    case (Some fd)
    show ?thesis
    proof (cases "fd_status fd = ''denied''")
      case True
      then obtain st1 where "approval_gate E w k committed nodes (drop_node (dn_id node) ps) st1 = Inr (None, active, st')"
        using Cons.prems p Some by (auto simp: Let_def bindE_Inr_conv)
      with sub show ?thesis by blast
    qed (use Cons.prems p Some in \<open>auto simp: Let_def\<close>)
  next
    case None
    obtain d where d: "mark_pending (ss_dag st) (dn_id node) = Inr d"
      using Cons.prems p None by (auto simp: Let_def bindE_Inr_conv mapErr_Inr_conv)
    obtain h st1 where h: "save_pause E (pause_checkpoint E w p d) (st\<lparr>ss_dag := d\<rparr>) = (h, st1)"
      by (cases "save_pause E (pause_checkpoint E w p d) (st\<lparr>ss_dag := d\<rparr>)")
    define st2 where "st2 = update_task (pn_task p) (\<lambda>r. r\<lparr>tk_status := TsRunning, tk_error := None\<rparr>) st1"
    have "approval_gate E w k committed nodes ps st2 = Inr (None, active, st')"
      using Cons.prems p None d h by (auto simp: Let_def st2_def split: gate_answer.splits if_splits)
    then show ?thesis by blast
  qed
  then have "dn_id ` set nodes \<subseteq> pn_id ` set ps" using Cons.IH by blast
  with lookup_pn[OF p] show ?case by simp
qed simp

text \<open>A policy that denies a node with a high-risk capability breaks the batch: the denial removes the
  node from the contexts, but the approval gate still looks it up there, so the batch never
  completes; it pauses for another node or ends the run with an exception.\<close>

theorem denied_high_risk_breaks_batch:
  assumes "prepare_nodes E w agents k ready st = Inr (ps, st1)" and "policy_evaluate_nodes E w k ps st1 = (kept, escalated, st2)"
    and "p \<in> set ps" and "pn_id p \<notin> pn_id ` set kept" and "dn_capability (pn_node p) \<in> set high_risk_capabilities"
  shows "run_batch E w agents k ready st \<noteq> Inr (None, st')"
proof
  assume "run_batch E w agents k ready st = Inr (None, st')"
  note b = this[unfolded run_batch_def assms(1) bindE_simps assms(2) Let_def case_prod_conv]
  obtain q active st3 where gate: "approval_gate E w k (ss_tasks st2) (needing_approval (map pn_node ps) escalated) kept st2 = Inr (q, active, st3)"
    using b unfolding bindE_Inr_conv by auto
  have "q = None" using b unfolding gate bindE_simps case_prod_conv by (cases q) auto
  from approval_gate_needs[OF gate[unfolded this]]
  have "dn_id ` set (needing_approval (map pn_node ps) escalated) \<subseteq> pn_id ` set kept" .
  moreover have "pn_node p \<in> set (needing_approval (map pn_node ps) escalated)"
    using assms(3,5) by (simp add: needing_approval_def Let_def)
  ultimately show False using assms(4) by (auto simp: pn_id_def)
qed

end
