(* ===== verification/Scheduler_Demo.thy ===== *)
theory Scheduler_Demo
  imports Scheduler_Gates
begin

text \<open>
  Concrete runs of the scheduler, at which the theorems on runs apply: a batch of two independent nodes,
  one of which needs approval, and workflows that end at once.
\<close>

section \<open>The environment\<close>

definition demo_sched :: "(policy_context, zstore) registry \<Rightarrow> sched_env" where
  "demo_sched rules = \<lparr>se_wallet = demo_wallet_env, se_rules = rules, se_policy_now = (\<lambda>_. 0), se_render = (\<lambda>_. []),
     se_new_task = (\<lambda>rows. of_nat (length rows)), se_context = (\<lambda>_ _. Inr ''none''), se_federated = (\<lambda>_ _. None),
     se_clock = demo_clock, se_save = (\<lambda>_. Some ''h''), se_gate = (\<lambda>_ _ _. GateAnswer ''req'' (Some ''pending'')),
     se_status_commit = (\<lambda>_ _. True), se_agent_prompt = (\<lambda>_. []), se_agent_name = (\<lambda>_. ''agent''),
     se_tool_schemas = (\<lambda>_. False), se_max_iterations = 5, se_cache_row = (\<lambda>_ _. None), se_tools = (\<lambda>_ _. demo_tool_env),
     se_invalid_content = ''invalid content'', se_write_memory = (\<lambda>_ _. None), se_record_trust = (\<lambda>_ _ _. None),
     se_consensus = (\<lambda>_ _. None), se_request_review = (\<lambda>_ _. False), se_reflect = (\<lambda>_ _. None),
     se_synthesize = (\<lambda>_. Inr [])\<rparr>"

definition demo_risky :: dag_node where
  "demo_risky = (demo_node ''risk'' [])\<lparr>dn_capability := ''risk-assessment''\<rparr>"

definition demo_pair :: "dag_node list" where
  "demo_pair = [demo_node ''scan'' [], demo_risky]"

definition demo_hold :: "string \<Rightarrow> wallet_event" where
  "demo_hold i = demo_reserve\<lparr>we_id := (if i = ''scan'' then 0 else 1), we_key := Some (reserve_key 1 i)\<rparr>"

definition demo_billed :: wallet_event where
  "demo_billed = demo_reserve\<lparr>we_id := 2, we_action := DEBIT, we_key := Some (charge_key 1 ''scan'')\<rparr>"

definition demo_state :: "dag \<Rightarrow> task_row list \<Rightarrow> sched_state" where
  "demo_state d rows = \<lparr>ss_dag = d, ss_tasks = rows, ss_wallet = demo_wallet [demo_hold ''scan'', demo_hold ''risk'', demo_billed],
     ss_zsets = [], ss_status = WfRunning, ss_result = None, ss_snapshot = [], ss_replans = 0, ss_memory = [],
     ss_checkpoints = [], ss_cache = []\<rparr>"

definition demo_agents :: "(string \<times> agent_row) list" where
  "demo_agents = [(''scan'', demo_agent), (''risk'', demo_agent)]"

lemma demo_pair_facts:
  "distinct (map dn_id demo_pair)" "\<forall>n \<in> set demo_pair. dn_status n \<in> {TsPending, TsTodo}"
  by (simp_all add: demo_pair_def demo_node_def demo_risky_def)

lemma demo_pair_dag: "make_dag demo_pair = Inr (raw_dag demo_pair)"
proof -
  have "dag_validate (raw_dag demo_pair) = Inr ()" by code_simp
  then show ?thesis by (simp add: make_dag_def Let_def)
qed

lemma demo_pair_ok: "dag_ok (raw_dag demo_pair)" "dag_nodes (raw_dag demo_pair) = demo_pair" "exec_inv (raw_dag demo_pair)"
  using make_dag_ok[OF demo_pair_facts(1) demo_pair_dag] fresh_exec_inv(1)[OF demo_pair_facts(1) demo_pair_dag demo_pair_facts(2)]
  by simp_all

lemma demo_keys: "i \<noteq> j \<Longrightarrow> reserve_key w i \<noteq> reserve_key w j"
  by (simp add: reserve_key_def)

section \<open>A batch that pauses\<close>

definition demo_row :: "uuid \<Rightarrow> dag_node \<Rightarrow> task_row" where
  "demo_row t n = \<lparr>tk_id = t, tk_workflow = 1, tk_agent = Some 7, tk_step = step_number (dn_id n),
     tk_capability = dn_capability n, tk_description = dn_description n, tk_status = TsRunning, tk_error = None,
     tk_output = None, tk_confidence = None, tk_cost = 0, tk_latency = None, tk_retries = 0\<rparr>"

definition demo_prepared :: "uuid \<Rightarrow> dag_node \<Rightarrow> prepared" where
  "demo_prepared t n = \<lparr>pn_node = n, pn_task = t, pn_agent = demo_agent, pn_context = ''none'',
     pn_reservation = demo_hold (dn_id n)\<rparr>"

definition demo_graph :: "dag_node \<Rightarrow> dag_node \<Rightarrow> dag" where
  "demo_graph a b = (raw_dag demo_pair)\<lparr>dag_nodes := [a, b]\<rparr>"

definition demo_scan :: dag_node where
  "demo_scan = (demo_node ''scan'' [])\<lparr>dn_status := TsRunning, dn_task := Some 0\<rparr>"

lemma demo_graph_nodes [simp]: "dag_nodes (demo_graph a b) = [a, b]" "(demo_graph a b)\<lparr>dag_nodes := [a', b']\<rparr> = demo_graph a' b'"
  by (simp_all add: demo_graph_def)

lemma demo_pair_graph: "raw_dag demo_pair = demo_graph (demo_node ''scan'' []) demo_risky"
  using demo_pair_ok(2) by (cases "raw_dag demo_pair") (simp add: demo_graph_def demo_pair_def)

lemma demo_sched_fields [simp]:
  "se_wallet (demo_sched rules) = demo_wallet_env" "se_rules (demo_sched rules) = rules" "se_max_iterations (demo_sched rules) = 5"
  "se_new_task (demo_sched rules) rows = of_nat (length rows)" "se_context (demo_sched rules) k i = Inr ''none''"
  "se_federated (demo_sched rules) k i = None" "se_gate (demo_sched rules) k i h = GateAnswer ''req'' (Some ''pending'')"
  "se_save (demo_sched rules) cp = Some ''h''" "se_synthesize (demo_sched rules) d = Inr []"
  "se_write_memory (demo_sched rules) k i = None" "se_record_trust (demo_sched rules) k i ts = None" "se_reflect (demo_sched rules) k i = None"
  by (simp_all add: demo_sched_def)

lemma demo_state_fields [simp]:
  "ss_dag (demo_state d rows) = d" "ss_tasks (demo_state d rows) = rows" "(demo_state d rows)\<lparr>ss_dag := d'\<rparr> = demo_state d' rows"
  "(demo_state d rows)\<lparr>ss_tasks := rows'\<rparr> = demo_state d rows'" "ss_replans (demo_state d rows) = 0"
  "ss_wallet (demo_state d rows) = demo_wallet [demo_hold ''scan'', demo_hold ''risk'', demo_billed]"
  "(demo_state d rows)\<lparr>ss_wallet := demo_wallet [demo_hold ''scan'', demo_hold ''risk'', demo_billed]\<rparr> = demo_state d rows"
  by (simp_all add: demo_state_def)

lemma demo_reserve_replay:
  assumes "i \<in> {''scan'', ''risk''}"
  shows "reserve_budget demo_wallet_env 1 7 (estimate_node_cost 5 node agent) reason (Some (reserve_key 1 i))
      (demo_wallet [demo_hold ''scan'', demo_hold ''risk'', demo_billed])
    = Inr (demo_hold i, demo_wallet [demo_hold ''scan'', demo_hold ''risk'', demo_billed])"
proof -
  have "\<not> estimate_node_cost 5 node agent \<le> 0" using estimate_positive[of 5 node agent] by simp
  moreover have "replay (ws_db (demo_wallet [demo_hold ''scan'', demo_hold ''risk'', demo_billed])) (Some (reserve_key 1 i)) = Some (demo_hold i)"
  proof -
    have "reserve_key 1 i \<noteq> []" by (simp add: reserve_key_def)
    moreover have "reserve_key 1 ''scan'' \<noteq> reserve_key 1 ''risk''" by (rule demo_keys) simp
    ultimately show ?thesis
      using assms by (auto simp: replay_def find_by_key_def demo_wallet_def demo_wallet_db_def demo_hold_def)
  qed
  ultimately show ?thesis by (simp add: reserve_budget_def)
qed

lemma demo_node_fields [simp]:
  "dn_id (demo_node i deps) = i" "dn_task (demo_node i deps) = None" "dn_id demo_risky = ''risk''" "dn_task demo_risky = None"
  "dn_capability (demo_node i deps) = ''search''" "dn_capability demo_risky = ''risk-assessment''" "ag_id demo_agent = 7"
  "dn_status (demo_node i deps) = TsPending" "dn_status demo_risky = TsPending"
  "dn_depends_on (demo_node i deps) = deps" "dn_depends_on demo_risky = []"
  by (simp_all add: demo_node_def demo_risky_def demo_agent_def)

lemma demo_prepared_fields [simp]:
  "pn_id (demo_prepared t n) = dn_id n" "pn_node (demo_prepared t n) = n" "pn_task (demo_prepared t n) = t"
  by (simp_all add: demo_prepared_def pn_id_def)

lemmas demo_eval = prepare_node_def Let_def demo_agents_def demo_reserve_replay mark_running_def mark_pending_def get_node_def
  set_node_def upsert_task_row_def

lemma demo_prepare:
  "prepare_nodes (demo_sched rules) 1 demo_agents k demo_pair (demo_state (raw_dag demo_pair) [])
     = Inr ([demo_prepared 0 (demo_node ''scan'' []), demo_prepared 1 demo_risky],
            demo_state (demo_graph demo_scan (demo_risky\<lparr>dn_status := TsRunning, dn_task := Some 1\<rparr>))
              [demo_row 0 (demo_node ''scan'' []), demo_row 1 demo_risky])"
proof -
  have 1: "prepare_node (demo_sched rules) 1 demo_agents k (demo_node ''scan'' []) (demo_state (demo_graph (demo_node ''scan'' []) demo_risky) [])
      = Inr (Some (demo_prepared 0 (demo_node ''scan'' [])),
             demo_state (demo_graph demo_scan demo_risky) [demo_row 0 (demo_node ''scan'' [])])"
    by (simp add: demo_eval demo_scan_def demo_prepared_def demo_row_def)
  have 2: "prepare_node (demo_sched rules) 1 demo_agents k demo_risky (demo_state (demo_graph demo_scan demo_risky) [demo_row 0 (demo_node ''scan'' [])])
      = Inr (Some (demo_prepared 1 demo_risky),
             demo_state (demo_graph demo_scan (demo_risky\<lparr>dn_status := TsRunning, dn_task := Some 1\<rparr>))
              [demo_row 0 (demo_node ''scan'' []), demo_row 1 demo_risky])"
    by (simp add: demo_eval demo_scan_def demo_prepared_def demo_row_def)
  show ?thesis unfolding demo_pair_graph by (simp add: demo_pair_def 1 2)
qed

definition demo_paused :: sched_state where
  "demo_paused = (case run_batch (demo_sched []) 1 demo_agents 2 demo_pair (demo_state (raw_dag demo_pair) []) of
     Inr (_, st) \<Rightarrow> st | Inl _ \<Rightarrow> demo_state (raw_dag demo_pair) [])"

lemma demo_pause:
  "run_batch (demo_sched []) 1 demo_agents 2 demo_pair (demo_state (raw_dag demo_pair) [])
     = Inr (Some \<lparr>pz_node = ''risk'', pz_request = ''req'', pz_checkpoint = Some ''h''\<rparr>, demo_paused)"
proof -
  let ?ps = "[demo_prepared 0 (demo_node ''scan'' []), demo_prepared 1 demo_risky]"
  let ?st = "demo_state (demo_graph demo_scan (demo_risky\<lparr>dn_status := TsRunning, dn_task := Some 1\<rparr>))
              [demo_row 0 (demo_node ''scan'' []), demo_row 1 demo_risky]"
  have need: "needing_approval [demo_node ''scan'' [], demo_risky] [] = [demo_risky]"
    by (simp add: needing_approval_def Let_def high_risk_capabilities_def)
  have "\<exists>st. approval_gate (demo_sched []) 1 2 (ss_tasks ?st) [demo_risky] ?ps ?st
      = Inr (Some \<lparr>pz_node = ''risk'', pz_request = ''req'', pz_checkpoint = Some ''h''\<rparr>, ?ps, st)"
    by (simp add: Let_def mark_pending_def get_node_def demo_scan_def save_pause_def split: prod.splits)
  then obtain st where "approval_gate (demo_sched []) 1 2 (ss_tasks ?st) [demo_risky] ?ps ?st
      = Inr (Some \<lparr>pz_node = ''risk'', pz_request = ''req'', pz_checkpoint = Some ''h''\<rparr>, ?ps, st)" ..
  then show ?thesis
    by (simp add: demo_paused_def run_batch_def demo_prepare policy_evaluate_nodes_def registry_all_def need)
qed

lemma demo_pair_ready: "get_ready_nodes (raw_dag demo_pair) = Inr demo_pair"
  using get_ready_nodes_conv[OF demo_pair_ok(1)] by (simp add: demo_pair_ok(2)) (simp add: demo_pair_def is_ready_def)


section \<open>Runs that end\<close>

definition demo_stuck :: dag where
  "demo_stuck = raw_dag [(demo_node ''scan'' [])\<lparr>dn_status := TsRunning\<rparr>, (demo_node ''draft'' [])\<lparr>dn_status := TsCompleted\<rparr>]"

lemma demo_run_fails:
  "case execute_workflow (demo_sched []) 1 [] (demo_state (raw_dag demo_nodes) []) of
     Inr (RunFinished st) \<Rightarrow> ss_status st = WfFailed | _ \<Rightarrow> False"
  by code_simp

lemma demo_run_stuck:
  "case execute_workflow (demo_sched []) 1 [] (demo_state demo_stuck []) of
     Inr (RunFinished st) \<Rightarrow> ss_status st = WfCompleted | _ \<Rightarrow> False"
  by code_simp

lemma demo_nodes_exec_inv: "exec_inv (raw_dag demo_nodes)"
  by (rule fresh_exec_inv(1)[OF demo_nodes_facts(1) demo_dag demo_nodes_facts(2)])

lemma demo_stuck_inv: "exec_inv demo_stuck" "dag_status demo_stuck ''scan'' = Some TsRunning"
proof -
  let ?ns = "[(demo_node ''scan'' [])\<lparr>dn_status := TsRunning\<rparr>, (demo_node ''draft'' [])\<lparr>dn_status := TsCompleted\<rparr>]"
  have d: "distinct (map dn_id ?ns)" by simp
  have "dag_validate (raw_dag ?ns) = Inr ()" by code_simp
  then have "make_dag ?ns = Inr demo_stuck" by (simp add: make_dag_def Let_def demo_stuck_def)
  note ok = make_dag_ok[OF d this]
  have "fail_closed demo_stuck" by (auto simp: fail_closed_def dep_edges_def ok(2))
  then show "exec_inv demo_stuck" using ok(1) by (simp add: exec_inv_def ok(2))
  show "dag_status demo_stuck ''scan'' = Some TsRunning" by (simp add: dag_status_def ok(2))
qed

theorem never_runaway_witness:
  "exec_inv (raw_dag demo_nodes)
     \<and> (\<forall>st'. execute_workflow (demo_sched []) 1 [] (demo_state (raw_dag demo_nodes) []) \<noteq> Inr (RunRunaway st'))"
proof -
  have x: "exec_inv (ss_dag (demo_state (raw_dag demo_nodes) []))" using demo_nodes_exec_inv by simp
  show ?thesis using never_runaway[OF x] demo_nodes_exec_inv by blast
qed


theorem running_node_abandoned_witness:
  "\<exists>st'. execute_workflow (demo_sched []) 1 [] (demo_state demo_stuck []) = Inr (RunFinished st')
     \<and> ss_status st' = WfCompleted \<and> dag_status (ss_dag st') ''scan'' = Some TsRunning"
proof -
  obtain st' where st': "execute_workflow (demo_sched []) 1 [] (demo_state demo_stuck []) = Inr (RunFinished st')"
      "ss_status st' = WfCompleted"
    using demo_run_stuck by (auto split: sum.splits run_end.splits)
  have x: "exec_inv (ss_dag (demo_state demo_stuck []))" "dag_status (ss_dag (demo_state demo_stuck [])) ''scan'' = Some TsRunning"
    using demo_stuck_inv by simp_all
  show ?thesis using running_node_abandoned[OF x st'(1)] st' by blast
qed

lemma demo_books: "state_ok (demo_wallet [demo_hold ''scan'', demo_hold ''risk'', demo_billed])"
  by (simp add: state_ok_def wallet_ok_def event_ok_def keys_unique_def on_grid_def demo_wallet_defs demo_hold_def demo_billed_def
      reserve_key_def charge_key_def)

theorem run_keeps_books_witness:
  "\<exists>r. execute_workflow (demo_sched []) 1 [] (demo_state (raw_dag demo_nodes) []) = Inr r \<and> session_ok (ss_wallet (end_state r))"
proof -
  obtain st' where st': "execute_workflow (demo_sched []) 1 [] (demo_state (raw_dag demo_nodes) []) = Inr (RunFinished st')"
    using demo_run_fails by (auto split: sum.splits run_end.splits)
  have w: "wn_race (se_wallet (demo_sched [])) = (\<lambda>_. [])" "session_ok (ss_wallet (demo_state (raw_dag demo_nodes) []))"
    using demo_books by (simp_all add: demo_wallet_env_def session_ok_def demo_wallet_defs)
  show ?thesis using run_keeps_books[OF st' w] st' by blast
qed

text \<open>A second attempt of a node that has been billed.\<close>

lemma demo_billed_replay:
  "replay (ws_db (demo_wallet [demo_hold ''scan'', demo_hold ''risk'', demo_billed])) (Some (charge_key 1 ''scan'')) = Some demo_billed"
  by (simp add: replay_def find_by_key_def demo_wallet_defs demo_hold_def demo_billed_def reserve_key_def charge_key_def)

lemma demo_second_attempt:
  "\<exists>st'. process_result (demo_sched []) 1 3 (demo_prepared 0 (demo_node ''scan'' [])) (Inr (demo_response ''done'' (1 / 50) [], None))
     (demo_state (demo_graph demo_scan demo_risky) [demo_row 0 (demo_node ''scan'' [])]) = Inr st'"
proof -
  let ?p = "demo_prepared 0 (demo_node ''scan'' [])" and ?resp = "demo_response ''done'' (1 / 50) []"
  have same: "s\<lparr>ss_wallet := ss_wallet s\<rparr> = s" for s :: sched_state by simp
  have ch: "charge demo_wallet_env 1 a c r reason (Some (charge_key 1 ''scan'')) (demo_wallet [demo_hold ''scan'', demo_hold ''risk'', demo_billed])
      = Inr (demo_billed, demo_wallet [demo_hold ''scan'', demo_hold ''risk'', demo_billed])" for a c r reason
    by (simp add: charge_def demo_billed_replay)
  have wr: "write_result (demo_sched []) 3 ''scan'' (lr_content ?resp) = None"
    by (simp add: write_result_def demo_response_def py_len_def)
  have mc: "\<exists>d ready. mark_completed (demo_graph demo_scan demo_risky) ''scan'' out = Inr (d, ready)" for out
    by (simp add: mark_completed_def get_node_def demo_scan_def set_node_def Let_def get_ready_nodes_def node_ready_def)
  obtain d ready where d: "mark_completed (demo_graph demo_scan demo_risky) ''scan'' (Some (lr_content ?resp)) = Inr (d, ready)" using mc by blast
  show ?thesis
    by (simp add: process_result_def Let_def ch settle_result_def wr d reflect_on_task_def)
qed

theorem retry_not_charged_witness:
  "\<exists>st'. process_result (demo_sched []) 1 3 (demo_prepared 0 (demo_node ''scan'' [])) (Inr (demo_response ''done'' (1 / 50) [], None))
     (demo_state (demo_graph demo_scan demo_risky) [demo_row 0 (demo_node ''scan'' [])]) = Inr st'
     \<and> ss_wallet st' = demo_wallet [demo_hold ''scan'', demo_hold ''risk'', demo_billed]"
proof -
  let ?st = "demo_state (demo_graph demo_scan demo_risky) [demo_row 0 (demo_node ''scan'' [])]"
  obtain st' where st': "process_result (demo_sched []) 1 3 (demo_prepared 0 (demo_node ''scan'' [])) (Inr (demo_response ''done'' (1 / 50) [], None)) ?st = Inr st'"
    using demo_second_attempt by blast
  have "replay (ws_db (ss_wallet ?st)) (Some (charge_key 1 (pn_id (demo_prepared 0 (demo_node ''scan'' []))))) = Some demo_billed"
    by (simp add: demo_billed_replay)
  from retry_not_charged[OF this st'] st' show ?thesis by auto
qed

definition demo_deny :: "(policy_context, zstore) registry" where
  "demo_deny = [\<lparr>re_rule_id = ''freeze'', re_description = [], re_function = (\<lambda>ctx zs. (Verdict (dec_deny (Some ''freeze'') [] []), zs)),
     re_priority = 0, re_enabled = True, re_tags = []\<rparr>]"

theorem denied_high_risk_breaks_batch_witness:
  "\<forall>st'. run_batch (demo_sched demo_deny) 1 demo_agents 2 demo_pair (demo_state (raw_dag demo_pair) []) \<noteq> Inr (None, st')"
proof -
  let ?ps = "[demo_prepared 0 (demo_node ''scan'' []), demo_prepared 1 demo_risky]"
  let ?st = "demo_state (demo_graph demo_scan (demo_risky\<lparr>dn_status := TsRunning, dn_task := Some 1\<rparr>))
              [demo_row 0 (demo_node ''scan'' []), demo_row 1 demo_risky]"
  have ne: "demo_deny \<noteq> []" by (simp add: demo_deny_def)
  have reg: "registry_all False demo_deny = demo_deny" by (simp add: registry_all_def demo_deny_def)
  have deny: "de_action (fst (node_decision (demo_sched demo_deny) 1 2 p zs)) = DecDeny" for p zs
    by (simp add: node_decision_def evaluate_def reg) (simp add: demo_deny_def to_decision_def aggregate_def dec_deny_def won_by_def Let_def)
  have empty: "\<exists>st'. policy_nodes (demo_sched demo_deny) 1 2 ps st = ([], [], st')" for ps st
  proof (induction ps arbitrary: st)
    case (Cons p ps)
    obtain d zs where d: "node_decision (demo_sched demo_deny) 1 2 p (ss_zsets st) = (d, zs)"
      by (cases "node_decision (demo_sched demo_deny) 1 2 p (ss_zsets st)")
    have "de_action d = DecDeny" using deny[of p "ss_zsets st"] by (simp add: d)
    with Cons d show ?case by (simp add: Let_def)
  qed simp
  obtain st2 where st2: "policy_evaluate_nodes (demo_sched demo_deny) 1 2 ?ps ?st = ([], [], st2)"
    using empty[of ?ps ?st] by (auto simp: policy_evaluate_nodes_def reg ne simp del: policy_nodes.simps)
  show ?thesis
    using denied_high_risk_breaks_batch[OF demo_prepare st2, of "demo_prepared 1 demo_risky"] by (simp add: high_risk_capabilities_def)
qed

end
