(* ===== verification/Resume_Demo.thy ===== *)
theory Resume_Demo
  imports Resume Scheduler_Demo
begin

text \<open>
  Concrete checkpoints, and what restoring and resuming them gives.
\<close>

definition demo_step :: "string \<Rightarrow> task_status \<Rightarrow> string list \<Rightarrow> dag_node" where
  "demo_step i s deps = \<lparr>dn_id = i, dn_capability = ''analysis'', dn_description = ''look'', dn_depends_on = deps,
     dn_complexity = ''low'', dn_agent = None, dn_task = None, dn_status = s, dn_output = None, dn_error = None\<rparr>"

definition demo_resume :: resume_env where
  "demo_resume = \<lparr>rs_hash = (\<lambda>_. 7), rs_new_task = (\<lambda>rows. of_nat (length rows + 7)), rs_now = ''2026-04-19T09:00:00+00:00''\<rparr>"

definition demo_cp :: "dag_node list \<Rightarrow> checkpoint" where
  "demo_cp ns = (from_dag demo_clock 1 (raw_dag ns) ''awaiting_approval'' None [] None)\<lparr>cp_hash := Some ''zQ''\<rparr>"

definition two_steps :: "dag_node list" where
  "two_steps = [demo_step ''task-1'' TsCompleted [], demo_step ''task-2'' TsRunning [''task-1'']]"

definition with_alternative :: "dag_node list" where
  "with_alternative = [demo_step ''task-1'' TsCompleted [], demo_step ''task-1_alt'' TsPending []]"

abbreviation no_rows :: resume_db where "no_rows \<equiv> \<lparr>rd_flows = [], rd_tasks = []\<rparr>"

definition restored :: "dag_node list \<Rightarrow> resume_db \<Rightarrow> (resume_outcome \<times> resume_db) option" where
  "restored ns db = (case restore demo_resume (demo_cp ns) [] ''federation'' 100 db of Inl _ \<Rightarrow> None | Inr x \<Rightarrow> Some x)"

lemma restored_conv: "restored ns db = Some x \<longleftrightarrow> restore demo_resume (demo_cp ns) [] ''federation'' 100 db = Inr x"
  by (simp add: restored_def split: sum.splits)

lemma two_steps_restored:
  "(case restored two_steps no_rows of None \<Rightarrow> False
    | Some (r, db) \<Rightarrow> dag_nodes (ro_dag r) = two_steps \<and> map tk_status (rd_tasks db) = [TsCompleted, TsPending]
        \<and> map tk_id (rd_tasks db) = [7, 8] \<and> get_node (ro_dag r) ''task-2'' = Inr (demo_step ''task-2'' TsRunning [''task-1'']))"
  by code_simp

lemma two_steps_facts:
  "distinct (map (\<lambda>n. resume_step demo_resume (dn_id n)) two_steps)" "filter is_digit ''task-2'' \<noteq> []" "step_number ''task-2'' = 2"
  by code_simp+


theorem shared_step_never_settles_witness:
  "\<exists>r db r' db'. restored with_alternative no_rows = Some (r, db) \<and> restored with_alternative db = Some (r', db') \<and> ro_updated r' \<noteq> []"
proof -
  have "(case restored with_alternative no_rows of None \<Rightarrow> False | Some (r, db) \<Rightarrow> dag_nodes (ro_dag r) = with_alternative
      \<and> (case restored with_alternative db of None \<Rightarrow> False | Some _ \<Rightarrow> True))" by code_simp
  then obtain r db r' db' where r: "restored with_alternative no_rows = Some (r, db)" "dag_nodes (ro_dag r) = with_alternative"
      "restored with_alternative db = Some (r', db')"
    by (auto split: option.splits)
  have m: "demo_step ''task-1'' TsCompleted [] \<in> set (dag_nodes (ro_dag r))" "demo_step ''task-1_alt'' TsPending [] \<in> set (dag_nodes (ro_dag r))"
    by (simp_all add: r(2) with_alternative_def)
  have e: "resume_step demo_resume (dn_id (demo_step ''task-1'' TsCompleted [])) = resume_step demo_resume (dn_id (demo_step ''task-1_alt'' TsPending []))"
    "target_status (demo_cp with_alternative) (dn_id (demo_step ''task-1'' TsCompleted []))
       \<noteq> target_status (demo_cp with_alternative) (dn_id (demo_step ''task-1_alt'' TsPending []))"
    by code_simp+
  have d: "distinct (map tk_id (rd_tasks no_rows))" by simp
  from shared_step_never_settles[OF r(1)[unfolded restored_conv] d m e r(3)[unfolded restored_conv]] r show ?thesis by blast
qed

theorem restored_row_not_found_witness:
  "\<exists>r db st t st'. restored two_steps no_rows = Some (r, db) \<and> ss_dag st = ro_dag r \<and> ss_tasks st = rd_tasks db
     \<and> upsert_task_row (demo_sched []) 1 ''task-2'' 5 TsRunning None st = Inr (t, st')
     \<and> 2 \<le> length (filter (\<lambda>row. tk_workflow row = 1 \<and> tk_step row = 2) (ss_tasks st'))"
proof -
  obtain r db where r: "restored two_steps no_rows = Some (r, db)" "dag_nodes (ro_dag r) = two_steps" "map tk_id (rd_tasks db) = [7, 8]"
      "get_node (ro_dag r) ''task-2'' = Inr (demo_step ''task-2'' TsRunning [''task-1''])"
    using two_steps_restored by (auto split: option.splits)
  let ?n = "demo_step ''task-2'' TsRunning [''task-1'']"
  define st where "st = (demo_state (ro_dag r) [])\<lparr>ss_tasks := rd_tasks db\<rparr>"
  have st: "ss_dag st = ro_dag r" "ss_tasks st = rd_tasks db" by (simp_all add: st_def demo_state_def)
  have n: "?n \<in> set (dag_nodes (ro_dag r))" "dn_id ?n = ''task-2''" "dn_task ?n = None"
    by (simp add: r(2) two_steps_def) (simp_all add: demo_step_def)
  have ids: "tk_id ` set (rd_tasks db) = {7, 8}" using arg_cong[OF r(3), of set] by simp
  have len: "length (rd_tasks db) = 2" using arg_cong[OF r(3), of length] by simp
  have w: "cp_workflow (demo_cp two_steps) = 1" by (simp add: demo_cp_def from_dag_def)
  have new: "se_new_task (demo_sched []) (rd_tasks db) \<notin> {7, 8}" unfolding demo_sched_def using len by simp
  then obtain t st' where u: "upsert_task_row (demo_sched []) 1 ''task-2'' 5 TsRunning None st = Inr (t, st')"
    using r(4) by (auto simp: upsert_task_row_def st n(3) Let_def ids)
  have d: "distinct (map tk_id (rd_tasks no_rows))" by simp
  have ex: "filter is_digit (dn_id ?n) \<noteq> []" "get_node (ro_dag r) (dn_id ?n) = Inr ?n"
    using two_steps_facts(2) r(4) by (simp_all add: n(2))
  have "2 \<le> length (filter (\<lambda>row. tk_workflow row = 1 \<and> tk_step row = step_number ''task-2'') (ss_tasks st'))"
    using restored_row_not_found[OF r(1)[unfolded restored_conv] d n(1) ex _ st, unfolded n(2,3) w, OF _ u] by simp
  with r(1) st u show ?thesis unfolding two_steps_facts(3) by blast
qed

definition demo_record :: memory_record where
  "demo_record = \<lparr>mr_memory_id = 1, mr_workflow_id = Some 1, mr_source_agent_id = None, mr_memory_type = META, mr_content = [],
     mr_embedding = None, mr_metadata = metadata_for (demo_cp two_steps), mr_confidence = FFin 1, mr_freshness = 1, mr_version = 1,
     mr_parent_version_id = None, mr_author_did = None, mr_parent_hashes = [], mr_signature = None, mr_content_hash = Some ''zQ'',
     mr_record_state = ACTIVE, mr_expires_at = None\<rparr>"

definition demo_node_session :: db_session where
  "demo_node_session = demo_session\<lparr>sess_db := (sess_db demo_session)\<lparr>db_memory := [demo_record]\<rparr>\<rparr>"

definition demo_approved :: approval_world where
  "demo_approved = demo_world\<lparr>aw_keys := [\<lparr>ak_id = ''r1'', ak_payload = Stored (demo_request\<lparr>ar_status := ApApproved\<rparr>),
     ak_lapses = 1200 * second\<rparr>]\<rparr>"

theorem resume_needs_approval_witness:
  "\<exists>r db t. resume_workflow demo_api demo_resume demo_clock 0 1 ''zQ'' (Some ''r1'') demo_approved demo_node_session no_rows = Inr (r, db)
     \<and> merged_approval_status demo_api 0 ''r1'' demo_approved demo_node_session = Some t \<and> tw_status t = ''approved''"
proof -
  have "(case resume_workflow demo_api demo_resume demo_clock 0 1 ''zQ'' (Some ''r1'') demo_approved demo_node_session no_rows of
      Inl _ \<Rightarrow> False | Inr _ \<Rightarrow> True)" by code_simp
  then obtain r db where r: "resume_workflow demo_api demo_resume demo_clock 0 1 ''zQ'' (Some ''r1'') demo_approved demo_node_session no_rows = Inr (r, db)"
    by (auto split: sum.splits)
  from resume_needs_approval[OF this] r show ?thesis by blast
qed

end
