(* ===== verification/Agent_Facts.thy ===== *)
theory Agent_Facts
  imports Json_Canon Did
begin

text \<open>
  Models \<^verbatim>\<open>backend/app/identity/agent_facts.py\<close>: the AgentFacts document, its JSON form, the integrity
  credentials that sign it, and the builder.

  A field that is \<open>None\<close> is left out of the JSON form, but not inside the free-form dictionaries. The
  parameters are Ed25519, \<open>repr\<close> of a float and the text of the present time.
\<close>

section \<open>The document\<close>

type_synonym dict = "(string \<times> json) list"

record provider =
  pv_name :: string
  pv_url :: string
  pv_did :: "string option"

record endpoints =
  en_static :: "string list"
  en_adaptive :: "dict option"

record facts_capabilities =
  ca_modalities :: "string list"
  ca_auth_methods :: "string list"

record skill =
  sk_id :: string
  sk_description :: string
  sk_input_modes :: "string list"
  sk_output_modes :: "string list"
  sk_languages :: "string list option"
  sk_latency_ms :: "int option"
  sk_max_tokens :: "int option"

record certification =
  ce_level :: string
  ce_issuer :: "string option"
  ce_issued_at :: "string option"
  ce_valid_until :: "string option"

record telemetry_metrics =
  tm_throughput :: "pyfloat option"
  tm_availability :: "pyfloat option"
  tm_latency_p95 :: "pyfloat option"

record integrity_proof =
  ip_type :: string
  ip_cryptosuite :: string
  ip_created :: string
  ip_method :: string
  ip_purpose :: string
  ip_value :: string

record integrity_credential =
  ic_type :: "string list"
  ic_issuer :: string
  ic_issued :: string
  ic_proof :: integrity_proof

record facts_extensions =
  fx_examples :: "dict list"
  fx_error_schema :: "dict option"
  fx_limits :: "dict option"
  fx_handle :: "string option"

record agent_facts =
  af_id :: string
  af_name :: string
  af_label :: string
  af_description :: string
  af_version :: string
  af_provider :: provider
  af_endpoints :: endpoints
  af_capabilities :: facts_capabilities
  af_skills :: "skill list"
  af_documentation :: "string option"
  af_jurisdiction :: "string option"
  af_certification :: "certification option"
  af_telemetry :: "telemetry_metrics option"
  af_evaluations :: "dict list option"
  af_credentials :: "integrity_credential list"
  af_extensions :: "facts_extensions option"

definition integrity_cryptosuite :: string where "integrity_cryptosuite = ''eddsa-rdfc-2022''"
definition integrity_proof_type :: string where "integrity_proof_type = ''DataIntegrityProof''"
definition integrity_credential_type :: string where "integrity_credential_type = ''AgentFactsIntegrityCredential''"

section \<open>JSON form\<close>

definition opt_field :: "string \<Rightarrow> ('a \<Rightarrow> json) \<Rightarrow> 'a option \<Rightarrow> dict" where
  "opt_field k f v = (case v of None \<Rightarrow> [] | Some x \<Rightarrow> [(k, f x)])"

definition str_list :: "string list \<Rightarrow> json" where
  "str_list xs = JArr (map JStr xs)"

definition provider_json :: "provider \<Rightarrow> json" where
  "provider_json p = JObj ([(''name'', JStr (pv_name p)), (''url'', JStr (pv_url p))] @ opt_field ''did'' JStr (pv_did p))"

definition endpoints_json :: "endpoints \<Rightarrow> json" where
  "endpoints_json e = JObj ((''static'', str_list (en_static e)) # opt_field ''adaptive_resolver'' JObj (en_adaptive e))"

definition capabilities_json :: "facts_capabilities \<Rightarrow> json" where
  "capabilities_json c = JObj [(''modalities'', str_list (ca_modalities c)),
     (''authentication'', JObj [(''methods'', str_list (ca_auth_methods c))])]"

definition skill_json :: "skill \<Rightarrow> json" where
  "skill_json s = JObj ([(''id'', JStr (sk_id s)), (''description'', JStr (sk_description s)),
     (''inputModes'', str_list (sk_input_modes s)), (''outputModes'', str_list (sk_output_modes s))]
     @ opt_field ''supportedLanguages'' str_list (sk_languages s)
     @ opt_field ''latencyBudgetMs'' JInt (sk_latency_ms s) @ opt_field ''maxTokens'' JInt (sk_max_tokens s))"

definition certification_json :: "certification \<Rightarrow> json" where
  "certification_json c = JObj ((''level'', JStr (ce_level c)) # opt_field ''issuer'' JStr (ce_issuer c)
     @ opt_field ''issuedAt'' JStr (ce_issued_at c) @ opt_field ''validUntil'' JStr (ce_valid_until c))"

definition telemetry_json :: "telemetry_metrics \<Rightarrow> json" where
  "telemetry_json t = JObj [(''metrics'', JObj (opt_field ''throughput_rps'' JFloat (tm_throughput t)
     @ opt_field ''availability'' JFloat (tm_availability t) @ opt_field ''latency_p95_ms'' JFloat (tm_latency_p95 t)))]"

definition extensions_json :: "facts_extensions \<Rightarrow> json" where
  "extensions_json x = JObj ((''example_requests'', JArr (map JObj (fx_examples x)))
     # opt_field ''error_schema'' JObj (fx_error_schema x) @ opt_field ''limits'' JObj (fx_limits x)
     @ opt_field ''nanda_index_handle'' JStr (fx_handle x))"

definition proof_json :: "integrity_proof \<Rightarrow> json" where
  "proof_json p = JObj [(''type'', JStr (ip_type p)), (''cryptosuite'', JStr (ip_cryptosuite p)),
     (''created'', JStr (ip_created p)), (''verificationMethod'', JStr (ip_method p)),
     (''proofPurpose'', JStr (ip_purpose p)), (''proofValue'', JStr (ip_value p))]"

definition credential_json :: "integrity_credential \<Rightarrow> json" where
  "credential_json c = JObj [(''type'', str_list (ic_type c)), (''issuer'', JStr (ic_issuer c)),
     (''issued'', JStr (ic_issued c)), (''proof'', proof_json (ic_proof c))]"

definition facts_fields :: "agent_facts \<Rightarrow> dict" where
  "facts_fields d =
     [(''id'', JStr (af_id d)), (''agent_name'', JStr (af_name d)), (''label'', JStr (af_label d)),
      (''description'', JStr (af_description d)), (''version'', JStr (af_version d)),
      (''provider'', provider_json (af_provider d)), (''endpoints'', endpoints_json (af_endpoints d)),
      (''capabilities'', capabilities_json (af_capabilities d)), (''skills'', JArr (map skill_json (af_skills d)))]
     @ opt_field ''documentationUrl'' JStr (af_documentation d) @ opt_field ''jurisdiction'' JStr (af_jurisdiction d)
     @ opt_field ''certification'' certification_json (af_certification d)
     @ opt_field ''telemetry'' telemetry_json (af_telemetry d)
     @ opt_field ''evaluations'' (\<lambda>es. JArr (map JObj es)) (af_evaluations d)
     @ opt_field ''x-massclaw'' extensions_json (af_extensions d)"

definition to_document :: "agent_facts \<Rightarrow> json" where
  "to_document d = JObj (facts_fields d @ [(''verifiable_credentials'', JArr (map credential_json (af_credentials d)))])"

definition signable_body :: "agent_facts \<Rightarrow> json" where
  "signable_body d = JObj (facts_fields d)"

definition facts_bytes :: "(rat \<Rightarrow> string) \<Rightarrow> agent_facts \<Rightarrow> canon_error + bytes" where
  "facts_bytes fr d = canonicalize fr (signable_body d)"

section \<open>Integrity credentials\<close>

datatype facts_error = FactsDid did_error | FactsCanon canon_error | FactsSignature signature_error | NoCredentials

definition attach_integrity_credential ::
    "ed25519 \<Rightarrow> (rat \<Rightarrow> string) \<Rightarrow> string \<Rightarrow> keypair \<Rightarrow> agent_facts \<Rightarrow> facts_error + integrity_credential \<times> agent_facts" where
  "attach_integrity_credential ed fr now kp d =
     bindE (mapErr FactsDid (build_did_key (public_bytes kp))) (\<lambda>issuer_did.
     bindE (mapErr FactsCanon (facts_bytes fr d)) (\<lambda>payload.
     bindE (mapErr FactsSignature (sign_bytes ed payload (private_seed kp))) (\<lambda>signature.
       let cred = \<lparr>ic_type = [integrity_credential_type], ic_issuer = issuer_did, ic_issued = now,
             ic_proof = \<lparr>ip_type = integrity_proof_type, ip_cryptosuite = integrity_cryptosuite, ip_created = now,
               ip_method = issuer_did @ ''#ed25519'', ip_purpose = ''assertionMethod'',
               ip_value = encode_multibase signature\<rparr>\<rparr>
       in Inr (cred, d\<lparr>af_credentials := af_credentials d @ [cred]\<rparr>))))"

definition public_key_from_any_did :: "string \<Rightarrow> did_error + bytes" where
  "public_key_from_any_did did =
     bindE (parse_did did) (\<lambda>parsed.
       if did_method parsed = ''key'' then decode_did_key did
       else if did_method parsed = ''nanda'' then decode_did_nanda did
       else Inl (NeedsResolver (did_method parsed)))"

definition verification_did :: "integrity_credential \<Rightarrow> string" where
  "verification_did cred = hd (split_max 1 CHR ''#'' (ip_method (ic_proof cred)))"

definition verify_credential :: "ed25519 \<Rightarrow> (rat \<Rightarrow> string) \<Rightarrow> agent_facts \<Rightarrow> integrity_credential \<Rightarrow> facts_error + bool" where
  "verify_credential ed fr d cred =
     (if ip_type (ic_proof cred) \<noteq> integrity_proof_type then Inr False
      else if ip_cryptosuite (ic_proof cred) \<noteq> integrity_cryptosuite then Inr False
      else case (public_key_from_any_did (verification_did cred), decode_multibase (ip_value (ic_proof cred))) of
        (Inr issuer_pub, Inr signature) \<Rightarrow>
          bindE (mapErr FactsCanon (facts_bytes fr d)) (\<lambda>payload.
            mapErr FactsSignature (verify_bytes ed payload signature issuer_pub))
      | _ \<Rightarrow> Inr False)"

definition verify_integrity :: "ed25519 \<Rightarrow> (rat \<Rightarrow> string) \<Rightarrow> agent_facts \<Rightarrow> integrity_credential option \<Rightarrow> facts_error + bool" where
  "verify_integrity ed fr d credential =
     (case credential of
        Some cred \<Rightarrow> verify_credential ed fr d cred
      | None \<Rightarrow> (case af_credentials d of [] \<Rightarrow> Inl NoCredentials | cred # _ \<Rightarrow> verify_credential ed fr d cred))"

section \<open>The builder\<close>

record facts_builder =
  fb_id :: string
  fb_label :: string
  fb_description :: string
  fb_version :: string
  fb_provider_name :: string
  fb_provider_url :: string
  fb_provider_did :: "string option"
  fb_static :: "string list"
  fb_adaptive :: "dict option"
  fb_modalities :: "string list"
  fb_auth_methods :: "string list"
  fb_skills :: "skill list"
  fb_documentation :: "string option"
  fb_jurisdiction :: "string option"
  fb_certification :: "certification option"
  fb_telemetry :: "telemetry_metrics option"
  fb_extensions :: "facts_extensions option"

definition facts_builder :: "string \<Rightarrow> string \<Rightarrow> string \<Rightarrow> string \<Rightarrow> string \<Rightarrow> string \<Rightarrow> facts_builder" where
  "facts_builder i lbl descr version name url =
     \<lparr>fb_id = i, fb_label = lbl, fb_description = descr, fb_version = version, fb_provider_name = name,
      fb_provider_url = url, fb_provider_did = None, fb_static = [], fb_adaptive = None, fb_modalities = [],
      fb_auth_methods = [], fb_skills = [], fb_documentation = None, fb_jurisdiction = None, fb_certification = None,
      fb_telemetry = None, fb_extensions = None\<rparr>"

definition with_provider_did :: "string \<Rightarrow> facts_builder \<Rightarrow> did_error + facts_builder" where
  "with_provider_did did b = bindE (parse_did did) (\<lambda>_. Inr (b\<lparr>fb_provider_did := Some did\<rparr>))"

definition with_endpoint :: "string \<Rightarrow> facts_builder \<Rightarrow> facts_builder" where
  "with_endpoint url b = b\<lparr>fb_static := fb_static b @ [url]\<rparr>"

definition with_endpoints :: "string list \<Rightarrow> facts_builder \<Rightarrow> facts_builder" where
  "with_endpoints urls b = b\<lparr>fb_static := urls\<rparr>"

definition with_adaptive_endpoints :: "string \<Rightarrow> string list option \<Rightarrow> facts_builder \<Rightarrow> facts_builder" where
  "with_adaptive_endpoints url policies b =
     b\<lparr>fb_adaptive := Some ((''url'', JStr url)
        # (case policies of None \<Rightarrow> [] | Some ps \<Rightarrow> if ps = [] then [] else [(''policies'', str_list ps)]))\<rparr>"

definition with_modalities :: "string list \<Rightarrow> facts_builder \<Rightarrow> facts_builder" where
  "with_modalities ms b = b\<lparr>fb_modalities := ms\<rparr>"

definition with_auth_methods :: "string list \<Rightarrow> facts_builder \<Rightarrow> facts_builder" where
  "with_auth_methods ms b = b\<lparr>fb_auth_methods := ms\<rparr>"

definition with_skill :: "skill \<Rightarrow> facts_builder \<Rightarrow> facts_builder" where
  "with_skill s b = b\<lparr>fb_skills := fb_skills b @ [s]\<rparr>"

definition with_skills :: "skill list \<Rightarrow> facts_builder \<Rightarrow> facts_builder" where
  "with_skills ss b = b\<lparr>fb_skills := ss\<rparr>"

definition with_documentation :: "string \<Rightarrow> facts_builder \<Rightarrow> facts_builder" where
  "with_documentation url b = b\<lparr>fb_documentation := Some url\<rparr>"

definition with_jurisdiction :: "string \<Rightarrow> facts_builder \<Rightarrow> facts_builder" where
  "with_jurisdiction code b = b\<lparr>fb_jurisdiction := Some code\<rparr>"

definition with_certification :: "string \<Rightarrow> string option \<Rightarrow> facts_builder \<Rightarrow> facts_builder" where
  "with_certification level issuer b =
     b\<lparr>fb_certification := Some \<lparr>ce_level = level, ce_issuer = issuer, ce_issued_at = None, ce_valid_until = None\<rparr>\<rparr>"

definition with_telemetry :: "telemetry_metrics \<Rightarrow> facts_builder \<Rightarrow> facts_builder" where
  "with_telemetry t b = b\<lparr>fb_telemetry := Some t\<rparr>"

definition with_extensions :: "facts_extensions \<Rightarrow> facts_builder \<Rightarrow> facts_builder" where
  "with_extensions x b = b\<lparr>fb_extensions := Some x\<rparr>"

definition build_facts :: "facts_builder \<Rightarrow> agent_facts" where
  "build_facts b =
     \<lparr>af_id = fb_id b, af_name = fb_id b, af_label = fb_label b, af_description = fb_description b,
      af_version = fb_version b,
      af_provider = \<lparr>pv_name = fb_provider_name b, pv_url = fb_provider_url b, pv_did = fb_provider_did b\<rparr>,
      af_endpoints = \<lparr>en_static = fb_static b, en_adaptive = fb_adaptive b\<rparr>,
      af_capabilities = \<lparr>ca_modalities = fb_modalities b, ca_auth_methods = fb_auth_methods b\<rparr>,
      af_skills = fb_skills b, af_documentation = fb_documentation b, af_jurisdiction = fb_jurisdiction b,
      af_certification = fb_certification b, af_telemetry = fb_telemetry b, af_evaluations = None, af_credentials = [],
      af_extensions = fb_extensions b\<rparr>"

definition build_and_sign :: "ed25519 \<Rightarrow> (rat \<Rightarrow> string) \<Rightarrow> string \<Rightarrow> keypair \<Rightarrow> facts_builder \<Rightarrow> facts_error + agent_facts" where
  "build_and_sign ed fr now kp b =
     bindE (attach_integrity_credential ed fr now kp (build_facts b)) (\<lambda>(_, d). Inr d)"

section \<open>What a credential shows\<close>

lemma facts_fields_credentials [simp]: "facts_fields (d\<lparr>af_credentials := cs\<rparr>) = facts_fields d"
  by (simp add: facts_fields_def)

lemma facts_bytes_credentials [simp]: "facts_bytes fr (d\<lparr>af_credentials := cs\<rparr>) = facts_bytes fr d"
  by (simp add: facts_bytes_def signable_body_def)

lemma verify_credential_credentials [simp]:
  "verify_credential ed fr (d\<lparr>af_credentials := cs\<rparr>) cred = verify_credential ed fr d cred"
  by (simp add: verify_credential_def split: sum.split)

lemma public_key_from_any: "public_key_from_any_did = public_key_from_did"
  by (rule ext) (simp add: public_key_from_any_did_def public_key_from_did_def)

lemma verify_credential_True:
  "verify_credential ed fr d cred = Inr True \<longleftrightarrow>
     ip_type (ic_proof cred) = integrity_proof_type \<and> ip_cryptosuite (ic_proof cred) = integrity_cryptosuite
     \<and> (\<exists>pub sig payload. public_key_from_did (verification_did cred) = Inr pub
         \<and> ip_value (ic_proof cred) = encode_multibase sig \<and> facts_bytes fr d = Inr payload
         \<and> ed_point ed pub \<and> ed_verify ed pub sig payload)"
proof
  assume "verify_credential ed fr d cred = Inr True"
  then show "ip_type (ic_proof cred) = integrity_proof_type \<and> ip_cryptosuite (ic_proof cred) = integrity_cryptosuite
     \<and> (\<exists>pub sig payload. public_key_from_did (verification_did cred) = Inr pub
         \<and> ip_value (ic_proof cred) = encode_multibase sig \<and> facts_bytes fr d = Inr payload
         \<and> ed_point ed pub \<and> ed_verify ed pub sig payload)"
    by (auto simp: verify_credential_def public_key_from_any bindE_Inr_conv mapErr_Inr_conv verify_bytes_def
        load_public_key_def decode_multibase_conv split: if_splits sum.splits)
qed (auto simp: verify_credential_def public_key_from_any verify_bytes_def load_public_key_def
    dest: public_key_from_did_length)

text \<open>A \<open>did:key\<close> has no \<open>#\<close>, so the method of an attached credential names the key that signed.\<close>

lemma b58_loop_alphabet: "set (b58_loop n out) \<subseteq> set b58_alphabet \<union> set out"
proof (induction n out rule: b58_loop.induct)
  case (1 n out)
  have "b58_alphabet ! (n mod 58) \<in> set b58_alphabet" by (rule nth_mem) simp
  then have "set b58_alphabet \<union> set (b58_alphabet ! (n mod 58) # out) = set b58_alphabet \<union> set out"
    by (simp add: insert_absorb)
  with 1 show ?case by (subst b58_loop.simps) simp
qed

lemma b58encode_alphabet: "set (b58encode raw) \<subseteq> set b58_alphabet"
proof -
  have "b58_alphabet ! 0 \<in> set b58_alphabet" by (rule nth_mem) simp
  then show ?thesis using b58_loop_alphabet[of "int_from_bytes raw" "[]"] by (auto simp: b58encode_def Let_def)
qed

lemma did_key_no_hash:
  assumes "build_did_key pub = Inr did" shows "split_max 1 CHR ''#'' (did @ ''#ed25519'') = [did, ''ed25519'']"
proof -
  have "CHR ''#'' \<notin> set (encode_multibase raw)" for raw
    using b58encode_alphabet[of raw] by (auto simp: encode_multibase_def b58_alphabet_def)
  then have "CHR ''#'' \<notin> set did" using assms by (auto simp: build_did_key_def split: if_splits)
  then show ?thesis using split_max_sep[of "CHR ''#''" did 0 "''ed25519''"] by simp
qed

lemma attach_ok:
  assumes "ed25519_ok ed" and "length seed = 32" and "facts_bytes fr d = Inr payload"
    and "kp = \<lparr>private_seed = seed, public_bytes = ed_public ed seed\<rparr>"
  obtains did cred where "build_did_key (ed_public ed seed) = Inr did" "public_key_from_did did = Inr (ed_public ed seed)"
    "attach_integrity_credential ed fr now kp d = Inr (cred, d\<lparr>af_credentials := af_credentials d @ [cred]\<rparr>)"
    "ic_issuer cred = did" "verification_did cred = did" "verify_credential ed fr d cred = Inr True"
proof -
  have pub: "length (ed_public ed seed) = 32" "ed_point ed (ed_public ed seed)"
    "ed_verify ed (ed_public ed seed) (ed_sign ed seed payload) payload"
    using assms(1,2) by (simp_all add: ed25519_ok_def)
  obtain did where did: "build_did_key (ed_public ed seed) = Inr did" "public_key_from_did did = Inr (ed_public ed seed)"
    using public_key_build_did_key[OF pub(1)] by blast
  define cred where "cred = \<lparr>ic_type = [integrity_credential_type], ic_issuer = did, ic_issued = now,
    ic_proof = \<lparr>ip_type = integrity_proof_type, ip_cryptosuite = integrity_cryptosuite, ip_created = now,
      ip_method = did @ ''#ed25519'', ip_purpose = ''assertionMethod'',
      ip_value = encode_multibase (ed_sign ed seed payload)\<rparr>\<rparr>"
  have vdid: "verification_did cred = did" using did_key_no_hash[OF did(1)] by (simp add: verification_did_def cred_def)
  moreover have "attach_integrity_credential ed fr now kp d = Inr (cred, d\<lparr>af_credentials := af_credentials d @ [cred]\<rparr>)"
    using assms did sign_verify(1)[OF assms(1,2)] by (simp add: attach_integrity_credential_def cred_def Let_def)
  moreover have "verify_credential ed fr d cred = Inr True"
    unfolding verify_credential_True using did pub assms(3) vdid by (auto simp: cred_def)
  ultimately show thesis using that did by (auto simp: cred_def)
qed

lemma attach_appends:
  "attach_integrity_credential ed fr now kp d = Inr (c, d') \<Longrightarrow> d' = d\<lparr>af_credentials := af_credentials d @ [c]\<rparr>"
  by (auto simp: attach_integrity_credential_def bindE_Inr_conv Let_def)

text \<open>C39. An integrity credential made with a key pair verifies on the document it is attached to, whatever other
  credentials are added or removed, and names the key that made it. Signing fails only when the
  document has no canonical form.\<close>

theorem attached_credential_verifies:
  assumes "ed25519_ok ed" and "length seed = 32" and "facts_bytes fr d = Inr payload"
  shows "case attach_integrity_credential ed fr now \<lparr>private_seed = seed, public_bytes = ed_public ed seed\<rparr> d of
           Inl _ \<Rightarrow> False
         | Inr (cred, d') \<Rightarrow>
             af_credentials d' = af_credentials d @ [cred]
             \<and> (\<forall>cs. verify_integrity ed fr (d'\<lparr>af_credentials := cs\<rparr>) (Some cred) = Inr True)
             \<and> public_key_from_did (verification_did cred) = Inr (ed_public ed seed)"
  by (rule attach_ok[OF assms refl, of now]) (simp add: verify_integrity_def)

text \<open>A credential covers every field of the document but the credentials: two documents on which the same
  credential verifies have the same JSON form up to the order of keys and the spelling of integral
  floats, or the one signature is valid for two different messages.\<close>

theorem credential_covers_document:
  assumes "float_repr_ok fr"
    and "verify_integrity ed fr d (Some cred) = Inr True" and "verify_integrity ed fr d' (Some cred) = Inr True"
  shows "norm_json (signable_body d) = norm_json (signable_body d')
       \<or> (\<exists>pub sig m m'. m \<noteq> m' \<and> ed_verify ed pub sig m \<and> ed_verify ed pub sig m')"
proof -
  obtain pub sig m where one: "public_key_from_did (verification_did cred) = Inr pub" "ip_value (ic_proof cred) = encode_multibase sig"
      "facts_bytes fr d = Inr m" "ed_verify ed pub sig m"
    using assms(2) unfolding verify_integrity_def option.case verify_credential_True by (elim conjE exE)
  obtain pub' sig' m' where two: "public_key_from_did (verification_did cred) = Inr pub'" "ip_value (ic_proof cred) = encode_multibase sig'"
      "facts_bytes fr d' = Inr m'" "ed_verify ed pub' sig' m'"
    using assms(3) unfolding verify_integrity_def option.case verify_credential_True by (elim conjE exE)
  have same: "pub' = pub" "sig' = sig" using one two by simp_all
  show ?thesis
  proof (cases "m = m'")
    case True
    then show ?thesis using canonicalize_norm_eq[OF assms(1)] one(3) two(3) unfolding facts_bytes_def by blast
  next
    case False
    then show ?thesis using one(4) two(4) unfolding same by blast
  qed
qed

section \<open>Examples\<close>

definition demo_seed :: "8 word \<Rightarrow> bytes" where
  "demo_seed b = replicate 32 b"

definition demo_facts :: "string \<Rightarrow> string option \<Rightarrow> agent_facts" where
  "demo_facts lbl did = build_facts (facts_builder ''urn:agent:a'' lbl ''d'' ''1'' ''p'' ''https://p''\<lparr>fb_provider_did := did\<rparr>)"

lemma demo_facts_bytes: "\<exists>m. facts_bytes fr (demo_facts lbl did) = Inr m"
proof -
  have "plain_json (signable_body (demo_facts lbl did))"
    by (cases did) (auto simp: demo_facts_def build_facts_def facts_builder_def signable_body_def facts_fields_def opt_field_def
        provider_json_def endpoints_json_def capabilities_json_def str_list_def)
  then obtain s where "emit fr (signable_body (demo_facts lbl did)) = Inr s" using emit_plain by blast
  then show ?thesis by (simp add: facts_bytes_def canonicalize_def)
qed

theorem attached_credential_verifies_witness:
  "case attach_integrity_credential demo_ed ratio_repr ''now''
          \<lparr>private_seed = demo_seed 7, public_bytes = ed_public demo_ed (demo_seed 7)\<rparr> (demo_facts ''A'' None) of
     Inl _ \<Rightarrow> False
   | Inr (cred, d') \<Rightarrow> verify_integrity demo_ed ratio_repr d' (Some cred) = Inr True"
proof -
  obtain m where m: "facts_bytes ratio_repr (demo_facts ''A'' None) = Inr m" using demo_facts_bytes by blast
  have "length (demo_seed 7) = 32" by (simp add: demo_seed_def)
  from attached_credential_verifies[OF demo_ed_ok this m, of "''now''"] show ?thesis
  proof (cases "attach_integrity_credential demo_ed ratio_repr ''now''
      \<lparr>private_seed = demo_seed 7, public_bytes = ed_public demo_ed (demo_seed 7)\<rparr> (demo_facts ''A'' None)")
    case (Inr r)
    then obtain cred d' where r: "r = (cred, d')" by (cases r)
    then have "verify_integrity demo_ed ratio_repr (d'\<lparr>af_credentials := af_credentials d'\<rparr>) (Some cred) = Inr True"
      using attached_credential_verifies[OF demo_ed_ok \<open>length (demo_seed 7) = 32\<close> m, of "''now''"] Inr by auto
    then show ?thesis using Inr r by simp
  qed simp
qed

theorem credential_covers_document_witness:
  "\<exists>cred. verify_integrity demo_ed ratio_repr (demo_facts ''A'' None) (Some cred) = Inr True
     \<and> norm_json (signable_body (demo_facts ''A'' None)) = norm_json (signable_body ((demo_facts ''A'' None)\<lparr>af_credentials := [cred]\<rparr>))"
proof -
  obtain m where m: "facts_bytes ratio_repr (demo_facts ''A'' None) = Inr m" using demo_facts_bytes by blast
  have "length (demo_seed 7) = 32" by (simp add: demo_seed_def)
  then obtain cred where "verify_credential demo_ed ratio_repr (demo_facts ''A'' None) cred = Inr True"
    using attach_ok[OF demo_ed_ok _ m refl] by metis
  then have cred: "verify_integrity demo_ed ratio_repr (demo_facts ''A'' None) (Some cred) = Inr True"
    "verify_integrity demo_ed ratio_repr ((demo_facts ''A'' None)\<lparr>af_credentials := [cred]\<rparr>) (Some cred) = Inr True"
    by (simp_all add: verify_integrity_def)
  have "\<not> (\<exists>pub sig m m'. m \<noteq> m' \<and> ed_verify demo_ed pub sig m \<and> ed_verify demo_ed pub sig m')"
    by (simp add: demo_ed_def)
  with credential_covers_document[OF float_repr_ok_ratio cred] cred(1) show ?thesis by blast
qed

end
