(* ===== verification/Did_Resolver.thy ===== *)
theory Did_Resolver
  imports Agent_Facts "HOL-Library.AList"
begin

text \<open>
  Models \<^verbatim>\<open>backend/app/identity/did_resolver.py\<close>, which turns a DID into a document, and
  \<^verbatim>\<open>backend/app/identity/nanda_index.py\<close>, the client of one of its sources.

  A source answers with the text of an exception, nothing, or a document; the replies of HTTP servers and
  pydantic's validation of a document are parameters. Waiting between attempts is left out.
\<close>

section \<open>Resolution\<close>

datatype resolution_error =
    ResolveBadDid did_error | Unresolved string
  | ProviderDidMalformed did_error | NoneVerified | ProviderMismatch "string option" string
  | SchemaInvalid string | FactsRaised facts_error

record resolver_env =
  re_ed :: ed25519
  re_repr :: "rat \<Rightarrow> string"
  re_validate :: "json \<Rightarrow> string + agent_facts"

record did_resolver =
  dr_local :: "(string \<Rightarrow> string + agent_facts option) option"
  dr_index :: "(string \<Rightarrow> string + agent_facts option) option"
  dr_well_known :: "(string \<Rightarrow> string + json option) option"

record resolved_agent =
  rv_did :: string
  rv_facts :: agent_facts
  rv_source :: string

fun any_credential_verifies :: "resolver_env \<Rightarrow> agent_facts \<Rightarrow> integrity_credential list \<Rightarrow> facts_error + bool" where
  "any_credential_verifies E d [] = Inr False"
| "any_credential_verifies E d (c # cs) =
     bindE (verify_integrity (re_ed E) (re_repr E) d (Some c)) (\<lambda>b. if b then Inr True else any_credential_verifies E d cs)"

definition assert_integrity :: "resolver_env \<Rightarrow> agent_facts \<Rightarrow> string \<Rightarrow> resolution_error + unit" where
  "assert_integrity E d expected_did =
     bindE (case pv_did (af_provider d) of None \<Rightarrow> Inr () | Some p \<Rightarrow> mapErr ProviderDidMalformed (bindE (parse_did p) (\<lambda>_. Inr ()))) (\<lambda>_.
       if af_credentials d \<noteq> [] then
         bindE (mapErr FactsRaised (any_credential_verifies E d (af_credentials d))) (\<lambda>b. if b then Inr () else Inl NoneVerified)
       else if pv_did (af_provider d) \<noteq> Some expected_did then Inl (ProviderMismatch (pv_did (af_provider d)) expected_did)
       else Inr ())"

text \<open>What a source contributes: an outcome, or nothing but a line in the list of errors.\<close>

definition accept_document :: "resolver_env \<Rightarrow> string \<Rightarrow> string \<Rightarrow> agent_facts \<Rightarrow> resolution_error + resolved_agent" where
  "accept_document E did source d =
     bindE (assert_integrity E d did) (\<lambda>_. Inr \<lparr>rv_did = did, rv_facts = d, rv_source = source\<rparr>)"

definition consult :: "(string + 'a option) option \<Rightarrow> string \<Rightarrow> ('a \<Rightarrow> resolution_error + resolved_agent)
    \<Rightarrow> (resolution_error + resolved_agent) option \<times> string list" where
  "consult reply label accept =
     (case reply of
        None \<Rightarrow> (None, [])
      | Some (Inl msg) \<Rightarrow> (None, [label @ '': '' @ msg])
      | Some (Inr None) \<Rightarrow> (None, [])
      | Some (Inr (Some d)) \<Rightarrow> (Some (accept d), []))"

definition ask :: "('k \<Rightarrow> 'r) option \<Rightarrow> 'k option \<Rightarrow> 'r option" where
  "ask source key = (case (source, key) of (Some f, Some k) \<Rightarrow> Some (f k) | _ \<Rightarrow> None)"

definition resolve_did :: "resolver_env \<Rightarrow> did_resolver \<Rightarrow> string \<Rightarrow> string option \<Rightarrow> string option \<Rightarrow> resolution_error + resolved_agent" where
  "resolve_did E R did username_hint url_hint =
     bindE (mapErr ResolveBadDid (parse_did did)) (\<lambda>_.
       case consult (ask (dr_local R) (Some did)) ''local'' (accept_document E did ''local'') of
         (Some r, _) \<Rightarrow> r
       | (None, errors1) \<Rightarrow>
       (case consult (ask (dr_index R) username_hint) ''nanda_index'' (accept_document E did ''nanda_index'') of
         (Some r, _) \<Rightarrow> r
       | (None, errors2) \<Rightarrow>
       (case consult (ask (dr_well_known R) url_hint) ''well_known''
               (\<lambda>raw. bindE (mapErr SchemaInvalid (re_validate E raw)) (accept_document E did ''well_known'')) of
         (Some r, _) \<Rightarrow> r
       | (None, errors3) \<Rightarrow>
           let errors = errors1 @ errors2 @ errors3 in
           Inl (Unresolved (''could not resolve '' @ did @ '': ''
             @ (if errors = [] then ''no resolver returned a document'' else join ''; '' errors))))))"

section \<open>The index client\<close>

datatype index_error = IndexUnavailable "string option" | IndexNotFound | IndexUnauthorized | IndexInvalid | IndexStatus nat

record index_config =
  xc_base_url :: string
  xc_retry_attempts :: nat
  xc_user_agent :: string
  xc_session_cookie :: "string option"
  xc_api_token :: "string option"
  xc_extra_headers :: "(string \<times> string) list"

record index_request =
  rq_method :: string
  rq_url :: string
  rq_headers :: "(string \<times> string) list"
  rq_body :: "json option"

record http_reply =
  hr_status :: nat
  hr_json :: "json option"

text \<open>The answer to a request at an attempt; \<open>Inl\<close> is the text of a connection error or a timeout.\<close>

type_synonym transport = "index_request \<Rightarrow> nat \<Rightarrow> string + http_reply"

record agent_registration =
  ar_mongo_id :: string
  ar_username :: string
  ar_link :: string
  ar_raw :: dict

record registration_result =
  rr_username :: json
  rr_link :: json
  rr_mongo_id :: json
  rr_raw :: dict

definition strip_right_slash :: "string \<Rightarrow> string" where
  "strip_right_slash s = rev (dropWhile (\<lambda>c. c = CHR ''/'') (rev s))"

definition build_url :: "index_config \<Rightarrow> string \<Rightarrow> string" where
  "build_url C path = strip_right_slash (xc_base_url C) @ path"

definition given :: "string option \<Rightarrow> string option" where
  "given s = (case s of None \<Rightarrow> None | Some t \<Rightarrow> if t = [] then None else Some t)"

definition build_headers :: "index_config \<Rightarrow> (string \<times> string) list" where
  "build_headers C =
     (let headers = fold (\<lambda>(k, v). AList.update k v) (xc_extra_headers C)
            [(''Accept'', ''application/json''), (''User-Agent'', xc_user_agent C)];
          headers = (case given (xc_api_token C) of None \<Rightarrow> headers | Some t \<Rightarrow> AList.update ''Authorization'' (''Bearer '' @ t) headers)
      in case given (xc_session_cookie C) of None \<Rightarrow> headers | Some c \<Rightarrow> AList.update ''Cookie'' c headers)"

fun request_loop :: "transport \<Rightarrow> index_request \<Rightarrow> nat list \<Rightarrow> string option \<Rightarrow> index_error + http_reply" where
  "request_loop T rq [] last_error = Inl (IndexUnavailable last_error)"
| "request_loop T rq (attempt # attempts) last_error =
     (case T rq attempt of
        Inl e \<Rightarrow> request_loop T rq attempts (Some e)
      | Inr r \<Rightarrow>
          if hr_status r = 404 then Inl IndexNotFound
          else if hr_status r \<in> {401, 403} then Inl IndexUnauthorized
          else if 500 \<le> hr_status r \<and> hr_status r < 600 then
            request_loop T rq attempts
              (Some (''Index returned '' @ str_nat (hr_status r) @ '' for '' @ rq_method rq @ '' '' @ rq_url rq))
          else if 400 \<le> hr_status r then Inl (IndexStatus (hr_status r))
          else Inr r)"

definition index_request_for :: "index_config \<Rightarrow> string \<Rightarrow> string \<Rightarrow> json option \<Rightarrow> index_request" where
  "index_request_for C verb path body =
     \<lparr>rq_method = verb, rq_url = build_url C path, rq_headers = build_headers C, rq_body = body\<rparr>"

definition send_request :: "index_config \<Rightarrow> transport \<Rightarrow> string \<Rightarrow> string \<Rightarrow> json option \<Rightarrow> index_error + http_reply" where
  "send_request C T verb path body =
     request_loop T (index_request_for C verb path body) [1..<Suc (xc_retry_attempts C)] None"

definition safe_json :: "http_reply \<Rightarrow> index_error + dict" where
  "safe_json r = (case hr_json r of Some (JObj kvs) \<Rightarrow> Inr kvs | _ \<Rightarrow> Inl IndexInvalid)"

definition safe_json_list :: "http_reply \<Rightarrow> index_error + dict list" where
  "safe_json_list r =
     (case hr_json r of
        Some (JArr vs) \<Rightarrow> seqE (map (\<lambda>v. case v of JObj kvs \<Rightarrow> Inr kvs | _ \<Rightarrow> Inl IndexInvalid) vs)
      | _ \<Rightarrow> Inl IndexInvalid)"

definition text_field :: "json option \<Rightarrow> index_error + string" where
  "text_field v = (case v of Some (JStr s) \<Rightarrow> if s = [] then Inl IndexInvalid else Inr s | _ \<Rightarrow> Inl IndexInvalid)"

definition as_registration :: "dict \<Rightarrow> index_error + agent_registration" where
  "as_registration raw =
     bindE (text_field (map_of raw ''username'')) (\<lambda>username.
     bindE (text_field (case map_of raw ''agent_facts_link'' of
         Some v \<Rightarrow> if py_truth v then Some v else map_of raw ''factsUrl'' | None \<Rightarrow> map_of raw ''factsUrl'')) (\<lambda>link.
     bindE (text_field (map_of raw ''_id'')) (\<lambda>mongo_id.
       Inr \<lparr>ar_mongo_id = mongo_id, ar_username = username, ar_link = link, ar_raw = raw\<rparr>)))"

definition list_agents :: "index_config \<Rightarrow> transport \<Rightarrow> index_error + agent_registration list" where
  "list_agents C T =
     bindE (send_request C T ''GET'' ''/api/agents'' None) (\<lambda>r.
     bindE (safe_json_list r) (\<lambda>body. seqE (map as_registration body)))"

definition find_by_username :: "index_config \<Rightarrow> transport \<Rightarrow> string \<Rightarrow> index_error + agent_registration option" where
  "find_by_username C T username =
     bindE (list_agents C T) (\<lambda>entries. Inr (List.find (\<lambda>e. ar_username e = username) entries))"

definition facts_request :: "index_config \<Rightarrow> string \<Rightarrow> index_request" where
  "facts_request C url = \<lparr>rq_method = ''GET'', rq_url = url, rq_headers = build_headers C, rq_body = None\<rparr>"

definition fetch_facts_url :: "resolver_env \<Rightarrow> index_config \<Rightarrow> transport \<Rightarrow> string \<Rightarrow> index_error + agent_facts" where
  "fetch_facts_url E C T url =
     (case T (facts_request C url) 1 of
        Inl e \<Rightarrow> Inl (IndexUnavailable (Some (''facts_url '' @ url @ '' unreachable: '' @ e)))
      | Inr r \<Rightarrow>
          if hr_status r \<noteq> 200 then Inl IndexInvalid
          else bindE (safe_json r) (\<lambda>raw. mapErr (\<lambda>_. IndexInvalid) (re_validate E (JObj raw))))"

text \<open>With the request it makes besides those of the listing.\<close>

definition resolve_by_username :: "resolver_env \<Rightarrow> index_config \<Rightarrow> transport \<Rightarrow> string
    \<Rightarrow> (index_error + agent_facts option) \<times> index_request list" where
  "resolve_by_username E C T username =
     (case find_by_username C T username of
        Inl e \<Rightarrow> (Inl e, [])
      | Inr None \<Rightarrow> (Inr None, [])
      | Inr (Some entry) \<Rightarrow>
          (bindE (fetch_facts_url E C T (ar_link entry)) (\<lambda>d. Inr (Some d)), [facts_request C (ar_link entry)]))"

definition get_or :: "dict \<Rightarrow> string \<Rightarrow> json \<Rightarrow> json" where
  "get_or raw k d = (case map_of raw k of None \<Rightarrow> d | Some v \<Rightarrow> v)"

definition register_agent :: "index_config \<Rightarrow> transport \<Rightarrow> string \<Rightarrow> string \<Rightarrow> index_error + registration_result" where
  "register_agent C T username link =
     bindE (send_request C T ''POST'' ''/api/agents''
         (Some (JObj [(''username'', JStr username), (''agent_facts_link'', JStr link)]))) (\<lambda>r.
     bindE (safe_json r) (\<lambda>raw.
       Inr \<lparr>rr_username = get_or raw ''username'' (JStr username), rr_link = get_or raw ''agent_facts_link'' (JStr link),
            rr_mongo_id = get_or raw ''_id'' JNull, rr_raw = raw\<rparr>))"

definition update_registration :: "index_config \<Rightarrow> transport \<Rightarrow> string \<Rightarrow> string \<Rightarrow> string option \<Rightarrow> index_error + registration_result" where
  "update_registration C T mongo_id link username =
     bindE (send_request C T ''PUT'' (''/api/agents/'' @ mongo_id)
         (Some (JObj ((''agent_facts_link'', JStr link) # opt_field ''username'' JStr username)))) (\<lambda>r.
     bindE (safe_json r) (\<lambda>raw.
       Inr \<lparr>rr_username = get_or raw ''username'' (JStr (case username of None \<Rightarrow> [] | Some u \<Rightarrow> u)),
            rr_link = get_or raw ''agent_facts_link'' (JStr link), rr_mongo_id = get_or raw ''_id'' (JStr mongo_id), rr_raw = raw\<rparr>))"

definition deregister_agent :: "index_config \<Rightarrow> transport \<Rightarrow> string \<Rightarrow> index_error + unit" where
  "deregister_agent C T mongo_id =
     (case send_request C T ''DELETE'' (''/api/agents/'' @ mongo_id) None of
        Inl IndexNotFound \<Rightarrow> Inr () | Inl e \<Rightarrow> Inl e | Inr _ \<Rightarrow> Inr ())"

section \<open>What resolution shows\<close>

lemma any_credential_True:
  "any_credential_verifies E d cs = Inr True \<Longrightarrow> \<exists>c \<in> set cs. verify_integrity (re_ed E) (re_repr E) d (Some c) = Inr True"
  by (induction cs) (auto simp: bindE_Inr_conv split: if_splits)

lemma assert_integrity_ok:
  assumes "assert_integrity E d did = Inr ()"
  shows "(\<exists>c \<in> set (af_credentials d). verify_integrity (re_ed E) (re_repr E) d (Some c) = Inr True)
       \<or> af_credentials d = [] \<and> pv_did (af_provider d) = Some did"
  using assms any_credential_True[of E d "af_credentials d"]
  by (auto simp: assert_integrity_def bindE_Inr_conv mapErr_Inr_conv split: if_splits)

lemma accept_document_ok:
  assumes "accept_document E did source d = Inr r"
  shows "rv_did r = did \<and> rv_facts r = d
       \<and> ((\<exists>c \<in> set (af_credentials d). verify_integrity (re_ed E) (re_repr E) d (Some c) = Inr True)
          \<or> af_credentials d = [] \<and> pv_did (af_provider d) = Some did)"
  using assms assert_integrity_ok by (auto simp: accept_document_def bindE_Inr_conv)

lemma consult_Some:
  "consult reply label accept = (Some r, errs) \<Longrightarrow> \<exists>d. reply = Some (Inr (Some d)) \<and> r = accept d"
  by (auto simp: consult_def split: option.splits sum.splits)

text \<open>What a resolved document is backed by: it carries a credential that verifies under the key the
  credential itself names, or it carries none and names the DID as its provider. No source is consulted
  after one that answered with a document.\<close>

theorem resolved_document_backed:
  assumes "resolve_did E R did username_hint url_hint = Inr r"
  shows "rv_did r = did
       \<and> ((\<exists>c \<in> set (af_credentials (rv_facts r)).
              verify_integrity (re_ed E) (re_repr E) (rv_facts r) (Some c) = Inr True)
          \<or> af_credentials (rv_facts r) = [] \<and> pv_did (af_provider (rv_facts r)) = Some did)"
proof -
  let ?c1 = "consult (ask (dr_local R) (Some did)) ''local'' (accept_document E did ''local'')"
  let ?c2 = "consult (ask (dr_index R) username_hint) ''nanda_index'' (accept_document E did ''nanda_index'')"
  let ?c3 = "consult (ask (dr_well_known R) url_hint) ''well_known''
     (\<lambda>raw. bindE (mapErr SchemaInvalid (re_validate E raw)) (accept_document E did ''well_known''))"
  have outcome: "fst ?c1 = Some (Inr r) \<or> fst ?c2 = Some (Inr r) \<or> fst ?c3 = Some (Inr r)"
    using assms by (auto simp: resolve_did_def bindE_Inr_conv Let_def split: prod.splits option.splits)
  have "\<exists>d source. accept_document E did source d = Inr r"
    using outcome
  proof (elim disjE)
    assume "fst ?c1 = Some (Inr r)"
    then show ?thesis using consult_Some[of _ _ _ "Inr r" "snd ?c1"] by (metis prod.collapse)
  next
    assume "fst ?c2 = Some (Inr r)"
    then show ?thesis using consult_Some[of _ _ _ "Inr r" "snd ?c2"] by (metis prod.collapse)
  next
    assume "fst ?c3 = Some (Inr r)"
    then obtain raw where "Inr r = bindE (mapErr SchemaInvalid (re_validate E raw)) (accept_document E did ''well_known'')"
      using consult_Some[of _ _ _ "Inr r" "snd ?c3"] by (metis prod.collapse)
    then show ?thesis by (metis bindE_Inr_conv)
  qed
  then show ?thesis using accept_document_ok by blast
qed

text \<open>A source that adds at most a line to the list of errors: it is absent, is not asked, raises or has nothing.\<close>

definition no_document :: "(string + 'a option) option \<Rightarrow> bool" where
  "no_document reply = (case reply of Some (Inr (Some _)) \<Rightarrow> False | _ \<Rightarrow> True)"

lemma consult_no_document: "no_document reply \<Longrightarrow> \<exists>errs. consult reply label accept = (None, errs)"
  by (auto simp: no_document_def consult_def split: option.splits sum.splits)

lemma well_known_decides:
  assumes "is_ok (parse_did did)" and "no_document (ask (dr_local R) (Some did))"
    and "no_document (ask (dr_index R) username_hint)"
    and "dr_well_known R = Some answer" and "answer url = Inr (Some raw)" and "re_validate E raw = Inr d"
  shows "resolve_did E R did username_hint (Some url) = accept_document E did ''well_known'' d"
proof -
  obtain es1 where "consult (ask (dr_local R) (Some did)) ''local'' (accept_document E did ''local'') = (None, es1)"
    using consult_no_document[OF assms(2)] by blast
  moreover obtain es2 where "consult (ask (dr_index R) username_hint) ''nanda_index'' (accept_document E did ''nanda_index'') = (None, es2)"
    using consult_no_document[OF assms(3)] by blast
  ultimately show ?thesis using assms(1,4-6)
    by (auto simp: resolve_did_def is_ok_conv ask_def[of "Some answer"] consult_def[of "Some (Inr (Some raw))"])
qed

lemma signer_accepted:
  assumes "ed25519_ok (re_ed E)" and "length seed = 32" and "facts_bytes (re_repr E) d = Inr payload"
    and "attach_integrity_credential (re_ed E) (re_repr E) now
           \<lparr>private_seed = seed, public_bytes = ed_public (re_ed E) seed\<rparr> (d\<lparr>af_credentials := []\<rparr>) = Inr (cred, signed_doc)"
    and "case pv_did (af_provider d) of None \<Rightarrow> True | Some p \<Rightarrow> is_ok (parse_did p)"
    and "re_validate E raw = Inr signed_doc" and "answer url = Inr (Some raw)" and "is_ok (parse_did did)"
    and "no_document (ask (dr_local R) (Some did))" and "no_document (ask (dr_index R) username_hint)"
    and "dr_well_known R = Some answer"
  shows "resolve_did E R did username_hint (Some url)
       = Inr \<lparr>rv_did = did, rv_facts = signed_doc, rv_source = ''well_known''\<rparr>"
proof -
  have "facts_bytes (re_repr E) (d\<lparr>af_credentials := []\<rparr>) = Inr payload" using assms(3) by simp
  from attach_ok[OF assms(1,2) this refl, of now] have signed_doc: "signed_doc = d\<lparr>af_credentials := [cred]\<rparr>"
      and ok: "verify_credential (re_ed E) (re_repr E) d cred = Inr True"
    using assms(4) by auto
  have "assert_integrity E signed_doc did = Inr ()"
    using assms(5) ok by (auto simp: assert_integrity_def signed_doc verify_integrity_def is_ok_conv split: option.splits)
  then show ?thesis
    using well_known_decides[OF assms(8-11,7,6)] by (simp add: accept_document_def)
qed

text \<open>C35. The DID that is resolved is not compared with the key of the credential. Where no agent of the node has the
  DID and the index has no document, so that the hinted URL is asked, whoever answers there is believed: a
  document that validates and was signed with any key pair, for whatever agent, resolves as the document of
  any well-formed DID, unless its own provider DID is malformed.\<close>

theorem resolver_accepts_any_signer:
  assumes "ed25519_ok (re_ed E)" and "length seed = 32" and "facts_bytes (re_repr E) d = Inr payload"
    and "attach_integrity_credential (re_ed E) (re_repr E) now
           \<lparr>private_seed = seed, public_bytes = ed_public (re_ed E) seed\<rparr> (d\<lparr>af_credentials := []\<rparr>) = Inr (cred, signed_doc)"
    and "case pv_did (af_provider d) of None \<Rightarrow> True | Some p \<Rightarrow> is_ok (parse_did p)"
    and "re_validate E raw = Inr signed_doc" and "answer url = Inr (Some raw)" and "is_ok (parse_did did)"
    and "no_document (ask (dr_local R) (Some did))" and "no_document (ask (dr_index R) username_hint)"
    and "dr_well_known R = Some answer"
  shows "resolve_did E R did username_hint (Some url)
       = Inr \<lparr>rv_did = did, rv_facts = signed_doc, rv_source = ''well_known''\<rparr>"
  using assms by (rule signer_accepted)

section \<open>What the client sends\<close>

lemma headers_token:
  assumes "given (xc_api_token C) = Some token"
  shows "map_of (build_headers C) ''Authorization'' = Some (''Bearer '' @ token)"
  using assms by (simp add: build_headers_def Let_def update_conv' split: option.split)

lemma headers_cookie:
  assumes "given (xc_session_cookie C) = Some cookie"
  shows "map_of (build_headers C) ''Cookie'' = Some cookie"
  using assms by (simp add: build_headers_def Let_def update_conv')

lemma request_loop_rejects:
  assumes "request_loop T rq as e = Inr r" shows "\<exists>a \<in> set as. T rq a = Inr r" and "hr_status r < 400 \<or> 600 \<le> hr_status r"
  using assms by (induction as arbitrary: e) (auto split: sum.splits if_splits)

text \<open>Credentials for the index go to whoever is listed in it: resolving a name requests the document at the link of
  its entry, whatever the host, with the bearer token and the session cookie configured for the index.\<close>

theorem index_credentials_sent_to_link:
  assumes "find_by_username C T username = Inr (Some entry)"
    and "given (xc_api_token C) = Some token" and "given (xc_session_cookie C) = Some cookie"
  shows "case resolve_by_username E C T username of (_, requests) \<Rightarrow>
           map rq_url requests = [ar_link entry]
           \<and> map (\<lambda>rq. map_of (rq_headers rq) ''Authorization'') requests = [Some (''Bearer '' @ token)]
           \<and> map (\<lambda>rq. map_of (rq_headers rq) ''Cookie'') requests = [Some cookie]"
  using assms by (simp add: resolve_by_username_def facts_request_def headers_token headers_cookie)

section \<open>Examples\<close>

definition victim_did :: string where
  "victim_did = ''did:key:'' @ encode_multibase (ed25519_multicodec_prefix @ demo_seed 1)"

definition impostor :: "integrity_credential \<times> agent_facts" where
  "impostor = projr (attach_integrity_credential demo_ed ratio_repr ''now''
     \<lparr>private_seed = demo_seed 7, public_bytes = demo_seed 7\<rparr> (demo_facts ''impostor'' None))"

definition demo_resolver_env :: resolver_env where
  "demo_resolver_env = \<lparr>re_ed = demo_ed, re_repr = ratio_repr, re_validate = (\<lambda>_. Inr (snd impostor))\<rparr>"

lemma impostor_signed:
  "attach_integrity_credential demo_ed ratio_repr ''now'' \<lparr>private_seed = demo_seed 7, public_bytes = demo_seed 7\<rparr>
     ((demo_facts ''impostor'' None)\<lparr>af_credentials := []\<rparr>) = Inr (fst impostor, snd impostor)"
proof -
  obtain m where m: "facts_bytes ratio_repr (demo_facts ''impostor'' None) = Inr m" using demo_facts_bytes by blast
  have "length (demo_seed 7) = 32" by (simp add: demo_seed_def)
  moreover have "\<lparr>private_seed = demo_seed 7, public_bytes = demo_seed 7\<rparr>
      = \<lparr>private_seed = demo_seed 7, public_bytes = ed_public demo_ed (demo_seed 7)\<rparr>" by (simp add: demo_ed_def)
  ultimately obtain cred where "attach_integrity_credential demo_ed ratio_repr ''now''
      \<lparr>private_seed = demo_seed 7, public_bytes = demo_seed 7\<rparr> (demo_facts ''impostor'' None)
      = Inr (cred, (demo_facts ''impostor'' None)\<lparr>af_credentials := af_credentials (demo_facts ''impostor'' None) @ [cred]\<rparr>)"
    using attach_ok[OF demo_ed_ok _ m] by metis
  then show ?thesis by (simp add: impostor_def demo_facts_def build_facts_def)
qed

lemma victim_key: "public_key_from_did victim_did = Inr (demo_seed 1)"
proof -
  have len: "length (demo_seed 1) = 32" by (simp add: demo_seed_def)
  with build_did_key_shape[OF this] show ?thesis
    using public_key_build_did_key[OF len] by (auto simp: victim_did_def)
qed

lemma victim_parses: "is_ok (parse_did victim_did)"
  using victim_key by (auto simp: public_key_from_did_def bindE_Inr_conv is_ok_conv)

lemma impostor_premises:
  "\<exists>m. facts_bytes (re_repr demo_resolver_env) (demo_facts ''impostor'' None) = Inr m"
  "ed25519_ok (re_ed demo_resolver_env)" "length (demo_seed 7) = 32"
  "attach_integrity_credential (re_ed demo_resolver_env) (re_repr demo_resolver_env) ''now''
     \<lparr>private_seed = demo_seed 7, public_bytes = ed_public (re_ed demo_resolver_env) (demo_seed 7)\<rparr>
     ((demo_facts ''impostor'' None)\<lparr>af_credentials := []\<rparr>) = Inr (fst impostor, snd impostor)"
  "case pv_did (af_provider (demo_facts ''impostor'' None)) of None \<Rightarrow> True | Some p \<Rightarrow> is_ok (parse_did p)"
  "re_validate demo_resolver_env JNull = Inr (snd impostor)"
  using demo_facts_bytes demo_ed_ok impostor_signed
  by (simp_all add: demo_resolver_env_def demo_ed_def demo_seed_def demo_facts_def build_facts_def facts_builder_def)

text \<open>A resolver as the service builds one: a local registry that does not know the DID, an index that is asked for a
  name and does not answer, and the fetcher.\<close>

definition demo_sources :: did_resolver where
  "demo_sources = \<lparr>dr_local = Some (\<lambda>_. Inr None), dr_index = Some (\<lambda>_. Inl ''timeout''), dr_well_known = Some (\<lambda>_. Inr (Some JNull))\<rparr>"

lemma demo_sources_empty:
  "no_document (ask (dr_local demo_sources) (Some did))" "no_document (ask (dr_index demo_sources) username_hint)"
  "dr_well_known demo_sources = Some (\<lambda>_. Inr (Some JNull))"
  by (simp_all add: demo_sources_def no_document_def ask_def split: option.splits)

text \<open>The DID of the key of seed 1 resolves to a document signed with seed 7.\<close>

theorem resolver_accepts_any_signer_witness:
  "public_key_from_did victim_did = Inr (demo_seed 1)
   \<and> resolve_did demo_resolver_env demo_sources victim_did (Some ''victim'') (Some ''https://impostor'')
     = Inr \<lparr>rv_did = victim_did, rv_facts = snd impostor, rv_source = ''well_known''\<rparr>"
proof -
  obtain m where m: "facts_bytes (re_repr demo_resolver_env) (demo_facts ''impostor'' None) = Inr m"
    using impostor_premises(1) by blast
  show ?thesis
    using resolver_accepts_any_signer[OF impostor_premises(2,3) m impostor_premises(4-6) refl victim_parses demo_sources_empty(1,2,3)]
      victim_key by simp
qed

theorem resolved_document_backed_witness:
  "\<exists>c \<in> set (af_credentials (snd impostor)). verify_integrity demo_ed ratio_repr (snd impostor) (Some c) = Inr True"
proof -
  obtain m where m: "facts_bytes (re_repr demo_resolver_env) (demo_facts ''impostor'' None) = Inr m"
    using impostor_premises(1) by blast
  have "pv_did (af_provider (snd impostor)) = None"
    using attach_appends[OF impostor_signed] by (simp add: demo_facts_def build_facts_def facts_builder_def)
  then show ?thesis
    using resolved_document_backed[OF signer_accepted[OF impostor_premises(2,3) m impostor_premises(4-6) refl victim_parses
        demo_sources_empty(1,2,3)]]
    by (simp add: demo_resolver_env_def)
qed

definition demo_config :: index_config where
  "demo_config = \<lparr>xc_base_url = ''https://index/'', xc_retry_attempts = 3, xc_user_agent = ''u'', xc_session_cookie = Some ''sid'',
     xc_api_token = Some ''secret'', xc_extra_headers = []\<rparr>"

definition demo_transport :: transport where
  "demo_transport rq attempt =
     (if attempt < 2 then Inl ''timeout''
      else Inr \<lparr>hr_status = 200, hr_json = Some (JArr [JObj [(''_id'', JStr ''1''), (''username'', JStr ''mallory''),
             (''agent_facts_link'', JStr ''https://mallory/facts'')]])\<rparr>)"

theorem index_credentials_sent_to_link_witness:
  "case resolve_by_username demo_resolver_env demo_config demo_transport ''mallory'' of (_, requests) \<Rightarrow>
     map rq_url requests = [''https://mallory/facts'']
     \<and> map (\<lambda>rq. map_of (rq_headers rq) ''Authorization'') requests = [Some ''Bearer secret'']"
proof -
  define entry where "entry = \<lparr>ar_mongo_id = ''1'', ar_username = ''mallory'', ar_link = ''https://mallory/facts'',
     ar_raw = [(''_id'', JStr ''1''), (''username'', JStr ''mallory''), (''agent_facts_link'', JStr ''https://mallory/facts'')]\<rparr>"
  have "find_by_username demo_config demo_transport ''mallory'' = Inr (Some entry)"
    by (simp add: find_by_username_def list_agents_def send_request_def demo_transport_def demo_config_def upt_rec
        safe_json_list_def as_registration_def text_field_def py_truth_def entry_def)
  then show ?thesis using index_credentials_sent_to_link[of demo_config demo_transport "''mallory''" entry "''secret''" "''sid''" demo_resolver_env]
    by (simp add: demo_config_def given_def entry_def case_prod_unfold)
qed

end
