(* ===== verification/Identity_Service.thy ===== *)
theory Identity_Service
  imports Did_Resolver Uuid
begin

text \<open>
  Models \<^verbatim>\<open>backend/app/identity/key_store.py\<close>, \<^verbatim>\<open>backend/app/services/identity_service.py\<close>, the
  creation and update of agents in \<^verbatim>\<open>backend/app/services/agent_service.py\<close>, and the selection of tools in
  \<^verbatim>\<open>backend/app/tools/registry.py\<close>.

  Random seeds and nonces, ChaCha20-Poly1305, Ed25519, pydantic, the clock and \<open>str\<close> of values that are
  not strings are parameters; the key file is a value that may be absent. Texts are ASCII where they are
  lowered or tested letter by letter. Redis holds documents with the time they expire at; when it is down
  reads find nothing and writes are lost.
\<close>

section \<open>Hexadecimal bytes\<close>

definition hex_of :: "bytes \<Rightarrow> string" where
  "hex_of bs = concat (map (\<lambda>b. hex_width 2 (unat b)) bs)"

text \<open>\<open>bytes.fromhex\<close>: white space may stand between bytes.\<close>

fun from_hex :: "string \<Rightarrow> bytes option" where
  "from_hex [] = Some []"
| "from_hex (c # s) =
     (if is_space c then from_hex s
      else case s of
        [] \<Rightarrow> None
      | d # t \<Rightarrow>
          (case (hex_value c, hex_value d) of
             (Some h, Some l) \<Rightarrow> map_option ((#) (of_nat (16 * h + l))) (from_hex t)
           | _ \<Rightarrow> None))"

section \<open>The key store\<close>

datatype key_error = KeyCorrupt nat | BadSeed | NoKek | Truncated | DecryptionFailed | BadKek

record key_env =
  ke_ed :: ed25519
  ke_seed :: "nat \<Rightarrow> bytes"
  ke_nonce :: "nat \<Rightarrow> bytes"
  ke_encrypt :: "bytes \<Rightarrow> bytes \<Rightarrow> bytes \<Rightarrow> bytes"
  ke_decrypt :: "bytes \<Rightarrow> bytes \<Rightarrow> bytes \<Rightarrow> bytes option"

text \<open>\<open>ks_drawn\<close> counts what was drawn from the random source.\<close>

record key_store =
  ks_file :: "bytes option"
  ks_archive :: "bytes list"
  ks_loaded :: "keypair option"
  ks_kek :: "bytes option"
  ks_drawn :: nat

definition nonce_size :: nat where
  "nonce_size = 12"

definition load_kek_from_env :: "string option \<Rightarrow> key_error + bytes option" where
  "load_kek_from_env raw =
     (case raw of
        None \<Rightarrow> Inr None
      | Some t \<Rightarrow>
          if t = [] then Inr None
          else (case from_hex t of None \<Rightarrow> Inl BadKek | Some kek \<Rightarrow> if length kek \<noteq> 32 then Inl BadKek else Inr (Some kek)))"

definition keypair_of :: "key_env \<Rightarrow> bytes \<Rightarrow> keypair" where
  "keypair_of K seed = \<lparr>private_seed = seed, public_bytes = ed_public (ke_ed K) seed\<rparr>"

definition generate_keypair :: "key_env \<Rightarrow> key_store \<Rightarrow> keypair \<times> key_store" where
  "generate_keypair K ks = (keypair_of K (ke_seed K (ks_drawn ks)), ks\<lparr>ks_drawn := ks_drawn ks + 1\<rparr>)"

definition persist_instance_key :: "keypair \<Rightarrow> key_store \<Rightarrow> key_store" where
  "persist_instance_key kp ks = ks\<lparr>ks_file := Some (private_seed kp)\<rparr>"

definition instance_keypair :: "key_env \<Rightarrow> key_store \<Rightarrow> key_error + keypair \<times> key_store" where
  "instance_keypair K ks =
     (case ks_loaded ks of
        Some kp \<Rightarrow> Inr (kp, ks)
      | None \<Rightarrow>
          (case ks_file ks of
             Some seed \<Rightarrow>
               if length seed \<noteq> 32 then Inl (KeyCorrupt (length seed))
               else Inr (keypair_of K seed, ks\<lparr>ks_loaded := Some (keypair_of K seed)\<rparr>)
           | None \<Rightarrow>
               let (kp, ks1) = generate_keypair K ks
               in Inr (kp, (persist_instance_key kp ks1)\<lparr>ks_loaded := Some kp\<rparr>)))"

definition rotate_instance_keypair :: "key_env \<Rightarrow> key_store \<Rightarrow> keypair \<times> key_store" where
  "rotate_instance_keypair K ks =
     (let ks0 = (case ks_file ks of None \<Rightarrow> ks | Some seed \<Rightarrow> ks\<lparr>ks_file := None, ks_archive := ks_archive ks @ [seed]\<rparr>);
          (kp, ks1) = generate_keypair K ks0
      in (kp, (persist_instance_key kp ks1)\<lparr>ks_loaded := Some kp\<rparr>))"

definition wrap_agent_seed :: "key_env \<Rightarrow> key_store \<Rightarrow> bytes \<Rightarrow> key_error + bytes \<times> key_store" where
  "wrap_agent_seed K ks seed =
     (if length seed \<noteq> 32 then Inl BadSeed
      else case ks_kek ks of
        None \<Rightarrow> Inl NoKek
      | Some kek \<Rightarrow>
          let nonce = ke_nonce K (ks_drawn ks)
          in Inr (nonce @ ke_encrypt K kek nonce seed, ks\<lparr>ks_drawn := ks_drawn ks + 1\<rparr>))"

definition unwrap_agent_seed :: "key_env \<Rightarrow> key_store \<Rightarrow> bytes \<Rightarrow> key_error + bytes" where
  "unwrap_agent_seed K ks wrapped =
     (if length wrapped < nonce_size + 16 then Inl Truncated
      else case ks_kek ks of
        None \<Rightarrow> Inl NoKek
      | Some kek \<Rightarrow>
          (case ke_decrypt K kek (take nonce_size wrapped) (drop nonce_size wrapped) of
             None \<Rightarrow> Inl DecryptionFailed | Some seed \<Rightarrow> Inr seed))"

section \<open>Agents and their keys\<close>

record identity_agent =
  ia_id :: uuid
  ia_name :: string
  ia_description :: string
  ia_version :: string
  ia_capabilities :: "string list"
  ia_supported :: json
  ia_cost_profile :: dict
  ia_safety :: int
  ia_metadata :: dict

datatype identity_error =
    IdKey key_error | KekMissing | IdDid did_error | IdFacts facts_error | IdAgentNotFound string
  | IdRaises | IdNameTaken string | IdResolution resolution_error

definition key_field :: string where
  "key_field = ''agent_facts_key''"

definition seed_field :: string where
  "seed_field = ''wrapped_private_seed_hex''"

text \<open>The stored seed: \<open>Inr None\<close> when there is none.\<close>

definition stored_seed :: "dict \<Rightarrow> identity_error + string option" where
  "stored_seed metadata =
     (case map_of metadata key_field of
        None \<Rightarrow> Inr None
      | Some v \<Rightarrow>
          if \<not> py_truth v then Inr None
          else (case v of
             JObj entry \<Rightarrow> (case map_of entry seed_field of None \<Rightarrow> Inr None | Some (JStr h) \<Rightarrow> Inr (Some h) | Some _ \<Rightarrow> Inl IdRaises)
           | JStr s \<Rightarrow> if substring seed_field s then Inl IdRaises else Inr None
           | JArr vs \<Rightarrow> if JStr seed_field \<in> set vs then Inl IdRaises else Inr None
           | _ \<Rightarrow> Inl IdRaises))"

definition ensure_agent_keypair :: "key_env \<Rightarrow> string \<Rightarrow> identity_agent \<Rightarrow> key_store
    \<Rightarrow> identity_error + keypair \<times> identity_agent \<times> key_store" where
  "ensure_agent_keypair K now agent ks =
     bindE (stored_seed (ia_metadata agent)) (\<lambda>stored.
       case stored of
         Some h \<Rightarrow>
           (case from_hex h of
              None \<Rightarrow> Inl IdRaises
            | Some wrapped \<Rightarrow>
                bindE (mapErr IdKey (unwrap_agent_seed K ks wrapped)) (\<lambda>seed.
                  if length seed \<noteq> 32 then Inl IdRaises else Inr (keypair_of K seed, agent, ks)))
       | None \<Rightarrow>
           let (kp, ks1) = generate_keypair K ks in
           (case wrap_agent_seed K ks1 (private_seed kp) of
              Inl _ \<Rightarrow> Inl KekMissing
            | Inr (wrapped, ks2) \<Rightarrow>
                bindE (mapErr IdDid (build_did_key (public_bytes kp))) (\<lambda>did.
                  let entry = JObj [(seed_field, JStr (hex_of wrapped)),
                        (''public_key_multibase'', JStr (encode_multibase (public_bytes kp))),
                        (''did'', JStr did), (''key_created_at'', JStr now)]
                  in Inr (kp, agent\<lparr>ia_metadata := AList.update key_field entry (ia_metadata agent)\<rparr>, ks2))))"

section \<open>What a document is made of\<close>

definition modality_map :: "(string \<times> string) list" where
  "modality_map = [(''code_execution'', ''code''), (''web_search'', ''text''), (''analysis'', ''structured-output''),
     (''research'', ''text''), (''test'', ''text''), (''image'', ''image''), (''audio'', ''audio''), (''video'', ''video'')]"

definition modality_of :: "string \<Rightarrow> string" where
  "modality_of cap = (case map_of modality_map (str_strip (str_lower cap)) of None \<Rightarrow> ''text'' | Some m \<Rightarrow> m)"

definition modalities_from_capabilities :: "string list \<Rightarrow> string list" where
  "modalities_from_capabilities caps =
     (let found = fold (\<lambda>cap acc. if modality_of cap \<in> set acc then acc else acc @ [modality_of cap]) caps []
      in if found = [] then [''text''] else found)"

definition limit_keys :: "string list" where
  "limit_keys = [''max_transaction_usd'', ''rate_limit_per_min'', ''cost_cap_per_hour_usd'', ''max_concurrent_workflows'']"

definition limits_from_cost_profile :: "dict \<Rightarrow> dict" where
  "limits_from_cost_profile profile =
     List.map_filter (\<lambda>k. case map_of profile k of
         Some (JInt i) \<Rightarrow> Some (k, JInt i) | Some (JFloat x) \<Rightarrow> Some (k, JFloat x) | Some (JBool b) \<Rightarrow> Some (k, JBool b)
       | _ \<Rightarrow> None) limit_keys"

definition trust_zone_for_agent :: "identity_agent \<Rightarrow> string" where
  "trust_zone_for_agent agent =
     (let by_level = (if 7 \<le> ia_safety agent then ''verified-enterprise''
                      else if 4 \<le> ia_safety agent then ''verified-community'' else ''unverified'')
      in case map_of (ia_metadata agent) ''trust_zone'' of Some (JStr z) \<Rightarrow> if z = [] then by_level else z | _ \<Rightarrow> by_level)"

definition is_alnum :: "char \<Rightarrow> bool" where
  "is_alnum c \<longleftrightarrow> (let n = of_char c :: nat in 48 \<le> n \<and> n \<le> 57 \<or> 65 \<le> n \<and> n \<le> 90 \<or> 97 \<le> n \<and> n \<le> 122)"

definition safe_name :: "string \<Rightarrow> string" where
  "safe_name name =
     (let s = strip_by (\<lambda>c. c = CHR ''-'')
                (map (\<lambda>c. if is_alnum c \<or> c = CHR ''-'' \<or> c = CHR ''_'' then c else CHR ''-'') (str_lower name))
      in if s = [] then ''instance'' else s)"

definition plain_skill :: "string \<Rightarrow> string \<Rightarrow> string list \<Rightarrow> string list \<Rightarrow> skill" where
  "plain_skill i d ins outs = \<lparr>sk_id = i, sk_description = d, sk_input_modes = ins, sk_output_modes = outs,
     sk_languages = None, sk_latency_ms = None, sk_max_tokens = None\<rparr>"

definition platform_skills :: "skill list" where
  "platform_skills =
     (let t = ''text''; s = ''structured-output'' in
      [plain_skill ''workflow.submit'' ''Submit a multi-agent workflow with optional budget and constraints.'' [t, s] [s],
       plain_skill ''workflow.status'' ''Read current status and progress of a running workflow.'' [t] [s],
       plain_skill ''workflow.result'' ''Fetch the final result of a completed workflow.'' [t] [s, t],
       plain_skill ''memory.query'' ''Semantic + vector search over shared memory with provenance chains.'' [t] [s],
       plain_skill ''memory.write'' ''Write a signed memory record into the shared CRDT store.'' [s] [s],
       plain_skill ''agents.search'' ''Discover agents by capability, trust score, and cost.'' [t] [s],
       plain_skill ''identity.resolve'' ''Resolve a DID to a verified AgentFacts document.'' [t] [s],
       plain_skill ''policy.evaluate'' ''Evaluate whether a proposed action is allowed by current policy rules.'' [s] [s]])"

text \<open>The tools as names and descriptions, in the order of the registry.\<close>

definition skills_from_registry :: "(string \<times> string) list \<Rightarrow> skill list" where
  "skills_from_registry tools =
     fold (\<lambda>(name, descr) skills.
        if name = [] \<or> name \<in> sk_id ` set skills then skills
        else skills @ [plain_skill name (if descr = [] then name @ '' tool'' else descr) [''text''] [''text'']]) tools platform_skills"

text \<open>\<open>list(v)\<close> where a list of strings is expected.\<close>

definition mode_list :: "json option \<Rightarrow> identity_error + string list" where
  "mode_list v =
     (case v of
        None \<Rightarrow> Inr [''text'']
      | Some (JArr vs) \<Rightarrow> seqE (map (\<lambda>x. case x of JStr s \<Rightarrow> Inr s | _ \<Rightarrow> Inl IdRaises) vs)
      | Some (JStr s) \<Rightarrow> Inr (map (\<lambda>c. [c]) s)
      | Some (JObj kvs) \<Rightarrow> Inr (map fst kvs)
      | _ \<Rightarrow> Inl IdRaises)"

definition agent_skill :: "(json \<Rightarrow> string) \<Rightarrow> json \<Rightarrow> identity_error + skill list" where
  "agent_skill str_of entry =
     (case entry of
        JObj kvs \<Rightarrow>
          (case map_of kvs ''name'' of
             None \<Rightarrow> Inr []
           | Some name \<Rightarrow>
               bindE (mode_list (map_of kvs ''input_modes'')) (\<lambda>ins.
               bindE (mode_list (map_of kvs ''output_modes'')) (\<lambda>outs.
                 Inr [plain_skill (str_of name) (case map_of kvs ''description'' of None \<Rightarrow> [] | Some d \<Rightarrow> str_of d) ins outs])))
      | JStr s \<Rightarrow> Inr [plain_skill s (s @ '' tool'') [''text''] [''text'']]
      | _ \<Rightarrow> Inr [])"

definition supported_entries :: "json \<Rightarrow> identity_error + json list" where
  "supported_entries v =
     (if \<not> py_truth v then Inr []
      else case v of
        JObj kvs \<Rightarrow> Inr (map (JStr \<circ> fst) kvs)
      | JArr vs \<Rightarrow> Inr vs
      | JStr s \<Rightarrow> Inr (map (\<lambda>c. JStr [c]) s)
      | _ \<Rightarrow> Inl IdRaises)"

definition agent_skills :: "(json \<Rightarrow> string) \<Rightarrow> json \<Rightarrow> identity_error + skill list" where
  "agent_skills str_of v =
     bindE (supported_entries v) (\<lambda>entries. bindE (seqE (map (agent_skill str_of) entries)) (\<lambda>ss. Inr (concat ss)))"

section \<open>The service\<close>

record identity_settings =
  ng_base_url :: string
  ng_instance_name :: string
  ng_instance_description :: string
  ng_app_version :: string
  ng_trust_zone :: string
  ng_index_username :: string
  ng_facts_ttl :: int
  ng_resolve_ttl :: int

record identity_env =
  ie_settings :: identity_settings
  ie_keys :: key_env
  ie_resolver :: resolver_env
  ie_now_text :: string
  ie_now :: int
  ie_redis_up :: bool
  ie_str :: "json \<Rightarrow> string"
  ie_tools :: "(string \<times> string) list"
  ie_error_text :: "identity_error \<Rightarrow> string"

record identity_state =
  id_agents :: "identity_agent list"
  id_keys :: key_store
  id_cache :: "string \<Rightarrow> (json \<times> int) option"

definition error_schema :: dict where
  "error_schema =
     (let field = (\<lambda>k d. (k, JObj [(''type'', JStr ''string''), (''description'', JStr d)])) in
      [(''type'', JStr ''object''), (''required'', str_list [''error_code'', ''detail'']),
       (''properties'', JObj
         [field ''error_code'' ''Stable machine-readable error code (e.g. VALIDATION_ERROR, NOT_FOUND).'',
          field ''detail'' ''Human-readable explanation of what went wrong.'',
          field ''next_steps'' ''Plain-language guidance telling the caller how to recover.'',
          field ''correlation_id'' ''Request correlation ID for log correlation.'',
          (''errors'', JObj [(''type'', JStr ''array''), (''items'', JObj [(''type'', JStr ''object'')]),
             (''description'', JStr (''Present on VALIDATION_ERROR '' @ [CHR 0xE2, CHR 0x80, CHR 0x94]
                @ '' per-field Pydantic error descriptors.''))])])])"

definition example_requests :: "dict list" where
  "example_requests =
     (let get = (\<lambda>n p. [(''name'', JStr n), (''method'', JStr ''GET''), (''path'', JStr p)]) in
      [[(''name'', JStr ''submit_workflow''), (''method'', JStr ''POST''), (''path'', JStr ''/api/v1/workflows/submit''),
        (''body'', JObj [(''instruction'', JStr ''Plan a dinner for 6 with vegetarian options.''), (''budget'', JInt 500),
           (''domain'', JStr ''general''), (''priority'', JInt 5)])],
       get ''poll_status'' ''/api/v1/workflows/{workflow_id}/status'',
       get ''read_result'' ''/api/v1/workflows/{workflow_id}/result'',
       [(''name'', JStr ''query_memory''), (''method'', JStr ''POST''), (''path'', JStr ''/api/v1/memory/query''),
        (''body'', JObj [(''query'', JStr ''what is the deadline''), (''top_k'', JInt 10), (''min_similarity'', JFloat (FFin (1 / 2)))])],
       get ''resolve_did'' ''/api/v1/identity/resolve?did=did:key:z...''])"

definition sign_with :: "identity_env \<Rightarrow> keypair \<Rightarrow> facts_builder \<Rightarrow> identity_error + agent_facts" where
  "sign_with E kp b = mapErr IdFacts (build_and_sign (ke_ed (ie_keys E)) (re_repr (ie_resolver E)) (ie_now_text E) kp b)"

definition build_instance_facts :: "identity_env \<Rightarrow> identity_state \<Rightarrow> identity_error + agent_facts \<times> identity_state" where
  "build_instance_facts E st =
     bindE (mapErr IdKey (instance_keypair (ie_keys E) (id_keys st))) (\<lambda>(kp, ks).
     bindE (mapErr IdDid (build_did_key (public_bytes kp))) (\<lambda>did.
       let S = ie_settings E; base = strip_right_slash (ng_base_url S);
           extensions = \<lparr>fx_examples = example_requests, fx_error_schema = Some error_schema, fx_limits = None,
             fx_handle = given (Some (ng_index_username S))\<rparr>
       in
       bindE (mapErr IdDid (with_provider_did did
           (facts_builder (''urn:agent:massclaw:'' @ safe_name (ng_instance_name S)) (ng_instance_name S)
              (ng_instance_description S) (ng_app_version S) (ng_instance_name S) base))) (\<lambda>b.
       bindE (sign_with E kp (with_extensions extensions (with_certification (ng_trust_zone S) None
           (with_documentation (base @ ''/docs'') (with_skills (skills_from_registry (ie_tools E))
           (with_auth_methods [''bearer'', ''api-key'', ''agent-facts-signature'']
           (with_modalities [''text'', ''structured-output'', ''tool-use'', ''workflow'']
           (with_endpoints [base, base @ ''/api/v1'', base @ ''/api/v1/mcp'', base @ ''/.well-known/agent-facts.json''] b)))))))) (\<lambda>d.
         Inr (d, st\<lparr>id_keys := ks\<rparr>)))))"

definition replace_agent :: "identity_agent \<Rightarrow> identity_agent list \<Rightarrow> identity_agent list" where
  "replace_agent a rows = map (\<lambda>x. if ia_id x = ia_id a then a else x) rows"

definition agent_builder :: "identity_env \<Rightarrow> identity_agent \<Rightarrow> skill list \<Rightarrow> facts_builder \<Rightarrow> facts_builder" where
  "agent_builder E agent skills b =
     (let limits = limits_from_cost_profile (ia_cost_profile agent);
          base = strip_right_slash (ng_base_url (ie_settings E))
      in with_extensions \<lparr>fx_examples = [], fx_error_schema = None, fx_limits = (if limits = [] then None else Some limits), fx_handle = None\<rparr>
         (with_certification (trust_zone_for_agent agent) None (with_skills skills (with_auth_methods [''bearer'', ''api-key'']
         (with_modalities (modalities_from_capabilities (ia_capabilities agent))
         (with_endpoint (base @ ''/api/v1/agents/'' @ str_uuid (ia_id agent)) b))))))"

definition build_agent_facts :: "identity_env \<Rightarrow> identity_agent \<Rightarrow> identity_state \<Rightarrow> identity_error + agent_facts \<times> identity_state" where
  "build_agent_facts E agent0 st =
     bindE (ensure_agent_keypair (ie_keys E) (ie_now_text E) agent0 (id_keys st)) (\<lambda>(kp, agent, ks).
     bindE (mapErr IdDid (build_did_key (public_bytes kp))) (\<lambda>did.
     bindE (agent_skills (ie_str E) (ia_supported agent)) (\<lambda>skills.
     bindE (mapErr IdDid (with_provider_did did
         (facts_builder (''urn:agent:massclaw:'' @ str_uuid (ia_id agent)) (ia_name agent) (ia_description agent)
            (if ia_version agent = [] then ''1.0.0'' else ia_version agent)
            (ng_instance_name (ie_settings E)) (strip_right_slash (ng_base_url (ie_settings E)))))) (\<lambda>b.
     bindE (sign_with E kp (agent_builder E agent skills b)) (\<lambda>d.
       Inr (d, st\<lparr>id_keys := ks, id_agents := replace_agent agent (id_agents st)\<rparr>))))))"

definition read_facts_cache :: "identity_env \<Rightarrow> string \<Rightarrow> identity_state \<Rightarrow> agent_facts option" where
  "read_facts_cache E key st =
     (if \<not> ie_redis_up E then None
      else case id_cache st key of
        None \<Rightarrow> None
      | Some (doc, expires) \<Rightarrow>
          if ie_now E < expires then (case re_validate (ie_resolver E) doc of Inl _ \<Rightarrow> None | Inr d \<Rightarrow> Some d) else None)"

definition write_facts_cache :: "identity_env \<Rightarrow> string \<Rightarrow> agent_facts \<Rightarrow> int \<Rightarrow> identity_state \<Rightarrow> identity_state" where
  "write_facts_cache E key d ttl st =
     (if ie_redis_up E then st\<lparr>id_cache := (id_cache st)(key \<mapsto> (to_document d, ie_now E + ttl))\<rparr> else st)"

definition instance_facts_key :: string where "instance_facts_key = ''identity:instance_facts''"
definition agent_facts_key :: "string \<Rightarrow> string" where "agent_facts_key i = ''identity:agent_facts:'' @ i"
definition resolve_cache_key :: "string \<Rightarrow> string" where "resolve_cache_key did = ''identity:resolve:'' @ did"

definition get_instance_facts :: "identity_env \<Rightarrow> identity_state \<Rightarrow> identity_error + agent_facts \<times> identity_state" where
  "get_instance_facts E st =
     (case read_facts_cache E instance_facts_key st of
        Some d \<Rightarrow> Inr (d, st)
      | None \<Rightarrow> bindE (build_instance_facts E st) (\<lambda>(d, st').
          Inr (d, write_facts_cache E instance_facts_key d (ng_facts_ttl (ie_settings E)) st')))"

definition invalidate_cached :: "string \<Rightarrow> identity_state \<Rightarrow> identity_state" where
  "invalidate_cached key st = st\<lparr>id_cache := (id_cache st)(key := None)\<rparr>"

definition load_agent :: "identity_state \<Rightarrow> string \<Rightarrow> identity_error + identity_agent" where
  "load_agent st i =
     (case parse_uuid i of
        None \<Rightarrow> Inl (IdAgentNotFound i)
      | Some u \<Rightarrow> (case lookup_by ia_id u (id_agents st) of None \<Rightarrow> Inl (IdAgentNotFound i) | Some a \<Rightarrow> Inr a))"

definition get_agent_facts :: "identity_env \<Rightarrow> string \<Rightarrow> identity_state \<Rightarrow> identity_error + agent_facts \<times> identity_state" where
  "get_agent_facts E i st =
     (case read_facts_cache E (agent_facts_key i) st of
        Some d \<Rightarrow> Inr (d, st)
      | None \<Rightarrow> bindE (load_agent st i) (\<lambda>a. bindE (build_agent_facts E a st) (\<lambda>(d, st').
          Inr (d, write_facts_cache E (agent_facts_key i) d (ng_facts_ttl (ie_settings E)) st'))))"

definition stored_did :: "identity_agent \<Rightarrow> string option" where
  "stored_did a =
     (case map_of (ia_metadata a) key_field of
        Some (JObj entry) \<Rightarrow> (case map_of entry ''did'' of Some (JStr did) \<Rightarrow> Some did | _ \<Rightarrow> None) | _ \<Rightarrow> None)"

text \<open>More than one agent with the DID is an exception.\<close>

definition lookup_facts_by_did :: "identity_env \<Rightarrow> string \<Rightarrow> identity_state \<Rightarrow> identity_error + agent_facts option \<times> identity_state" where
  "lookup_facts_by_did E did st =
     bindE (mapErr IdDid (parse_did did)) (\<lambda>_.
       case filter (\<lambda>a. stored_did a = Some did) (id_agents st) of
         [] \<Rightarrow> Inr (None, st)
       | [a] \<Rightarrow> bindE (build_agent_facts E a st) (\<lambda>(d, st'). Inr (Some d, st'))
       | _ \<Rightarrow> Inl IdRaises)"

text \<open>The sources besides the local one are given; the cached document is returned for every hint.\<close>

definition service_resolve_did :: "identity_env \<Rightarrow> did_resolver \<Rightarrow> string \<Rightarrow> string option \<Rightarrow> string option \<Rightarrow> identity_state
    \<Rightarrow> identity_error + resolved_agent \<times> identity_state" where
  "service_resolve_did E R did username_hint url_hint st =
     (case read_facts_cache E (resolve_cache_key did) st of
        Some d \<Rightarrow> Inr (\<lparr>rv_did = did, rv_facts = d, rv_source = ''cache''\<rparr>, st)
      | None \<Rightarrow>
          let looked = lookup_facts_by_did E did st;
              st' = (case looked of Inl _ \<Rightarrow> st | Inr (_, s) \<Rightarrow> s);
              reply = (case looked of Inl e \<Rightarrow> Inl (ie_error_text E e) | Inr (d, _) \<Rightarrow> Inr d)
          in bindE (mapErr IdResolution (resolve_did (ie_resolver E) (R\<lparr>dr_local := Some (\<lambda>_. reply)\<rparr>) did username_hint url_hint)) (\<lambda>r.
               Inr (r, write_facts_cache E (resolve_cache_key did) (rv_facts r) (ng_resolve_ttl (ie_settings E)) st')))"

datatype report_error = SchemaError string | NoCredential | VerificationRaised facts_error | NotVerified

record verification_report =
  vr_valid :: bool
  vr_errors :: "report_error list"
  vr_provider_did :: "string option"
  vr_agent :: "(string \<times> string) option"

fun check_credentials :: "resolver_env \<Rightarrow> agent_facts \<Rightarrow> integrity_credential list \<Rightarrow> report_error list \<Rightarrow> bool \<times> report_error list" where
  "check_credentials E d [] errs = (False, errs)"
| "check_credentials E d (c # cs) errs =
     (case verify_integrity (re_ed E) (re_repr E) d (Some c) of
        Inl e \<Rightarrow> check_credentials E d cs (errs @ [VerificationRaised e])
      | Inr True \<Rightarrow> (True, errs)
      | Inr False \<Rightarrow> check_credentials E d cs (errs @ [NotVerified]))"

definition verify_document :: "resolver_env \<Rightarrow> json \<Rightarrow> verification_report" where
  "verify_document E raw =
     (case re_validate E raw of
        Inl msg \<Rightarrow> \<lparr>vr_valid = False, vr_errors = [SchemaError msg], vr_provider_did = None, vr_agent = None\<rparr>
      | Inr d \<Rightarrow>
          if af_credentials d = []
          then \<lparr>vr_valid = False, vr_errors = [NoCredential], vr_provider_did = None, vr_agent = None\<rparr>
          else let (valid, errs) = check_credentials E d (af_credentials d) []
               in \<lparr>vr_valid = valid, vr_errors = errs, vr_provider_did = pv_did (af_provider d), vr_agent = Some (af_id d, af_label d)\<rparr>)"

section \<open>Changes of agents\<close>

text \<open>Models the writes of \<^verbatim>\<open>backend/app/services/agent_service.py\<close> to the columns this theory keeps. A field of a
  validated request that was not set is \<open>None\<close>, one set to null is \<open>Some None\<close>: null is refused by the columns
  that may not be null, and stored as JSON null, which reads like an empty value, by the JSON columns.\<close>

record agent_update =
  au_name :: "string option option"
  au_description :: "string option option"
  au_capabilities :: "string list option option"
  au_supported :: "string list option option"
  au_cost_profile :: "dict option option"
  au_version :: "string option option"
  au_safety :: "int option option"
  au_metadata :: "dict option option"

definition nothing_set :: agent_update where
  "nothing_set = \<lparr>au_name = None, au_description = None, au_capabilities = None, au_supported = None, au_cost_profile = None,
     au_version = None, au_safety = None, au_metadata = None\<rparr>"

definition set_column :: "'a option option \<Rightarrow> 'a \<Rightarrow> 'a option" where
  "set_column v old = (case v of None \<Rightarrow> Some old | Some x \<Rightarrow> x)"

definition set_json :: "'a \<Rightarrow> 'a option option \<Rightarrow> 'a \<Rightarrow> 'a" where
  "set_json null v old = (case v of None \<Rightarrow> old | Some None \<Rightarrow> null | Some (Some x) \<Rightarrow> x)"

definition update_agent :: "uuid \<Rightarrow> agent_update \<Rightarrow> identity_state \<Rightarrow> identity_error + identity_agent \<times> identity_state" where
  "update_agent u data st =
     (case lookup_by ia_id u (id_agents st) of
        None \<Rightarrow> Inl (IdAgentNotFound (str_uuid u))
      | Some a \<Rightarrow>
          if data = nothing_set then Inr (a, st)
          else (case (set_column (au_name data) (ia_name a), set_column (au_description data) (ia_description a),
                  set_column (au_version data) (ia_version a), set_column (au_safety data) (ia_safety a)) of
             (Some name, Some description, Some version, Some safety) \<Rightarrow>
               if list_ex (\<lambda>x. ia_id x \<noteq> u \<and> ia_name x = name) (id_agents st) then Inl IdRaises
               else
                 let a' = a\<lparr>ia_name := name, ia_description := description, ia_version := version, ia_safety := safety,
                       ia_capabilities := set_json [] (au_capabilities data) (ia_capabilities a),
                       ia_supported := set_json JNull (map_option (map_option (\<lambda>ss. JArr (map JStr ss))) (au_supported data)) (ia_supported a),
                       ia_cost_profile := set_json [] (au_cost_profile data) (ia_cost_profile a),
                       ia_metadata := set_json [] (au_metadata data) (ia_metadata a)\<rparr>
                 in Inr (a', st\<lparr>id_agents := replace_agent a' (id_agents st)\<rparr>)
           | _ \<Rightarrow> Inl IdRaises))"

text \<open>The row of a new agent, with the id the database gives it.\<close>

definition create_agent :: "identity_agent \<Rightarrow> identity_state \<Rightarrow> identity_error + identity_agent \<times> identity_state" where
  "create_agent a st =
     (if list_ex (\<lambda>x. ia_name x = ia_name a) (id_agents st) then Inl (IdNameTaken (ia_name a))
      else if list_ex (\<lambda>x. ia_id x = ia_id a) (id_agents st) then Inl IdRaises
      else Inr (a, st\<lparr>id_agents := id_agents st @ [a]\<rparr>))"

section \<open>Which tools an agent may use\<close>

record tool_entry =
  te_name :: string
  te_capabilities :: "string list"

definition register_tool :: "tool_entry \<Rightarrow> tool_entry list \<Rightarrow> tool_entry list" where
  "register_tool t ts = (if te_name t \<in> te_name ` set ts then map (\<lambda>x. if te_name x = te_name t then t else x) ts else ts @ [t])"

definition get_tools_for_capabilities :: "tool_entry list \<Rightarrow> string list \<Rightarrow> tool_entry list" where
  "get_tools_for_capabilities ts caps = filter (\<lambda>t. list_ex (\<lambda>c. c \<in> set caps) (te_capabilities t)) ts"

text \<open>\<open>None\<close> is the \<open>TypeError\<close> of a set of dictionaries or lists.\<close>

definition allowed_names :: "json \<Rightarrow> json list option" where
  "allowed_names v =
     (case v of
        JObj kvs \<Rightarrow> Some (map (JStr \<circ> fst) (filter (\<lambda>(k, flag). py_truth flag) kvs))
      | JArr vs \<Rightarrow> if list_ex (\<lambda>x. case x of JObj _ \<Rightarrow> True | JArr _ \<Rightarrow> True | _ \<Rightarrow> False) vs then None else Some vs
      | _ \<Rightarrow> Some [])"

definition get_tools_for_agent :: "tool_entry list \<Rightarrow> json \<Rightarrow> string list \<Rightarrow> tool_entry list option" where
  "get_tools_for_agent ts supported caps =
     (case (if py_truth supported then allowed_names supported else Some []) of
        None \<Rightarrow> None
      | Some names \<Rightarrow>
          if names = [] then Some (get_tools_for_capabilities ts caps)
          else Some (filter (\<lambda>t. JStr (te_name t) \<in> set names) ts))"

section \<open>Keys stay\<close>

text \<open>What happens between two requests for an agent's document, under one key-encryption key: requests of any
  kind in any environment, rotation of the instance key, evictions, new agents, changes of agents other than
  a replacement of the metadata of this one, and requests that fail, whose rows are rolled back.\<close>

inductive identity_step :: "key_env \<Rightarrow> uuid \<Rightarrow> identity_state \<Rightarrow> identity_state \<Rightarrow> bool" for K u where
  instance_requested: "ie_keys E = K \<Longrightarrow> get_instance_facts E st = Inr (d, st') \<Longrightarrow> identity_step K u st st'"
| agent_requested: "ie_keys E = K \<Longrightarrow> get_agent_facts E i st = Inr (d, st') \<Longrightarrow> identity_step K u st st'"
| did_requested: "ie_keys E = K \<Longrightarrow> service_resolve_did E R did name url st = Inr (r, st') \<Longrightarrow> identity_step K u st st'"
| key_rotated: "identity_step K u st (st\<lparr>id_keys := snd (rotate_instance_keypair K (id_keys st))\<rparr>)"
| evicted: "identity_step K u st (invalidate_cached key st)"
| agent_created: "create_agent a st = Inr (a', st') \<Longrightarrow> identity_step K u st st'"
| agent_updated: "update_agent v data st = Inr (a, st') \<Longrightarrow> v \<noteq> u \<or> au_metadata data = None \<Longrightarrow> identity_step K u st st'"
| request_failed: "ks_kek ks = ks_kek (id_keys st) \<Longrightarrow> identity_step K u st (st\<lparr>id_keys := ks\<rparr>)"

definition aead_ok :: "key_env \<Rightarrow> bool" where
  "aead_ok K \<longleftrightarrow> ed25519_ok (ke_ed K) \<and> (\<forall>n. length (ke_seed K n) = 32 \<and> length (ke_nonce K n) = 12)
     \<and> (\<forall>kek nonce m. ke_decrypt K kek nonce (ke_encrypt K kek nonce m) = Some m
          \<and> length (ke_encrypt K kek nonce m) = length m + 16)"

lemma from_hex_of: "from_hex (hex_of bs) = Some bs"
proof (induction bs)
  case (Cons b bs)
  have b: "unat b < 256" using unsigned_less[of b, where ?'a = nat] by simp
  then have digits: "hex_width 2 (unat b) = [hex_char (unat b div 16), hex_char (unat b mod 16)]"
    by (simp add: numeral_2_eq_2)
  have space: "\<not> is_space (hex_char d)" if "d < 16" for d
    using hex_char_facts(2)[OF that] .
  have "of_nat (16 * (unat b div 16) + unat b mod 16) = b" by simp
  with b Cons show ?case by (simp add: hex_of_def digits space)
qed (simp add: hex_of_def)

lemma py_truth_obj: "kvs \<noteq> [] \<Longrightarrow> py_truth (JObj kvs)"
  by (simp add: py_truth_def)

lemma ensure_cases:
  assumes "ensure_agent_keypair K now agent ks = Inr (kp, agent', ks')"
  obtains (stored) h wrapped seed where "stored_seed (ia_metadata agent) = Inr (Some h)" "from_hex h = Some wrapped"
      "unwrap_agent_seed K ks wrapped = Inr seed" "length seed = 32" "kp = keypair_of K seed" "agent' = agent"
  | (fresh) kek did seed nonce where "stored_seed (ia_metadata agent) = Inr None" "ks_kek ks = Some kek"
      "seed = ke_seed K (ks_drawn ks)" "nonce = ke_nonce K (ks_drawn ks + 1)" "kp = keypair_of K seed"
      "agent' = agent\<lparr>ia_metadata := AList.update key_field
           (JObj [(seed_field, JStr (hex_of (nonce @ ke_encrypt K kek nonce seed))),
              (''public_key_multibase'', JStr (encode_multibase (public_bytes kp))),
              (''did'', JStr did), (''key_created_at'', JStr now)]) (ia_metadata agent)\<rparr>"
proof -
  obtain st where st: "stored_seed (ia_metadata agent) = Inr st"
    using assms by (auto simp: ensure_agent_keypair_def bindE_Inr_conv)
  show thesis
  proof (cases st)
    case (Some h)
    then have a: "(case from_hex h of None \<Rightarrow> Inl IdRaises
        | Some wrapped \<Rightarrow> bindE (mapErr IdKey (unwrap_agent_seed K ks wrapped)) (\<lambda>seed.
            if length seed \<noteq> 32 then Inl IdRaises else Inr (keypair_of K seed, agent, ks))) = Inr (kp, agent', ks')"
      using assms st by (simp add: ensure_agent_keypair_def)
    then obtain wrapped where w: "from_hex h = Some wrapped" by (cases "from_hex h") simp_all
    with a obtain seed where "unwrap_agent_seed K ks wrapped = Inr seed" "length seed = 32" "kp = keypair_of K seed" "agent' = agent"
      by (auto simp: bindE_Inr_conv mapErr_Inr_conv split: if_splits)
    then show thesis using stored st Some w by blast
  next
    case None
    define seed where "seed = ke_seed K (ks_drawn ks)"
    define nonce where "nonce = ke_nonce K (ks_drawn ks + 1)"
    obtain wrapped ks2 where w: "wrap_agent_seed K (ks\<lparr>ks_drawn := ks_drawn ks + 1\<rparr>) seed = Inr (wrapped, ks2)"
      using assms st None
      by (cases "wrap_agent_seed K (ks\<lparr>ks_drawn := ks_drawn ks + 1\<rparr>) seed")
        (auto simp: ensure_agent_keypair_def generate_keypair_def keypair_of_def seed_def)
    then obtain kek where kek: "ks_kek ks = Some kek" "wrapped = nonce @ ke_encrypt K kek nonce seed"
      by (auto simp: wrap_agent_seed_def Let_def nonce_def split: if_splits option.splits)
    from assms st None w obtain did where "kp = keypair_of K seed"
        "agent' = agent\<lparr>ia_metadata := AList.update key_field
              (JObj [(seed_field, JStr (hex_of wrapped)), (''public_key_multibase'', JStr (encode_multibase (ed_public (ke_ed K) seed))),
                 (''did'', JStr did), (''key_created_at'', JStr now)]) (ia_metadata agent)\<rparr>"
      by (auto simp: ensure_agent_keypair_def generate_keypair_def keypair_of_def seed_def bindE_Inr_conv Let_def)
    then show thesis using fresh[of kek seed nonce did] st None kek by (simp add: seed_def nonce_def keypair_of_def)
  qed
qed

text \<open>The key pair a row stands for.\<close>

definition agent_key :: "key_env \<Rightarrow> bytes option \<Rightarrow> dict \<Rightarrow> keypair option" where
  "agent_key K kek metadata =
     (case stored_seed metadata of
        Inr (Some h) \<Rightarrow>
          (case from_hex h of
             None \<Rightarrow> None
           | Some wrapped \<Rightarrow>
               (case unwrap_agent_seed K \<lparr>ks_file = None, ks_archive = [], ks_loaded = None, ks_kek = kek, ks_drawn = 0\<rparr> wrapped of
                  Inr seed \<Rightarrow> if length seed = 32 then Some (keypair_of K seed) else None | Inl _ \<Rightarrow> None))
      | _ \<Rightarrow> None)"

lemma unwrap_kek:
  "unwrap_agent_seed K \<lparr>ks_file = None, ks_archive = [], ks_loaded = None, ks_kek = ks_kek ks, ks_drawn = 0\<rparr> wrapped
     = unwrap_agent_seed K ks wrapped"
  by (simp add: unwrap_agent_seed_def)

lemma agent_key_ensured:
  assumes "agent_key K (ks_kek ks) (ia_metadata a) = Some kp"
  shows "ensure_agent_keypair K now a ks = Inr (kp, a, ks)"
  using assms
  by (auto simp: agent_key_def ensure_agent_keypair_def unwrap_kek split: sum.splits option.splits if_splits)

lemma ensure_agent_key:
  assumes "aead_ok K" and "ensure_agent_keypair K now a ks = Inr (kp, a', ks')"
  shows "agent_key K (ks_kek ks) (ia_metadata a') = Some kp"
  using assms(2)
proof (cases rule: ensure_cases)
  case (stored h wrapped seed)
  then show ?thesis by (simp add: agent_key_def unwrap_kek)
next
  case (fresh kek did seed nonce)
  have len: "length seed = 32" "length nonce = 12" using assms(1) by (simp_all add: aead_ok_def fresh(3,4))
  have "unwrap_agent_seed K ks (nonce @ ke_encrypt K kek nonce seed) = Inr seed"
    using assms(1) fresh(2) len by (simp add: unwrap_agent_seed_def nonce_size_def aead_ok_def)
  moreover have "stored_seed (ia_metadata a') = Inr (Some (hex_of (nonce @ ke_encrypt K kek nonce seed)))"
    by (simp add: fresh(6) stored_seed_def update_conv' py_truth_obj)
  ultimately show ?thesis using fresh(5) len by (simp add: agent_key_def unwrap_kek from_hex_of)
qed

lemma ensure_keeps:
  assumes "ensure_agent_keypair K now a ks = Inr (kp, a', ks')"
  shows "ks_kek ks' = ks_kek ks \<and> ia_id a' = ia_id a"
  using assms
  by (auto simp: ensure_agent_keypair_def generate_keypair_def wrap_agent_seed_def Let_def bindE_Inr_conv
      split: option.splits if_splits)

section \<open>Published documents\<close>

lemma builder_did:
  assumes "with_provider_did did b = Inr b'" shows "fb_provider_did b' = Some did"
  using assms by (auto simp: with_provider_did_def bindE_Inr_conv)

lemma agent_builder_did [simp]: "fb_provider_did (agent_builder E a ss b) = fb_provider_did b"
  by (simp add: agent_builder_def Let_def with_extensions_def with_certification_def with_skills_def with_auth_methods_def
      with_modalities_def with_endpoint_def)

lemma build_and_sign_certifies:
  assumes "ed25519_ok ed" and "length (private_seed kp) = 32" and "public_bytes kp = ed_public ed (private_seed kp)"
    and "build_and_sign ed fr now kp b = Inr d" and "build_did_key (public_bytes kp) = Inr did"
    and "fb_provider_did b = Some did"
  shows "verify_integrity ed fr d None = Inr True \<and> pv_did (af_provider d) = Some did
       \<and> map verification_did (af_credentials d) = [did] \<and> public_key_from_did did = Inr (public_bytes kp)"
proof -
  have kp: "kp = \<lparr>private_seed = private_seed kp, public_bytes = ed_public ed (private_seed kp)\<rparr>"
    using assms(3) by (cases kp) simp
  obtain cred where att: "attach_integrity_credential ed fr now kp (build_facts b) = Inr (cred, d)"
    using assms(4) by (auto simp: build_and_sign_def bindE_Inr_conv)
  then obtain payload where "facts_bytes fr (build_facts b) = Inr payload"
    by (auto simp: attach_integrity_credential_def bindE_Inr_conv mapErr_Inr_conv)
  from attach_ok[OF assms(1,2) this kp, of now] obtain did' where a: "build_did_key (ed_public ed (private_seed kp)) = Inr did'"
      "public_key_from_did did' = Inr (ed_public ed (private_seed kp))"
      "d = (build_facts b)\<lparr>af_credentials := [cred]\<rparr>" "verification_did cred = did'"
      "verify_credential ed fr (build_facts b) cred = Inr True"
    using att by (auto simp: build_facts_def)
  then show ?thesis using assms(3,5,6)
    by (simp add: verify_integrity_def) (simp add: build_facts_def)
qed

lemma ensure_pair:
  assumes "aead_ok K" and "ensure_agent_keypair K now agent ks = Inr (kp, agent', ks')"
  shows "length (private_seed kp) = 32 \<and> public_bytes kp = ed_public (ke_ed K) (private_seed kp)"
  using assms(2) by (cases rule: ensure_cases) (use assms(1) in \<open>simp_all add: keypair_of_def aead_ok_def\<close>)

text \<open>C37. Published documents certify themselves: the document built for an agent names the DID of the agent's key
  as its provider, carries one credential, made with that key, and verifies.\<close>

theorem agent_facts_certify:
  assumes "aead_ok (ie_keys E)" and "build_agent_facts E agent st = Inr (d, st')"
  shows "\<exists>kp did. (\<exists>agent' ks. ensure_agent_keypair (ie_keys E) (ie_now_text E) agent (id_keys st) = Inr (kp, agent', ks))
       \<and> verify_integrity (ke_ed (ie_keys E)) (re_repr (ie_resolver E)) d None = Inr True
       \<and> pv_did (af_provider d) = Some did \<and> map verification_did (af_credentials d) = [did]
       \<and> public_key_from_did did = Inr (public_bytes kp)"
proof -
  obtain kp agent' ks did skills b where steps:
      "ensure_agent_keypair (ie_keys E) (ie_now_text E) agent (id_keys st) = Inr (kp, agent', ks)"
      "build_did_key (public_bytes kp) = Inr did"
      "fb_provider_did b = Some did"
      "build_and_sign (ke_ed (ie_keys E)) (re_repr (ie_resolver E)) (ie_now_text E) kp (agent_builder E agent' skills b) = Inr d"
    using assms(2) by (auto simp: build_agent_facts_def sign_with_def bindE_Inr_conv mapErr_Inr_conv dest: builder_did)
  have "ed25519_ok (ke_ed (ie_keys E))" using assms(1) by (simp add: aead_ok_def)
  from build_and_sign_certifies[OF this _ _ steps(4,2)] ensure_pair[OF assms(1) steps(1)] steps(1,3)
  show ?thesis by (metis agent_builder_did)
qed

section \<open>Keys outlast changes\<close>

lemma build_agent_facts_steps:
  assumes "aead_ok (ie_keys E)" and "build_agent_facts E a st = Inr (d, st')"
  obtains kp a' ks' did where "ensure_agent_keypair (ie_keys E) (ie_now_text E) a (id_keys st) = Inr (kp, a', ks')"
    "build_did_key (public_bytes kp) = Inr did" "pv_did (af_provider d) = Some did"
    "st' = st\<lparr>id_keys := ks', id_agents := replace_agent a' (id_agents st)\<rparr>"
proof -
  obtain kp a' ks' did skills b where steps:
      "ensure_agent_keypair (ie_keys E) (ie_now_text E) a (id_keys st) = Inr (kp, a', ks')"
      "build_did_key (public_bytes kp) = Inr did" "fb_provider_did b = Some did"
      "build_and_sign (ke_ed (ie_keys E)) (re_repr (ie_resolver E)) (ie_now_text E) kp (agent_builder E a' skills b) = Inr d"
      "st' = st\<lparr>id_keys := ks', id_agents := replace_agent a' (id_agents st)\<rparr>"
    using assms(2) by (auto simp: build_agent_facts_def sign_with_def bindE_Inr_conv mapErr_Inr_conv dest: builder_did)
  have "ed25519_ok (ke_ed (ie_keys E))" using assms(1) by (simp add: aead_ok_def)
  from build_and_sign_certifies[OF this _ _ steps(4,2)] ensure_pair[OF assms(1) steps(1)] steps(3)
  have "pv_did (af_provider d) = Some did" by simp
  with that steps show thesis by blast
qed

definition key_held :: "key_env \<Rightarrow> keypair \<Rightarrow> bytes option \<Rightarrow> uuid \<Rightarrow> identity_state \<Rightarrow> bool" where
  "key_held K kp kek u st \<longleftrightarrow> distinct (map ia_id (id_agents st)) \<and> ks_kek (id_keys st) = kek
     \<and> (case lookup_by ia_id u (id_agents st) of None \<Rightarrow> False | Some a \<Rightarrow> agent_key K kek (ia_metadata a) = Some kp)"

lemma replace_ids: "map ia_id (replace_agent a rows) = map ia_id rows"
  by (simp add: replace_agent_def)

lemma lookup_replace:
  "lookup_by ia_id u (replace_agent a rows)
     = (if u = ia_id a \<and> u \<in> ia_id ` set rows then Some a else lookup_by ia_id u rows)"
  by (induction rows) (auto simp: replace_agent_def)

lemma lookup_row: "lookup_by ia_id u rows = Some a \<Longrightarrow> a \<in> set rows \<and> ia_id a = u"
  by (rule lookup_by_Some)

lemma key_held_keys: "ks_kek ks = kek \<Longrightarrow> key_held K kp kek u st \<Longrightarrow> key_held K kp kek u (st\<lparr>id_keys := ks\<rparr>)"
  by (simp add: key_held_def)

lemma key_held_cache: "id_agents st' = id_agents st \<Longrightarrow> id_keys st' = id_keys st \<Longrightarrow> key_held K kp kek u st' = key_held K kp kek u st"
  by (simp add: key_held_def)

lemma key_held_write: "key_held K kp kek u (write_facts_cache E k d ttl st) = key_held K kp kek u st"
  by (rule key_held_cache) (simp_all add: write_facts_cache_def)

lemma key_held_build:
  assumes "aead_ok (ie_keys E)" and "key_held (ie_keys E) kp kek u st" and "a \<in> set (id_agents st)"
    and "build_agent_facts E a st = Inr (d, st')"
  shows "key_held (ie_keys E) kp kek u st'"
proof -
  obtain kp' a' ks' did where b: "ensure_agent_keypair (ie_keys E) (ie_now_text E) a (id_keys st) = Inr (kp', a', ks')"
      "st' = st\<lparr>id_keys := ks', id_agents := replace_agent a' (id_agents st)\<rparr>"
    using build_agent_facts_steps[OF assms(1,4)] by metis
  obtain r where r: "lookup_by ia_id u (id_agents st) = Some r" "agent_key (ie_keys E) kek (ia_metadata r) = Some kp"
      "distinct (map ia_id (id_agents st))" "ks_kek (id_keys st) = kek"
    using assms(2) by (auto simp: key_held_def split: option.splits)
  have kept: "ks_kek ks' = kek" "ia_id a' = ia_id a" using ensure_keeps[OF b(1)] r(4) by simp_all
  have "a' = r" if "u = ia_id a"
  proof -
    have "a = r" using lookup_by_distinct[OF r(3) assms(3)] r(1) that by simp
    then show ?thesis using b(1) agent_key_ensured[of "ie_keys E" "id_keys st" r kp] r(2,4) by simp
  qed
  then show ?thesis using r kept by (auto simp: key_held_def b(2) replace_ids lookup_replace)
qed

lemma update_agent_row:
  assumes "update_agent v data st = Inr (a, st')"
  shows "\<exists>r. lookup_by ia_id v (id_agents st) = Some r \<and> ia_id a = v
       \<and> ia_metadata a = set_json [] (au_metadata data) (ia_metadata r)
       \<and> (st' = st \<or> st' = st\<lparr>id_agents := replace_agent a (id_agents st)\<rparr>)"
proof (cases "lookup_by ia_id v (id_agents st)")
  case (Some r)
  have "ia_id r = v" using lookup_row[OF Some] by simp
  then show ?thesis using assms Some
    by (cases "data = nothing_set")
      (auto simp: update_agent_def set_json_def[of _ None] nothing_set_def Let_def split: option.splits if_splits)
qed (use assms in \<open>simp add: update_agent_def\<close>)

lemma key_held_step:
  assumes "identity_step K u st st'" and "aead_ok K" and "key_held K kp kek u st"
  shows "key_held K kp kek u st'"
  using assms(1)
proof cases
  case (instance_requested E d)
  have "key_held K kp kek u st1" if built: "build_instance_facts E st = Inr (d, st1)" for d st1
  proof -
    obtain ks p where "instance_keypair K (id_keys st) = Inr (p, ks)" "st1 = st\<lparr>id_keys := ks\<rparr>"
      using built instance_requested(1) by (auto simp: build_instance_facts_def bindE_Inr_conv mapErr_Inr_conv Let_def)
    moreover from this have "ks_kek ks = ks_kek (id_keys st)"
      by (auto simp: instance_keypair_def generate_keypair_def persist_instance_key_def Let_def split: option.splits if_splits)
    ultimately show ?thesis using assms(3) key_held_keys[of ks kek K kp u st] by (simp add: key_held_def)
  qed
  then show ?thesis using instance_requested(2) assms(3)
    by (auto simp: get_instance_facts_def bindE_Inr_conv key_held_write split: option.splits)
next
  case (agent_requested E i d)
  have "key_held K kp kek u st1" if "load_agent st i = Inr a" "build_agent_facts E a st = Inr (d, st1)" for a d st1
    using that key_held_build[of E kp kek u st a d st1] agent_requested(1) assms(2,3)
    by (auto simp: load_agent_def dest: lookup_row split: option.splits)
  then show ?thesis using agent_requested(2) assms(3)
    by (auto simp: get_agent_facts_def bindE_Inr_conv key_held_write split: option.splits)
next
  case (did_requested E R did name url r)
  have looked: "key_held K kp kek u (case lookup_facts_by_did E did st of Inl _ \<Rightarrow> st | Inr (_, s) \<Rightarrow> s)"
  proof (cases "lookup_facts_by_did E did st")
    case (Inr out)
    obtain x s where out: "out = (x, s)" by (cases out)
    consider "s = st" | a d where "a \<in> set (id_agents st)" "build_agent_facts E a st = Inr (d, s)"
    proof -
      assume thus1: "s = st \<Longrightarrow> thesis" and thus2: "\<And>a d. a \<in> set (id_agents st) \<Longrightarrow> build_agent_facts E a st = Inr (d, s) \<Longrightarrow> thesis"
      show thesis
      proof (cases "filter (\<lambda>a. stored_did a = Some did) (id_agents st)")
        case Nil
        then show thesis using Inr out thus1 by (auto simp: lookup_facts_by_did_def bindE_Inr_conv)
      next
        case (Cons a as)
        then have "a \<in> set (filter (\<lambda>a. stored_did a = Some did) (id_agents st))" by simp
        then have "a \<in> set (id_agents st)" by simp
        then show thesis using Cons Inr out thus2
          by (cases as) (auto simp: lookup_facts_by_did_def bindE_Inr_conv)
      qed
    qed
    then show ?thesis using Inr out assms(2,3) did_requested(1) key_held_build[of E kp kek u st] by cases auto
  qed (use assms(3) in simp)
  show ?thesis
  proof (cases "read_facts_cache E (resolve_cache_key did) st")
    case None
    with did_requested(2) obtain r' where
      "st' = write_facts_cache E (resolve_cache_key did) r' (ng_resolve_ttl (ie_settings E))
               (case lookup_facts_by_did E did st of Inl _ \<Rightarrow> st | Inr (_, s) \<Rightarrow> s)"
      by (auto simp: service_resolve_did_def Let_def bindE_Inr_conv)
    then show ?thesis using looked by (simp add: key_held_write)
  qed (use did_requested(2) assms(3) in \<open>simp add: service_resolve_did_def\<close>)
next
  case key_rotated
  have "ks_kek (snd (rotate_instance_keypair K ks)) = ks_kek ks" for ks
    by (simp add: rotate_instance_keypair_def generate_keypair_def persist_instance_key_def Let_def split: option.splits)
  then show ?thesis using assms(3) unfolding key_rotated by (simp add: key_held_def)
next
  case (evicted key)
  then show ?thesis using assms(3) by (simp add: key_held_def invalidate_cached_def)
next
  case (agent_created a a')
  then have "st' = st\<lparr>id_agents := id_agents st @ [a]\<rparr>" "ia_id a \<notin> ia_id ` set (id_agents st)"
    by (auto simp: create_agent_def list_ex_iff split: if_splits)
  then show ?thesis using assms(3) by (auto simp: key_held_def lookup_by_append split: option.splits)
next
  case (agent_updated v data a)
  from update_agent_row[OF agent_updated(1)] obtain r where r: "lookup_by ia_id v (id_agents st) = Some r" "ia_id a = v"
      "ia_metadata a = set_json [] (au_metadata data) (ia_metadata r)"
      "st' = st \<or> st' = st\<lparr>id_agents := replace_agent a (id_agents st)\<rparr>" by blast
  have "ia_metadata a = ia_metadata r" if "v = u" using agent_updated(2) r(3) that by (simp add: set_json_def)
  then show ?thesis using assms(3) r(1,2,4) by (auto simp: key_held_def replace_ids lookup_replace)
next
  case (request_failed ks)
  then show ?thesis using assms(3) by (simp add: key_held_def)
qed

lemma key_held_steps:
  "(identity_step K u)\<^sup>*\<^sup>* st st' \<Longrightarrow> aead_ok K \<Longrightarrow> key_held K kp kek u st \<Longrightarrow> key_held K kp kek u st'"
  by (induction rule: rtranclp_induct) (auto intro: key_held_step)

text \<open>C36. An agent keeps its key under one key-encryption key: once a document was built for it, every later request
  uses the key pair of that document and changes neither row nor store, and every later document names
  the same DID, whatever was requested, drawn, rotated, created or updated in between, except for a
  replacement of the agent's own metadata.\<close>

theorem agent_key_stable:
  assumes "aead_ok K" and "ie_keys E = K" and "distinct (map ia_id (id_agents st))" and "agent \<in> set (id_agents st)"
    and "build_agent_facts E agent st = Inr (d, st1)" and "(identity_step K (ia_id agent))\<^sup>*\<^sup>* st1 st2"
  shows "\<exists>kp agent1 ks1 agent2.
           ensure_agent_keypair K (ie_now_text E) agent (id_keys st) = Inr (kp, agent1, ks1)
         \<and> lookup_by ia_id (ia_id agent) (id_agents st2) = Some agent2
         \<and> (\<forall>now. ensure_agent_keypair K now agent2 (id_keys st2) = Inr (kp, agent2, id_keys st2))
         \<and> (\<forall>E' d' st3. ie_keys E' = K \<longrightarrow> build_agent_facts E' agent2 st2 = Inr (d', st3)
              \<longrightarrow> pv_did (af_provider d') = pv_did (af_provider d))"
proof -
  obtain kp agent1 ks1 did where b: "ensure_agent_keypair K (ie_now_text E) agent (id_keys st) = Inr (kp, agent1, ks1)"
      "build_did_key (public_bytes kp) = Inr did" "pv_did (af_provider d) = Some did"
      "st1 = st\<lparr>id_keys := ks1, id_agents := replace_agent agent1 (id_agents st)\<rparr>"
    using build_agent_facts_steps[of E agent st d st1] assms(1,2,5) by metis
  have "key_held K kp (ks_kek (id_keys st)) (ia_id agent) st1"
    using ensure_keeps[OF b(1)] ensure_agent_key[OF assms(1) b(1)] assms(3,4)
    by (simp add: key_held_def b(4) replace_ids lookup_replace)
  then obtain agent2 where a: "lookup_by ia_id (ia_id agent) (id_agents st2) = Some agent2"
      "agent_key K (ks_kek (id_keys st2)) (ia_metadata agent2) = Some kp"
    using key_held_steps[OF assms(6,1)] by (auto simp: key_held_def split: option.splits)
  note later = agent_key_ensured[OF a(2)]
  have "pv_did (af_provider d') = pv_did (af_provider d)" if E': "ie_keys E' = K" "build_agent_facts E' agent2 st2 = Inr (d', st3)" for E' d' st3
    using build_agent_facts_steps[OF _ E'(2)] assms(1) E'(1) later b(2,3) by (metis Pair_inject sum.inject(2))
  then show ?thesis using b(1) a(1) later by blast
qed

text \<open>The exception is real: the row of an agent holds nothing else of its key, so an update that sets the metadata
  drops the key, and the next request draws a new pair.\<close>

theorem metadata_update_renews_key:
  assumes "aead_ok K" and "update_agent u data st = Inr (a, st')"
    and "au_metadata data = Some (Some m)" and "map_of m key_field = None" and "ks_kek (id_keys st) = Some kek"
  shows "\<exists>a' ks'. ensure_agent_keypair K now a (id_keys st')
       = Inr (keypair_of K (ke_seed K (ks_drawn (id_keys st))), a', ks')"
proof -
  have same: "ia_metadata a = m" "id_keys st' = id_keys st"
    using update_agent_row[OF assms(2)] assms(3) by (auto simp: set_json_def)
  have "length (ke_seed K n) = 32" "length (ed_public (ke_ed K) (ke_seed K n)) = 32" for n
    using assms(1) by (simp_all add: aead_ok_def ed25519_ok_def)
  then show ?thesis using assms(4,5)
    by (simp add: ensure_agent_keypair_def same stored_seed_def generate_keypair_def wrap_agent_seed_def keypair_of_def
        build_did_key_def Let_def)
qed

section \<open>Whom the service believes\<close>

text \<open>The service caches what the resolver believes: with nothing cached and no agent of the node under the DID, the
  impostor's document is the answer, and as long as Redis keeps it, the answer to every later request for the
  DID, whatever hints come with it.\<close>

theorem service_believes_any_signer:
  assumes "ed25519_ok (re_ed (ie_resolver E))" and "length seed = 32" and "facts_bytes (re_repr (ie_resolver E)) d = Inr payload"
    and "attach_integrity_credential (re_ed (ie_resolver E)) (re_repr (ie_resolver E)) now
           \<lparr>private_seed = seed, public_bytes = ed_public (re_ed (ie_resolver E)) seed\<rparr> (d\<lparr>af_credentials := []\<rparr>) = Inr (cred, signed_doc)"
    and "case pv_did (af_provider d) of None \<Rightarrow> True | Some p \<Rightarrow> is_ok (parse_did p)"
    and "re_validate (ie_resolver E) raw = Inr signed_doc" and "answer url = Inr (Some raw)" and "is_ok (parse_did did)"
    and "no_document (ask (dr_index R) username_hint)" and "dr_well_known R = Some answer"
    and "read_facts_cache E (resolve_cache_key did) st = None" and "did \<notin> (the \<circ> stored_did) ` {a \<in> set (id_agents st). stored_did a \<noteq> None}"
    and "ie_redis_up E" and "0 < ng_resolve_ttl (ie_settings E)"
    and "re_validate (ie_resolver E) (to_document signed_doc) = Inr signed_doc"
  shows "\<exists>st'. service_resolve_did E R did username_hint (Some url) st
            = Inr (\<lparr>rv_did = did, rv_facts = signed_doc, rv_source = ''well_known''\<rparr>, st')
       \<and> (\<forall>R' name' url'. service_resolve_did E R' did name' url' st'
            = Inr (\<lparr>rv_did = did, rv_facts = signed_doc, rv_source = ''cache''\<rparr>, st'))"
proof -
  have "filter (\<lambda>a. stored_did a = Some did) (id_agents st) = []"
    using assms(12) by (force simp: filter_empty_conv)
  then have looked: "lookup_facts_by_did E did st = Inr (None, st)"
    using assms(8) by (auto simp: lookup_facts_by_did_def is_ok_conv)
  have local: "no_document (ask (dr_local (R\<lparr>dr_local := Some (\<lambda>_. Inr None)\<rparr>)) (Some did))"
    by (simp add: no_document_def ask_def)
  have "resolve_did (ie_resolver E) (R\<lparr>dr_local := Some (\<lambda>_. Inr None)\<rparr>) did username_hint (Some url)
      = Inr \<lparr>rv_did = did, rv_facts = signed_doc, rv_source = ''well_known''\<rparr>"
    using signer_accepted[where R = "R\<lparr>dr_local := Some (\<lambda>_. Inr None)\<rparr>" and answer = answer and url = url, OF assms(1-8) local] assms(9,10) by simp
  then show ?thesis using assms(11,13-15)
    by (simp add: service_resolve_did_def looked read_facts_cache_def write_facts_cache_def)
qed

section \<open>Disabled tools\<close>

text \<open>C38. An allowlist that allows nothing is ignored: when every tool an operator lists for an agent is switched
  off, the agent gets all the tools its capabilities unlock, while its published document advertises
  every tool on the list.\<close>

theorem disabled_tools_fall_back:
  assumes "kvs \<noteq> []" and "list_all (\<lambda>(k, flag). \<not> py_truth flag) kvs"
  shows "get_tools_for_agent ts (JObj kvs) caps = Some (get_tools_for_capabilities ts caps)
       \<and> (case agent_skills str_of (JObj kvs) of Inl _ \<Rightarrow> False | Inr skills \<Rightarrow> map sk_id skills = map fst kvs)"
proof -
  have "allowed_names (JObj kvs) = Some []"
    using assms(2) by (auto simp: allowed_names_def list_all_iff filter_empty_conv)
  moreover have "seqE (map (agent_skill str_of \<circ> JStr \<circ> fst) xs) = Inr (map (\<lambda>(k, v). [plain_skill k (k @ '' tool'') [''text''] [''text'']]) xs)" for xs :: dict
    by (induction xs) (auto simp: agent_skill_def)
  moreover have "map sk_id (concat (map (\<lambda>(k, v). [plain_skill k (k @ '' tool'') [''text''] [''text'']]) xs)) = map fst xs" for xs :: dict
    by (induction xs) (auto simp: plain_skill_def)
  ultimately show ?thesis using assms(1)
    by (simp add: get_tools_for_agent_def py_truth_obj agent_skills_def supported_entries_def comp_assoc)
qed

section \<open>Examples\<close>

definition demo_keys :: key_env where
  "demo_keys = \<lparr>ke_ed = demo_ed, ke_seed = (\<lambda>n. replicate 32 (of_nat n)), ke_nonce = (\<lambda>_. replicate 12 0),
     ke_encrypt = (\<lambda>kek nonce m. m @ replicate 16 0), ke_decrypt = (\<lambda>kek nonce c. Some (take (length c - 16) c))\<rparr>"

definition demo_key_store :: key_store where
  "demo_key_store = \<lparr>ks_file = None, ks_archive = [], ks_loaded = None, ks_kek = Some (replicate 32 9), ks_drawn = 4\<rparr>"

definition demo_agent :: identity_agent where
  "demo_agent = \<lparr>ia_id = 5, ia_name = ''A'', ia_description = ''d'', ia_version = [], ia_capabilities = [''web_search''],
     ia_supported = JNull, ia_cost_profile = [], ia_safety = 5, ia_metadata = []\<rparr>"

lemma demo_keys_ok: "aead_ok demo_keys"
  using demo_ed_ok by (simp add: aead_ok_def demo_keys_def)

lemma demo_ensure:
  "\<exists>agent' ks'. ensure_agent_keypair demo_keys ''t'' demo_agent demo_key_store = Inr (keypair_of demo_keys (replicate 32 4), agent', ks')
     \<and> ia_supported agent' = JNull \<and> ia_cost_profile agent' = [] \<and> ia_version agent' = []"
  by (simp add: ensure_agent_keypair_def stored_seed_def demo_agent_def generate_keypair_def wrap_agent_seed_def demo_keys_def
      demo_key_store_def keypair_of_def build_did_key_def demo_ed_def Let_def)

definition demo_identity_env :: identity_env where
  "demo_identity_env = \<lparr>ie_settings = \<lparr>ng_base_url = ''https://n/'', ng_instance_name = ''N'', ng_instance_description = ''d'',
       ng_app_version = ''1'', ng_trust_zone = ''z'', ng_index_username = [], ng_facts_ttl = 60, ng_resolve_ttl = 60\<rparr>,
     ie_keys = demo_keys, ie_resolver = \<lparr>re_ed = demo_ed, re_repr = ratio_repr, re_validate = (\<lambda>_. Inl ''no'')\<rparr>,
     ie_now_text = ''t'', ie_now = 0, ie_redis_up = True, ie_str = (\<lambda>_. []), ie_tools = [], ie_error_text = (\<lambda>_. [])\<rparr>"

definition demo_identity_state :: identity_state where
  "demo_identity_state = \<lparr>id_agents = [demo_agent], id_keys = demo_key_store, id_cache = (\<lambda>_. None)\<rparr>"

lemma plain_facts:
  assumes "case fb_extensions b of None \<Rightarrow> True
      | Some x \<Rightarrow> fx_examples x = [] \<and> fx_error_schema x = None \<and> fx_limits x = None"
    and "fb_telemetry b = None" and "fb_adaptive b = None"
  shows "plain_json (signable_body (build_facts b))"
  using assms
  by (auto simp: build_facts_def signable_body_def facts_fields_def opt_field_def provider_json_def endpoints_json_def
      capabilities_json_def str_list_def skill_json_def certification_json_def extensions_json_def split: option.splits)

lemma signs_plain:
  assumes "plain_json (signable_body (build_facts b))" and "length seed = 32"
  shows "\<exists>d. build_and_sign demo_ed fr now (keypair_of demo_keys seed) b = Inr d"
proof -
  obtain s where "emit fr (signable_body (build_facts b)) = Inr s" using emit_plain[OF assms(1)] by blast
  then have "facts_bytes fr (build_facts b) = Inr (encode_utf8 s)" by (simp add: facts_bytes_def canonicalize_def)
  moreover have "keypair_of demo_keys seed = \<lparr>private_seed = seed, public_bytes = ed_public demo_ed seed\<rparr>"
    by (simp add: keypair_of_def demo_keys_def)
  ultimately obtain cred d where "attach_integrity_credential demo_ed fr now (keypair_of demo_keys seed) (build_facts b) = Inr (cred, d)"
    using attach_ok[OF demo_ed_ok assms(2)] by metis
  then show ?thesis by (simp add: build_and_sign_def)
qed

lemma demo_build: "\<exists>d st'. build_agent_facts demo_identity_env demo_agent demo_identity_state = Inr (d, st')"
proof -
  obtain agent' ks' where e: "ensure_agent_keypair demo_keys ''t'' demo_agent demo_key_store
      = Inr (keypair_of demo_keys (replicate 32 4), agent', ks')" "ia_supported agent' = JNull" "ia_cost_profile agent' = []"
    using demo_ensure by blast
  have pub: "length (public_bytes (keypair_of demo_keys (replicate 32 4))) = 32" by (simp add: keypair_of_def demo_keys_def demo_ed_def)
  then obtain did where did: "build_did_key (public_bytes (keypair_of demo_keys (replicate 32 4))) = Inr did"
      "public_key_from_did did = Inr (public_bytes (keypair_of demo_keys (replicate 32 4)))"
    using public_key_build_did_key by blast
  then obtain p where "parse_did did = Inr p" by (auto simp: public_key_from_did_def bindE_Inr_conv)
  then have "\<exists>b'. with_provider_did did b = Inr b' \<and> b' = b\<lparr>fb_provider_did := Some did\<rparr>" for b
    by (simp add: with_provider_did_def)
  moreover have "plain_json (signable_body (build_facts (agent_builder E agent' [] (facts_builder i l d v n u\<lparr>fb_provider_did := x\<rparr>))))" for E i l d v n u x
    by (rule plain_facts) (simp_all add: agent_builder_def Let_def e(3) limits_from_cost_profile_def limit_keys_def map_filter_def
        with_extensions_def with_certification_def with_skills_def with_auth_methods_def with_modalities_def with_endpoint_def facts_builder_def)
  ultimately show ?thesis using e did signs_plain[of _ "replicate 32 4" ratio_repr "''t''"]
    by (simp add: build_agent_facts_def demo_identity_env_def demo_identity_state_def sign_with_def agent_skills_def
        supported_entries_def py_truth_def demo_keys_def bindE_Inr_conv mapErr_Inr_conv)
qed

definition renaming :: agent_update where
  "renaming = nothing_set\<lparr>au_name := Some (Some ''B'')\<rparr>"

text \<open>A document, then a rotation of the instance key and a change of the agent's name.\<close>

theorem agent_key_stable_witness:
  "\<exists>d st1 kp agent2 st2. build_agent_facts demo_identity_env demo_agent demo_identity_state = Inr (d, st1)
     \<and> update_agent 5 renaming (st1\<lparr>id_keys := snd (rotate_instance_keypair demo_keys (id_keys st1))\<rparr>) = Inr (agent2, st2)
     \<and> lookup_by ia_id 5 (id_agents st2) = Some agent2 \<and> ia_name agent2 = ''B''
     \<and> ensure_agent_keypair demo_keys ''u'' agent2 (id_keys st2) = Inr (kp, agent2, id_keys st2)"
proof -
  have keys: "ie_keys demo_identity_env = demo_keys" by (simp add: demo_identity_env_def)
  obtain d st1 where d: "build_agent_facts demo_identity_env demo_agent demo_identity_state = Inr (d, st1)" using demo_build by blast
  obtain kp a' ks' did where b: "ensure_agent_keypair demo_keys (ie_now_text demo_identity_env) demo_agent demo_key_store = Inr (kp, a', ks')"
      "st1 = demo_identity_state\<lparr>id_keys := ks', id_agents := replace_agent a' (id_agents demo_identity_state)\<rparr>"
    using build_agent_facts_steps[OF _ d, unfolded keys, OF demo_keys_ok, of thesis] by (simp add: demo_identity_state_def)
  have i: "ia_id a' = 5" using ensure_keeps[OF b(1)] by (simp add: demo_agent_def)
  define rotated where "rotated = st1\<lparr>id_keys := snd (rotate_instance_keypair demo_keys (id_keys st1))\<rparr>"
  have rows: "id_agents rotated = [a']" using i by (simp add: rotated_def b(2) demo_identity_state_def replace_agent_def demo_agent_def)
  obtain agent2 st2 where up: "update_agent 5 renaming rotated = Inr (agent2, st2)" "lookup_by ia_id 5 (id_agents st2) = Some agent2"
      "ia_name agent2 = ''B''"
    by (simp add: update_agent_def rows i renaming_def nothing_set_def set_column_def replace_agent_def Let_def)
  have "identity_step demo_keys 5 st1 rotated" unfolding rotated_def by (rule identity_step.key_rotated)
  moreover have "identity_step demo_keys 5 rotated st2"
    by (rule identity_step.agent_updated[OF up(1)]) (simp add: renaming_def nothing_set_def)
  ultimately have steps: "(identity_step demo_keys (ia_id demo_agent))\<^sup>*\<^sup>* st1 st2" by (simp add: demo_agent_def)
  have "demo_agent \<in> set (id_agents demo_identity_state)" "distinct (map ia_id (id_agents demo_identity_state))"
    by (simp_all add: demo_identity_state_def)
  from agent_key_stable[OF demo_keys_ok keys this(2,1) d steps] up(2)
  have "\<exists>kp. ensure_agent_keypair demo_keys ''u'' agent2 (id_keys st2) = Inr (kp, agent2, id_keys st2)"
    by (auto simp: demo_agent_def)
  then show ?thesis using d up by (auto simp: rotated_def)
qed

theorem agent_facts_certify_witness:
  "\<exists>d st'. build_agent_facts demo_identity_env demo_agent demo_identity_state = Inr (d, st')
     \<and> verify_integrity demo_ed ratio_repr d None = Inr True"
proof -
  obtain d st' where d: "build_agent_facts demo_identity_env demo_agent demo_identity_state = Inr (d, st')" using demo_build by blast
  have "aead_ok (ie_keys demo_identity_env)" using demo_keys_ok by (simp add: demo_identity_env_def)
  from agent_facts_certify[OF this d] have "verify_integrity demo_ed ratio_repr d None = Inr True"
    by (auto simp: demo_identity_env_def demo_keys_def)
  with d show ?thesis by blast
qed

theorem disabled_tools_fall_back_witness:
  "get_tools_for_agent [\<lparr>te_name = ''code_execute'', te_capabilities = [''code'']\<rparr>] (JObj [(''code_execute'', JBool False)]) [''code'']
     = Some [\<lparr>te_name = ''code_execute'', te_capabilities = [''code'']\<rparr>]"
  using disabled_tools_fall_back[of "[(''code_execute'', JBool False)]" "[\<lparr>te_name = ''code_execute'', te_capabilities = [''code'']\<rparr>]" "[''code'']"]
  by (simp add: py_truth_def get_tools_for_capabilities_def)

end
