(* ===== verification/Py_Text.thy ===== *)
theory Py_Text
  imports Json_Parse
begin

text \<open>
  Searching in Python strings, as the code does in the answers of language models: substrings, words,
  the first match of the regular expression for a fenced block, and the text from the first opening
  to the last closing brace.
\<close>

section \<open>Substrings\<close>

text \<open>\<open>p in s\<close>.\<close>

fun contains :: "string \<Rightarrow> string \<Rightarrow> bool" where
  "contains p [] \<longleftrightarrow> p = []"
| "contains p (c # s) \<longleftrightarrow> starts_with p (c # s) \<or> contains p s"

definition contains_any :: "string list \<Rightarrow> string \<Rightarrow> bool" where
  "contains_any ps s \<longleftrightarrow> (\<exists>p \<in> set ps. contains p s)"

text \<open>\<open>s.find(p)\<close> splits \<open>s\<close> before the first \<open>p\<close>.\<close>

fun cut_at :: "string \<Rightarrow> string \<Rightarrow> (string \<times> string) option" where
  "cut_at p [] = (if p = [] then Some ([], []) else None)"
| "cut_at p (c # s) =
     (if starts_with p (c # s) then Some ([], c # s)
      else map_option (\<lambda>(a, b). (c # a, b)) (cut_at p s))"

text \<open>\<open>s.split()\<close>.\<close>

fun words_from :: "string \<Rightarrow> string \<Rightarrow> string list" where
  "words_from w [] = (if w = [] then [] else [w])"
| "words_from w (c # s) =
     (if is_space c then (if w = [] then words_from [] s else w # words_from [] s) else words_from (w @ [c]) s)"

definition words :: "string \<Rightarrow> string list" where
  "words s = words_from [] s"

text \<open>\<open>s[:n]\<close> in code points.\<close>

fun py_take :: "nat \<Rightarrow> string \<Rightarrow> string" where
  "py_take n [] = []"
| "py_take n (c # s) =
     (if 128 \<le> (of_char c :: nat) \<and> (of_char c :: nat) < 192 then c # py_take n s
      else case n of 0 \<Rightarrow> [] | Suc m \<Rightarrow> c # py_take m s)"

lemma contains_iff: "contains p s \<longleftrightarrow> (\<exists>a b. s = a @ p @ b)"
proof (induction s)
  case (Cons c s)
  have "(\<exists>a b. c # s = a @ p @ b) \<longleftrightarrow> (\<exists>b. c # s = p @ b) \<or> (\<exists>a b. s = a @ p @ b)"
    by (metis (no_types, opaque_lifting) append_Cons append_Nil list.exhaust list.inject)
  with Cons show ?case by (simp add: starts_with_iff)
qed simp

lemma cut_at_Some: "cut_at p s = Some (a, b) \<Longrightarrow> s = a @ b \<and> starts_with p b"
  by (induction s arbitrary: a) (auto simp: starts_with_def split: if_splits)

lemma cut_at_None: "cut_at p s = None \<longleftrightarrow> \<not> contains p s"
  by (induction s) auto

section \<open>Blocks\<close>

definition fence :: string where
  "fence = ''```''"

text \<open>
  \<open>re.search(r"```(?:json)?\s*\n?(.*?)\n?\s*```", text, re.DOTALL)\<close> and then \<open>group(1).strip()\<close>: the
  first fence that another one follows opens the block, the next fence closes it.
\<close>

definition fenced_block :: "string \<Rightarrow> string option" where
  "fenced_block s =
     (case cut_at fence s of
        None \<Rightarrow> None
      | Some (_, rest) \<Rightarrow>
          let body = drop 3 rest; inner = (if starts_with ''json'' body then drop 4 body else body)
          in map_option (\<lambda>(block, _). str_strip block) (cut_at fence inner))"

text \<open>The text from the first \<open>{\<close> to the last \<open>}\<close>, when both are there; it is empty when they come the other
  way round.\<close>

definition brace_span :: "string \<Rightarrow> string option" where
  "brace_span s =
     (if CHR ''{'' \<notin> set s \<or> CHR ''}'' \<notin> set s then None
      else let rest = dropWhile (\<lambda>c. c \<noteq> CHR ''{'') s
           in Some (rev (dropWhile (\<lambda>c. c \<noteq> CHR ''}'') (rev rest))))"

end
