(* ===== verification/Planning.thy ===== *)
theory Planning
  imports Py_Text Scheduler_Laws
begin

text \<open>
  Models \<^verbatim>\<open>backend/app/intelligence/goal_interpreter.py\<close>, \<^verbatim>\<open>backend/app/intelligence/planner.py\<close> and
  \<^verbatim>\<open>backend/app/orchestration/decomposer.py\<close>: a prompt becomes a goal, a goal a plan, and a request a
  graph of tasks.

  What a language model answers is a parameter: an exception or a text, which the code parses with
  \<open>json.loads\<close> (\<open>Json_Parse\<close>). The prompts it is sent are left out. A pydantic \<open>str\<close> field takes
  strings only; case folding and white space are those of ASCII.
\<close>

section \<open>Goals\<close>

record goal =
  sg_prompt :: string
  sg_intent :: string
  sg_constraints :: "string list"
  sg_risk :: string
  sg_output :: string
  sg_complexity :: string
  sg_domain :: "string option"
  sg_stops :: "string list"

definition goal_of_json :: "string \<Rightarrow> json \<Rightarrow> goal option" where
  "goal_of_json prompt v =
     (case v of
        JObj kvs \<Rightarrow>
          Option.bind (optional_key kvs ''intent'' ''analyze'' json_str) (\<lambda>intent.
          Option.bind (optional_key kvs ''constraints'' [] json_strs) (\<lambda>constraints.
          Option.bind (optional_key kvs ''risk_level'' ''medium'' json_str) (\<lambda>risk.
          Option.bind (optional_key kvs ''expected_output_type'' ''report'' json_str) (\<lambda>out.
          Option.bind (optional_key kvs ''complexity_estimate'' ''moderate'' json_str) (\<lambda>complexity.
          Option.bind (optional_key kvs ''domain_hint'' None maybe_str) (\<lambda>domain.
          Option.bind (optional_key kvs ''stop_conditions'' [] json_strs) (\<lambda>stops.
            Some \<lparr>sg_prompt = prompt, sg_intent = intent, sg_constraints = constraints, sg_risk = risk, sg_output = out,
                  sg_complexity = complexity, sg_domain = domain, sg_stops = stops\<rparr>)))))))
      | _ \<Rightarrow> None)"

definition goal_text :: "string \<Rightarrow> string" where
  "goal_text answer =
     (let content = str_strip answer;
          block = (case fenced_block content of None \<Rightarrow> content | Some b \<Rightarrow> b)
      in case brace_span block of None \<Rightarrow> block | Some t \<Rightarrow> t)"

definition heuristic_intents :: "(string list \<times> string) list" where
  "heuristic_intents =
     [([''compare'', ''versus'', ''vs'', ''difference''], ''compare''),
      ([''explain'', ''what is'', ''how does''], ''explain''),
      ([''create'', ''build'', ''generate'', ''write''], ''create''),
      ([''plan'', ''strategy'', ''roadmap''], ''plan''),
      ([''fix'', ''debug'', ''error'', ''issue''], ''debug'')]"

definition heuristic_interpret :: "string \<Rightarrow> goal" where
  "heuristic_interpret prompt =
     (let low = str_lower prompt;
          intent = (case List.find (\<lambda>(ws, _). contains_any ws low) heuristic_intents of
                      None \<Rightarrow> ''analyze'' | Some (_, i) \<Rightarrow> i);
          n = length (words prompt);
          complexity = (if n < 20 then ''simple'' else if n < 60 then ''moderate'' else ''complex'');
          risk = (if contains_any [''critical'', ''urgent'', ''production'', ''patient'', ''financial'', ''legal''] low then ''high''
                  else if contains_any [''important'', ''significant'', ''risk''] low then ''medium'' else ''low'')
      in \<lparr>sg_prompt = prompt, sg_intent = intent, sg_constraints = [], sg_risk = risk,
          sg_output = (if complexity = ''simple'' then ''answer'' else ''report''), sg_complexity = complexity,
          sg_domain = None, sg_stops = []\<rparr>)"

definition interpret_goal :: "string + string \<Rightarrow> string \<Rightarrow> goal" where
  "interpret_goal answer prompt =
     (case answer of
        Inl _ \<Rightarrow> heuristic_interpret prompt
      | Inr text \<Rightarrow>
          (case Option.bind (json_loads (goal_text text)) (goal_of_json prompt) of
             None \<Rightarrow> heuristic_interpret prompt | Some g \<Rightarrow> g))"

section \<open>Plans\<close>

datatype execution_mode = DirectResponse | DagPipeline | Iterative | VerifyAndRefine | ExploreAndPrune

record plan =
  ep_mode :: execution_mode
  ep_goal :: goal
  ep_max_iterations :: nat
  ep_threshold :: rat
  ep_allocation :: "(string \<times> rat) list"
  ep_reasoning :: string

definition allocation :: "nat \<Rightarrow> nat \<Rightarrow> nat \<Rightarrow> nat \<Rightarrow> (string \<times> rat) list" where
  "allocation execution reflection verification synthesis =
     [(''execution'', py_double (of_nat execution / 100)), (''reflection'', py_double (of_nat reflection / 100)),
      (''verification'', py_double (of_nat verification / 100)), (''synthesis'', py_double (of_nat synthesis / 100))]"

definition explicit_tool_keywords :: "string list" where
  "explicit_tool_keywords =
     [''code_execute'', ''web_search'', ''web_scrape'', ''file_read'', ''file_write'', ''file_list'', ''api_call'',
      ''use the tool'', ''use a tool'', ''run this'', ''execute this'', ''sandbox'', ''do not answer from memory'',
      ''do not answer directly'']"

definition arrow :: string where
  "arrow = [CHR 0x20, CHR 0xE2, CHR 0x86, CHR 0x92, CHR 0x20]"

definition make_plan :: "goal \<Rightarrow> plan" where
  "make_plan g =
     (if contains_any explicit_tool_keywords (str_lower (sg_prompt g)) then
        \<lparr>ep_mode = DagPipeline, ep_goal = g, ep_max_iterations = 1, ep_threshold = py_double (7 / 10),
         ep_allocation = allocation 70 10 10 10,
         ep_reasoning = ''Prompt explicitly requested tool execution'' @ arrow @ ''DAG pipeline forced''\<rparr>
      else if sg_complexity g = ''simple'' \<and> sg_risk g = ''low'' then
        \<lparr>ep_mode = DirectResponse, ep_goal = g, ep_max_iterations = 1, ep_threshold = py_double (1 / 2),
         ep_allocation = [(''execution'', py_double (9 / 10)), (''synthesis'', py_double (1 / 10))],
         ep_reasoning = ''Simple, low-risk request'' @ arrow @ ''direct LLM response without multi-agent orchestration''\<rparr>
      else if sg_risk g = ''high'' then
        \<lparr>ep_mode = VerifyAndRefine, ep_goal = g, ep_max_iterations = 3, ep_threshold = py_double (9 / 10),
         ep_allocation = allocation 55 10 25 10,
         ep_reasoning = ''High-risk request'' @ arrow @ ''DAG pipeline with mandatory verification pass''\<rparr>
      else if sg_intent g = ''compare'' then
        \<lparr>ep_mode = ExploreAndPrune, ep_goal = g, ep_max_iterations = 2, ep_threshold = py_double (7 / 10),
         ep_allocation = allocation 65 15 10 10,
         ep_reasoning = ''Comparison request'' @ arrow @ ''explore multiple approaches in parallel, select best''\<rparr>
      else if sg_intent g \<in> {''explain'', ''debug''} \<and> sg_complexity g = ''moderate'' then
        \<lparr>ep_mode = Iterative, ep_goal = g, ep_max_iterations = 5, ep_threshold = py_double (8 / 10),
         ep_allocation = allocation 60 20 5 15,
         ep_reasoning = sg_intent g @ '' with moderate complexity'' @ arrow @ ''iterative agent-reflect loop''\<rparr>
      else
        \<lparr>ep_mode = DagPipeline, ep_goal = g, ep_max_iterations = 1, ep_threshold = py_double (7 / 10),
         ep_allocation = allocation 70 10 10 10,
         ep_reasoning = ''Standard request'' @ arrow @ ''classic DAG decomposition and parallel execution''\<rparr>)"

section \<open>Decomposition\<close>

record decomposed_task =
  dt_id :: string
  dt_capability :: string
  dt_description :: string
  dt_depends_on :: "string list"
  dt_complexity :: string

definition max_decomposition_retries :: nat where "max_decomposition_retries = 2"

definition task_of_json :: "json \<Rightarrow> decomposed_task option" where
  "task_of_json v =
     (case v of
        JObj kvs \<Rightarrow>
          Option.bind (required kvs ''id'' json_str) (\<lambda>i.
          Option.bind (required kvs ''capability'' json_str) (\<lambda>cap.
          Option.bind (required kvs ''description'' json_str) (\<lambda>desc.
          Option.bind (optional_key kvs ''depends_on'' [] json_strs) (\<lambda>deps.
          Option.bind (optional_key kvs ''estimated_complexity'' ''medium'' json_str) (\<lambda>complexity.
            if py_len desc < 10 then None
            else Some \<lparr>dt_id = i, dt_capability = cap, dt_description = desc, dt_depends_on = deps,
                       dt_complexity = (if complexity \<in> {''low'', ''medium'', ''high''} then complexity else ''medium'')\<rparr>)))))
      | _ \<Rightarrow> None)"

definition tasks_of_json :: "json \<Rightarrow> (string \<times> decomposed_task list) option" where
  "tasks_of_json v =
     (case v of
        JObj kvs \<Rightarrow>
          Option.bind (optional_key kvs ''domain'' [] json_str) (\<lambda>domain.
          Option.bind (required kvs ''tasks'' (\<lambda>t. case t of JArr vs \<Rightarrow> those (map task_of_json vs) | _ \<Rightarrow> None)) (\<lambda>tasks.
            if tasks = [] then None else Some (domain, tasks)))
      | _ \<Rightarrow> None)"

text \<open>\<open>_extract_json\<close>: the whole text, a fenced block, or the span between the outer braces.\<close>

definition extract_json :: "string \<Rightarrow> json option" where
  "extract_json answer =
     (let text = str_strip answer in
      case json_loads text of
        Some v \<Rightarrow> Some v
      | None \<Rightarrow>
          (case Option.bind (fenced_block text) json_loads of
             Some v \<Rightarrow> Some v
           | None \<Rightarrow> Option.bind (brace_span text) json_loads))"

fun best_overlap :: "string set \<Rightarrow> string list \<Rightarrow> string option \<Rightarrow> nat \<Rightarrow> string option" where
  "best_overlap ws [] best n = best"
| "best_overlap ws (cap # caps) best n =
     (let k = length (filter (\<lambda>w. w \<in> ws) (remdups (split_on (CHR ''-'') cap))) in
      if n < k then best_overlap ws caps (Some cap) k else best_overlap ws caps best n)"

definition fuzzy_match_capability :: "string \<Rightarrow> string list \<Rightarrow> string option" where
  "fuzzy_match_capability target available =
     (let t = replace_char (CHR '' '') (CHR ''-'') (replace_char (CHR ''_'') (CHR ''-'') (str_lower target)) in
      if t \<in> set available then Some t
      else case List.find (\<lambda>cap. contains t cap \<or> contains cap t) available of
        Some cap \<Rightarrow> Some cap
      | None \<Rightarrow> best_overlap (set (split_on (CHR ''-'') t)) available None 0)"

definition known_capability :: "string list \<Rightarrow> decomposed_task \<Rightarrow> decomposed_task option" where
  "known_capability available t =
     (if dt_capability t \<in> set available then Some t
      else case fuzzy_match_capability (dt_capability t) available of
        Some cap \<Rightarrow> if cap = [] then None else Some (t\<lparr>dt_capability := cap\<rparr>)
      | None \<Rightarrow> None)"

definition node_of_task :: "decomposed_task \<Rightarrow> dag_node" where
  "node_of_task t =
     \<lparr>dn_id = dt_id t, dn_capability = dt_capability t, dn_description = dt_description t,
      dn_depends_on = dt_depends_on t, dn_complexity = dt_complexity t, dn_agent = None, dn_task = None,
      dn_status = TsPending, dn_output = None, dn_error = None\<rparr>"

text \<open>One attempt: the nodes an answer stands for and the domain, then the graph.\<close>

definition read_answer :: "string list \<Rightarrow> string \<Rightarrow> (dag_node list \<times> string) option" where
  "read_answer available answer =
     Option.bind (extract_json answer) (\<lambda>v.
     Option.bind (tasks_of_json v) (\<lambda>(domain, tasks).
     Option.bind (those (map (known_capability available) tasks)) (\<lambda>known.
       Some (map node_of_task known, domain))))"

definition decompose_attempt :: "string list \<Rightarrow> string option \<Rightarrow> string + string \<Rightarrow> (dag \<times> string) option" where
  "decompose_attempt available hint answer =
     (case answer of
        Inl _ \<Rightarrow> None
      | Inr text \<Rightarrow>
          Option.bind (read_answer available text) (\<lambda>(nodes, domain).
            case make_dag nodes of
              Inl _ \<Rightarrow> None
            | Inr d \<Rightarrow> Some (d, if domain \<noteq> [] then domain
                                else case hint of Some h \<Rightarrow> if h \<noteq> [] then h else ''general'' | None \<Rightarrow> ''general'')))"

text \<open>\<open>answers k\<close> is what the model gives at attempt \<open>k\<close>; \<open>None\<close> is the \<open>OrchestrationError\<close>.\<close>

fun decompose_from :: "nat \<Rightarrow> string list \<Rightarrow> string option \<Rightarrow> (nat \<Rightarrow> string + string) \<Rightarrow> nat \<Rightarrow> (dag \<times> string) option" where
  "decompose_from 0 available hint answers k = None"
| "decompose_from (Suc n) available hint answers k =
     (case decompose_attempt available hint (answers k) of
        Some r \<Rightarrow> Some r
      | None \<Rightarrow> decompose_from n available hint answers (k + 1))"

definition decompose :: "string list \<Rightarrow> string option \<Rightarrow> (nat \<Rightarrow> string + string) \<Rightarrow> (dag \<times> string) option" where
  "decompose available hint answers = decompose_from (1 + max_decomposition_retries) available hint answers 0"

section \<open>Facts\<close>

lemma best_overlap_member: "best_overlap ws caps best n = Some c \<Longrightarrow> c \<in> set caps \<or> best = Some c"
  by (induction ws caps best n rule: best_overlap.induct) (auto simp: Let_def split: if_splits)

lemma fuzzy_match_available: "fuzzy_match_capability target available = Some c \<Longrightarrow> c \<in> set available"
  using best_overlap_member[of _ available None 0 c]
  by (auto simp: fuzzy_match_capability_def Let_def find_Some_iff split: if_splits option.splits)

lemma those_members: "those xs = Some ys \<Longrightarrow> y \<in> set ys \<Longrightarrow> Some y \<in> set xs"
  by (induction xs arbitrary: ys) (auto split: option.splits)

lemma known_capability_available: "known_capability available t = Some u \<Longrightarrow> dt_capability u \<in> set available"
  by (auto simp: known_capability_def dest: fuzzy_match_available split: if_splits option.splits)

lemma read_answer_nodes:
  assumes "read_answer available text = Some (nodes, domain)" and "n \<in> set nodes"
  shows "dn_capability n \<in> set available \<and> dn_status n = TsPending"
proof -
  from assms(1) obtain tasks known where k: "those (map (known_capability available) tasks) = Some known" "nodes = map node_of_task known"
    by (auto simp: read_answer_def bind_eq_Some_conv)
  with assms(2) obtain u where u: "u \<in> set known" "n = node_of_task u" by auto
  from those_members[OF k(1) u(1)] obtain t where "known_capability available t = Some u" by auto
  with u(2) known_capability_available show ?thesis by (simp add: node_of_task_def)
qed

lemma decompose_from_Some:
  "decompose_from n available hint answers k = Some (d, domain) \<Longrightarrow>
     \<exists>j a nodes dm. k \<le> j \<and> j < k + n \<and> answers j = Inr a \<and> read_answer available a = Some (nodes, dm) \<and> make_dag nodes = Inr d"
proof (induction n arbitrary: k)
  case (Suc n)
  show ?case
  proof (cases "decompose_attempt available hint (answers k)")
    case None
    with Suc obtain j a nodes dm where "k + 1 \<le> j \<and> j < k + 1 + n \<and> answers j = Inr a \<and> read_answer available a = Some (nodes, dm)
      \<and> make_dag nodes = Inr d" by fastforce
    then show ?thesis by (intro exI[of _ j] exI[of _ a] exI[of _ nodes] exI[of _ dm]) auto
  next
    case (Some r)
    with Suc.prems have "decompose_attempt available hint (answers k) = Some (d, domain)" by simp
    then obtain x nodes dm where x: "answers k = Inr x" "read_answer available x = Some (nodes, dm)"
        "(case make_dag nodes of Inl _ \<Rightarrow> None | Inr d \<Rightarrow> Some (d, if dm \<noteq> [] then dm
            else case hint of Some h \<Rightarrow> if h \<noteq> [] then h else ''general'' | None \<Rightarrow> ''general'')) = Some (d, domain)"
      by (cases "answers k") (auto simp: decompose_attempt_def bind_eq_Some_conv)
    then have "make_dag nodes = Inr d" by (cases "make_dag nodes") auto
    with x show ?thesis by auto
  qed
qed simp

section \<open>What decomposition and planning guarantee\<close>

text \<open>C26. A decomposed workflow can be run: when the language model's answers do not repeat a task id (which the
  code does not check), a graph that comes out of \<open>decompose\<close> uses available capabilities only, all of its
  nodes are pending, and it satisfies the execution invariant; so a run on it never hits the iteration
  limit, and one that finishes has settled every node, unless a policy rule denies an available
  capability (the built-in ones deny none but \<open>memory_write\<close>).\<close>

theorem decomposed_workflow_runs:
  assumes "decompose available hint answers = Some (d, domain)"
    and "\<forall>k a nodes dm. k \<le> max_decomposition_retries \<and> answers k = Inr a \<and> read_answer available a = Some (nodes, dm)
           \<longrightarrow> distinct (map dn_id nodes)"
  shows "exec_inv d \<and> (\<forall>n \<in> set (dag_nodes d). dn_capability n \<in> set available \<and> dn_status n = TsPending)
    \<and> (\<forall>E w agents st st'. ss_dag st = d \<longrightarrow> execute_workflow E w agents st \<noteq> Inr (RunRunaway st')
         \<and> (spares E w (set available) \<and> execute_workflow E w agents st = Inr (RunFinished st') \<longrightarrow> dag_is_complete (ss_dag st')))"
proof -
  from decompose_from_Some[OF assms(1)[unfolded decompose_def]] obtain j a nodes dm where
    j: "j < 1 + max_decomposition_retries" "answers j = Inr a" "read_answer available a = Some (nodes, dm)" "make_dag nodes = Inr d" by auto
  with assms(2) have dist: "distinct (map dn_id nodes)" by (metis One_nat_def Suc_eq_plus1_left less_Suc_eq_le)
  note ok = read_answer_nodes[OF j(3)]
  have x: "exec_inv d" by (rule fresh_exec_inv(1)[OF dist j(4)]) (use ok in blast)
  have nodes: "dag_nodes d = nodes" using make_dag_ok[OF dist j(4)] by simp
  have "dag_is_complete (ss_dag st')"
    if "ss_dag st = d" "spares E w (set available)" "execute_workflow E w agents st = Inr (RunFinished st')" for E w agents st st'
  proof -
    have "node_caps (ss_dag st) \<subseteq> set available" using ok by (auto simp: node_caps_def that(1) nodes)
    then have "spares E w (node_caps (ss_dag st))" using that(2) by (auto simp: spares_def)
    moreover have "\<forall>n \<in> set (dag_nodes (ss_dag st)). dn_status n \<noteq> TsRunning" using ok by (simp add: that(1) nodes)
    ultimately show ?thesis using run_completes[OF _ _ _ that(3)] x that(1) by blast
  qed
  moreover have "execute_workflow E w agents st \<noteq> Inr (RunRunaway st')" if "ss_dag st = d" for E w agents st st'
    using finished_run[of st] x that by blast
  ultimately show ?thesis using ok x nodes by blast
qed

text \<open>Which strategy a goal gets: without an explicit tool keyword in the prompt a high-risk goal is
  always verified, and answered directly is only a simple goal of low risk; with one, the plain pipeline
  is forced whatever the risk, so such a prompt skips the verification pass. The loop a plan asks for
  has at most five rounds.\<close>

theorem plan_by_risk:
  "(sg_risk g = ''high'' \<longrightarrow> (ep_mode (make_plan g) = VerifyAndRefine \<longleftrightarrow> \<not> contains_any explicit_tool_keywords (str_lower (sg_prompt g))))
   \<and> (ep_mode (make_plan g) = DirectResponse \<longrightarrow> sg_complexity g = ''simple'' \<and> sg_risk g = ''low'')
   \<and> (contains_any explicit_tool_keywords (str_lower (sg_prompt g)) \<longrightarrow> ep_mode (make_plan g) = DagPipeline)
   \<and> ep_max_iterations (make_plan g) \<in> {1..5} \<and> ep_goal (make_plan g) = g"
  by (simp add: make_plan_def)

theorem plan_by_risk_witness:
  "ep_mode (make_plan (heuristic_interpret ''Audit the patient records'')) = VerifyAndRefine
   \<and> ep_mode (make_plan (heuristic_interpret ''Audit the patient records in a sandbox'')) = DagPipeline"
proof -
  let ?a = "heuristic_interpret ''Audit the patient records''" and ?b = "heuristic_interpret ''Audit the patient records in a sandbox''"
  have "sg_risk ?a = ''high'' \<and> \<not> contains_any explicit_tool_keywords (str_lower (sg_prompt ?a))"
    "contains_any explicit_tool_keywords (str_lower (sg_prompt ?b))" by code_simp+
  then show ?thesis using plan_by_risk[of ?a] plan_by_risk[of ?b] by simp
qed

definition demo_answer :: string where
  "demo_answer = ''Here: ```json'' @ [CHR 0x0A] @ ''{'' @ [CHR 0x22] @ ''tasks'' @ [CHR 0x22] @ '':[{'' @ [CHR 0x22] @ ''id'' @ [CHR 0x22] @ '':''
     @ [CHR 0x22] @ ''t1'' @ [CHR 0x22] @ '','' @ [CHR 0x22] @ ''capability'' @ [CHR 0x22] @ '':'' @ [CHR 0x22] @ ''Web Research'' @ [CHR 0x22] @ '',''
     @ [CHR 0x22] @ ''description'' @ [CHR 0x22] @ '':'' @ [CHR 0x22] @ ''collect the facts'' @ [CHR 0x22] @ ''}]}'' @ [CHR 0x0A] @ ''```''"

theorem decomposed_workflow_runs_witness:
  "\<exists>d domain. decompose [''analysis'', ''web-research''] None (\<lambda>_. Inr demo_answer) = Some (d, domain)
     \<and> map dn_capability (dag_nodes d) = [''web-research''] \<and> exec_inv d"
proof -
  have "(case decompose [''analysis'', ''web-research''] None (\<lambda>_. Inr demo_answer) of
      None \<Rightarrow> False | Some (d, domain) \<Rightarrow> map dn_capability (dag_nodes d) = [''web-research''])"
    "(case read_answer [''analysis'', ''web-research''] demo_answer of None \<Rightarrow> False | Some (nodes, dm) \<Rightarrow> distinct (map dn_id nodes))"
    by code_simp+
  then obtain d domain where d: "decompose [''analysis'', ''web-research''] None (\<lambda>_. Inr demo_answer) = Some (d, domain)"
      "map dn_capability (dag_nodes d) = [''web-research'']"
    and dist: "\<forall>nodes dm. read_answer [''analysis'', ''web-research''] demo_answer = Some (nodes, dm) \<longrightarrow> distinct (map dn_id nodes)"
    by (auto split: option.splits)
  from decomposed_workflow_runs[OF d(1)] dist d show ?thesis by auto
qed

end
