(* ===== verification/Strategy.thy ===== *)
theory Strategy
  imports Planning Py_Number Scheduler_Demo Merkle
begin

text \<open>
  Models \<^verbatim>\<open>backend/app/intelligence/reflection.py\<close>, \<^verbatim>\<open>backend/app/intelligence/guardrails.py\<close>,
  \<^verbatim>\<open>backend/app/intelligence/composer.py\<close>, \<^verbatim>\<open>backend/app/orchestration/synthesizer.py\<close> and
  \<^verbatim>\<open>backend/app/intelligence/strategy_router.py\<close>: how a plan is executed.

  Answers of language models, elapsed times, the text of a \<open>Decimal\<close>, SHA-256, what the reflection
  cache holds, and pydantic's coercions to \<open>float\<close> and \<open>bool\<close> are parameters. Prompt texts are left
  out. An exception is \<open>Inl\<close> of its text.
\<close>

section \<open>Reflection\<close>

record reflection_env =
  re_float :: "json \<Rightarrow> pyfloat option"
  re_bool :: "json \<Rightarrow> bool option"
  re_platform :: platform
  re_cached :: "string \<Rightarrow> string option"

record reflection_result =
  rr_continue :: bool
  rr_confidence :: pyfloat
  rr_issues :: "string list"
  rr_suggestions :: "string list"
  rr_action :: string

definition reflection_of_json :: "reflection_env \<Rightarrow> json \<Rightarrow> reflection_result option" where
  "reflection_of_json R v =
     (case v of
        JObj kvs \<Rightarrow>
          Option.bind (optional_key kvs ''should_continue'' True (re_bool R)) (\<lambda>continue.
          Option.bind (optional_key kvs ''confidence'' (FFin (1 / 2)) (re_float R)) (\<lambda>confidence.
          Option.bind (optional_key kvs ''issues'' [] json_strs) (\<lambda>issues.
          Option.bind (optional_key kvs ''suggestions'' [] json_strs) (\<lambda>suggestions.
          Option.bind (optional_key kvs ''action'' ''accept'' json_str) (\<lambda>action.
            Some \<lparr>rr_continue = continue, rr_confidence = confidence, rr_issues = issues, rr_suggestions = suggestions,
                  rr_action = action\<rparr>)))))
      | _ \<Rightarrow> None)"

text \<open>\<open>_content_hash\<close>: an output is its capability and its content.\<close>

definition reflection_input :: "string \<Rightarrow> (string \<times> string) list \<Rightarrow> string" where
  "reflection_input goal outputs =
     goal @ [CHR 0x00] @ concat (map (\<lambda>(cap, content). cap @ [CHR 0x00] @ py_take 2000 content @ [CHR 0x00]) outputs)"

definition reflection_key :: "reflection_env \<Rightarrow> string \<Rightarrow> (string \<times> string) list \<Rightarrow> string" where
  "reflection_key R goal outputs = ''reflection:cache:'' @ hexdigest (re_platform R) (encode_utf8 (reflection_input goal outputs))"

definition cache_get :: "reflection_env \<Rightarrow> bool \<Rightarrow> string \<Rightarrow> (string \<times> string) list \<Rightarrow> reflection_result option" where
  "cache_get R has_redis goal outputs =
     (if \<not> has_redis then None
      else case re_cached R (reflection_key R goal outputs) of
        None \<Rightarrow> None
      | Some raw \<Rightarrow> if raw = [] then None else Option.bind (json_loads raw) (reflection_of_json R))"

definition no_outputs :: reflection_result where
  "no_outputs = \<lparr>rr_continue = True, rr_confidence = FFin 0, rr_issues = [''No outputs to evaluate''], rr_suggestions = [],
     rr_action = ''accept''\<rparr>"

definition reflection_fallback :: reflection_result where
  "reflection_fallback = \<lparr>rr_continue = False, rr_confidence = FFin (py_double (7 / 10)), rr_issues = [],
     rr_suggestions = [''Reflection LLM call failed, accepting outputs''], rr_action = ''accept''\<rparr>"

text \<open>The verdict, and the cache entry that is written, if any.\<close>

definition reflect :: "reflection_env \<Rightarrow> bool \<Rightarrow> string + string \<Rightarrow> string \<Rightarrow> (string \<times> string) list
    \<Rightarrow> reflection_result \<times> (string \<times> reflection_result) option" where
  "reflect R has_redis answer goal outputs =
     (if outputs = [] then (no_outputs, None)
      else case cache_get R has_redis goal outputs of
        Some r \<Rightarrow> (r, None)
      | None \<Rightarrow>
          (case answer of
             Inl _ \<Rightarrow> (reflection_fallback, None)
           | Inr a \<Rightarrow>
               (case Option.bind (Option.bind (brace_span (str_strip a)) json_loads) (reflection_of_json R) of
                  None \<Rightarrow> (reflection_fallback, None)
                | Some r \<Rightarrow> (r, if has_redis then Some (reflection_key R goal outputs, r) else None))))"

section \<open>Guardrails\<close>

record guardrails =
  gr_max_iterations :: nat
  gr_max_reflection_calls :: nat
  gr_max_branch_count :: nat
  gr_budget_ceiling :: rat
  gr_reflection_ceiling :: rat
  gr_max_total_tasks :: nat
  gr_max_seconds :: rat

definition default_guardrails :: guardrails where
  "default_guardrails = \<lparr>gr_max_iterations = 10, gr_max_reflection_calls = 5, gr_max_branch_count = 3, gr_budget_ceiling = 100,
     gr_reflection_ceiling = 10, gr_max_total_tasks = 20, gr_max_seconds = 300\<rparr>"

definition check_budget :: "guardrails \<Rightarrow> rat \<Rightarrow> rat \<Rightarrow> bool" where
  "check_budget G used limit \<longleftrightarrow> 0 < limit \<and> py_double (py_double (used / limit) * 100) < gr_budget_ceiling G"

definition check_reflection_budget :: "guardrails \<Rightarrow> rat \<Rightarrow> rat \<Rightarrow> bool" where
  "check_reflection_budget G cost budget \<longleftrightarrow> 0 < budget \<and> py_double (py_double (cost / budget) * 100) < gr_reflection_ceiling G"

definition should_force_stop :: "guardrails \<Rightarrow> nat \<Rightarrow> nat \<Rightarrow> rat \<Rightarrow> rat \<Rightarrow> rat \<Rightarrow> bool" where
  "should_force_stop G iteration reflections used limit elapsed \<longleftrightarrow>
     \<not> iteration < gr_max_iterations G \<or> \<not> reflections < gr_max_reflection_calls G \<or> \<not> check_budget G used limit
     \<or> gr_max_seconds G < elapsed"

section \<open>Answers\<close>

definition compose_confidence :: "nat \<Rightarrow> rat" where
  "compose_confidence n = py_round (min 1 (py_double (py_double (of_nat n / 5) * py_double (8 / 10)))) 2"

definition compose_answer :: "(rat \<Rightarrow> string) \<Rightarrow> string + llm_response \<Rightarrow> string \<Rightarrow> nat \<Rightarrow> string + (string \<times> json) list" where
  "compose_answer cost_text answer mode evidence =
     (if evidence = 0 then
        Inr [(''content'', JStr ''No evidence was collected during execution.''), (''confidence'', JFloat (FFin 0)),
             (''summary'', JStr (''Empty result '' @ [CHR 0xE2, CHR 0x80, CHR 0x94] @ '' no agent outputs.''))]
      else bindE answer (\<lambda>resp. Inr
        [(''content'', JStr (lr_content resp)), (''confidence'', JFloat (FFin (compose_confidence evidence))),
         (''summary'', JStr (''Composed from '' @ str_nat evidence @ '' evidence sources ('' @ mode @ '')'')),
         (''execution_mode'', JStr mode), (''synthesis_cost'', JStr (cost_text (lr_cost resp))),
         (''synthesis_tokens'', JInt (lr_tokens resp))]))"

definition has_structure :: "string \<Rightarrow> bool" where
  "has_structure content \<longleftrightarrow> contains_any [''##'', ''1.'', ''- '', ''**''] content"

definition has_conclusion :: "string \<Rightarrow> bool" where
  "has_conclusion content \<longleftrightarrow> contains_any [''conclusion'', ''recommend'', ''summary'', ''overall''] (str_lower content)"

definition bonus :: "bool \<Rightarrow> rat \<Rightarrow> rat" where
  "bonus b q = (if b then min 1 (py_double (q + py_double (1 / 10))) else q)"

definition synthesis_confidence :: "string \<Rightarrow> nat \<Rightarrow> nat \<Rightarrow> rat" where
  "synthesis_confidence content completed total_nodes =
     (let base = (if 0 < total_nodes then py_double (of_nat completed / of_nat total_nodes) else 0) in
      if content = [] then base
      else py_round (bonus (has_conclusion content) (bonus (has_structure content) (bonus (500 < py_len content) base))) 3)"

definition synthesize :: "(rat \<Rightarrow> string) \<Rightarrow> string + llm_response \<Rightarrow> dag \<Rightarrow> string + (string \<times> json) list" where
  "synthesize cost_text answer d =
     (case topological_sort d of
        Inl _ \<Rightarrow> Inl ''Cycle detected''
      | Inr order \<Rightarrow>
          if \<forall>n \<in> set order. dn_output n = None \<or> dn_output n = Some [] then
            Inr [(''content'', JStr ''No agent outputs were produced. All tasks may have failed.''), (''confidence'', JFloat (FFin 0)),
                 (''summary'', JStr ''Workflow produced no results.'')]
          else bindE answer (\<lambda>resp.
            let completed = count_status TsCompleted d; n = length (dag_nodes d) in
            Inr [(''content'', JStr (lr_content resp)),
                 (''confidence'', JFloat (FFin (py_round (synthesis_confidence (lr_content resp) completed n) 2))),
                 (''summary'', JStr (''Synthesized from '' @ str_nat completed @ ''/'' @ str_nat n @ '' completed tasks.'')),
                 (''synthesis_cost'', JStr (cost_text (lr_cost resp))), (''synthesis_tokens'', JInt (lr_tokens resp))]))"

section \<open>Strategies\<close>

record strategy_env =
  st_reflection :: reflection_env
  st_generate :: "nat \<Rightarrow> string + llm_response"
  st_verdict :: "nat \<Rightarrow> string + string"
  st_elapsed :: "nat \<Rightarrow> rat"
  st_cost_text :: "rat \<Rightarrow> string"
  st_answers :: "nat \<Rightarrow> string + string"
  st_agents :: "agent_row list"
  st_sched :: sched_env

datatype strategy_error = StrategyModel string | StrategyWallet wallet_error | StrategyDecompose | StrategySelect selector_error
  | StrategySched sched_error | StrategyPaused pause sched_state

record strategy_state =
  sy_mode :: "execution_mode option"
  sy_domain :: "string option"
  sy_run :: sched_state

definition bill :: "strategy_env \<Rightarrow> uuid \<Rightarrow> rat \<Rightarrow> string \<Rightarrow> sched_state \<Rightarrow> strategy_error + sched_state" where
  "bill S w amount reason st =
     (if 0 < amount then
        bindE (mapErr StrategyWallet (record_internal_cost (se_wallet (st_sched S)) w amount reason None (ss_wallet st)))
          (\<lambda>(event, wst). Inr (st\<lparr>ss_wallet := wst\<rparr>))
      else Inr st)"

definition finish :: "(string \<times> json) list \<Rightarrow> sched_state \<Rightarrow> sched_state" where
  "finish result st = st\<lparr>ss_status := WfCompleted, ss_result := Some result\<rparr>"

definition direct_response :: "strategy_env \<Rightarrow> uuid \<Rightarrow> plan \<Rightarrow> sched_state \<Rightarrow> strategy_error + (string \<times> json) list \<times> sched_state" where
  "direct_response S w p st =
     bindE (mapErr StrategyModel (st_generate S 1)) (\<lambda>resp.
     bindE (bill S w (tokens_to_credits (lr_cost resp)) ''direct_response synthesis cost'' (st\<lparr>ss_status := WfRunning\<rparr>)) (\<lambda>st1.
       let result = [(''content'', JStr (lr_content resp)), (''confidence'', JFloat (FFin (py_double (85 / 100)))),
             (''summary'', JStr ''Direct response (no multi-agent orchestration needed)''), (''execution_mode'', JStr ''direct_response''),
             (''synthesis_cost'', JStr (st_cost_text S (lr_cost resp))), (''synthesis_tokens'', JInt (lr_tokens resp))]
       in Inr (result, finish result st1)))"

text \<open>The rounds of \<open>_iterative\<close> after \<open>k\<close> of them: \<open>m\<close> are left, \<open>outputs\<close> the contents so far, \<open>cost\<close>
  the credits spent.\<close>

definition last_outputs :: "string list \<Rightarrow> (string \<times> string) list" where
  "last_outputs outputs =
     (let n = length outputs; named = map (\<lambda>(i, c). (''iteration_'' @ str_nat i, c)) (zip [1..<n + 1] outputs)
      in drop (n - 3) named)"

fun iterate :: "strategy_env \<Rightarrow> plan \<Rightarrow> rat \<Rightarrow> nat \<Rightarrow> nat \<Rightarrow> string list \<Rightarrow> int \<Rightarrow> rat
    \<Rightarrow> strategy_error + (nat \<times> string list \<times> int \<times> rat)" where
  "iterate S p limit 0 k outputs tokens cost = Inr (k, outputs, tokens, cost)"
| "iterate S p limit (Suc m) k outputs tokens cost =
     bindE (mapErr StrategyModel (st_generate S (k + 1))) (\<lambda>resp.
       let cost1 = py_double (cost + tokens_to_credits (lr_cost resp)); outputs1 = outputs @ [lr_content resp];
           tokens1 = tokens + lr_tokens resp;
           verdict = fst (reflect (st_reflection S) False (st_verdict S (k + 1)) (sg_prompt (ep_goal p)) (last_outputs outputs1))
       in if rr_action verdict = ''accept'' \<or> float_ge (rr_confidence verdict) (ep_threshold p)
             \<or> should_force_stop default_guardrails (k + 1) (k + 1) cost1 limit (st_elapsed S (k + 1))
          then Inr (k + 1, outputs1, tokens1, cost1)
          else iterate S p limit m (k + 1) outputs1 tokens1 cost1)"

definition iterative :: "strategy_env \<Rightarrow> uuid \<Rightarrow> plan \<Rightarrow> sched_state \<Rightarrow> strategy_error + (string \<times> json) list \<times> sched_state" where
  "iterative S w p st =
     bindE (mapErr StrategyWallet (get_workflow (ws_db (ss_wallet st)) w)) (\<lambda>flow.
     bindE (iterate S p (br_limit flow) (ep_max_iterations p) 0 [] 0 0) (\<lambda>(k, outputs, tokens, cost).
     bindE (bill S w cost (''iterative execution over '' @ str_nat k @ '' iterations'') (st\<lparr>ss_status := WfRunning\<rparr>)) (\<lambda>st1.
       let result = [(''content'', JStr (if outputs = [] then ''No output produced.'' else last outputs)),
             (''confidence'', JFloat (FFin (min (py_double (95 / 100)) (py_double (1 / 2 + py_double (of_nat k * py_double (1 / 10))))))),
             (''summary'', JStr (''Iterative refinement: '' @ str_nat k @ '' iterations, '' @ str_nat k @ '' reflections'')),
             (''execution_mode'', JStr ''iterative''), (''iterations'', JInt (int k)), (''synthesis_tokens'', JInt tokens)]
       in Inr (result, finish result st1))))"

text \<open>What the agents offer, the graph, its agents, and the run. A pause is an exception.\<close>

definition available_capabilities :: "agent_row list \<Rightarrow> string list" where
  "available_capabilities agents =
     sorted_set (concat (map (\<lambda>a. case ag_capabilities a of None \<Rightarrow> [] | Some cs \<Rightarrow> cs)
       (filter (\<lambda>a. ag_status a \<in> {AgActive, AgDegraded}) agents)))"

definition dag_pipeline :: "strategy_env \<Rightarrow> uuid \<Rightarrow> plan \<Rightarrow> strategy_state \<Rightarrow> strategy_error + (string \<times> json) list \<times> strategy_state" where
  "dag_pipeline S w p sy =
     (case decompose (available_capabilities (st_agents S)) (sg_domain (ep_goal p)) (st_answers S) of
        None \<Rightarrow> Inl StrategyDecompose
      | Some (d, domain) \<Rightarrow>
          bindE (mapErr StrategyWallet (get_workflow (ws_db (ss_wallet (sy_run sy))) w)) (\<lambda>flow.
          bindE (mapErr StrategySelect (select_agents_for_dag (st_agents S) d (max (py_double (br_limit flow - br_used flow)) 0)))
            (\<lambda>(assigned, d').
          bindE (mapErr StrategySched (execute_workflow (st_sched S) w assigned
                   ((sy_run sy)\<lparr>ss_dag := d', ss_status := WfDecomposing, ss_snapshot := dag_to_dict d\<rparr>))) (\<lambda>r.
            case r of
              RunPaused pz st \<Rightarrow> Inl (StrategyPaused pz st)
            | RunRunaway st \<Rightarrow> Inr ((case ss_result st of None \<Rightarrow> [] | Some kvs \<Rightarrow> kvs), sy\<lparr>sy_domain := Some domain, sy_run := st\<rparr>)
            | RunFinished st \<Rightarrow> Inr ((case ss_result st of None \<Rightarrow> [] | Some kvs \<Rightarrow> kvs), sy\<lparr>sy_domain := Some domain, sy_run := st\<rparr>)))))"

definition verification_note :: "reflection_result \<Rightarrow> rat \<Rightarrow> json" where
  "verification_note r threshold =
     (if rr_action r = ''accept'' \<and> float_ge (rr_confidence r) threshold
      then JObj [(''status'', JStr ''accepted''), (''confidence'', JFloat (rr_confidence r))]
      else JObj [(''status'', JStr (rr_action r)), (''confidence'', JFloat (rr_confidence r)),
                 (''issues'', JArr (map JStr (rr_issues r))), (''suggestions'', JArr (map JStr (rr_suggestions r)))])"

definition verify_and_refine :: "strategy_env \<Rightarrow> uuid \<Rightarrow> plan \<Rightarrow> strategy_state \<Rightarrow> strategy_error + (string \<times> json) list \<times> strategy_state" where
  "verify_and_refine S w p sy =
     bindE (dag_pipeline S w p sy) (\<lambda>(result, sy1).
       let content = (case map_of result ''content'' of Some (JStr c) \<Rightarrow> c | _ \<Rightarrow> []);
           verdict = fst (reflect (st_reflection S) False (st_verdict S 1) (sg_prompt (ep_goal p)) [(''dag_pipeline'', content)]);
           result1 = AList.update ''verification'' (verification_note verdict (ep_threshold p))
                       (AList.update ''execution_mode'' (JStr ''verify_and_refine'') result)
       in Inr (result1, sy1\<lparr>sy_run := (sy_run sy1)\<lparr>ss_result := Some result1\<rparr>\<rparr>))"

definition execute_plan :: "strategy_env \<Rightarrow> uuid \<Rightarrow> plan \<Rightarrow> strategy_state \<Rightarrow> strategy_error + (string \<times> json) list \<times> strategy_state" where
  "execute_plan S w p sy0 =
     (let sy = sy0\<lparr>sy_mode := Some (ep_mode p)\<rparr>;
          lift = (\<lambda>r. bindE r (\<lambda>(result, st). Inr (result, sy\<lparr>sy_run := st\<rparr>)))
      in case ep_mode p of
           DirectResponse \<Rightarrow> lift (direct_response S w p (sy_run sy))
         | Iterative \<Rightarrow> lift (iterative S w p (sy_run sy))
         | DagPipeline \<Rightarrow> dag_pipeline S w p sy
         | VerifyAndRefine \<Rightarrow> verify_and_refine S w p sy
         | ExploreAndPrune \<Rightarrow> verify_and_refine S w p sy)"

section \<open>What the guardrails guarantee\<close>

lemma check_budget_used: "check_budget G used limit \<Longrightarrow> gr_budget_ceiling G = 100 \<Longrightarrow> used < limit"
proof -
  assume a: "check_budget G used limit" "gr_budget_ceiling G = 100"
  then have l: "0 < limit" and "py_double (py_double (used / limit) * 100) < of_int 100" by (simp_all add: check_budget_def)
  from py_double_less_int[OF this(2)] have "py_double (used / limit) < of_int 1" by simp
  from py_double_less_int[OF this] l show ?thesis by simp
qed

lemma not_stopped:
  assumes "\<not> should_force_stop default_guardrails i r used limit elapsed"
  shows "i < 10 \<and> r < 5 \<and> used < limit \<and> elapsed \<le> 300"
  using assms check_budget_used[of default_guardrails used limit]
  by (simp add: should_force_stop_def) (simp add: default_guardrails_def)

text \<open>What the first \<open>k\<close> rounds have run up.\<close>

primrec spent_after :: "strategy_env \<Rightarrow> nat \<Rightarrow> rat" where
  "spent_after S 0 = 0"
| "spent_after S (Suc k) =
     (case st_generate S (Suc k) of Inl _ \<Rightarrow> spent_after S k
      | Inr resp \<Rightarrow> py_double (spent_after S k + tokens_to_credits (lr_cost resp)))"

text \<open>The rounds of a loop that has made \<open>k\<close> of them: it stays below both bounds, every round adds one
  output, and every round after the next one starts with less than the limit spent.\<close>

lemma iterate_rounds:
  assumes "iterate S p limit m k outputs tokens cost = Inr (k', outputs', tokens', cost')"
    and "length outputs = k" and "cost = spent_after S k"
  shows "k \<le> k' \<and> k' \<le> k + m \<and> length outputs' = k' \<and> k' \<le> max 5 (k + 1) \<and> cost' = spent_after S k'
    \<and> (\<forall>j. k < j \<and> j < k' \<longrightarrow> spent_after S j < limit)"
  using assms
proof (induction m arbitrary: k outputs tokens cost)
  case 0
  then show ?case by (auto simp: le_SucI)
next
  case (Suc m)
  from Suc.prems(1) obtain resp where g: "st_generate S (k + 1) = Inr resp"
    by (cases "st_generate S (k + 1)") auto
  let ?c = "py_double (cost + tokens_to_credits (lr_cost resp))" and ?o = "outputs @ [lr_content resp]"
  let ?v = "fst (reflect (st_reflection S) False (st_verdict S (k + 1)) (sg_prompt (ep_goal p)) (last_outputs ?o))"
  let ?stop = "rr_action ?v = ''accept'' \<or> float_ge (rr_confidence ?v) (ep_threshold p)
             \<or> should_force_stop default_guardrails (k + 1) (k + 1) ?c limit (st_elapsed S (k + 1))"
  have c: "?c = spent_after S (k + 1)" using g Suc.prems(3) by simp
  show ?case
  proof (cases ?stop)
    case True
    then have "(k', outputs', tokens', cost') = (k + 1, ?o, tokens + lr_tokens resp, ?c)"
      using Suc.prems(1) g by (simp add: Let_def split: if_splits)
    with Suc.prems(2) c show ?thesis by auto
  next
    case False
    then have n: "k + 1 < 5" "spent_after S (k + 1) < limit" using not_stopped c by metis+
    have it: "iterate S p limit m (k + 1) ?o (tokens + lr_tokens resp) ?c = Inr (k', outputs', tokens', cost')"
      using Suc.prems(1) g False by (simp add: Let_def split: if_splits)
    have len: "length ?o = k + 1" using Suc.prems(2) by simp
    note ih = Suc.IH[OF it len c]
    have "spent_after S j < limit" if "k < j" "j < k'" for j
      using that ih n(2) by (cases "j = k + 1") auto
    then show ?thesis using ih n(1) by auto
  qed
qed

text \<open>C27. The iterative strategy is bounded: it makes at most five rounds, each one generation and one
  reflection, and at most as many as the plan allows, whatever the model and the reviewer answer; what it
  bills is what its rounds ran up, and every round but the first starts only when the rounds before it
  have together run up less than the budget limit, not counting what the workflow had used before. A
  round is not estimated in advance, though: when the cost takes the workflow past the limit, the bill is
  refused and the run ends in an error, with none of its calls on the books.\<close>

theorem iterative_run_bounded:
  assumes "get_workflow (ws_db (ss_wallet st)) w = Inr flow"
    and "iterate S p (br_limit flow) (ep_max_iterations p) 0 [] 0 0 = Inr (k, outputs, tokens, cost)"
  shows "k \<le> 5 \<and> k \<le> ep_max_iterations p \<and> length outputs = k \<and> cost = spent_after S k
    \<and> (\<forall>j. 0 < j \<and> j < k \<longrightarrow> spent_after S j < br_limit flow)
    \<and> (0 < cost \<and> py_double (br_limit flow) < py_double (compute_balance (ws_db (ss_wallet st)) w + cost)
         \<longrightarrow> iterative S w p st = Inl (StrategyWallet BudgetExhausted))"
proof -
  have "iterative S w p st = Inl (StrategyWallet BudgetExhausted)"
    if "0 < cost" "py_double (br_limit flow) < py_double (compute_balance (ws_db (ss_wallet st)) w + cost)"
    using that assms by (simp add: iterative_def bill_def record_internal_cost_def Let_def bindE_def mapErr_def)
  with iterate_rounds[OF assms(2)] show ?thesis by auto
qed

text \<open>Verification is advisory: the strategy for high-risk goals fails exactly when the plain pipeline
  does, and otherwise leaves the workflow's status, its graph, its wallet and the answer as the pipeline
  left them, whatever the reviewer says; a rejected answer is only labelled.\<close>

theorem verification_is_advisory:
  "case dag_pipeline S w p sy of
     Inl e \<Rightarrow> verify_and_refine S w p sy = Inl e
   | Inr (result, sy1) \<Rightarrow>
       (\<exists>result' r sy'. verify_and_refine S w p sy = Inr (result', sy') \<and> map_of result' ''content'' = map_of result ''content''
          \<and> map_of result' ''verification'' = Some (verification_note r (ep_threshold p))
          \<and> sy' = sy1\<lparr>sy_run := (sy_run sy1)\<lparr>ss_result := Some result'\<rparr>\<rparr>)"
  by (auto simp: verify_and_refine_def bindE_def Let_def update_conv split: sum.splits)

section \<open>A run that overspends\<close>

definition demo_goal :: goal where
  "demo_goal = \<lparr>sg_prompt = ''Explain it'', sg_intent = ''explain'', sg_constraints = [], sg_risk = ''low'', sg_output = ''report'',
     sg_complexity = ''moderate'', sg_domain = None, sg_stops = []\<rparr>"

definition demo_round :: "rat \<Rightarrow> llm_response" where
  "demo_round cost = \<lparr>lr_content = ''draft'', lr_model = ''m'', lr_cost = cost, lr_tokens = 100, lr_latency = 0, lr_calls = [],
     lr_meta = []\<rparr>"

definition demo_reject :: string where
  "demo_reject = ''{'' @ [CHR 0x22] @ ''action'' @ [CHR 0x22] @ '':'' @ [CHR 0x22] @ ''retry'' @ [CHR 0x22] @ '',''
     @ [CHR 0x22] @ ''confidence'' @ [CHR 0x22] @ '':-1}''"

definition demo_reviewer :: reflection_env where
  "demo_reviewer = \<lparr>re_float = (\<lambda>v. case v of JInt i \<Rightarrow> Some (FFin (of_int i)) | _ \<Rightarrow> None), re_bool = (\<lambda>_. None),
     re_platform = demo_platform, re_cached = (\<lambda>_. None)\<rparr>"

definition demo_strategy :: strategy_env where
  "demo_strategy =
     \<lparr>st_reflection = demo_reviewer, st_generate = (\<lambda>k. Inr (demo_round (if k = 1 then 0 else 12 / 1000))),
      st_verdict = (\<lambda>_. Inr demo_reject), st_elapsed = (\<lambda>_. 1), st_cost_text = (\<lambda>_. []), st_answers = (\<lambda>_. Inl []),
      st_agents = [], st_sched = demo_sched []\<rparr>"

lemma demo_verdict:
  "case Option.bind (Option.bind (brace_span (str_strip demo_reject)) json_loads) (reflection_of_json demo_reviewer) of
     None \<Rightarrow> False | Some v \<Rightarrow> rr_action v = ''retry'' \<and> rr_confidence v = FFin (- 1)"
  by code_simp

lemma demo_rejected:
  "outputs \<noteq> [] \<Longrightarrow> rr_action (fst (reflect demo_reviewer False (Inr demo_reject) goal outputs)) = ''retry''
    \<and> rr_confidence (fst (reflect demo_reviewer False (Inr demo_reject) goal outputs)) = FFin (- 1)"
  using demo_verdict by (auto simp: reflect_def cache_get_def split: option.splits)

lemma demo_threshold: "make_plan demo_goal = \<lparr>ep_mode = Iterative, ep_goal = demo_goal, ep_max_iterations = 5,
    ep_threshold = py_double (8 / 10), ep_allocation = ep_allocation (make_plan demo_goal),
    ep_reasoning = ep_reasoning (make_plan demo_goal)\<rparr>" "\<not> py_double (8 / 10) \<le> - 1"
proof -
  have "\<not> contains_any explicit_tool_keywords (str_lower (sg_prompt demo_goal))" by code_simp
  then show "make_plan demo_goal = \<lparr>ep_mode = Iterative, ep_goal = demo_goal, ep_max_iterations = 5,
    ep_threshold = py_double (8 / 10), ep_allocation = ep_allocation (make_plan demo_goal),
    ep_reasoning = ep_reasoning (make_plan demo_goal)\<rparr>"
    by (simp add: make_plan_def) (simp add: demo_goal_def)
  show "\<not> py_double (8 / 10) \<le> - 1" using py_double_unit[of "8 / 10"] by linarith
qed

lemma iterate_stop:
  assumes "st_generate S (k + 1) = Inr resp"
    and "should_force_stop default_guardrails (k + 1) (k + 1) (py_double (cost + tokens_to_credits (lr_cost resp))) limit (st_elapsed S (k + 1))"
  shows "iterate S p limit (Suc m) k outputs tokens cost
    = Inr (k + 1, outputs @ [lr_content resp], tokens + lr_tokens resp, py_double (cost + tokens_to_credits (lr_cost resp)))"
  using assms by (simp add: Let_def)

lemma iterate_more:
  assumes "st_generate S (k + 1) = Inr resp"
    and "\<not> should_force_stop default_guardrails (k + 1) (k + 1) (py_double (cost + tokens_to_credits (lr_cost resp))) limit (st_elapsed S (k + 1))"
    and "rr_action (fst (reflect (st_reflection S) False (st_verdict S (k + 1)) (sg_prompt (ep_goal p))
           (last_outputs (outputs @ [lr_content resp])))) \<noteq> ''accept''"
    and "\<not> float_ge (rr_confidence (fst (reflect (st_reflection S) False (st_verdict S (k + 1)) (sg_prompt (ep_goal p))
           (last_outputs (outputs @ [lr_content resp]))))) (ep_threshold p)"
  shows "iterate S p limit (Suc m) k outputs tokens cost
    = iterate S p limit m (k + 1) (outputs @ [lr_content resp]) (tokens + lr_tokens resp) (py_double (cost + tokens_to_credits (lr_cost resp)))"
  using assms by (simp add: Let_def)

lemma demo_rounds:
  "iterate demo_strategy (make_plan demo_goal) 10 5 0 [] 0 0 = Inr (2, [''draft'', ''draft''], 200, 12)"
proof -
  have o: "last_outputs [''draft''] \<noteq> []" "last_outputs [''draft'', ''draft''] \<noteq> []" by (simp_all add: last_outputs_def)
  have d: "py_double 0 = 0" "py_double 12 = 12" using py_double_int[of 0] py_double_int[of 12] by simp_all
  have "\<not> check_budget default_guardrails 12 10"
    using check_budget_used[of default_guardrails 12 10] by (auto simp: default_guardrails_def)
  moreover have "check_budget default_guardrails 0 10" using d by (simp add: check_budget_def default_guardrails_def)
  ultimately have b: "check_budget default_guardrails 0 10" "\<not> check_budget default_guardrails 12 10" by simp_all
  have e: "ep_threshold (make_plan demo_goal) = py_double (8 / 10)" using demo_threshold(1) by (metis plan.select_convs(4))
  have f: "st_generate demo_strategy k = Inr (demo_round (if k = 1 then 0 else 12 / 1000))" "st_verdict demo_strategy k = Inr demo_reject"
      "st_reflection demo_strategy = demo_reviewer" "st_elapsed demo_strategy k = 1" for k by (simp_all add: demo_strategy_def)
  have c: "tokens_to_credits (lr_cost (demo_round 0)) = 0" "tokens_to_credits (lr_cost (demo_round (12 / 1000))) = 12"
      "lr_content (demo_round q) = ''draft''" "lr_tokens (demo_round q) = 100" for q
    using d by (simp_all add: tokens_to_credits_def demo_round_def)
  have "should_force_stop default_guardrails 2 2 12 10 1" "\<not> should_force_stop default_guardrails 1 1 0 10 1"
    using b by (simp_all add: should_force_stop_def) (simp_all add: default_guardrails_def)
  then have 2: "iterate demo_strategy (make_plan demo_goal) 10 4 1 [''draft''] 100 0 = Inr (2, [''draft'', ''draft''], 200, 12)"
    using iterate_stop[of demo_strategy 1 "demo_round (12 / 1000)" 0 10 "make_plan demo_goal" 3 "[''draft'']" 100] f c d
    by (simp add: numeral_2_eq_2[symmetric])
  show ?thesis
    using iterate_more[of demo_strategy 0 "demo_round 0" 0 10 "make_plan demo_goal" "[]" 4 0] f c d e 2 demo_threshold(2) demo_rejected[OF o(1)]
      \<open>\<not> should_force_stop default_guardrails 1 1 0 10 1\<close> by simp
qed

text \<open>The first call is free and the second costs more than the limit: both were made, neither is billed.\<close>

theorem iterative_run_bounded_witness:
  "iterative demo_strategy 1 (make_plan demo_goal) ((demo_state (raw_dag demo_pair) [])\<lparr>ss_wallet := demo_wallet []\<rparr>)
     = Inl (StrategyWallet BudgetExhausted)"
proof -
  let ?st = "(demo_state (raw_dag demo_pair) [])\<lparr>ss_wallet := demo_wallet []\<rparr>"
  have w: "get_workflow (ws_db (ss_wallet ?st)) 1 = Inr \<lparr>br_id = 1, br_limit = 10, br_used = 0\<rparr>"
    "compute_balance (ws_db (ss_wallet ?st)) 1 = 0" using demo_reads by simp_all
  have "ep_max_iterations (make_plan demo_goal) = 5" using demo_threshold(1) by (metis plan.select_convs(3))
  moreover have "py_double 12 = 12" using py_double_int[of 12] by simp
  ultimately show ?thesis
    using iterative_run_bounded[OF w(1), of demo_strategy "make_plan demo_goal"] demo_rounds w(2) by simp
qed

end
