(* ===== verification/Consensus.thy ===== *)
theory Consensus
  imports Py_Number Json_Parse Trust
begin

text \<open>
  Models \<^verbatim>\<open>backend/app/services/consensus_service.py\<close>: several verifiers judge an output and vote with
  their trust. What the language model answers for a verifier, an exception or a text, is a parameter;
  the prompt is left out.
\<close>

record consensus_result =
  cv_agreed :: bool
  cv_weighted :: pyfloat
  cv_count :: nat
  cv_details :: "(rated_agent \<times> json \<times> json \<times> json \<times> pyfloat) list"

definition consensus_threshold :: rat where
  "consensus_threshold = py_double (6 / 10)"

definition select_verifiers :: "nat \<Rightarrow> trust_db \<Rightarrow> rated_agent list" where
  "select_verifiers n db =
     take n (sort_key (\<lambda>a. - ag_trust_score a)
       (filter (\<lambda>a. ag_status a = AgActive \<and> has_capability ''verification'' (agent_row.truncate a)) (tb_agents db)))"

definition key_or :: "(string \<times> json) list \<Rightarrow> string \<Rightarrow> json \<Rightarrow> json" where
  "key_or kvs k d = (case map_of kvs k of None \<Rightarrow> d | Some v \<Rightarrow> v)"

text \<open>A text that is not JSON counts as this verdict.\<close>

definition parse_error_verdict :: json where
  "parse_error_verdict = JObj [(''agree'', JBool True), (''confidence'', JFloat (FFin (1 / 2))), (''reasoning'', JStr ''Parse error'')]"

text \<open>The vote of a verifier: what it says and its weight. An exception in here drops the verifier.\<close>

definition vote :: "(rated_agent \<Rightarrow> string + string) \<Rightarrow> rated_agent \<Rightarrow> (json \<times> json \<times> json \<times> pyfloat) option" where
  "vote answers a =
     (case answers a of
        Inl _ \<Rightarrow> None
      | Inr content \<Rightarrow>
          (case (case json_loads content of None \<Rightarrow> parse_error_verdict | Some v \<Rightarrow> v) of
             JObj kvs \<Rightarrow>
               (let confidence = key_or kvs ''confidence'' (JFloat (FFin (1 / 2))) in
                map_option (\<lambda>c. (key_or kvs ''agree'' (JBool True), confidence, key_or kvs ''reasoning'' (JStr []),
                                 f_scale (ag_trust_score a) c)) (json_factor confidence))
           | _ \<Rightarrow> None))"

text \<open>The loop: the total weight, the weight in favour and the details.\<close>

fun tally :: "(rated_agent \<Rightarrow> string + string) \<Rightarrow> rated_agent list \<Rightarrow> pyfloat \<Rightarrow> pyfloat
    \<Rightarrow> (rated_agent \<times> json \<times> json \<times> json \<times> pyfloat) list
    \<Rightarrow> pyfloat \<times> pyfloat \<times> (rated_agent \<times> json \<times> json \<times> json \<times> pyfloat) list" where
  "tally answers [] tot favour details = (tot, favour, details)"
| "tally answers (a # verifiers) tot favour details =
     (case vote answers a of
        None \<Rightarrow> tally answers verifiers tot favour details
      | Some (agree, confidence, reasoning, weight) \<Rightarrow>
          tally answers verifiers (f_add tot weight) (if json_truthy agree then f_add favour weight else favour)
            (details @ [(a, agree, confidence, reasoning, f_round 4 weight)]))"

definition verify_with_consensus :: "nat \<Rightarrow> uuid option \<Rightarrow> (rated_agent \<Rightarrow> string + string) \<Rightarrow> trust_db \<Rightarrow> consensus_result" where
  "verify_with_consensus n exclude_agent answers db =
     (let verifiers = select_verifiers n db in
      if verifiers = [] then \<lparr>cv_agreed = True, cv_weighted = FFin 1, cv_count = 0, cv_details = []\<rparr>
      else case tally answers verifiers (FFin 0) (FFin 0) [] of
        (tot, favour, details) \<Rightarrow>
          let ratio = (if float_pos tot then f_div favour tot else FFin 1)
          in \<lparr>cv_agreed = float_ge ratio consensus_threshold, cv_weighted = f_round 4 ratio, cv_count = length details,
              cv_details = details\<rparr>)"

section \<open>When the verifiers agree\<close>

text \<open>A verifier whose vote cannot be read: no answer, no JSON, or JSON that is not an object.\<close>

definition unreadable :: "(rated_agent \<Rightarrow> string + string) \<Rightarrow> rated_agent \<Rightarrow> bool" where
  "unreadable answers a \<longleftrightarrow>
     (case answers a of Inl _ \<Rightarrow> True | Inr content \<Rightarrow>
        (case json_loads content of None \<Rightarrow> True | Some (JObj _) \<Rightarrow> False | Some _ \<Rightarrow> True))"

lemma unreadable_vote:
  assumes "unreadable answers a"
  shows "vote answers a = None
    \<or> (\<exists>c r. vote answers a = Some (JBool True, c, r, f_of (ag_trust_score a * (1 / 2))))"
  using assms by (auto simp: unreadable_def vote_def parse_error_verdict_def key_or_def Let_def split: sum.splits option.splits json.splits)

lemma tally_NaN:
  "fst (tally answers vs FNaN favour details) = FNaN"
  by (induction answers vs "FNaN" favour details rule: tally.induct) (auto split: option.splits)

lemma tally_NaN_vote:
  "a \<in> set vs \<Longrightarrow> vote answers a = Some (g, c, r, FNaN) \<Longrightarrow> fst (tally answers vs tot favour details) = FNaN"
  by (induction vs arbitrary: tot favour details) (auto simp: tally_NaN split: option.splits)

lemma tally_unreadable:
  assumes "\<forall>a \<in> set vs. unreadable answers a \<and> 0 \<le> ag_trust_score a \<and> ag_trust_score a \<le> 1"
    and "0 \<le> t" and "t \<le> of_nat k" and "k + length vs < 2 ^ 53"
  shows "\<exists>t'. fst (tally answers vs (FFin t) (FFin t) details) = FFin t' \<and> fst (snd (tally answers vs (FFin t) (FFin t) details)) = FFin t'"
  using assms
proof (induction vs arbitrary: t k details)
  case (Cons a vs)
  show ?case
  proof (cases "vote answers a")
    case None
    with Cons show ?thesis by (auto intro: Cons.IH[of t k])
  next
    case (Some v)
    let ?w = "py_double (ag_trust_score a * (1 / 2))"
    have ta: "0 \<le> ag_trust_score a * (1 / 2)" "ag_trust_score a * (1 / 2) \<le> 1" using Cons.prems(1) by auto
    have w: "0 \<le> ?w" "?w \<le> 1" using py_double_unit[OF ta] by simp_all
    have big: "(1::rat) < 2 ^ 1024" by simp
    with w have fw: "f_of (ag_trust_score a * (1 / 2)) = FFin ?w" by (intro f_of_small) simp
    have "py_double (t + ?w) \<le> py_double (of_nat (Suc k))" using Cons.prems(3) w by (intro py_double_mono) simp
    moreover have "py_double (of_nat (Suc k)) = (of_nat (Suc k) :: rat)"
    proof -
      have "Suc k < 2 ^ 53" using Cons.prems(4) by simp
      then have "(of_nat (Suc k) :: rat) < 2 ^ 53" by (metis of_nat_less_iff of_nat_numeral of_nat_power)
      then show ?thesis by (intro py_double_int) auto
    qed
    ultimately have s: "py_double (t + ?w) \<le> of_nat (Suc k)" "0 \<le> py_double (t + ?w)" using Cons.prems(2) w by simp_all
    have "of_nat (Suc k) < (2 ^ 53 :: rat)" using Cons.prems(4) by (metis add_Suc_right add_lessD1 length_Cons of_nat_less_iff of_nat_numeral of_nat_power add.commute add_Suc)
    also have "(2 ^ 53 :: rat) \<le> 2 ^ 1024" by (rule power_increasing) simp_all
    finally have "f_add (FFin t) (FFin ?w) = FFin (py_double (t + ?w))" using s by (simp add: f_of_small)
    moreover obtain c r where "vote answers a = Some (JBool True, c, r, FFin ?w)"
      using unreadable_vote[of answers a] Cons.prems(1) Some fw by auto
    ultimately show ?thesis
      using Cons.IH[of "py_double (t + ?w)" "Suc k"] Cons.prems s by simp
  qed
qed simp

text \<open>Consensus fails open: an output passes the verification when no verifier says anything that can be
  read, whether the calls fail or the answers are not JSON objects; and it passes when a single verifier
  answers with a confidence of NaN, even if all of them, this one included, disagree.\<close>

theorem consensus_fails_open:
  assumes "(\<forall>a \<in> set (select_verifiers n db). unreadable answers a \<and> 0 \<le> ag_trust_score a \<and> ag_trust_score a \<le> 1)
         \<and> length (select_verifiers n db) < 2 ^ 53
    \<or> (\<exists>a \<in> set (select_verifiers n db). \<exists>g c r. vote answers a = Some (g, c, r, FNaN))"
  shows "cv_agreed (verify_with_consensus n exclude answers db)"
proof -
  have one: "consensus_threshold \<le> 1" using py_double_unit[of "6 / 10"] by (simp add: consensus_threshold_def)
  obtain t f d where r: "tally answers (select_verifiers n db) (FFin 0) (FFin 0) [] = (t, f, d)" by (metis prod_cases3)
  from assms have "float_ge (if float_pos t then f_div f t else FFin 1) consensus_threshold"
  proof
    assume "(\<forall>a \<in> set (select_verifiers n db). unreadable answers a \<and> 0 \<le> ag_trust_score a \<and> ag_trust_score a \<le> 1)
      \<and> length (select_verifiers n db) < 2 ^ 53"
    then obtain q where "t = FFin q" "f = FFin q" using tally_unreadable[of "select_verifiers n db" answers 0 0 "[]"] r by auto
    moreover have "f_of 1 = FFin 1" using py_double_int[of 1] by (simp add: f_of_def)
    ultimately show ?thesis using one by simp
  next
    assume "\<exists>a \<in> set (select_verifiers n db). \<exists>g c r. vote answers a = Some (g, c, r, FNaN)"
    then have "t = FNaN" using tally_NaN_vote[of _ "select_verifiers n db" answers _ _ _ "FFin 0" "FFin 0" "[]"] r by force
    then show ?thesis using one by simp
  qed
  with r show ?thesis by (simp add: verify_with_consensus_def Let_def)
qed

section \<open>When they do not\<close>

lemma tally_dissent:
  assumes "\<forall>a \<in> set vs. case vote answers a of None \<Rightarrow> True | Some (g, c, r, w) \<Rightarrow> \<not> json_truthy g \<and> (\<exists>q. w = FFin q \<and> 0 \<le> q)"
    and "tot = FFin t \<and> 0 \<le> t \<or> tot = FInf False"
  shows "fst (snd (tally answers vs tot favour details)) = favour
    \<and> (float_pos tot \<or> (\<exists>a \<in> set vs. \<exists>g c r w. vote answers a = Some (g, c, r, w) \<and> float_pos w)
         \<longrightarrow> float_pos (fst (tally answers vs tot favour details)))"
  using assms
proof (induction vs arbitrary: tot t details)
  case (Cons a vs)
  show ?case
  proof (cases "vote answers a")
    case None
    with Cons.prems Cons.IH[of tot t details] show ?thesis by auto
  next
    case (Some v)
    with Cons.prems(1) obtain g c r q where v: "vote answers a = Some (g, c, r, FFin q)" "\<not> json_truthy g" "0 \<le> q"
      by (cases v) auto
    have next_tot: "(\<exists>t'. f_add tot (FFin q) = FFin t' \<and> 0 \<le> t') \<or> f_add tot (FFin q) = FInf False"
      using Cons.prems(2) v(3) by (auto simp: f_of_def Let_def)
    have pos: "float_pos tot \<or> 0 < q \<longrightarrow> float_pos (f_add tot (FFin q))"
      using Cons.prems(2) v(3) f_of_pos[of "t + q"] by (auto intro: add_pos_nonneg add_nonneg_pos)
    have rest: "\<forall>a \<in> set vs. case vote answers a of None \<Rightarrow> True | Some (g, c, r, w) \<Rightarrow> \<not> json_truthy g \<and> (\<exists>q. w = FFin q \<and> 0 \<le> q)"
      using Cons.prems(1) by simp
    from next_tot obtain t' where "f_add tot (FFin q) = FFin t' \<and> 0 \<le> t' \<or> f_add tot (FFin q) = FInf False" by blast
    from Cons.IH[OF rest this, of "details @ [(a, g, c, r, f_round 4 (FFin q))]"] v pos show ?thesis by auto
  qed
qed simp

text \<open>C30. Unanimous dissent rejects: when every verifier whose vote counts disagrees, with a finite confidence that
  is not negative, and one of them has weight, the output is not agreed to.\<close>

theorem unanimous_dissent_rejects:
  assumes "\<forall>a \<in> set (select_verifiers n db). case vote answers a of None \<Rightarrow> True
             | Some (g, c, r, w) \<Rightarrow> \<not> json_truthy g \<and> (\<exists>q. w = FFin q \<and> 0 \<le> q)"
    and "\<exists>a \<in> set (select_verifiers n db). \<exists>g c r w. vote answers a = Some (g, c, r, w) \<and> float_pos w"
  shows "\<not> cv_agreed (verify_with_consensus n exclude answers db)"
proof -
  obtain t f d where r: "tally answers (select_verifiers n db) (FFin 0) (FFin 0) [] = (t, f, d)" by (metis prod_cases3)
  have p: "f = FFin 0" "float_pos t"
    using tally_dissent[OF assms(1), of "FFin 0" 0 "FFin 0" "[]"] assms(2) r by auto
  then have "f_div f t = FFin 0" by (cases t) auto
  moreover have "0 < consensus_threshold" using py_double_pos[of "6 / 10"] by (simp add: consensus_threshold_def)
  moreover have "select_verifiers n db \<noteq> []" using assms(2) by auto
  ultimately show ?thesis using r p by (simp add: verify_with_consensus_def Let_def)
qed

section \<open>At concrete votes\<close>

definition demo_verifier :: "uuid \<Rightarrow> rated_agent" where
  "demo_verifier i = (demo_rated (1 / 2))\<lparr>ag_id := i, ag_capabilities := Some [''verification'']\<rparr>"

definition demo_panel :: trust_db where
  "demo_panel = \<lparr>tb_agents = [demo_verifier 1, demo_verifier 2], tb_events = []\<rparr>"

definition dissent_answer :: "string \<Rightarrow> string" where
  "dissent_answer confidence = ''{'' @ [CHR 0x22] @ ''agree'' @ [CHR 0x22] @ '':false,'' @ [CHR 0x22] @ ''confidence'' @ [CHR 0x22]
     @ '':'' @ confidence @ ''}''"

lemma demo_panel_selected: "select_verifiers 3 demo_panel = [demo_verifier 1, demo_verifier 2]"
  by (simp add: select_verifiers_def demo_panel_def demo_verifier_def demo_rated_def has_capability_def agent_row.truncate_def)

lemma dissent_read:
  "json_loads (dissent_answer ''1'') = Some (JObj [(''agree'', JBool False), (''confidence'', JInt 1)])"
  "json_loads (dissent_answer ''NaN'') = Some (JObj [(''agree'', JBool False), (''confidence'', JFloat FNaN)])"
  by code_simp+

lemma dissent_votes:
  "vote (\<lambda>_. Inr (dissent_answer ''1'')) (demo_verifier i) = Some (JBool False, JInt 1, JStr [], FFin (1 / 2))"
  "vote (\<lambda>_. Inr (dissent_answer ''NaN'')) (demo_verifier i) = Some (JBool False, JFloat FNaN, JStr [], FNaN)"
proof -
  have "py_double 1 = 1" "py_double (1 / 2) = 1 / 2" using py_double_int[of 1] half_bounded(4) by simp_all
  then have "f_of 1 = FFin 1" "f_of (1 / 2) = FFin (1 / 2)" by (simp_all only: f_of_def Let_def) simp_all
  then have f: "f_of 1 = FFin 1" "f_of (ag_trust_score (demo_verifier i)) = FFin (1 / 2)" "f_of (of_int 1) = FFin 1"
    by (simp_all add: demo_verifier_def demo_rated_def)
  show
    "vote (\<lambda>_. Inr (dissent_answer ''1'')) (demo_verifier i) = Some (JBool False, JInt 1, JStr [], FFin (1 / 2))"
    "vote (\<lambda>_. Inr (dissent_answer ''NaN'')) (demo_verifier i) = Some (JBool False, JFloat FNaN, JStr [], FNaN)"
    by (simp_all add: vote_def dissent_read key_or_def f)
qed

theorem unanimous_dissent_rejects_witness:
  "\<not> cv_agreed (verify_with_consensus 3 None (\<lambda>_. Inr (dissent_answer ''1'')) demo_panel)"
proof (rule unanimous_dissent_rejects)
  have "(0::rat) \<le> 1 / 2" by simp
  then show "\<forall>a \<in> set (select_verifiers 3 demo_panel). case vote (\<lambda>_. Inr (dissent_answer ''1'')) a of None \<Rightarrow> True
      | Some (g, c, r, w) \<Rightarrow> \<not> json_truthy g \<and> (\<exists>q. w = FFin q \<and> 0 \<le> q)"
    by (simp only: demo_panel_selected list.set ball_simps dissent_votes option.case prod.case json_truthy.simps) blast
  show "\<exists>a \<in> set (select_verifiers 3 demo_panel). \<exists>g c r w. vote (\<lambda>_. Inr (dissent_answer ''1'')) a = Some (g, c, r, w) \<and> float_pos w"
    by (simp add: demo_panel_selected dissent_votes)
qed

text \<open>Both verifiers reject the output, one of them with a confidence of NaN: it passes.\<close>

theorem consensus_fails_open_witness:
  "cv_agreed (verify_with_consensus 3 None
     (\<lambda>a. if a = demo_verifier 1 then Inr (dissent_answer ''NaN'') else Inr (dissent_answer ''1'')) demo_panel)"
proof (rule consensus_fails_open, rule disjI2)
  have "vote (\<lambda>a. if a = demo_verifier 1 then Inr (dissent_answer ''NaN'') else Inr (dissent_answer ''1'')) (demo_verifier 1)
      = Some (JBool False, JFloat FNaN, JStr [], FNaN)"
    using dissent_votes(2)[of 1] by (simp add: vote_def)
  then show "\<exists>a \<in> set (select_verifiers 3 demo_panel). \<exists>g c r. vote (\<lambda>a. if a = demo_verifier 1 then Inr (dissent_answer ''NaN'')
      else Inr (dissent_answer ''1'')) a = Some (g, c, r, FNaN)"
    by (auto simp: demo_panel_selected)
qed

end
