(* ===== verification/Evolution.thy ===== *)
theory Evolution
  imports Trust "HOL-Library.AList"
begin

text \<open>
  Models \<^verbatim>\<open>backend/app/services/evolution_service.py\<close> and \<^verbatim>\<open>backend/app/models/score.py\<close>: scores of
  agents, their rankings, and the promotion and demotion by percentile.

  The average of the database is a parameter and groups come in table order; the event stream is left out.
\<close>

section \<open>State\<close>

record score_row =
  sc_agent :: uuid
  sc_workflow :: "uuid option"
  sc_quality :: rat
  sc_speed :: rat
  sc_cost :: rat
  sc_consistency :: rat
  sc_reliability :: rat
  sc_composite :: rat
  sc_created :: int

record evo_db =
  vb_agents :: "rated_agent list"
  vb_scores :: "score_row list"
  vb_rankings :: "(uuid \<times> rat) list"

definition promote_percentile :: nat where "promote_percentile = 90"
definition demote_percentile :: nat where "demote_percentile = 10"

definition scores_of :: "evo_db \<Rightarrow> uuid \<Rightarrow> score_row list" where
  "scores_of db i = filter (\<lambda>s. sc_agent s = i) (vb_scores db)"

text \<open>The average of a column over some rows; \<open>NULL\<close> when there is none, and \<open>float(x or 0)\<close> of it.\<close>

definition avg_of :: "trust_env \<Rightarrow> rat list \<Rightarrow> rat option" where
  "avg_of E xs = (if xs = [] then None else Some (tu_avg E xs))"

definition or_zero :: "rat option \<Rightarrow> rat" where
  "or_zero x = (case x of None \<Rightarrow> 0 | Some q \<Rightarrow> q)"

section \<open>Recording\<close>

definition record_score ::
  "trust_env \<Rightarrow> uuid \<Rightarrow> trust_scores \<Rightarrow> uuid option \<Rightarrow> int \<Rightarrow> evo_db \<Rightarrow> trust_error + score_row \<times> evo_db" where
  "record_score E i s workflow created db =
     bindE (find_rated (vb_agents db) i) (\<lambda>a.
       let composite = composite_score (tu_weights E) s;
           row = \<lparr>sc_agent = i, sc_workflow = workflow, sc_quality = tg_quality s, sc_speed = tg_latency s, sc_cost = tg_cost s,
                  sc_consistency = tg_consistency s, sc_reliability = tg_reliability s, sc_composite = py_round composite 4,
                  sc_created = created\<rparr>
       in Inr (row, db\<lparr>vb_scores := vb_scores db @ [row], vb_rankings := AList.update i composite (vb_rankings db)\<rparr>))"

section \<open>Reports\<close>

definition compute_percentile :: "trust_env \<Rightarrow> evo_db \<Rightarrow> uuid \<Rightarrow> rat" where
  "compute_percentile E db i =
     (case avg_of E (map sc_composite (scores_of db i)) of
        None \<Rightarrow> 50
      | Some mine \<Rightarrow>
          let agents = remdups (map sc_agent (vb_scores db)) in
          if length agents \<le> 1 then 50
          else let lower = length (filter (\<lambda>j. tu_avg E (map sc_composite (scores_of db j)) < mine) agents)
               in py_double (py_double (of_nat lower / of_nat (length agents)) * 100))"

record evolution_report =
  xp_agent :: uuid
  xp_name :: string
  xp_composite :: rat
  xp_percentile :: rat
  xp_trend :: rat
  xp_dimensions :: trust_scores
  xp_total :: nat

definition days :: "int \<Rightarrow> int" where
  "days n = n * 86400 * 10 ^ 6"

definition get_agent_evolution :: "trust_env \<Rightarrow> int \<Rightarrow> evo_db \<Rightarrow> uuid \<Rightarrow> trust_error + evolution_report" where
  "get_agent_evolution E now db i =
     bindE (find_rated (vb_agents db) i) (\<lambda>a.
       let rows = filter (\<lambda>s. now - days 30 \<le> sc_created s) (scores_of db i);
           avg = (\<lambda>f. py_round (or_zero (avg_of E (map f rows))) 4);
           recent = or_zero (avg_of E (map sc_composite (filter (\<lambda>s. now - days 7 \<le> sc_created s) (scores_of db i))));
           prev = or_zero (avg_of E (map sc_composite
                    (filter (\<lambda>s. now - days 14 \<le> sc_created s \<and> sc_created s < now - days 7) (scores_of db i))));
           trend = py_double (recent - (if prev = 0 then recent else prev))
       in Inr \<lparr>xp_agent = i, xp_name = ra_name a, xp_composite = avg sc_composite, xp_percentile = py_round (compute_percentile E db i) 1,
               xp_trend = py_round trend 4,
               xp_dimensions = \<lparr>tg_quality = avg sc_quality, tg_latency = avg sc_speed, tg_cost = avg sc_cost,
                 tg_consistency = avg sc_consistency, tg_reliability = avg sc_reliability\<rparr>,
               xp_total = length rows\<rparr>)"

definition get_score_history :: "evo_db \<Rightarrow> uuid \<Rightarrow> nat \<Rightarrow> nat \<Rightarrow> trust_error + score_row list \<times> nat" where
  "get_score_history db i page page_size =
     bindE (find_rated (vb_agents db) i) (\<lambda>a.
       Inr (page_of page page_size (sort_key (\<lambda>s. - sc_created s) (rev (scores_of db i)))))"

record agent_ranking =
  xk_rank :: nat
  xk_agent :: uuid
  xk_name :: string
  xk_composite :: rat
  xk_delta :: rat
  xk_total :: nat

definition get_rankings :: "trust_env \<Rightarrow> int \<Rightarrow> nat \<Rightarrow> string option \<Rightarrow> evo_db \<Rightarrow> agent_ranking list" where
  "get_rankings E now limit capability db =
     (let average = (\<lambda>a. or_zero (avg_of E (map sc_composite (scores_of db (ag_id a)))));
          listed = filter (\<lambda>a. ag_status a \<in> {AgActive, AgDegraded}
             \<and> (case capability of None \<Rightarrow> True | Some cap \<Rightarrow> cap = [] \<or> has_capability cap (agent_row.truncate a))) (vb_agents db);
          rows = take limit (sort_key (\<lambda>a. - average a) listed)
      in map (\<lambda>(rank, a).
           let older = filter (\<lambda>s. sc_created s < now - days 7) (scores_of db (ag_id a));
               prev = or_zero (avg_of E (map sc_composite older));
               delta = py_double (average a - (if prev = 0 then average a else prev))
           in \<lparr>xk_rank = rank, xk_agent = ag_id a, xk_name = ra_name a, xk_composite = py_round (average a) 4,
               xk_delta = py_round delta 4, xk_total = length (scores_of db (ag_id a))\<rparr>)
         (zip [1..<length rows + 1] rows))"

section \<open>Promotion and demotion\<close>

text \<open>\<open>int(n * (1 - percentile / 100))\<close> in floats.\<close>

definition percentile_index :: "nat \<Rightarrow> nat \<Rightarrow> nat" where
  "percentile_index n percentile =
     nat \<lfloor>py_double (of_nat n * py_double (1 - py_double (of_nat percentile / 100)))\<rfloor>"

definition qualifying :: "trust_env \<Rightarrow> evo_db \<Rightarrow> (rated_agent \<times> rat) list" where
  "qualifying E db =
     sort_key (\<lambda>(a, avg). - avg)
       (map (\<lambda>a. (a, tu_avg E (map sc_composite (scores_of db (ag_id a)))))
         (filter (\<lambda>a. ag_status a = AgActive \<and> 3 \<le> length (scores_of db (ag_id a))) (vb_agents db)))"

datatype movement = MovePromote | MoveDemote | MoveStay

definition movement :: "rat \<Rightarrow> rat \<Rightarrow> rated_agent \<times> rat \<Rightarrow> movement" where
  "movement promote_at demote_at = (\<lambda>(a, avg).
     if promote_at \<le> avg \<and> ra_safety a < 10 then MovePromote
     else if avg \<le> demote_at \<and> 1 < ra_safety a then MoveDemote else MoveStay)"

definition thresholds :: "(rated_agent \<times> rat) list \<Rightarrow> rat \<times> rat" where
  "thresholds rows =
     (let composites = map snd rows; n = length composites
      in (composites ! max 0 (percentile_index n promote_percentile), composites ! min (n - 1) (percentile_index n demote_percentile)))"

definition moved :: "movement \<Rightarrow> (rated_agent \<times> rat) list \<Rightarrow> rated_agent list" where
  "moved mv rows = (case thresholds rows of (p, d) \<Rightarrow> map fst (filter (\<lambda>r. movement p d r = mv) rows))"

definition add_level :: "uuid list \<Rightarrow> int \<Rightarrow> rated_agent list \<Rightarrow> rated_agent list" where
  "add_level ids k agents = map (\<lambda>a. if ag_id a \<in> set ids then a\<lparr>ra_safety := ra_safety a + k\<rparr> else a) agents"

definition promote_demote_agents :: "trust_env \<Rightarrow> evo_db \<Rightarrow> (string list \<times> string list) \<times> evo_db" where
  "promote_demote_agents E db =
     (let rows = qualifying E db in
      if length rows < 5 then (([], []), db)
      else let up = moved MovePromote rows; down = moved MoveDemote rows
           in ((map ra_name up, map ra_name down),
               db\<lparr>vb_agents := add_level (map ag_id down) (- 1) (add_level (map ag_id up) 1 (vb_agents db))\<rparr>))"

section \<open>Safety levels\<close>

definition levels_ok :: "evo_db \<Rightarrow> bool" where
  "levels_ok db \<longleftrightarrow> distinct (map ag_id (vb_agents db)) \<and> (\<forall>a \<in> set (vb_agents db). 1 \<le> ra_safety a \<and> ra_safety a \<le> 10)"

lemma qualifying_members: "r \<in> set (qualifying E db) \<Longrightarrow> fst r \<in> set (vb_agents db)"
  by (auto simp: qualifying_def)

lemma moved_members:
  "a \<in> set (moved mv (qualifying E db)) \<Longrightarrow> a \<in> set (vb_agents db)
     \<and> (\<exists>avg p d. thresholds (qualifying E db) = (p, d) \<and> (a, avg) \<in> set (qualifying E db) \<and> movement p d (a, avg) = mv)"
proof -
  assume a: "a \<in> set (moved mv (qualifying E db))"
  obtain p d where t: "thresholds (qualifying E db) = (p, d)" by (cases "thresholds (qualifying E db)")
  with a obtain avg where r: "(a, avg) \<in> set (qualifying E db)" "movement p d (a, avg) = mv" by (auto simp: moved_def)
  with t qualifying_members[OF r(1)] show ?thesis by auto
qed

lemma same_agent: "levels_ok db \<Longrightarrow> a \<in> set (vb_agents db) \<Longrightarrow> b \<in> set (vb_agents db) \<Longrightarrow> ag_id a = ag_id b \<Longrightarrow> a = b"
  by (auto simp: levels_ok_def distinct_map inj_on_def)

lemma qualifying_avg: "(a, x) \<in> set (qualifying E db) \<Longrightarrow> x = tu_avg E (map sc_composite (scores_of db (ag_id a)))"
  by (auto simp: qualifying_def)

lemma moved_iff:
  assumes "levels_ok db" and "a \<in> set (vb_agents db)"
  shows "ag_id a \<in> set (map ag_id (moved mv (qualifying E db))) \<longleftrightarrow> a \<in> set (moved mv (qualifying E db))"
proof
  assume "ag_id a \<in> set (map ag_id (moved mv (qualifying E db)))"
  then obtain b where b: "b \<in> set (moved mv (qualifying E db))" "ag_id b = ag_id a" by auto
  with same_agent[OF assms(1) _ assms(2)] moved_members show "a \<in> set (moved mv (qualifying E db))" by metis
qed auto

lemma moved_disjoint:
  assumes "a \<in> set (moved mv (qualifying E db))" and "a \<in> set (moved mv' (qualifying E db))"
  shows "mv = mv'"
proof -
  obtain x p d where x: "thresholds (qualifying E db) = (p, d)" "(a, x) \<in> set (qualifying E db)" "movement p d (a, x) = mv"
    using moved_members[OF assms(1)] by blast
  obtain y where y: "(a, y) \<in> set (qualifying E db)" "movement p d (a, y) = mv'"
    using moved_members[OF assms(2)] x(1) by auto
  from qualifying_avg[OF x(2)] qualifying_avg[OF y(1)] x(3) y(2) show ?thesis by simp
qed

text \<open>The new level of every agent.\<close>

definition new_level :: "trust_env \<Rightarrow> evo_db \<Rightarrow> rated_agent \<Rightarrow> int" where
  "new_level E db a =
     (if length (qualifying E db) < 5 then ra_safety a
      else if a \<in> set (moved MovePromote (qualifying E db)) then ra_safety a + 1
      else if a \<in> set (moved MoveDemote (qualifying E db)) then ra_safety a - 1 else ra_safety a)"

lemma promoted_levels:
  assumes "levels_ok db"
  shows "vb_agents (snd (promote_demote_agents E db)) = map (\<lambda>a. a\<lparr>ra_safety := new_level E db a\<rparr>) (vb_agents db)"
proof (cases "length (qualifying E db) < 5")
  case True
  then show ?thesis by (simp add: promote_demote_agents_def new_level_def map_idI)
next
  case False
  let ?up = "map ag_id (moved MovePromote (qualifying E db))" and ?down = "map ag_id (moved MoveDemote (qualifying E db))"
  have "vb_agents (snd (promote_demote_agents E db)) = add_level ?down (- 1) (add_level ?up 1 (vb_agents db))"
    using False by (simp add: promote_demote_agents_def Let_def)
  also have "\<dots> = map (\<lambda>a. a\<lparr>ra_safety := new_level E db a\<rparr>) (vb_agents db)"
  proof -
    have "(if ag_id a \<in> set ?up then a\<lparr>ra_safety := ra_safety a + 1\<rparr> else a) = (if a \<in> set (moved MovePromote (qualifying E db)) then a\<lparr>ra_safety := ra_safety a + 1\<rparr> else a)"
      "ag_id a \<in> set ?down \<longleftrightarrow> a \<in> set (moved MoveDemote (qualifying E db))"
      "a \<in> set (moved MovePromote (qualifying E db)) \<Longrightarrow> a \<notin> set (moved MoveDemote (qualifying E db))"
      if "a \<in> set (vb_agents db)" for a
      using moved_iff[OF assms that, of _ E] moved_disjoint[of a MovePromote E db MoveDemote] by auto
    with False show ?thesis by (simp add: add_level_def new_level_def)
  qed
  finally show ?thesis .
qed

lemma new_level_bounds:
  assumes "levels_ok db" and "a \<in> set (vb_agents db)"
  shows "1 \<le> new_level E db a \<and> new_level E db a \<le> 10 \<and> \<bar>new_level E db a - ra_safety a\<bar> \<le> 1"
proof -
  have l: "1 \<le> ra_safety a" "ra_safety a \<le> 10" using assms by (auto simp: levels_ok_def)
  have "a \<in> set (moved MovePromote (qualifying E db)) \<Longrightarrow> ra_safety a < 10"
    using moved_members[of a MovePromote E db] by (auto simp: movement_def split: if_splits)
  moreover have "a \<in> set (moved MoveDemote (qualifying E db)) \<Longrightarrow> 1 < ra_safety a"
    using moved_members[of a MoveDemote E db] by (auto simp: movement_def split: if_splits)
  ultimately show ?thesis using l by (auto simp: new_level_def)
qed

text \<open>C31. Promotion and demotion keep every safety level between 1 and 10, move no agent by more than one level in a
  run and never both ways, and leave the set of agents, their ids and their trust as they were.\<close>

theorem promotion_keeps_levels:
  assumes "levels_ok db"
  shows "levels_ok (snd (promote_demote_agents E db))
    \<and> list_all2 (\<lambda>a b. \<bar>ra_safety b - ra_safety a\<bar> \<le> 1 \<and> b = a\<lparr>ra_safety := ra_safety b\<rparr>) (vb_agents db)
         (vb_agents (snd (promote_demote_agents E db)))"
proof -
  have "map ag_id (map (\<lambda>a. a\<lparr>ra_safety := new_level E db a\<rparr>) (vb_agents db)) = map ag_id (vb_agents db)" by simp
  then show ?thesis
    using new_level_bounds[OF assms, of _ E] assms promoted_levels[OF assms, of E]
    by (auto simp: levels_ok_def list_all2_map2 list.rel_refl_strong simp del: map_map intro!: list.rel_refl_strong)
qed

section \<open>Ties\<close>

lemma percentile_index_less:
  assumes "0 < n" and "n < 2 ^ 53"
  shows "percentile_index n promote_percentile < n"
proof -
  have "7 / 8 \<le> py_double (90 / 100)" using py_double_ge_dyadic[of 7 3 "90 / 100"] by simp
  then have "py_double (1 - py_double (90 / 100)) \<le> 1 / 8" using py_double_le_dyadic[of "1 - py_double (90 / 100)" 1 3] by simp
  then have "of_nat n * py_double (1 - py_double (90 / 100)) \<le> of_nat n * (1 / 8)" by (intro mult_left_mono) simp_all
  then have "py_double (of_nat n * py_double (1 - py_double (90 / 100))) \<le> of_int (int n) / 2 ^ 3"
    using assms(2) by (intro py_double_le_dyadic) simp_all
  also have "\<dots> < of_int (int n)" using assms(1) by simp
  finally have "\<lfloor>py_double (of_nat n * py_double (1 - py_double (90 / 100)))\<rfloor> < int n" by (simp add: floor_less_iff)
  with assms(1) show ?thesis by (simp add: percentile_index_def promote_percentile_def nat_less_iff)
qed

lemma flat_thresholds:
  assumes "rows \<noteq> []" and "length rows < 2 ^ 53" and "\<forall>r \<in> set rows. snd r = x"
  shows "thresholds rows = (x, x)"
proof -
  have "snd (rows ! i) = x" if "i < length rows" for i using assms(3) that by (simp add: nth_mem)
  moreover have "percentile_index (length rows) promote_percentile < length rows"
    using assms(1,2) by (intro percentile_index_less) auto
  moreover have "min (length rows - 1) k < length rows" for k using assms(1) by (cases rows) auto
  ultimately show ?thesis by (simp add: thresholds_def Let_def)
qed

text \<open>With equal averages everyone moves: when at least five agents qualify and all have the same average, each
  of them below level 10 is promoted, not a tenth of them, and each at level 10 is demoted.\<close>

theorem ties_move_everyone:
  assumes "levels_ok db" and "5 \<le> length (qualifying E db)" and "length (qualifying E db) < 2 ^ 53"
    and "\<forall>r \<in> set (qualifying E db). snd r = x" and "(a, x) \<in> set (qualifying E db)"
  shows "new_level E db a = (if ra_safety a < 10 then ra_safety a + 1 else ra_safety a - 1)
    \<and> a\<lparr>ra_safety := new_level E db a\<rparr> \<in> set (vb_agents (snd (promote_demote_agents E db)))"
proof -
  have ne: "qualifying E db \<noteq> []" using assms(2) by auto
  have t: "thresholds (qualifying E db) = (x, x)" using flat_thresholds[OF ne assms(3,4)] .
  have a: "a \<in> set (vb_agents db)" using qualifying_members[OF assms(5)] by simp
  have l: "1 \<le> ra_safety a" "ra_safety a \<le> 10" using a assms(1) by (auto simp: levels_ok_def)
  have mem: "a \<in> set (moved mv (qualifying E db)) \<longleftrightarrow> movement x x (a, x) = mv" for mv
    using assms(4,5) by (auto simp: moved_def t image_iff)
  have "new_level E db a = (if ra_safety a < 10 then ra_safety a + 1 else ra_safety a - 1)"
    using assms(2) l mem[of MovePromote] mem[of MoveDemote] by (auto simp: new_level_def movement_def)
  moreover have "a\<lparr>ra_safety := new_level E db a\<rparr> \<in> set (vb_agents (snd (promote_demote_agents E db)))"
    using a promoted_levels[OF assms(1), of E] by simp
  ultimately show ?thesis by blast
qed

section \<open>At a concrete field\<close>

definition demo_scored :: "uuid \<Rightarrow> int \<Rightarrow> rated_agent" where
  "demo_scored i level = (demo_rated (1 / 2))\<lparr>ag_id := i, ra_safety := level\<rparr>"

definition demo_score :: "uuid \<Rightarrow> score_row" where
  "demo_score i = \<lparr>sc_agent = i, sc_workflow = None, sc_quality = 1, sc_speed = 1, sc_cost = 1, sc_consistency = 1,
     sc_reliability = 1, sc_composite = 1, sc_created = 0\<rparr>"

definition demo_field :: evo_db where
  "demo_field = \<lparr>vb_agents = [demo_scored 1 1, demo_scored 2 5, demo_scored 3 9, demo_scored 4 10, demo_scored 5 10],
     vb_scores = concat (map (\<lambda>i. replicate 3 (demo_score i)) [1, 2, 3, 4, 5]), vb_rankings = []\<rparr>"

lemma demo_field_ok: "levels_ok demo_field"
  by (simp add: levels_ok_def demo_field_def demo_scored_def demo_rated_def)

lemma demo_field_rows:
  "qualifying demo_trust_env demo_field = map (\<lambda>a. (a, 1)) (vb_agents demo_field)"
proof -
  have s: "map sc_composite (scores_of demo_field i) = [1, 1, 1]" if "i \<in> {1, 2, 3, 4, 5}" for i
    using that by (elim insertE emptyE) (simp_all add: scores_of_def demo_field_def demo_score_def numeral_3_eq_3)
  have avg: "tu_avg demo_trust_env [1, 1, 1] = 1" by (simp add: demo_trust_env_def mean_exact_def)
  have len: "length (scores_of demo_field i) = 3" if "i \<in> {1, 2, 3, 4, 5}" for i using s[OF that] by (metis length_map length_Cons list.size(3) numeral_3_eq_3)
  have ids: "\<forall>a \<in> set (vb_agents demo_field). ag_id a \<in> {1, 2, 3, 4, 5} \<and> ag_status a = AgActive"
    by (simp add: demo_field_def demo_scored_def demo_rated_def)
  then have "filter (\<lambda>a. ag_status a = AgActive \<and> 3 \<le> length (scores_of demo_field (ag_id a))) (vb_agents demo_field) = vb_agents demo_field"
    using len by (auto simp: filter_id_conv)
  moreover have "map (\<lambda>a. (a, tu_avg demo_trust_env (map sc_composite (scores_of demo_field (ag_id a))))) (vb_agents demo_field)
      = map (\<lambda>a. (a, 1)) (vb_agents demo_field)"
    using ids s avg by (auto intro!: map_cong)
  ultimately have "qualifying demo_trust_env demo_field = sort_key (\<lambda>(a, avg). - avg) (map (\<lambda>a. (a, 1)) (vb_agents demo_field))"
    by (simp only: qualifying_def)
  also have "\<dots> = map (\<lambda>a. (a, 1)) (vb_agents demo_field)" by (simp add: demo_field_def)
  finally show ?thesis .
qed

theorem promotion_keeps_levels_witness:
  "levels_ok (snd (promote_demote_agents demo_trust_env demo_field))"
  using promotion_keeps_levels[OF demo_field_ok] by blast

theorem ties_move_everyone_witness:
  "new_level demo_trust_env demo_field (demo_scored 1 1) = 2 \<and> new_level demo_trust_env demo_field (demo_scored 4 10) = 9"
proof -
  have r: "\<forall>r \<in> set (qualifying demo_trust_env demo_field). snd r = 1" "5 \<le> length (qualifying demo_trust_env demo_field)"
    "length (qualifying demo_trust_env demo_field) < 2 ^ 53" unfolding demo_field_rows by (simp_all add: demo_field_def)
  have m: "(demo_scored 1 1, 1) \<in> set (qualifying demo_trust_env demo_field)" "(demo_scored 4 10, 1) \<in> set (qualifying demo_trust_env demo_field)"
    unfolding demo_field_rows by (simp_all add: demo_field_def)
  show ?thesis
    using ties_move_everyone[OF demo_field_ok r(2,3,1) m(1)] ties_move_everyone[OF demo_field_ok r(2,3,1) m(2)]
    by (simp add: demo_scored_def demo_rated_def)
qed

end
