(* ===== verification/Content_Filter.thy ===== *)
theory Content_Filter
  imports Regex Py_Number Json_Parse Py_Strings "HOL-Library.Multiset"
begin

text \<open>
  Models \<^verbatim>\<open>backend/app/safety/content_filter.py\<close>: the patterns for personal data and harmful input, the
  comparison with embedded seed phrases, the optional ruling of a language model, and redaction.

  Contents are lists of code points. The embedding service, the Unicode database, what the language model
  answers and the text of a JSON value that is not a string are parameters.
\<close>

section \<open>Personal data\<close>

definition alnum :: "cls list" where
  "alnum = [Range 65 90, Range 97 122, Range 48 57]"

definition chars_of :: "string \<Rightarrow> cls list" where
  "chars_of s = map (\<lambda>c. Range c c) (cps s)"

definition ssn_re :: regex where
  "ssn_re = seqs [WordBoundary, digit_run 3, lit ''-'', digit_run 2, lit ''-'', digit_run 4, WordBoundary]"

definition credit_card_re :: regex where
  "credit_card_re =
     (let sep = opt (Chars False (Space # chars_of ''-''))
      in seqs [WordBoundary, digit_run 4, sep, digit_run 4, sep, digit_run 4, sep, digit_run 4, WordBoundary])"

definition email_re :: regex where
  "email_re = seqs [WordBoundary, plus1 (Chars False (alnum @ chars_of ''._%+-'')), lit ''@'',
     plus1 (Chars False (alnum @ chars_of ''.-'')), lit ''.'', Rep 2 None (Chars False [Range 65 90, Range 97 122]), WordBoundary]"

definition phone_re :: regex where
  "phone_re =
     (let sep = opt (Chars False (Space # chars_of ''-.''))
      in seqs [WordBoundary, opt (seqs [opt (lit ''+''), lit ''1'', sep]), opt (lit ''(''), digit_run 3, opt (lit '')''), sep, digit_run 3, sep,
           digit_run 4, WordBoundary])"

definition octet_re :: regex where
  "octet_re = alts [seqs [lit ''25'', Chars False [Range 48 53]], seqs [lit ''2'', Chars False [Range 48 52], digit_run 1],
     seqs [opt (Chars False [Range 48 49]), digit_run 1, opt (digit_run 1)]]"

definition ip_address_re :: regex where
  "ip_address_re = seqs [WordBoundary, exactly 3 (Seq octet_re (lit ''.'')), octet_re, WordBoundary]"

definition pii_patterns :: "(string \<times> regex \<times> string) list" where
  "pii_patterns =
     [(''ssn'', ssn_re, ''[REDACTED_SSN]''), (''credit_card'', credit_card_re, ''[REDACTED_CC]''),
      (''email'', email_re, ''[REDACTED_EMAIL]''), (''phone'', phone_re, ''[REDACTED_PHONE]''),
      (''ip_address'', ip_address_re, ''[REDACTED_IP]'')]"

record pii_match =
  pm_type :: string
  pm_location :: "nat \<times> nat"
  pm_redacted :: string

definition detect_pii :: "unicode \<Rightarrow> nat list \<Rightarrow> pii_match list" where
  "detect_pii U content =
     concat (map (\<lambda>(ty, r, token). map (\<lambda>loc. \<lparr>pm_type = ty, pm_location = loc, pm_redacted = token\<rparr>) (spans U False r content)) pii_patterns)"

definition replace_span :: "nat list \<Rightarrow> pii_match \<Rightarrow> nat list" where
  "replace_span result m = (case pm_location m of (a, b) \<Rightarrow> take a result @ cps (pm_redacted m) @ drop b result)"

text \<open>\<open>sorted(..., reverse=True)\<close> keeps the order of equal keys.\<close>

definition redact_pii :: "unicode \<Rightarrow> nat list \<Rightarrow> nat list" where
  "redact_pii U content =
     foldl replace_span content (sort_key (\<lambda>m. - int (fst (pm_location m))) (detect_pii U content))"

section \<open>Harmful input\<close>

definition sql_injection_re :: regex where
  "sql_injection_re = alts
     [seqs [lit ''union'', spaces1, lit ''select''], seqs [lit ''drop'', spaces1, lit ''table''], seqs [lit ''insert'', spaces1, lit ''into''],
      seqs [lit ''delete'', spaces1, lit ''from''], seqs [lit ''update'', spaces1, plus1 (Chars False [Word]), spaces1, lit ''set''],
      seqs [lit '';'', spaces, lit ''--''],
      seqs [cp1 39, spaces, lit ''or'', spaces1, cp1 39, lit ''1'', cp1 39, spaces, lit ''='', spaces, cp1 39, lit ''1'']]"

definition xss_attempt_re :: regex where
  "xss_attempt_re = alts
     [seqs [lit ''<'', spaces, lit ''script'', star (Chars True (chars_of ''>'')), lit ''>''], seqs [lit ''javascript'', spaces, lit '':''],
      seqs [lit ''on'', alts [lit ''error'', lit ''load'', lit ''click''], spaces, lit ''='']]"

definition path_traversal_re :: regex where
  "path_traversal_re = alts [Rep 2 None (lit ''../''), Rep 2 None (seqs [lit ''..%2'', set_of ''fF''])]"

definition command_injection_re :: regex where
  "command_injection_re = alts
     [seqs [lit '';'', spaces, alts (map lit [''rm'', ''cat'', ''wget'', ''curl'', ''bash'', ''sh'', ''python'', ''perl'', ''nc'']),
        Chars False [Space]],
      seqs [lit ''|'', spaces, alts [lit ''bash'', lit ''sh''], WordBoundary]]"

definition harmful_patterns :: "(string \<times> bool \<times> regex) list" where
  "harmful_patterns =
     [(''sql_injection'', True, sql_injection_re), (''xss_attempt'', True, xss_attempt_re),
      (''path_traversal'', False, path_traversal_re), (''command_injection'', False, command_injection_re)]"

definition detect_harmful_patterns :: "unicode \<Rightarrow> nat list \<Rightarrow> string list" where
  "detect_harmful_patterns U content =
     map (\<lambda>(label, _, _). ''regex:'' @ label) (filter (\<lambda>(_, ic, r). search U ic r content) harmful_patterns)"

section \<open>Similarity\<close>

text \<open>\<open>sum\<close> of floats carries a correction term since Python 3.12.\<close>

fun compensated :: "rat list \<Rightarrow> rat \<Rightarrow> rat \<Rightarrow> rat" where
  "compensated [] hi lo = (if lo = 0 then hi else py_double (hi + lo))"
| "compensated (x # xs) hi lo =
     (let t = py_double (hi + x);
          err = (if \<bar>x\<bar> \<le> \<bar>hi\<bar> then py_double (py_double (hi - t) + x) else py_double (py_double (x - t) + hi))
      in compensated xs t (py_double (lo + err)))"

definition py_sum :: "rat list \<Rightarrow> rat" where
  "py_sum xs = compensated xs 0 0"

definition cosine_similarity :: "rat list \<Rightarrow> rat list \<Rightarrow> rat" where
  "cosine_similarity a b =
     (let dot = py_sum (map (\<lambda>(x, y). py_double (x * y)) (zip a b));
          mag = (\<lambda>v. py_sqrt (py_sum (map (\<lambda>x. py_double (x * x)) v)))
      in if mag a = 0 \<or> mag b = 0 then 0 else py_double (dot / py_double (mag a * mag b)))"

definition category_seeds :: "(string \<times> string list) list" where
  "category_seeds =
     [(''harmful'',
        [''how to create a weapon'',
         ''instructions for making explosives'',
         ''detailed guide to harm someone'',
         ''bypass security and hack into systems'',
         ''generate malware or virus code'']),
      (''pii'',
        [''my social security number is'',
         ''here is my credit card number'',
         ''personal identification information'',
         ''home address and date of birth'',
         ''passport number and bank account details'']),
      (''sensitive'',
        [''confidential company financial data'',
         ''internal trade secrets'',
         ''private medical records'',
         ''classified government information'',
         ''proprietary algorithm details'']),
      (''safe'',
        [''hello how are you today'',
         ''please summarise this document'',
         ''what is the weather forecast'',
         ''explain quantum computing simply'',
         ''write a poem about nature''])]"

definition category_names :: "string list" where
  "category_names = map fst category_seeds"

text \<open>The embedding service: whether it is loaded, the vector of a content and those of a batch of phrases; an
  exception is \<open>None\<close>.\<close>

record filter_env =
  fe_unicode :: unicode
  fe_loaded :: bool
  fe_embed :: "nat list \<Rightarrow> rat list option"
  fe_embed_batch :: "string list \<Rightarrow> rat list list option"
  fe_text :: "json \<Rightarrow> string"

definition category_embeddings :: "filter_env \<Rightarrow> (string \<times> rat list list) list" where
  "category_embeddings F = map (\<lambda>(c, seeds). (c, case fe_embed_batch F seeds of None \<Rightarrow> [] | Some vs \<Rightarrow> vs)) category_seeds"

definition compute_similarities :: "rat list \<Rightarrow> (string \<times> rat list list) list \<Rightarrow> (string \<times> rat) list" where
  "compute_similarities v cats =
     map (\<lambda>(c, seeds). (c, if seeds = [] then 0 else py_round (foldl max 0 (map (cosine_similarity v) seeds)) 4)) cats"

definition classify_content :: "filter_env \<Rightarrow> nat list \<Rightarrow> (string \<times> rat) list" where
  "classify_content F content =
     (if \<not> fe_loaded F then map (\<lambda>c. (c, 0)) category_names
      else case fe_embed F content of
        None \<Rightarrow> map (\<lambda>c. (c, 0)) category_names
      | Some v \<Rightarrow> compute_similarities v (category_embeddings F))"

section \<open>The analysis\<close>

definition default_thresholds :: "(string \<times> rat) list" where
  "default_thresholds = [(''harmful'', py_double (65 / 100)), (''pii'', py_double (60 / 100)), (''sensitive'', py_double (55 / 100)),
     (''safe'', py_double (70 / 100))]"

text \<open>\<open>f"{q:.2f}"\<close> of a nonnegative float.\<close>

definition two_digits :: "nat \<Rightarrow> string" where
  "two_digits n = (if n < 10 then ''0'' else []) @ str_nat n"

definition fixed2 :: "rat \<Rightarrow> string" where
  "fixed2 q = (let n = nat (half_even (q * 100)) in str_nat (n div 100) @ ''.'' @ two_digits (n mod 100))"

definition threshold_of :: "(string \<times> rat) list \<Rightarrow> string \<Rightarrow> rat" where
  "threshold_of ts c = (case map_of ts c of None \<Rightarrow> py_double (6 / 10) | Some t \<Rightarrow> t)"

definition over_threshold :: "(string \<times> rat) list \<Rightarrow> (string \<times> rat) list \<Rightarrow> (string \<times> rat) list" where
  "over_threshold ts scores = filter (\<lambda>(c, s). c \<noteq> ''safe'' \<and> threshold_of ts c \<le> s) scores"

record content_analysis =
  ca_is_safe :: json
  ca_categories :: "(string \<times> rat) list"
  ca_pii :: "pii_match list"
  ca_flags :: "string list"
  ca_confidence :: json

text \<open>\<open>_llm_verify\<close>: an object with the key \<open>is_safe\<close>, or nothing.\<close>

definition llm_verify :: "string + string \<Rightarrow> (string \<times> json) list option" where
  "llm_verify answer =
     (case answer of
        Inl _ \<Rightarrow> None
      | Inr a \<Rightarrow>
          (case json_loads (str_strip a) of
             Some (JObj kvs) \<Rightarrow> if map_of kvs ''is_safe'' \<noteq> None then Some kvs else None
           | _ \<Rightarrow> None))"

text \<open>\<open>round(confidence, 4)\<close>; a \<open>TypeError\<close> is \<open>Inl\<close>.\<close>

fun round_confidence :: "json \<Rightarrow> string + json" where
  "round_confidence (JFloat x) = Inr (JFloat (f_round 4 x))"
| "round_confidence (JInt i) = Inr (JInt i)"
| "round_confidence (JBool b) = Inr (JInt (if b then 1 else 0))"
| "round_confidence _ = Inl ''type has no __round__ method''"

definition signals :: "filter_env \<Rightarrow> (string \<times> rat) list \<Rightarrow> nat list \<Rightarrow> string list" where
  "signals F ts content =
     (let pii = detect_pii (fe_unicode F) content
      in detect_harmful_patterns (fe_unicode F) content
         @ (if pii = [] then [] else [''pii_detected:'' @ str_nat (length pii)])
         @ map (\<lambda>(c, s). ''nlp:'' @ c @ '':'' @ fixed2 s) (over_threshold ts (classify_content F content)))"

definition raw_confidence :: "bool \<Rightarrow> (string \<times> rat) list \<Rightarrow> rat" where
  "raw_confidence safe scores =
     max (1 / 2) (if safe then (case map_of scores ''safe'' of None \<Rightarrow> 0 | Some s \<Rightarrow> s)
                  else foldl max 0 (map snd (filter (\<lambda>(c, _). c \<noteq> ''safe'') scores)))"

definition asks_llm :: "bool \<Rightarrow> string list \<Rightarrow> rat \<Rightarrow> bool" where
  "asks_llm enabled flags confidence \<longleftrightarrow>
     enabled \<and> flags \<noteq> [] \<and> py_double (40 / 100) \<le> confidence \<and> confidence \<le> 3 / 4"

definition analyze :: "filter_env \<Rightarrow> (string \<times> rat) list \<Rightarrow> bool \<Rightarrow> string + string \<Rightarrow> nat list \<Rightarrow> string + content_analysis" where
  "analyze F ts enabled answer content =
     (if list_all (space_cp (fe_unicode F)) content then
        Inr \<lparr>ca_is_safe = JBool True, ca_categories = [], ca_pii = [], ca_flags = [], ca_confidence = JFloat (FFin 1)\<rparr>
      else
        let pii = detect_pii (fe_unicode F) content; scores = classify_content F content; flags = signals F ts content;
            safe = (flags = []); confidence = raw_confidence safe scores;
            base = (\<lambda>s c fs. bindE (round_confidence c) (\<lambda>c'. Inr \<lparr>ca_is_safe = s, ca_categories = scores, ca_pii = pii, ca_flags = fs, ca_confidence = c'\<rparr>))
        in case (if asks_llm enabled flags confidence then llm_verify answer else None) of
             None \<Rightarrow> base (JBool safe) (JFloat (FFin confidence)) flags
           | Some kvs \<Rightarrow>
               let conf = (case map_of kvs ''confidence'' of None \<Rightarrow> JFloat (FFin confidence) | Some c \<Rightarrow> c);
                   flag = (case map_of kvs ''flag'' of None \<Rightarrow> JNull | Some f \<Rightarrow> f)
               in base (the (map_of kvs ''is_safe'')) conf
                    (if json_truthy flag then flags @ [''llm:'' @ (case flag of JStr s \<Rightarrow> s | _ \<Rightarrow> fe_text F flag)] else flags))"

section \<open>What the verdict rests on\<close>

text \<open>The verdict of the filter: a blank content is safe; other content is safe when no layer raised a signal, and
  then the language model is never asked; with a signal it is unsafe, unless the model is asked, which takes a confidence of
  at most 0.75, and answers with an object that has \<open>is_safe\<close>, whose value then is the verdict. A match of a
  harmful pattern or of personal data is such a signal and no more: the model can overrule it.\<close>

theorem verdict_by_signals:
  assumes "analyze F ts enabled answer content = Inr r" and "\<not> list_all (space_cp (fe_unicode F)) content"
  shows "(signals F ts content = [] \<longrightarrow> ca_is_safe r = JBool True)
    \<and> (signals F ts content \<noteq> [] \<longrightarrow> ca_is_safe r = JBool False
         \<or> enabled \<and> raw_confidence False (classify_content F content) \<le> 3 / 4
             \<and> (\<exists>kvs. llm_verify answer = Some kvs \<and> map_of kvs ''is_safe'' = Some (ca_is_safe r)))
    \<and> (detect_harmful_patterns (fe_unicode F) content \<noteq> [] \<or> detect_pii (fe_unicode F) content \<noteq> []
         \<longrightarrow> signals F ts content \<noteq> [])"
proof -
  let ?flags = "signals F ts content" and ?c = "raw_confidence (signals F ts content = []) (classify_content F content)"
  have sig: "detect_harmful_patterns (fe_unicode F) content \<noteq> [] \<or> detect_pii (fe_unicode F) content \<noteq> [] \<longrightarrow> ?flags \<noteq> []"
    by (auto simp: signals_def Let_def)
  show ?thesis
  proof (cases "if asks_llm enabled ?flags ?c then llm_verify answer else None")
    case None
    then have "analyze F ts enabled answer content = bindE (round_confidence (JFloat (FFin ?c))) (\<lambda>c'. Inr \<lparr>ca_is_safe = JBool (?flags = []),
        ca_categories = classify_content F content, ca_pii = detect_pii (fe_unicode F) content, ca_flags = ?flags, ca_confidence = c'\<rparr>)"
      using assms(2) by (simp add: analyze_def Let_def)
    with assms(1) have "ca_is_safe r = JBool (?flags = [])" by (auto simp: bindE_Inr_conv)
    with sig show ?thesis by simp
  next
    case (Some kvs)
    then have ask: "asks_llm enabled ?flags ?c" "llm_verify answer = Some kvs" by (simp_all split: if_splits)
    then have key: "map_of kvs ''is_safe'' = Some (the (map_of kvs ''is_safe''))"
      by (auto simp: llm_verify_def split: sum.splits option.splits json.splits if_splits)
    have "ca_is_safe r = the (map_of kvs ''is_safe'')"
      using assms Some by (auto simp: analyze_def Let_def bindE_Inr_conv)
    moreover have "enabled" "?flags \<noteq> []" "?c \<le> 3 / 4" using ask(1) by (auto simp: asks_llm_def)
    ultimately show ?thesis using ask(2) key sig by auto
  qed
qed

section \<open>Redaction\<close>

text \<open>The reference: the text with every span replaced, in one pass from left to right; \<open>i\<close> is the offset of \<open>t\<close>.\<close>

fun splice :: "nat \<Rightarrow> nat list \<Rightarrow> pii_match list \<Rightarrow> nat list" where
  "splice i t [] = t"
| "splice i t (m # ms) =
     (case pm_location m of (a, b) \<Rightarrow> take (a - i) t @ cps (pm_redacted m) @ splice b (drop (b - i) t) ms)"

lemma splice_take:
  assumes "ordered_in (i + k) n (map pm_location ms)"
  shows "splice i t ms = take k t @ splice (i + k) (drop k t) ms"
proof (cases ms)
  case (Cons m rest)
  obtain a b where ab: "pm_location m = (a, b)" by (cases "pm_location m")
  with assms Cons have "i + k \<le> a" "a < b" by auto
  then have "take (a - i) t = take k t @ take (a - (i + k)) (drop k t)" "drop (b - i) t = drop (b - (i + k)) (drop k t)"
    using take_add[of k "a - (i + k)" t] by (simp_all add: add.commute)
  with Cons ab show ?thesis by simp
qed simp

lemma replace_splice:
  assumes "ordered_in 0 (length t) (map pm_location (m # ms))"
  shows "replace_span (splice 0 t ms) m = splice 0 t (m # ms)"
proof -
  obtain a b where ab: "pm_location m = (a, b)" "a < b" "b \<le> length t" "ordered_in b (length t) (map pm_location ms)"
    using assms by (cases "pm_location m") auto
  have "splice 0 t ms = take b t @ splice b (drop b t) ms" using splice_take[of 0 b "length t" ms t] ab(4) by simp
  with ab show ?thesis by (simp add: replace_span_def)
qed

lemma foldl_replace:
  "ordered_in 0 (length t) (map pm_location ms) \<Longrightarrow> foldl replace_span t (rev ms) = splice 0 t ms"
proof (induction ms)
  case (Cons m ms)
  obtain a b where "pm_location m = (a, b)" by (cases "pm_location m")
  with Cons.prems have "ordered_in 0 (length t) (map pm_location ms)" by (auto intro: ordered_weaken)
  with Cons.IH have "foldl replace_span t (rev (m # ms)) = replace_span (splice 0 t ms) m" by simp
  also have "\<dots> = splice 0 t (m # ms)" by (rule replace_splice[OF Cons.prems])
  finally show ?case .
qed simp

lemma ordered_starts:
  "ordered_in lo hi (map pm_location ms) \<Longrightarrow> sorted (map (\<lambda>m. fst (pm_location m)) ms) \<and> distinct (map (\<lambda>m. fst (pm_location m)) ms)
     \<and> (\<forall>m \<in> set ms. lo \<le> fst (pm_location m))"
proof (induction ms arbitrary: lo)
  case (Cons m ms)
  obtain a b where ab: "pm_location m = (a, b)" by (cases "pm_location m")
  with Cons.prems have "lo \<le> a" "a < b" "ordered_in b hi (map pm_location ms)" by auto
  with Cons.IH[of b] ab show ?case by force
qed simp

lemma sort_descending:
  assumes "mset ms = mset xs" and "ordered_in 0 n (map pm_location ms)"
  shows "sort_key (\<lambda>m. - int (fst (pm_location m))) xs = rev ms"
proof (rule sort_key_inj_key_eq)
  note o = ordered_starts[OF assms(2)]
  show "mset xs = mset (rev ms)" using assms(1) by simp
  have "set ms = set xs" using assms(1) by (metis set_mset_mset)
  with o show "inj_on (\<lambda>m. - int (fst (pm_location m))) (set xs)" by (auto simp: distinct_map inj_on_def)
  have "sorted_wrt (\<lambda>m m'. fst (pm_location m) \<le> fst (pm_location m')) ms" using o by (simp add: sorted_map)
  then show "sorted (map (\<lambda>m. - int (fst (pm_location m))) (rev ms))" by (simp add: sorted_map sorted_wrt_rev)
qed

text \<open>C32. Redaction of spans that do not overlap is exact: when the matches of all categories together, in the order of the
  text, are disjoint, \<open>redact_pii\<close> is the text with each of them replaced by its token and nothing else changed.\<close>

theorem redaction_exact:
  assumes "mset ms = mset (detect_pii U content)" and "ordered_in 0 (length content) (map pm_location ms)"
  shows "redact_pii U content = splice 0 content ms"
  using foldl_replace[OF assms(2)] sort_descending[OF assms] by (simp add: redact_pii_def)

section \<open>Concrete texts\<close>

definition ascii_only :: unicode where
  "ascii_only = \<lparr>un_word = (\<lambda>_. False), un_space = (\<lambda>_. False), un_digit = (\<lambda>_. False), un_fold = (\<lambda>c. c)\<rparr>"

theorem redaction_exact_witness:
  "redact_pii ascii_only (cps ''id 123-45-6789 ok'') = cps ''id [REDACTED_SSN] ok''"
proof -
  let ?m = "\<lparr>pm_type = ''ssn'', pm_location = (3, 14), pm_redacted = ''[REDACTED_SSN]''\<rparr>"
  have d: "mset [?m] = mset (detect_pii ascii_only (cps ''id 123-45-6789 ok''))"
    "ordered_in 0 (length (cps ''id 123-45-6789 ok'')) (map pm_location [?m])"
    "splice 0 (cps ''id 123-45-6789 ok'') [?m] = cps ''id [REDACTED_SSN] ok''"
    by (rule arg_cong[of _ _ mset]) code_simp+
  from redaction_exact[OF d(1,2)] d(3) show ?thesis by simp
qed

text \<open>When they do overlap, as a number inside an address, the offsets no longer fit: part of the address stays.\<close>

lemma overlapping_redaction:
  "redact_pii ascii_only (cps ''123-45-6789@x.com'') = cps ''[REDACTED_EMAIL]com''"
  by code_simp

definition demo_filter :: filter_env where
  "demo_filter = \<lparr>fe_unicode = ascii_only, fe_loaded = False, fe_embed = (\<lambda>_. None), fe_embed_batch = (\<lambda>_. None), fe_text = (\<lambda>_. [])\<rparr>"

definition demo_ruling :: string where
  "demo_ruling = ''{'' @ [CHR 0x22] @ ''is_safe'' @ [CHR 0x22] @ '':true}''"

lemma demo_injection:
  "detect_harmful_patterns ascii_only (cps ''DROP  TABLE users'') = [''regex:sql_injection'']"
  "detect_pii ascii_only (cps ''DROP  TABLE users'') = []"
  "llm_verify (Inr demo_ruling) = Some [(''is_safe'', JBool True)]"
  "\<not> list_all (space_cp ascii_only) (cps ''DROP  TABLE users'')"
  by code_simp+

lemma demo_signals: "signals demo_filter default_thresholds (cps ''DROP  TABLE users'') = [''regex:sql_injection'']"
proof -
  have "over_threshold default_thresholds (classify_content demo_filter content) = []" for content
    using py_double_pos[of "65 / 100"] py_double_pos[of "60 / 100"] py_double_pos[of "55 / 100"]
    by (simp add: over_threshold_def classify_content_def demo_filter_def category_names_def category_seeds_def threshold_of_def default_thresholds_def)
  then show ?thesis by (simp add: signals_def Let_def demo_injection) (simp add: demo_filter_def demo_injection)
qed

text \<open>An SQL injection is reported: without the model it is unsafe, and a model that says so makes it safe.\<close>

theorem verdict_by_signals_witness:
  "\<exists>r r'. analyze demo_filter default_thresholds False (Inr demo_ruling) (cps ''DROP  TABLE users'') = Inr r \<and> ca_is_safe r = JBool False
     \<and> analyze demo_filter default_thresholds True (Inr demo_ruling) (cps ''DROP  TABLE users'') = Inr r' \<and> ca_is_safe r' = JBool True"
proof -
  let ?t = "cps ''DROP  TABLE users''"
  have U: "fe_unicode demo_filter = ascii_only" by (simp add: demo_filter_def)
  note no = demo_injection(4)[folded U]
  have c: "raw_confidence False (classify_content demo_filter ?t) = 1 / 2"
    by (simp add: raw_confidence_def classify_content_def demo_filter_def category_names_def category_seeds_def)
  have "py_double (40 / 100) \<le> 1 / 2" using py_double_le_dyadic[of "40 / 100" 1 1] by simp
  then have ask: "asks_llm True [''regex:sql_injection''] (1 / 2)" by (simp add: asks_llm_def)
  obtain r where r: "analyze demo_filter default_thresholds False (Inr demo_ruling) ?t = Inr r"
    using no by (simp add: analyze_def Let_def asks_llm_def)
  obtain r' where r': "analyze demo_filter default_thresholds True (Inr demo_ruling) ?t = Inr r'" "ca_is_safe r' = JBool True"
    using no c ask by (simp add: analyze_def Let_def demo_signals demo_injection(3))
  from verdict_by_signals[OF r no] r r' show ?thesis by (simp add: demo_signals)
qed

end
