(* ===== verification/Spec2Isabelle.thy ===== *)
theory Spec2Isabelle
  imports Gossip Wallet_Laws Circuit_Breaker Policy_Guards Approval Policy_Service Resume_Demo Identity_Service Strategy Consensus Evolution Injection_Detector
begin

text \<open>
  A verification library for MassClaw, a Python backend (\<^verbatim>\<open>backend/app\<close>) that runs workflows of
  language-model agents and federates their memory between nodes. The theories are translated from
  the code, function by function; names follow the code where HOL allows it.

  \<^bold>\<open>How the parts interact.\<close> Every node has an Ed25519 key and a DID derived from it. What agents
  write is stored as content-addressed, signed records; nodes compare 256-bucket fingerprints of
  their record hashes and pull what they lack over HTTP requests signed with the node key. A workflow
  is a graph of tasks: agents are selected for its nodes, a wallet reserves and charges budget, policy
  rules allow, deny or escalate actions, escalations wait for human approvals that expire, and calls
  to remote models go through a circuit breaker.

  \<^bold>\<open>Identity.\<close>
  \<^item> \<open>Positional\<close>, \<open>Base58\<close>: \<^verbatim>\<open>identity/_base58.py\<close>. The positional numeral lemmas make encoder and
    decoder mutually inverse, leading zeros included.
  \<^item> \<open>Json_Canon\<close>: \<^verbatim>\<open>identity/canonicalize.py\<close>. JSON values, escaping and \<open>emit\<close>; the bytes determine
    the value up to key order and integral floats, so signing the bytes signs the value.
  \<^item> \<open>Did\<close>: \<^verbatim>\<open>identity/signer.py\<close>, \<^verbatim>\<open>identity/did.py\<close>. Multibase keys and signatures, three DID methods,
    round trips and the fact that a DID determines its key.
  \<^item> \<open>Agent_Facts\<close>: \<^verbatim>\<open>identity/agent_facts.py\<close>. The published description of an agent, its JSON form, its
    builder, and the integrity credentials signed over the canonical bytes: what is attached verifies.
  \<^item> \<open>Did_Resolver\<close>: \<^verbatim>\<open>identity/did_resolver.py\<close>, \<^verbatim>\<open>identity/nanda_index.py\<close>. Three sources tried in order, and the
    client of one of them; what a resolved document is backed by, and that its key need not be the DID's.
  \<^item> \<open>Identity_Service\<close>: \<^verbatim>\<open>identity/key_store.py\<close>, \<^verbatim>\<open>services/identity_service.py\<close>, the writes of
    \<^verbatim>\<open>services/agent_service.py\<close> and the tool selection of \<^verbatim>\<open>tools/registry.py\<close>. Wrapped agent keys in the agents'
    metadata, documents with their cache; a step relation over requests, rotations and updates shows what
    keeps an agent's key and what does not.
  \<^item> \<open>Uuid\<close>, \<open>Py_Strings\<close>, \<open>Py_Text\<close>, \<open>Py_Float\<close>, \<open>Float_Order\<close>, \<open>Py_Number\<close>, \<open>Json_Parse\<close>, \<open>Regex\<close>: the Python
    library behaviour the components share: UUID text, \<open>split\<close>, \<open>strip\<close>, \<open>lower\<close>, \<open>int()\<close>, substring search;
    doubles and \<open>NUMERIC(12,4)\<close> as rounded rationals, with the order facts of rounding, and float
    arithmetic with infinities and NaN; \<open>json.loads\<close>, which reads back what \<open>Json_Canon\<close> writes; regular
    expressions as data with a backtracking matcher.

  \<^bold>\<open>Federated memory.\<close>
  \<^item> \<open>Crdt_Hashing\<close>, \<open>Merkle\<close>: \<^verbatim>\<open>crdt/hashing.py\<close>, \<^verbatim>\<open>crdt/merkle.py\<close>. Content hash and fingerprint; equal
    hashes or roots mean equal contents up to an explicit SHA-256 collision.
  \<^item> \<open>Crdt_Store\<close>: \<^verbatim>\<open>crdt/store.py\<close> over the tables of \<^verbatim>\<open>models/memory.py\<close>. \<open>put\<close> with every branch,
    the SAVEPOINT and the race with other writers; invariant, authenticity, idempotence, and
    order-independent delivery through the locale \<open>delivery_store\<close>.
  \<^item> \<open>Crdt_Sync\<close>, \<open>Peer_Auth\<close>, \<open>Peer_Client\<close>: \<^verbatim>\<open>crdt/sync.py\<close>, \<^verbatim>\<open>crdt/peer_auth.py\<close>,
    \<^verbatim>\<open>crdt/peer_client.py\<close>, \<^verbatim>\<open>api/memory_sync.py\<close>. The serving side with its cache, the request
    signatures, and the client that reads the replies.
  \<^item> \<open>Gossip\<close>: \<^verbatim>\<open>crdt/gossip.py\<close>, \<^verbatim>\<open>workers/crdt_gossip.py\<close>. A round over all of the above: safe for every
    peer (locale \<open>session_property\<close>), convergent for an honest one.

  \<^bold>\<open>Workflows.\<close>
  \<^item> \<open>Task_State\<close>, \<open>Dag\<close>: \<^verbatim>\<open>orchestration/state_machine.py\<close>, \<^verbatim>\<open>orchestration/dag.py\<close>. Transition table;
    validation, order, ready nodes, failure propagation, and executions as an inductive step relation.
  \<^item> \<open>Selector\<close>: \<^verbatim>\<open>orchestration/selector.py\<close>. The choice of agents and the budget bound.
  \<^item> \<open>Wallet\<close>, \<open>Wallet_Laws\<close>: \<^verbatim>\<open>services/wallet_service.py\<close>, \<^verbatim>\<open>models/wallet.py\<close>. The ledger, its cache
    and transaction; refinement to an abstract account, retries (locale \<open>idempotent_op\<close>), bounds.
  \<^item> \<open>Circuit_Breaker\<close>: \<^verbatim>\<open>core/circuit_breaker.py\<close>, with concurrent callers as interleaved steps.
  \<^item> \<open>Llm_Cost\<close>, \<open>Tool_Loop\<close>: \<^verbatim>\<open>core/llm_cost.py\<close> and the loop of model and tool calls of
    \<^verbatim>\<open>orchestration/scheduler.py\<close>, with its budget gate.
  \<^item> \<open>Checkpoint\<close>: \<^verbatim>\<open>orchestration/checkpoint.py\<close>, the stored form of a graph and the checkpoints kept as
    signed records; both round trips.
  \<^item> \<open>Scheduler\<close>: \<^verbatim>\<open>orchestration/scheduler.py\<close> with \<^verbatim>\<open>intelligence/self_correction.py\<close> and
    \<^verbatim>\<open>intelligence/dynamic_replanner.py\<close>. A whole run, batch by batch. \<open>Dag_Steps\<close> says what each graph
    operation changes, \<open>Scheduler_Graph\<close> that node ids and capabilities only grow along a run and which
    policy rules spare them, \<open>Scheduler_Inv\<close> and \<open>Scheduler_Laws\<close> carry one invariant through a batch: a
    run ends, and what it leaves. \<open>Scheduler_Ledger\<close> is about its money, \<open>Scheduler_Gates\<close> about its two
    gates, \<open>Scheduler_Demo\<close> has concrete runs. The loop bound \<open>max (5 * n) 50\<close> is the code's own; each
    batch uses up an attempt of some node, of which there are at most \<open>3 * n + 9\<close> (three per node, three
    added nodes), so the bound is never met.

  \<^bold>\<open>Safety.\<close>
  \<^item> \<open>Policy_Decision\<close>, \<open>Policy_Rules\<close>, \<open>Policy_Guards\<close>: \<^verbatim>\<open>safety/decision.py\<close>, \<^verbatim>\<open>safety/registry.py\<close>,
    \<^verbatim>\<open>safety/context.py\<close>, \<^verbatim>\<open>safety/rules/\<close>. Evaluation is equivalent to running all rules; what the
    ten built-in rules guarantee; the sliding-window limit.
  \<^item> \<open>Policy_Engine\<close>: \<^verbatim>\<open>safety/policy_engine.py\<close>, \<^verbatim>\<open>models/policy.py\<close>. Stored rules with JSON conditions.
  \<^item> \<open>Policy_Service\<close>: \<^verbatim>\<open>services/policy_service.py\<close>. The second evaluator, behind the endpoints, with its keyword
    screens: which rule decides, what is reported, and where it agrees with \<open>Policy_Engine\<close>.
  \<^item> \<open>Approval\<close>: \<^verbatim>\<open>safety/approval.py\<close>, \<^verbatim>\<open>safety/approval_janitor.py\<close>. Requests, decisions, expiry.
  \<^item> \<open>Federated_Approval\<close>: \<^verbatim>\<open>safety/federated_approval.py\<close>, \<^verbatim>\<open>api/approvals.py\<close>. Signed twins of requests and
    decisions in the store of \<open>Crdt_Store\<close>, reconciled with Redis.
  \<^item> \<open>Resume\<close>, \<open>Resume_Demo\<close>: \<^verbatim>\<open>orchestration/resume.py\<close>, the resume endpoint of \<^verbatim>\<open>api/workflows.py\<close>. From a
    checkpoint back to rows and a run, behind an approval.
  \<^item> \<open>Content_Filter\<close>, \<open>Injection_Detector\<close>: \<^verbatim>\<open>safety/content_filter.py\<close>,
    \<^verbatim>\<open>safety/injection_detector.py\<close>. Both screens with all their patterns and layers: what a verdict reports,
    what redaction leaves of a text, how many matches a text may have and still pass.

  \<^bold>\<open>Intelligence and trust.\<close>
  \<^item> \<open>Planning\<close>: \<^verbatim>\<open>intelligence/goal_interpreter.py\<close>, \<^verbatim>\<open>intelligence/planner.py\<close>,
    \<^verbatim>\<open>orchestration/decomposer.py\<close>. From a model's answer to a goal, a plan and a workflow graph; what is
    accepted is a graph that runs, over capabilities the agents offer.
  \<^item> \<open>Strategy\<close>: \<^verbatim>\<open>intelligence/reflection.py\<close>, \<^verbatim>\<open>intelligence/guardrails.py\<close>,
    \<^verbatim>\<open>intelligence/composer.py\<close>, \<^verbatim>\<open>orchestration/synthesizer.py\<close>,
    \<^verbatim>\<open>intelligence/strategy_router.py\<close>. The five strategies; the iterative one ends within its budgets.
  \<^item> \<open>Trust\<close>, \<open>Consensus\<close>, \<open>Evolution\<close>: \<^verbatim>\<open>services/trust_service.py\<close>, \<^verbatim>\<open>services/consensus_service.py\<close>,
    \<^verbatim>\<open>services/evolution_service.py\<close>, \<^verbatim>\<open>models/trust.py\<close>, \<^verbatim>\<open>models/score.py\<close>. How an agent's trust is
    updated and decays, how verifiers vote on an output, how scores promote and demote.

  \<^bold>\<open>Conventions.\<close> \<open>MC_Prelude\<close> has the result type \<open>'e + 'a\<close>, the map and list facts, and the rule
  collections. Python \<open>bytes\<close> are 8-bit words, \<open>str\<close> its UTF-8 bytes, \<open>int\<close> is unbounded; times are
  integers or doubles as in the code. A double is a rational rounded to 53 bits with an unbounded
  exponent; the wallet bounds assume ledgers whose amounts stay below \<open>10^9\<close>, where this agrees with
  the machine. Loops that the code bounds by a worklist or a counter are total functions with a
  measure, none needs fuel of its own.

  \<^bold>\<open>Parameters.\<close> What is not in the repository is an argument: Ed25519, SHA-256 and \<open>repr(float)\<close>
  (\<open>platform\<close>, \<open>ed25519\<close>), the database's fresh keys, column types and concurrent commits (\<open>db_env\<close>,
  \<open>wallet_env\<close>, \<open>engine_env\<close>), Redis failures and remote answers (\<open>approval_env\<close>, \<open>rule_env\<close>, the peer
  triple of \<open>Gossip\<close>), model and tool calls (\<open>tool_env\<close>), and whatever a run asks of other services
  (\<open>sched_env\<close>, indexed by batch and node). An answer of a language model is an exception or a text, given
  per call or per agent asked (\<open>Planning\<close>, \<open>reflection_env\<close>, \<open>strategy_env\<close>, \<open>Consensus\<close>); \<open>trust_env\<close> has the
  C library's \<open>log\<close> and \<open>pow\<close>, the database's average and the rows others have locked; \<open>unicode\<close> has
  Python's character tables, \<open>filter_env\<close> and \<open>detector_env\<close> the embedding service. \<open>key_env\<close> has the random
  source and ChaCha20-Poly1305, for which \<open>aead_ok\<close> states that decryption undoes encryption; \<open>resolver_env\<close>
  has pydantic's validation of a document, \<open>transport\<close> the HTTP replies of the index, \<open>identity_env\<close> settings,
  clock and whether Redis is up. Clocks are functions of
  how often they were read.

  \<^bold>\<open>Not modelled.\<close> Language-model clients and the text of prompts, embeddings and vector search, tools and
  transport adapters, HTTP request validation, logging and event streams: their behaviour is that of
  external services. The memory queries are SQL and vector arithmetic over the modelled store, the
  project and task services and the listing, search and health checks of agents read and write single
  tables; the fetcher of well-known documents and the registration of the instance with the index are
  plain HTTP calls. The manifest lists these parts one by one.
\<close>

end
